(* ===== verification/Prelude.thy ===== *)
theory Prelude
  imports Main "HOL-Library.AList"
begin

text \<open>
  Shared vocabulary of the development.

  \<^item> The errors the runtime throws, one constructor per \<^verbatim>\<open>throw\<close> site (or family of
    sites) of the modelled TypeScript; a function that may throw returns \<open>runtime_error + 'a\<close>.
  \<^item> The combinators of that result type: \<open>try_bind\<close> (a call whose exception propagates) and the
    array methods of JavaScript with a callback that may throw
    (\<^verbatim>\<open>every\<close>, \<^verbatim>\<open>some\<close>, \<^verbatim>\<open>filter\<close>,
    \<^verbatim>\<open>map\<close>, \<^verbatim>\<open>find\<close>, and the \<^verbatim>\<open>for ... of\<close> loop).
  \<^item> JavaScript's insertion ordered \<^verbatim>\<open>Map\<close> (and objects used as dictionaries) as
    association lists: \<^verbatim>\<open>set\<close> on an existing key keeps the key's position, on a new key
    appends. The locale \<open>ordered_map\<close> states the laws the rest of the development relies on and
    is interpreted on the association lists.
\<close>

named_theorems res_simps \<open>evaluation of the result combinators on callbacks that do not throw\<close>
named_theorems js_map_simps \<open>lookups in updated JavaScript maps\<close>

section \<open>Errors\<close>

text \<open>The codes of \<^verbatim>\<open>RemoteOwnershipConflictError\<close>
  (\<^verbatim>\<open>taskManager/remoteOwnershipTransitions.ts\<close>).\<close>

datatype remote_conflict_code =
    RemoteOwnershipRequiresExecutableBlock
  | RemoteOwnershipRequiresReadyBlock
  | RemoteOwnershipOperationConflict
  | RemoteOwnershipSourceConflict
  | RemoteOwnershipNotPreparing
  | RemoteOwnershipActivationConflict
  | RemoteOwnershipNotActive
  | RemoteOwnershipTerminalConflict
  | RemoteOwnershipStatusConflict
  | RemoteOwnershipSourceDrift

datatype runtime_error =
    GraphInvariantViolated string string  \<comment> \<open>missing key, index name\<close>
  | InvalidBlockRef string
  | TaskDoesNotExist string
  | BlockDoesNotExist string
  | MissingTaskState string
  | MissingBlockState string
  | RemoteOwnedBlockMissing string
  | RemoteOwnershipConflict remote_conflict_code
  | FeedbackSourceUnknown string
  | ClaimNotABlock string
  | EmptyReason string  \<comment> \<open>the command that needs a reason\<close>
  | OpenFeedbackBlocksMarkBlocked
  | BlockNotBlocked string
  | BlockNotInProgress string
  | BlockNotDiverged string
  | RemoteOwnedRelease string
  | NoActiveFeedback
  | SubmitReviewNotReview
  | ReviewResultMismatch
  | ReviewNotInProgress string
  | RemoteOwnedReview string
  | SubmitResultNotImplementation
  | RemoteOwnedSubmit string
  | RemoteCompletedReplay string
  | SubmitNotInProgress string
  | SubmissionAttemptConflict string
  | RemoteBlockResultConflict string
  | RemoteBlockSourceChanged string
  | RemoteBlockNotFound string
  | RemoteBlockNotExecutable string
  | RemoteBlockNotDispatchable string
  | IdAllocationExhausted string
  | NotAReviewBlock string
  | FileMissing string  \<comment> \<open>reading a file that does not exist\<close>
  | PackagePathOutside string
  | FileSystemError string  \<comment> \<open>an operation on a file fails; its name\<close>
  | RollbackFailed
  | FieldInvalid string  \<comment> \<open>an edit refuses the value of a field\<close>
  | RunIdInvalid
  | RunConflict string
  | AmbiguousRun string
  | MultipleAttemptRuns
  | PersistedReportMismatch string
  | ArtifactReferenceMismatch
  | SchemaInvalid string  \<comment> \<open>a zod schema rejects its input\<close>
  | RuntimeStateInvalid

type_synonym 'a res = "runtime_error + 'a"

section \<open>Results that may be an exception\<close>

definition try_bind :: "'e + 'a \<Rightarrow> ('a \<Rightarrow> 'e + 'b) \<Rightarrow> 'e + 'b" where
  "try_bind r f = (case r of Inl e \<Rightarrow> Inl e | Inr x \<Rightarrow> f x)"

fun every_res :: "('a \<Rightarrow> 'e + bool) \<Rightarrow> 'a list \<Rightarrow> 'e + bool" where
  "every_res p [] = Inr True"
| "every_res p (x # xs) = try_bind (p x) (\<lambda>b. if b then every_res p xs else Inr False)"

fun some_res :: "('a \<Rightarrow> 'e + bool) \<Rightarrow> 'a list \<Rightarrow> 'e + bool" where
  "some_res p [] = Inr False"
| "some_res p (x # xs) = try_bind (p x) (\<lambda>b. if b then Inr True else some_res p xs)"

fun filter_res :: "('a \<Rightarrow> 'e + bool) \<Rightarrow> 'a list \<Rightarrow> 'e + 'a list" where
  "filter_res p [] = Inr []"
| "filter_res p (x # xs) =
     try_bind (p x) (\<lambda>b. try_bind (filter_res p xs) (\<lambda>ys. Inr (if b then x # ys else ys)))"

fun map_res :: "('a \<Rightarrow> 'e + 'b) \<Rightarrow> 'a list \<Rightarrow> 'e + 'b list" where
  "map_res f [] = Inr []"
| "map_res f (x # xs) = try_bind (f x) (\<lambda>y. try_bind (map_res f xs) (\<lambda>ys. Inr (y # ys)))"

fun find_res :: "('a \<Rightarrow> 'e + bool) \<Rightarrow> 'a list \<Rightarrow> 'e + 'a option" where
  "find_res p [] = Inr None"
| "find_res p (x # xs) = try_bind (p x) (\<lambda>b. if b then Inr (Some x) else find_res p xs)"

fun for_res :: "('a \<Rightarrow> 's \<Rightarrow> 'e + 's) \<Rightarrow> 'a list \<Rightarrow> 's \<Rightarrow> 'e + 's" where
  "for_res f [] s = Inr s"
| "for_res f (x # xs) s = try_bind (f x s) (for_res f xs)"

lemma try_bind_simps [simp]:
  "try_bind (Inl e) f = Inl e" "try_bind (Inr x) f = f x"
  by (simp_all add: try_bind_def)

lemma try_bind_eq_Inr: "try_bind r f = Inr y \<longleftrightarrow> (\<exists>x. r = Inr x \<and> f x = Inr y)"
  by (cases r) auto

lemma try_bind_InrE:
  assumes "try_bind r f = Inr y"
  obtains x where "r = Inr x" and "f x = Inr y"
  using assms by (auto simp: try_bind_eq_Inr)

lemma try_bind_cong [fundef_cong]:
  "r = r' \<Longrightarrow> (\<And>x. r' = Inr x \<Longrightarrow> f x = g x) \<Longrightarrow> try_bind r f = try_bind r' g"
  by (cases r') auto

text \<open>A result that is a value with a property: the form in which results are evaluated.\<close>

fun res_holds :: "('a \<Rightarrow> bool) \<Rightarrow> 'e + 'a \<Rightarrow> bool" where
  "res_holds P (Inl e) = False"
| "res_holds P (Inr x) = P x"

lemma res_holds_iff: "res_holds P r \<longleftrightarrow> (\<exists>x. r = Inr x \<and> P x)"
  by (cases r) auto

lemma res_holdsE:
  assumes "res_holds P r"
  obtains x where "r = Inr x" and "P x"
  using assms by (auto simp: res_holds_iff)

lemma every_res_Inr [res_simps]:
  "(\<And>x. x \<in> set xs \<Longrightarrow> p x = Inr (q x)) \<Longrightarrow> every_res p xs = Inr (list_all q xs)"
  by (induction xs) auto

lemma some_res_Inr [res_simps]:
  "(\<And>x. x \<in> set xs \<Longrightarrow> p x = Inr (q x)) \<Longrightarrow> some_res p xs = Inr (list_ex q xs)"
  by (induction xs) auto

lemma filter_res_Inr [res_simps]:
  "(\<And>x. x \<in> set xs \<Longrightarrow> p x = Inr (q x)) \<Longrightarrow> filter_res p xs = Inr (filter q xs)"
  by (induction xs) auto

lemma map_res_Inr [res_simps]:
  "(\<And>x. x \<in> set xs \<Longrightarrow> f x = Inr (g x)) \<Longrightarrow> map_res f xs = Inr (map g xs)"
  by (induction xs) auto

lemma find_res_Inr [res_simps]:
  "(\<And>x. x \<in> set xs \<Longrightarrow> p x = Inr (q x)) \<Longrightarrow> find_res p xs = Inr (List.find q xs)"
  by (induction xs) auto

lemma for_res_append:
  "for_res f (xs @ ys) s = try_bind (for_res f xs s) (for_res f ys)"
proof (induction xs arbitrary: s)
  case Nil
  then show ?case by simp
next
  case (Cons x xs)
  then show ?case by (cases "f x s") simp_all
qed

text \<open>The loop rule: an invariant kept by every iteration that does not throw.\<close>

lemma for_res_invariant:
  assumes "for_res f xs s = Inr t" and "I s"
    and "\<And>x s s'. x \<in> set xs \<Longrightarrow> I s \<Longrightarrow> f x s = Inr s' \<Longrightarrow> I s'"
  shows "I t"
  using assms
proof (induction xs arbitrary: s)
  case Nil
  then show ?case by simp
next
  case (Cons x xs)
  from Cons.prems(1) obtain s' where s': "f x s = Inr s'" "for_res f xs s' = Inr t"
    by (auto elim: try_bind_InrE)
  have "I s'" by (rule Cons.prems(3) [OF _ Cons.prems(2) s'(1)]) simp
  with s'(2) show ?case using Cons.prems(3) by (intro Cons.IH [of s']) auto
qed

text \<open>What every iteration of a loop that ends without exception established.\<close>

lemma for_res_each:
  assumes "for_res f xs s = Inr t" and "I s"
    and "\<And>x s s'. x \<in> set xs \<Longrightarrow> I s \<Longrightarrow> f x s = Inr s' \<Longrightarrow> I s' \<and> Q x"
  shows "\<forall>x \<in> set xs. Q x"
  using assms
proof (induction xs arbitrary: s)
  case Nil
  then show ?case by simp
next
  case (Cons x xs)
  from Cons.prems(1) obtain s' where s': "f x s = Inr s'" "for_res f xs s' = Inr t"
    by (auto elim: try_bind_InrE)
  have "I s' \<and> Q x" by (rule Cons.prems(3) [OF _ Cons.prems(2) s'(1)]) simp
  moreover from this have "\<forall>x \<in> set xs. Q x" using Cons.prems(3) by (intro Cons.IH [OF s'(2)]) auto
  ultimately show ?case by simp
qed

text \<open>Total correctness of a loop: the invariant rules the exceptions out.\<close>

lemma for_res_total:
  assumes "I s" and "\<And>x s. x \<in> set xs \<Longrightarrow> I s \<Longrightarrow> \<exists>s'. f x s = Inr s' \<and> I s'"
  shows "\<exists>t. for_res f xs s = Inr t \<and> I t"
  using assms
proof (induction xs arbitrary: s)
  case Nil
  then show ?case by simp
next
  case (Cons x xs)
  from Cons.prems obtain s' where "f x s = Inr s'" "I s'" by force
  with Cons.prems(2) Cons.IH [of s'] show ?case by auto
qed

text \<open>The same with the set of elements handled so far, for loops that fill an index.\<close>

lemma for_res_total_progress:
  assumes "I P s" and "\<And>x P s. x \<in> set xs \<Longrightarrow> I P s \<Longrightarrow> \<exists>s'. f x s = Inr s' \<and> I (insert x P) s'"
  shows "\<exists>t. for_res f xs s = Inr t \<and> I (P \<union> set xs) t"
  using assms
proof (induction xs arbitrary: P s)
  case Nil
  then show ?case by simp
next
  case (Cons x xs)
  from Cons.prems(2) [of x P s] Cons.prems(1) obtain s' where "f x s = Inr s'" "I (insert x P) s'"
    by auto
  moreover with Cons.IH [of "insert x P" s'] Cons.prems(2)
  obtain t where "for_res f xs s' = Inr t" "I (insert x P \<union> set xs) t" by auto
  ultimately show ?case by auto
qed

lemma map_res_InrD: "map_res f xs = Inr ys \<Longrightarrow> x \<in> set xs \<Longrightarrow> \<exists>y \<in> set ys. f x = Inr y"
  by (induction xs arbitrary: ys) (auto elim!: try_bind_InrE)

section \<open>JavaScript maps\<close>

type_synonym ('k, 'v) js_map = "('k \<times> 'v) list"

definition map_get :: "('k, 'v) js_map \<Rightarrow> 'k \<Rightarrow> 'v option" where
  "map_get m k = map_of m k"

definition map_set :: "('k, 'v) js_map \<Rightarrow> 'k \<Rightarrow> 'v \<Rightarrow> ('k, 'v) js_map" where
  "map_set m k v = AList.update k v m"

definition map_has :: "('k, 'v) js_map \<Rightarrow> 'k \<Rightarrow> bool" where
  "map_has m k \<longleftrightarrow> k \<in> fst ` set m"

definition map_keys :: "('k, 'v) js_map \<Rightarrow> 'k list" where
  "map_keys m = map fst m"

definition map_delete :: "('k, 'v) js_map \<Rightarrow> 'k \<Rightarrow> ('k, 'v) js_map" where
  "map_delete m k = filter (\<lambda>p. fst p \<noteq> k) m"

definition map_wf :: "('k, 'v) js_map \<Rightarrow> bool" where
  "map_wf m \<longleftrightarrow> distinct (map fst m)"

text \<open>What the clients of a JavaScript \<^verbatim>\<open>Map\<close> rely on.\<close>

locale ordered_map =
  fixes emp :: "'m"
    and get :: "'m \<Rightarrow> 'k \<Rightarrow> 'v option"
    and put :: "'m \<Rightarrow> 'k \<Rightarrow> 'v \<Rightarrow> 'm"
    and del :: "'m \<Rightarrow> 'k \<Rightarrow> 'm"
    and keys :: "'m \<Rightarrow> 'k list"
    and wf :: "'m \<Rightarrow> bool"
  assumes get_emp: "get emp k = None"
    and get_put: "get (put m k v) k' = (if k' = k then Some v else get m k')"
    and get_del: "get (del m k) k' = (if k' = k then None else get m k')"
    and keys_get: "k \<in> set (keys m) \<longleftrightarrow> get m k \<noteq> None"
    and keys_put: "keys (put m k v) = (if k \<in> set (keys m) then keys m else keys m @ [k])"
    and wf_emp: "wf emp"
    and wf_put: "wf m \<Longrightarrow> wf (put m k v)"
    and wf_del: "wf m \<Longrightarrow> wf (del m k)"
begin

text \<open>Filling a map from a list of entries: the last write of a key wins.\<close>

lemma get_fold_put:
  "get (fold (\<lambda>p m. put m (fst p) (snd p)) kvs m) k =
     (case map_of (rev kvs) k of None \<Rightarrow> get m k | Some v \<Rightarrow> Some v)"
proof (induction kvs arbitrary: m)
  case Nil
  then show ?case by simp
next
  case (Cons p kvs)
  then show ?case
    by (cases p) (auto simp: get_put map_add_def split: option.splits)
qed

lemma keys_fold_put:
  "set (keys (fold (\<lambda>x m. put m x (f x)) xs m)) = set (keys m) \<union> set xs"
proof (induction xs arbitrary: m)
  case Nil
  then show ?case by simp
next
  case (Cons x xs)
  then show ?case by (auto simp: keys_put)
qed

lemma get_fold_put_fun:
  "get (fold (\<lambda>x m. put m x (f x)) xs m) k = (if k \<in> set xs then Some (f k) else get m k)"
  by (induction xs arbitrary: m) (auto simp: get_put)

lemma put_present_keys: "get m k \<noteq> None \<Longrightarrow> keys (put m k v) = keys m"
  by (simp add: keys_put keys_get)

end

lemma map_has_get: "map_has m k \<longleftrightarrow> map_get m k \<noteq> None"
  by (auto simp: map_has_def map_get_def map_of_eq_None_iff)

lemma map_of_filter_ne:
  "map_of (filter (\<lambda>p. fst p \<noteq> k) m) k' = (if k' = k then None else map_of m k')"
  by (induction m) auto

interpretation jm: ordered_map "[]" map_get map_set map_delete map_keys map_wf
proof (unfold_locales, goal_cases)
  case (1 k)
  show ?case by (simp add: map_get_def)
next
  case (2 m k v k')
  show ?case by (simp add: map_get_def map_set_def update_conv')
next
  case (3 m k k')
  show ?case by (simp add: map_get_def map_delete_def map_of_filter_ne)
next
  case (4 k m)
  show ?case by (auto simp: map_keys_def map_get_def map_of_eq_None_iff)
next
  case (5 m k v)
  show ?case by (simp add: map_keys_def map_set_def update_keys)
next
  case 6
  show ?case by (simp add: map_wf_def)
next
  case (7 m k v)
  then show ?case by (simp add: map_wf_def map_set_def distinct_update)
next
  case (8 m k)
  then show ?case by (simp add: map_wf_def map_delete_def distinct_map_filter)
qed

lemma map_set_same: "map_get m k = Some v \<Longrightarrow> map_set m k v = m"
  unfolding map_get_def map_set_def by (induction m) auto

lemma map_set_set: "map_set (map_set m k v) k w = map_set m k w"
  unfolding map_set_def by (induction m) auto

lemma map_wf_get: "map_wf m \<Longrightarrow> (k, v) \<in> set m \<longleftrightarrow> map_get m k = Some v"
  by (auto simp: map_wf_def map_get_def)

lemma map_get_mem: "map_get m k = Some v \<Longrightarrow> (k, v) \<in> set m"
  by (auto simp: map_get_def dest: map_of_SomeD)

lemmas [js_map_simps] = jm.get_emp jm.get_put jm.get_del map_has_get

lemma map_keys_set [simp]: "k \<in> set (map_keys m) \<longleftrightarrow> map_has m k"
  by (simp add: jm.keys_get map_has_get)

text \<open>\<^verbatim>\<open>graph/requireMapValue.ts\<close>: a key the index must hold.\<close>

definition requireMapValue :: "(string, 'v) js_map \<Rightarrow> string \<Rightarrow> string \<Rightarrow> 'v res" where
  "requireMapValue m key indexName =
     (case map_get m key of None \<Rightarrow> Inl (GraphInvariantViolated key indexName) | Some v \<Rightarrow> Inr v)"

lemma requireMapValue_Inr: "requireMapValue m k i = Inr v \<longleftrightarrow> map_get m k = Some v"
  by (simp add: requireMapValue_def split: option.splits)

lemma requireMapValue_Some [simp]: "map_get m k = Some v \<Longrightarrow> requireMapValue m k i = Inr v"
  by (simp add: requireMapValue_Inr)

text \<open>\<^verbatim>\<open>requireMapValue(map, key, name).push(x)\<close>.\<close>

definition map_push ::
  "(string, 'a list) js_map \<Rightarrow> string \<Rightarrow> 'a \<Rightarrow> string \<Rightarrow> (string, 'a list) js_map res" where
  "map_push m key x indexName =
     try_bind (requireMapValue m key indexName) (\<lambda>xs. Inr (map_set m key (xs @ [x])))"

lemma map_push_Some: "map_get m k = Some xs \<Longrightarrow> map_push m k x i = Inr (map_set m k (xs @ [x]))"
  by (simp add: map_push_def)

lemma map_push_InrE:
  assumes "map_push m k x i = Inr m'"
  obtains xs where "map_get m k = Some xs" and "m' = map_set m k (xs @ [x])"
  using assms by (auto simp: map_push_def requireMapValue_Inr elim!: try_bind_InrE)

section \<open>JavaScript sets and arrays\<close>

text \<open>\<^verbatim>\<open>[...new Set(xs)]\<close>: the first occurrence of every element, in order.\<close>

definition js_dedup :: "'a list \<Rightarrow> 'a list" where
  "js_dedup xs = rev (fold (\<lambda>x acc. if x \<in> set acc then acc else x # acc) xs [])"

lemma js_dedup_fold:
  "set (fold (\<lambda>x acc. if x \<in> set acc then acc else x # acc) xs acc) = set xs \<union> set acc \<and>
   (distinct acc \<longrightarrow> distinct (fold (\<lambda>x acc. if x \<in> set acc then acc else x # acc) xs acc))"
  by (induction xs arbitrary: acc) auto

lemma set_js_dedup [simp]: "set (js_dedup xs) = set xs"
  by (simp add: js_dedup_def js_dedup_fold)

lemma distinct_js_dedup [simp]: "distinct (js_dedup xs)"
  by (simp add: js_dedup_def js_dedup_fold)

text \<open>\<^verbatim>\<open>xs.includes(x) ? xs : [...xs, x]\<close>.\<close>

definition with_ref :: "'a list \<Rightarrow> 'a \<Rightarrow> 'a list" where
  "with_ref xs x = (if x \<in> set xs then xs else xs @ [x])"

definition without_ref :: "'a list \<Rightarrow> 'a \<Rightarrow> 'a list" where
  "without_ref xs x = filter (\<lambda>y. y \<noteq> x) xs"

lemma set_with_ref [simp]: "set (with_ref xs x) = insert x (set xs)"
  by (auto simp: with_ref_def)

lemma set_without_ref [simp]: "set (without_ref xs x) = set xs - {x}"
  by (auto simp: without_ref_def)

lemma distinct_with_ref: "distinct xs \<Longrightarrow> distinct (with_ref xs x)"
  by (simp add: with_ref_def)

lemma find_Some_iff_mem: "List.find P xs = Some x \<Longrightarrow> x \<in> set xs \<and> P x"
  by (auto simp: find_Some_iff)

lemma find_None_all: "List.find P xs = None \<Longrightarrow> x \<in> set xs \<Longrightarrow> \<not> P x"
  by (auto simp: find_None_iff)

text \<open>\<^verbatim>\<open>String.prototype.trim\<close> on the white space of ASCII.\<close>

definition is_space :: "char \<Rightarrow> bool" where
  "is_space c \<longleftrightarrow> c \<in> {CHR '' '', CHR 0x09, CHR 0x0A, CHR 0x0B, CHR 0x0C, CHR 0x0D, CHR 0xA0}"

definition trim :: "string \<Rightarrow> string" where
  "trim s = rev (dropWhile is_space (rev (dropWhile is_space s)))"

text \<open>Text between single quotes, as in messages.\<close>

definition quoted :: "string \<Rightarrow> string" where
  "quoted s = [CHR 0x27] @ s @ [CHR 0x27]"

end
