(* ===== verification/Plan_Model.thy ===== *)
theory Plan_Model
  imports Prelude
begin

text \<open>
  The data of the runtime: the plan package manifest
  (\<^verbatim>\<open>runtime/src/types/manifest.ts\<close>), the remote ownership records
  (\<^verbatim>\<open>runtime/src/schema/remoteOwnership.ts\<close>) and the persisted runtime state
  (\<^verbatim>\<open>runtime/src/types/state.ts\<close>), with the refinements that the schema of
  \<^verbatim>\<open>state.json\<close> checks when the file is read
  (\<^verbatim>\<open>runtime/src/schema/runtimeState.ts\<close>).

  A field that TypeScript declares as optional, nullable or both is an \<open>option\<close>: the code reads
  these fields with \<^verbatim>\<open>?? null\<close>, by truthiness or by comparison with a string, so
  \<^verbatim>\<open>undefined\<close> and \<^verbatim>\<open>null\<close> are one value here.
  Dictionaries are ordered maps; identifiers are strings.
\<close>

section \<open>The manifest\<close>

datatype block_type = Implementation | Review
datatype node_type = TaskNode
datatype edge_type = DependsOn
datatype review_trigger_condition = AfterRequiredWorkCompleted | ManualTrigger

record review_hook =
  rh_id :: string
  rh_command :: string
  rh_args :: "string list"

record review_policy =
  rp_required :: bool
  rp_maxFeedbackCycles :: nat
  rp_preset :: "string option"
  rp_triggerCondition :: "review_trigger_condition option"
  rp_inputContext :: "string option"
  rp_passCriteria :: "string option"
  rp_feedbackFormat :: "string option"
  rp_hook :: "review_hook option"

datatype manifest_block =
    ManifestImplementationBlock
      (mb_id: string) (mb_title: string) (mb_prompt: string) (mb_depends_on: "string list")
      (mb_executor: "string option") (mb_capabilities: "string list option")
      (mb_sharedResources: "string list option")
  | ManifestReviewBlock
      (mb_id: string) (mb_title: string) (mb_prompt: string) (mb_depends_on: "string list")
      (mb_executor: "string option") (mb_review: review_policy)

fun mb_type :: "manifest_block \<Rightarrow> block_type" where
  "mb_type (ManifestImplementationBlock _ _ _ _ _ _ _) = Implementation"
| "mb_type (ManifestReviewBlock _ _ _ _ _ _) = Review"

record manifest_node =
  mn_id :: string
  mn_type :: node_type
  mn_title :: string
  mn_prompt :: string
  mn_executor :: "string option"
  mn_acceptance :: "string list"
  mn_blocks :: "manifest_block list"

record manifest_edge =
  me_from :: string
  me_to :: string
  me_type :: edge_type

text \<open>The executor profiles and the package-wide review defaults are not read by the modelled
  operations; the manifest keeps the fields they read.\<close>

record manifest =
  mf_defaultExecutor :: "string option"
  mf_parallelEnabled :: bool
  mf_maxConcurrent :: nat
  mf_nodes :: "manifest_node list"
  mf_edges :: "manifest_edge list"

definition block_is_required_review :: "manifest_block \<Rightarrow> bool" where
  "block_is_required_review b \<longleftrightarrow> mb_type b = Review \<and> rp_required (mb_review b)"

section \<open>Remote ownership records\<close>

datatype control_plane = Collaboration | OwnerPlane

record remote_source =
  src_operationId :: string
  src_sourceRevision :: string
  src_graphFingerprint :: string
  src_controlPlane :: "control_plane option"

record active_identity =
  ai_source :: remote_source
  ai_dispatchId :: string
  ai_executionAttemptId :: string

datatype remote_ownership = Preparing remote_source | Active active_identity

fun owner_source :: "remote_ownership \<Rightarrow> remote_source" where
  "owner_source (Preparing s) = s"
| "owner_source (Active a) = ai_source a"

record normalized_failure =
  nf_code :: string
  nf_message :: string
  nf_retryable :: bool

datatype remote_receipt =
    CompletedReceipt
      (rcp_identity: active_identity) (rcp_runId: string) (rcp_blockType: "block_type option")
  | FailedReceipt
      (rcp_identity: active_identity) (rcp_failure: normalized_failure)
      (rcp_blockType: "block_type option")

datatype interruption_reason = HostRestart | TransportLost | AcpSessionLost | LeaseLost

record remote_interruption =
  ri_reason :: interruption_reason
  ri_resumable :: bool

text \<open>\<^verbatim>\<open>opaqueIdentifierSchema\<close> of \<^verbatim>\<open>agent-host-protocol/src/identifiers.ts\<close>.\<close>

definition alnum_char :: "char \<Rightarrow> bool" where
  "alnum_char c \<longleftrightarrow>
     (let n = (of_char c :: nat)
      in (48 \<le> n \<and> n \<le> 57) \<or> (65 \<le> n \<and> n \<le> 90) \<or> (97 \<le> n \<and> n \<le> 122))"

definition opaqueIdentifier_valid :: "string \<Rightarrow> bool" where
  "opaqueIdentifier_valid s \<longleftrightarrow>
     (case s of
        [] \<Rightarrow> False
      | c # cs \<Rightarrow> length s \<le> 128 \<and> alnum_char c \<and>
          list_all (\<lambda>d. alnum_char d \<or> d \<in> {CHR ''.'', CHR ''_'', CHR '':'', CHR ''-''}) cs)"

definition remoteSource_valid :: "remote_source \<Rightarrow> bool" where
  "remoteSource_valid s \<longleftrightarrow>
     opaqueIdentifier_valid (src_operationId s) \<and> opaqueIdentifier_valid (src_sourceRevision s) \<and>
     opaqueIdentifier_valid (src_graphFingerprint s)"

definition activeIdentity_valid :: "active_identity \<Rightarrow> bool" where
  "activeIdentity_valid a \<longleftrightarrow>
     remoteSource_valid (ai_source a) \<and> opaqueIdentifier_valid (ai_dispatchId a) \<and>
     opaqueIdentifier_valid (ai_executionAttemptId a)"

definition normalizedFailure_valid :: "normalized_failure \<Rightarrow> bool" where
  "normalizedFailure_valid f \<longleftrightarrow>
     opaqueIdentifier_valid (nf_code f) \<and> nf_message f \<noteq> [] \<and> length (nf_message f) \<le> 16384"

fun remoteOwnership_valid :: "remote_ownership \<Rightarrow> bool" where
  "remoteOwnership_valid (Preparing s) = remoteSource_valid s"
| "remoteOwnership_valid (Active a) = activeIdentity_valid a"

fun remoteReceipt_valid :: "remote_receipt \<Rightarrow> bool" where
  "remoteReceipt_valid (CompletedReceipt i r _) = (activeIdentity_valid i \<and> opaqueIdentifier_valid r)"
| "remoteReceipt_valid (FailedReceipt i f _) = (activeIdentity_valid i \<and> normalizedFailure_valid f)"

section \<open>The runtime state\<close>

datatype task_status = TPlanned | TReady | TInProgress | TImplemented

datatype block_status =
  BPlanned | BReady | BInProgress | BCompleted | BNeedsChanges | BBlocked | BDiverged

datatype feedback_status = FOpen | FInProgress | FResolved | FDismissed

datatype review_verdict = Passed | NeedsChanges

datatype completion_reason = PassedReason | MaxCyclesReached

record task_state =
  ts_status :: task_status
  ts_openFeedbackCount :: nat

record block_state =
  bs_status :: block_status
  bs_lastRunId :: "string option"
  bs_submissionAttemptId :: "string option"
  bs_submissionRunId :: "string option"
  bs_latestReviewAttemptId :: "string option"
  bs_activeFeedbackId :: "string option"
  bs_pendingFeedbackId :: "string option"
  bs_blockedReason :: "string option"
  bs_divergenceReason :: "string option"
  bs_completionReason :: "completion_reason option"
  bs_passedWorkRevision :: "string option"
  bs_remoteOwnership :: "remote_ownership option"
  bs_remoteInterruption :: "remote_interruption option"
  bs_remoteOperationReceipt :: "remote_receipt option"

record feedback_envelope =
  fb_status :: feedback_status
  fb_sourceReviewBlockRef :: string
  fb_latestSubmissionId :: "string option"
  fb_content :: string

record reset_receipt =
  rr_operationId :: string
  rr_sourceRevision :: string
  rr_graphFingerprint :: string
  rr_committedAt :: string

record runtime_state =
  rs_currentRefs :: "string list"
  rs_currentFeedbackId :: "string option"
  rs_currentReviewBlockRef :: "string option"
  rs_tasks :: "(string, task_state) js_map"
  rs_blocks :: "(string, block_state) js_map"
  rs_feedback :: "(string, feedback_envelope) js_map"
  rs_lastResetReceipt :: "reset_receipt option"

definition createEmptyState :: runtime_state where
  "createEmptyState =
     \<lparr>rs_currentRefs = [], rs_currentFeedbackId = None, rs_currentReviewBlockRef = None,
      rs_tasks = [], rs_blocks = [], rs_feedback = [], rs_lastResetReceipt = None\<rparr>"

text \<open>The record \<^verbatim>\<open>{ status, lastRunId: null }\<close> of a block that has not run.\<close>

definition fresh_block :: "block_status \<Rightarrow> block_state" where
  "fresh_block st =
     \<lparr>bs_status = st, bs_lastRunId = None, bs_submissionAttemptId = None, bs_submissionRunId = None,
      bs_latestReviewAttemptId = None, bs_activeFeedbackId = None, bs_pendingFeedbackId = None,
      bs_blockedReason = None, bs_divergenceReason = None, bs_completionReason = None,
      bs_passedWorkRevision = None, bs_remoteOwnership = None, bs_remoteInterruption = None,
      bs_remoteOperationReceipt = None\<rparr>"

definition with_block :: "string \<Rightarrow> block_state \<Rightarrow> runtime_state \<Rightarrow> runtime_state" where
  "with_block ref b s = s\<lparr>rs_blocks := map_set (rs_blocks s) ref b\<rparr>"

section \<open>What reading state.json checks of a block\<close>

text \<open>\<^verbatim>\<open>submissionRunIdSchema\<close>: one directory name that is not hidden.\<close>

definition ascii_letter :: "char \<Rightarrow> bool" where
  "ascii_letter c \<longleftrightarrow>
     (let n = (of_char c :: nat) in (65 \<le> n \<and> n \<le> 90) \<or> (97 \<le> n \<and> n \<le> 122))"

definition submissionRunId_valid :: "string \<Rightarrow> bool" where
  "submissionRunId_valid s \<longleftrightarrow>
     (case s of
        [] \<Rightarrow> False
      | c # cs \<Rightarrow> c \<noteq> CHR ''.'' \<and>
          list_all (\<lambda>d. d \<notin> {CHR ''/'', CHR 0x5C, CHR 0x00}) s \<and>
          \<not> (ascii_letter c \<and> (case cs of d # _ \<Rightarrow> d = CHR '':'' | [] \<Rightarrow> False)))"

definition owner_is_active :: "remote_ownership option \<Rightarrow> bool" where
  "owner_is_active ow \<longleftrightarrow> (case ow of Some (Active _) \<Rightarrow> True | _ \<Rightarrow> False)"

text \<open>The five rules of the \<^verbatim>\<open>superRefine\<close> of \<^verbatim>\<open>blockStateSchema\<close>.\<close>

definition block_refinements :: "block_state \<Rightarrow> bool" where
  "block_refinements b \<longleftrightarrow>
     (bs_submissionRunId b \<noteq> None \<longrightarrow> bs_submissionAttemptId b \<noteq> None) \<and>
     (bs_remoteOwnership b \<noteq> None \<longrightarrow> bs_status b = BInProgress \<or> bs_status b = BDiverged) \<and>
     (bs_remoteInterruption b \<noteq> None \<longrightarrow>
        bs_status b = BDiverged \<and> owner_is_active (bs_remoteOwnership b)) \<and>
     (case bs_remoteOperationReceipt b of
        None \<Rightarrow> True
      | Some (CompletedReceipt _ r _) \<Rightarrow> bs_status b = BCompleted \<and> bs_lastRunId b = Some r
      | Some (FailedReceipt _ _ _) \<Rightarrow> bs_status b = BBlocked)"

text \<open>The shapes of the fields: identifiers of the remote records, the run directory name, the
  non-empty attempt identity.\<close>

definition block_shape :: "block_state \<Rightarrow> bool" where
  "block_shape b \<longleftrightarrow>
     bs_submissionAttemptId b \<noteq> Some [] \<and>
     (case bs_submissionRunId b of None \<Rightarrow> True | Some r \<Rightarrow> submissionRunId_valid r) \<and>
     (case bs_remoteOwnership b of None \<Rightarrow> True | Some ow \<Rightarrow> remoteOwnership_valid ow) \<and>
     (case bs_remoteOperationReceipt b of None \<Rightarrow> True | Some r \<Rightarrow> remoteReceipt_valid r)"

definition blockState_valid :: "block_state \<Rightarrow> bool" where
  "blockState_valid b \<longleftrightarrow> block_shape b \<and> block_refinements b"

text \<open>\<^verbatim>\<open>runtimeStateSchema\<close> on a value of the type: every block is valid. The
  remaining fields carry no constraint beyond their type (the reset receipt is written by one
  operation only, which is outside this model).\<close>

definition runtimeState_valid :: "runtime_state \<Rightarrow> bool" where
  "runtimeState_valid s \<longleftrightarrow> list_all (\<lambda>p. blockState_valid (snd p)) (rs_blocks s)"

text \<open>\<^verbatim>\<open>readState\<close>: a missing file is the empty state, an invalid one is an error.\<close>

definition readState :: "runtime_state option \<Rightarrow> runtime_state res" where
  "readState file =
     (case file of
        None \<Rightarrow> Inr createEmptyState
      | Some s \<Rightarrow> if runtimeState_valid s then Inr s else Inl RuntimeStateInvalid)"

section \<open>Validity of blocks and states: shared facts\<close>

named_theorems block_valid_simps \<open>unfolding the validity of a block record\<close>

lemmas [block_valid_simps] = blockState_valid_def block_shape_def block_refinements_def

lemma fresh_block_valid [simp, intro]: "blockState_valid (fresh_block st)"
  by (simp add: block_valid_simps fresh_block_def)

lemma fresh_block_status [simp]: "bs_status (fresh_block st) = st"
  by (simp add: fresh_block_def)

lemma runtimeState_valid_iff:
  "runtimeState_valid s \<longleftrightarrow> (\<forall>p \<in> set (rs_blocks s). blockState_valid (snd p))"
  by (simp add: runtimeState_valid_def list_all_iff)

lemma runtimeState_valid_get:
  "runtimeState_valid s \<Longrightarrow> map_get (rs_blocks s) ref = Some b \<Longrightarrow> blockState_valid b"
  by (force simp: runtimeState_valid_iff map_get_def dest: map_of_SomeD)

lemma createEmptyState_valid [simp, intro]: "runtimeState_valid createEmptyState"
  by (simp add: runtimeState_valid_iff createEmptyState_def)

lemma set_map_set: "set (map_set m k v) \<subseteq> insert (k, v) (set m)"
  unfolding map_set_def by (induction m) auto

lemma with_block_valid [intro]:
  "runtimeState_valid s \<Longrightarrow> blockState_valid b \<Longrightarrow> runtimeState_valid (with_block ref b s)"
  using set_map_set [of "rs_blocks s" ref b]
  by (fastforce simp: runtimeState_valid_iff with_block_def)

lemma with_block_fields [simp]:
  "rs_currentRefs (with_block ref b s) = rs_currentRefs s"
  "rs_currentFeedbackId (with_block ref b s) = rs_currentFeedbackId s"
  "rs_currentReviewBlockRef (with_block ref b s) = rs_currentReviewBlockRef s"
  "rs_tasks (with_block ref b s) = rs_tasks s"
  "rs_feedback (with_block ref b s) = rs_feedback s"
  "rs_lastResetReceipt (with_block ref b s) = rs_lastResetReceipt s"
  "rs_blocks (with_block ref b s) = map_set (rs_blocks s) ref b"
  by (simp_all add: with_block_def)

text \<open>Validity looks at the block records only.\<close>

lemma runtimeState_valid_cong:
  "rs_blocks s = rs_blocks t \<Longrightarrow> runtimeState_valid s = runtimeState_valid t"
  by (simp add: runtimeState_valid_def)

text \<open>A block that waits (planned or ready) carries no remote record at all, so its status may be
  rewritten between the two.\<close>

lemma waiting_block_no_remote:
  assumes "blockState_valid b" and "bs_status b = BPlanned \<or> bs_status b = BReady"
  shows "bs_remoteOwnership b = None" and "bs_remoteInterruption b = None"
    and "bs_remoteOperationReceipt b = None"
  using assms by (auto simp: block_valid_simps split: option.splits remote_receipt.splits)

lemma waiting_block_restatus:
  assumes "blockState_valid b" and "bs_status b = BPlanned \<or> bs_status b = BReady"
  shows "blockState_valid (b\<lparr>bs_status := st\<rparr>)"
  using assms waiting_block_no_remote [OF assms] by (simp add: block_valid_simps)

end
