(* ===== verification/Graph_Algorithms.thy ===== *)
theory Graph_Algorithms
  imports Prelude
begin

text \<open>
  The two graph searches of the runtime: reachability with an explicit stack and cycle detection
  with an explicit stack of frames. Each exists twice in the source:
  \<^verbatim>\<open>graph/compileTaskGraph.ts\<close> (task and block graphs; a neighbour that is not a key is
  an internal error of \<open>requireMapValue\<close>) and \<^verbatim>\<open>projectGraph/graphAlgorithms.ts\<close>
  (canvas graphs; such a neighbour has no successors, and an empty name ends a frame). The loops
  below take that difference as the flag \<open>strict\<close>; the four source functions are the instances
  at the end of each section.

  A JavaScript array used as a stack is a list whose head is the top, so
  \<^verbatim>\<open>stack.push(...ns)\<close> puts \<open>rev ns\<close> in front. Both loops terminate on every input
  (the measures are given with the definitions), reachability decides the transitive closure, and
  cycle detection returns a closed walk exactly when the graph has one.
\<close>

type_synonym adjacency = "(string, string list) js_map"

definition neighbours :: "bool \<Rightarrow> adjacency \<Rightarrow> string \<Rightarrow> string list res" where
  "neighbours strict adj nid =
     (if strict then requireMapValue adj nid ''adjacency''
      else Inr (case map_get adj nid of None \<Rightarrow> [] | Some ns \<Rightarrow> ns))"

definition succs :: "adjacency \<Rightarrow> string \<Rightarrow> string list" where
  "succs adj nid = (case map_get adj nid of None \<Rightarrow> [] | Some ns \<Rightarrow> ns)"

text \<open>The edges between keys of the graph, and graphs whose neighbours are keys.\<close>

definition edges_of :: "adjacency \<Rightarrow> (string \<times> string) set" where
  "edges_of adj = {(a, b). b \<in> set (succs adj a) \<and> map_has adj b}"

definition adj_closed :: "adjacency \<Rightarrow> bool" where
  "adj_closed adj \<longleftrightarrow> list_all (\<lambda>k. list_all (map_has adj) (succs adj k)) (map_keys adj)"

lemma neighbours_Inr: "neighbours strict adj nid = Inr ns \<Longrightarrow> ns = succs adj nid"
  by (auto simp: neighbours_def succs_def requireMapValue_def split: if_splits option.splits)

lemma neighbours_key: "map_has adj nid \<Longrightarrow> neighbours strict adj nid = Inr (succs adj nid)"
  by (auto simp: neighbours_def succs_def map_has_get)

lemma neighbours_lax [simp]: "neighbours False adj nid = Inr (succs adj nid)"
  by (simp add: neighbours_def succs_def)

lemma succs_nonkey: "\<not> map_has adj nid \<Longrightarrow> succs adj nid = []"
  by (simp add: succs_def map_has_get)

lemma succs_key: "b \<in> set (succs adj a) \<Longrightarrow> map_has adj a"
  by (cases "map_has adj a") (auto simp: succs_nonkey)

lemma adj_closed_iff: "adj_closed adj \<longleftrightarrow> (\<forall>a. \<forall>b \<in> set (succs adj a). map_has adj b)"
proof
  assume "adj_closed adj"
  then have "map_has adj a \<Longrightarrow> b \<in> set (succs adj a) \<Longrightarrow> map_has adj b" for a b
    by (simp add: adj_closed_def list_all_iff)
  then show "\<forall>a. \<forall>b \<in> set (succs adj a). map_has adj b" by (blast dest: succs_key)
qed (simp add: adj_closed_def list_all_iff)

lemma adj_closed_succs: "adj_closed adj \<Longrightarrow> b \<in> set (succs adj a) \<Longrightarrow> map_has adj b"
  by (simp add: adj_closed_iff)

lemma finite_keys [simp]: "finite {k. map_has adj k}"
  by (simp add: map_has_def)

section \<open>Reachability\<close>

function reach_loop ::
  "bool \<Rightarrow> adjacency \<Rightarrow> string \<Rightarrow> string list \<Rightarrow> string set \<Rightarrow> bool res" where
  "reach_loop strict adj to [] visited = Inr False"
| "reach_loop strict adj to (nid # stack) visited =
     (if nid = [] \<or> nid \<in> visited then reach_loop strict adj to stack visited
      else if nid = to then Inr True
      else try_bind (neighbours strict adj nid)
             (\<lambda>ns. reach_loop strict adj to (rev ns @ stack) (insert nid visited)))"
  by pat_completeness auto
termination
proof (relation "measures [\<lambda>(strict, adj, to, stack, visited). card ({k. map_has adj k} - visited),
                            \<lambda>(strict, adj, to, stack, visited). length stack]", goal_cases)
  case 1
  show ?case by simp
next
  case (2 strict adj to nid stack visited)
  then show ?case by simp
next
  case (3 strict adj to nid stack visited ns)
  show ?case
  proof (cases "map_has adj nid")
    case True
    with 3 have "card ({k. map_has adj k} - insert nid visited) < card ({k. map_has adj k} - visited)"
      by (intro psubset_card_mono) auto
    then show ?thesis by simp
  next
    case False
    with neighbours_Inr [OF 3(3)] have "ns = []" by (simp add: succs_nonkey)
    moreover from False have "{k. map_has adj k} - insert nid visited = {k. map_has adj k} - visited"
      by auto
    ultimately show ?thesis by simp
  qed
qed

declare reach_loop.simps(2) [simp del]

text \<open>A path that leaves a set whose edges end in the set or in \<open>S\<close> passes through \<open>S\<close>.\<close>

lemma leave_through:
  assumes "(v, t) \<in> r\<^sup>*" and "v \<in> V" and "t \<notin> V" and "r `` V \<subseteq> V \<union> S"
  shows "\<exists>s \<in> S. (s, t) \<in> r\<^sup>*"
  using assms
proof (induction rule: converse_rtrancl_induct)
  case base
  then show ?case by simp
next
  case (step y z)
  then show ?case by (cases "z \<in> V") auto
qed

definition all_edges :: "adjacency \<Rightarrow> (string \<times> string) set" where
  "all_edges adj = {(a, b). b \<in> set (succs adj a)}"

lemma all_edges_step: "a \<noteq> t \<Longrightarrow>
  (a, t) \<in> (all_edges adj)\<^sup>* \<longleftrightarrow> (\<exists>b \<in> set (succs adj a). (b, t) \<in> (all_edges adj)\<^sup>*)"
  by (auto simp: all_edges_def elim: converse_rtranclE intro: converse_rtrancl_into_rtrancl)

lemma reach_loop_correct:
  assumes "\<not> map_has adj []" and "map_has adj to" and "strict \<longrightarrow> adj_closed adj"
    and "strict \<longrightarrow> (\<forall>s \<in> set stack. map_has adj s)" and "to \<notin> visited"
    and "all_edges adj `` visited \<subseteq> visited \<union> (set stack \<union> {[]})"
  shows "reach_loop strict adj to stack visited =
           Inr (\<exists>s \<in> set stack. (s, to) \<in> (all_edges adj)\<^sup>*)"
  using assms
proof (induction strict adj to stack visited rule: reach_loop.induct)
  case (1 strict adj to visited)
  then show ?case by simp
next
  case (2 strict adj to nid stack visited)
  let ?E = "all_edges adj"
  from "2.prems" have nil: "([], to) \<notin> ?E\<^sup>*"
    by (auto simp: all_edges_def succs_nonkey elim: converse_rtranclE)
  show ?case
  proof (cases "nid = [] \<or> nid \<in> visited")
    case True
    have "(nid, to) \<in> ?E\<^sup>* \<Longrightarrow> \<exists>s \<in> set stack. (s, to) \<in> ?E\<^sup>*"
    proof -
      assume r: "(nid, to) \<in> ?E\<^sup>*"
      with nil True have "nid \<in> visited" by auto
      with "2.prems"(6) True have "?E `` visited \<subseteq> visited \<union> (set stack \<union> {[]})" by auto
      from leave_through [OF r \<open>nid \<in> visited\<close> "2.prems"(5) this] nil show ?thesis by auto
    qed
    moreover have "reach_loop strict adj to stack visited = Inr (\<exists>s \<in> set stack. (s, to) \<in> ?E\<^sup>*)"
      using "2.prems" True by (intro "2.IH"(1)) auto
    ultimately show ?thesis using True by (auto simp: reach_loop.simps(2))
  next
    case False
    show ?thesis
    proof (cases "nid = to")
      case True
      with False show ?thesis by (auto simp: reach_loop.simps(2))
    next
      case ne: False
      have ns: "neighbours strict adj nid = Inr (succs adj nid)"
        using "2.prems"(4) by (cases strict) (auto simp: neighbours_key)
      have "reach_loop strict adj to (rev (succs adj nid) @ stack) (insert nid visited) =
              Inr (\<exists>s \<in> set (rev (succs adj nid) @ stack). (s, to) \<in> ?E\<^sup>*)"
        using "2.prems" False ne ns
        by (intro "2.IH"(2)) (auto dest: adj_closed_succs simp: all_edges_def)
      with False ne ns show ?thesis
        by (auto simp: reach_loop.simps(2) all_edges_step [OF ne])
    qed
  qed
qed

definition search_reachable :: "bool \<Rightarrow> adjacency \<Rightarrow> string \<Rightarrow> string \<Rightarrow> bool res" where
  "search_reachable strict adj from to =
     (if \<not> map_has adj from \<or> \<not> map_has adj to then Inr False
      else try_bind (neighbours strict adj from) (\<lambda>ns. reach_loop strict adj to (rev ns) {}))"

text \<open>\<^verbatim>\<open>reachable\<close> of \<^verbatim>\<open>graph/compileTaskGraph.ts\<close> and of
  \<^verbatim>\<open>projectGraph/graphAlgorithms.ts\<close>.\<close>

definition reachable :: "adjacency \<Rightarrow> string \<Rightarrow> string \<Rightarrow> bool res" where
  "reachable adj from to = search_reachable True adj from to"

definition project_reachable :: "adjacency \<Rightarrow> string \<Rightarrow> string \<Rightarrow> bool res" where
  "project_reachable adj from to = search_reachable False adj from to"

lemma edges_trancl_key: "(a, b) \<in> (edges_of adj)\<^sup>+ \<Longrightarrow> map_has adj a \<and> map_has adj b"
  by (induction rule: trancl_induct) (auto simp: edges_of_def dest: succs_key)

lemma all_edges_key: "(a, b) \<in> (all_edges adj)\<^sup>* \<Longrightarrow> map_has adj b \<Longrightarrow> map_has adj a"
  by (erule converse_rtranclE) (auto simp: all_edges_def dest: succs_key)

lemma all_edges_to_key:
  assumes "(a, b) \<in> (all_edges adj)\<^sup>*" and "map_has adj b"
  shows "(a, b) \<in> (edges_of adj)\<^sup>*"
  using assms
proof (induction rule: converse_rtrancl_induct)
  case base
  then show ?case by simp
next
  case (step y z)
  then have "map_has adj z" by (blast intro: all_edges_key)
  with step show ?case
    by (auto simp: all_edges_def edges_of_def intro: converse_rtrancl_into_rtrancl)
qed

lemma search_reachable_correct:
  assumes "\<not> map_has adj []" and "strict \<longrightarrow> adj_closed adj"
  shows "search_reachable strict adj from to = Inr ((from, to) \<in> (edges_of adj)\<^sup>+)"
proof (cases "map_has adj from \<and> map_has adj to")
  case True
  have "reach_loop strict adj to (rev (succs adj from)) {} =
          Inr (\<exists>s \<in> set (rev (succs adj from)). (s, to) \<in> (all_edges adj)\<^sup>*)"
    using assms True by (intro reach_loop_correct) (auto dest: adj_closed_succs)
  moreover have "(\<exists>s \<in> set (succs adj from). (s, to) \<in> (all_edges adj)\<^sup>*) \<longleftrightarrow>
                   (from, to) \<in> (edges_of adj)\<^sup>+" (is "?L \<longleftrightarrow> ?R")
  proof
    assume ?L
    then obtain s where s: "s \<in> set (succs adj from)" "(s, to) \<in> (all_edges adj)\<^sup>*" by blast
    with True have "(s, to) \<in> (edges_of adj)\<^sup>*" by (auto intro: all_edges_to_key)
    moreover from s True have "map_has adj s" by (blast intro: all_edges_key)
    ultimately show ?R using s by (auto simp: edges_of_def intro: rtrancl_into_trancl2)
  next
    have sub: "(edges_of adj)\<^sup>* \<subseteq> (all_edges adj)\<^sup>*"
      by (rule rtrancl_mono) (auto simp: edges_of_def all_edges_def)
    assume ?R
    then obtain s where "(from, s) \<in> edges_of adj" "(s, to) \<in> (edges_of adj)\<^sup>*"
      by (auto dest: tranclD)
    with sub show ?L by (auto simp: edges_of_def)
  qed
  ultimately show ?thesis using True by (simp add: search_reachable_def neighbours_key)
next
  case False
  then show ?thesis by (auto simp: search_reachable_def dest: edges_trancl_key)
qed

section \<open>Cycle detection\<close>

type_synonym frame = "string \<times> nat"

definition next_neighbour :: "bool \<Rightarrow> string list \<Rightarrow> nat \<Rightarrow> string option" where
  "next_neighbour strict ns i =
     (if i < length ns \<and> (strict \<or> ns ! i \<noteq> []) then Some (ns ! i) else None)"

text \<open>\<^verbatim>\<open>stack.slice(cycleStart).map((item) => item.id).concat(next)\<close>, where
  \<^verbatim>\<open>cycleStart\<close> is the first frame of \<^verbatim>\<open>next\<close> from the bottom
  (\<^verbatim>\<open>slice(-1)\<close> if there were none).\<close>

definition cycle_of :: "frame list \<Rightarrow> string \<Rightarrow> string list" where
  "cycle_of frames nxt =
     (let ids = rev (map fst frames)
      in (if nxt \<in> set ids then dropWhile (\<lambda>x. x \<noteq> nxt) ids else [last ids]) @ [nxt])"

definition unseen_weight :: "adjacency \<Rightarrow> string set \<Rightarrow> nat" where
  "unseen_weight adj seen = (\<Sum>k \<in> {k. map_has adj k} - seen. length (succs adj k) + 2)"

definition frames_weight :: "adjacency \<Rightarrow> frame list \<Rightarrow> nat" where
  "frames_weight adj fs = (\<Sum>(k, i) \<leftarrow> fs. length (succs adj k) - i + 1)"

lemma unseen_weight_mono: "A \<subseteq> B \<Longrightarrow> unseen_weight adj B \<le> unseen_weight adj A"
  unfolding unseen_weight_def by (rule sum_mono2) auto

lemma unseen_weight_insert:
  assumes "map_has adj k" and "k \<notin> A"
  shows "unseen_weight adj A = unseen_weight adj (insert k A) + (length (succs adj k) + 2)"
proof -
  have split: "{k. map_has adj k} - A = insert k ({k. map_has adj k} - insert k A)"
    using assms by auto
  show ?thesis unfolding unseen_weight_def by (subst split) simp
qed

text \<open>The body of the \<^verbatim>\<open>while\<close> loop: the result is a cycle (\<open>Inl\<close>) or the sets
  \<^verbatim>\<open>visiting\<close> and \<^verbatim>\<open>visited\<close> when the stack is empty (\<open>Inr\<close>).\<close>

function cycle_loop ::
  "bool \<Rightarrow> adjacency \<Rightarrow> frame list \<Rightarrow> string set \<Rightarrow> string set \<Rightarrow>
     (string list + string set \<times> string set) res" where
  "cycle_loop strict adj [] visiting visited = Inr (Inr (visiting, visited))"
| "cycle_loop strict adj ((k, i) # fs) visiting visited =
     try_bind (neighbours strict adj k) (\<lambda>ns.
       case next_neighbour strict ns i of
         None \<Rightarrow> cycle_loop strict adj fs (visiting - {k}) (insert k visited)
       | Some nxt \<Rightarrow>
           if \<not> map_has adj nxt then cycle_loop strict adj ((k, Suc i) # fs) visiting visited
           else if nxt \<in> visiting then Inr (Inl (cycle_of ((k, Suc i) # fs) nxt))
           else if nxt \<notin> visited
             then cycle_loop strict adj ((nxt, 0) # (k, Suc i) # fs) (insert nxt visiting) visited
           else cycle_loop strict adj ((k, Suc i) # fs) visiting visited)"
  by pat_completeness auto
termination
proof (relation "measure (\<lambda>(strict, adj, fs, visiting, visited).
         unseen_weight adj (visiting \<union> visited) + frames_weight adj fs)", goal_cases)
  case 1
  show ?case by simp
next
  case (2 strict adj k i fs visiting visited ns)
  have "unseen_weight adj (visiting - {k} \<union> insert k visited) \<le> unseen_weight adj (visiting \<union> visited)"
    by (rule unseen_weight_mono) auto
  then show ?case by (simp add: frames_weight_def)
next
  case (3 strict adj k i fs visiting visited ns nxt)
  then show ?case
    using neighbours_Inr [OF 3(1)] by (auto simp: frames_weight_def next_neighbour_def split: if_splits)
next
  case (4 strict adj k i fs visiting visited ns nxt)
  with unseen_weight_insert [of adj nxt "visiting \<union> visited"]
  have "unseen_weight adj (visiting \<union> visited) =
          unseen_weight adj (insert nxt visiting \<union> visited) + (length (succs adj nxt) + 2)"
    by auto
  then show ?case by (simp add: frames_weight_def)
next
  case (5 strict adj k i fs visiting visited ns nxt)
  then show ?case
    using neighbours_Inr [OF 5(1)] by (auto simp: frames_weight_def next_neighbour_def split: if_splits)
qed

declare cycle_loop.simps(2) [simp del]

text \<open>The outer \<^verbatim>\<open>for\<close> loop over the keys of the graph.\<close>

fun cycle_roots ::
  "bool \<Rightarrow> adjacency \<Rightarrow> string list \<Rightarrow> string set \<Rightarrow> string set \<Rightarrow> string list option res" where
  "cycle_roots strict adj [] visiting visited = Inr None"
| "cycle_roots strict adj (k # ks) visiting visited =
     (if k \<in> visited then cycle_roots strict adj ks visiting visited
      else try_bind (cycle_loop strict adj [(k, 0)] (insert k visiting) visited) (\<lambda>r.
             case r of
               Inl c \<Rightarrow> Inr (Some c)
             | Inr (visiting', visited') \<Rightarrow> cycle_roots strict adj ks visiting' visited'))"

definition search_cycle :: "bool \<Rightarrow> adjacency \<Rightarrow> string list option res" where
  "search_cycle strict adj = cycle_roots strict adj (map_keys adj) {} {}"

text \<open>\<^verbatim>\<open>findCycle\<close> of \<^verbatim>\<open>graph/compileTaskGraph.ts\<close> and of
  \<^verbatim>\<open>projectGraph/graphAlgorithms.ts\<close>.\<close>

definition findCycle :: "adjacency \<Rightarrow> string list option res" where
  "findCycle adj = search_cycle True adj"

definition project_findCycle :: "adjacency \<Rightarrow> string list option res" where
  "project_findCycle adj = search_cycle False adj"

text \<open>\<^verbatim>\<open>addAdjacency\<close> of \<^verbatim>\<open>projectGraph/graphAlgorithms.ts\<close>.\<close>

definition addAdjacency :: "adjacency \<Rightarrow> string \<Rightarrow> string \<Rightarrow> adjacency" where
  "addAdjacency adj from to =
     (let a1 = (if map_has adj from then adj else map_set adj from []);
          a2 = (if map_has a1 to then a1 else map_set a1 to [])
      in map_set a2 from (succs a2 from @ [to]))"

lemma addAdjacency_succs:
  "succs (addAdjacency adj from to) k = (if k = from then succs adj from @ [to] else succs adj k)"
  by (auto simp: addAdjacency_def succs_def Let_def js_map_simps split: option.splits)

lemma addAdjacency_has:
  "map_has (addAdjacency adj from to) k \<longleftrightarrow> map_has adj k \<or> k = from \<or> k = to"
  by (auto simp: addAdjacency_def Let_def js_map_simps)

subsection \<open>Correctness of cycle detection\<close>

text \<open>A closed walk in the graph.\<close>

fun walk :: "adjacency \<Rightarrow> string list \<Rightarrow> bool" where
  "walk adj [] = True"
| "walk adj [x] = True"
| "walk adj (x # y # zs) = (y \<in> set (succs adj x) \<and> map_has adj y \<and> walk adj (y # zs))"

definition is_cycle :: "adjacency \<Rightarrow> string list \<Rightarrow> bool" where
  "is_cycle adj c \<longleftrightarrow> 2 \<le> length c \<and> hd c = last c \<and> walk adj c"

text \<open>The stack: every frame is a key, the neighbours taken so far are finished or are the frame
  above, and the frame above is a neighbour.\<close>

fun frames_ok :: "adjacency \<Rightarrow> string set \<Rightarrow> string set \<Rightarrow> frame list \<Rightarrow> bool" where
  "frames_ok adj visited up [] = True"
| "frames_ok adj visited up ((k, i) # fs) =
     (map_has adj k \<and> up \<subseteq> set (succs adj k) \<and>
      (\<forall>n \<in> set (take i (succs adj k)). map_has adj n \<longrightarrow> n \<in> visited \<union> up) \<and>
      frames_ok adj visited {k} fs)"

text \<open>Finished nodes: closed under edges and on no cycle.\<close>

definition finished :: "adjacency \<Rightarrow> string set \<Rightarrow> bool" where
  "finished adj V \<longleftrightarrow>
     (\<forall>v \<in> V. map_has adj v) \<and> edges_of adj `` V \<subseteq> V \<and> (\<forall>v \<in> V. (v, v) \<notin> (edges_of adj)\<^sup>+)"

definition search_inv :: "adjacency \<Rightarrow> frame list \<Rightarrow> string set \<Rightarrow> string set \<Rightarrow> bool" where
  "search_inv adj fs visiting visited \<longleftrightarrow>
     frames_ok adj visited {} fs \<and> visiting = set (map fst fs) \<and> distinct (map fst fs) \<and>
     visiting \<inter> visited = {} \<and> finished adj visited"

lemma frames_ok_mono: "frames_ok adj V A fs \<Longrightarrow> V \<subseteq> W \<Longrightarrow> frames_ok adj W A fs"
  by (induction adj V A fs rule: frames_ok.induct) auto

lemma frames_ok_finish: "frames_ok adj V {k} fs \<Longrightarrow> frames_ok adj (insert k V) {} fs"
  by (cases fs) (auto intro: frames_ok_mono)

lemma walk_snoc:
  "walk adj (xs @ [x]) \<Longrightarrow> y \<in> set (succs adj x) \<Longrightarrow> map_has adj y \<Longrightarrow> walk adj (xs @ [x, y])"
  by (induction adj xs rule: walk.induct) auto

lemma walk_suffix: "walk adj (xs @ ys) \<Longrightarrow> walk adj ys"
proof (induction xs)
  case Nil
  then show ?case by simp
next
  case (Cons x xs)
  then show ?case by (cases "xs @ ys") auto
qed

lemma frames_walk: "frames_ok adj V A fs \<Longrightarrow> walk adj (rev (map fst fs))"
proof (induction adj V A fs rule: frames_ok.induct)
  case (1 adj V A)
  then show ?case by simp
next
  case (2 adj V A k i fs)
  show ?case
  proof (cases fs)
    case Nil
    then show ?thesis by simp
  next
    case (Cons f fs')
    with 2 show ?thesis
      by (cases f) (auto intro!: walk_snoc [where xs = "rev (map fst fs')", simplified])
  qed
qed

lemma cycle_of_cycle:
  assumes "frames_ok adj V A ((k, i) # fs)" and "nxt \<in> set (map fst ((k, i) # fs))"
    and "nxt \<in> set (succs adj k)" and "map_has adj nxt"
  shows "is_cycle adj (cycle_of ((k, i) # fs) nxt)"
proof -
  let ?ids = "rev (map fst ((k, i) # fs))"
  let ?c = "dropWhile (\<lambda>x. x \<noteq> nxt) ?ids"
  from assms(2) have mem: "nxt \<in> set ?ids" by simp
  then obtain cs where c: "?c = nxt # cs"
    using hd_dropWhile [of "\<lambda>x. x \<noteq> nxt" ?ids] by (cases ?c) auto
  have "walk adj (takeWhile (\<lambda>x. x \<noteq> nxt) ?ids @ ?c)"
    using frames_walk [OF assms(1)] by (simp del: rev.simps)
  then have w: "walk adj ?c" by (rule walk_suffix)
  have "last ?c = last ?ids"
    using c by (metis last_append list.discI takeWhile_dropWhile_id)
  then have l: "last ?c = k" by simp
  have "?c = butlast ?c @ [k]" using c l by (metis append_butlast_last_id list.discI)
  with w assms(3,4) have "walk adj (butlast ?c @ [k, nxt])" by (metis walk_snoc)
  then have "walk adj (?c @ [nxt])"
    using \<open>?c = butlast ?c @ [k]\<close> by (metis append.assoc append_Cons append_Nil)
  with c mem show ?thesis by (simp add: is_cycle_def cycle_of_def Let_def)
qed

lemma finished_insert:
  assumes "finished adj V" and "map_has adj k" and "k \<notin> V"
    and "\<And>n. n \<in> set (succs adj k) \<Longrightarrow> map_has adj n \<Longrightarrow> n \<in> V"
  shows "finished adj (insert k V)"
proof -
  have out: "edges_of adj `` {k} \<subseteq> V" using assms(4) by (auto simp: edges_of_def)
  have "(k, k) \<notin> (edges_of adj)\<^sup>+"
  proof
    assume "(k, k) \<in> (edges_of adj)\<^sup>+"
    then obtain w where "(k, w) \<in> edges_of adj" "(w, k) \<in> (edges_of adj)\<^sup>*" by (auto dest: tranclD)
    with out have "w \<in> V" by auto
    with leave_through [OF \<open>(w, k) \<in> _\<close> _ assms(3), of "{}"] assms(1) show False
      by (auto simp: finished_def)
  qed
  with assms(1,2) out show ?thesis by (auto simp: finished_def)
qed

lemma cycle_loop_correct:
  assumes "search_inv adj fs visiting visited"
    and "strict \<or> (\<forall>k. [] \<notin> set (succs adj k))"
  shows "\<exists>r. cycle_loop strict adj fs visiting visited = Inr r \<and>
           (case r of Inl c \<Rightarrow> is_cycle adj c
            | Inr (vg, vd) \<Rightarrow> vg = {} \<and> finished adj vd \<and> visited \<union> visiting \<subseteq> vd)"
  using assms
proof (induction strict adj fs visiting visited rule: cycle_loop.induct)
  case (1 strict adj visiting visited)
  then show ?case by (auto simp: search_inv_def)
next
  case (2 strict adj k i fs visiting visited)
  let ?ns = "succs adj k"
  from "2.prems"(1) have key: "map_has adj k" by (simp add: search_inv_def)
  note ns = neighbours_key [OF key, of strict]
  show ?case
  proof (cases "next_neighbour strict ?ns i")
    case None
    with "2.prems"(2) have "length ?ns \<le> i"
      by (auto simp: next_neighbour_def split: if_splits) (metis not_le nth_mem)
    with "2.prems"(1) have "\<And>n. n \<in> set ?ns \<Longrightarrow> map_has adj n \<Longrightarrow> n \<in> visited"
      by (auto simp: search_inv_def)
    with "2.prems"(1) have "search_inv adj fs (visiting - {k}) (insert k visited)"
      by (auto simp: search_inv_def intro: frames_ok_finish finished_insert)
    from "2.IH"(1) [OF ns None this "2.prems"(2)] None ns "2.prems"(1) show ?thesis
      by (fastforce simp: cycle_loop.simps(2) search_inv_def split: sum.splits)
  next
    case (Some nxt)
    then have i: "i < length ?ns" and nxt: "nxt = ?ns ! i"
      by (auto simp: next_neighbour_def split: if_splits)
    then have take: "set (take (Suc i) ?ns) = insert nxt (set (take i ?ns))"
      by (simp add: take_Suc_conv_app_nth)
    have mem: "nxt \<in> set ?ns" using i nxt by simp
    consider (skip) "\<not> map_has adj nxt" | (cycle) "map_has adj nxt" "nxt \<in> visiting"
      | (push) "map_has adj nxt" "nxt \<notin> visiting" "nxt \<notin> visited"
      | (seen) "map_has adj nxt" "nxt \<notin> visiting" "nxt \<in> visited"
      by blast
    then show ?thesis
    proof cases
      case skip
      with "2.prems"(1) take have "search_inv adj ((k, Suc i) # fs) visiting visited"
        by (auto simp: search_inv_def)
      from "2.IH"(2) [OF ns Some skip this "2.prems"(2)] Some ns skip show ?thesis
        by (simp add: cycle_loop.simps(2))
    next
      case cycle
      have "is_cycle adj (cycle_of ((k, Suc i) # fs) nxt)"
      proof (rule cycle_of_cycle [OF _ _ mem cycle(1)])
        show "frames_ok adj visited {nxt} ((k, Suc i) # fs)"
          using "2.prems"(1) take mem by (auto simp: search_inv_def)
        show "nxt \<in> set (map fst ((k, Suc i) # fs))"
          using "2.prems"(1) cycle(2) by (auto simp: search_inv_def)
      qed
      with Some ns cycle show ?thesis by (simp add: cycle_loop.simps(2))
    next
      case push
      with "2.prems"(1) take mem
      have "search_inv adj ((nxt, 0) # (k, Suc i) # fs) (insert nxt visiting) visited"
        by (auto simp: search_inv_def)
      from "2.IH"(3) [OF ns Some _ push(2,3) this "2.prems"(2)] Some ns push show ?thesis
        by (fastforce simp: cycle_loop.simps(2) split: sum.splits)
    next
      case seen
      with "2.prems"(1) take have "search_inv adj ((k, Suc i) # fs) visiting visited"
        by (auto simp: search_inv_def)
      from "2.IH"(4) [OF ns Some _ seen(2) _ this "2.prems"(2)] Some ns seen show ?thesis
        by (simp add: cycle_loop.simps(2))
    qed
  qed
qed

definition roots_post :: "adjacency \<Rightarrow> string set \<Rightarrow> string list option \<Rightarrow> bool" where
  "roots_post adj S r \<longleftrightarrow>
     (case r of Some c \<Rightarrow> is_cycle adj c | None \<Rightarrow> \<exists>V. finished adj V \<and> S \<subseteq> V)"

lemma roots_post_mono: "roots_post adj S r \<Longrightarrow> T \<subseteq> S \<Longrightarrow> roots_post adj T r"
  by (auto simp: roots_post_def split: option.splits)

lemma cycle_roots_correct:
  assumes "finished adj visited" and "strict \<or> (\<forall>k. [] \<notin> set (succs adj k))"
    and "\<forall>k \<in> set ks. map_has adj k"
  shows "\<exists>r. cycle_roots strict adj ks {} visited = Inr r \<and> roots_post adj (visited \<union> set ks) r"
  using assms
proof (induction ks arbitrary: visited)
  case Nil
  then show ?case by (auto simp: roots_post_def)
next
  case (Cons k ks)
  show ?case
  proof (cases "k \<in> visited")
    case True
    with Cons.IH [of visited] Cons.prems show ?thesis by (auto intro: roots_post_mono)
  next
    case False
    have "search_inv adj [(k, 0)] {k} visited"
      using Cons.prems False by (auto simp: search_inv_def)
    from cycle_loop_correct [OF this Cons.prems(2)] obtain r where
      r: "cycle_loop strict adj [(k, 0)] {k} visited = Inr r"
        "case r of Inl c \<Rightarrow> is_cycle adj c
         | Inr (vg, vd) \<Rightarrow> vg = {} \<and> finished adj vd \<and> visited \<union> {k} \<subseteq> vd" by blast
    show ?thesis
    proof (cases r)
      case (Inl c)
      with r False show ?thesis by (simp add: roots_post_def)
    next
      case (Inr p)
      then obtain vd where p: "r = Inr ({}, vd)" "finished adj vd" "visited \<union> {k} \<subseteq> vd"
        using r(2) by (cases p) auto
      from Cons.IH [OF p(2) Cons.prems(2)] Cons.prems(3) obtain r' where
        "cycle_roots strict adj ks {} vd = Inr r'"
        "roots_post adj (vd \<union> set ks) r'"
        by auto
      with r(1) p False show ?thesis by (auto intro: roots_post_mono)
    qed
  qed
qed

lemma is_cycle_not_acyclic:
  assumes "is_cycle adj c"
  shows "\<not> acyclic (edges_of adj)"
proof -
  have "walk adj c \<Longrightarrow> c \<noteq> [] \<Longrightarrow> (hd c, last c) \<in> (edges_of adj)\<^sup>*" for c
    by (induction adj c rule: walk.induct)
      (auto simp: edges_of_def intro: converse_rtrancl_into_rtrancl)
  moreover from assms obtain x y zs where c: "c = x # y # zs" "walk adj (y # zs)"
    "(x, y) \<in> edges_of adj" "x = last (y # zs)"
    by (cases c; cases "tl c") (auto simp: is_cycle_def edges_of_def)
  ultimately have "(y, x) \<in> (edges_of adj)\<^sup>*" by fastforce
  with c(3) have "(x, x) \<in> (edges_of adj)\<^sup>+" by (rule rtrancl_into_trancl2)
  then show ?thesis by (auto simp: acyclic_def)
qed

lemma search_cycle_correct:
  assumes "strict \<or> (\<forall>k. [] \<notin> set (succs adj k))"
  shows "\<exists>r. search_cycle strict adj = Inr r \<and>
           (case r of Some c \<Rightarrow> is_cycle adj c | None \<Rightarrow> acyclic (edges_of adj))"
proof -
  have "finished adj {}" by (simp add: finished_def)
  from cycle_roots_correct [OF this assms, of "map_keys adj"] obtain r where
    r: "search_cycle strict adj = Inr r" "roots_post adj (set (map_keys adj)) r"
    by (auto simp: search_cycle_def)
  have "acyclic (edges_of adj)" if "finished adj V" and "set (map_keys adj) \<subseteq> V" for V
  proof (rule acyclicI, rule allI, rule notI)
    fix x
    assume x: "(x, x) \<in> (edges_of adj)\<^sup>+"
    then have "map_has adj x" by (simp add: edges_trancl_key)
    then have "x \<in> set (map_keys adj)" by simp
    with that(2) have "x \<in> V" ..
    with x that(1) show False by (auto simp: finished_def)
  qed
  with r show ?thesis by (auto simp: roots_post_def split: option.splits)
qed

end
