(* ===== verification/Task_Graph.thy ===== *)
theory Task_Graph
  imports Plan_Model Graph_Algorithms
begin

text \<open>
  Compiling a plan package manifest into the indexes the task manager works on:
  \<^verbatim>\<open>graph/compileTaskGraph.ts\<close>, with \<^verbatim>\<open>graph/blockRef.ts\<close>,
  \<^verbatim>\<open>graph/sharedResources.ts\<close> and \<^verbatim>\<open>graph/requiredCapabilities.ts\<close>.

  The loops of \<^verbatim>\<open>compileTaskGraph\<close> are the definitions \<open>index_node\<close>, \<open>index_task\<close>
  (with \<open>index_block\<close>), \<open>link_task_blocks\<close> (with \<open>link_block\<close>), \<open>link_edge\<close> and
  \<open>check_implementation\<close>, run in the order of the source over one record of indexes. The source
  also fills three maps (edges by type, incoming and outgoing edges) that it never reads; they are
  left out. The two closures \<^verbatim>\<open>taskReachable\<close> and \<^verbatim>\<open>blockReachable\<close> are functions of
  the maps they capture.

  The lemmas show that compilation fills every index completely and consistently (\<open>graph_wf\<close>),
  that it fails on no manifest whose identifiers have no separator character, and that a graph
  without diagnostics is acyclic with unique identifiers.
\<close>

section \<open>Block references\<close>

fun split_hash :: "string \<Rightarrow> string list" where
  "split_hash [] = [[]]"
| "split_hash (c # cs) =
     (if c = CHR ''#'' then [] # split_hash cs
      else case split_hash cs of [] \<Rightarrow> [[c]] | p # ps \<Rightarrow> (c # p) # ps)"

definition parseBlockRef :: "string \<Rightarrow> (string \<times> string) res" where
  "parseBlockRef ref =
     (case split_hash ref of
        [t, b] \<Rightarrow> if t = [] \<or> b = [] then Inl (InvalidBlockRef ref) else Inr (t, b)
      | _ \<Rightarrow> Inl (InvalidBlockRef ref))"

definition blockRef :: "string \<Rightarrow> string \<Rightarrow> string" where
  "blockRef taskId blockId = taskId @ ''#'' @ blockId"

definition edgeKey :: "manifest_edge \<Rightarrow> string" where
  "edgeKey e = me_from e @ [CHR 0x00] @ ''depends_on'' @ [CHR 0x00] @ me_to e"

text \<open>An identifier that can be part of a block reference.\<close>

definition id_ok :: "string \<Rightarrow> bool" where
  "id_ok s \<longleftrightarrow> s \<noteq> [] \<and> CHR ''#'' \<notin> set s"

lemma split_hash_nonempty [simp]: "split_hash s \<noteq> []"
  by (induction s) (auto split: list.splits)

lemma split_hash_plain: "CHR ''#'' \<notin> set s \<Longrightarrow> split_hash s = [s]"
  by (induction s) auto

lemma split_hash_append:
  "CHR ''#'' \<notin> set t \<Longrightarrow> split_hash (t @ CHR ''#'' # s) = t # split_hash s"
  by (induction t) auto

lemma split_hash_hash: "CHR ''#'' \<in> set s \<Longrightarrow> 2 \<le> length (split_hash s)"
proof (induction s)
  case Nil
  then show ?case by simp
next
  case (Cons c cs)
  show ?case
  proof (cases "c = CHR ''#''")
    case True
    then show ?thesis by (cases "split_hash cs") auto
  next
    case False
    with Cons show ?thesis by (auto split: list.splits)
  qed
qed

lemma parse_blockRef: "id_ok t \<Longrightarrow> id_ok b \<Longrightarrow> parseBlockRef (blockRef t b) = Inr (t, b)"
  by (simp add: parseBlockRef_def blockRef_def id_ok_def split_hash_append split_hash_plain)

lemma length_split_hash: "length (split_hash s) = Suc (count_list s (CHR ''#''))"
proof (induction s)
  case Nil
  then show ?case by simp
next
  case (Cons c cs)
  then show ?case by (cases "split_hash cs") auto
qed

lemma split_hash_two:
  "split_hash r = [t, b] \<Longrightarrow> r = t @ CHR ''#'' # b \<and> CHR ''#'' \<notin> set t \<and> CHR ''#'' \<notin> set b"
proof (induction r arbitrary: t)
  case Nil
  then show ?case by simp
next
  case (Cons c cs)
  show ?case
  proof (cases "c = CHR ''#''")
    case True
    with Cons.prems have t: "t = []" and cs: "split_hash cs = [b]" by simp_all
    have nohash: "CHR ''#'' \<notin> set cs"
    proof
      assume "CHR ''#'' \<in> set cs"
      from split_hash_hash [OF this] cs show False by simp
    qed
    with cs have "cs = b" by (simp add: split_hash_plain)
    with t True nohash show ?thesis by simp
  next
    case False
    with Cons.prems obtain p where "split_hash cs = [p, b]" "t = c # p"
      by (auto split: list.splits)
    with Cons.IH [of p] False show ?thesis by auto
  qed
qed

lemma parseBlockRef_Inr: "parseBlockRef r = Inr (t, b) \<longleftrightarrow> r = blockRef t b \<and> id_ok t \<and> id_ok b"
proof
  assume "parseBlockRef r = Inr (t, b)"
  then have "split_hash r = [t, b]" "t \<noteq> []" "b \<noteq> []"
    by (auto simp: parseBlockRef_def split: list.splits if_splits)
  then show "r = blockRef t b \<and> id_ok t \<and> id_ok b"
    using split_hash_two [of r t b] by (simp add: blockRef_def id_ok_def)
qed (simp add: parse_blockRef)

lemma parse_of_blockRef:
  assumes "parseBlockRef (blockRef t b) = Inr (t', b')"
  shows "t' = t \<and> b' = b \<and> id_ok t \<and> id_ok b"
proof -
  from assms have parts: "split_hash (blockRef t b) = [t', b']" "t' \<noteq> []" "b' \<noteq> []"
    by (auto simp: parseBlockRef_def split: list.splits if_splits)
  with length_split_hash [of "blockRef t b"] have "CHR ''#'' \<notin> set t" "CHR ''#'' \<notin> set b"
    by (auto simp: blockRef_def count_list_0_iff)
  with parts show ?thesis by (simp add: blockRef_def id_ok_def split_hash_append split_hash_plain)
qed

lemma blockRef_inject:
  assumes "id_ok t" and "id_ok b" and "blockRef t b = blockRef t' b'" and "id_ok t'" and "id_ok b'"
  shows "t = t' \<and> b = b'"
proof -
  have "parseBlockRef (blockRef t b) = Inr (t', b')"
    unfolding assms(3) by (rule parse_blockRef [OF assms(4,5)])
  with parse_blockRef [OF assms(1,2)] show ?thesis by simp
qed

section \<open>The compiled graph\<close>

datatype graph_issue =
    NodeIdDuplicate string
  | BlockIdDuplicate string string  \<comment> \<open>block id, task id\<close>
  | BlockDependencyMissing string string  \<comment> \<open>block ref, missing block id\<close>
  | EdgeDuplicate manifest_edge
  | EdgeFromMissing string
  | EdgeToMissing string
  | DependsOnNonTask
  | DependsOnCycle "string list"
  | BlockDependsOnCycle "string list"
  | TaskWithoutImplementationBlock string

record compiled_graph =
  nodesById :: "(string, manifest_node) js_map"
  taskNodesInManifestOrder :: "string list"
  tasksById :: "(string, manifest_node) js_map"
  taskDependenciesByTask :: adjacency
  taskDependentsByTask :: adjacency
  taskAdjacency :: adjacency
  blockRefsInManifestOrder :: "string list"
  blocksByRef :: "(string, manifest_block) js_map"
  blockTaskByRef :: "(string, string) js_map"
  blocksByTask :: adjacency
  blockDependenciesByRef :: adjacency
  blockDependentsByRef :: adjacency
  reviewBlocksByTask :: adjacency
  sharedResourcesByBlockRef :: "(string, string list) js_map"
  requiredCapabilitiesByBlockRef :: "(string, string list) js_map"
  diagnosticErrors :: "graph_issue list"

definition empty_graph :: compiled_graph where
  "empty_graph =
     \<lparr>nodesById = [], taskNodesInManifestOrder = [], tasksById = [], taskDependenciesByTask = [],
      taskDependentsByTask = [], taskAdjacency = [], blockRefsInManifestOrder = [],
      blocksByRef = [], blockTaskByRef = [], blocksByTask = [], blockDependenciesByRef = [],
      blockDependentsByRef = [], reviewBlocksByTask = [], sharedResourcesByBlockRef = [],
      requiredCapabilitiesByBlockRef = [], diagnosticErrors = []\<rparr>"

definition taskReachable :: "compiled_graph \<Rightarrow> string \<Rightarrow> string \<Rightarrow> bool res" where
  "taskReachable g from to = reachable (taskAdjacency g) from to"

definition blockReachable :: "compiled_graph \<Rightarrow> string \<Rightarrow> string \<Rightarrow> bool res" where
  "blockReachable g fromRef toRef = reachable (blockDependenciesByRef g) fromRef toRef"

definition add_error :: "graph_issue \<Rightarrow> compiled_graph \<Rightarrow> compiled_graph" where
  "add_error e g = g\<lparr>diagnosticErrors := diagnosticErrors g @ [e]\<rparr>"

definition sharedResourcesForBlock :: "manifest_block \<Rightarrow> string list" where
  "sharedResourcesForBlock b =
     (case b of
        ManifestReviewBlock _ _ _ _ _ _ \<Rightarrow> []
      | ManifestImplementationBlock _ _ _ _ _ _ shared \<Rightarrow>
          js_dedup (case shared of None \<Rightarrow> [] | Some rs \<Rightarrow> rs))"

definition requiredCapabilitiesForBlock :: "manifest_block \<Rightarrow> string list" where
  "requiredCapabilitiesForBlock b =
     (case b of
        ManifestReviewBlock _ _ _ _ _ _ \<Rightarrow> []
      | ManifestImplementationBlock _ _ _ _ _ caps _ \<Rightarrow> (case caps of None \<Rightarrow> [] | Some cs \<Rightarrow> cs))"

section \<open>Compilation, loop by loop\<close>

text \<open>The first loop: nodes by id, with the set of duplicated ids in the order they are found.\<close>

definition index_node ::
  "manifest_node \<Rightarrow> compiled_graph \<times> string list \<Rightarrow> compiled_graph \<times> string list" where
  "index_node node gd =
     (let (g, dups) = gd;
          dups' = (if map_has (nodesById g) (mn_id node) then with_ref dups (mn_id node) else dups);
          g1 = g\<lparr>nodesById := map_set (nodesById g) (mn_id node) node\<rparr>
      in case mn_type node of
           TaskNode \<Rightarrow>
             (g1\<lparr>tasksById := map_set (tasksById g1) (mn_id node) node,
                 taskNodesInManifestOrder := taskNodesInManifestOrder g1 @ [mn_id node]\<rparr>, dups'))"

definition index_nodes :: "manifest \<Rightarrow> compiled_graph" where
  "index_nodes mf =
     (let (g, dups) = fold index_node (mf_nodes mf) (empty_graph, [])
      in fold (\<lambda>i. add_error (NodeIdDuplicate i)) dups g)"

text \<open>The second loop: the blocks of every task.\<close>

definition index_block ::
  "string \<Rightarrow> manifest_block \<Rightarrow> compiled_graph \<times> string list \<Rightarrow> (compiled_graph \<times> string list) res" where
  "index_block taskId block gi =
     (let (g0, blockIds) = gi;
          ref = blockRef taskId (mb_id block);
          g = (if mb_id block \<in> set blockIds
               then add_error (BlockIdDuplicate (mb_id block) taskId) g0 else g0);
          g1 = g\<lparr>blockRefsInManifestOrder := blockRefsInManifestOrder g @ [ref],
                 blocksByRef := map_set (blocksByRef g) ref block,
                 blockTaskByRef := map_set (blockTaskByRef g) ref taskId\<rparr>
      in try_bind (map_push (blocksByTask g1) taskId ref ''blocksByTask'') (\<lambda>bbt.
         let g2 = g1\<lparr>blocksByTask := bbt,
                     blockDependenciesByRef := map_set (blockDependenciesByRef g1) ref [],
                     blockDependentsByRef := map_set (blockDependentsByRef g1) ref []\<rparr>
         in try_bind
              (if mb_type block = Review
               then map_push (reviewBlocksByTask g2) taskId ref ''reviewBlocksByTask''
               else Inr (reviewBlocksByTask g2)) (\<lambda>rbt.
            Inr (g2\<lparr>reviewBlocksByTask := rbt,
                    sharedResourcesByBlockRef :=
                      map_set (sharedResourcesByBlockRef g2) ref (sharedResourcesForBlock block),
                    requiredCapabilitiesByBlockRef :=
                      map_set (requiredCapabilitiesByBlockRef g2) ref
                        (requiredCapabilitiesForBlock block)\<rparr>,
                 with_ref blockIds (mb_id block)))))"

definition open_task :: "string \<Rightarrow> compiled_graph \<Rightarrow> compiled_graph" where
  "open_task taskId g =
     g\<lparr>taskDependenciesByTask := map_set (taskDependenciesByTask g) taskId [],
       taskDependentsByTask := map_set (taskDependentsByTask g) taskId [],
       taskAdjacency := map_set (taskAdjacency g) taskId [],
       blocksByTask := map_set (blocksByTask g) taskId [],
       reviewBlocksByTask := map_set (reviewBlocksByTask g) taskId []\<rparr>"

definition index_task :: "string \<Rightarrow> compiled_graph \<Rightarrow> compiled_graph res" where
  "index_task taskId g =
     (let g1 = open_task taskId g
      in try_bind (requireMapValue (tasksById g1) taskId ''tasksById'') (\<lambda>task.
         try_bind (for_res (index_block taskId) (mn_blocks task) (g1, [])) (\<lambda>gi. Inr (fst gi))))"

text \<open>The third loop: dependencies between the blocks of one task.\<close>

definition link_block_dependency ::
  "string \<Rightarrow> string list \<Rightarrow> string \<Rightarrow> string \<Rightarrow> compiled_graph \<Rightarrow> compiled_graph res" where
  "link_block_dependency taskId known ref dependencyBlockId g =
     (if dependencyBlockId \<notin> set known
      then Inr (add_error (BlockDependencyMissing ref dependencyBlockId) g)
      else let dependencyRef = blockRef taskId dependencyBlockId
           in try_bind (map_push (blockDependenciesByRef g) ref dependencyRef ''blockDependenciesByRef'')
                (\<lambda>deps.
              try_bind (map_push (blockDependentsByRef g) dependencyRef ref ''blockDependentsByRef'')
                (\<lambda>dependents.
              Inr (g\<lparr>blockDependenciesByRef := deps, blockDependentsByRef := dependents\<rparr>))))"

definition link_block ::
  "string \<Rightarrow> string list \<Rightarrow> manifest_block \<Rightarrow> compiled_graph \<Rightarrow> compiled_graph res" where
  "link_block taskId known block g =
     for_res (link_block_dependency taskId known (blockRef taskId (mb_id block)))
       (mb_depends_on block) g"

definition link_task_blocks :: "string \<Rightarrow> compiled_graph \<Rightarrow> compiled_graph res" where
  "link_task_blocks taskId g =
     try_bind (requireMapValue (blocksByTask g) taskId ''blocksByTask'') (\<lambda>refs.
     try_bind (map_res (\<lambda>ref. try_bind (parseBlockRef ref) (\<lambda>p. Inr (snd p))) refs) (\<lambda>known.
     try_bind (requireMapValue (tasksById g) taskId ''tasksById'') (\<lambda>task.
     for_res (link_block taskId known) (mn_blocks task) g)))"

text \<open>The fourth loop: edges between tasks.\<close>

definition validateEdgeEndpointTypes ::
  "manifest_edge \<Rightarrow> manifest_node \<Rightarrow> manifest_node \<Rightarrow> graph_issue list" where
  "validateEdgeEndpointTypes edge from to =
     (case me_type edge of
        DependsOn \<Rightarrow>
          if mn_type from = TaskNode \<and> mn_type to = TaskNode then [] else [DependsOnNonTask])"

definition link_edge ::
  "manifest_edge \<Rightarrow> compiled_graph \<times> string list \<Rightarrow> (compiled_graph \<times> string list) res" where
  "link_edge edge gs =
     (let (g0, seen) = gs;
          g1 = (if edgeKey edge \<in> set seen then add_error (EdgeDuplicate edge) g0 else g0);
          seen' = with_ref seen (edgeKey edge);
          from = map_get (nodesById g1) (me_from edge);
          to = map_get (nodesById g1) (me_to edge);
          g2 = (if from = None then add_error (EdgeFromMissing (me_from edge)) g1 else g1);
          g3 = (if to = None then add_error (EdgeToMissing (me_to edge)) g2 else g2)
      in case (from, to) of
           (Some f, Some t) \<Rightarrow>
             (case validateEdgeEndpointTypes edge f t of
                i # is \<Rightarrow> Inr (fold add_error (i # is) g3, seen')
              | [] \<Rightarrow>
                  try_bind (map_push (taskDependenciesByTask g3) (me_from edge) (me_to edge)
                              ''taskDependenciesByTask'') (\<lambda>deps.
                  try_bind (map_push (taskDependentsByTask g3) (me_to edge) (me_from edge)
                              ''taskDependentsByTask'') (\<lambda>dependents.
                  try_bind (map_push (taskAdjacency g3) (me_from edge) (me_to edge)
                              ''taskAdjacency'') (\<lambda>adj.
                  Inr (g3\<lparr>taskDependenciesByTask := deps, taskDependentsByTask := dependents,
                          taskAdjacency := adj\<rparr>, seen')))))
         | _ \<Rightarrow> Inr (g3, seen'))"

text \<open>The last checks: cycles and tasks without implementation block.\<close>

definition check_cycles :: "compiled_graph \<Rightarrow> compiled_graph res" where
  "check_cycles g =
     try_bind (findCycle (taskAdjacency g)) (\<lambda>taskCycle.
     let g1 = (case taskCycle of None \<Rightarrow> g | Some c \<Rightarrow> add_error (DependsOnCycle c) g)
     in try_bind (findCycle (blockDependenciesByRef g1)) (\<lambda>blockCycle.
        Inr (case blockCycle of None \<Rightarrow> g1 | Some c \<Rightarrow> add_error (BlockDependsOnCycle c) g1)))"

definition check_implementation :: "string \<Rightarrow> compiled_graph \<Rightarrow> compiled_graph res" where
  "check_implementation taskId g =
     try_bind (requireMapValue (blocksByTask g) taskId ''blocksByTask'') (\<lambda>refs.
     try_bind (some_res (\<lambda>ref. try_bind (requireMapValue (blocksByRef g) ref ''blocksByRef'')
                                 (\<lambda>b. Inr (mb_type b = Implementation))) refs) (\<lambda>found.
     Inr (if found then g else add_error (TaskWithoutImplementationBlock taskId) g)))"

definition compileTaskGraph :: "manifest \<Rightarrow> compiled_graph res" where
  "compileTaskGraph mf =
     (let g0 = index_nodes mf;
          order = taskNodesInManifestOrder g0
      in try_bind (for_res index_task order g0) (\<lambda>g1.
         try_bind (for_res link_task_blocks order g1) (\<lambda>g2.
         try_bind (for_res link_edge (mf_edges mf) (g2, [])) (\<lambda>gs.
         try_bind (check_cycles (fst gs)) (\<lambda>g4.
         for_res check_implementation order g4)))))"

section \<open>Complete and consistent indexes\<close>

definition dom_is :: "(string, 'v) js_map \<Rightarrow> string set \<Rightarrow> bool" where
  "dom_is m S \<longleftrightarrow> (\<forall>k. map_has m k \<longleftrightarrow> k \<in> S)"

definition ran_in :: "adjacency \<Rightarrow> string set \<Rightarrow> bool" where
  "ran_in m S \<longleftrightarrow> (\<forall>k vs. map_get m k = Some vs \<longrightarrow> set vs \<subseteq> S)"

lemma dom_is_set: "dom_is m S \<Longrightarrow> dom_is (map_set m k v) (insert k S)"
  by (auto simp: dom_is_def js_map_simps)

lemma dom_is_set_mem: "dom_is m S \<Longrightarrow> k \<in> S \<Longrightarrow> dom_is (map_set m k v) S"
  using dom_is_set [of m S k v] by (simp add: insert_absorb)

lemma dom_is_get: "dom_is m S \<Longrightarrow> k \<in> S \<Longrightarrow> \<exists>v. map_get m k = Some v"
  by (auto simp: dom_is_def map_has_get)

lemma dom_is_mem: "dom_is m S \<Longrightarrow> map_get m k = Some v \<Longrightarrow> k \<in> S"
  by (auto simp: dom_is_def map_has_get)

lemma ran_in_set: "ran_in m S \<Longrightarrow> set v \<subseteq> S \<Longrightarrow> ran_in (map_set m k v) S"
  by (auto simp: ran_in_def js_map_simps)

lemma ran_in_push:
  "ran_in m S \<Longrightarrow> map_get m k = Some xs \<Longrightarrow> x \<in> S \<Longrightarrow> ran_in (map_set m k (xs @ [x])) S"
  by (auto simp: ran_in_def js_map_simps)

lemma ran_in_get: "ran_in m S \<Longrightarrow> map_get m k = Some xs \<Longrightarrow> set xs \<subseteq> S"
  by (auto simp: ran_in_def)

lemma ran_in_mono: "ran_in m S \<Longrightarrow> S \<subseteq> T \<Longrightarrow> ran_in m T"
  by (fastforce simp: ran_in_def)

text \<open>The invariant of the indexes while the tasks of \<open>P\<close> have been opened; with all tasks opened
  it is the contract the task manager relies on.\<close>

definition idx_inv :: "string set \<Rightarrow> compiled_graph \<Rightarrow> bool" where
  "idx_inv P g \<longleftrightarrow>
     (let O' = set (taskNodesInManifestOrder g); R = set (blockRefsInManifestOrder g) in
      P \<subseteq> O' \<and> dom_is (nodesById g) O' \<and> dom_is (tasksById g) O' \<and>
      dom_is (taskDependenciesByTask g) P \<and> dom_is (taskDependentsByTask g) P \<and>
      dom_is (blocksByTask g) P \<and> dom_is (reviewBlocksByTask g) P \<and>
      taskAdjacency g = taskDependenciesByTask g \<and>
      ran_in (taskDependenciesByTask g) O' \<and> ran_in (taskDependentsByTask g) O' \<and>
      dom_is (blocksByRef g) R \<and> dom_is (blockTaskByRef g) R \<and>
      dom_is (blockDependenciesByRef g) R \<and> dom_is (blockDependentsByRef g) R \<and>
      dom_is (sharedResourcesByBlockRef g) R \<and> dom_is (requiredCapabilitiesByBlockRef g) R \<and>
      ran_in (blocksByTask g) R \<and> ran_in (reviewBlocksByTask g) R \<and>
      ran_in (blockDependenciesByRef g) R \<and> ran_in (blockDependentsByRef g) R \<and>
      (\<forall>r t. map_get (blockTaskByRef g) r = Some t \<longrightarrow> t \<in> P \<and> (\<exists>b. r = blockRef t b)) \<and>
      (\<forall>t rs. map_get (blocksByTask g) t = Some rs \<longrightarrow> (\<forall>r \<in> set rs. \<exists>b. r = blockRef t b)))"

definition graph_wf :: "compiled_graph \<Rightarrow> bool" where
  "graph_wf g \<longleftrightarrow> idx_inv (set (taskNodesInManifestOrder g)) g"

lemma idx_inv_task_get:
  assumes "idx_inv P g" and "t \<in> P"
  shows "\<exists>v. map_get (taskDependenciesByTask g) t = Some v"
    and "\<exists>v. map_get (taskDependentsByTask g) t = Some v"
    and "\<exists>v. map_get (blocksByTask g) t = Some v"
    and "\<exists>v. map_get (reviewBlocksByTask g) t = Some v"
  using assms unfolding idx_inv_def Let_def by (blast intro: dom_is_get)+

lemma idx_inv_node_get:
  assumes "idx_inv P g" and "t \<in> set (taskNodesInManifestOrder g)"
  shows "\<exists>v. map_get (tasksById g) t = Some v" and "\<exists>v. map_get (nodesById g) t = Some v"
  using assms unfolding idx_inv_def Let_def by (blast intro: dom_is_get)+

lemma idx_inv_ref_get:
  assumes "idx_inv P g" and "r \<in> set (blockRefsInManifestOrder g)"
  shows "\<exists>v. map_get (blocksByRef g) r = Some v"
    and "\<exists>v. map_get (blockTaskByRef g) r = Some v"
    and "\<exists>v. map_get (blockDependenciesByRef g) r = Some v"
    and "\<exists>v. map_get (blockDependentsByRef g) r = Some v"
  using assms unfolding idx_inv_def Let_def by (blast intro: dom_is_get)+

text \<open>The contract, as the task manager uses it.\<close>

lemma graph_wf_task:
  assumes "graph_wf g" and "t \<in> set (taskNodesInManifestOrder g)"
  shows "\<exists>task. map_get (tasksById g) t = Some task"
    and "\<exists>deps. map_get (taskDependenciesByTask g) t = Some deps \<and> set deps \<subseteq> set (taskNodesInManifestOrder g)"
    and "\<exists>deps. map_get (taskDependentsByTask g) t = Some deps \<and> set deps \<subseteq> set (taskNodesInManifestOrder g)"
    and "\<exists>refs. map_get (blocksByTask g) t = Some refs \<and> set refs \<subseteq> set (blockRefsInManifestOrder g)"
proof -
  have inv: "idx_inv (set (taskNodesInManifestOrder g)) g" using assms(1) by (simp add: graph_wf_def)
  then have ran: "ran_in (taskDependenciesByTask g) (set (taskNodesInManifestOrder g))"
    "ran_in (taskDependentsByTask g) (set (taskNodesInManifestOrder g))"
    "ran_in (blocksByTask g) (set (blockRefsInManifestOrder g))"
    by (simp_all add: idx_inv_def Let_def)
  show "\<exists>task. map_get (tasksById g) t = Some task" by (rule idx_inv_node_get(1) [OF inv assms(2)])
  show "\<exists>deps. map_get (taskDependenciesByTask g) t = Some deps \<and> set deps \<subseteq> set (taskNodesInManifestOrder g)"
    using idx_inv_task_get(1) [OF inv assms(2)] ran_in_get [OF ran(1)] by auto
  show "\<exists>deps. map_get (taskDependentsByTask g) t = Some deps \<and> set deps \<subseteq> set (taskNodesInManifestOrder g)"
    using idx_inv_task_get(2) [OF inv assms(2)] ran_in_get [OF ran(2)] by auto
  show "\<exists>refs. map_get (blocksByTask g) t = Some refs \<and> set refs \<subseteq> set (blockRefsInManifestOrder g)"
    using idx_inv_task_get(3) [OF inv assms(2)] ran_in_get [OF ran(3)] by auto
qed

lemma graph_wf_ref:
  assumes "graph_wf g" and "r \<in> set (blockRefsInManifestOrder g)"
  shows "\<exists>block. map_get (blocksByRef g) r = Some block"
    and "\<exists>t. map_get (blockTaskByRef g) r = Some t \<and> t \<in> set (taskNodesInManifestOrder g)"
    and "\<exists>deps. map_get (blockDependenciesByRef g) r = Some deps \<and> set deps \<subseteq> set (blockRefsInManifestOrder g)"
proof -
  have inv: "idx_inv (set (taskNodesInManifestOrder g)) g" using assms(1) by (simp add: graph_wf_def)
  then have ran: "ran_in (blockDependenciesByRef g) (set (blockRefsInManifestOrder g))"
    and task: "\<And>t. map_get (blockTaskByRef g) r = Some t \<Longrightarrow> t \<in> set (taskNodesInManifestOrder g)"
    by (simp_all add: idx_inv_def Let_def)
  show "\<exists>block. map_get (blocksByRef g) r = Some block" by (rule idx_inv_ref_get(1) [OF inv assms(2)])
  show "\<exists>t. map_get (blockTaskByRef g) r = Some t \<and> t \<in> set (taskNodesInManifestOrder g)"
    using idx_inv_ref_get(2) [OF inv assms(2)] task by auto
  show "\<exists>deps. map_get (blockDependenciesByRef g) r = Some deps \<and> set deps \<subseteq> set (blockRefsInManifestOrder g)"
    using idx_inv_ref_get(3) [OF inv assms(2)] ran_in_get [OF ran] by auto
qed

lemma graph_wf_doms:
  assumes "graph_wf g"
  shows "map_has (tasksById g) t \<longleftrightarrow> t \<in> set (taskNodesInManifestOrder g)"
    and "map_has (blocksByRef g) r \<longleftrightarrow> r \<in> set (blockRefsInManifestOrder g)"
    and "map_has (blockTaskByRef g) r \<longleftrightarrow> r \<in> set (blockRefsInManifestOrder g)"
    and "taskAdjacency g = taskDependenciesByTask g"
  using assms by (simp_all add: graph_wf_def idx_inv_def Let_def dom_is_def)

lemma add_error_fields [simp]:
  "nodesById (add_error e g) = nodesById g"
  "taskNodesInManifestOrder (add_error e g) = taskNodesInManifestOrder g"
  "tasksById (add_error e g) = tasksById g"
  "taskDependenciesByTask (add_error e g) = taskDependenciesByTask g"
  "taskDependentsByTask (add_error e g) = taskDependentsByTask g"
  "taskAdjacency (add_error e g) = taskAdjacency g"
  "blockRefsInManifestOrder (add_error e g) = blockRefsInManifestOrder g"
  "blocksByRef (add_error e g) = blocksByRef g"
  "blockTaskByRef (add_error e g) = blockTaskByRef g"
  "blocksByTask (add_error e g) = blocksByTask g"
  "blockDependenciesByRef (add_error e g) = blockDependenciesByRef g"
  "blockDependentsByRef (add_error e g) = blockDependentsByRef g"
  "reviewBlocksByTask (add_error e g) = reviewBlocksByTask g"
  "sharedResourcesByBlockRef (add_error e g) = sharedResourcesByBlockRef g"
  "requiredCapabilitiesByBlockRef (add_error e g) = requiredCapabilitiesByBlockRef g"
  by (simp_all add: add_error_def)

lemma idx_inv_add_error [simp]: "idx_inv P (add_error e g) = idx_inv P g"
  by (simp add: idx_inv_def)

lemma idx_inv_fold_error [simp]: "idx_inv P (fold (\<lambda>i. add_error (f i)) es g) = idx_inv P g"
  by (induction es arbitrary: g) simp_all

lemma fold_error_order [simp]:
  "taskNodesInManifestOrder (fold (\<lambda>i. add_error (f i)) es g) = taskNodesInManifestOrder g"
  "tasksById (fold (\<lambda>i. add_error (f i)) es g) = tasksById g"
  by (induction es arbitrary: g) simp_all

subsection \<open>Nodes\<close>

lemma empty_graph_inv: "idx_inv {} empty_graph"
  by (simp add: idx_inv_def empty_graph_def dom_is_def ran_in_def js_map_simps)

lemma index_node_inv: "idx_inv {} (fst gd) \<Longrightarrow> idx_inv {} (fst (index_node n gd))"
  by (cases gd; cases "mn_type n") (auto simp: index_node_def Let_def idx_inv_def intro: dom_is_set ran_in_mono)

lemma index_nodes_inv: "idx_inv {} (index_nodes mf)"
proof -
  have "idx_inv {} (fst gd) \<Longrightarrow> idx_inv {} (fst (fold index_node ns gd))" for ns gd
    by (induction ns arbitrary: gd) (simp_all add: index_node_inv)
  then have "idx_inv {} (fst (fold index_node (mf_nodes mf) (empty_graph, [])))"
    using empty_graph_inv by simp
  then show ?thesis by (auto simp: index_nodes_def split: prod.splits)
qed

subsection \<open>Blocks\<close>

lemma open_task_inv: "idx_inv P g \<Longrightarrow> t \<in> set (taskNodesInManifestOrder g) \<Longrightarrow> idx_inv (insert t P) (open_task t g)"
  by (auto simp: idx_inv_def open_task_def Let_def js_map_simps intro!: dom_is_set ran_in_set)

text \<open>The fields the later loops keep.\<close>

definition same_frame :: "compiled_graph \<Rightarrow> compiled_graph \<Rightarrow> bool" where
  "same_frame g g' \<longleftrightarrow>
     taskNodesInManifestOrder g' = taskNodesInManifestOrder g \<and> tasksById g' = tasksById g \<and>
     nodesById g' = nodesById g"

lemma same_frame_refl [simp, intro]: "same_frame g g"
  by (simp add: same_frame_def)

lemma same_frame_trans [trans]: "same_frame g g' \<Longrightarrow> same_frame g' g'' \<Longrightarrow> same_frame g g''"
  by (simp add: same_frame_def)

lemma same_frame_order: "same_frame g g' \<Longrightarrow> taskNodesInManifestOrder g' = taskNodesInManifestOrder g"
  by (simp add: same_frame_def)

lemma open_task_frame [simp]: "same_frame g (open_task t g)"
  by (simp add: same_frame_def open_task_def)

lemma add_error_frame [simp]: "same_frame g (add_error e g)"
  by (simp add: same_frame_def)

lemma index_block_step:
  assumes "idx_inv P g" and "t \<in> P"
  shows "\<exists>g' ids'. index_block t b (g, ids) = Inr (g', ids') \<and> idx_inv P g' \<and> same_frame g g'"
proof -
  from assms obtain rs vs where rs: "map_get (blocksByTask g) t = Some rs"
    and vs: "map_get (reviewBlocksByTask g) t = Some vs"
    by (meson idx_inv_task_get)
  let ?R' = "insert (blockRef t (mb_id b)) (set (blockRefsInManifestOrder g))"
  have mono: "ran_in m (set (blockRefsInManifestOrder g)) \<Longrightarrow> ran_in m ?R'" for m
    by (erule ran_in_mono) auto
  from assms(1) have push:
    "ran_in (map_set (blocksByTask g) t (rs @ [blockRef t (mb_id b)])) ?R'"
    "ran_in (map_set (reviewBlocksByTask g) t (vs @ [blockRef t (mb_id b)])) ?R'"
    using rs vs by (auto simp: idx_inv_def Let_def intro!: ran_in_push [OF mono])
  show ?thesis
    using assms rs vs push
    by (auto simp: index_block_def Let_def map_push_Some idx_inv_def same_frame_def js_map_simps
        intro!: dom_is_set dom_is_set_mem ran_in_set mono)
qed

lemma index_blocks_total:
  assumes "idx_inv P g" and "t \<in> P"
  shows "\<exists>gi. for_res (index_block t) bs (g, ids) = Inr gi \<and> idx_inv P (fst gi) \<and> same_frame g (fst gi)"
proof (rule for_res_total [where I = "\<lambda>gi. idx_inv P (fst gi) \<and> same_frame g (fst gi)"])
  show "idx_inv P (fst (g, ids)) \<and> same_frame g (fst (g, ids))" using assms by simp
next
  fix b :: manifest_block and gi :: "compiled_graph \<times> string list"
  assume "idx_inv P (fst gi) \<and> same_frame g (fst gi)"
  with index_block_step [of P "fst gi" t b "snd gi"] assms(2)
  show "\<exists>gi'. index_block t b gi = Inr gi' \<and> idx_inv P (fst gi') \<and> same_frame g (fst gi')"
    by (fastforce intro: same_frame_trans)
qed

lemma index_task_step:
  assumes "idx_inv P g" and "t \<in> set (taskNodesInManifestOrder g)"
  shows "\<exists>g'. index_task t g = Inr g' \<and> idx_inv (insert t P) g' \<and> same_frame g g'"
proof -
  from open_task_inv [OF assms] have inv: "idx_inv (insert t P) (open_task t g)" .
  from idx_inv_node_get(1) [OF assms] obtain task where "map_get (tasksById (open_task t g)) t = Some task"
    by (auto simp: open_task_def)
  moreover from index_blocks_total [OF inv, of t "mn_blocks task" "[]"] obtain gi where
    "for_res (index_block t) (mn_blocks task) (open_task t g, []) = Inr gi"
    "idx_inv (insert t P) (fst gi)" "same_frame (open_task t g) (fst gi)" by auto
  ultimately show ?thesis
    by (auto simp: index_task_def Let_def intro: same_frame_trans [OF open_task_frame])
qed

text \<open>The block list of a task is the list of references of its blocks.\<close>

definition task_refs :: "string \<Rightarrow> manifest_node \<Rightarrow> string list" where
  "task_refs t task = map (\<lambda>b. blockRef t (mb_id b)) (mn_blocks task)"

definition blocks_exact :: "string set \<Rightarrow> compiled_graph \<Rightarrow> bool" where
  "blocks_exact P g \<longleftrightarrow>
     (\<forall>t \<in> P. \<forall>task. map_get (tasksById g) t = Some task \<longrightarrow>
        map_get (blocksByTask g) t = Some (task_refs t task))"

lemma index_block_bbt:
  assumes "index_block t b gi = Inr gi'"
  shows "\<exists>rs. map_get (blocksByTask (fst gi)) t = Some rs \<and>
     blocksByTask (fst gi') = map_set (blocksByTask (fst gi)) t (rs @ [blockRef t (mb_id b)])"
  using assms
  by (cases gi) (auto simp: index_block_def Let_def split: if_splits elim!: try_bind_InrE map_push_InrE)

lemma index_blocks_bbt:
  assumes "for_res (index_block t) bs gi = Inr gi'" and "map_get (blocksByTask (fst gi)) t = Some rs"
  shows "map_get (blocksByTask (fst gi')) t' =
     (if t' = t then Some (rs @ map (\<lambda>b. blockRef t (mb_id b)) bs) else map_get (blocksByTask (fst gi)) t')"
  using assms
proof (induction bs arbitrary: gi rs)
  case Nil
  then show ?case by auto
next
  case (Cons b bs)
  from Cons.prems(1) obtain g1 where g1: "index_block t b gi = Inr g1" "for_res (index_block t) bs g1 = Inr gi'"
    by (auto elim: try_bind_InrE)
  from index_block_bbt [OF g1(1)] Cons.prems(2)
  have bbt: "blocksByTask (fst g1) = map_set (blocksByTask (fst gi)) t (rs @ [blockRef t (mb_id b)])"
    by auto
  with Cons.IH [OF g1(2), of "rs @ [blockRef t (mb_id b)]"] show ?case by (auto simp: js_map_simps)
qed

lemma index_task_exact:
  assumes "index_task t g = Inr g'" and "same_frame g g'" and "blocks_exact P g"
  shows "blocks_exact (insert t P) g'"
proof -
  from assms(1) obtain task gi where task: "map_get (tasksById g) t = Some task"
    and gi: "for_res (index_block t) (mn_blocks task) (open_task t g, []) = Inr gi" "g' = fst gi"
    by (auto simp: index_task_def Let_def open_task_def requireMapValue_Inr elim!: try_bind_InrE)
  from index_blocks_bbt [OF gi(1), of "[]"]
  have "map_get (blocksByTask g') t' = (if t' = t then Some (task_refs t task) else map_get (blocksByTask g) t')"
    for t' by (auto simp: gi(2) open_task_def js_map_simps task_refs_def)
  with task assms(2,3) show ?thesis by (auto simp: blocks_exact_def same_frame_def)
qed

lemma index_tasks_total:
  assumes "idx_inv {} g"
  shows "\<exists>g'. for_res index_task (taskNodesInManifestOrder g) g = Inr g' \<and> graph_wf g' \<and>
           same_frame g g' \<and> blocks_exact (set (taskNodesInManifestOrder g)) g'"
proof -
  have "\<exists>g'. for_res index_task (taskNodesInManifestOrder g) g = Inr g' \<and>
          idx_inv ({} \<union> set (taskNodesInManifestOrder g)) g' \<and> same_frame g g' \<and>
          blocks_exact ({} \<union> set (taskNodesInManifestOrder g)) g'"
  proof (rule for_res_total_progress
      [where I = "\<lambda>P g'. idx_inv P g' \<and> same_frame g g' \<and> blocks_exact P g'"])
    show "idx_inv {} g \<and> same_frame g g \<and> blocks_exact {} g"
      using assms by (simp add: blocks_exact_def)
  next
    fix t P g1
    assume t: "t \<in> set (taskNodesInManifestOrder g)"
      and I: "idx_inv P g1 \<and> same_frame g g1 \<and> blocks_exact P g1"
    with index_task_step [of P g1 t] obtain g2 where
      "index_task t g1 = Inr g2" "idx_inv (insert t P) g2" "same_frame g1 g2"
      by (auto simp: same_frame_def)
    with I index_task_exact [of t g1 g2 P] show "\<exists>g'. index_task t g1 = Inr g' \<and>
        idx_inv (insert t P) g' \<and> same_frame g g' \<and> blocks_exact (insert t P) g'"
      by (blast intro: same_frame_trans)
  qed
  then show ?thesis by (auto simp: graph_wf_def same_frame_def)
qed

subsection \<open>Dependencies between blocks\<close>

lemma link_block_dependency_step:
  assumes "graph_wf g" and "ref \<in> set (blockRefsInManifestOrder g)"
    and "d \<in> set known \<Longrightarrow> blockRef t d \<in> set (blockRefsInManifestOrder g)"
  shows "\<exists>g'. link_block_dependency t known ref d g = Inr g' \<and> graph_wf g' \<and> same_frame g g' \<and>
           blockRefsInManifestOrder g' = blockRefsInManifestOrder g \<and> blocksByTask g' = blocksByTask g"
proof (cases "d \<in> set known")
  case False
  with assms(1) show ?thesis by (simp add: link_block_dependency_def graph_wf_def same_frame_def)
next
  case True
  with assms have dep: "blockRef t d \<in> set (blockRefsInManifestOrder g)" by simp
  from assms(1) have inv: "idx_inv (set (taskNodesInManifestOrder g)) g" by (simp add: graph_wf_def)
  from idx_inv_ref_get(3) [OF inv assms(2)] idx_inv_ref_get(4) [OF inv dep]
  obtain ds us where "map_get (blockDependenciesByRef g) ref = Some ds"
    "map_get (blockDependentsByRef g) (blockRef t d) = Some us" by blast
  with True inv assms(2) dep show ?thesis
    by (auto simp: link_block_dependency_def Let_def map_push_Some graph_wf_def idx_inv_def
        same_frame_def intro!: dom_is_set_mem ran_in_push)
qed

lemma link_block_step:
  assumes "graph_wf g" and "blockRef t (mb_id b) \<in> set (blockRefsInManifestOrder g)"
    and "\<And>d. d \<in> set known \<Longrightarrow> blockRef t d \<in> set (blockRefsInManifestOrder g)"
  shows "\<exists>g'. link_block t known b g = Inr g' \<and> graph_wf g' \<and> same_frame g g' \<and>
           blockRefsInManifestOrder g' = blockRefsInManifestOrder g \<and> blocksByTask g' = blocksByTask g"
  unfolding link_block_def
proof (rule for_res_total [where I = "\<lambda>g'. graph_wf g' \<and> same_frame g g' \<and>
    blockRefsInManifestOrder g' = blockRefsInManifestOrder g \<and> blocksByTask g' = blocksByTask g"])
  show "graph_wf g \<and> same_frame g g \<and> blockRefsInManifestOrder g = blockRefsInManifestOrder g \<and>
      blocksByTask g = blocksByTask g"
    using assms(1) by simp
next
  fix d g'
  assume "graph_wf g' \<and> same_frame g g' \<and>
    blockRefsInManifestOrder g' = blockRefsInManifestOrder g \<and> blocksByTask g' = blocksByTask g"
  with link_block_dependency_step [of g' "blockRef t (mb_id b)" d known t] assms(2,3)
  show "\<exists>g''. link_block_dependency t known (blockRef t (mb_id b)) d g' = Inr g'' \<and> graph_wf g'' \<and>
      same_frame g g'' \<and> blockRefsInManifestOrder g'' = blockRefsInManifestOrder g \<and>
      blocksByTask g'' = blocksByTask g"
    by (fastforce intro: same_frame_trans)
qed

text \<open>The references of the blocks of a task parse back to the ids the loop knows.\<close>

abbreviation parse_block_id :: "string \<Rightarrow> string res" where
  "parse_block_id ref \<equiv> try_bind (parseBlockRef ref) (\<lambda>p. Inr (snd p))"

lemma known_ids:
  assumes "map_res parse_block_id rs = Inr known"
    and "\<forall>r \<in> set rs. \<exists>b. r = blockRef t b"
  shows "d \<in> set known \<Longrightarrow> blockRef t d \<in> set rs"
  using assms
proof (induction rs arbitrary: known)
  case Nil
  then show ?case by simp
next
  case (Cons r rs)
  from Cons.prems(3) obtain b where b: "r = blockRef t b" by auto
  from Cons.prems(2) obtain t' d' known' where known: "parseBlockRef r = Inr (t', d')"
    "map_res parse_block_id rs = Inr known'" "known = d' # known'"
    by (auto elim!: try_bind_InrE)
  then have "d' = b" using parse_of_blockRef b by blast
  with Cons known b show ?case by auto
qed

text \<open>What the linking loops keep.\<close>

definition link_inv :: "compiled_graph \<Rightarrow> compiled_graph \<Rightarrow> bool" where
  "link_inv g g' \<longleftrightarrow> graph_wf g' \<and> same_frame g g' \<and>
     blockRefsInManifestOrder g' = blockRefsInManifestOrder g \<and> blocksByTask g' = blocksByTask g"

lemma link_inv_wf: "link_inv g g' \<Longrightarrow> graph_wf g'"
  by (simp add: link_inv_def)

lemma link_inv_trans: "link_inv g g' \<Longrightarrow> link_inv g' g'' \<Longrightarrow> link_inv g g''"
  by (auto simp: link_inv_def intro: same_frame_trans)

lemma link_task_blocks_step:
  assumes wf: "graph_wf g" and ex: "blocks_exact (set (taskNodesInManifestOrder g)) g"
    and t: "t \<in> set (taskNodesInManifestOrder g)"
    and task: "map_get (tasksById g) t = Some task"
    and known: "map_res parse_block_id (task_refs t task) = Inr known"
  shows "\<exists>g'. link_task_blocks t g = Inr g' \<and> link_inv g g'"
proof -
  have bbt: "map_get (blocksByTask g) t = Some (task_refs t task)"
    using ex t task by (simp add: blocks_exact_def)
  with wf have refs: "set (task_refs t task) \<subseteq> set (blockRefsInManifestOrder g)"
    by (auto simp: graph_wf_def idx_inv_def Let_def dest: ran_in_get)
  have kn: "blockRef t d \<in> set (blockRefsInManifestOrder g)" if "d \<in> set known" for d
    using known_ids [OF known _ that] refs by (auto simp: task_refs_def)
  have "\<exists>g'. for_res (link_block t known) (mn_blocks task) g = Inr g' \<and> link_inv g g'"
  proof (rule for_res_total)
    show "link_inv g g" using wf by (simp add: link_inv_def)
  next
    fix b g'
    assume "b \<in> set (mn_blocks task)" and I: "link_inv g g'"
    then have "blockRef t (mb_id b) \<in> set (blockRefsInManifestOrder g')"
      using refs by (auto simp: task_refs_def link_inv_def)
    from link_block_step [OF _ this, of known] I kn
    show "\<exists>g''. link_block t known b g' = Inr g'' \<and> link_inv g g''"
      by (auto simp: link_inv_def intro: same_frame_trans)
  qed
  with bbt known task show ?thesis by (simp add: link_task_blocks_def)
qed

lemma link_task_blocks_partial:
  assumes "graph_wf g" and "blocks_exact (set (taskNodesInManifestOrder g)) g"
    and "t \<in> set (taskNodesInManifestOrder g)" and "link_task_blocks t g = Inr g'"
  shows "link_inv g g' \<and> (\<exists>task known. map_get (tasksById g) t = Some task \<and>
           map_res parse_block_id (task_refs t task) = Inr known)"
proof -
  from assms(4) obtain refs known task where
    r: "map_get (blocksByTask g) t = Some refs" "map_res parse_block_id refs = Inr known"
      "map_get (tasksById g) t = Some task"
    by (auto simp: link_task_blocks_def requireMapValue_Inr elim!: try_bind_InrE)
  with assms(2,3) have "refs = task_refs t task" by (simp add: blocks_exact_def)
  with r link_task_blocks_step [OF assms(1-3)] assms(4) show ?thesis by auto
qed

subsection \<open>Edges between tasks\<close>

lemma validate_endpoints [simp]: "validateEdgeEndpointTypes e f t = []"
  by (cases "me_type e"; cases "mn_type f"; cases "mn_type t") (simp add: validateEdgeEndpointTypes_def)

definition edge_declared :: "(string, manifest_node) js_map \<Rightarrow> manifest_edge \<Rightarrow> bool" where
  "edge_declared nodes e \<longleftrightarrow> map_has nodes (me_from e) \<and> map_has nodes (me_to e)"

lemma link_inv_add_error: "graph_wf g \<Longrightarrow> link_inv g (add_error e g)"
  by (simp add: link_inv_def graph_wf_def)

lemma link_edge_step:
  assumes wf: "graph_wf g"
  shows "\<exists>g' seen'. link_edge e (g, seen) = Inr (g', seen') \<and> link_inv g g' \<and>
     blockDependenciesByRef g' = blockDependenciesByRef g \<and>
     (\<forall>a. succs (taskAdjacency g') a = succs (taskAdjacency g) a @
            (if edge_declared (nodesById g) e \<and> a = me_from e then [me_to e] else []))"
proof (cases "edge_declared (nodesById g) e")
  case True
  have inv: "idx_inv (set (taskNodesInManifestOrder g)) g" using wf by (simp add: graph_wf_def)
  from True obtain f t where ft: "map_get (nodesById g) (me_from e) = Some f"
    "map_get (nodesById g) (me_to e) = Some t"
    by (auto simp: edge_declared_def map_has_get)
  with inv have mem: "me_from e \<in> set (taskNodesInManifestOrder g)" "me_to e \<in> set (taskNodesInManifestOrder g)"
    by (auto simp: idx_inv_def Let_def dest: dom_is_mem)
  from idx_inv_task_get(1) [OF inv mem(1)] idx_inv_task_get(2) [OF inv mem(2)]
  obtain ds us where d: "map_get (taskDependenciesByTask g) (me_from e) = Some ds"
    "map_get (taskDependentsByTask g) (me_to e) = Some us" by blast
  from inv have adj: "taskAdjacency g = taskDependenciesByTask g" by (simp add: idx_inv_def Let_def)
  from True ft d adj mem inv show ?thesis
    by (auto simp: link_edge_def Let_def map_push_Some link_inv_def graph_wf_def same_frame_def
        idx_inv_def succs_def js_map_simps intro!: dom_is_set_mem ran_in_push)
next
  case False
  then have "map_get (nodesById g) (me_from e) = None \<or> map_get (nodesById g) (me_to e) = None"
    by (auto simp: edge_declared_def map_has_get)
  with False wf show ?thesis
    by (auto simp: link_edge_def Let_def link_inv_def graph_wf_def same_frame_def split: option.splits)
qed

lemma link_edges_total:
  assumes "graph_wf g"
  shows "\<exists>g' seen'. for_res link_edge es (g, seen) = Inr (g', seen') \<and> link_inv g g' \<and>
     blockDependenciesByRef g' = blockDependenciesByRef g \<and>
     (\<forall>a. succs (taskAdjacency g') a = succs (taskAdjacency g) a @
            map me_to (filter (\<lambda>e. edge_declared (nodesById g) e \<and> me_from e = a) es))"
  using assms
proof (induction es arbitrary: g seen)
  case Nil
  then show ?case by (simp add: link_inv_def)
next
  case (Cons e es)
  from link_edge_step [OF Cons.prems, of e seen] obtain g1 seen1 where
    g1: "link_edge e (g, seen) = Inr (g1, seen1)" "link_inv g g1"
      "blockDependenciesByRef g1 = blockDependenciesByRef g"
      "\<And>a. succs (taskAdjacency g1) a = succs (taskAdjacency g) a @
            (if edge_declared (nodesById g) e \<and> a = me_from e then [me_to e] else [])" by blast
  then have wf1: "graph_wf g1" and nodes: "nodesById g1 = nodesById g"
    by (auto simp: link_inv_def same_frame_def)
  from Cons.IH [OF wf1, of seen1] obtain g2 seen2 where
    "for_res link_edge es (g1, seen1) = Inr (g2, seen2)" "link_inv g1 g2"
      "blockDependenciesByRef g2 = blockDependenciesByRef g1"
      "\<forall>a. succs (taskAdjacency g2) a = succs (taskAdjacency g1) a @
            map me_to (filter (\<lambda>e. edge_declared (nodesById g) e \<and> me_from e = a) es)"
    by (auto simp: nodes)
  with g1 show ?case by (auto intro: link_inv_trans)
qed

subsection \<open>Cycles and the last check\<close>

lemma ran_in_closed:
  assumes "dom_is m S" and "ran_in m S"
  shows "adj_closed m"
  unfolding adj_closed_iff
proof (intro allI ballI)
  fix a b
  assume "b \<in> set (succs m a)"
  then obtain vs where "map_get m a = Some vs" "b \<in> set vs"
    by (cases "map_get m a") (auto simp: succs_def)
  with ran_in_get [OF assms(2)] have "b \<in> S" by blast
  with assms(1) show "map_has m b" by (simp add: dom_is_def)
qed

lemma graph_wf_adj_closed:
  assumes "graph_wf g"
  shows "adj_closed (taskAdjacency g)" and "adj_closed (blockDependenciesByRef g)"
  using assms by (auto simp: graph_wf_def idx_inv_def Let_def intro: ran_in_closed)

lemma findCycle_correct:
  "\<exists>r. findCycle adj = Inr r \<and>
     (case r of Some c \<Rightarrow> is_cycle adj c \<and> \<not> acyclic (edges_of adj) | None \<Rightarrow> acyclic (edges_of adj))"
  using search_cycle_correct [of True adj] is_cycle_not_acyclic
  by (fastforce simp: findCycle_def split: option.splits)

fun cycle_issue :: "graph_issue \<Rightarrow> bool" where
  "cycle_issue (DependsOnCycle c) = True"
| "cycle_issue (BlockDependsOnCycle c) = True"
| "cycle_issue _ = False"

text \<open>What the cycle check adds to the diagnostics.\<close>

definition cycles_reported ::
  "compiled_graph \<Rightarrow> compiled_graph \<Rightarrow> graph_issue list \<Rightarrow> graph_issue list \<Rightarrow> bool" where
  "cycles_reported g g' tc bc \<longleftrightarrow>
     link_inv g g' \<and> taskAdjacency g' = taskAdjacency g \<and>
     blockDependenciesByRef g' = blockDependenciesByRef g \<and>
     diagnosticErrors g' = diagnosticErrors g @ tc @ bc \<and>
     (tc = [] \<longleftrightarrow> acyclic (edges_of (taskAdjacency g))) \<and>
     (\<forall>i \<in> set tc. \<exists>c. i = DependsOnCycle c \<and> is_cycle (taskAdjacency g) c) \<and>
     (bc = [] \<longleftrightarrow> acyclic (edges_of (blockDependenciesByRef g))) \<and>
     (\<forall>i \<in> set bc. \<exists>c. i = BlockDependsOnCycle c \<and> is_cycle (blockDependenciesByRef g) c)"

lemma check_cycles_total:
  assumes wf: "graph_wf g"
  shows "\<exists>g' tc bc. check_cycles g = Inr g' \<and> cycles_reported g g' tc bc"
proof -
  from findCycle_correct [of "taskAdjacency g"] obtain r where
    r: "findCycle (taskAdjacency g) = Inr r"
      "case r of Some c \<Rightarrow> is_cycle (taskAdjacency g) c \<and> \<not> acyclic (edges_of (taskAdjacency g))
       | None \<Rightarrow> acyclic (edges_of (taskAdjacency g))" by blast
  from findCycle_correct [of "blockDependenciesByRef g"] obtain r' where
    r': "findCycle (blockDependenciesByRef g) = Inr r'"
      "case r' of Some c \<Rightarrow> is_cycle (blockDependenciesByRef g) c \<and>
          \<not> acyclic (edges_of (blockDependenciesByRef g))
       | None \<Rightarrow> acyclic (edges_of (blockDependenciesByRef g))" by blast
  let ?tc = "case r of None \<Rightarrow> [] | Some c \<Rightarrow> [DependsOnCycle c]"
  let ?bc = "case r' of None \<Rightarrow> [] | Some c \<Rightarrow> [BlockDependsOnCycle c]"
  let ?g1 = "case r of None \<Rightarrow> g | Some c \<Rightarrow> add_error (DependsOnCycle c) g"
  let ?g' = "case r' of None \<Rightarrow> ?g1 | Some c \<Rightarrow> add_error (BlockDependsOnCycle c) ?g1"
  have deps: "blockDependenciesByRef ?g1 = blockDependenciesByRef g" by (simp split: option.splits)
  show ?thesis
    unfolding cycles_reported_def
  proof (rule exI [of _ ?g'], rule exI [of _ ?tc], rule exI [of _ ?bc], intro conjI)
    show "check_cycles g = Inr ?g'" using r(1) r'(1) deps by (simp add: check_cycles_def Let_def)
    show "link_inv g ?g'"
      using wf by (auto simp: link_inv_def graph_wf_def same_frame_def split: option.splits)
    show "taskAdjacency ?g' = taskAdjacency g" "blockDependenciesByRef ?g' = blockDependenciesByRef g"
      by (simp_all split: option.splits)
    show "diagnosticErrors ?g' = diagnosticErrors g @ ?tc @ ?bc"
      by (simp add: add_error_def split: option.splits)
    show "?tc = [] \<longleftrightarrow> acyclic (edges_of (taskAdjacency g))"
      "\<forall>i \<in> set ?tc. \<exists>c. i = DependsOnCycle c \<and> is_cycle (taskAdjacency g) c"
      using r(2) by (auto split: option.splits)
    show "?bc = [] \<longleftrightarrow> acyclic (edges_of (blockDependenciesByRef g))"
      "\<forall>i \<in> set ?bc. \<exists>c. i = BlockDependsOnCycle c \<and> is_cycle (blockDependenciesByRef g) c"
      using r'(2) by (auto split: option.splits)
  qed
qed

lemma check_implementation_step:
  assumes "graph_wf g" and "t \<in> set (taskNodesInManifestOrder g)"
  shows "check_implementation t g = Inr g \<or>
         check_implementation t g = Inr (add_error (TaskWithoutImplementationBlock t) g)"
proof -
  from graph_wf_task(4) [OF assms] obtain rs where rs: "map_get (blocksByTask g) t = Some rs"
    and sub: "set rs \<subseteq> set (blockRefsInManifestOrder g)" by auto
  have "some_res (\<lambda>ref. try_bind (requireMapValue (blocksByRef g) ref ''blocksByRef'')
          (\<lambda>b. Inr (mb_type b = Implementation))) rs =
        Inr (list_ex (\<lambda>ref. mb_type (the (map_get (blocksByRef g) ref)) = Implementation) rs)"
  proof (rule some_res_Inr)
    fix ref
    assume "ref \<in> set rs"
    with sub have "ref \<in> set (blockRefsInManifestOrder g)" by auto
    from graph_wf_ref(1) [OF assms(1) this] obtain b where "map_get (blocksByRef g) ref = Some b" ..
    then show "try_bind (requireMapValue (blocksByRef g) ref ''blocksByRef'')
        (\<lambda>b. Inr (mb_type b = Implementation)) =
      Inr (mb_type (the (map_get (blocksByRef g) ref)) = Implementation)" by simp
  qed
  with rs show ?thesis by (simp add: check_implementation_def)
qed

lemma check_implementations_total:
  assumes "graph_wf g"
  shows "\<exists>g' es. for_res check_implementation (taskNodesInManifestOrder g) g = Inr g' \<and>
     link_inv g g' \<and> taskAdjacency g' = taskAdjacency g \<and>
     blockDependenciesByRef g' = blockDependenciesByRef g \<and>
     diagnosticErrors g' = diagnosticErrors g @ es \<and> list_all (\<lambda>i. \<not> cycle_issue i) es"
proof -
  let ?I = "\<lambda>g'. link_inv g g' \<and> taskAdjacency g' = taskAdjacency g \<and>
     blockDependenciesByRef g' = blockDependenciesByRef g \<and>
     (\<exists>es. diagnosticErrors g' = diagnosticErrors g @ es \<and> list_all (\<lambda>i. \<not> cycle_issue i) es)"
  have "\<exists>g'. for_res check_implementation (taskNodesInManifestOrder g) g = Inr g' \<and> ?I g'"
  proof (rule for_res_total)
    show "?I g" using assms by (auto simp: link_inv_def intro: exI [of _ "[]"])
  next
    fix t g1
    assume "t \<in> set (taskNodesInManifestOrder g)" and I: "?I g1"
    with check_implementation_step [of g1 t]
    have "check_implementation t g1 = Inr g1 \<or>
          check_implementation t g1 = Inr (add_error (TaskWithoutImplementationBlock t) g1)"
      by (auto simp: link_inv_def same_frame_def)
    moreover have "?I (add_error (TaskWithoutImplementationBlock t) g1)"
    proof (intro conjI)
      show "link_inv g (add_error (TaskWithoutImplementationBlock t) g1)"
        using I by (blast intro: link_inv_trans link_inv_add_error dest: link_inv_wf)
      from I obtain es where "diagnosticErrors g1 = diagnosticErrors g @ es"
        "list_all (\<lambda>i. \<not> cycle_issue i) es" by blast
      then show "\<exists>es. diagnosticErrors (add_error (TaskWithoutImplementationBlock t) g1) =
          diagnosticErrors g @ es \<and> list_all (\<lambda>i. \<not> cycle_issue i) es"
        by (intro exI [of _ "es @ [TaskWithoutImplementationBlock t]"]) (simp add: add_error_def)
    qed (use I in simp_all)
    ultimately show "\<exists>g2. check_implementation t g1 = Inr g2 \<and> ?I g2" using I by blast
  qed
  then show ?thesis by blast
qed

subsection \<open>Before the cycle check\<close>

definition quiet :: "compiled_graph \<Rightarrow> bool" where
  "quiet g \<longleftrightarrow> list_all (\<lambda>i. \<not> cycle_issue i) (diagnosticErrors g)"

definition no_edges :: "compiled_graph \<Rightarrow> bool" where
  "no_edges g \<longleftrightarrow> quiet g \<and> (\<forall>a. succs (taskAdjacency g) a = [])"

lemma quiet_add_error [simp]: "quiet (add_error e g) \<longleftrightarrow> quiet g \<and> \<not> cycle_issue e"
  by (auto simp: quiet_def add_error_def)

lemma no_edges_add_error [simp]: "no_edges (add_error e g) \<longleftrightarrow> no_edges g \<and> \<not> cycle_issue e"
  by (auto simp: no_edges_def)

lemma index_nodes_order: "taskNodesInManifestOrder (index_nodes mf) = map mn_id (mf_nodes mf)"
proof -
  have step: "taskNodesInManifestOrder (fst (index_node n gd)) = taskNodesInManifestOrder (fst gd) @ [mn_id n]"
    for n gd by (cases gd; cases "mn_type n") (simp add: index_node_def Let_def)
  have "taskNodesInManifestOrder (fst (fold index_node ns gd)) =
          taskNodesInManifestOrder (fst gd) @ map mn_id ns" for ns gd
    by (induction ns arbitrary: gd) (simp_all add: step)
  then show ?thesis by (simp add: index_nodes_def empty_graph_def split_beta)
qed

lemma index_nodes_no_edges: "no_edges (index_nodes mf)"
proof -
  have step: "no_edges (fst gd) \<Longrightarrow> no_edges (fst (index_node n gd))" for n gd
    by (cases gd; cases "mn_type n") (simp add: index_node_def Let_def no_edges_def quiet_def)
  have nodes: "no_edges (fst gd) \<Longrightarrow> no_edges (fst (fold index_node ns gd))" for ns gd
    by (induction ns arbitrary: gd) (simp_all add: step)
  have errs: "no_edges g \<Longrightarrow> no_edges (fold (\<lambda>i. add_error (NodeIdDuplicate i)) ds g)" for ds g
    by (induction ds arbitrary: g) simp_all
  have "no_edges empty_graph" by (simp add: no_edges_def quiet_def empty_graph_def succs_def js_map_simps)
  with nodes errs show ?thesis by (simp add: index_nodes_def split_beta)
qed

lemma index_block_no_edges: "index_block t b gi = Inr gi' \<Longrightarrow> no_edges (fst gi) \<Longrightarrow> no_edges (fst gi')"
  by (cases gi) (auto simp: index_block_def Let_def no_edges_def quiet_def add_error_def
      split: if_splits elim!: try_bind_InrE map_push_InrE)

lemma index_task_no_edges:
  assumes "index_task t g = Inr g'" and "no_edges g"
  shows "no_edges g'"
proof -
  from assms(1) obtain task :: manifest_node and gi where
    gi: "for_res (index_block t) (mn_blocks task) (open_task t g, []) = Inr gi" "g' = fst gi"
    by (auto simp: index_task_def Let_def elim!: try_bind_InrE)
  have "no_edges (open_task t g)"
    using assms(2) by (auto simp: no_edges_def quiet_def open_task_def succs_def js_map_simps)
  then have "no_edges (fst gi)"
    by (intro for_res_invariant [OF gi(1), of "\<lambda>gi. no_edges (fst gi)"])
      (auto intro: index_block_no_edges)
  with gi(2) show ?thesis by simp
qed

lemma link_block_dependency_no_edges:
  "link_block_dependency t known ref d g = Inr g' \<Longrightarrow> no_edges g \<Longrightarrow> no_edges g'"
  by (auto simp: link_block_dependency_def Let_def no_edges_def quiet_def add_error_def
      split: if_splits elim!: try_bind_InrE)

lemma link_task_blocks_no_edges:
  assumes "link_task_blocks t g = Inr g'" and "no_edges g"
  shows "no_edges g'"
proof -
  have block: "no_edges g2" if "link_block t known b g1 = Inr g2" and "no_edges g1" for known b g1 g2
    by (rule for_res_invariant [OF that(1) [unfolded link_block_def]])
      (auto simp: that(2) intro: link_block_dependency_no_edges)
  from assms(1) obtain known and task :: manifest_node where "for_res (link_block t known) (mn_blocks task) g = Inr g'"
    by (auto simp: link_task_blocks_def elim!: try_bind_InrE)
  then show ?thesis by (rule for_res_invariant) (auto simp: assms(2) intro: block)
qed

lemma link_edge_quiet: "link_edge e gs = Inr gs' \<Longrightarrow> quiet (fst gs) \<Longrightarrow> quiet (fst gs')"
  by (cases gs) (auto simp: link_edge_def Let_def quiet_def add_error_def
      split: if_splits option.splits elim!: try_bind_InrE)

section \<open>Correctness of compilation\<close>

text \<open>The declared edges of a manifest: both ends are nodes of it.\<close>

definition declared_edges :: "manifest \<Rightarrow> manifest_edge list" where
  "declared_edges mf =
     filter (\<lambda>e. me_from e \<in> mn_id ` set (mf_nodes mf) \<and> me_to e \<in> mn_id ` set (mf_nodes mf))
       (mf_edges mf)"

text \<open>The state of the indexes before the cycle check.\<close>

definition linked :: "manifest \<Rightarrow> compiled_graph \<Rightarrow> bool" where
  "linked mf g \<longleftrightarrow>
     graph_wf g \<and> blocks_exact (set (taskNodesInManifestOrder g)) g \<and>
     taskNodesInManifestOrder g = map mn_id (mf_nodes mf) \<and> quiet g \<and>
     (\<forall>a. succs (taskAdjacency g) a = map me_to (filter (\<lambda>e. me_from e = a) (declared_edges mf)))"

lemma compile_before_checks:
  assumes "for_res link_task_blocks (taskNodesInManifestOrder (index_nodes mf)) g1 = Inr g2"
    and "for_res index_task (taskNodesInManifestOrder (index_nodes mf)) (index_nodes mf) = Inr g1"
  shows "\<exists>g3 seen. for_res link_edge (mf_edges mf) (g2, []) = Inr (g3, seen) \<and> linked mf g3"
proof -
  let ?g0 = "index_nodes mf"
  let ?O = "taskNodesInManifestOrder ?g0"
  from index_tasks_total [OF index_nodes_inv [of mf]] assms(2)
  have g1: "graph_wf g1" "same_frame ?g0 g1" "blocks_exact (set ?O) g1" by auto
  have ne1: "no_edges g1"
    by (rule for_res_invariant [OF assms(2)]) (auto intro: index_nodes_no_edges index_task_no_edges)
  have "link_inv g1 g2 \<and> no_edges g2"
  proof (rule for_res_invariant [OF assms(1), of "\<lambda>g. link_inv g1 g \<and> no_edges g"])
    show "link_inv g1 g1 \<and> no_edges g1" using g1(1) ne1 by (simp add: link_inv_def)
  next
    fix t g g'
    assume t: "t \<in> set ?O" and I: "link_inv g1 g \<and> no_edges g" and st: "link_task_blocks t g = Inr g'"
    from I g1 have "taskNodesInManifestOrder g = ?O" "blocks_exact (set ?O) g"
      by (auto simp: link_inv_def same_frame_def blocks_exact_def)
    with link_task_blocks_partial [OF _ _ _ st] t I have "link_inv g g'" by (auto simp: link_inv_def)
    with I st show "link_inv g1 g' \<and> no_edges g'"
      by (auto intro: link_inv_trans link_task_blocks_no_edges)
  qed
  then have l2: "link_inv g1 g2" and ne2: "no_edges g2" by auto
  from link_edges_total [OF link_inv_wf [OF l2], of "mf_edges mf" "[]"] obtain g3 seen where
    g3: "for_res link_edge (mf_edges mf) (g2, []) = Inr (g3, seen)" "link_inv g2 g3"
      "\<forall>a. succs (taskAdjacency g3) a = succs (taskAdjacency g2) a @
         map me_to (filter (\<lambda>e. edge_declared (nodesById g2) e \<and> me_from e = a) (mf_edges mf))" by blast
  have l3: "link_inv g1 g3" using l2 g3(2) by (rule link_inv_trans)
  have order: "taskNodesInManifestOrder g3 = map mn_id (mf_nodes mf)"
    using l3 g1(2) index_nodes_order by (simp add: link_inv_def same_frame_def)
  have declared: "edge_declared (nodesById g2) e \<longleftrightarrow>
      me_from e \<in> mn_id ` set (mf_nodes mf) \<and> me_to e \<in> mn_id ` set (mf_nodes mf)" for e
    using index_nodes_inv [of mf] l2 g1(2) index_nodes_order [of mf]
    by (simp add: edge_declared_def link_inv_def same_frame_def idx_inv_def Let_def dom_is_def)
  have "blocks_exact (set (taskNodesInManifestOrder g3)) g3"
    using g1 l3 by (auto simp: blocks_exact_def link_inv_def same_frame_def)
  moreover have "quiet g3"
    using for_res_invariant [OF g3(1), of "\<lambda>gs. quiet (fst gs)"] ne2
    by (auto simp: no_edges_def intro: link_edge_quiet)
  moreover have "succs (taskAdjacency g3) a = map me_to (filter (\<lambda>e. me_from e = a) (declared_edges mf))"
    for a using g3(3) ne2
    by (simp add: no_edges_def declared declared_edges_def conj_commute conj_left_commute)
  ultimately show ?thesis
    using g3(1) link_inv_wf [OF l3] order by (simp add: linked_def)
qed

theorem compile_facts:
  assumes "compileTaskGraph mf = Inr g"
  shows "graph_wf g" and "blocks_exact (set (taskNodesInManifestOrder g)) g"
    and "taskNodesInManifestOrder g = map mn_id (mf_nodes mf)"
    and "\<And>a. succs (taskAdjacency g) a = map me_to (filter (\<lambda>e. me_from e = a) (declared_edges mf))"
    and "(\<exists>c. DependsOnCycle c \<in> set (diagnosticErrors g)) \<longleftrightarrow> \<not> acyclic (edges_of (taskAdjacency g))"
    and "\<And>c. DependsOnCycle c \<in> set (diagnosticErrors g) \<Longrightarrow> is_cycle (taskAdjacency g) c"
    and "(\<exists>c. BlockDependsOnCycle c \<in> set (diagnosticErrors g)) \<longleftrightarrow>
           \<not> acyclic (edges_of (blockDependenciesByRef g))"
    and "\<And>c. BlockDependsOnCycle c \<in> set (diagnosticErrors g) \<Longrightarrow> is_cycle (blockDependenciesByRef g) c"
proof -
  let ?O = "taskNodesInManifestOrder (index_nodes mf)"
  from assms obtain g1 g2 gs g4 where st: "for_res index_task ?O (index_nodes mf) = Inr g1"
    "for_res link_task_blocks ?O g1 = Inr g2" "for_res link_edge (mf_edges mf) (g2, []) = Inr gs"
    "check_cycles (fst gs) = Inr g4" "for_res check_implementation ?O g4 = Inr g"
    by (auto simp: compileTaskGraph_def Let_def elim!: try_bind_InrE)
  from compile_before_checks [OF st(2,1)] st(3) have "linked mf (fst gs)" by auto
  then have g3: "graph_wf (fst gs)" "blocks_exact (set (taskNodesInManifestOrder (fst gs))) (fst gs)"
      "taskNodesInManifestOrder (fst gs) = map mn_id (mf_nodes mf)" "quiet (fst gs)"
      "\<And>a. succs (taskAdjacency (fst gs)) a = map me_to (filter (\<lambda>e. me_from e = a) (declared_edges mf))"
    unfolding linked_def by blast+
  from check_cycles_total [OF g3(1)] st(4) obtain tc bc where
    "cycles_reported (fst gs) g4 tc bc" by auto
  then have
    g4: "link_inv (fst gs) g4" "taskAdjacency g4 = taskAdjacency (fst gs)"
      "blockDependenciesByRef g4 = blockDependenciesByRef (fst gs)"
      "diagnosticErrors g4 = diagnosticErrors (fst gs) @ tc @ bc"
      "tc = [] \<longleftrightarrow> acyclic (edges_of (taskAdjacency (fst gs)))"
      "\<forall>i \<in> set tc. \<exists>c. i = DependsOnCycle c \<and> is_cycle (taskAdjacency (fst gs)) c"
      "bc = [] \<longleftrightarrow> acyclic (edges_of (blockDependenciesByRef (fst gs)))"
      "\<forall>i \<in> set bc. \<exists>c. i = BlockDependsOnCycle c \<and> is_cycle (blockDependenciesByRef (fst gs)) c"
    by (simp_all add: cycles_reported_def)
  have "taskNodesInManifestOrder g4 = ?O"
    using g4(1) g3(3) index_nodes_order by (simp add: link_inv_def same_frame_def)
  with check_implementations_total [OF link_inv_wf [OF g4(1)]] st(5) obtain es where
    g5: "link_inv g4 g" "taskAdjacency g = taskAdjacency g4"
      "blockDependenciesByRef g = blockDependenciesByRef g4"
      "diagnosticErrors g = diagnosticErrors g4 @ es" "list_all (\<lambda>i. \<not> cycle_issue i) es"
    by auto
  have l: "link_inv (fst gs) g" using g4(1) g5(1) by (rule link_inv_trans)
  then show "graph_wf g" by (rule link_inv_wf)
  from l g3(2) show "blocks_exact (set (taskNodesInManifestOrder g)) g"
    by (auto simp: blocks_exact_def link_inv_def same_frame_def)
  from l g3(3) show "taskNodesInManifestOrder g = map mn_id (mf_nodes mf)"
    by (simp add: link_inv_def same_frame_def)
  show "succs (taskAdjacency g) a = map me_to (filter (\<lambda>e. me_from e = a) (declared_edges mf))" for a
    using g3(5) g4(2) g5(2) by simp
  have errs: "set (diagnosticErrors g) = set (diagnosticErrors (fst gs)) \<union> set tc \<union> set bc \<union> set es"
    using g4(4) g5(4) by auto
  have noc: "i \<in> set (diagnosticErrors (fst gs)) \<union> set es \<Longrightarrow> \<not> cycle_issue i" for i
    using g3(4) g5(5) by (auto simp: quiet_def list_all_iff)
  have dep: "DependsOnCycle c \<in> set (diagnosticErrors g) \<longleftrightarrow> DependsOnCycle c \<in> set tc" for c
    using errs noc [of "DependsOnCycle c"] g4(8) by auto
  have bdep: "BlockDependsOnCycle c \<in> set (diagnosticErrors g) \<longleftrightarrow> BlockDependsOnCycle c \<in> set bc" for c
    using errs noc [of "BlockDependsOnCycle c"] g4(6) by auto
  have "(\<exists>c. DependsOnCycle c \<in> set tc) \<longleftrightarrow> tc \<noteq> []" using g4(6) by (cases tc) auto
  then show "(\<exists>c. DependsOnCycle c \<in> set (diagnosticErrors g)) \<longleftrightarrow> \<not> acyclic (edges_of (taskAdjacency g))"
    using dep g4(2,5) g5(2) by simp
  have "(\<exists>c. BlockDependsOnCycle c \<in> set bc) \<longleftrightarrow> bc \<noteq> []" using g4(8) by (cases bc) auto
  then show "(\<exists>c. BlockDependsOnCycle c \<in> set (diagnosticErrors g)) \<longleftrightarrow>
           \<not> acyclic (edges_of (blockDependenciesByRef g))"
    using bdep g4(3,7) g5(3) by simp
  show "is_cycle (taskAdjacency g) c" if "DependsOnCycle c \<in> set (diagnosticErrors g)" for c
    using that dep g4(2,6) g5(2) by auto
  show "is_cycle (blockDependenciesByRef g) c" if "BlockDependsOnCycle c \<in> set (diagnosticErrors g)" for c
    using that bdep g4(3,8) g5(3) by auto
qed

subsection \<open>Compilation does not throw on well-named manifests\<close>

definition manifest_ids_ok :: "manifest \<Rightarrow> bool" where
  "manifest_ids_ok mf \<longleftrightarrow>
     list_all (\<lambda>n. id_ok (mn_id n) \<and> list_all (\<lambda>b. id_ok (mb_id b)) (mn_blocks n)) (mf_nodes mf)"

lemma index_nodes_tasks:
  "map_get (tasksById (index_nodes mf)) t = Some n \<Longrightarrow> n \<in> set (mf_nodes mf) \<and> mn_id n = t"
proof -
  have step: "map_get (tasksById (fst (index_node n gd))) t =
      (if t = mn_id n then Some n else map_get (tasksById (fst gd)) t)" for n gd t
    by (cases gd; cases "mn_type n") (simp add: index_node_def Let_def js_map_simps)
  have fold: "map_get (tasksById (fst (fold index_node ns gd))) t = Some n \<Longrightarrow>
      (n \<in> set ns \<and> mn_id n = t) \<or> map_get (tasksById (fst gd)) t = Some n" for ns gd n
  proof (induction ns arbitrary: gd)
    case (Cons m ns)
    from Cons.IH [of "index_node m gd"] Cons.prems step [of m gd t] show ?case
      by (auto split: if_splits)
  qed simp
  assume "map_get (tasksById (index_nodes mf)) t = Some n"
  then show ?thesis using fold [of "mf_nodes mf" "(empty_graph, [])" n]
    by (simp add: index_nodes_def split_beta empty_graph_def js_map_simps)
qed

lemma compile_link_total:
  assumes ids: "manifest_ids_ok mf"
    and g1: "graph_wf g1" "same_frame (index_nodes mf) g1"
      "blocks_exact (set (taskNodesInManifestOrder (index_nodes mf))) g1"
  shows "\<exists>g2. for_res link_task_blocks (taskNodesInManifestOrder (index_nodes mf)) g1 = Inr g2 \<and>
           link_inv g1 g2"
proof (rule for_res_total)
  show "link_inv g1 g1" using g1(1) by (simp add: link_inv_def)
next
  fix t g
  assume t: "t \<in> set (taskNodesInManifestOrder (index_nodes mf))" and I: "link_inv g1 g"
  have order: "taskNodesInManifestOrder g = taskNodesInManifestOrder (index_nodes mf)"
    and tasks: "tasksById g = tasksById (index_nodes mf)"
    and ex: "blocks_exact (set (taskNodesInManifestOrder g)) g"
    using I g1 by (auto simp: link_inv_def same_frame_def blocks_exact_def)
  from graph_wf_task(1) [OF link_inv_wf [OF I]] t order obtain task where
    task: "map_get (tasksById g) t = Some task" by auto
  with index_nodes_tasks tasks ids have "id_ok t" "\<forall>b \<in> set (mn_blocks task). id_ok (mb_id b)"
    by (auto simp: manifest_ids_ok_def list_all_iff)
  then have "map_res parse_block_id (task_refs t task) =
      Inr (map (\<lambda>r. snd (projr (parseBlockRef r))) (task_refs t task))"
    by (intro map_res_Inr) (auto simp: task_refs_def parse_blockRef)
  from link_task_blocks_step [OF link_inv_wf [OF I] ex _ task this] t order I
  show "\<exists>g'. link_task_blocks t g = Inr g' \<and> link_inv g1 g'"
    by (auto intro: link_inv_trans)
qed

lemma compile_total:
  assumes "manifest_ids_ok mf"
  shows "\<exists>g. compileTaskGraph mf = Inr g"
proof -
  let ?O = "taskNodesInManifestOrder (index_nodes mf)"
  from index_tasks_total [OF index_nodes_inv [of mf]] obtain g1 where
    g1: "for_res index_task ?O (index_nodes mf) = Inr g1" "graph_wf g1"
      "same_frame (index_nodes mf) g1" "blocks_exact (set ?O) g1" by auto
  from compile_link_total [OF assms g1(2-4)] obtain g2 where
    g2: "for_res link_task_blocks ?O g1 = Inr g2" by auto
  from compile_before_checks [OF g2 g1(1)] obtain g3 seen where
    g3: "for_res link_edge (mf_edges mf) (g2, []) = Inr (g3, seen)" "linked mf g3" by auto
  then have wf3: "graph_wf g3" "taskNodesInManifestOrder g3 = ?O"
    by (simp_all add: linked_def index_nodes_order)
  from check_cycles_total [OF wf3(1)] obtain g4 tc bc where
    g4: "check_cycles g3 = Inr g4" "cycles_reported g3 g4 tc bc" by blast
  then have "graph_wf g4" "taskNodesInManifestOrder g4 = ?O"
    using wf3 by (auto simp: cycles_reported_def link_inv_def same_frame_def)
  with check_implementations_total [of g4] obtain g5 where
    "for_res check_implementation ?O g4 = Inr g5" by auto
  with g1 g2 g3 g4 show ?thesis by (simp add: compileTaskGraph_def Let_def)
qed

text \<open>The order relation the tasks of a manifest declare.\<close>

definition depends_relation :: "manifest \<Rightarrow> (string \<times> string) set" where
  "depends_relation mf = (\<lambda>e. (me_from e, me_to e)) ` set (declared_edges mf)"

lemma compile_edges:
  assumes "compileTaskGraph mf = Inr g"
  shows "edges_of (taskAdjacency g) = depends_relation mf"
proof -
  have key: "map_has (taskAdjacency g) b" if "b \<in> set (succs (taskAdjacency g) a)" for a b
    using that graph_wf_adj_closed(1) [OF compile_facts(1) [OF assms]] by (simp add: adj_closed_iff)
  have "edges_of (taskAdjacency g) = {(a, b). b \<in> set (succs (taskAdjacency g) a)}"
    using key by (auto simp: edges_of_def)
  then show ?thesis
    by (auto simp: compile_facts(4) [OF assms] depends_relation_def image_iff)
qed

lemma compile_no_empty_key:
  assumes "compileTaskGraph mf = Inr g" and "\<forall>n \<in> set (mf_nodes mf). mn_id n \<noteq> []"
  shows "\<not> map_has (taskAdjacency g) []"
proof -
  have "idx_inv (set (taskNodesInManifestOrder g)) g"
    using compile_facts(1) [OF assms(1)] by (simp add: graph_wf_def)
  then have "map_has (taskAdjacency g) [] \<longleftrightarrow> [] \<in> set (taskNodesInManifestOrder g)"
    by (simp add: idx_inv_def Let_def dom_is_def)
  with compile_facts(3) [OF assms(1)] assms(2) show ?thesis by auto
qed

lemma taskReachable_correct:
  assumes "compileTaskGraph mf = Inr g" and "\<forall>n \<in> set (mf_nodes mf). mn_id n \<noteq> []"
  shows "taskReachable g a b = Inr ((a, b) \<in> (depends_relation mf)\<^sup>+)"
  using search_reachable_correct [OF compile_no_empty_key [OF assms], of True a b]
    graph_wf_adj_closed(1) [OF compile_facts(1) [OF assms(1)]] compile_edges [OF assms(1)]
  by (simp add: taskReachable_def reachable_def)

subsection \<open>Every indexed block belongs to its task\<close>

definition owned_refs :: "compiled_graph \<Rightarrow> bool" where
  "owned_refs g \<longleftrightarrow>
     (\<forall>r t. map_get (blockTaskByRef g) r = Some t \<longrightarrow>
        (\<exists>task b. map_get (tasksById g) t = Some task \<and> b \<in> set (mn_blocks task) \<and>
           r = blockRef t (mb_id b) \<and> map_get (blocksByRef g) r = Some b))"

definition ref_frame :: "compiled_graph \<Rightarrow> compiled_graph \<Rightarrow> bool" where
  "ref_frame g g' \<longleftrightarrow>
     blockTaskByRef g' = blockTaskByRef g \<and> blocksByRef g' = blocksByRef g \<and>
     tasksById g' = tasksById g"

lemma ref_frame_owned: "ref_frame g g' \<Longrightarrow> owned_refs g \<Longrightarrow> owned_refs g'"
  by (simp add: ref_frame_def owned_refs_def)

lemma ref_frame_trans: "ref_frame g g' \<Longrightarrow> ref_frame g' g'' \<Longrightarrow> ref_frame g g''"
  by (simp add: ref_frame_def)

lemma ref_frame_refl [simp]: "ref_frame g g"
  by (simp add: ref_frame_def)

lemma index_block_owned:
  assumes "index_block t b gi = Inr gi'" and "owned_refs (fst gi)"
    and "map_get (tasksById (fst gi)) t = Some task" and "b \<in> set (mn_blocks task)"
  shows "owned_refs (fst gi') \<and> tasksById (fst gi') = tasksById (fst gi)"
  using assms
  by (cases gi)
    (auto simp: index_block_def Let_def owned_refs_def js_map_simps split: if_splits
      elim!: try_bind_InrE map_push_InrE)

lemma index_task_owned:
  assumes "index_task t g = Inr g'" and "owned_refs g"
  shows "owned_refs g'"
proof -
  from assms(1) obtain task gi where task: "map_get (tasksById g) t = Some task"
    and gi: "for_res (index_block t) (mn_blocks task) (open_task t g, []) = Inr gi" "g' = fst gi"
    by (auto simp: index_task_def Let_def open_task_def requireMapValue_Inr elim!: try_bind_InrE)
  have "owned_refs (fst gi) \<and> map_get (tasksById (fst gi)) t = Some task"
  proof (rule for_res_invariant
      [OF gi(1), of "\<lambda>gi. owned_refs (fst gi) \<and> map_get (tasksById (fst gi)) t = Some task"])
    show "owned_refs (fst (open_task t g, [])) \<and>
        map_get (tasksById (fst (open_task t g, []))) t = Some task"
      using assms(2) task by (simp add: open_task_def owned_refs_def)
  next
    fix b gi gi'
    assume "b \<in> set (mn_blocks task)" "index_block t b gi = Inr gi'"
      "owned_refs (fst gi) \<and> map_get (tasksById (fst gi)) t = Some task"
    with index_block_owned [of t b gi gi' task]
    show "owned_refs (fst gi') \<and> map_get (tasksById (fst gi')) t = Some task" by auto
  qed
  with gi(2) show ?thesis by simp
qed

lemma link_task_blocks_frame:
  assumes "link_task_blocks t g = Inr g'"
  shows "ref_frame g g'"
proof -
  have dep: "link_block_dependency t known ref d g = Inr g' \<Longrightarrow> ref_frame g g'" for known ref d g g'
    by (auto simp: link_block_dependency_def ref_frame_def Let_def split: if_splits
        elim!: try_bind_InrE)
  have block: "link_block t known b g0 = Inr g' \<Longrightarrow> ref_frame g g0 \<Longrightarrow> ref_frame g g'" for known b g0 g'
    unfolding link_block_def
    by (erule for_res_invariant [where I = "ref_frame g"]) (auto intro: ref_frame_trans dep)
  from assms show ?thesis
    by (auto simp: link_task_blocks_def elim!: try_bind_InrE
        intro: for_res_invariant [where I = "ref_frame g"] block)
qed

lemma link_edge_frame: "link_edge e gs = Inr gs' \<Longrightarrow> ref_frame (fst gs) (fst gs')"
  by (cases gs) (auto simp: link_edge_def Let_def ref_frame_def
      split: if_splits option.splits elim!: try_bind_InrE)

lemma check_cycles_frame: "check_cycles g = Inr g' \<Longrightarrow> ref_frame g g'"
  by (auto simp: check_cycles_def Let_def ref_frame_def split: option.splits elim!: try_bind_InrE)

lemma check_implementation_frame: "check_implementation t g = Inr g' \<Longrightarrow> ref_frame g g'"
  by (auto simp: check_implementation_def ref_frame_def elim!: try_bind_InrE)

lemma index_nodes_owned: "owned_refs (index_nodes mf)"
proof -
  have "blockTaskByRef (fst (index_node n gd)) = blockTaskByRef (fst gd)" for n gd
    by (cases gd; cases "mn_type n") (simp add: index_node_def Let_def)
  then have "blockTaskByRef (fst (fold index_node ns gd)) = blockTaskByRef (fst gd)" for ns gd
    by (induction ns arbitrary: gd) simp_all
  moreover have "blockTaskByRef (fold (\<lambda>i. add_error (NodeIdDuplicate i)) ds g) = blockTaskByRef g" for ds g
    by (induction ds arbitrary: g) simp_all
  ultimately show ?thesis
    by (simp add: owned_refs_def index_nodes_def split_beta empty_graph_def js_map_simps)
qed

definition refs_parse :: "compiled_graph \<Rightarrow> bool" where
  "refs_parse g \<longleftrightarrow>
     (\<forall>t \<in> set (taskNodesInManifestOrder g). \<forall>task. map_get (tasksById g) t = Some task \<longrightarrow>
        (\<forall>b \<in> set (mn_blocks task). id_ok t \<and> id_ok (mb_id b)))"

lemma parse_task_refs:
  assumes "map_res parse_block_id (task_refs t task) = Inr known" and "b \<in> set (mn_blocks task)"
  shows "id_ok t \<and> id_ok (mb_id b)"
proof -
  have "blockRef t (mb_id b) \<in> set (task_refs t task)" using assms(2) by (simp add: task_refs_def)
  from map_res_InrD [OF assms(1) this] obtain t' b' where
    "parseBlockRef (blockRef t (mb_id b)) = Inr (t', b')" by (auto elim!: try_bind_InrE)
  then show ?thesis by (auto dest: parse_of_blockRef)
qed

lemma link_tasks_parse:
  assumes "for_res link_task_blocks (taskNodesInManifestOrder g) g = Inr g'"
    and "graph_wf g" and "blocks_exact (set (taskNodesInManifestOrder g)) g"
  shows "refs_parse g"
proof -
  have "\<forall>t \<in> set (taskNodesInManifestOrder g). \<forall>task. map_get (tasksById g) t = Some task \<longrightarrow>
        (\<forall>b \<in> set (mn_blocks task). id_ok t \<and> id_ok (mb_id b))"
  proof (rule for_res_each [OF assms(1), where I = "link_inv g"])
    show "link_inv g g" using assms(2) by (simp add: link_inv_def)
  next
    fix t h h'
    assume t: "t \<in> set (taskNodesInManifestOrder g)" and I: "link_inv g h"
      and st: "link_task_blocks t h = Inr h'"
    have h: "taskNodesInManifestOrder h = taskNodesInManifestOrder g" "tasksById h = tasksById g"
      "blocks_exact (set (taskNodesInManifestOrder h)) h"
      using I assms(3) by (auto simp: link_inv_def same_frame_def blocks_exact_def)
    from link_task_blocks_partial [OF link_inv_wf [OF I] h(3) _ st] t h
    show "link_inv g h' \<and> (\<forall>task. map_get (tasksById g) t = Some task \<longrightarrow>
        (\<forall>b \<in> set (mn_blocks task). id_ok t \<and> id_ok (mb_id b)))"
      using I by (auto intro: link_inv_trans dest: parse_task_refs)
  qed
  then show ?thesis by (simp add: refs_parse_def)
qed

text \<open>The contract of a compiled graph, as the components below rely on it.\<close>

definition graph_ok :: "compiled_graph \<Rightarrow> bool" where
  "graph_ok g \<longleftrightarrow> graph_wf g \<and> owned_refs g \<and> refs_parse g \<and>
     blocks_exact (set (taskNodesInManifestOrder g)) g"

lemma compile_graph_ok:
  assumes "compileTaskGraph mf = Inr g"
  shows "graph_ok g"
proof -
  let ?O = "taskNodesInManifestOrder (index_nodes mf)"
  from assms obtain g1 g2 gs g4 where st: "for_res index_task ?O (index_nodes mf) = Inr g1"
    "for_res link_task_blocks ?O g1 = Inr g2" "for_res link_edge (mf_edges mf) (g2, []) = Inr gs"
    "check_cycles (fst gs) = Inr g4" "for_res check_implementation ?O g4 = Inr g"
    by (auto simp: compileTaskGraph_def Let_def elim!: try_bind_InrE)
  from index_tasks_total [OF index_nodes_inv [of mf]] st(1)
  have g1: "graph_wf g1" "same_frame (index_nodes mf) g1" "blocks_exact (set ?O) g1" by auto
  have "owned_refs g1"
    by (rule for_res_invariant [OF st(1)]) (auto intro: index_nodes_owned index_task_owned)
  moreover have "ref_frame g1 g2"
    by (rule for_res_invariant [OF st(2)]) (auto intro: link_task_blocks_frame ref_frame_trans)
  moreover have "ref_frame g2 (fst gs)"
    using for_res_invariant [OF st(3), of "\<lambda>gs. ref_frame g2 (fst gs)"]
    by (auto intro: link_edge_frame ref_frame_trans)
  moreover have "ref_frame g4 g"
    by (rule for_res_invariant [OF st(5)]) (auto intro: check_implementation_frame ref_frame_trans)
  ultimately have fr: "ref_frame g1 g" and "owned_refs g1"
    using check_cycles_frame [OF st(4)] by (blast intro: ref_frame_trans)+
  then have "owned_refs g" by (blast intro: ref_frame_owned)
  have order: "taskNodesInManifestOrder g1 = ?O" using g1(2) by (simp add: same_frame_def)
  have "refs_parse g1"
    using link_tasks_parse [of g1 g2] st(2) g1 order by simp
  moreover have "taskNodesInManifestOrder g = ?O"
    using compile_facts(3) [OF assms] index_nodes_order by simp
  ultimately have "refs_parse g" using fr order by (simp add: refs_parse_def ref_frame_def)
  with \<open>owned_refs g\<close> compile_facts(1,2) [OF assms] show ?thesis by (simp add: graph_ok_def)
qed

lemma graph_ok_wf [simp, intro]: "graph_ok g \<Longrightarrow> graph_wf g"
  by (simp add: graph_ok_def)

lemma graph_ok_ref:
  assumes "graph_ok g" and "r \<in> set (blockRefsInManifestOrder g)"
  shows "\<exists>t task b. map_get (blockTaskByRef g) r = Some t \<and> t \<in> set (taskNodesInManifestOrder g) \<and>
     map_get (tasksById g) t = Some task \<and> map_get (blocksByRef g) r = Some b \<and>
     map_get (blocksByTask g) t = Some (task_refs t task) \<and> r \<in> set (task_refs t task) \<and>
     parseBlockRef r = Inr (t, mb_id b)"
proof -
  from graph_wf_ref(2) [OF graph_ok_wf [OF assms(1)] assms(2)] obtain t where
    t: "map_get (blockTaskByRef g) r = Some t" "t \<in> set (taskNodesInManifestOrder g)" by auto
  with assms(1) obtain task b where tb: "map_get (tasksById g) t = Some task" "b \<in> set (mn_blocks task)"
    "r = blockRef t (mb_id b)" "map_get (blocksByRef g) r = Some b"
    unfolding graph_ok_def owned_refs_def by blast
  moreover have "map_get (blocksByTask g) t = Some (task_refs t task)"
    using assms(1) t tb by (simp add: graph_ok_def blocks_exact_def)
  moreover have "parseBlockRef r = Inr (t, mb_id b)"
    using assms(1) t(2) tb by (auto simp: graph_ok_def refs_parse_def intro!: parse_blockRef)
  moreover have "r \<in> set (task_refs t task)" using tb by (simp add: task_refs_def)
  ultimately show ?thesis using t by blast
qed

lemma graph_ok_task_of:
  assumes "graph_ok g" and "map_get (blocksByTask g) t = Some rs" and "r \<in> set rs"
  shows "map_get (blockTaskByRef g) r = Some t" and "r \<in> set (blockRefsInManifestOrder g)"
proof -
  have wf: "graph_wf g" using assms(1) by simp
  then have doms: "dom_is (blocksByTask g) (set (taskNodesInManifestOrder g))"
    "ran_in (blocksByTask g) (set (blockRefsInManifestOrder g))"
    by (simp_all add: graph_wf_def idx_inv_def Let_def)
  from dom_is_mem [OF doms(1) assms(2)] have t: "t \<in> set (taskNodesInManifestOrder g)" .
  from ran_in_get [OF doms(2) assms(2)] assms(3) show r: "r \<in> set (blockRefsInManifestOrder g)" by auto
  from graph_wf_task(1) [OF wf t] obtain task where task: "map_get (tasksById g) t = Some task" by auto
  with assms t have "rs = task_refs t task" by (auto simp: graph_ok_def blocks_exact_def)
  with assms(3) obtain b where b: "b \<in> set (mn_blocks task)" "r = blockRef t (mb_id b)"
    by (auto simp: task_refs_def)
  with assms(1) t task have "parseBlockRef r = Inr (t, mb_id b)"
    by (auto simp: graph_ok_def refs_parse_def intro!: parse_blockRef)
  with graph_ok_ref [OF assms(1) r] show "map_get (blockTaskByRef g) r = Some t" by auto
qed

section \<open>A small package for the witnesses\<close>

text \<open>Two tasks, the dependent one first in manifest order, the other with a required review.\<close>

definition sample_policy :: review_policy where
  "sample_policy =
     \<lparr>rp_required = True, rp_maxFeedbackCycles = 1, rp_preset = None, rp_triggerCondition = None,
      rp_inputContext = None, rp_passCriteria = None, rp_feedbackFormat = None, rp_hook = None\<rparr>"

definition sample_manifest :: manifest where
  "sample_manifest =
     \<lparr>mf_defaultExecutor = Some ''codex'', mf_parallelEnabled = True, mf_maxConcurrent = 2,
      mf_nodes =
        [\<lparr>mn_id = ''T2'', mn_type = TaskNode, mn_title = ''second'', mn_prompt = ''p'',
          mn_executor = None, mn_acceptance = [],
          mn_blocks = [ManifestImplementationBlock ''B1'' ''b'' ''p'' [] None None None]\<rparr>,
         \<lparr>mn_id = ''T1'', mn_type = TaskNode, mn_title = ''first'', mn_prompt = ''p'',
          mn_executor = None, mn_acceptance = [],
          mn_blocks = [ManifestImplementationBlock ''B1'' ''b'' ''p'' [] None None None,
                       ManifestReviewBlock ''R1'' ''r'' ''p'' [''B1''] None sample_policy]\<rparr>],
      mf_edges = [\<lparr>me_from = ''T2'', me_to = ''T1'', me_type = DependsOn\<rparr>]\<rparr>"

section \<open>Properties of compilation\<close>

text \<open>\<^verbatim>\<open>parseBlockRef\<close> and the construction of references are inverse: a string parses to
  a task and a block id exactly when it is their reference and neither id is empty or contains the
  separator.\<close>

theorem blockRef_roundtrip:
  "parseBlockRef r = Inr (t, b) \<longleftrightarrow> r = blockRef t b \<and> id_ok t \<and> id_ok b"
  by (rule parseBlockRef_Inr)

text \<open>C22: The indexes of a compiled graph are complete and consistent: every task and block of the
  manifest order is a key of every index that the task manager looks up, every list in an index stays
  inside the manifest, every block reference belongs to the task its index names and parses to that
  task and the id of its block, and the blocks of a task are listed in the order of the manifest.\<close>

theorem compile_indexes_consistent:
  assumes "compileTaskGraph mf = Inr g"
  shows "graph_ok g \<and> taskNodesInManifestOrder g = map mn_id (mf_nodes mf)"
  using compile_graph_ok [OF assms] compile_facts(3) [OF assms] by simp

lemma sample_compiles: "\<exists>g. compileTaskGraph sample_manifest = Inr g"
  by (rule compile_total) code_simp

lemma compile_indexes_consistent_witness:
  "\<exists>g. compileTaskGraph sample_manifest = Inr g \<and> graph_ok g \<and>
     taskNodesInManifestOrder g = [''T2'', ''T1'']"
proof -
  from sample_compiles obtain g where g: "compileTaskGraph sample_manifest = Inr g" by blast
  from compile_indexes_consistent [OF g] g show ?thesis by (simp add: sample_manifest_def)
qed


definition cyclic_manifest :: manifest where
  "cyclic_manifest = sample_manifest\<lparr>mf_edges :=
     [\<lparr>me_from = ''T2'', me_to = ''T1'', me_type = DependsOn\<rparr>,
      \<lparr>me_from = ''T1'', me_to = ''T2'', me_type = DependsOn\<rparr>]\<rparr>"


text \<open>C30: The query \<^verbatim>\<open>taskReachable\<close> decides the transitive dependency relation the
  manifest declares, and never throws.\<close>

theorem taskReachable_decides:
  assumes "compileTaskGraph mf = Inr g" and "\<forall>n \<in> set (mf_nodes mf). mn_id n \<noteq> []"
  shows "taskReachable g a b = Inr ((a, b) \<in> (depends_relation mf)\<^sup>+)"
  by (rule taskReachable_correct [OF assms])

lemma taskReachable_decides_witness:
  "\<exists>g. compileTaskGraph sample_manifest = Inr g \<and> taskReachable g ''T2'' ''T1'' = Inr True \<and>
     (''T2'', ''T1'') \<in> (depends_relation sample_manifest)\<^sup>+"
proof -
  have "res_holds (\<lambda>g. taskReachable g ''T2'' ''T1'' = Inr True) (compileTaskGraph sample_manifest)"
    by code_simp
  then obtain g where g: "compileTaskGraph sample_manifest = Inr g" "taskReachable g ''T2'' ''T1'' = Inr True"
    by (rule res_holdsE)
  have "\<forall>n \<in> set (mf_nodes sample_manifest). mn_id n \<noteq> []" by (simp add: sample_manifest_def)
  from taskReachable_decides [OF g(1) this, of "''T2''" "''T1''"] g show ?thesis by auto
qed

text \<open>C31: Compilation returns diagnostics rather than throwing on every manifest whose identifiers
  can be part of a block reference, however broken its edges and dependencies are.\<close>

theorem compile_never_throws:
  assumes "manifest_ids_ok mf"
  shows "\<exists>g. compileTaskGraph mf = Inr g"
  by (rule compile_total [OF assms])

lemma compile_never_throws_witness: "\<exists>g. compileTaskGraph cyclic_manifest = Inr g"
proof -
  have "manifest_ids_ok cyclic_manifest" by code_simp
  then show ?thesis by (rule compile_never_throws)
qed

lemma distinct_node_lookup:
  assumes "compileTaskGraph mf = Inr g" and "distinct (map mn_id (mf_nodes mf))" and "n \<in> set (mf_nodes mf)"
  shows "map_get (tasksById g) (mn_id n) = Some n"
proof -
  let ?O = "taskNodesInManifestOrder (index_nodes mf)"
  from assms(1) obtain g1 g2 gs g4 where st: "for_res index_task ?O (index_nodes mf) = Inr g1"
    "for_res link_task_blocks ?O g1 = Inr g2" "for_res link_edge (mf_edges mf) (g2, []) = Inr gs"
    "check_cycles (fst gs) = Inr g4" "for_res check_implementation ?O g4 = Inr g"
    by (auto simp: compileTaskGraph_def Let_def elim!: try_bind_InrE)
  have "tasksById g1 = tasksById (index_nodes mf)"
    using index_tasks_total [OF index_nodes_inv [of mf]] st(1) by (auto simp: same_frame_def)
  moreover have "ref_frame g1 g2"
    by (rule for_res_invariant [OF st(2)]) (auto intro: link_task_blocks_frame ref_frame_trans)
  moreover have "ref_frame g2 (fst gs)"
    using for_res_invariant [OF st(3), of "\<lambda>gs. ref_frame g2 (fst gs)"]
    by (auto intro: link_edge_frame ref_frame_trans)
  moreover have "ref_frame g4 g"
    by (rule for_res_invariant [OF st(5)]) (auto intro: check_implementation_frame ref_frame_trans)
  ultimately have tasks: "tasksById g = tasksById (index_nodes mf)"
    using check_cycles_frame [OF st(4)] by (simp add: ref_frame_def)
  have "mn_id n \<in> set (taskNodesInManifestOrder g)"
    using compile_facts(3) [OF assms(1)] assms(3) by simp
  from graph_wf_task(1) [OF compile_facts(1) [OF assms(1)] this] obtain n' where
    n': "map_get (tasksById g) (mn_id n) = Some n'" by auto
  with tasks index_nodes_tasks [of mf "mn_id n" n'] have "n' \<in> set (mf_nodes mf)" "mn_id n' = mn_id n"
    by auto
  with assms(2,3) have "n' = n" by (auto simp: distinct_map inj_on_def)
  with n' show ?thesis by simp
qed

text \<open>The identifier check has a gap: the manifest schema only asks for non-empty identifiers, but
  a block identifier with the separator character makes \<^verbatim>\<open>compileTaskGraph\<close> throw
  \<^verbatim>\<open>Invalid block ref\<close> instead of returning a diagnostic.\<close>

theorem compile_separator_throws:
  assumes "distinct (map mn_id (mf_nodes mf))" and "n \<in> set (mf_nodes mf)"
    and "b \<in> set (mn_blocks n)" and "CHR ''#'' \<in> set (mb_id b)"
  shows "\<exists>e. compileTaskGraph mf = Inl e"
proof (cases "compileTaskGraph mf")
  case (Inr g)
  from distinct_node_lookup [OF Inr assms(1,2)] compile_graph_ok [OF Inr] assms(2,3)
    compile_facts(3) [OF Inr] have "id_ok (mb_id b)"
    by (auto simp: graph_ok_def refs_parse_def)
  with assms(4) show ?thesis by (simp add: id_ok_def)
qed simp

lemma compile_separator_throws_witness:
  "\<exists>e. compileTaskGraph (sample_manifest\<lparr>mf_nodes := [\<lparr>mn_id = ''T1'', mn_type = TaskNode,
     mn_title = ''t'', mn_prompt = ''p'', mn_executor = None, mn_acceptance = [],
     mn_blocks = [ManifestImplementationBlock ''B#1'' ''b'' ''p'' [] None None None]\<rparr>]\<rparr>) = Inl e"
proof -
  let ?b = "ManifestImplementationBlock ''B#1'' ''b'' ''p'' [] None None None"
  let ?n = "\<lparr>mn_id = ''T1'', mn_type = TaskNode, mn_title = ''t'', mn_prompt = ''p'', mn_executor = None,
    mn_acceptance = [], mn_blocks = [?b]\<rparr>"
  let ?mf = "sample_manifest\<lparr>mf_nodes := [?n]\<rparr>"
  show ?thesis by (rule compile_separator_throws [of ?mf ?n ?b]) simp_all
qed

end
