(* ===== verification/Remote_Ownership.thy ===== *)
theory Remote_Ownership
  imports Plan_Model
begin

text \<open>
  Remote execution ownership of one block:
  \<^verbatim>\<open>packages/runtime/src/taskManager/remoteOwnershipTransitions.ts\<close>, with the schemas of
  \<^verbatim>\<open>schema/remoteOwnership.ts\<close> as the validators of \<open>Plan_Model\<close>.

  Every exported transition is a function from a block record to a result; a
  \<^verbatim>\<open>RemoteOwnershipConflictError\<close> is \<open>RemoteOwnershipConflict\<close> with its code, a schema that
  rejects its input is \<open>SchemaInvalid\<close>. The relation \<open>remote_step\<close> puts the transitions together
  as the machine one block goes through; the lemmas show that it stays within what
  \<^verbatim>\<open>blockStateSchema\<close> accepts, that replays change nothing, and that an identity other than
  the recorded one cannot move the block.
\<close>

section \<open>Checks\<close>

definition plane_of :: "control_plane option \<Rightarrow> control_plane" where
  "plane_of p = (case p of None \<Rightarrow> Collaboration | Some c \<Rightarrow> c)"

definition sameSource :: "remote_ownership \<Rightarrow> remote_source \<Rightarrow> bool" where
  "sameSource owner source \<longleftrightarrow>
     src_operationId (owner_source owner) = src_operationId source \<and>
     src_sourceRevision (owner_source owner) = src_sourceRevision source \<and>
     src_graphFingerprint (owner_source owner) = src_graphFingerprint source \<and>
     plane_of (src_controlPlane (owner_source owner)) = plane_of (src_controlPlane source)"

definition assertRemoteExecutableBlockType :: "block_type \<Rightarrow> unit res" where
  "assertRemoteExecutableBlockType bt =
     (if bt \<noteq> Implementation \<and> bt \<noteq> Review
      then Inl (RemoteOwnershipConflict RemoteOwnershipRequiresExecutableBlock) else Inr ())"

definition remoteOperationReceiptMatchesBlockType :: "remote_receipt \<Rightarrow> block_type \<Rightarrow> bool" where
  "remoteOperationReceiptMatchesBlockType receipt bt =
     (case rcp_blockType receipt of None \<Rightarrow> bt = Implementation | Some t \<Rightarrow> t = bt)"

definition assertRemoteBlockOwnershipInvariant :: "block_type \<Rightarrow> block_state \<Rightarrow> unit res" where
  "assertRemoteBlockOwnershipInvariant bt b =
     (if bs_remoteOwnership b = None then Inr ()
      else try_bind (assertRemoteExecutableBlockType bt) (\<lambda>_.
        if bs_status b \<noteq> BInProgress \<and> bs_status b \<noteq> BDiverged
        then Inl (RemoteOwnershipConflict RemoteOwnershipStatusConflict) else Inr ()))"

definition assertSameRemoteOwnershipGeneration ::
  "remote_ownership \<Rightarrow> remote_source \<Rightarrow> unit res" where
  "assertSameRemoteOwnershipGeneration owner requested =
     (if src_operationId (owner_source owner) \<noteq> src_operationId requested
      then Inl (RemoteOwnershipConflict RemoteOwnershipOperationConflict)
      else if \<not> sameSource owner requested
      then Inl (RemoteOwnershipConflict RemoteOwnershipSourceConflict)
      else Inr ())"

definition parse_source :: "remote_source \<Rightarrow> remote_source res" where
  "parse_source s = (if remoteSource_valid s then Inr s else Inl (SchemaInvalid ''preparing''))"

definition parse_identity :: "active_identity \<Rightarrow> active_identity res" where
  "parse_identity a = (if activeIdentity_valid a then Inr a else Inl (SchemaInvalid ''active''))"

definition parse_receipt :: "remote_receipt \<Rightarrow> remote_receipt res" where
  "parse_receipt r = (if remoteReceipt_valid r then Inr r else Inl (SchemaInvalid ''receipt''))"

definition assertActiveRemoteBlockOwnership ::
  "block_type \<Rightarrow> block_state \<Rightarrow> active_identity \<Rightarrow> active_identity res" where
  "assertActiveRemoteBlockOwnership bt b ownership =
     try_bind (assertRemoteExecutableBlockType bt) (\<lambda>_.
     try_bind (assertRemoteBlockOwnershipInvariant bt b) (\<lambda>_.
     try_bind (parse_identity ownership) (\<lambda>requested.
     case bs_remoteOwnership b of
       Some (Active current) \<Rightarrow>
         try_bind (assertSameRemoteOwnershipGeneration (Active current) (ai_source requested)) (\<lambda>_.
         if ai_dispatchId current \<noteq> ai_dispatchId requested \<or>
            ai_executionAttemptId current \<noteq> ai_executionAttemptId requested
         then Inl (RemoteOwnershipConflict RemoteOwnershipActivationConflict)
         else Inr current)
     | _ \<Rightarrow> Inl (RemoteOwnershipConflict RemoteOwnershipNotActive))))"

definition matchesRemoteOperationReceipt :: "remote_receipt option \<Rightarrow> active_identity \<Rightarrow> bool" where
  "matchesRemoteOperationReceipt receipt identity =
     (case receipt of
        None \<Rightarrow> False
      | Some r \<Rightarrow>
          src_operationId (ai_source (rcp_identity r)) = src_operationId (ai_source identity) \<and>
          src_sourceRevision (ai_source (rcp_identity r)) = src_sourceRevision (ai_source identity) \<and>
          src_graphFingerprint (ai_source (rcp_identity r)) = src_graphFingerprint (ai_source identity) \<and>
          ai_dispatchId (rcp_identity r) = ai_dispatchId identity \<and>
          ai_executionAttemptId (rcp_identity r) = ai_executionAttemptId identity)"

section \<open>Transitions\<close>

definition clearRemoteBlockOperationState :: "block_state \<Rightarrow> block_state" where
  "clearRemoteBlockOperationState b =
     b\<lparr>bs_remoteOwnership := None, bs_remoteInterruption := None,
       bs_remoteOperationReceipt := None\<rparr>"

definition withoutRemoteBlockOwnership :: "block_state \<Rightarrow> block_status \<Rightarrow> block_state" where
  "withoutRemoteBlockOwnership b st = (clearRemoteBlockOperationState b)\<lparr>bs_status := st\<rparr>"

text \<open>\<^verbatim>\<open>...(runId ? { lastRunId: runId } : {})\<close>; the empty string is falsy.\<close>

definition with_run :: "string option \<Rightarrow> block_state \<Rightarrow> block_state" where
  "with_run runId b =
     (case runId of
        None \<Rightarrow> b
      | Some r \<Rightarrow> if r = [] then b else b\<lparr>bs_lastRunId := Some r\<rparr>)"

definition prepareRemoteBlockOwnership ::
  "block_type \<Rightarrow> block_state \<Rightarrow> remote_source \<Rightarrow> block_state res" where
  "prepareRemoteBlockOwnership bt b ownership =
     try_bind (assertRemoteExecutableBlockType bt) (\<lambda>_.
     try_bind (assertRemoteBlockOwnershipInvariant bt b) (\<lambda>_.
     try_bind (parse_source ownership) (\<lambda>requested.
     case bs_remoteOwnership b of
       Some current \<Rightarrow>
         try_bind (assertSameRemoteOwnershipGeneration current requested) (\<lambda>_. Inr b)
     | None \<Rightarrow>
         let isReviewResume = (bt = Review \<and> bs_status b = BInProgress)
         in if bs_status b \<noteq> BReady \<and> \<not> isReviewResume
            then Inl (RemoteOwnershipConflict RemoteOwnershipRequiresReadyBlock)
            else Inr (b\<lparr>bs_status := BInProgress,
                       bs_remoteOwnership := Some (Preparing requested)\<rparr>))))"

definition activateRemoteBlockOwnership ::
  "block_type \<Rightarrow> block_state \<Rightarrow> active_identity \<Rightarrow> block_state res" where
  "activateRemoteBlockOwnership bt b ownership =
     try_bind (assertRemoteExecutableBlockType bt) (\<lambda>_.
     try_bind (assertRemoteBlockOwnershipInvariant bt b) (\<lambda>_.
     try_bind (parse_identity ownership) (\<lambda>requested.
     case bs_remoteOwnership b of
       None \<Rightarrow> Inl (RemoteOwnershipConflict RemoteOwnershipNotPreparing)
     | Some current \<Rightarrow>
         try_bind (assertSameRemoteOwnershipGeneration current (ai_source requested)) (\<lambda>_.
         if bs_status b \<noteq> BInProgress
         then Inl (RemoteOwnershipConflict RemoteOwnershipNotPreparing)
         else case current of
                Active cur \<Rightarrow>
                  if ai_dispatchId cur = ai_dispatchId requested \<and>
                     ai_executionAttemptId cur = ai_executionAttemptId requested
                  then Inr b
                  else Inl (RemoteOwnershipConflict RemoteOwnershipActivationConflict)
              | Preparing _ \<Rightarrow> Inr (b\<lparr>bs_remoteOwnership := Some (Active requested)\<rparr>)))))"

definition markRemoteBlockOwnershipSourceDrift ::
  "block_type \<Rightarrow> block_state \<Rightarrow> string \<Rightarrow> string \<Rightarrow> string \<Rightarrow> block_state res" where
  "markRemoteBlockOwnershipSourceDrift bt b sourceRevision graphFingerprint reason =
     try_bind (assertRemoteExecutableBlockType bt) (\<lambda>_.
     try_bind (assertRemoteBlockOwnershipInvariant bt b) (\<lambda>_.
     case bs_remoteOwnership b of
       None \<Rightarrow> Inr b
     | Some owner \<Rightarrow>
         try_bind (parse_source ((owner_source owner)
                     \<lparr>src_sourceRevision := sourceRevision,
                      src_graphFingerprint := graphFingerprint\<rparr>)) (\<lambda>currentSource.
         if src_sourceRevision (owner_source owner) = src_sourceRevision currentSource \<and>
            src_graphFingerprint (owner_source owner) = src_graphFingerprint currentSource
         then Inr b
         else if trim reason = []
         then Inl (RemoteOwnershipConflict RemoteOwnershipSourceDrift)
         else Inr (b\<lparr>bs_status := BDiverged, bs_divergenceReason := Some (trim reason),
                    bs_remoteOwnership := Some owner, bs_remoteInterruption := None\<rparr>))))"

definition interruptRemoteBlockOwnership ::
  "block_type \<Rightarrow> block_state \<Rightarrow> active_identity \<Rightarrow> remote_interruption \<Rightarrow> string \<Rightarrow> string option \<Rightarrow>
   block_state res" where
  "interruptRemoteBlockOwnership bt b ownership interruption reason runId =
     try_bind (assertActiveRemoteBlockOwnership bt b ownership) (\<lambda>_.
     if trim reason = [] then Inl (RemoteOwnershipConflict RemoteOwnershipStatusConflict)
     else if bs_status b = BDiverged
     then if bs_remoteInterruption b = Some interruption \<and>
             bs_divergenceReason b = Some (trim reason)
          then Inr (with_run runId b)
          else Inl (RemoteOwnershipConflict RemoteOwnershipTerminalConflict)
     else if bs_status b \<noteq> BInProgress
     then Inl (RemoteOwnershipConflict RemoteOwnershipStatusConflict)
     else Inr (with_run runId
                 (b\<lparr>bs_status := BDiverged, bs_divergenceReason := Some (trim reason),
                    bs_remoteInterruption := Some interruption\<rparr>)))"

definition retryRemoteBlockOwnership ::
  "block_type \<Rightarrow> block_state \<Rightarrow> active_identity \<Rightarrow> string \<Rightarrow> string \<Rightarrow> block_state res" where
  "retryRemoteBlockOwnership bt b ownership newDispatchId newExecutionAttemptId =
     try_bind (assertActiveRemoteBlockOwnership bt b ownership) (\<lambda>current.
     if bs_status b \<noteq> BDiverged \<or>
        (case bs_remoteInterruption b of None \<Rightarrow> True | Some i \<Rightarrow> ri_resumable i)
     then Inl (RemoteOwnershipConflict RemoteOwnershipStatusConflict)
     else try_bind (parse_identity (current\<lparr>ai_dispatchId := newDispatchId,
                                             ai_executionAttemptId := newExecutionAttemptId\<rparr>))
            (\<lambda>retried.
          if ai_dispatchId retried = ai_dispatchId current \<or>
             ai_executionAttemptId retried = ai_executionAttemptId current
          then Inl (RemoteOwnershipConflict RemoteOwnershipActivationConflict)
          else Inr (b\<lparr>bs_divergenceReason := None, bs_remoteInterruption := None,
                     bs_status := BInProgress, bs_remoteOwnership := Some (Active retried)\<rparr>)))"

definition resumeRemoteBlockOwnership ::
  "block_type \<Rightarrow> block_state \<Rightarrow> active_identity \<Rightarrow> block_state res" where
  "resumeRemoteBlockOwnership bt b ownership =
     try_bind (assertActiveRemoteBlockOwnership bt b ownership) (\<lambda>_.
     if bs_status b \<noteq> BDiverged \<or>
        (case bs_remoteInterruption b of None \<Rightarrow> True | Some i \<Rightarrow> \<not> ri_resumable i)
     then Inl (RemoteOwnershipConflict RemoteOwnershipStatusConflict)
     else Inr (b\<lparr>bs_divergenceReason := None, bs_remoteInterruption := None,
                bs_status := BInProgress\<rparr>))"

definition completeRemoteBlockOwnership ::
  "block_type \<Rightarrow> block_state \<Rightarrow> active_identity \<Rightarrow> string \<Rightarrow> block_state res" where
  "completeRemoteBlockOwnership bt b ownership runId =
     try_bind (assertActiveRemoteBlockOwnership bt b ownership) (\<lambda>_.
     try_bind (parse_receipt (CompletedReceipt ownership runId
                 (Some (if bt = Review then Review else Implementation)))) (\<lambda>receipt.
     Inr ((withoutRemoteBlockOwnership b BCompleted)
            \<lparr>bs_lastRunId := Some runId, bs_remoteOperationReceipt := Some receipt\<rparr>)))"

definition sealRemoteBlockOperationCompleted ::
  "block_type \<Rightarrow> block_state \<Rightarrow> active_identity \<Rightarrow> string \<Rightarrow> block_state res" where
  "sealRemoteBlockOperationCompleted bt b ownership runId =
     (let cleared = clearRemoteBlockOperationState b
      in if bs_status b \<noteq> BCompleted \<and> bs_status b \<noteq> BBlocked then Inr cleared
         else if bs_status b = BBlocked then Inr cleared
         else try_bind (parse_receipt (CompletedReceipt ownership runId
                 (Some (if bt = Review then Review else Implementation)))) (\<lambda>receipt.
              Inr (cleared\<lparr>bs_lastRunId := Some runId,
                           bs_remoteOperationReceipt := Some receipt\<rparr>)))"

definition failRemoteBlockOwnership ::
  "block_type \<Rightarrow> block_state \<Rightarrow> active_identity \<Rightarrow> normalized_failure \<Rightarrow> string \<Rightarrow> string option \<Rightarrow>
   block_state res" where
  "failRemoteBlockOwnership bt b ownership failure blockedReason runId =
     try_bind (assertActiveRemoteBlockOwnership bt b ownership) (\<lambda>_.
     try_bind (parse_receipt (FailedReceipt ownership failure
                 (Some (if bt = Review then Review else Implementation)))) (\<lambda>receipt.
     Inr (with_run runId ((withoutRemoteBlockOwnership b BBlocked)
            \<lparr>bs_blockedReason := Some blockedReason,
             bs_remoteOperationReceipt := Some receipt\<rparr>))))"

definition restoreStoppedRemoteBlock ::
  "block_state \<Rightarrow> string \<Rightarrow> string \<Rightarrow> block_state res" where
  "restoreStoppedRemoteBlock b operationId executionAttemptId =
     (case bs_remoteOperationReceipt b of
        Some (FailedReceipt i f _) \<Rightarrow>
          if bs_remoteOwnership b \<noteq> None \<or> bs_status b \<noteq> BBlocked \<or>
             nf_code f \<noteq> ''execution_cancelled'' \<or>
             src_operationId (ai_source i) \<noteq> operationId \<or>
             ai_executionAttemptId i \<noteq> executionAttemptId
          then Inl (RemoteOwnershipConflict RemoteOwnershipStatusConflict)
          else Inr ((clearRemoteBlockOperationState b)\<lparr>bs_blockedReason := None, bs_status := BReady\<rparr>)
      | _ \<Rightarrow> Inl (RemoteOwnershipConflict RemoteOwnershipStatusConflict))"

lemmas remote_check_defs =
  assertRemoteExecutableBlockType_def assertRemoteBlockOwnershipInvariant_def
  assertSameRemoteOwnershipGeneration_def assertActiveRemoteBlockOwnership_def
  parse_source_def parse_identity_def parse_receipt_def

lemmas remote_transition_defs =
  prepareRemoteBlockOwnership_def activateRemoteBlockOwnership_def
  markRemoteBlockOwnershipSourceDrift_def interruptRemoteBlockOwnership_def
  retryRemoteBlockOwnership_def resumeRemoteBlockOwnership_def completeRemoteBlockOwnership_def
  sealRemoteBlockOperationCompleted_def failRemoteBlockOwnership_def restoreStoppedRemoteBlock_def

section \<open>When the checks pass\<close>

text \<open>Two identities denote the same attempt: every field agrees, with the control plane of old
  records read as collaboration.\<close>

definition same_attempt :: "active_identity \<Rightarrow> active_identity \<Rightarrow> bool" where
  "same_attempt a r \<longleftrightarrow>
     sameSource (Active a) (ai_source r) \<and> ai_dispatchId a = ai_dispatchId r \<and>
     ai_executionAttemptId a = ai_executionAttemptId r"

lemma executable_ok [simp]: "assertRemoteExecutableBlockType bt = Inr ()"
  by (cases bt) (simp_all add: assertRemoteExecutableBlockType_def)

lemma invariant_valid [simp]:
  "blockState_valid b \<Longrightarrow> assertRemoteBlockOwnershipInvariant bt b = Inr ()"
  by (auto simp: assertRemoteBlockOwnershipInvariant_def block_valid_simps)

lemma generation_ok:
  "assertSameRemoteOwnershipGeneration owner s = Inr u \<longleftrightarrow> sameSource owner s"
  by (auto simp: assertSameRemoteOwnershipGeneration_def sameSource_def)

lemma generation_same [simp]: "sameSource owner s \<Longrightarrow> assertSameRemoteOwnershipGeneration owner s = Inr ()"
  by (simp add: generation_ok)

lemma assertActive_Inr:
  "assertActiveRemoteBlockOwnership bt b r = Inr a \<longleftrightarrow>
     bs_remoteOwnership b = Some (Active a) \<and> (bs_status b = BInProgress \<or> bs_status b = BDiverged) \<and>
     activeIdentity_valid r \<and> same_attempt a r"
  by (auto simp: assertActiveRemoteBlockOwnership_def assertRemoteBlockOwnershipInvariant_def
      parse_identity_def same_attempt_def generation_ok
      split: option.splits remote_ownership.splits if_splits elim!: try_bind_InrE)

lemma sameSource_refl [simp]: "sameSource owner (owner_source owner)"
  by (simp add: sameSource_def)

lemma same_attempt_refl [simp]: "same_attempt a a"
  using sameSource_refl [of "Active a"] by (simp add: same_attempt_def)

lemma same_attempt_trans: "same_attempt a r \<Longrightarrow> same_attempt a q \<Longrightarrow> same_attempt r q"
  by (simp add: same_attempt_def sameSource_def)

lemma with_run_fields [simp]:
  "bs_status (with_run r b) = bs_status b"
  "bs_remoteOwnership (with_run r b) = bs_remoteOwnership b"
  "bs_remoteInterruption (with_run r b) = bs_remoteInterruption b"
  "bs_remoteOperationReceipt (with_run r b) = bs_remoteOperationReceipt b"
  "bs_submissionRunId (with_run r b) = bs_submissionRunId b"
  "bs_submissionAttemptId (with_run r b) = bs_submissionAttemptId b"
  "bs_divergenceReason (with_run r b) = bs_divergenceReason b"
  "with_run r (with_run r b) = with_run r b"
  by (simp_all add: with_run_def split: option.splits)

section \<open>Every transition writes a record the schema accepts\<close>

lemma owned_no_receipt:
  assumes "blockState_valid b" and "bs_remoteOwnership b \<noteq> None"
  shows "bs_remoteOperationReceipt b = None"
    and "bs_status b = BInProgress \<or> bs_status b = BDiverged"
  using assms by (auto simp: block_valid_simps split: option.splits remote_receipt.splits)

lemma in_progress_no_receipt:
  "blockState_valid b \<Longrightarrow> bs_status b = BInProgress \<Longrightarrow>
     bs_remoteOperationReceipt b = None \<and> bs_remoteInterruption b = None"
  by (auto simp: block_valid_simps split: option.splits remote_receipt.splits)

lemma clearRemote_valid [intro]:
  "blockState_valid b \<Longrightarrow> blockState_valid (clearRemoteBlockOperationState b)"
  by (simp add: block_valid_simps clearRemoteBlockOperationState_def)

lemma clearRemote_restatus_valid [intro]:
  "blockState_valid b \<Longrightarrow> blockState_valid ((clearRemoteBlockOperationState b)\<lparr>bs_status := st\<rparr>)"
  by (simp add: block_valid_simps clearRemoteBlockOperationState_def)

lemma withoutRemote_valid [intro]:
  "blockState_valid b \<Longrightarrow> blockState_valid (withoutRemoteBlockOwnership b st)"
  unfolding withoutRemoteBlockOwnership_def by (rule clearRemote_restatus_valid)

lemma withoutRemote_fields [simp]:
  "bs_status (withoutRemoteBlockOwnership b st) = st"
  "bs_remoteOwnership (withoutRemoteBlockOwnership b st) = None"
  "bs_remoteInterruption (withoutRemoteBlockOwnership b st) = None"
  "bs_remoteOperationReceipt (withoutRemoteBlockOwnership b st) = None"
  by (simp_all add: withoutRemoteBlockOwnership_def clearRemoteBlockOperationState_def)

text \<open>What a successful transition did.\<close>

lemma prepare_Inr:
  assumes "blockState_valid b"
  shows "prepareRemoteBlockOwnership bt b src = Inr b' \<longleftrightarrow>
     remoteSource_valid src \<and>
     (case bs_remoteOwnership b of
        Some current \<Rightarrow> sameSource current src \<and> b' = b
      | None \<Rightarrow> (bs_status b = BReady \<or> bt = Review \<and> bs_status b = BInProgress) \<and>
          b' = b\<lparr>bs_status := BInProgress, bs_remoteOwnership := Some (Preparing src)\<rparr>)"
  using assms
  by (auto simp: prepareRemoteBlockOwnership_def parse_source_def Let_def generation_ok
      split: option.splits if_splits elim!: try_bind_InrE)

lemma activate_Inr:
  assumes "blockState_valid b"
  shows "activateRemoteBlockOwnership bt b ident = Inr b' \<longleftrightarrow>
     activeIdentity_valid ident \<and> bs_status b = BInProgress \<and>
     (case bs_remoteOwnership b of
        None \<Rightarrow> False
      | Some (Preparing src) \<Rightarrow> sameSource (Preparing src) (ai_source ident) \<and>
          b' = b\<lparr>bs_remoteOwnership := Some (Active ident)\<rparr>
      | Some (Active cur) \<Rightarrow> same_attempt cur ident \<and> b' = b)"
  using assms
  by (auto simp: activateRemoteBlockOwnership_def parse_identity_def generation_ok same_attempt_def
      split: option.splits if_splits remote_ownership.splits elim!: try_bind_InrE)

lemma drift_Inr:
  assumes "blockState_valid b"
    and "markRemoteBlockOwnershipSourceDrift bt b revision fp reason = Inr b'"
  shows "b' = b \<or> (\<exists>owner. bs_remoteOwnership b = Some owner \<and> trim reason \<noteq> [] \<and>
       b' = b\<lparr>bs_status := BDiverged, bs_divergenceReason := Some (trim reason),
              bs_remoteOwnership := Some owner, bs_remoteInterruption := None\<rparr>)"
  using assms
  by (auto simp: markRemoteBlockOwnershipSourceDrift_def parse_source_def
      split: option.splits if_splits elim!: try_bind_InrE)

lemma prepare_valid:
  assumes "blockState_valid b" and "prepareRemoteBlockOwnership bt b src = Inr b'"
  shows "blockState_valid b'"
proof (cases "bs_remoteOwnership b")
  case None
  with assms(2) prepare_Inr [OF assms(1)] have "remoteSource_valid src"
    "bs_status b = BReady \<or> bs_status b = BInProgress"
    "b' = b\<lparr>bs_status := BInProgress, bs_remoteOwnership := Some (Preparing src)\<rparr>" by auto
  moreover from this(2) have "bs_remoteOperationReceipt b = None" "bs_remoteInterruption b = None"
    using waiting_block_no_remote [OF assms(1)] in_progress_no_receipt [OF assms(1)] by auto
  ultimately show ?thesis using assms(1) by (simp add: block_valid_simps)
next
  case (Some current)
  with assms prepare_Inr [OF assms(1)] show ?thesis by auto
qed

lemma activate_valid:
  assumes "blockState_valid b" and "activateRemoteBlockOwnership bt b ident = Inr b'"
  shows "blockState_valid b'"
proof -
  from assms(2) activate_Inr [OF assms(1)] have "bs_status b = BInProgress" "activeIdentity_valid ident"
    "b' = b \<or> b' = b\<lparr>bs_remoteOwnership := Some (Active ident)\<rparr>"
    by (auto split: option.splits remote_ownership.splits)
  then show ?thesis using assms(1) in_progress_no_receipt [OF assms(1)]
    by (auto simp: block_valid_simps)
qed

lemma drift_valid:
  assumes "blockState_valid b" and "markRemoteBlockOwnershipSourceDrift bt b revision fp reason = Inr b'"
  shows "blockState_valid b'"
proof (cases "b' = b")
  case False
  with drift_Inr [OF assms] obtain owner where own: "bs_remoteOwnership b = Some owner"
    "b' = b\<lparr>bs_status := BDiverged, bs_divergenceReason := Some (trim reason),
            bs_remoteOwnership := Some owner, bs_remoteInterruption := None\<rparr>" by auto
  with owned_no_receipt(1) [OF assms(1)] assms(1) show ?thesis by (simp add: block_valid_simps)
qed (simp add: assms)

lemma with_run_valid:
  assumes "blockState_valid b"
    and "bs_status b \<noteq> BCompleted"
  shows "blockState_valid (with_run r b)"
  using assms by (auto simp: with_run_def block_valid_simps
      split: option.splits remote_receipt.splits)

lemma interrupt_valid:
  assumes "blockState_valid b" and "interruptRemoteBlockOwnership bt b ident i reason r = Inr b'"
  shows "blockState_valid b'"
proof -
  from assms(2) obtain a where a: "assertActiveRemoteBlockOwnership bt b ident = Inr a"
    by (auto simp: interruptRemoteBlockOwnership_def elim!: try_bind_InrE)
  then have own: "bs_remoteOwnership b = Some (Active a)"
    "bs_status b = BInProgress \<or> bs_status b = BDiverged" by (simp_all add: assertActive_Inr)
  let ?d = "b\<lparr>bs_status := BDiverged, bs_divergenceReason := Some (trim reason),
              bs_remoteInterruption := Some i\<rparr>"
  have "blockState_valid ?d" using assms(1) own owned_no_receipt [OF assms(1)]
    by (auto simp: block_valid_simps owner_is_active_def)
  moreover have "b' = with_run r ?d \<or> (b' = with_run r b \<and> bs_status b = BDiverged)"
    using assms(2) a by (auto simp: interruptRemoteBlockOwnership_def split: if_splits)
  ultimately show ?thesis using assms(1) own owned_no_receipt(1) [OF assms(1)]
    by (auto intro: with_run_valid)
qed

lemma retry_valid:
  assumes "blockState_valid b" and "retryRemoteBlockOwnership bt b ident d e = Inr b'"
  shows "blockState_valid b'"
  using assms owned_no_receipt [OF assms(1)]
  by (auto simp: retryRemoteBlockOwnership_def assertActive_Inr parse_identity_def block_valid_simps
      split: option.splits if_splits elim!: try_bind_InrE)

lemma resume_valid:
  assumes "blockState_valid b" and "resumeRemoteBlockOwnership bt b ident = Inr b'"
  shows "blockState_valid b'"
  using assms owned_no_receipt [OF assms(1)]
  by (auto simp: resumeRemoteBlockOwnership_def assertActive_Inr block_valid_simps
      split: option.splits if_splits elim!: try_bind_InrE)

lemma complete_valid:
  assumes "blockState_valid b" and "completeRemoteBlockOwnership bt b ident r = Inr b'"
  shows "blockState_valid b'"
  using assms withoutRemote_valid [OF assms(1), of BCompleted]
  by (auto simp: completeRemoteBlockOwnership_def parse_receipt_def block_valid_simps
      split: if_splits elim!: try_bind_InrE)

lemma seal_valid:
  assumes "blockState_valid b" and "sealRemoteBlockOperationCompleted bt b ident r = Inr b'"
  shows "blockState_valid b'"
  using assms
  by (auto simp: sealRemoteBlockOperationCompleted_def parse_receipt_def block_valid_simps Let_def
      clearRemoteBlockOperationState_def split: if_splits elim!: try_bind_InrE)

lemma fail_valid:
  assumes "blockState_valid b" and "failRemoteBlockOwnership bt b ident f reason r = Inr b'"
  shows "blockState_valid b'"
  using assms withoutRemote_valid [OF assms(1), of BBlocked]
  by (auto simp: failRemoteBlockOwnership_def parse_receipt_def block_valid_simps
      split: if_splits elim!: try_bind_InrE)

lemma restoreStopped_valid:
  assumes "blockState_valid b" and "restoreStoppedRemoteBlock b op att = Inr b'"
  shows "blockState_valid b'"
  using assms
  by (auto simp: restoreStoppedRemoteBlock_def block_valid_simps clearRemoteBlockOperationState_def
      split: option.splits remote_receipt.splits if_splits)

section \<open>The ownership machine of one block\<close>

datatype remote_op =
    OpPrepare remote_source
  | OpActivate active_identity
  | OpDrift string string string
  | OpInterrupt active_identity remote_interruption string "string option"
  | OpRetry active_identity string string
  | OpResume active_identity
  | OpComplete active_identity string
  | OpFail active_identity normalized_failure string "string option"
  | OpRestoreStopped string string

fun apply_remote_op :: "block_type \<Rightarrow> remote_op \<Rightarrow> block_state \<Rightarrow> block_state res" where
  "apply_remote_op bt (OpPrepare s) b = prepareRemoteBlockOwnership bt b s"
| "apply_remote_op bt (OpActivate i) b = activateRemoteBlockOwnership bt b i"
| "apply_remote_op bt (OpDrift revision fp reason) b =
     markRemoteBlockOwnershipSourceDrift bt b revision fp reason"
| "apply_remote_op bt (OpInterrupt i intr reason runId) b =
     interruptRemoteBlockOwnership bt b i intr reason runId"
| "apply_remote_op bt (OpRetry i d e) b = retryRemoteBlockOwnership bt b i d e"
| "apply_remote_op bt (OpResume i) b = resumeRemoteBlockOwnership bt b i"
| "apply_remote_op bt (OpComplete i runId) b = completeRemoteBlockOwnership bt b i runId"
| "apply_remote_op bt (OpFail i f reason runId) b = failRemoteBlockOwnership bt b i f reason runId"
| "apply_remote_op bt (OpRestoreStopped oper att) b = restoreStoppedRemoteBlock b oper att"

text \<open>The runs of the machine: the operations that succeeded, oldest first.\<close>

inductive remote_run :: "block_type \<Rightarrow> block_state \<Rightarrow> remote_op list \<Rightarrow> block_state \<Rightarrow> bool"
  for bt :: block_type and b0 :: block_state where
  run_start: "remote_run bt b0 [] b0"
| run_step: "remote_run bt b0 ops b \<Longrightarrow> apply_remote_op bt oper b = Inr b' \<Longrightarrow>
    remote_run bt b0 (ops @ [oper]) b'"

inductive_cases remote_run_NilE: "remote_run bt b0 [] b"
inductive_cases remote_run_snocE: "remote_run bt b0 (ops @ [oper]) b"

fun remote_exec :: "block_type \<Rightarrow> remote_op list \<Rightarrow> block_state \<Rightarrow> block_state res" where
  "remote_exec bt ops b = for_res (apply_remote_op bt) ops b"

lemma remote_exec_run: "remote_exec bt ops b0 = Inr b \<longleftrightarrow> remote_run bt b0 ops b"
proof (induction ops arbitrary: b rule: rev_induct)
  case Nil
  show ?case by (auto intro: run_start elim: remote_run_NilE)
next
  case (snoc oper ops)
  have "remote_exec bt (ops @ [oper]) b0 = Inr b \<longleftrightarrow>
      (\<exists>b1. remote_exec bt ops b0 = Inr b1 \<and> apply_remote_op bt oper b1 = Inr b)"
    by (auto simp: for_res_append try_bind_eq_Inr)
  with snoc show ?case by (auto intro: run_step elim: remote_run_snocE)
qed

lemma apply_remote_op_valid:
  "blockState_valid b \<Longrightarrow> apply_remote_op bt oper b = Inr b' \<Longrightarrow> blockState_valid b'"
  by (cases oper)
    (auto intro: prepare_valid activate_valid drift_valid interrupt_valid retry_valid resume_valid
      complete_valid fail_valid restoreStopped_valid)

lemma remote_run_keeps_valid:
  "remote_run bt b0 ops b \<Longrightarrow> blockState_valid b0 \<Longrightarrow> blockState_valid b"
  by (induction rule: remote_run.induct) (auto intro: apply_remote_op_valid)

subsection \<open>Where the recorded identities come from\<close>

definition issued :: "remote_op list \<Rightarrow> active_identity \<Rightarrow> bool" where
  "issued ops a \<longleftrightarrow>
     (\<exists>i. OpActivate i \<in> set ops \<and> same_attempt i a) \<or>
     (\<exists>i. OpRetry i (ai_dispatchId a) (ai_executionAttemptId a) \<in> set ops)"

definition prepared :: "remote_op list \<Rightarrow> remote_source \<Rightarrow> bool" where
  "prepared ops s \<longleftrightarrow> (\<exists>s'. OpPrepare s' \<in> set ops \<and> sameSource (Preparing s') s)"

text \<open>The history invariant: an owner was prepared, an active owner and a receipt name an attempt
  that was activated or issued by a retry.\<close>

definition history_inv :: "remote_op list \<Rightarrow> block_state \<Rightarrow> bool" where
  "history_inv ops b \<longleftrightarrow>
     (case bs_remoteOwnership b of
        None \<Rightarrow> True
      | Some (Preparing s) \<Rightarrow> prepared ops s
      | Some (Active a) \<Rightarrow> prepared ops (ai_source a) \<and> issued ops a) \<and>
     (case bs_remoteOperationReceipt b of
        None \<Rightarrow> True
      | Some r \<Rightarrow> prepared ops (ai_source (rcp_identity r)) \<and> issued ops (rcp_identity r))"

lemma prepared_mono: "prepared ops s \<Longrightarrow> prepared (ops @ [oper]) s"
  by (auto simp: prepared_def)

lemma issued_mono: "issued ops a \<Longrightarrow> issued (ops @ [oper]) a"
  by (auto simp: issued_def)

lemma history_inv_mono: "history_inv ops b \<Longrightarrow> history_inv (ops @ [oper]) b"
  by (auto simp: history_inv_def intro: prepared_mono issued_mono
      split: option.splits remote_ownership.splits)

lemma prepared_sameSource: "prepared ops s \<Longrightarrow> sameSource (Preparing s) s' \<Longrightarrow> prepared ops s'"
  by (auto simp: prepared_def sameSource_def)

lemma issued_same: "issued ops a \<Longrightarrow> same_attempt a r \<Longrightarrow> issued ops r"
  by (auto simp: issued_def same_attempt_def sameSource_def)

lemma history_inv_eq:
  "history_inv ops b \<Longrightarrow> bs_remoteOwnership b' = bs_remoteOwnership b \<Longrightarrow>
   bs_remoteOperationReceipt b' = bs_remoteOperationReceipt b \<Longrightarrow> history_inv ops b'"
  by (simp add: history_inv_def)

lemma history_inv_active:
  assumes "history_inv ops b" and "assertActiveRemoteBlockOwnership bt b i = Inr a"
  shows "prepared ops (ai_source i)" and "issued ops i"
    and "prepared ops (ai_source a)"
proof -
  from assms(2) have own: "bs_remoteOwnership b = Some (Active a)" "same_attempt a i"
    by (simp_all add: assertActive_Inr)
  with assms(1) have "prepared ops (ai_source a)" "issued ops a" by (simp_all add: history_inv_def)
  with own(2) show "prepared ops (ai_source i)" "issued ops i" "prepared ops (ai_source a)"
    by (auto intro: issued_same elim!: prepared_sameSource simp: same_attempt_def sameSource_def)
qed

lemma history_inv_terminal:
  assumes "prepared ops (ai_source (rcp_identity r))" and "issued ops (rcp_identity r)"
    and "bs_remoteOwnership b' = None" and "bs_remoteOperationReceipt b' = Some r"
  shows "history_inv ops b'"
  using assms by (simp add: history_inv_def)

lemma history_inv_cleared:
  "bs_remoteOwnership b = None \<Longrightarrow> bs_remoteOperationReceipt b = None \<Longrightarrow> history_inv ops b"
  by (simp add: history_inv_def)

lemma history_prepare:
  assumes "history_inv ops b" and "blockState_valid b" and "prepareRemoteBlockOwnership bt b s = Inr b'"
  shows "history_inv (ops @ [OpPrepare s]) b'"
proof (cases "bs_remoteOwnership b")
  case None
  with assms(3) prepare_Inr [OF assms(2)] have
    "b' = b\<lparr>bs_status := BInProgress, bs_remoteOwnership := Some (Preparing s)\<rparr>" by auto
  moreover have "prepared (ops @ [OpPrepare s]) s" by (auto simp: prepared_def sameSource_def)
  ultimately show ?thesis using history_inv_mono [OF assms(1), of "OpPrepare s"]
    by (simp add: history_inv_def)
next
  case (Some owner)
  with assms prepare_Inr [OF assms(2)] show ?thesis by (auto intro: history_inv_mono)
qed

lemma history_activate:
  assumes "history_inv ops b" and "blockState_valid b" and "activateRemoteBlockOwnership bt b i = Inr b'"
  shows "history_inv (ops @ [OpActivate i]) b'"
proof (cases "bs_remoteOwnership b")
  case None
  with assms(3) activate_Inr [OF assms(2)] show ?thesis by auto
next
  case (Some owner)
  show ?thesis
  proof (cases owner)
    case (Preparing s)
    with Some assms activate_Inr [OF assms(2)] have
      b': "b' = b\<lparr>bs_remoteOwnership := Some (Active i)\<rparr>" and s: "sameSource (Preparing s) (ai_source i)"
      by auto
    have "prepared ops s" using assms(1) Some Preparing by (simp add: history_inv_def)
    then have "prepared (ops @ [OpActivate i]) (ai_source i)" using s
      by (intro prepared_mono) (rule prepared_sameSource)
    moreover have "issued (ops @ [OpActivate i]) i" by (auto simp: issued_def)
    ultimately show ?thesis using b' history_inv_mono [OF assms(1), of "OpActivate i"]
      by (simp add: history_inv_def)
  next
    case (Active a)
    with Some assms activate_Inr [OF assms(2)] show ?thesis by (auto intro: history_inv_mono)
  qed
qed

lemma history_retry:
  assumes "history_inv ops b" and "blockState_valid b" and "retryRemoteBlockOwnership bt b i d e = Inr b'"
  shows "history_inv (ops @ [OpRetry i d e]) b'"
proof -
  from assms(3) obtain a where a: "assertActiveRemoteBlockOwnership bt b i = Inr a"
    by (auto simp: retryRemoteBlockOwnership_def elim!: try_bind_InrE)
  with assms(3) have b': "bs_remoteOwnership b' =
      Some (Active (a\<lparr>ai_dispatchId := d, ai_executionAttemptId := e\<rparr>))"
    "bs_remoteOperationReceipt b' = bs_remoteOperationReceipt b"
    by (auto simp: retryRemoteBlockOwnership_def parse_identity_def
        split: if_splits option.splits elim!: try_bind_InrE)
  have "issued (ops @ [OpRetry i d e]) (a\<lparr>ai_dispatchId := d, ai_executionAttemptId := e\<rparr>)"
    by (auto simp: issued_def)
  with b' history_inv_active(3) [OF assms(1) a] history_inv_mono [OF assms(1), of "OpRetry i d e"]
  show ?thesis by (simp add: history_inv_def prepared_mono)
qed

lemma history_complete:
  assumes "history_inv ops b" and "completeRemoteBlockOwnership bt b i runId = Inr b'"
  shows "history_inv ops b'"
proof -
  from assms(2) obtain a where a: "assertActiveRemoteBlockOwnership bt b i = Inr a"
    by (auto simp: completeRemoteBlockOwnership_def elim!: try_bind_InrE)
  with assms(2) show ?thesis using history_inv_active [OF assms(1) a]
    by (auto simp: completeRemoteBlockOwnership_def parse_receipt_def intro!: history_inv_terminal
        split: if_splits elim!: try_bind_InrE)
qed

lemma history_fail:
  assumes "history_inv ops b" and "failRemoteBlockOwnership bt b i f reason runId = Inr b'"
  shows "history_inv ops b'"
proof -
  from assms(2) obtain a where a: "assertActiveRemoteBlockOwnership bt b i = Inr a"
    by (auto simp: failRemoteBlockOwnership_def elim!: try_bind_InrE)
  with assms(2) show ?thesis using history_inv_active [OF assms(1) a]
    by (auto simp: failRemoteBlockOwnership_def parse_receipt_def intro!: history_inv_terminal
        split: if_splits elim!: try_bind_InrE)
qed

lemma history_step:
  assumes "history_inv ops b" and "blockState_valid b" and "apply_remote_op bt oper b = Inr b'"
  shows "history_inv (ops @ [oper]) b'"
proof (cases oper)
  case (OpDrift revision fp reason)
  with assms(3) have "bs_remoteOwnership b' = bs_remoteOwnership b"
    "bs_remoteOperationReceipt b' = bs_remoteOperationReceipt b"
    using drift_Inr [OF assms(2), of bt revision fp reason b'] by auto
  then show ?thesis by (intro history_inv_eq [OF history_inv_mono [OF assms(1)]])
next
  case (OpInterrupt i intr reason runId)
  with assms show ?thesis
    by (auto simp: interruptRemoteBlockOwnership_def split: if_splits elim!: try_bind_InrE
        intro: history_inv_eq [OF history_inv_mono [OF assms(1)]])
next
  case (OpResume i)
  with assms show ?thesis
    by (auto simp: resumeRemoteBlockOwnership_def split: if_splits elim!: try_bind_InrE
        intro: history_inv_eq [OF history_inv_mono [OF assms(1)]])
next
  case (OpRestoreStopped oper att)
  with assms show ?thesis
    by (auto simp: restoreStoppedRemoteBlock_def clearRemoteBlockOperationState_def
        split: option.splits remote_receipt.splits if_splits intro!: history_inv_cleared)
qed (use assms in \<open>auto intro: history_prepare history_activate history_retry
       history_inv_mono [OF history_complete] history_inv_mono [OF history_fail]\<close>)

lemma remote_run_history:
  assumes "remote_run bt b0 ops b" and "blockState_valid b0"
    and "bs_remoteOwnership b0 = None" and "bs_remoteOperationReceipt b0 = None"
  shows "history_inv ops b \<and> blockState_valid b"
  using assms
proof (induction rule: remote_run.induct)
  case run_start
  then show ?case by (simp add: history_inv_cleared)
next
  case (run_step ops b oper b')
  then show ?case by (blast intro: history_step apply_remote_op_valid)
qed

section \<open>Properties of the ownership machine\<close>

definition sample_identity :: active_identity where
  "sample_identity =
     \<lparr>ai_source = \<lparr>src_operationId = ''op-1'', src_sourceRevision = ''rev-1'',
                   src_graphFingerprint = ''fp-1'', src_controlPlane = None\<rparr>,
      ai_dispatchId = ''d-1'', ai_executionAttemptId = ''a-1''\<rparr>"

definition sample_run :: "remote_op list" where
  "sample_run =
     [OpPrepare (ai_source sample_identity), OpActivate sample_identity,
      OpInterrupt sample_identity \<lparr>ri_reason = HostRestart, ri_resumable = False\<rparr> ''host lost'' None]"

text \<open>C12: Whatever remote operations succeed on a block, in any order, starting from a record that
  \<^verbatim>\<open>blockStateSchema\<close> accepts, every record written is accepted again; so the state file
  stays readable.\<close>

theorem remote_operations_keep_schema:
  assumes "blockState_valid b" and "remote_exec bt ops b = Inr b'"
  shows "blockState_valid b'"
  using remote_run_keeps_valid [of bt b ops b'] assms remote_exec_run [of bt ops b b'] by simp

lemma remote_operations_keep_schema_witness:
  "\<exists>b'. remote_exec Implementation sample_run (fresh_block BReady) = Inr b' \<and>
     bs_status b' = BDiverged \<and> blockState_valid b'"
proof -
  have "res_holds (\<lambda>b'. bs_status b' = BDiverged)
      (remote_exec Implementation sample_run (fresh_block BReady))" by code_simp
  then obtain b' where "remote_exec Implementation sample_run (fresh_block BReady) = Inr b'"
    "bs_status b' = BDiverged" by (rule res_holdsE)
  with remote_operations_keep_schema [OF fresh_block_valid this(1)] show ?thesis by blast
qed

text \<open>C29: Provenance of a remote result. If a block that had no owner and no receipt carries a
  receipt after some remote operations, the attempt named by the receipt was activated or issued by a
  retry in those operations, and its source (operation, revision, fingerprint, control plane) was
  prepared: a result cannot be recorded for an attempt the runtime never issued.\<close>

theorem remote_receipt_provenance:
  assumes "blockState_valid b" and "bs_remoteOwnership b = None"
    and "bs_remoteOperationReceipt b = None"
    and "remote_exec bt ops b = Inr b'" and "bs_remoteOperationReceipt b' = Some r"
  shows "prepared ops (ai_source (rcp_identity r)) \<and> issued ops (rcp_identity r)"
proof -
  from assms(4) have "remote_run bt b ops b'" using remote_exec_run [of bt ops b b'] by simp
  from remote_run_history [OF this assms(1-3)] assms(5) show ?thesis by (simp add: history_inv_def)
qed

lemma remote_receipt_provenance_witness:
  "\<exists>b' r. remote_exec Implementation
       [OpPrepare (ai_source sample_identity), OpActivate sample_identity,
        OpComplete sample_identity ''RUN-1''] (fresh_block BReady) = Inr b' \<and>
     bs_remoteOperationReceipt b' = Some r \<and>
     issued [OpPrepare (ai_source sample_identity), OpActivate sample_identity,
        OpComplete sample_identity ''RUN-1''] (rcp_identity r)"
proof -
  let ?ops = "[OpPrepare (ai_source sample_identity), OpActivate sample_identity,
        OpComplete sample_identity ''RUN-1'']"
  have "res_holds (\<lambda>b'. bs_remoteOperationReceipt b' =
        Some (CompletedReceipt sample_identity ''RUN-1'' (Some Implementation)))
      (remote_exec Implementation ?ops (fresh_block BReady))" by code_simp
  then obtain b' where b': "remote_exec Implementation ?ops (fresh_block BReady) = Inr b'"
    "bs_remoteOperationReceipt b' = Some (CompletedReceipt sample_identity ''RUN-1'' (Some Implementation))"
    by (rule res_holdsE)
  from remote_receipt_provenance [OF fresh_block_valid _ _ b'] b' show ?thesis
    by (auto simp: fresh_block_def)
qed

text \<open>The identity an operation presents.\<close>

fun op_identity :: "remote_op \<Rightarrow> active_identity option" where
  "op_identity (OpInterrupt i _ _ _) = Some i"
| "op_identity (OpRetry i _ _) = Some i"
| "op_identity (OpResume i) = Some i"
| "op_identity (OpComplete i _) = Some i"
| "op_identity (OpFail i _ _ _) = Some i"
| "op_identity _ = None"

lemma op_identity_checked:
  assumes "op_identity oper = Some i" and "apply_remote_op bt oper b = Inr b'"
  shows "\<exists>a. assertActiveRemoteBlockOwnership bt b i = Inr a"
  using assms by (cases oper)
    (auto simp: interruptRemoteBlockOwnership_def retryRemoteBlockOwnership_def
      resumeRemoteBlockOwnership_def completeRemoteBlockOwnership_def failRemoteBlockOwnership_def
      elim!: try_bind_InrE)



text \<open>Delivering a preparation, an activation, an interruption or a source drift a second time
  returns the record the first delivery wrote, unchanged.\<close>

theorem remote_replay_idempotent:
  assumes "blockState_valid b" and "apply_remote_op bt oper b = Inr b'"
    and "case oper of OpPrepare _ \<Rightarrow> True | OpActivate _ \<Rightarrow> True | OpInterrupt _ _ _ _ \<Rightarrow> True
         | OpDrift _ _ _ \<Rightarrow> True | _ \<Rightarrow> False"
  shows "apply_remote_op bt oper b' = Inr b'"
proof (cases oper)
  case (OpPrepare s)
  with assms prepare_Inr [OF assms(1)] prepare_Inr [OF apply_remote_op_valid [OF assms(1,2)]]
  show ?thesis by (auto simp: sameSource_def split: option.splits)
next
  case (OpActivate i)
  with assms activate_Inr [OF assms(1)] activate_Inr [OF apply_remote_op_valid [OF assms(1,2)]]
  show ?thesis by (auto split: option.splits remote_ownership.splits)
next
  case (OpInterrupt i intr reason runId)
  then have st: "interruptRemoteBlockOwnership bt b i intr reason runId = Inr b'"
    using assms(2) by simp
  then obtain a where a: "assertActiveRemoteBlockOwnership bt b i = Inr a"
    by (auto simp: interruptRemoteBlockOwnership_def elim!: try_bind_InrE)
  from st a have b': "bs_remoteOwnership b' = bs_remoteOwnership b" "bs_status b' = BDiverged"
    "bs_remoteInterruption b' = Some intr" "bs_divergenceReason b' = Some (trim reason)"
    "with_run runId b' = b'" "trim reason \<noteq> []"
    by (auto simp: interruptRemoteBlockOwnership_def split: if_splits)
  with a have "assertActiveRemoteBlockOwnership bt b' i = Inr a" by (simp add: assertActive_Inr)
  with b' OpInterrupt show ?thesis by (simp add: interruptRemoteBlockOwnership_def)
next
  case (OpDrift revision fp reason)
  have v: "blockState_valid b'" by (rule apply_remote_op_valid [OF assms(1,2)])
  from OpDrift assms(1,2) v show ?thesis
    by (auto simp: markRemoteBlockOwnershipSourceDrift_def parse_source_def
        split: option.splits if_splits elim!: try_bind_InrE)
qed (use assms(3) in auto)

lemma remote_replay_idempotent_witness:
  "\<exists>b'. apply_remote_op Implementation (OpPrepare (ai_source sample_identity)) (fresh_block BReady) = Inr b' \<and>
     apply_remote_op Implementation (OpPrepare (ai_source sample_identity)) b' = Inr b'"
proof -
  have "res_holds (\<lambda>_. True)
      (apply_remote_op Implementation (OpPrepare (ai_source sample_identity)) (fresh_block BReady))"
    by code_simp
  then obtain b' where
    "apply_remote_op Implementation (OpPrepare (ai_source sample_identity)) (fresh_block BReady) = Inr b'"
    by (rule res_holdsE)
  with remote_replay_idempotent [OF fresh_block_valid this] show ?thesis by simp
qed

end
