(* ===== verification/Runtime_State.thy ===== *)
theory Runtime_State
  imports Task_Graph Remote_Ownership
begin

text \<open>
  Reconciling the saved runtime state with the current plan package:
  \<^verbatim>\<open>packages/runtime/src/state.ts\<close>.

  \<open>ensureStateForManifest\<close> is the source function: it compiles the manifest, checks the remote owned
  blocks, prunes what left the package, seeds the blocks in manifest order, aggregates the tasks and
  runs the promotion passes (at most one more than there are tasks, the source's own bound). The
  lemmas show that it throws only for the reason it documents, that the passes reach a fixed point,
  that the result covers exactly the package, and that reconciling twice is reconciling once.
\<close>

section \<open>Statuses derived from the graph\<close>

definition block_status_of :: "runtime_state \<Rightarrow> string \<Rightarrow> block_status option" where
  "block_status_of s ref = map_option bs_status (map_get (rs_blocks s) ref)"

definition task_status_of :: "runtime_state \<Rightarrow> string \<Rightarrow> task_status option" where
  "task_status_of s taskId = map_option ts_status (map_get (rs_tasks s) taskId)"

definition isActiveFeedbackStatus :: "feedback_status \<Rightarrow> bool" where
  "isActiveFeedbackStatus st \<longleftrightarrow> st = FOpen \<or> st = FInProgress"

text \<open>\<^verbatim>\<open>taskDependenciesSatisfied\<close> of \<^verbatim>\<open>state.ts\<close>; a missing task is not
  implemented.\<close>

definition state_taskDependenciesSatisfied ::
  "string \<Rightarrow> compiled_graph \<Rightarrow> runtime_state \<Rightarrow> bool res" where
  "state_taskDependenciesSatisfied taskId g s =
     try_bind (requireMapValue (taskDependenciesByTask g) taskId ''taskDependenciesByTask'') (\<lambda>deps.
     Inr (list_all (\<lambda>d. task_status_of s d = Some TImplemented) deps))"

definition defaultBlockStatus :: "string \<Rightarrow> compiled_graph \<Rightarrow> runtime_state \<Rightarrow> block_status res" where
  "defaultBlockStatus ref g s =
     try_bind (requireMapValue (blockTaskByRef g) ref ''blockTaskByRef'') (\<lambda>taskId.
     try_bind (state_taskDependenciesSatisfied taskId g s) (\<lambda>satisfied.
     if \<not> satisfied then Inr BPlanned
     else try_bind (requireMapValue (blockDependenciesByRef g) ref ''blockDependenciesByRef'')
       (\<lambda>dependencies.
        Inr (if list_all (\<lambda>d. block_status_of s d = Some BCompleted) dependencies
             then BReady else BPlanned))))"

definition hasOpenFeedbackForTask :: "string \<Rightarrow> compiled_graph \<Rightarrow> runtime_state \<Rightarrow> bool" where
  "hasOpenFeedbackForTask taskId g s =
     list_ex (\<lambda>p. isActiveFeedbackStatus (fb_status (snd p)) \<and>
                 map_get (blockTaskByRef g) (fb_sourceReviewBlockRef (snd p)) = Some taskId)
       (rs_feedback s)"

definition hasStartedBlock :: "block_state option \<Rightarrow> bool" where
  "hasStartedBlock b =
     (case b of None \<Rightarrow> False | Some bs \<Rightarrow> bs_status bs \<noteq> BPlanned \<and> bs_status bs \<noteq> BReady)"

definition openFeedbackCount_of :: "string \<Rightarrow> compiled_graph \<Rightarrow> runtime_state \<Rightarrow> nat" where
  "openFeedbackCount_of taskId g s =
     length (filter (\<lambda>p. map_get (blockTaskByRef g) (fb_sourceReviewBlockRef (snd p)) = Some taskId \<and>
                         isActiveFeedbackStatus (fb_status (snd p))) (rs_feedback s))"

definition aggregateTaskStatus :: "string \<Rightarrow> compiled_graph \<Rightarrow> runtime_state \<Rightarrow> task_state res" where
  "aggregateTaskStatus taskId g s =
     try_bind (requireMapValue (blocksByTask g) taskId ''blocksByTask'') (\<lambda>refs.
     let count = openFeedbackCount_of taskId g s
     in try_bind (state_taskDependenciesSatisfied taskId g s) (\<lambda>satisfied.
        if \<not> satisfied then Inr \<lparr>ts_status = TPlanned, ts_openFeedbackCount = count\<rparr>
        else if list_ex (\<lambda>ref. block_status_of s ref = Some BInProgress) refs \<or> 0 < count
        then Inr \<lparr>ts_status = TInProgress, ts_openFeedbackCount = count\<rparr>
        else
          try_bind (filter_res (\<lambda>ref. try_bind (requireMapValue (blocksByRef g) ref ''blocksByRef'')
                                 (\<lambda>b. Inr (mb_type b = Implementation))) refs) (\<lambda>implementations.
          let requiredNonReviewComplete =
                list_all (\<lambda>ref. block_status_of s ref = Some BCompleted) implementations
          in try_bind (filter_res (\<lambda>ref. try_bind (requireMapValue (blocksByRef g) ref ''blocksByRef'')
                                    (\<lambda>b. Inr (mb_type b = Review))) refs) (\<lambda>reviews.
             try_bind (every_res (\<lambda>ref. try_bind (requireMapValue (blocksByRef g) ref ''blocksByRef'')
                 (\<lambda>b. Inr (mb_type b \<noteq> Review \<or> \<not> rp_required (mb_review b) \<or>
                        (case map_get (rs_blocks s) ref of
                           None \<Rightarrow> False | Some bs \<Rightarrow> bs_completionReason bs = Some PassedReason))))
                 reviews) (\<lambda>requiredReviewsPassed.
             if requiredNonReviewComplete \<and> requiredReviewsPassed
             then Inr \<lparr>ts_status = TImplemented, ts_openFeedbackCount = count\<rparr>
             else Inr \<lparr>ts_status = (if list_ex (\<lambda>ref. hasStartedBlock (map_get (rs_blocks s) ref)) refs
                                  then TInProgress else TReady),
                       ts_openFeedbackCount = count\<rparr>)))))"

section \<open>Reconciliation\<close>

text \<open>The first loop: receipts of another block type, and remote owned blocks that must exist.\<close>

definition scan_block ::
  "compiled_graph \<Rightarrow> string \<times> block_state \<Rightarrow> string list \<Rightarrow> string list res" where
  "scan_block g entry drift =
     (let (ref, b) = entry;
          block = map_get (blocksByRef g) ref;
          drift' = (case (bs_remoteOperationReceipt b, block) of
                      (Some receipt, Some mb) \<Rightarrow>
                        if \<not> remoteOperationReceiptMatchesBlockType receipt (mb_type mb)
                        then with_ref drift ref else drift
                    | _ \<Rightarrow> drift)
      in if bs_remoteOwnership b = None then Inr drift'
         else case block of
                None \<Rightarrow> Inl (RemoteOwnedBlockMissing ref)
              | Some mb \<Rightarrow>
                  try_bind (assertRemoteBlockOwnershipInvariant (mb_type mb) b) (\<lambda>_. Inr drift'))"

text \<open>What is kept of the saved state, with the tasks and blocks still to be rebuilt.\<close>

definition prune_state :: "compiled_graph \<Rightarrow> string list \<Rightarrow> runtime_state \<Rightarrow> runtime_state" where
  "prune_state g drift s =
     (let valid = (\<lambda>ref. ref \<in> set (blockRefsInManifestOrder g));
          feedback = filter (\<lambda>p. valid (fb_sourceReviewBlockRef (snd p))) (rs_feedback s)
      in \<lparr>rs_currentRefs = filter (\<lambda>ref. valid ref \<and> ref \<notin> set drift) (rs_currentRefs s),
          rs_currentFeedbackId =
            (case rs_currentFeedbackId s of
               None \<Rightarrow> None
             | Some f \<Rightarrow> (case map_get feedback f of
                           None \<Rightarrow> None
                         | Some fb \<Rightarrow> if isActiveFeedbackStatus (fb_status fb) then Some f else None)),
          rs_currentReviewBlockRef =
            (case rs_currentReviewBlockRef s of
               None \<Rightarrow> None
             | Some r \<Rightarrow> if valid r then Some r else None),
          rs_tasks = [], rs_blocks = [], rs_feedback = feedback,
          rs_lastResetReceipt = rs_lastResetReceipt s\<rparr>)"

definition seed_block ::
  "compiled_graph \<Rightarrow> string list \<Rightarrow> runtime_state \<Rightarrow> string \<Rightarrow> runtime_state \<Rightarrow> runtime_state res" where
  "seed_block g drift s ref next =
     try_bind
       (case (if ref \<in> set drift then None else map_get (rs_blocks s) ref) of
          Some existing \<Rightarrow> Inr existing
        | None \<Rightarrow> try_bind (defaultBlockStatus ref g next) (\<lambda>st. Inr (fresh_block st))) (\<lambda>b.
     let next1 = with_block ref b next
     in if bs_status b = BPlanned \<or> bs_status b = BReady
        then try_bind (defaultBlockStatus ref g next1) (\<lambda>st.
             Inr (with_block ref (b\<lparr>bs_status := st\<rparr>) next1))
        else Inr next1)"

definition aggregate_task :: "compiled_graph \<Rightarrow> string \<Rightarrow> runtime_state \<Rightarrow> runtime_state res" where
  "aggregate_task g taskId next =
     try_bind (aggregateTaskStatus taskId g next) (\<lambda>ts.
     Inr (next\<lparr>rs_tasks := map_set (rs_tasks next) taskId ts\<rparr>))"

text \<open>One promotion pass; the flag is the source's \<^verbatim>\<open>changed\<close>.\<close>

definition promote_block ::
  "compiled_graph \<Rightarrow> string \<Rightarrow> string \<Rightarrow> runtime_state \<times> bool \<Rightarrow> (runtime_state \<times> bool) res" where
  "promote_block g taskId ref sc =
     (let (next, changed) = sc
      in try_bind (requireMapValue (blocksByRef g) ref ''blocksByRef'') (\<lambda>block.
         case map_get (rs_blocks next) ref of
           None \<Rightarrow> Inl (MissingBlockState ref)
         | Some b \<Rightarrow>
             if bs_status b \<noteq> BPlanned then Inr (next, changed)
             else try_bind (requireMapValue (blockDependenciesByRef g) ref ''blockDependenciesByRef'')
               (\<lambda>dependencies.
                if list_all (\<lambda>d. block_status_of next d = Some BCompleted) dependencies
                then if mb_type block = Review \<and> hasOpenFeedbackForTask taskId g next
                     then Inr (next, changed)
                     else Inr (with_block ref (b\<lparr>bs_status := BReady\<rparr>) next, True)
                else Inr (next, changed))))"

definition promote_task ::
  "compiled_graph \<Rightarrow> string \<Rightarrow> runtime_state \<times> bool \<Rightarrow> (runtime_state \<times> bool) res" where
  "promote_task g taskId sc =
     try_bind (state_taskDependenciesSatisfied taskId g (fst sc)) (\<lambda>satisfied.
     if \<not> satisfied then Inr sc
     else
       try_bind (requireMapValue (blocksByTask g) taskId ''blocksByTask'') (\<lambda>refs.
       try_bind (for_res (promote_block g taskId) refs sc) (\<lambda>sc1.
       let previous = task_status_of (fst sc1) taskId
       in try_bind (aggregateTaskStatus taskId g (fst sc1)) (\<lambda>ts.
          Inr ((fst sc1)\<lparr>rs_tasks := map_set (rs_tasks (fst sc1)) taskId ts\<rparr>,
               snd sc1 \<or> previous \<noteq> Some (ts_status ts))))))"

fun promote_passes :: "nat \<Rightarrow> compiled_graph \<Rightarrow> runtime_state \<Rightarrow> runtime_state res" where
  "promote_passes 0 g next = Inr next"
| "promote_passes (Suc n) g next =
     try_bind (for_res (promote_task g) (taskNodesInManifestOrder g) (next, False)) (\<lambda>sc.
     if \<not> snd sc then Inr (fst sc) else promote_passes n g (fst sc))"

definition ensureStateForManifest :: "manifest \<Rightarrow> runtime_state \<Rightarrow> runtime_state res" where
  "ensureStateForManifest mf s =
     try_bind (compileTaskGraph mf) (\<lambda>g.
     try_bind (for_res (scan_block g) (rs_blocks s) []) (\<lambda>drift.
     try_bind (for_res (seed_block g drift s) (blockRefsInManifestOrder g) (prune_state g drift s))
       (\<lambda>seeded.
     try_bind (for_res (aggregate_task g) (taskNodesInManifestOrder g) seeded) (\<lambda>aggregated.
     promote_passes (length (taskNodesInManifestOrder g) + 1) g aggregated))))"

section \<open>The derived statuses without the index lookups\<close>

definition deps_ok :: "compiled_graph \<Rightarrow> runtime_state \<Rightarrow> string \<Rightarrow> bool" where
  "deps_ok g s t \<longleftrightarrow>
     list_all (\<lambda>d. task_status_of s d = Some TImplemented) (succs (taskDependenciesByTask g) t)"

definition bdeps_ok :: "compiled_graph \<Rightarrow> runtime_state \<Rightarrow> string \<Rightarrow> bool" where
  "bdeps_ok g s r \<longleftrightarrow>
     list_all (\<lambda>d. block_status_of s d = Some BCompleted) (succs (blockDependenciesByRef g) r)"

definition task_of :: "compiled_graph \<Rightarrow> string \<Rightarrow> string" where
  "task_of g r = the (map_get (blockTaskByRef g) r)"

definition block_of :: "compiled_graph \<Rightarrow> string \<Rightarrow> manifest_block" where
  "block_of g r = the (map_get (blocksByRef g) r)"

text \<open>The status of a task whose dependencies are implemented.\<close>

definition core_status :: "compiled_graph \<Rightarrow> runtime_state \<Rightarrow> string \<Rightarrow> task_status" where
  "core_status g s t =
     (let refs = succs (blocksByTask g) t
      in if list_ex (\<lambda>r. block_status_of s r = Some BInProgress) refs \<or> 0 < openFeedbackCount_of t g s
         then TInProgress
         else if list_all (\<lambda>r. mb_type (block_of g r) = Implementation \<longrightarrow>
                             block_status_of s r = Some BCompleted) refs \<and>
                 list_all (\<lambda>r. block_is_required_review (block_of g r) \<longrightarrow>
                             (\<exists>b. map_get (rs_blocks s) r = Some b \<and>
                                  bs_completionReason b = Some PassedReason)) refs
         then TImplemented
         else if list_ex (\<lambda>r. hasStartedBlock (map_get (rs_blocks s) r)) refs then TInProgress
         else TReady)"

definition derived_task :: "compiled_graph \<Rightarrow> runtime_state \<Rightarrow> string \<Rightarrow> task_state" where
  "derived_task g s t =
     \<lparr>ts_status = (if deps_ok g s t then core_status g s t else TPlanned),
      ts_openFeedbackCount = openFeedbackCount_of t g s\<rparr>"

lemma core_status_not_planned [simp]: "core_status g s t \<noteq> TPlanned"
  by (simp add: core_status_def Let_def)

lemma deps_ok_eq:
  assumes "graph_ok g" and "t \<in> set (taskNodesInManifestOrder g)"
  shows "state_taskDependenciesSatisfied t g s = Inr (deps_ok g s t)"
  using graph_wf_task(2) [OF graph_ok_wf [OF assms(1)] assms(2)]
  by (auto simp: state_taskDependenciesSatisfied_def deps_ok_def succs_def)

lemma block_deps_get:
  assumes "graph_ok g" and "r \<in> set (blockRefsInManifestOrder g)"
  shows "map_get (blockDependenciesByRef g) r = Some (succs (blockDependenciesByRef g) r)"
    and "set (succs (blockDependenciesByRef g) r) \<subseteq> set (blockRefsInManifestOrder g)"
  using graph_wf_ref(3) [OF graph_ok_wf [OF assms(1)] assms(2)] by (auto simp: succs_def)

lemma blocks_of_task_get:
  assumes "graph_ok g" and "t \<in> set (taskNodesInManifestOrder g)"
  shows "map_get (blocksByTask g) t = Some (succs (blocksByTask g) t)"
  using graph_wf_task(4) [OF graph_ok_wf [OF assms(1)] assms(2)] by (auto simp: succs_def)

lemma task_of_blocks:
  assumes "graph_ok g" and "r \<in> set (succs (blocksByTask g) t)"
  shows "map_get (blockTaskByRef g) r = Some t" and "r \<in> set (blockRefsInManifestOrder g)"
proof -
  from assms(2) obtain rs where "map_get (blocksByTask g) t = Some rs" "r \<in> set rs"
    by (cases "map_get (blocksByTask g) t") (auto simp: succs_def)
  from graph_ok_task_of [OF assms(1) this] show "map_get (blockTaskByRef g) r = Some t"
    "r \<in> set (blockRefsInManifestOrder g)" by auto
qed

lemma block_of_get:
  assumes "graph_ok g" and "r \<in> set (blockRefsInManifestOrder g)"
  shows "map_get (blocksByRef g) r = Some (block_of g r)"
    and "map_get (blockTaskByRef g) r = Some (task_of g r)"
    and "task_of g r \<in> set (taskNodesInManifestOrder g)"
    and "r \<in> set (succs (blocksByTask g) (task_of g r))"
  using graph_ok_ref [OF assms] by (auto simp: block_of_def task_of_def succs_def)

lemma defaultBlockStatus_eq:
  assumes "graph_ok g" and "r \<in> set (blockRefsInManifestOrder g)"
  shows "defaultBlockStatus r g s =
     Inr (if deps_ok g s (task_of g r) \<and> bdeps_ok g s r then BReady else BPlanned)"
  using block_of_get [OF assms] block_deps_get [OF assms]
  by (simp add: defaultBlockStatus_def deps_ok_eq [OF assms(1)] bdeps_ok_def)

lemma aggregateTaskStatus_eq:
  assumes "graph_ok g" and "t \<in> set (taskNodesInManifestOrder g)"
  shows "aggregateTaskStatus t g s = Inr (derived_task g s t)"
proof -
  let ?refs = "succs (blocksByTask g) t"
  have get: "\<And>r. r \<in> set ?refs \<Longrightarrow> map_get (blocksByRef g) r = Some (block_of g r)"
    using task_of_blocks [OF assms(1)] block_of_get(1) [OF assms(1)] by blast
  have impl: "filter_res (\<lambda>ref. try_bind (requireMapValue (blocksByRef g) ref ''blocksByRef'')
        (\<lambda>b. Inr (mb_type b = Implementation))) ?refs =
      Inr (filter (\<lambda>r. mb_type (block_of g r) = Implementation) ?refs)"
    by (rule filter_res_Inr) (simp add: get)
  have rev: "filter_res (\<lambda>ref. try_bind (requireMapValue (blocksByRef g) ref ''blocksByRef'')
        (\<lambda>b. Inr (mb_type b = Review))) ?refs =
      Inr (filter (\<lambda>r. mb_type (block_of g r) = Review) ?refs)"
    by (rule filter_res_Inr) (simp add: get)
  let ?ok = "\<lambda>r. mb_type (block_of g r) \<noteq> Review \<or> \<not> rp_required (mb_review (block_of g r)) \<or>
      (case map_get (rs_blocks s) r of None \<Rightarrow> False | Some bs \<Rightarrow> bs_completionReason bs = Some PassedReason)"
  have passed: "every_res (\<lambda>ref. try_bind (requireMapValue (blocksByRef g) ref ''blocksByRef'')
        (\<lambda>b. Inr (mb_type b \<noteq> Review \<or> \<not> rp_required (mb_review b) \<or>
           (case map_get (rs_blocks s) ref of
              None \<Rightarrow> False | Some bs \<Rightarrow> bs_completionReason bs = Some PassedReason))))
        (filter (\<lambda>r. mb_type (block_of g r) = Review) ?refs) =
      Inr (list_all ?ok (filter (\<lambda>r. mb_type (block_of g r) = Review) ?refs))"
    by (rule every_res_Inr) (auto simp: get)
  have ok: "list_all ?ok (filter (\<lambda>r. mb_type (block_of g r) = Review) ?refs) \<longleftrightarrow>
      list_all (\<lambda>r. block_is_required_review (block_of g r) \<longrightarrow>
        (\<exists>b. map_get (rs_blocks s) r = Some b \<and> bs_completionReason b = Some PassedReason)) ?refs"
    by (auto simp: list_all_iff block_is_required_review_def split: option.splits)
  have comp: "list_all (\<lambda>r. block_status_of s r = Some BCompleted)
        (filter (\<lambda>r. mb_type (block_of g r) = Implementation) ?refs) \<longleftrightarrow>
      list_all (\<lambda>r. mb_type (block_of g r) = Implementation \<longrightarrow> block_status_of s r = Some BCompleted) ?refs"
    by (auto simp: list_all_iff)
  show ?thesis
    unfolding aggregateTaskStatus_def requireMapValue_Some [OF blocks_of_task_get [OF assms]]
      try_bind_simps Let_def deps_ok_eq [OF assms] impl rev passed ok comp
    by (simp add: derived_task_def core_status_def Let_def)
qed

section \<open>What promotion leaves alone\<close>

definition waiting :: "block_state \<Rightarrow> bool" where
  "waiting b \<longleftrightarrow> bs_status b = BPlanned \<or> bs_status b = BReady"

definition norm_block :: "block_state \<Rightarrow> block_state" where
  "norm_block b = (if waiting b then b\<lparr>bs_status := BPlanned\<rparr> else b)"

text \<open>Two states with the same blocks up to planned and ready, and the same of everything that is
  not a task.\<close>

definition same_work :: "runtime_state \<Rightarrow> runtime_state \<Rightarrow> bool" where
  "same_work s s' \<longleftrightarrow>
     (\<forall>r. map_option norm_block (map_get (rs_blocks s') r) = map_option norm_block (map_get (rs_blocks s) r)) \<and>
     rs_feedback s' = rs_feedback s \<and> rs_currentRefs s' = rs_currentRefs s \<and>
     rs_currentFeedbackId s' = rs_currentFeedbackId s \<and>
     rs_currentReviewBlockRef s' = rs_currentReviewBlockRef s \<and>
     rs_lastResetReceipt s' = rs_lastResetReceipt s"

lemma same_work_refl [simp, intro]: "same_work s s"
  by (simp add: same_work_def)

lemma same_work_trans: "same_work s s' \<Longrightarrow> same_work s' s'' \<Longrightarrow> same_work s s''"
  by (simp add: same_work_def)

lemma same_work_tasks [simp]: "same_work s (s'\<lparr>rs_tasks := ts\<rparr>) \<longleftrightarrow> same_work s s'"
  by (simp add: same_work_def)

lemma norm_block_eqD:
  assumes "norm_block b' = norm_block b"
  shows "waiting b' = waiting b" and "bs_completionReason b' = bs_completionReason b"
    and "\<not> waiting b \<Longrightarrow> b' = b"
proof -
  have "waiting b' = waiting (norm_block b')" "waiting b = waiting (norm_block b)"
    by (simp_all add: norm_block_def waiting_def)
  with assms show w: "waiting b' = waiting b" by simp
  show "b' = b" if "\<not> waiting b" using assms that w by (simp add: norm_block_def)
  have "bs_completionReason b' = bs_completionReason (norm_block b')"
    "bs_completionReason b = bs_completionReason (norm_block b)" by (simp_all add: norm_block_def)
  with assms show "bs_completionReason b' = bs_completionReason b" by simp
qed

lemma same_work_cases:
  assumes "same_work s s'"
  shows "(map_get (rs_blocks s) r = None \<and> map_get (rs_blocks s') r = None) \<or>
     (\<exists>b b'. map_get (rs_blocks s) r = Some b \<and> map_get (rs_blocks s') r = Some b' \<and>
        norm_block b' = norm_block b)"
proof -
  have "map_option norm_block (map_get (rs_blocks s') r) = map_option norm_block (map_get (rs_blocks s) r)"
    using assms by (simp add: same_work_def)
  then show ?thesis
    by (cases "map_get (rs_blocks s) r"; cases "map_get (rs_blocks s') r") simp_all
qed

lemma same_work_status:
  assumes "same_work s s'" and "st \<noteq> BPlanned" and "st \<noteq> BReady"
  shows "block_status_of s' r = Some st \<longleftrightarrow> block_status_of s r = Some st"
  using same_work_cases [OF assms(1), of r]
proof (elim disjE exE conjE)
  fix b b'
  assume b: "map_get (rs_blocks s) r = Some b" "map_get (rs_blocks s') r = Some b'"
    and eq: "norm_block b' = norm_block b"
  have "bs_status b' = st \<longleftrightarrow> bs_status b = st"
    using norm_block_eqD(1,3) [OF eq] assms(2,3) by (cases "waiting b") (auto simp: waiting_def)
  with b show ?thesis by (simp add: block_status_of_def)
qed (simp add: block_status_of_def)

lemma same_work_has: "same_work s s' \<Longrightarrow> map_has (rs_blocks s') r = map_has (rs_blocks s) r"
  using same_work_cases [of s s' r] by (auto simp: map_has_get)

lemma same_work_derived:
  assumes "same_work s s'"
  shows "bdeps_ok g s' r = bdeps_ok g s r" and "hasOpenFeedbackForTask t g s' = hasOpenFeedbackForTask t g s"
    and "openFeedbackCount_of t g s' = openFeedbackCount_of t g s" and "core_status g s' t = core_status g s t"
proof -
  have st: "block_status_of s' r = Some BCompleted \<longleftrightarrow> block_status_of s r = Some BCompleted"
    "block_status_of s' r = Some BInProgress \<longleftrightarrow> block_status_of s r = Some BInProgress" for r
    using same_work_status [OF assms] by simp_all
  have started: "hasStartedBlock (map_get (rs_blocks s') r) = hasStartedBlock (map_get (rs_blocks s) r)" for r
    using same_work_cases [OF assms, of r]
    by (auto simp: hasStartedBlock_def waiting_def dest!: norm_block_eqD(1))
  have passed: "(\<exists>b. map_get (rs_blocks s') r = Some b \<and> bs_completionReason b = Some PassedReason) \<longleftrightarrow>
      (\<exists>b. map_get (rs_blocks s) r = Some b \<and> bs_completionReason b = Some PassedReason)" for r
    using same_work_cases [OF assms, of r] by (auto dest: norm_block_eqD(2))
  have fb: "rs_feedback s' = rs_feedback s" using assms by (simp add: same_work_def)
  show "bdeps_ok g s' r = bdeps_ok g s r" by (simp add: bdeps_ok_def st)
  show "hasOpenFeedbackForTask t g s' = hasOpenFeedbackForTask t g s"
    by (simp add: hasOpenFeedbackForTask_def fb)
  show count: "openFeedbackCount_of t g s' = openFeedbackCount_of t g s"
    by (simp add: openFeedbackCount_of_def fb)
  show "core_status g s' t = core_status g s t"
    by (simp add: core_status_def Let_def st started passed count)
qed

section \<open>The promotion passes\<close>

text \<open>The task entries while they are being derived: planned, or the derived status with its
  dependencies implemented.\<close>

definition tasks_inv :: "compiled_graph \<Rightarrow> runtime_state \<Rightarrow> bool" where
  "tasks_inv g s \<longleftrightarrow>
     (\<forall>t ts. map_get (rs_tasks s) t = Some ts \<longrightarrow>
        ts_openFeedbackCount ts = openFeedbackCount_of t g s \<and>
        (ts_status ts = TPlanned \<or> ts_status ts = core_status g s t \<and> deps_ok g s t))"

definition blocks_cover :: "compiled_graph \<Rightarrow> runtime_state \<Rightarrow> bool" where
  "blocks_cover g s \<longleftrightarrow> (\<forall>r. map_has (rs_blocks s) r \<longleftrightarrow> r \<in> set (blockRefsInManifestOrder g))"

definition tasks_cover :: "compiled_graph \<Rightarrow> runtime_state \<Rightarrow> bool" where
  "tasks_cover g s \<longleftrightarrow> (\<forall>t. map_has (rs_tasks s) t \<longleftrightarrow> t \<in> set (taskNodesInManifestOrder g))"

text \<open>A block of a task whose dependencies are implemented may start.\<close>

definition can_start :: "compiled_graph \<Rightarrow> runtime_state \<Rightarrow> string \<Rightarrow> bool" where
  "can_start g s r \<longleftrightarrow> bdeps_ok g s r \<and>
     \<not> (mb_type (block_of g r) = Review \<and> hasOpenFeedbackForTask (task_of g r) g s)"

definition promoted :: "compiled_graph \<Rightarrow> runtime_state \<Rightarrow> string \<Rightarrow> bool" where
  "promoted g s t \<longleftrightarrow>
     (\<forall>r \<in> set (succs (blocksByTask g) t). can_start g s r \<longrightarrow> block_status_of s r \<noteq> Some BPlanned)"

text \<open>A ready block has everything it waits for.\<close>

definition ready_ok :: "compiled_graph \<Rightarrow> runtime_state \<Rightarrow> bool" where
  "ready_ok g s \<longleftrightarrow>
     (\<forall>r \<in> set (blockRefsInManifestOrder g). block_status_of s r = Some BReady \<longrightarrow>
        deps_ok g s (task_of g r) \<and> bdeps_ok g s r)"

lemma can_start_same_work: "same_work s s' \<Longrightarrow> can_start g s' r = can_start g s r"
  by (simp add: can_start_def same_work_derived)

lemma restatus_same_work:
  assumes "map_get (rs_blocks s) r = Some b" and "waiting b" and "st = BPlanned \<or> st = BReady"
  shows "same_work s (with_block r (b\<lparr>bs_status := st\<rparr>) s)"
  using assms by (auto simp: same_work_def js_map_simps norm_block_def waiting_def)

text \<open>Promoting the blocks of one task.\<close>

definition promote_post ::
  "compiled_graph \<Rightarrow> string set \<Rightarrow> runtime_state \<times> bool \<Rightarrow> runtime_state \<times> bool \<Rightarrow> bool" where
  "promote_post g R sc sc' \<longleftrightarrow>
     same_work (fst sc) (fst sc') \<and> rs_tasks (fst sc') = rs_tasks (fst sc) \<and>
     (\<not> snd sc' \<longrightarrow> sc' = sc) \<and> (snd sc \<longrightarrow> snd sc') \<and>
     (\<forall>r. block_status_of (fst sc') r =
        (if r \<in> R \<and> can_start g (fst sc) r \<and> block_status_of (fst sc) r = Some BPlanned
         then Some BReady else block_status_of (fst sc) r)) \<and>
     (snd sc' \<longrightarrow> snd sc \<or>
        (\<exists>r \<in> R. can_start g (fst sc) r \<and> block_status_of (fst sc) r = Some BPlanned))"

lemma promote_block_post:
  assumes g: "graph_ok g" and cover: "blocks_cover g (fst sc)"
    and r: "r \<in> set (succs (blocksByTask g) t)"
  shows "\<exists>sc'. promote_block g t r sc = Inr sc' \<and> promote_post g {r} sc sc'"
proof -
  obtain s c where sc: "sc = (s, c)" by (cases sc)
  note tb = task_of_blocks [OF g r]
  note get = block_of_get [OF g tb(2)] block_deps_get [OF g tb(2)]
  from tb get have t: "task_of g r = t" by simp
  from cover tb sc obtain b where b: "map_get (rs_blocks s) r = Some b"
    by (auto simp: blocks_cover_def map_has_get)
  have st: "block_status_of s r = Some (bs_status b)" using b by (simp add: block_status_of_def)
  have eval: "promote_block g t r sc =
      (if bs_status b = BPlanned \<and> can_start g s r
       then Inr (with_block r (b\<lparr>bs_status := BReady\<rparr>) s, True) else Inr (s, c))"
    using get b by (simp add: promote_block_def sc can_start_def bdeps_ok_def t)
  show ?thesis
  proof (cases "bs_status b = BPlanned \<and> can_start g s r")
    case True
    then have "same_work s (with_block r (b\<lparr>bs_status := BReady\<rparr>) s)"
      using b by (intro restatus_same_work) (auto simp: waiting_def)
    moreover have "block_status_of (with_block r (b\<lparr>bs_status := BReady\<rparr>) s) r' =
        (if r' = r then Some BReady else block_status_of s r')" for r'
      by (simp add: block_status_of_def js_map_simps)
    ultimately show ?thesis using eval True st by (auto simp: promote_post_def sc)
  next
    case False
    with eval st show ?thesis by (auto simp: promote_post_def sc)
  qed
qed

lemma promote_post_refl: "promote_post g {} sc sc"
  by (simp add: promote_post_def)

lemma promote_post_trans:
  assumes "promote_post g R sc sc'" and "promote_post g R' sc' sc''"
  shows "promote_post g (R \<union> R') sc sc''"
proof -
  have cs: "can_start g (fst sc') r = can_start g (fst sc) r" for r
    using assms(1) by (intro can_start_same_work) (simp add: promote_post_def)
  have st: "block_status_of (fst sc') r =
      (if r \<in> R \<and> can_start g (fst sc) r \<and> block_status_of (fst sc) r = Some BPlanned
       then Some BReady else block_status_of (fst sc) r)" for r
    using assms(1) unfolding promote_post_def by blast
  have st': "block_status_of (fst sc'') r =
      (if r \<in> R' \<and> can_start g (fst sc) r \<and> block_status_of (fst sc') r = Some BPlanned
       then Some BReady else block_status_of (fst sc') r)" for r
    using assms(2) unfolding promote_post_def cs by blast
  have fl: "\<not> snd sc' \<longrightarrow> sc' = sc" "snd sc \<longrightarrow> snd sc'" "\<not> snd sc'' \<longrightarrow> sc'' = sc'" "snd sc' \<longrightarrow> snd sc''"
    using assms unfolding promote_post_def by blast+
  have ch: "snd sc' \<longrightarrow> snd sc \<or>
        (\<exists>r \<in> R. can_start g (fst sc) r \<and> block_status_of (fst sc) r = Some BPlanned)"
    using assms(1) unfolding promote_post_def by blast
  have ch': "snd sc'' \<longrightarrow> snd sc' \<or>
        (\<exists>r \<in> R'. can_start g (fst sc) r \<and> block_status_of (fst sc') r = Some BPlanned)"
    using assms(2) unfolding promote_post_def cs by blast
  have bk: "block_status_of (fst sc') r = Some BPlanned \<Longrightarrow> block_status_of (fst sc) r = Some BPlanned" for r
    using st [of r] by (auto split: if_split_asm)
  have wk: "same_work (fst sc) (fst sc'')" "rs_tasks (fst sc'') = rs_tasks (fst sc)"
    using assms same_work_trans unfolding promote_post_def by (blast, metis)
  have s1: "block_status_of (fst sc'') r =
        (if r \<in> R \<union> R' \<and> can_start g (fst sc) r \<and> block_status_of (fst sc) r = Some BPlanned
         then Some BReady else block_status_of (fst sc) r)" for r
    unfolding st' st by auto
  have "snd sc'' \<longrightarrow> snd sc \<or>
        (\<exists>r \<in> R \<union> R'. can_start g (fst sc) r \<and> block_status_of (fst sc) r = Some BPlanned)"
    using ch ch' bk by blast
  then show ?thesis unfolding promote_post_def using wk s1 fl by blast
qed

lemma blocks_cover_same_work: "same_work s s' \<Longrightarrow> blocks_cover g s \<Longrightarrow> blocks_cover g s'"
  by (simp add: blocks_cover_def same_work_has)

lemma promote_blocks_post:
  assumes "graph_ok g" and "blocks_cover g (fst sc)" and "set rs \<subseteq> set (succs (blocksByTask g) t)"
  shows "\<exists>sc'. for_res (promote_block g t) rs sc = Inr sc' \<and> promote_post g (set rs) sc sc'"
  using assms(2,3)
proof (induction rs arbitrary: sc)
  case Nil
  then show ?case by (simp add: promote_post_refl)
next
  case (Cons r rs)
  from promote_block_post [OF assms(1) Cons.prems(1), of r t] Cons.prems(2) obtain sc1 where
    sc1: "promote_block g t r sc = Inr sc1" "promote_post g {r} sc sc1" by auto
  then have "blocks_cover g (fst sc1)" using Cons.prems(1)
    by (auto simp: promote_post_def intro: blocks_cover_same_work)
  with Cons.IH [of sc1] Cons.prems(2) obtain sc' where
    "for_res (promote_block g t) rs sc1 = Inr sc'" "promote_post g (set rs) sc1 sc'" by auto
  with sc1 promote_post_trans [of g "{r}" sc sc1 "set rs" sc'] show ?case by auto
qed

subsection \<open>One task\<close>

lemma deps_ok_mono:
  assumes "deps_ok g s t"
    and "\<And>u. task_status_of s u = Some TImplemented \<Longrightarrow> task_status_of s' u = Some TImplemented"
  shows "deps_ok g s' t"
  using assms by (auto simp: deps_ok_def list_all_iff)

lemma deps_ok_tasks: "rs_tasks s' = rs_tasks s \<Longrightarrow> deps_ok g s' t = deps_ok g s t"
  by (simp add: deps_ok_def task_status_of_def)

lemma promote_task_skip:
  assumes "graph_ok g" and "t \<in> set (taskNodesInManifestOrder g)" and "\<not> deps_ok g (fst sc) t"
  shows "promote_task g t sc = Inr sc"
  using assms by (simp add: promote_task_def deps_ok_eq)

definition task_done :: "compiled_graph \<Rightarrow> string \<Rightarrow> runtime_state \<times> bool \<Rightarrow> runtime_state \<times> bool \<Rightarrow> runtime_state \<times> bool" where
  "task_done g t sc sc1 =
     ((fst sc1)\<lparr>rs_tasks := map_set (rs_tasks (fst sc)) t (derived_task g (fst sc) t)\<rparr>,
      snd sc1 \<or> task_status_of (fst sc) t \<noteq> Some (core_status g (fst sc) t))"

lemma promote_task_go:
  assumes "graph_ok g" and "t \<in> set (taskNodesInManifestOrder g)" and "deps_ok g (fst sc) t"
    and "blocks_cover g (fst sc)"
  shows "\<exists>sc1. promote_task g t sc = Inr (task_done g t sc sc1) \<and>
           promote_post g (set (succs (blocksByTask g) t)) sc sc1"
proof -
  from promote_blocks_post [OF assms(1,4) subset_refl] obtain sc1 where
    sc1: "for_res (promote_block g t) (succs (blocksByTask g) t) sc = Inr sc1"
      "promote_post g (set (succs (blocksByTask g) t)) sc sc1" by blast
  then have same: "same_work (fst sc) (fst sc1)" "rs_tasks (fst sc1) = rs_tasks (fst sc)"
    unfolding promote_post_def by blast+
  have d: "derived_task g (fst sc1) t = derived_task g (fst sc) t"
    by (simp add: derived_task_def deps_ok_tasks [OF same(2)] same_work_derived [OF same(1)])
  have "task_status_of (fst sc1) t = task_status_of (fst sc) t"
    using same(2) by (simp add: task_status_of_def)
  moreover have "ts_status (derived_task g (fst sc) t) = core_status g (fst sc) t"
    using assms(3) by (simp add: derived_task_def)
  ultimately have "promote_task g t sc = Inr (task_done g t sc sc1)"
    using assms sc1(1) same(2) d
    by (simp add: promote_task_def deps_ok_eq blocks_of_task_get aggregateTaskStatus_eq task_done_def)
  with sc1(2) show ?thesis by blast
qed

lemma task_done_status:
  assumes "deps_ok g (fst sc) t"
  shows "task_status_of (fst (task_done g t sc sc1)) u =
     (if u = t then Some (core_status g (fst sc) t) else task_status_of (fst sc) u)"
  using assms by (simp add: task_done_def task_status_of_def js_map_simps derived_task_def)

lemma task_done_blocks:
  "block_status_of (fst (task_done g t sc sc1)) r = block_status_of (fst sc1) r"
  "same_work s (fst (task_done g t sc sc1)) = same_work s (fst sc1)"
  by (simp_all add: task_done_def block_status_of_def)

lemma tasks_inv_status:
  assumes "tasks_inv g s" and "task_status_of s t = Some st" and "st \<noteq> TPlanned"
  shows "st = core_status g s t" and "deps_ok g s t"
  using assms by (auto simp: tasks_inv_def task_status_of_def)

lemma task_done_deps:
  assumes "tasks_inv g (fst sc)" and "deps_ok g (fst sc) t" and "deps_ok g (fst sc) u"
  shows "deps_ok g (fst (task_done g t sc sc1)) u"
proof (rule deps_ok_mono [OF assms(3)])
  fix u
  assume u: "task_status_of (fst sc) u = Some TImplemented"
  with tasks_inv_status(1) [OF assms(1) u]
  show "task_status_of (fst (task_done g t sc sc1)) u = Some TImplemented"
    by (auto simp: task_done_status [OF assms(2)])
qed

lemma task_done_inv:
  assumes "tasks_inv g (fst sc)" and "deps_ok g (fst sc) t"
    and "promote_post g (set (succs (blocksByTask g) t)) sc sc1"
  shows "tasks_inv g (fst (task_done g t sc sc1))"
proof -
  let ?s = "fst sc" and ?s' = "fst (task_done g t sc sc1)"
  have wk: "same_work ?s ?s'" using assms(3) by (simp add: task_done_blocks promote_post_def)
  have dm: "\<And>u. deps_ok g ?s u \<Longrightarrow> deps_ok g ?s' u" by (rule task_done_deps [OF assms(1,2)])
  have "map_get (rs_tasks ?s') u = (if u = t then Some (derived_task g ?s t) else map_get (rs_tasks ?s) u)" for u
    by (simp add: task_done_def js_map_simps)
  with assms(1,2) dm same_work_derived [OF wk] show ?thesis
    by (auto simp: tasks_inv_def derived_task_def split: if_splits)
qed

lemma task_done_promoted:
  assumes "promote_post g (set (succs (blocksByTask g) t)) sc sc1"
  shows "promoted g (fst (task_done g t sc sc1)) t"
    and "promoted g (fst sc) u \<Longrightarrow> promoted g (fst (task_done g t sc sc1)) u"
proof -
  have st: "block_status_of (fst sc1) r =
      (if r \<in> set (succs (blocksByTask g) t) \<and> can_start g (fst sc) r \<and>
          block_status_of (fst sc) r = Some BPlanned
       then Some BReady else block_status_of (fst sc) r)" for r
    using assms unfolding promote_post_def by blast
  have wk: "same_work (fst sc) (fst (task_done g t sc sc1))"
    using assms by (simp add: task_done_blocks promote_post_def)
  show "promoted g (fst (task_done g t sc sc1)) t"
    unfolding promoted_def can_start_same_work [OF wk] task_done_blocks st by auto
  show "promoted g (fst sc) u \<Longrightarrow> promoted g (fst (task_done g t sc sc1)) u"
    unfolding promoted_def can_start_same_work [OF wk] task_done_blocks st by auto
qed

lemma task_done_unchanged:
  assumes "tasks_inv g (fst sc)" and "deps_ok g (fst sc) t"
    and "promote_post g (set (succs (blocksByTask g) t)) sc sc1"
    and "\<not> snd (task_done g t sc sc1)"
  shows "task_done g t sc sc1 = sc"
proof -
  from assms(4) have fl: "\<not> snd sc1" "task_status_of (fst sc) t = Some (core_status g (fst sc) t)"
    by (simp_all add: task_done_def)
  with assms(3) have sc1: "sc1 = sc" unfolding promote_post_def by blast
  from fl(2) obtain ts where ts: "map_get (rs_tasks (fst sc)) t = Some ts"
    "ts_status ts = core_status g (fst sc) t" by (auto simp: task_status_of_def)
  with assms(1,2) have "ts = derived_task g (fst sc) t"
    by (auto simp: tasks_inv_def derived_task_def)
  with ts have "map_set (rs_tasks (fst sc)) t (derived_task g (fst sc) t) = rs_tasks (fst sc)"
    by (simp add: map_set_same)
  with sc1 fl show ?thesis by (cases sc) (simp add: task_done_def)
qed

lemma task_done_ready_ok:
  assumes "graph_ok g" and "ready_ok g (fst sc)" and "tasks_inv g (fst sc)" and "deps_ok g (fst sc) t"
    and "promote_post g (set (succs (blocksByTask g) t)) sc sc1"
  shows "ready_ok g (fst (task_done g t sc sc1))"
proof -
  let ?s = "fst sc" and ?s' = "fst (task_done g t sc sc1)"
  have wk: "same_work ?s ?s'" using assms(5) by (simp add: task_done_blocks promote_post_def)
  have dm: "\<And>u. deps_ok g ?s u \<Longrightarrow> deps_ok g ?s' u" by (rule task_done_deps [OF assms(3,4)])
  have st: "block_status_of ?s' r =
      (if r \<in> set (succs (blocksByTask g) t) \<and> can_start g ?s r \<and> block_status_of ?s r = Some BPlanned
       then Some BReady else block_status_of ?s r)" for r
    using assms(5) unfolding promote_post_def task_done_blocks by blast
  show ?thesis unfolding ready_ok_def same_work_derived [OF wk] st
  proof (intro ballI impI)
    fix r
    assume r: "r \<in> set (blockRefsInManifestOrder g)"
      and rd: "(if r \<in> set (succs (blocksByTask g) t) \<and> can_start g ?s r \<and>
                   block_status_of ?s r = Some BPlanned
                then Some BReady else block_status_of ?s r) = Some BReady"
    show "deps_ok g ?s' (task_of g r) \<and> bdeps_ok g ?s r"
    proof (cases "block_status_of ?s r = Some BReady")
      case True
      with assms(2) r dm show ?thesis by (auto simp: ready_ok_def)
    next
      case False
      with rd have r': "r \<in> set (succs (blocksByTask g) t)" "can_start g ?s r"
        by (auto split: if_splits)
      have "task_of g r = t" using task_of_blocks(1) [OF assms(1) r'(1)] by (simp add: task_of_def)
      with r'(2) dm assms(4) show ?thesis by (simp add: can_start_def)
    qed
  qed
qed

subsection \<open>One pass\<close>

definition nonplanned :: "runtime_state \<Rightarrow> string \<Rightarrow> bool" where
  "nonplanned s t \<longleftrightarrow> (\<exists>st. task_status_of s t = Some st \<and> st \<noteq> TPlanned)"

definition all_promoted :: "compiled_graph \<Rightarrow> runtime_state \<Rightarrow> string set \<Rightarrow> bool" where
  "all_promoted g s H \<longleftrightarrow> (\<forall>t \<in> H. nonplanned s t \<longrightarrow> promoted g s t)"

text \<open>The part of the invariant that does not mention the flag.\<close>

definition pass_state :: "compiled_graph \<Rightarrow> runtime_state \<Rightarrow> bool" where
  "pass_state g s \<longleftrightarrow> blocks_cover g s \<and> tasks_cover g s \<and> tasks_inv g s \<and> ready_ok g s"

definition pass_inv ::
  "compiled_graph \<Rightarrow> runtime_state \<Rightarrow> string set \<Rightarrow> runtime_state \<times> bool \<Rightarrow> bool" where
  "pass_inv g s0 H sc \<longleftrightarrow>
     same_work s0 (fst sc) \<and> pass_state g (fst sc) \<and> all_promoted g (fst sc) H \<and>
     (\<forall>t. nonplanned s0 t \<longrightarrow> nonplanned (fst sc) t) \<and>
     (\<forall>t. promoted g s0 t \<longrightarrow> promoted g (fst sc) t) \<and>
     (\<not> snd sc \<longrightarrow> fst sc = s0 \<and> (\<forall>t \<in> H. deps_ok g s0 t \<longrightarrow> nonplanned s0 t)) \<and>
     (snd sc \<longrightarrow> all_promoted g s0 (set (taskNodesInManifestOrder g)) \<longrightarrow>
        (\<exists>t \<in> set (taskNodesInManifestOrder g). \<not> nonplanned s0 t \<and> nonplanned (fst sc) t))"

lemma tasks_inv_nonplanned:
  assumes "tasks_inv g s" and "nonplanned s t"
  shows "deps_ok g s t" and "task_status_of s t = Some (core_status g s t)"
  using assms tasks_inv_status [OF assms(1)] by (auto simp: nonplanned_def)

lemma task_done_nonplanned:
  "deps_ok g (fst sc) t \<Longrightarrow>
   nonplanned (fst (task_done g t sc sc1)) u = (u = t \<or> nonplanned (fst sc) u)"
  by (auto simp: nonplanned_def task_done_status)

lemma task_done_pass_state:
  assumes g: "graph_ok g" and t: "t \<in> set (taskNodesInManifestOrder g)" and st: "pass_state g (fst sc)"
    and d: "deps_ok g (fst sc) t" and post: "promote_post g (set (succs (blocksByTask g) t)) sc sc1"
  shows "pass_state g (fst (task_done g t sc sc1))"
proof -
  have wk: "same_work (fst sc) (fst (task_done g t sc sc1))"
    using post by (simp add: task_done_blocks promote_post_def)
  from st have inv: "blocks_cover g (fst sc)" "tasks_cover g (fst sc)" "tasks_inv g (fst sc)"
    "ready_ok g (fst sc)" by (simp_all add: pass_state_def)
  have "tasks_cover g (fst (task_done g t sc sc1))"
    using inv(2) t by (auto simp: tasks_cover_def task_done_def js_map_simps)
  with blocks_cover_same_work [OF wk inv(1)] task_done_inv [OF inv(3) d post]
    task_done_ready_ok [OF g inv(4,3) d post]
  show ?thesis by (simp add: pass_state_def)
qed

lemma pass_inv_step:
  assumes g: "graph_ok g" and t: "t \<in> set (taskNodesInManifestOrder g)" and I: "pass_inv g s0 H sc"
  shows "\<exists>sc'. promote_task g t sc = Inr sc' \<and> pass_inv g s0 (insert t H) sc'"
proof (cases "deps_ok g (fst sc) t")
  case False
  have "tasks_inv g (fst sc)" using I by (simp add: pass_inv_def pass_state_def)
  with False have np: "\<not> nonplanned (fst sc) t" using tasks_inv_nonplanned(1) by blast
  have "all_promoted g (fst sc) (insert t H)"
    using I np by (simp add: pass_inv_def all_promoted_def)
  moreover have "\<not> snd sc \<longrightarrow> \<not> deps_ok g s0 t" using I False by (auto simp: pass_inv_def)
  ultimately have "pass_inv g s0 (insert t H) sc" using I by (simp add: pass_inv_def)
  with promote_task_skip [OF g t False] show ?thesis by blast
next
  case True
  from I have ps: "pass_state g (fst sc)" and wk0: "same_work s0 (fst sc)"
    and ap: "all_promoted g (fst sc) H" and np: "\<And>u. nonplanned s0 u \<Longrightarrow> nonplanned (fst sc) u"
    and pr: "\<And>u. promoted g s0 u \<Longrightarrow> promoted g (fst sc) u"
    and un: "\<not> snd sc \<Longrightarrow> fst sc = s0 \<and> (\<forall>t \<in> H. deps_ok g s0 t \<longrightarrow> nonplanned s0 t)"
    and ch: "snd sc \<Longrightarrow> all_promoted g s0 (set (taskNodesInManifestOrder g)) \<Longrightarrow>
        \<exists>t \<in> set (taskNodesInManifestOrder g). \<not> nonplanned s0 t \<and> nonplanned (fst sc) t"
    unfolding pass_inv_def by blast+
  have ti: "tasks_inv g (fst sc)" and bc: "blocks_cover g (fst sc)" using ps by (simp_all add: pass_state_def)
  from promote_task_go [OF g t True bc] obtain sc1 where
    go: "promote_task g t sc = Inr (task_done g t sc sc1)"
    and post: "promote_post g (set (succs (blocksByTask g) t)) sc sc1" by blast
  let ?sc' = "task_done g t sc sc1"
  note npd = task_done_nonplanned [OF True]
  have wk: "same_work s0 (fst ?sc')"
    using wk0 post same_work_trans by (auto simp: task_done_blocks promote_post_def)
  have ap': "all_promoted g (fst ?sc') (insert t H)"
    using ap task_done_promoted [OF post] by (auto simp: all_promoted_def npd)
  have un': "fst ?sc' = s0 \<and> (\<forall>u \<in> insert t H. deps_ok g s0 u \<longrightarrow> nonplanned s0 u)"
    if "\<not> snd ?sc'"
  proof -
    from task_done_unchanged [OF ti True post that] have eq: "?sc' = sc" .
    with that un have "fst sc = s0" "\<forall>t \<in> H. deps_ok g s0 t \<longrightarrow> nonplanned s0 t" by auto
    moreover have "nonplanned (fst sc) t" using npd [of sc1 t] eq by simp
    ultimately show ?thesis using eq by auto
  qed
  have ch': "\<exists>u \<in> set (taskNodesInManifestOrder g). \<not> nonplanned s0 u \<and> nonplanned (fst ?sc') u"
    if "snd ?sc'" and all: "all_promoted g s0 (set (taskNodesInManifestOrder g))"
  proof (cases "nonplanned s0 t")
    case False
    with t npd show ?thesis by blast
  next
    case nps: True
    with all t pr have pt: "promoted g (fst sc) t" by (auto simp: all_promoted_def)
    from tasks_inv_nonplanned(2) [OF ti np [OF nps]]
    have "task_status_of (fst sc) t = Some (core_status g (fst sc) t)" .
    with that(1) have "snd sc1" by (simp add: task_done_def)
    moreover have "snd sc1 \<longrightarrow> snd sc \<or> (\<exists>r \<in> set (succs (blocksByTask g) t).
        can_start g (fst sc) r \<and> block_status_of (fst sc) r = Some BPlanned)"
      using post unfolding promote_post_def by blast
    ultimately have "snd sc" using pt by (auto simp: promoted_def)
    from ch [OF this all] npd show ?thesis by blast
  qed
  have "\<And>u. promoted g s0 u \<Longrightarrow> promoted g (fst ?sc') u" using pr task_done_promoted(2) [OF post] by blast
  then have "pass_inv g s0 (insert t H) ?sc'"
    unfolding pass_inv_def using wk task_done_pass_state [OF g t ps True post] ap' un' ch' np npd by blast
  with go show ?thesis by blast
qed

lemma pass_total:
  assumes "graph_ok g" and "pass_state g s"
  shows "\<exists>sc. for_res (promote_task g) (taskNodesInManifestOrder g) (s, False) = Inr sc \<and>
           pass_inv g s (set (taskNodesInManifestOrder g)) sc"
proof -
  have "pass_inv g s {} (s, False)" using assms(2) by (simp add: pass_inv_def all_promoted_def)
  then have "\<exists>sc. for_res (promote_task g) (taskNodesInManifestOrder g) (s, False) = Inr sc \<and>
           pass_inv g s ({} \<union> set (taskNodesInManifestOrder g)) sc"
    by (rule for_res_total_progress) (rule pass_inv_step [OF assms(1)])
  then show ?thesis by simp
qed

subsection \<open>All passes\<close>

definition settled :: "compiled_graph \<Rightarrow> runtime_state \<Rightarrow> bool" where
  "settled g s \<longleftrightarrow> pass_state g s \<and>
     (\<forall>t \<in> set (taskNodesInManifestOrder g). deps_ok g s t \<longrightarrow> nonplanned s t) \<and>
     all_promoted g s (set (taskNodesInManifestOrder g))"

definition planned_tasks :: "compiled_graph \<Rightarrow> runtime_state \<Rightarrow> string set" where
  "planned_tasks g s = {t \<in> set (taskNodesInManifestOrder g). \<not> nonplanned s t}"

lemma pass_inv_unchanged:
  assumes "pass_inv g s (set (taskNodesInManifestOrder g)) sc" and "\<not> snd sc"
  shows "fst sc = s" and "settled g s"
  using assms unfolding pass_inv_def settled_def by auto

lemma passes_settle:
  assumes "graph_ok g"
  shows "pass_state g s \<Longrightarrow> all_promoted g s (set (taskNodesInManifestOrder g)) \<Longrightarrow>
     card (planned_tasks g s) \<le> n \<Longrightarrow>
     \<exists>s'. promote_passes n g s = Inr s' \<and> same_work s s' \<and> settled g s'"
proof (induction n arbitrary: s)
  case 0
  then have "planned_tasks g s = {}" by (simp add: planned_tasks_def)
  then have "settled g s" using 0 by (auto simp: settled_def planned_tasks_def)
  then show ?case by auto
next
  case (Suc n)
  from pass_total [OF assms Suc.prems(1)] obtain sc where
    sc: "for_res (promote_task g) (taskNodesInManifestOrder g) (s, False) = Inr sc"
      "pass_inv g s (set (taskNodesInManifestOrder g)) sc" by blast
  show ?case
  proof (cases "snd sc")
    case False
    with sc pass_inv_unchanged [OF sc(2) False] show ?thesis by auto
  next
    case True
    with sc(2) Suc.prems(2) obtain t where t: "t \<in> set (taskNodesInManifestOrder g)"
      "\<not> nonplanned s t" "nonplanned (fst sc) t" unfolding pass_inv_def by blast
    have np: "\<And>u. nonplanned s u \<Longrightarrow> nonplanned (fst sc) u" using sc(2) unfolding pass_inv_def by blast
    have "planned_tasks g (fst sc) \<subset> planned_tasks g s"
      using t np by (auto simp: planned_tasks_def)
    then have "card (planned_tasks g (fst sc)) < card (planned_tasks g s)"
      by (rule psubset_card_mono [rotated]) (simp add: planned_tasks_def)
    then have "card (planned_tasks g (fst sc)) \<le> n" using Suc.prems(3) by linarith
    moreover have "pass_state g (fst sc)" "all_promoted g (fst sc) (set (taskNodesInManifestOrder g))"
      "same_work s (fst sc)" using sc(2) unfolding pass_inv_def by blast+
    ultimately show ?thesis using Suc.IH [of "fst sc"] sc(1) True by (auto intro: same_work_trans)
  qed
qed

lemma promote_passes_total:
  assumes "graph_ok g" and "pass_state g s"
  shows "\<exists>s'. promote_passes (length (taskNodesInManifestOrder g) + 1) g s = Inr s' \<and>
           same_work s s' \<and> settled g s'"
proof -
  from pass_total [OF assms] obtain sc where
    sc: "for_res (promote_task g) (taskNodesInManifestOrder g) (s, False) = Inr sc"
      "pass_inv g s (set (taskNodesInManifestOrder g)) sc" by blast
  show ?thesis
  proof (cases "snd sc")
    case False
    with sc pass_inv_unchanged [OF sc(2) False] show ?thesis by auto
  next
    case True
    have "pass_state g (fst sc)" "all_promoted g (fst sc) (set (taskNodesInManifestOrder g))"
      "same_work s (fst sc)" using sc(2) unfolding pass_inv_def by blast+
    moreover have "card (planned_tasks g (fst sc)) \<le> length (taskNodesInManifestOrder g)"
      using card_mono [of "set (taskNodesInManifestOrder g)" "planned_tasks g (fst sc)"]
        card_length [of "taskNodesInManifestOrder g"] by (auto simp: planned_tasks_def)
    ultimately show ?thesis
      using passes_settle [OF assms(1), of "fst sc" "length (taskNodesInManifestOrder g)"] sc(1) True
      by (auto intro: same_work_trans)
  qed
qed

section \<open>Seeding the blocks\<close>

definition saved_block :: "string list \<Rightarrow> runtime_state \<Rightarrow> string \<Rightarrow> block_state" where
  "saved_block drift s r =
     (case (if r \<in> set drift then None else map_get (rs_blocks s) r) of
        Some b \<Rightarrow> b | None \<Rightarrow> fresh_block BPlanned)"

definition seed_status :: "compiled_graph \<Rightarrow> runtime_state \<Rightarrow> string \<Rightarrow> block_status" where
  "seed_status g next r =
     (if deps_ok g next (task_of g r) \<and> r \<notin> set (succs (blockDependenciesByRef g) r) \<and> bdeps_ok g next r
      then BReady else BPlanned)"

definition seeded :: "compiled_graph \<Rightarrow> runtime_state \<Rightarrow> string \<Rightarrow> block_state \<Rightarrow> block_state" where
  "seeded g next r b = (if waiting b then b\<lparr>bs_status := seed_status g next r\<rparr> else b)"

lemma seed_status_waiting: "seed_status g next r = BPlanned \<or> seed_status g next r = BReady"
  by (simp add: seed_status_def)

lemma seeded_norm: "norm_block b = norm_block b' \<Longrightarrow> seeded g next r b = seeded g next r b'"
proof -
  assume eq: "norm_block b = norm_block b'"
  have "b\<lparr>bs_status := st\<rparr> = (norm_block b)\<lparr>bs_status := st\<rparr>" if "waiting b" for b :: block_state and st
    using that by (simp add: norm_block_def)
  with eq norm_block_eqD(1,3) [OF eq] show ?thesis by (auto simp: seeded_def)
qed

lemma norm_seeded: "norm_block (seeded g next r b) = norm_block b"
  using seed_status_waiting [of g "next" r] by (auto simp: seeded_def norm_block_def waiting_def)

lemma bdeps_ok_waiting:
  assumes "waiting b"
  shows "bdeps_ok g (with_block r b next) r \<longleftrightarrow>
     r \<notin> set (succs (blockDependenciesByRef g) r) \<and> bdeps_ok g next r"
  using assms by (auto simp: bdeps_ok_def list_all_iff block_status_of_def js_map_simps waiting_def)

lemma deps_ok_with_block [simp]: "deps_ok g (with_block r b s) t = deps_ok g s t"
  by (rule deps_ok_tasks) simp

lemma default_seed_status:
  assumes "graph_ok g" and "r \<in> set (blockRefsInManifestOrder g)" and "waiting b"
  shows "defaultBlockStatus r g (with_block r b next) = Inr (seed_status g next r)"
  using assms by (simp add: defaultBlockStatus_eq seed_status_def bdeps_ok_waiting)

lemma seed_block_eq:
  assumes "graph_ok g" and "r \<in> set (blockRefsInManifestOrder g)"
  shows "seed_block g drift s r next = Inr (with_block r (seeded g next r (saved_block drift s r)) next)"
proof -
  have wb: "with_block r b' (with_block r b next) = with_block r b' next" for b b'
    by (simp add: with_block_def map_set_set)
  have fr: "(fresh_block st)\<lparr>bs_status := st'\<rparr> = fresh_block st'" for st st'
    by (simp add: fresh_block_def)
  have w: "waiting (fresh_block (if P then BReady else BPlanned))" for P by (simp add: waiting_def)
  show ?thesis
  proof (cases "if r \<in> set drift then None else map_get (rs_blocks s) r")
    case None
    have d: "defaultBlockStatus r g next =
        Inr (if deps_ok g next (task_of g r) \<and> bdeps_ok g next r then BReady else BPlanned)"
      by (rule defaultBlockStatus_eq [OF assms])
    show ?thesis
      using default_seed_status [OF assms w [of True], of "next"]
        default_seed_status [OF assms w [of False], of "next"] None
      by (simp add: seed_block_def saved_block_def d fr wb seeded_def waiting_def)
  next
    case (Some b)
    then show ?thesis
      using default_seed_status [OF assms, of b "next"]
      by (simp add: seed_block_def saved_block_def wb seeded_def waiting_def)
  qed
qed

lemma seed_blocks_cong:
  assumes "graph_ok g" and "set rs \<subseteq> set (blockRefsInManifestOrder g)"
    and "\<And>r. r \<in> set rs \<Longrightarrow> norm_block (saved_block drift s r) = norm_block (saved_block drift' s' r)"
  shows "for_res (seed_block g drift s) rs n0 = for_res (seed_block g drift' s') rs n0"
  using assms(2,3)
proof (induction rs arbitrary: n0)
  case Nil
  then show ?case by simp
next
  case (Cons r rs)
  then have "seed_block g drift s r n0 = seed_block g drift' s' r n0"
    using seed_block_eq [OF assms(1)] seeded_norm [of "saved_block drift s r" "saved_block drift' s' r"]
    by auto
  with Cons show ?case by (cases "seed_block g drift' s' r n0") auto
qed

text \<open>The state while the references of \<open>H\<close> have been seeded.\<close>

definition seed_inv ::
  "compiled_graph \<Rightarrow> string list \<Rightarrow> runtime_state \<Rightarrow> runtime_state \<Rightarrow> string set \<Rightarrow> runtime_state \<Rightarrow> bool" where
  "seed_inv g drift s n0 H nx \<longleftrightarrow>
     nx\<lparr>rs_blocks := rs_blocks n0\<rparr> = n0 \<and> H \<subseteq> set (blockRefsInManifestOrder g) \<and>
     (\<forall>r. map_has (rs_blocks nx) r \<longleftrightarrow> r \<in> H) \<and>
     (\<forall>r b. map_get (rs_blocks nx) r = Some b \<longrightarrow>
        norm_block b = norm_block (saved_block drift s r) \<and>
        (bs_status b = BReady \<longrightarrow> deps_ok g n0 (task_of g r) \<and>
           (\<forall>d \<in> set (succs (blockDependenciesByRef g) r). bs_status (saved_block drift s d) = BCompleted)))"

lemma completed_norm:
  assumes "norm_block b = norm_block b'" and "bs_status b = BCompleted"
  shows "bs_status b' = BCompleted"
proof -
  have "\<not> waiting b" using assms(2) by (simp add: waiting_def)
  with norm_block_eqD [OF assms(1)] have "b = b'" by simp
  with assms(2) show ?thesis by simp
qed

lemma seed_inv_step:
  assumes g: "graph_ok g" and r: "r \<in> set (blockRefsInManifestOrder g)" and I: "seed_inv g drift s n0 H nx"
  shows "\<exists>nx'. seed_block g drift s r nx = Inr nx' \<and> seed_inv g drift s n0 (insert r H) nx'"
proof -
  let ?b = "seeded g nx r (saved_block drift s r)"
  let ?nx' = "with_block r ?b nx"
  have fr: "nx\<lparr>rs_blocks := rs_blocks n0\<rparr> = n0" using I by (simp add: seed_inv_def)
  from arg_cong [OF this, of rs_tasks] have tasks: "rs_tasks nx = rs_tasks n0" by simp
  have norm: "map_get (rs_blocks nx) d = Some b \<Longrightarrow> norm_block b = norm_block (saved_block drift s d)" for d b
    using I unfolding seed_inv_def by blast
  have comp: "bs_status (saved_block drift s d) = BCompleted" if "block_status_of nx d = Some BCompleted" for d
  proof -
    from that obtain b where b: "map_get (rs_blocks nx) d = Some b" "bs_status b = BCompleted"
      by (auto simp: block_status_of_def)
    from completed_norm [OF norm [OF b(1)] b(2)] show ?thesis .
  qed
  have new: "norm_block ?b = norm_block (saved_block drift s r) \<and>
      (bs_status ?b = BReady \<longrightarrow> deps_ok g n0 (task_of g r) \<and>
         (\<forall>d \<in> set (succs (blockDependenciesByRef g) r). bs_status (saved_block drift s d) = BCompleted))"
  proof (intro conjI impI)
    show "norm_block ?b = norm_block (saved_block drift s r)" by (rule norm_seeded)
    assume "bs_status ?b = BReady"
    then have "deps_ok g nx (task_of g r)" "bdeps_ok g nx r"
      by (auto simp: seeded_def seed_status_def waiting_def split: if_splits)
    then show "deps_ok g n0 (task_of g r)"
      "\<forall>d \<in> set (succs (blockDependenciesByRef g) r). bs_status (saved_block drift s d) = BCompleted"
      using deps_ok_tasks [OF tasks] comp by (auto simp: bdeps_ok_def list_all_iff)
  qed
  have "seed_inv g drift s n0 (insert r H) ?nx'"
    unfolding seed_inv_def
  proof (intro conjI allI impI)
    show "?nx'\<lparr>rs_blocks := rs_blocks n0\<rparr> = n0" using fr by (simp add: with_block_def)
    show "insert r H \<subseteq> set (blockRefsInManifestOrder g)" using I r by (simp add: seed_inv_def)
    show "map_has (rs_blocks ?nx') q \<longleftrightarrow> q \<in> insert r H" for q
      using I by (auto simp: seed_inv_def js_map_simps)
  next
    fix q b
    assume q: "map_get (rs_blocks ?nx') q = Some b"
    have "norm_block b = norm_block (saved_block drift s q) \<and> (bs_status b = BReady \<longrightarrow>
        deps_ok g n0 (task_of g q) \<and>
        (\<forall>d \<in> set (succs (blockDependenciesByRef g) q). bs_status (saved_block drift s d) = BCompleted))"
      using q new I unfolding seed_inv_def
      by (cases "q = r") (simp_all add: js_map_simps)
    then show "norm_block b = norm_block (saved_block drift s q)"
      and "bs_status b = BReady \<Longrightarrow> deps_ok g n0 (task_of g q)"
      and "bs_status b = BReady \<Longrightarrow>
        \<forall>d \<in> set (succs (blockDependenciesByRef g) q). bs_status (saved_block drift s d) = BCompleted"
      by blast+
  qed
  with seed_block_eq [OF g r] show ?thesis by blast
qed

lemma seed_total:
  assumes "graph_ok g" and "rs_blocks n0 = []"
  shows "\<exists>nx. for_res (seed_block g drift s) (blockRefsInManifestOrder g) n0 = Inr nx \<and>
           seed_inv g drift s n0 (set (blockRefsInManifestOrder g)) nx"
proof -
  have "seed_inv g drift s n0 {} n0" using assms(2) by (simp add: seed_inv_def js_map_simps)
  then have "\<exists>nx. for_res (seed_block g drift s) (blockRefsInManifestOrder g) n0 = Inr nx \<and>
           seed_inv g drift s n0 ({} \<union> set (blockRefsInManifestOrder g)) nx"
    by (rule for_res_total_progress) (rule seed_inv_step [OF assms(1)])
  then show ?thesis by simp
qed

section \<open>Aggregating the tasks\<close>

definition agg_inv :: "compiled_graph \<Rightarrow> runtime_state \<Rightarrow> string set \<Rightarrow> runtime_state \<Rightarrow> bool" where
  "agg_inv g sd H nx \<longleftrightarrow>
     nx\<lparr>rs_tasks := rs_tasks sd\<rparr> = sd \<and> (\<forall>t. map_has (rs_tasks nx) t \<longleftrightarrow> t \<in> H) \<and> tasks_inv g nx"

lemma tasks_inv_set:
  assumes "tasks_inv g s"
  shows "tasks_inv g (s\<lparr>rs_tasks := map_set (rs_tasks s) t (derived_task g s t)\<rparr>)"
proof -
  let ?s' = "s\<lparr>rs_tasks := map_set (rs_tasks s) t (derived_task g s t)\<rparr>"
  have wk: "same_work s ?s'" by simp
  have dm: "deps_ok g ?s' u" if "deps_ok g s u" for u
  proof (rule deps_ok_mono [OF that])
    fix v
    assume v: "task_status_of s v = Some TImplemented"
    with tasks_inv_status [OF assms v] show "task_status_of ?s' v = Some TImplemented"
      by (auto simp: task_status_of_def js_map_simps derived_task_def)
  qed
  show ?thesis
    unfolding tasks_inv_def same_work_derived [OF wk]
  proof (intro allI impI)
    fix u ts
    assume "map_get (rs_tasks ?s') u = Some ts"
    then have "(u = t \<and> ts = derived_task g s t) \<or> map_get (rs_tasks s) u = Some ts"
      by (auto simp: js_map_simps split: if_splits)
    moreover have "ts_openFeedbackCount (derived_task g s u) = openFeedbackCount_of u g s \<and>
        (ts_status (derived_task g s u) = TPlanned \<or>
         ts_status (derived_task g s u) = core_status g s u \<and> deps_ok g s u)"
      by (simp add: derived_task_def)
    moreover have "map_get (rs_tasks s) u = Some ts \<Longrightarrow> ts_openFeedbackCount ts = openFeedbackCount_of u g s \<and>
        (ts_status ts = TPlanned \<or> ts_status ts = core_status g s u \<and> deps_ok g s u)"
      using assms unfolding tasks_inv_def by blast
    ultimately show "ts_openFeedbackCount ts = openFeedbackCount_of u g s \<and>
        (ts_status ts = TPlanned \<or> ts_status ts = core_status g s u \<and> deps_ok g ?s' u)"
      using dm by blast
  qed
qed

lemma aggregate_total:
  assumes "graph_ok g" and "rs_tasks sd = []"
  shows "\<exists>nx. for_res (aggregate_task g) (taskNodesInManifestOrder g) sd = Inr nx \<and>
           agg_inv g sd (set (taskNodesInManifestOrder g)) nx"
proof -
  have "agg_inv g sd {} sd" using assms(2) by (simp add: agg_inv_def tasks_inv_def js_map_simps)
  then have "\<exists>nx. for_res (aggregate_task g) (taskNodesInManifestOrder g) sd = Inr nx \<and>
           agg_inv g sd ({} \<union> set (taskNodesInManifestOrder g)) nx"
  proof (rule for_res_total_progress)
    fix t H nx
    assume t: "t \<in> set (taskNodesInManifestOrder g)" and I: "agg_inv g sd H nx"
    let ?nx' = "nx\<lparr>rs_tasks := map_set (rs_tasks nx) t (derived_task g nx t)\<rparr>"
    have "agg_inv g sd (insert t H) ?nx'"
      using I by (auto simp: agg_inv_def js_map_simps intro: tasks_inv_set)
    with t assms(1) show "\<exists>nx'. aggregate_task g t nx = Inr nx' \<and> agg_inv g sd (insert t H) nx'"
      by (auto simp: aggregate_task_def aggregateTaskStatus_eq)
  qed
  then show ?thesis by simp
qed

lemma seeded_pass_state:
  assumes g: "graph_ok g" and sd: "seed_inv g drift s n0 (set (blockRefsInManifestOrder g)) sd"
    and n0: "rs_tasks n0 = []" and ag: "agg_inv g sd (set (taskNodesInManifestOrder g)) ag"
  shows "pass_state g ag" and "same_work sd ag"
proof -
  have ageq: "ag\<lparr>rs_tasks := rs_tasks sd\<rparr> = sd" using ag by (simp add: agg_inv_def)
  from arg_cong [OF this, of rs_blocks] have blocks: "rs_blocks ag = rs_blocks sd" by simp
  have "same_work (ag\<lparr>rs_tasks := rs_tasks sd\<rparr>) ag" by (simp add: same_work_def)
  then show wk: "same_work sd ag" using ageq by simp
  have "blocks_cover g sd" using sd by (simp add: seed_inv_def blocks_cover_def)
  then have bc: "blocks_cover g ag" by (rule blocks_cover_same_work [OF wk])
  have "ready_ok g ag" unfolding ready_ok_def
  proof (intro ballI impI)
    fix r
    assume r: "r \<in> set (blockRefsInManifestOrder g)" and st: "block_status_of ag r = Some BReady"
    from st blocks obtain b where b: "map_get (rs_blocks sd) r = Some b" "bs_status b = BReady"
      by (auto simp: block_status_of_def)
    with sd have d: "deps_ok g n0 (task_of g r)"
      "\<forall>d \<in> set (succs (blockDependenciesByRef g) r). bs_status (saved_block drift s d) = BCompleted"
      unfolding seed_inv_def by blast+
    have "deps_ok g ag (task_of g r)"
      by (rule deps_ok_mono [OF d(1)]) (simp add: task_status_of_def n0 js_map_simps)
    moreover have "block_status_of ag d = Some BCompleted"
      if "d \<in> set (succs (blockDependenciesByRef g) r)" for d
    proof -
      have "d \<in> set (blockRefsInManifestOrder g)" using block_deps_get(2) [OF g r] that by blast
      with sd obtain c where c: "map_get (rs_blocks sd) d = Some c"
        "norm_block c = norm_block (saved_block drift s d)"
        unfolding seed_inv_def map_has_get by blast
      from completed_norm [OF c(2) [symmetric]] d(2) that have "bs_status c = BCompleted" by blast
      with c(1) blocks show ?thesis by (simp add: block_status_of_def)
    qed
    ultimately show "deps_ok g ag (task_of g r) \<and> bdeps_ok g ag r"
      by (simp add: bdeps_ok_def list_all_iff)
  qed
  with bc ag show "pass_state g ag" by (simp add: pass_state_def agg_inv_def tasks_cover_def)
qed

section \<open>What reconciliation produces\<close>

text \<open>The outcome of the loops after the scan, for any set of drifted receipts.\<close>

definition rebuild :: "compiled_graph \<Rightarrow> string list \<Rightarrow> runtime_state \<Rightarrow> runtime_state res" where
  "rebuild g drift s =
     try_bind (for_res (seed_block g drift s) (blockRefsInManifestOrder g) (prune_state g drift s)) (\<lambda>sd.
     try_bind (for_res (aggregate_task g) (taskNodesInManifestOrder g) sd) (\<lambda>ag.
     promote_passes (length (taskNodesInManifestOrder g) + 1) g ag))"

lemma ensure_rebuild:
  "ensureStateForManifest mf s =
     try_bind (compileTaskGraph mf) (\<lambda>g.
     try_bind (for_res (scan_block g) (rs_blocks s) []) (\<lambda>drift. rebuild g drift s))"
  by (simp add: ensureStateForManifest_def rebuild_def)

definition rebuilt :: "compiled_graph \<Rightarrow> string list \<Rightarrow> runtime_state \<Rightarrow> runtime_state \<Rightarrow> bool" where
  "rebuilt g drift s s' \<longleftrightarrow> settled g s' \<and>
     (\<forall>r b. map_get (rs_blocks s') r = Some b \<longrightarrow> norm_block b = norm_block (saved_block drift s r)) \<and>
     s'\<lparr>rs_tasks := [], rs_blocks := []\<rparr> = prune_state g drift s"

lemma rebuild_total:
  assumes g: "graph_ok g"
  shows "\<exists>s'. rebuild g drift s = Inr s' \<and> rebuilt g drift s s'"
proof -
  let ?n0 = "prune_state g drift s"
  have n0: "rs_blocks ?n0 = []" "rs_tasks ?n0 = []" by (simp_all add: prune_state_def Let_def)
  from seed_total [OF g n0(1)] obtain sd where
    sd: "for_res (seed_block g drift s) (blockRefsInManifestOrder g) ?n0 = Inr sd"
      "seed_inv g drift s ?n0 (set (blockRefsInManifestOrder g)) sd" by blast
  have sdeq: "sd\<lparr>rs_blocks := rs_blocks ?n0\<rparr> = ?n0" using sd(2) by (simp add: seed_inv_def)
  from arg_cong [OF this, of rs_tasks] n0 have "rs_tasks sd = []" by simp
  from aggregate_total [OF g this] obtain ag where
    ag: "for_res (aggregate_task g) (taskNodesInManifestOrder g) sd = Inr ag"
      "agg_inv g sd (set (taskNodesInManifestOrder g)) ag" by blast
  note ps = seeded_pass_state [OF g sd(2) n0(2) ag(2)]
  from promote_passes_total [OF g ps(1)] obtain s' where
    s': "promote_passes (length (taskNodesInManifestOrder g) + 1) g ag = Inr s'" "same_work ag s'"
      "settled g s'" by blast
  have wk: "same_work sd s'" by (rule same_work_trans [OF ps(2) s'(2)])
  have "norm_block b = norm_block (saved_block drift s r)" if b: "map_get (rs_blocks s') r = Some b" for r b
  proof -
    from same_work_cases [OF wk, of r] b obtain c where
      "map_get (rs_blocks sd) r = Some c" "norm_block b = norm_block c" by auto
    moreover from this(1) sd(2) have "norm_block c = norm_block (saved_block drift s r)"
      unfolding seed_inv_def by blast
    ultimately show ?thesis by simp
  qed
  moreover have "s'\<lparr>rs_tasks := [], rs_blocks := []\<rparr> = sd\<lparr>rs_tasks := [], rs_blocks := []\<rparr>"
    using wk by (simp add: same_work_def)
  moreover have "sd\<lparr>rs_tasks := [], rs_blocks := []\<rparr> = ?n0"
  proof -
    have "?n0\<lparr>rs_tasks := []\<rparr> = ?n0" by (simp add: prune_state_def Let_def)
    with arg_cong [OF sdeq, of "\<lambda>x. x\<lparr>rs_tasks := []\<rparr>"] n0 show ?thesis by (cases sd) simp
  qed
  ultimately have "rebuilt g drift s s'" using s'(3) by (simp add: rebuilt_def)
  with sd(1) ag(1) s'(1) show ?thesis by (auto simp: rebuild_def)
qed

subsection \<open>The scan for drifted receipts and lost owners\<close>

definition entry_drifts :: "compiled_graph \<Rightarrow> string \<times> block_state \<Rightarrow> bool" where
  "entry_drifts g e \<longleftrightarrow>
     (\<exists>rc mb. bs_remoteOperationReceipt (snd e) = Some rc \<and> map_get (blocksByRef g) (fst e) = Some mb \<and>
        \<not> remoteOperationReceiptMatchesBlockType rc (mb_type mb))"

definition entry_ok :: "compiled_graph \<Rightarrow> string \<times> block_state \<Rightarrow> bool" where
  "entry_ok g e \<longleftrightarrow>
     (bs_remoteOwnership (snd e) \<noteq> None \<longrightarrow> map_has (blocksByRef g) (fst e) \<and>
        (bs_status (snd e) = BInProgress \<or> bs_status (snd e) = BDiverged))"

lemma scan_block_eq:
  "scan_block g e drift =
     (if entry_ok g e then Inr (if entry_drifts g e then with_ref drift (fst e) else drift)
      else if map_has (blocksByRef g) (fst e)
      then Inl (RemoteOwnershipConflict RemoteOwnershipStatusConflict)
      else Inl (RemoteOwnedBlockMissing (fst e)))"
  by (cases e) (auto simp: scan_block_def entry_ok_def entry_drifts_def map_has_get
      assertRemoteBlockOwnershipInvariant_def split: option.splits)

lemma scan_spec:
  assumes "for_res (scan_block g) es d0 = Inr d"
  shows "list_all (entry_ok g) es" and "set d = set d0 \<union> fst ` set (filter (entry_drifts g) es)"
  using assms
proof (induction es arbitrary: d0)
  case Nil
  {
    case 1
    then show ?case by simp
  next
    case 2
    then show ?case by simp
  }
next
  case (Cons e es)
  {
    case 1
    then show ?case using Cons.IH(1) by (auto simp: scan_block_eq [of g e] split: if_splits)
  next
    case 2
    then have "entry_ok g e" "for_res (scan_block g) es
        (if entry_drifts g e then with_ref d0 (fst e) else d0) = Inr d"
      by (auto simp: scan_block_eq [of g e] split: if_splits)
    from Cons.IH(2) [OF this(2)] show ?case by auto
  }
qed

lemma scan_total:
  assumes "list_all (entry_ok g) es"
  shows "\<exists>d. for_res (scan_block g) es d0 = Inr d"
  using assms by (induction es arbitrary: d0) (simp_all add: scan_block_eq)

lemma scan_quiet:
  assumes "list_all (entry_ok g) es" and "\<forall>e \<in> set es. \<not> entry_drifts g e"
  shows "for_res (scan_block g) es d0 = Inr d0"
  using assms by (induction es) (simp_all add: scan_block_eq)

subsection \<open>Distinct keys\<close>

lemma with_block_wf: "map_wf (rs_blocks s) \<Longrightarrow> map_wf (rs_blocks (with_block r b s))"
  by (simp add: jm.wf_put)

lemma promote_task_wf:
  assumes "promote_task g t sc = Inr sc'" and "map_wf (rs_blocks (fst sc))"
  shows "map_wf (rs_blocks (fst sc'))"
proof -
  have b: "promote_block g t r sc = Inr sc' \<Longrightarrow> map_wf (rs_blocks (fst sc)) \<Longrightarrow> map_wf (rs_blocks (fst sc'))"
    for r sc sc'
    by (cases sc) (auto simp: promote_block_def jm.wf_put split: option.splits if_splits elim!: try_bind_InrE)
  have "map_wf (rs_blocks (fst sc1))" if "for_res (promote_block g t) rs sc = Inr sc1" for rs sc1
    using for_res_invariant [OF that, of "\<lambda>sc. map_wf (rs_blocks (fst sc))"] assms(2) b by blast
  with assms show ?thesis
    by (auto simp: promote_task_def Let_def split: if_splits elim!: try_bind_InrE)
qed

lemma promote_passes_wf:
  "promote_passes n g s = Inr s' \<Longrightarrow> map_wf (rs_blocks s) \<Longrightarrow> map_wf (rs_blocks s')"
proof (induction n arbitrary: s)
  case 0
  then show ?case by simp
next
  case (Suc n)
  from Suc.prems(1) obtain sc where
    sc: "for_res (promote_task g) (taskNodesInManifestOrder g) (s, False) = Inr sc"
      "(if \<not> snd sc then Inr (fst sc) else promote_passes n g (fst sc)) = Inr s'"
    by (auto elim: try_bind_InrE)
  have "map_wf (rs_blocks (fst sc))"
    using for_res_invariant [OF sc(1), of "\<lambda>sc. map_wf (rs_blocks (fst sc))"] Suc.prems(2) promote_task_wf
    by auto
  with sc(2) Suc.IH show ?case by (auto split: if_splits)
qed

lemma rebuild_wf:
  assumes g: "graph_ok g" and "rebuild g drift s = Inr s'"
  shows "map_wf (rs_blocks s')"
proof -
  from assms(2) obtain sd ag where
    sd: "for_res (seed_block g drift s) (blockRefsInManifestOrder g) (prune_state g drift s) = Inr sd"
    and ag: "for_res (aggregate_task g) (taskNodesInManifestOrder g) sd = Inr ag"
    and s': "promote_passes (length (taskNodesInManifestOrder g) + 1) g ag = Inr s'"
    by (auto simp: rebuild_def elim!: try_bind_InrE)
  have "map_wf (rs_blocks sd)"
  proof (rule for_res_invariant [OF sd, of "\<lambda>s. map_wf (rs_blocks s)"])
    show "map_wf (rs_blocks (prune_state g drift s))" by (simp add: prune_state_def Let_def jm.wf_emp)
    show "map_wf (rs_blocks n')" if "r \<in> set (blockRefsInManifestOrder g)" "map_wf (rs_blocks n)"
      "seed_block g drift s r n = Inr n'" for r n n'
      using that seed_block_eq [OF g that(1)] with_block_wf by auto
  qed
  moreover have "map_wf (rs_blocks n')" if "map_wf (rs_blocks n)" "aggregate_task g t n = Inr n'" for t n n'
    using that by (auto simp: aggregate_task_def elim!: try_bind_InrE)
  ultimately have "map_wf (rs_blocks ag)"
    using for_res_invariant [OF ag, of "\<lambda>s. map_wf (rs_blocks s)"] by blast
  then show ?thesis by (rule promote_passes_wf [OF s'])
qed

lemma prune_again:
  assumes "s'\<lparr>rs_tasks := [], rs_blocks := []\<rparr> = prune_state g drift s"
  shows "prune_state g [] s' = prune_state g drift s"
proof -
  have f: "rs_currentRefs s' = rs_currentRefs (prune_state g drift s)"
    "rs_currentFeedbackId s' = rs_currentFeedbackId (prune_state g drift s)"
    "rs_currentReviewBlockRef s' = rs_currentReviewBlockRef (prune_state g drift s)"
    "rs_feedback s' = rs_feedback (prune_state g drift s)"
    "rs_lastResetReceipt s' = rs_lastResetReceipt (prune_state g drift s)"
    using assms by (metis runtime_state.select_convs runtime_state.surjective runtime_state.update_convs)+
  show ?thesis unfolding prune_state_def [of g "[]" s'] f
    by (auto simp: prune_state_def Let_def split: option.splits intro!: filter_cong)
qed

lemma saved_block_again:
  assumes "rebuilt g drift s s'" and "r \<in> set (blockRefsInManifestOrder g)"
  shows "norm_block (saved_block [] s' r) = norm_block (saved_block drift s r)"
proof -
  have "blocks_cover g s'" using assms(1) by (simp add: rebuilt_def settled_def pass_state_def)
  with assms(2) obtain b where b: "map_get (rs_blocks s') r = Some b"
    by (auto simp: blocks_cover_def map_has_get)
  then have "norm_block b = norm_block (saved_block drift s r)" using assms(1) by (simp add: rebuilt_def)
  with b show ?thesis by (simp add: saved_block_def)
qed

lemma saved_block_source:
  "saved_block drift s r = fresh_block BPlanned \<or>
   (r \<notin> set drift \<and> map_get (rs_blocks s) r = Some (saved_block drift s r))"
  by (simp add: saved_block_def split: option.splits)

lemma norm_block_remote:
  assumes "norm_block b = norm_block b'"
  shows "bs_remoteOwnership b = bs_remoteOwnership b'"
    and "bs_remoteOperationReceipt b = bs_remoteOperationReceipt b'"
proof -
  have "bs_remoteOwnership (norm_block b) = bs_remoteOwnership b"
    "bs_remoteOperationReceipt (norm_block b) = bs_remoteOperationReceipt b" for b
    by (simp_all add: norm_block_def)
  with assms show "bs_remoteOwnership b = bs_remoteOwnership b'"
    "bs_remoteOperationReceipt b = bs_remoteOperationReceipt b'" by metis+
qed

text \<open>The entries of a rebuilt state pass the scan and do not drift.\<close>

lemma rebuilt_entry:
  assumes scan: "for_res (scan_block g) (rs_blocks s) [] = Inr drift"
    and norm: "norm_block b = norm_block (saved_block drift s r)"
  shows "entry_ok g (r, b)" and "\<not> entry_drifts g (r, b)"
proof -
  note spec = scan_spec [OF scan]
  show "\<not> entry_drifts g (r, b)"
    using saved_block_source [of drift s r]
  proof
    assume fresh: "saved_block drift s r = fresh_block BPlanned"
    show ?thesis using norm_block_remote(2) [OF norm] unfolding fresh
      by (simp add: entry_drifts_def fresh_block_def)
  next
    assume src: "r \<notin> set drift \<and> map_get (rs_blocks s) r = Some (saved_block drift s r)"
    then have "\<not> entry_drifts g (r, saved_block drift s r)"
      using spec(2) map_get_mem by (force simp: image_iff)
    with norm_block_remote(2) [OF norm] show ?thesis by (simp add: entry_drifts_def)
  qed
  show "entry_ok g (r, b)"
    using saved_block_source [of drift s r]
  proof
    assume fresh: "saved_block drift s r = fresh_block BPlanned"
    show ?thesis using norm_block_remote(1) [OF norm] unfolding fresh
      by (simp add: entry_ok_def fresh_block_def)
  next
    assume src: "r \<notin> set drift \<and> map_get (rs_blocks s) r = Some (saved_block drift s r)"
    then have ok: "entry_ok g (r, saved_block drift s r)"
      using spec(1) map_get_mem by (fastforce simp: list_all_iff)
    show ?thesis
    proof (cases "waiting (saved_block drift s r)")
      case True
      with ok have "bs_remoteOwnership (saved_block drift s r) = None"
        by (auto simp: entry_ok_def waiting_def)
      with norm_block_remote(1) [OF norm] show ?thesis by (simp add: entry_ok_def)
    next
      case False
      with norm_block_eqD(3) [OF norm] ok show ?thesis by simp
    qed
  qed
qed

lemma ensure_InrE:
  assumes "ensureStateForManifest mf s = Inr s'"
  obtains g drift where "compileTaskGraph mf = Inr g" and "graph_ok g"
    and "for_res (scan_block g) (rs_blocks s) [] = Inr drift" and "rebuild g drift s = Inr s'"
    and "rebuilt g drift s s'" and "map_wf (rs_blocks s')"
proof -
  from assms obtain g drift where gd: "compileTaskGraph mf = Inr g"
    "for_res (scan_block g) (rs_blocks s) [] = Inr drift" "rebuild g drift s = Inr s'"
    by (auto simp: ensure_rebuild elim!: try_bind_InrE)
  note ok = compile_graph_ok [OF gd(1)]
  from rebuild_total [OF ok, of drift s] gd(3) have "rebuilt g drift s s'" by auto
  with that [OF gd(1) ok gd(2,3)] rebuild_wf [OF ok gd(3)] show thesis by blast
qed

lemma rebuilt_valid:
  assumes "runtimeState_valid s" and "rebuilt g drift s s'" and "map_wf (rs_blocks s')"
  shows "runtimeState_valid s'"
  unfolding runtimeState_valid_iff
proof
  fix e
  assume "e \<in> set (rs_blocks s')"
  moreover obtain r b where "e = (r, b)" by (cases e)
  ultimately have e: "e = (r, b)" "map_get (rs_blocks s') r = Some b"
    using map_wf_get [OF assms(3), of r b] by simp_all
  with assms(2) have norm: "norm_block b = norm_block (saved_block drift s r)" by (simp add: rebuilt_def)
  have sv: "blockState_valid (saved_block drift s r)"
    using saved_block_source [of drift s r] assms(1) runtimeState_valid_get by (auto dest: sym)
  show "blockState_valid (snd e)"
  proof (cases "waiting (saved_block drift s r)")
    case False
    with norm_block_eqD(3) [OF norm] sv e show ?thesis by simp
  next
    case True
    with norm_block_eqD(1) [OF norm] have "waiting b" by simp
    have "blockState_valid (norm_block b)" unfolding norm
      using True sv waiting_block_restatus [OF sv] by (auto simp: norm_block_def waiting_def)
    then have "blockState_valid ((norm_block b)\<lparr>bs_status := bs_status b\<rparr>)"
      using \<open>waiting b\<close> by (intro waiting_block_restatus) (auto simp: norm_block_def waiting_def)
    with \<open>waiting b\<close> e show ?thesis by (simp add: norm_block_def)
  qed
qed

section \<open>The contract of a reconciled state\<close>

text \<open>What the task manager finds after loading: exactly the blocks and tasks of the package, every
  task with the status its blocks and dependencies give it, no block ready too early and none left
  planned although it can start, and no pointer out of the package.\<close>

definition reconciled :: "compiled_graph \<Rightarrow> runtime_state \<Rightarrow> bool" where
  "reconciled g s \<longleftrightarrow>
     map_wf (rs_blocks s) \<and> blocks_cover g s \<and>
     (\<forall>t. map_get (rs_tasks s) t =
        (if t \<in> set (taskNodesInManifestOrder g) then Some (derived_task g s t) else None)) \<and>
     (\<forall>r \<in> set (blockRefsInManifestOrder g).
        (block_status_of s r = Some BReady \<longrightarrow> deps_ok g s (task_of g r) \<and> bdeps_ok g s r) \<and>
        (block_status_of s r = Some BPlanned \<longrightarrow> \<not> (deps_ok g s (task_of g r) \<and> can_start g s r))) \<and>
     set (rs_currentRefs s) \<subseteq> set (blockRefsInManifestOrder g) \<and>
     (\<forall>p \<in> set (rs_feedback s). fb_sourceReviewBlockRef (snd p) \<in> set (blockRefsInManifestOrder g)) \<and>
     (\<forall>f. rs_currentFeedbackId s = Some f \<longrightarrow>
        (\<exists>fb. map_get (rs_feedback s) f = Some fb \<and> isActiveFeedbackStatus (fb_status fb))) \<and>
     (\<forall>r. rs_currentReviewBlockRef s = Some r \<longrightarrow> r \<in> set (blockRefsInManifestOrder g))"

lemma settled_tasks:
  assumes "settled g s"
  shows "map_get (rs_tasks s) t =
     (if t \<in> set (taskNodesInManifestOrder g) then Some (derived_task g s t) else None)"
proof (cases "t \<in> set (taskNodesInManifestOrder g)")
  case True
  from assms have inv: "tasks_inv g s" "tasks_cover g s" and np: "deps_ok g s t \<Longrightarrow> nonplanned s t"
    using True by (auto simp: settled_def pass_state_def)
  from inv(2) True obtain ts where ts: "map_get (rs_tasks s) t = Some ts"
    by (auto simp: tasks_cover_def map_has_get)
  have "ts_status ts = (if deps_ok g s t then core_status g s t else TPlanned)"
  proof (cases "deps_ok g s t")
    case True
    from tasks_inv_nonplanned(2) [OF inv(1) np [OF True]] ts True show ?thesis
      by (simp add: task_status_of_def)
  next
    case False
    with inv(1) ts show ?thesis by (auto simp: tasks_inv_def)
  qed
  moreover have "ts_openFeedbackCount ts = openFeedbackCount_of t g s"
    using inv(1) ts by (auto simp: tasks_inv_def)
  ultimately show ?thesis using ts True by (simp add: derived_task_def)
next
  case False
  then have "\<not> map_has (rs_tasks s) t" using assms by (simp add: settled_def pass_state_def tasks_cover_def)
  with False show ?thesis by (simp add: map_has_get)
qed

lemma rebuilt_fields:
  assumes "rebuilt g drift s s'"
  shows "set (rs_currentRefs s') \<subseteq> set (blockRefsInManifestOrder g)"
    and "\<forall>p \<in> set (rs_feedback s'). fb_sourceReviewBlockRef (snd p) \<in> set (blockRefsInManifestOrder g)"
    and "\<forall>f. rs_currentFeedbackId s' = Some f \<longrightarrow>
        (\<exists>fb. map_get (rs_feedback s') f = Some fb \<and> isActiveFeedbackStatus (fb_status fb))"
    and "\<forall>r. rs_currentReviewBlockRef s' = Some r \<longrightarrow> r \<in> set (blockRefsInManifestOrder g)"
proof -
  have eq: "s'\<lparr>rs_tasks := [], rs_blocks := []\<rparr> = prune_state g drift s"
    using assms by (simp add: rebuilt_def)
  have f: "rs_currentRefs s' = rs_currentRefs (prune_state g drift s)"
    "rs_feedback s' = rs_feedback (prune_state g drift s)"
    "rs_currentFeedbackId s' = rs_currentFeedbackId (prune_state g drift s)"
    "rs_currentReviewBlockRef s' = rs_currentReviewBlockRef (prune_state g drift s)"
    unfolding eq [symmetric] by simp_all
  show "set (rs_currentRefs s') \<subseteq> set (blockRefsInManifestOrder g)"
    and "\<forall>p \<in> set (rs_feedback s'). fb_sourceReviewBlockRef (snd p) \<in> set (blockRefsInManifestOrder g)"
    and "\<forall>f. rs_currentFeedbackId s' = Some f \<longrightarrow>
        (\<exists>fb. map_get (rs_feedback s') f = Some fb \<and> isActiveFeedbackStatus (fb_status fb))"
    and "\<forall>r. rs_currentReviewBlockRef s' = Some r \<longrightarrow> r \<in> set (blockRefsInManifestOrder g)"
    unfolding f by (auto simp: prune_state_def Let_def split: option.splits if_splits)
qed

lemma rebuilt_reconciled:
  assumes g: "graph_ok g" and rb: "rebuilt g drift s s'" and wf: "map_wf (rs_blocks s')"
  shows "reconciled g s'"
proof -
  from rb have st: "settled g s'" by (simp add: rebuilt_def)
  have ready: "deps_ok g s' (task_of g r) \<and> bdeps_ok g s' r"
    if "r \<in> set (blockRefsInManifestOrder g)" "block_status_of s' r = Some BReady" for r
    using that st by (simp add: settled_def pass_state_def ready_ok_def)
  have planned: "\<not> (deps_ok g s' (task_of g r) \<and> can_start g s' r)"
    if r: "r \<in> set (blockRefsInManifestOrder g)" and p: "block_status_of s' r = Some BPlanned" for r
  proof
    assume a: "deps_ok g s' (task_of g r) \<and> can_start g s' r"
    note t = block_of_get(3,4) [OF g r]
    from a t st have "promoted g s' (task_of g r)" by (auto simp: settled_def all_promoted_def)
    with t(2) a p show False by (auto simp: promoted_def)
  qed
  show ?thesis
    unfolding reconciled_def
    using wf settled_tasks [OF st] ready planned rebuilt_fields [OF rb] st
    by (simp add: settled_def pass_state_def)
qed

lemma ensure_reconciled:
  assumes "ensureStateForManifest mf s = Inr s'" and "compileTaskGraph mf = Inr g"
  shows "reconciled g s'"
  using assms(1)
proof (rule ensure_InrE)
  fix g' drift
  assume "compileTaskGraph mf = Inr g'" "graph_ok g'" "rebuilt g' drift s s'" "map_wf (rs_blocks s')"
  with assms(2) rebuilt_reconciled [of g' drift s s'] show ?thesis by simp
qed

lemma ensure_valid:
  assumes "ensureStateForManifest mf s = Inr s'" and "runtimeState_valid s"
  shows "runtimeState_valid s'"
  using assms(1)
proof (rule ensure_InrE)
  fix g drift
  assume "rebuilt g drift s s'" "map_wf (rs_blocks s')"
  with rebuilt_valid [OF assms(2)] show ?thesis by blast
qed

text \<open>Reconciliation throws only for a remote owned block that left the manifest or whose status the
  schema would not accept.\<close>

lemma ensure_total:
  assumes v: "runtimeState_valid s" and c: "compileTaskGraph mf = Inr g"
    and own: "\<forall>(r, b) \<in> set (rs_blocks s). bs_remoteOwnership b \<noteq> None \<longrightarrow> map_has (blocksByRef g) r"
  shows "\<exists>s'. ensureStateForManifest mf s = Inr s'"
proof -
  have "entry_ok g e" if e: "e \<in> set (rs_blocks s)" for e
  proof -
    have b: "blockState_valid (snd e)" using v e by (simp add: runtimeState_valid_iff)
    have "bs_remoteOwnership (snd e) \<noteq> None \<longrightarrow> map_has (blocksByRef g) (fst e)"
      using own e by (cases e) auto
    with owned_no_receipt(2) [OF b] show ?thesis by (auto simp: entry_ok_def)
  qed
  then obtain drift where d: "for_res (scan_block g) (rs_blocks s) [] = Inr drift"
    using scan_total [of g "rs_blocks s" "[]"] by (auto simp: list_all_iff)
  from rebuild_total [OF compile_graph_ok [OF c], of drift s] c d show ?thesis
    by (auto simp: ensure_rebuild)
qed

text \<open>What reconciliation keeps of one block: everything but the choice between planned and ready.\<close>

lemma ensure_block:
  assumes "ensureStateForManifest mf s = Inr s'" and "compileTaskGraph mf = Inr g"
    and "map_wf (rs_blocks s)" and "map_get (rs_blocks s) r = Some b"
    and "map_get (blocksByRef g) r = Some mb"
    and "\<forall>rc. bs_remoteOperationReceipt b = Some rc \<longrightarrow>
           remoteOperationReceiptMatchesBlockType rc (mb_type mb)"
  shows "\<exists>b'. map_get (rs_blocks s') r = Some b' \<and> norm_block b' = norm_block b"
  using assms(1)
proof (rule ensure_InrE)
  fix g' drift
  assume c: "compileTaskGraph mf = Inr g'" and g: "graph_ok g'"
    and scan: "for_res (scan_block g') (rs_blocks s) [] = Inr drift" and rb: "rebuilt g' drift s s'"
  from c assms(2) have eq: "g' = g" by simp
  have "\<not> entry_drifts g (r, b)" using assms(5,6) by (auto simp: entry_drifts_def)
  then have "r \<notin> set drift"
    using scan_spec(2) [OF scan] map_wf_get [OF assms(3)] assms(4) eq by (auto simp: image_iff)
  then have sb: "saved_block drift s r = b" using assms(4) by (simp add: saved_block_def)
  have "map_has (blocksByRef g) r" using assms(5) by (simp add: map_has_get)
  then have "r \<in> set (blockRefsInManifestOrder g)" using graph_wf_doms(2) [of g r] g eq by simp
  moreover have "blocks_cover g s'" using rb eq by (simp add: rebuilt_def settled_def pass_state_def)
  ultimately obtain b' where b': "map_get (rs_blocks s') r = Some b'"
    by (auto simp: blocks_cover_def map_has_get)
  then have "norm_block b' = norm_block b" using rb sb by (auto simp: rebuilt_def)
  with b' show ?thesis by blast
qed

lemma ensure_keeps_started:
  assumes "ensureStateForManifest mf s = Inr s'" and "compileTaskGraph mf = Inr g"
    and "map_wf (rs_blocks s)" and "map_get (rs_blocks s) r = Some b"
    and "map_get (blocksByRef g) r = Some mb"
    and "bs_status b \<noteq> BPlanned" and "bs_status b \<noteq> BReady"
    and "\<forall>rc. bs_remoteOperationReceipt b = Some rc \<longrightarrow>
           remoteOperationReceiptMatchesBlockType rc (mb_type mb)"
  shows "map_get (rs_blocks s') r = Some b"
proof -
  from ensure_block [OF assms(1-5,8)] obtain b' where
    b': "map_get (rs_blocks s') r = Some b'" "norm_block b' = norm_block b" by blast
  with norm_block_eqD(3) [OF b'(2)] assms(6,7) show ?thesis by (simp add: waiting_def)
qed

text \<open>A block that starts to run in a reconciled state is not a drifted one.\<close>

definition receipts_match :: "compiled_graph \<Rightarrow> runtime_state \<Rightarrow> bool" where
  "receipts_match g s \<longleftrightarrow> (\<forall>(r, b) \<in> set (rs_blocks s). \<not> entry_drifts g (r, b))"

lemma ensure_receipts_match:
  assumes "ensureStateForManifest mf s = Inr s'" and "compileTaskGraph mf = Inr g"
  shows "receipts_match g s'" and "\<forall>e \<in> set (rs_blocks s'). entry_ok g e"
proof -
  have "(\<not> entry_drifts g (r, b)) \<and> entry_ok g (r, b)" if rb: "(r, b) \<in> set (rs_blocks s')" for r b
    using assms(1)
  proof (rule ensure_InrE)
    fix g' drift
    assume c: "compileTaskGraph mf = Inr g'" and scan: "for_res (scan_block g') (rs_blocks s) [] = Inr drift"
      and rbt: "rebuilt g' drift s s'" and wf: "map_wf (rs_blocks s')"
    from rb map_wf_get [OF wf] have "map_get (rs_blocks s') r = Some b" by blast
    with rbt have "norm_block b = norm_block (saved_block drift s r)" by (simp add: rebuilt_def)
    from rebuilt_entry [OF scan this] c assms(2) show ?thesis by simp
  qed
  then show "receipts_match g s'" and "\<forall>e \<in> set (rs_blocks s'). entry_ok g e"
    by (auto simp: receipts_match_def)
qed

text \<open>The pointers of a state that stays inside the package.\<close>

lemma ensure_pointers:
  assumes e: "ensureStateForManifest mf s = Inr s'" and c: "compileTaskGraph mf = Inr g"
    and rm: "receipts_match g s" and refs: "set (rs_currentRefs s) \<subseteq> set (blockRefsInManifestOrder g)"
    and fb: "\<forall>p \<in> set (rs_feedback s). fb_sourceReviewBlockRef (snd p) \<in> set (blockRefsInManifestOrder g)"
  shows "rs_currentRefs s' = rs_currentRefs s" and "rs_feedback s' = rs_feedback s"
proof -
  have "rs_currentRefs s' = rs_currentRefs s \<and> rs_feedback s' = rs_feedback s"
    using e
  proof (rule ensure_InrE)
    fix g' drift
    assume c': "compileTaskGraph mf = Inr g'" and scan: "for_res (scan_block g') (rs_blocks s) [] = Inr drift"
      and rb: "rebuilt g' drift s s'"
    from c' c have eq: "g' = g" by simp
    have "filter (entry_drifts g) (rs_blocks s) = []"
      using rm by (auto simp: receipts_match_def filter_empty_conv)
    then have "drift = []" using scan_spec(2) [OF scan] eq by simp
    moreover have "s'\<lparr>rs_tasks := [], rs_blocks := []\<rparr> = prune_state g drift s"
      using rb eq by (simp add: rebuilt_def)
    then have "rs_currentRefs s' = rs_currentRefs (prune_state g drift s)"
      "rs_feedback s' = rs_feedback (prune_state g drift s)"
      by (metis runtime_state.select_convs runtime_state.surjective runtime_state.update_convs)+
    ultimately have f: "rs_currentRefs s' = filter (\<lambda>r. r \<in> set (blockRefsInManifestOrder g)) (rs_currentRefs s)"
      "rs_feedback s' = filter (\<lambda>p. fb_sourceReviewBlockRef (snd p) \<in> set (blockRefsInManifestOrder g)) (rs_feedback s)"
      by (simp_all add: prune_state_def Let_def)
    show ?thesis unfolding f using refs fb by (auto intro!: filter_True)
  qed
  then show "rs_currentRefs s' = rs_currentRefs s" and "rs_feedback s' = rs_feedback s" by simp_all
qed

lemma ensure_idem:
  assumes "ensureStateForManifest mf s = Inr s'"
  shows "ensureStateForManifest mf s' = Inr s'"
  using assms
proof (rule ensure_InrE)
  fix g drift
  assume c: "compileTaskGraph mf = Inr g" and g: "graph_ok g"
    and scan: "for_res (scan_block g) (rs_blocks s) [] = Inr drift"
    and rb: "rebuild g drift s = Inr s'" "rebuilt g drift s s'" and wf: "map_wf (rs_blocks s')"
  have entry: "entry_ok g e \<and> \<not> entry_drifts g e" if "e \<in> set (rs_blocks s')" for e
  proof -
    obtain r b where e: "e = (r, b)" by (cases e)
    with that map_wf_get [OF wf, of r b] rb(2) have "norm_block b = norm_block (saved_block drift s r)"
      by (simp add: rebuilt_def)
    with rebuilt_entry [OF scan this] e show ?thesis by simp
  qed
  then have scan': "for_res (scan_block g) (rs_blocks s') [] = Inr []"
    by (intro scan_quiet) (auto simp: list_all_iff)
  have prune: "prune_state g [] s' = prune_state g drift s"
    using rb(2) by (intro prune_again) (simp add: rebuilt_def)
  have "for_res (seed_block g [] s') (blockRefsInManifestOrder g) (prune_state g drift s) =
      for_res (seed_block g drift s) (blockRefsInManifestOrder g) (prune_state g drift s)"
    by (rule seed_blocks_cong [OF g subset_refl]) (rule saved_block_again [OF rb(2)])
  then have "rebuild g [] s' = rebuild g drift s" by (simp add: rebuild_def prune)
  with rb(1) c scan' show ?thesis by (simp add: ensure_rebuild)
qed

section \<open>Properties of reconciliation\<close>

text \<open>C10: Loading a plan yields a consistent state. Whatever state file was saved, when
  \<^verbatim>\<open>ensureStateForManifest\<close> returns, the result has exactly the blocks and tasks of the
  manifest, every task has the status its blocks, feedback and dependencies determine (the bounded
  promotion passes have reached the fixed point, in any manifest order), a block is ready only with
  its task and block dependencies satisfied, no startable block is left planned, and the pointers to
  current work stay inside the package.\<close>

theorem reconcile_reaches_contract:
  assumes "ensureStateForManifest mf s = Inr s'" and "compileTaskGraph mf = Inr g"
  shows "reconciled g s'"
  by (rule ensure_reconciled [OF assms])

definition sample_state :: runtime_state where
  "sample_state = createEmptyState\<lparr>rs_blocks :=
     [(''T1#B1'', (fresh_block BCompleted)\<lparr>bs_lastRunId := Some ''RUN-1''\<rparr>),
      (''T1#R1'', (fresh_block BCompleted)\<lparr>bs_completionReason := Some PassedReason\<rparr>),
      (''OLD#B1'', fresh_block BReady)]\<rparr>"

lemma sample_reconciles:
  "res_holds (\<lambda>s'. block_status_of s' ''T2#B1'' = Some BReady \<and>
       task_status_of s' ''T1'' = Some TImplemented \<and> \<not> map_has (rs_blocks s') ''OLD#B1'')
     (ensureStateForManifest sample_manifest sample_state)"
  by code_simp

lemma reconcile_reaches_contract_witness:
  "\<exists>g s'. compileTaskGraph sample_manifest = Inr g \<and>
     ensureStateForManifest sample_manifest sample_state = Inr s' \<and> reconciled g s' \<and>
     block_status_of s' ''T2#B1'' = Some BReady"
proof -
  from sample_compiles obtain g where g: "compileTaskGraph sample_manifest = Inr g" by blast
  from sample_reconciles obtain s' where
    s': "ensureStateForManifest sample_manifest sample_state = Inr s'"
      "block_status_of s' ''T2#B1'' = Some BReady" by (auto simp only: res_holds_iff)
  from reconcile_reaches_contract [OF s'(1) g] g s' show ?thesis by blast
qed

text \<open>Reconciling is idempotent: a state that \<^verbatim>\<open>ensureStateForManifest\<close> returned is
  returned unchanged when it is reconciled against the same manifest again (every command of the task
  manager reconciles on load, so repeated loads do not move the plan).\<close>

theorem reconcile_idempotent:
  assumes "ensureStateForManifest mf s = Inr s'"
  shows "ensureStateForManifest mf s' = Inr s'"
  by (rule ensure_idem [OF assms])

lemma reconcile_idempotent_witness:
  "\<exists>s'. ensureStateForManifest sample_manifest sample_state = Inr s' \<and> s' \<noteq> sample_state \<and>
     ensureStateForManifest sample_manifest s' = Inr s'"
proof -
  from sample_reconciles obtain s' where
    s': "ensureStateForManifest sample_manifest sample_state = Inr s'"
      "\<not> map_has (rs_blocks s') ''OLD#B1''" by (auto simp only: res_holds_iff)
  have "map_has (rs_blocks sample_state) ''OLD#B1''" by code_simp
  with s'(2) have "s' \<noteq> sample_state" by auto
  with reconcile_idempotent [OF s'(1)] s'(1) show ?thesis by blast
qed





end
