(* ===== verification/Selectors.thy ===== *)
theory Selectors
  imports Runtime_State
begin

text \<open>
  The queries of the task manager over a compiled graph and a reconciled state:
  \<^verbatim>\<open>packages/runtime/src/taskManager/selectors.ts\<close>, with the claim types of
  \<^verbatim>\<open>types/taskManager.ts\<close>.

  A message that a claim returns is a constructor of \<open>claim_reason\<close>, one per message of the source.
  Two things are arguments: the digest of the work material (SHA-256 over its JSON text in the
  source) and the random submission attempt identity a claim draws. The lemmas at the end show that
  on a reconciled state no query throws and give each its meaning without the index lookups; later
  components use these equations.
\<close>

section \<open>Claim results\<close>

datatype claim_scope = ProjectScope | TaskScope string | BlockScope string

datatype claim_mode = Claimed | Current | FeedbackResolved | Dispatched

datatype claim_reason =
    NoSuchTask string
  | NoSuchBlock string
  | ProjectBlocked string
  | ProjectBlockersIncomplete
  | StoredReason string
  | BlockIsBlocked string
  | MultipleOpenFeedback
  | ReviewOutsideType
  | ReviewOutsideScope
  | BlockOutsideType
  | BlockOutsideScope
  | MissingClaimIdentity string
  | ParallelDisabled
  | DispatchNeedsImplementation
  | NotDispatchable string

datatype none_reason = NoClaimableBlocks | NoClaimableBlocksInScope | NoParallelBlocks

record block_claim =
  bc_ref :: string
  bc_taskId :: string
  bc_blockId :: string
  bc_blockType :: block_type
  bc_effectiveExecutor :: string
  bc_submissionAttemptId :: "string option"
  bc_reason :: "claim_mode option"
  bc_requestedParallel :: bool
  bc_parallelFallback :: bool
  bc_nextParallelClaimable :: "string list option"

datatype claim_result =
    BlockClaim block_claim
  | FeedbackClaim (fc_feedbackId: string) (fc_sourceReviewBlockRef: string) (fc_taskId: string)
      (fc_content: string) (fc_effectiveExecutor: string)
  | BatchClaim (bt_refs: "string list") (bt_executors: "(string \<times> string) list")
      (bt_attempts: "(string \<times> string) list option") (bt_atCapacity: bool)
  | NoneClaim "none_reason option" "string list option"
  | BlockedClaim "string option" claim_reason

section \<open>Lookups\<close>

definition getTask :: "compiled_graph \<Rightarrow> string \<Rightarrow> manifest_node res" where
  "getTask g taskId =
     (case map_get (tasksById g) taskId of None \<Rightarrow> Inl (TaskDoesNotExist taskId) | Some t \<Rightarrow> Inr t)"

definition getBlock :: "compiled_graph \<Rightarrow> string \<Rightarrow> manifest_block res" where
  "getBlock g ref =
     (case map_get (blocksByRef g) ref of None \<Rightarrow> Inl (BlockDoesNotExist ref) | Some b \<Rightarrow> Inr b)"

definition requireTaskState :: "runtime_state \<Rightarrow> string \<Rightarrow> task_state res" where
  "requireTaskState s taskId =
     (case map_get (rs_tasks s) taskId of None \<Rightarrow> Inl (MissingTaskState taskId) | Some t \<Rightarrow> Inr t)"

definition requireBlockState :: "runtime_state \<Rightarrow> string \<Rightarrow> block_state res" where
  "requireBlockState s ref =
     (case map_get (rs_blocks s) ref of None \<Rightarrow> Inl (MissingBlockState ref) | Some b \<Rightarrow> Inr b)"

text \<open>A map lookup whose result is tested by truthiness: the empty string counts as absent.\<close>

definition truthy :: "string option \<Rightarrow> string option" where
  "truthy v = (case v of None \<Rightarrow> None | Some x \<Rightarrow> if x = [] then None else Some x)"

definition taskDependenciesSatisfied :: "compiled_graph \<Rightarrow> runtime_state \<Rightarrow> string \<Rightarrow> bool res" where
  "taskDependenciesSatisfied g s taskId =
     try_bind (requireMapValue (taskDependenciesByTask g) taskId ''taskDependenciesByTask'')
       (every_res (\<lambda>dependency.
          try_bind (requireTaskState s dependency) (\<lambda>t. Inr (ts_status t = TImplemented))))"

definition blockDependenciesCompleted :: "compiled_graph \<Rightarrow> runtime_state \<Rightarrow> string \<Rightarrow> bool res" where
  "blockDependenciesCompleted g s ref =
     try_bind (requireMapValue (blockDependenciesByRef g) ref ''blockDependenciesByRef'')
       (every_res (\<lambda>dependency.
          try_bind (requireBlockState s dependency) (\<lambda>b. Inr (bs_status b = BCompleted))))"

definition activeOpenFeedback :: "runtime_state \<Rightarrow> (string \<times> feedback_envelope) list" where
  "activeOpenFeedback s = filter (\<lambda>p. isActiveFeedbackStatus (fb_status (snd p))) (rs_feedback s)"

definition requiredImplementationRefs :: "compiled_graph \<Rightarrow> string \<Rightarrow> string list res" where
  "requiredImplementationRefs g taskId =
     try_bind (requireMapValue (blocksByTask g) taskId ''blocksByTask'')
       (filter_res (\<lambda>ref. try_bind (requireMapValue (blocksByRef g) ref ''blocksByRef'')
          (\<lambda>b. Inr (mb_type b = Implementation))))"

definition requiredReviewRefs :: "compiled_graph \<Rightarrow> string \<Rightarrow> string list res" where
  "requiredReviewRefs g taskId =
     try_bind (requireMapValue (blocksByTask g) taskId ''blocksByTask'')
       (filter_res (\<lambda>ref. try_bind (requireMapValue (blocksByRef g) ref ''blocksByRef'')
          (\<lambda>b. Inr (mb_type b = Review \<and> rp_required (mb_review b)))))"

definition effectiveBlockExecutor :: "compiled_graph \<Rightarrow> string \<Rightarrow> string option \<Rightarrow> string res" where
  "effectiveBlockExecutor g ref defaultExecutor =
     try_bind (getBlock g ref) (\<lambda>block.
     try_bind (requireMapValue (blockTaskByRef g) ref ''blockTaskByRef'') (\<lambda>taskId.
     try_bind (requireMapValue (tasksById g) taskId ''tasksById'') (\<lambda>task.
     Inr (case mb_executor block of
            Some e \<Rightarrow> e
          | None \<Rightarrow> (case mn_executor task of
                      Some e \<Rightarrow> e
                    | None \<Rightarrow> (case defaultExecutor of Some e \<Rightarrow> e | None \<Rightarrow> ''default''))))))"

definition effectiveFeedbackExecutor :: "compiled_graph \<Rightarrow> string \<Rightarrow> string option \<Rightarrow> string res" where
  "effectiveFeedbackExecutor g sourceReviewBlockRef defaultExecutor =
     (case truthy (map_get (blockTaskByRef g) sourceReviewBlockRef) of
        None \<Rightarrow> effectiveBlockExecutor g sourceReviewBlockRef defaultExecutor
      | Some taskId \<Rightarrow>
          try_bind (requiredImplementationRefs g taskId) (\<lambda>refs.
          try_bind (map_res (\<lambda>ref. effectiveBlockExecutor g ref defaultExecutor) refs) (\<lambda>executors.
          case js_dedup executors of
            [e] \<Rightarrow> Inr e
          | _ \<Rightarrow> effectiveBlockExecutor g sourceReviewBlockRef defaultExecutor)))"

definition claimResultForBlock ::
  "string \<Rightarrow> compiled_graph \<Rightarrow> claim_mode \<Rightarrow> string option \<Rightarrow> block_claim res" where
  "claimResultForBlock ref g reason defaultExecutor =
     try_bind (parseBlockRef ref) (\<lambda>p.
     try_bind (getBlock g ref) (\<lambda>block.
     try_bind (effectiveBlockExecutor g ref defaultExecutor) (\<lambda>executor.
     Inr \<lparr>bc_ref = ref, bc_taskId = fst p, bc_blockId = snd p, bc_blockType = mb_type block,
          bc_effectiveExecutor = executor, bc_submissionAttemptId = None, bc_reason = Some reason,
          bc_requestedParallel = False, bc_parallelFallback = False,
          bc_nextParallelClaimable = None\<rparr>)))"

definition normalizeClaimScope :: "claim_scope option \<Rightarrow> claim_scope" where
  "normalizeClaimScope scope = (case scope of None \<Rightarrow> ProjectScope | Some sc \<Rightarrow> sc)"

fun validateClaimScope :: "claim_scope \<Rightarrow> compiled_graph \<Rightarrow> claim_result option" where
  "validateClaimScope (TaskScope taskId) g =
     (if map_has (tasksById g) taskId then None else Some (BlockedClaim None (NoSuchTask taskId)))"
| "validateClaimScope (BlockScope ref) g =
     (if map_has (blocksByRef g) ref then None else Some (BlockedClaim None (NoSuchBlock ref)))"
| "validateClaimScope ProjectScope g = None"

fun blockInScope :: "string \<Rightarrow> compiled_graph \<Rightarrow> claim_scope \<Rightarrow> bool" where
  "blockInScope ref g ProjectScope = True"
| "blockInScope ref g (BlockScope r) = (ref = r)"
| "blockInScope ref g (TaskScope taskId) = (map_get (blockTaskByRef g) ref = Some taskId)"

definition feedbackInScope :: "feedback_envelope \<Rightarrow> compiled_graph \<Rightarrow> claim_scope \<Rightarrow> bool" where
  "feedbackInScope fb g scope = blockInScope (fb_sourceReviewBlockRef fb) g scope"

section \<open>Review readiness\<close>

record work_material =
  wm_runs :: "(string \<times> string option) list"
  wm_feedback :: "(string \<times> string option) list"

type_synonym digest = "work_material \<Rightarrow> string"

definition computeWorkRevision ::
  "digest \<Rightarrow> compiled_graph \<Rightarrow> runtime_state \<Rightarrow> string \<Rightarrow> string res" where
  "computeWorkRevision sha g s reviewBlockRef =
     try_bind (requireMapValue (blockTaskByRef g) reviewBlockRef ''blockTaskByRef'') (\<lambda>taskId.
     try_bind (requiredImplementationRefs g taskId) (\<lambda>refs.
     try_bind (map_res (\<lambda>ref. try_bind (requireBlockState s ref) (\<lambda>b. Inr (ref, bs_lastRunId b))) refs)
       (\<lambda>runs.
     Inr (''rev-'' @ take 12 (sha
       \<lparr>wm_runs = runs,
        wm_feedback = map (\<lambda>p. (fst p, fb_latestSubmissionId (snd p)))
          (filter (\<lambda>p. fb_sourceReviewBlockRef (snd p) = reviewBlockRef) (rs_feedback s))\<rparr>)))))"

definition canClaimReviewBlock ::
  "digest \<Rightarrow> compiled_graph \<Rightarrow> runtime_state \<Rightarrow> string \<Rightarrow> bool res" where
  "canClaimReviewBlock sha g s ref =
     (case map_get (blocksByRef g) ref of
        None \<Rightarrow> Inr False
      | Some block \<Rightarrow>
          if mb_type block \<noteq> Review \<or> \<not> rp_required (mb_review block) then Inr False
          else case truthy (map_get (blockTaskByRef g) ref) of
            None \<Rightarrow> Inr False
          | Some taskId \<Rightarrow>
              if list_ex (\<lambda>p. map_get (blockTaskByRef g) (fb_sourceReviewBlockRef (snd p)) = Some taskId)
                   (activeOpenFeedback s)
              then Inr False
              else try_bind (requiredImplementationRefs g taskId) (\<lambda>refs.
                   try_bind (every_res (\<lambda>r. try_bind (requireBlockState s r)
                               (\<lambda>b. Inr (bs_status b = BCompleted))) refs) (\<lambda>complete.
                   if \<not> complete then Inr False
                   else try_bind (computeWorkRevision sha g s ref) (\<lambda>workRevision.
                        try_bind (requireBlockState s ref) (\<lambda>b.
                        Inr (bs_passedWorkRevision b \<noteq> Some workRevision))))))"

section \<open>Conflicts and dispatch\<close>

definition refsConflict :: "compiled_graph \<Rightarrow> string \<Rightarrow> string \<Rightarrow> bool res" where
  "refsConflict g leftRef rightRef =
     (if leftRef = rightRef then Inr False
      else case (truthy (map_get (blockTaskByRef g) leftRef), truthy (map_get (blockTaskByRef g) rightRef)) of
             (Some l, Some r) \<Rightarrow>
               if l = r then Inr True
               else try_bind (taskReachable g l r) (\<lambda>lr.
                    if lr then Inr True else taskReachable g r l)
           | _ \<Rightarrow> Inr True)"

definition inProgressBlockRefs :: "compiled_graph \<Rightarrow> runtime_state \<Rightarrow> string list res" where
  "inProgressBlockRefs g s =
     filter_res (\<lambda>ref. try_bind (requireBlockState s ref)
       (\<lambda>b. Inr (bs_status b = BInProgress \<and> map_has (blocksByRef g) ref))) (rs_currentRefs s)"

definition canDispatchImplementationBlock ::
  "compiled_graph \<Rightarrow> runtime_state \<Rightarrow> string \<Rightarrow> nat \<Rightarrow> string list \<Rightarrow> bool res" where
  "canDispatchImplementationBlock g s ref maxConcurrent selectedRefs =
     (case (truthy (map_get (blockTaskByRef g) ref), map_get (blocksByRef g) ref) of
        (Some taskId, Some block) \<Rightarrow>
          if mb_type block \<noteq> Implementation then Inr False
          else try_bind (requireBlockState s ref) (\<lambda>b.
            if bs_status b \<noteq> BReady then Inr False
            else try_bind (taskDependenciesSatisfied g s taskId) (\<lambda>tasksOk.
              if \<not> tasksOk then Inr False
              else try_bind (blockDependenciesCompleted g s ref) (\<lambda>blocksOk.
                if \<not> blocksOk then Inr False
                else try_bind (inProgressBlockRefs g s) (\<lambda>runningRefs.
                  if maxConcurrent \<le> length runningRefs + length selectedRefs then Inr False
                  else
                    try_bind (some_res (\<lambda>currentRef. try_bind (requireBlockState s currentRef) (\<lambda>cb.
                        if bs_status cb = BInProgress then refsConflict g ref currentRef else Inr False))
                      (rs_currentRefs s)) (\<lambda>conflictsWithCurrent.
                    try_bind (some_res (\<lambda>selectedRef. refsConflict g ref selectedRef) selectedRefs)
                      (\<lambda>conflictsWithSelected.
                    Inr (\<not> conflictsWithCurrent \<and> \<not> conflictsWithSelected)))))))
      | _ \<Rightarrow> Inr False)"

section \<open>Claiming\<close>

definition claimedBlockState :: "block_state \<Rightarrow> block_type \<Rightarrow> string \<Rightarrow> block_state" where
  "claimedBlockState b bt uuid =
     (if bt = Implementation
      then b\<lparr>bs_status := BInProgress, bs_submissionAttemptId := Some uuid,
             bs_submissionRunId := None\<rparr>
      else b\<lparr>bs_status := BInProgress\<rparr>)"

definition markClaimed :: "runtime_state \<Rightarrow> string \<Rightarrow> compiled_graph \<Rightarrow> string \<Rightarrow> runtime_state res" where
  "markClaimed s ref g uuid =
     try_bind (requireBlockState s ref) (\<lambda>b.
     try_bind (getBlock g ref) (\<lambda>block.
     let s1 = (with_block ref (claimedBlockState b (mb_type block) uuid) s)\<lparr>rs_currentRefs := [ref]\<rparr>
     in Inr (if mb_type block = Review then s1\<lparr>rs_currentReviewBlockRef := Some ref\<rparr> else s1)))"

definition openFeedbackForReview :: "runtime_state \<Rightarrow> string \<Rightarrow> (string \<times> feedback_envelope) option" where
  "openFeedbackForReview s reviewBlockRef =
     List.find (\<lambda>p. fb_sourceReviewBlockRef (snd p) = reviewBlockRef \<and>
                    (fb_status (snd p) = FOpen \<or> fb_status (snd p) = FInProgress)) (rs_feedback s)"

section \<open>The queries on a loaded state\<close>

text \<open>A compiled graph whose task ids are not empty.\<close>

definition graph_named :: "compiled_graph \<Rightarrow> bool" where
  "graph_named g \<longleftrightarrow> graph_ok g \<and> [] \<notin> set (taskNodesInManifestOrder g)"

text \<open>The part of a reconciled state the queries need to find everything they look up.\<close>

definition covers :: "compiled_graph \<Rightarrow> runtime_state \<Rightarrow> bool" where
  "covers g s \<longleftrightarrow> blocks_cover g s \<and> (\<forall>t \<in> set (taskNodesInManifestOrder g). map_has (rs_tasks s) t) \<and>
     set (rs_currentRefs s) \<subseteq> set (blockRefsInManifestOrder g)"

lemma reconciled_covers [intro]: "reconciled g s \<Longrightarrow> covers g s"
  by (auto simp: reconciled_def covers_def map_has_get)

definition bstate :: "runtime_state \<Rightarrow> string \<Rightarrow> block_state" where
  "bstate s r = the (map_get (rs_blocks s) r)"

definition task_depends :: "compiled_graph \<Rightarrow> string \<Rightarrow> string \<Rightarrow> bool" where
  "task_depends g a b \<longleftrightarrow> (a, b) \<in> (edges_of (taskAdjacency g))\<^sup>+"

definition refs_conflict :: "compiled_graph \<Rightarrow> string \<Rightarrow> string \<Rightarrow> bool" where
  "refs_conflict g l r \<longleftrightarrow> l \<noteq> r \<and>
     (task_of g l = task_of g r \<or> task_depends g (task_of g l) (task_of g r) \<or>
      task_depends g (task_of g r) (task_of g l))"

definition running_refs :: "runtime_state \<Rightarrow> string list" where
  "running_refs s = filter (\<lambda>r. block_status_of s r = Some BInProgress) (rs_currentRefs s)"

definition implementation_refs :: "compiled_graph \<Rightarrow> string \<Rightarrow> string list" where
  "implementation_refs g t =
     filter (\<lambda>r. mb_type (block_of g r) = Implementation) (succs (blocksByTask g) t)"

definition dispatchable ::
  "compiled_graph \<Rightarrow> runtime_state \<Rightarrow> nat \<Rightarrow> string list \<Rightarrow> string \<Rightarrow> bool" where
  "dispatchable g s mx sel r \<longleftrightarrow>
     mb_type (block_of g r) = Implementation \<and> block_status_of s r = Some BReady \<and>
     deps_ok g s (task_of g r) \<and> bdeps_ok g s r \<and> length (running_refs s) + length sel < mx \<and>
     (\<forall>c \<in> set (running_refs s) \<union> set sel. \<not> refs_conflict g r c)"

definition work_revision :: "digest \<Rightarrow> compiled_graph \<Rightarrow> runtime_state \<Rightarrow> string \<Rightarrow> string" where
  "work_revision sha g s r =
     ''rev-'' @ take 12 (sha
       \<lparr>wm_runs = map (\<lambda>i. (i, bs_lastRunId (bstate s i))) (implementation_refs g (task_of g r)),
        wm_feedback = map (\<lambda>p. (fst p, fb_latestSubmissionId (snd p)))
          (filter (\<lambda>p. fb_sourceReviewBlockRef (snd p) = r) (rs_feedback s))\<rparr>)"

definition review_claimable :: "digest \<Rightarrow> compiled_graph \<Rightarrow> runtime_state \<Rightarrow> string \<Rightarrow> bool" where
  "review_claimable sha g s r \<longleftrightarrow>
     block_is_required_review (block_of g r) \<and>
     \<not> hasOpenFeedbackForTask (task_of g r) g s \<and>
     (\<forall>i \<in> set (implementation_refs g (task_of g r)). block_status_of s i = Some BCompleted) \<and>
     bs_passedWorkRevision (bstate s r) \<noteq> Some (work_revision sha g s r)"

lemma covers_block:
  assumes "covers g s" and "r \<in> set (blockRefsInManifestOrder g)"
  shows "map_get (rs_blocks s) r = Some (bstate s r)"
  using assms by (auto simp: covers_def blocks_cover_def map_has_get bstate_def)

lemma covers_status:
  assumes "covers g s" and "r \<in> set (blockRefsInManifestOrder g)"
  shows "block_status_of s r = Some (bs_status (bstate s r))"
  using covers_block [OF assms] by (simp add: block_status_of_def)

lemma requireBlockState_eq:
  assumes "covers g s" and "r \<in> set (blockRefsInManifestOrder g)"
  shows "requireBlockState s r = Inr (bstate s r)"
  using covers_block [OF assms] by (simp add: requireBlockState_def)

lemma getBlock_eq:
  assumes "graph_ok g" and "r \<in> set (blockRefsInManifestOrder g)"
  shows "getBlock g r = Inr (block_of g r)"
  using block_of_get(1) [OF assms] by (simp add: getBlock_def)

lemma truthy_task_of:
  assumes "graph_named g" and "r \<in> set (blockRefsInManifestOrder g)"
  shows "truthy (map_get (blockTaskByRef g) r) = Some (task_of g r)"
proof -
  have g: "graph_ok g" using assms(1) by (simp add: graph_named_def)
  from block_of_get(2,3) [OF g assms(2)] assms(1) show ?thesis
    by (auto simp: truthy_def graph_named_def)
qed

lemma taskDependenciesSatisfied_eq:
  assumes "graph_ok g" and "covers g s" and "t \<in> set (taskNodesInManifestOrder g)"
  shows "taskDependenciesSatisfied g s t = Inr (deps_ok g s t)"
proof -
  from graph_wf_task(2) [OF graph_ok_wf [OF assms(1)] assms(3)] obtain deps where
    deps: "map_get (taskDependenciesByTask g) t = Some deps" "set deps \<subseteq> set (taskNodesInManifestOrder g)"
    by auto
  have "every_res (\<lambda>d. try_bind (requireTaskState s d) (\<lambda>t. Inr (ts_status t = TImplemented))) deps =
      Inr (list_all (\<lambda>d. task_status_of s d = Some TImplemented) deps)"
  proof (rule every_res_Inr)
    fix d
    assume "d \<in> set deps"
    with deps(2) assms(2) have "map_has (rs_tasks s) d" unfolding covers_def by blast
    then obtain ts where "map_get (rs_tasks s) d = Some ts" by (auto simp: map_has_get)
    then show "try_bind (requireTaskState s d) (\<lambda>t. Inr (ts_status t = TImplemented)) =
        Inr (task_status_of s d = Some TImplemented)"
      by (simp add: requireTaskState_def task_status_of_def)
  qed
  with deps(1) show ?thesis by (simp add: taskDependenciesSatisfied_def deps_ok_def succs_def)
qed

lemma blockDependenciesCompleted_eq:
  assumes "graph_ok g" and "covers g s" and "r \<in> set (blockRefsInManifestOrder g)"
  shows "blockDependenciesCompleted g s r = Inr (bdeps_ok g s r)"
proof -
  note deps = block_deps_get [OF assms(1,3)]
  have "every_res (\<lambda>d. try_bind (requireBlockState s d) (\<lambda>b. Inr (bs_status b = BCompleted)))
        (succs (blockDependenciesByRef g) r) =
      Inr (list_all (\<lambda>d. block_status_of s d = Some BCompleted) (succs (blockDependenciesByRef g) r))"
    using deps(2) assms(2) requireBlockState_eq [OF assms(2)] covers_status [OF assms(2)]
    by (intro every_res_Inr) auto
  with deps(1) show ?thesis by (simp add: blockDependenciesCompleted_def bdeps_ok_def)
qed

lemma requiredImplementationRefs_eq:
  assumes "graph_ok g" and "t \<in> set (taskNodesInManifestOrder g)"
  shows "requiredImplementationRefs g t = Inr (implementation_refs g t)"
proof -
  have "filter_res (\<lambda>ref. try_bind (requireMapValue (blocksByRef g) ref ''blocksByRef'')
          (\<lambda>b. Inr (mb_type b = Implementation))) (succs (blocksByTask g) t) =
      Inr (filter (\<lambda>r. mb_type (block_of g r) = Implementation) (succs (blocksByTask g) t))"
    using task_of_blocks [OF assms(1)] block_of_get(1) [OF assms(1)] by (intro filter_res_Inr) simp
  with blocks_of_task_get [OF assms] show ?thesis
    by (simp add: requiredImplementationRefs_def implementation_refs_def)
qed

lemma implementation_refs_mem:
  assumes "graph_ok g" and "i \<in> set (implementation_refs g t)"
  shows "i \<in> set (blockRefsInManifestOrder g)" and "mb_type (block_of g i) = Implementation"
    and "task_of g i = t"
  using assms task_of_blocks [OF assms(1), of i t] by (auto simp: implementation_refs_def task_of_def)

lemma inProgressBlockRefs_eq:
  assumes "graph_ok g" and "covers g s"
  shows "inProgressBlockRefs g s = Inr (running_refs s)"
  unfolding inProgressBlockRefs_def running_refs_def
proof (rule filter_res_Inr)
  fix r
  assume "r \<in> set (rs_currentRefs s)"
  with assms(2) have r: "r \<in> set (blockRefsInManifestOrder g)" by (auto simp: covers_def)
  have "map_has (blocksByRef g) r" using graph_wf_doms(2) [OF graph_ok_wf [OF assms(1)]] r by simp
  with requireBlockState_eq [OF assms(2) r] covers_status [OF assms(2) r]
  show "try_bind (requireBlockState s r)
      (\<lambda>b. Inr (bs_status b = BInProgress \<and> map_has (blocksByRef g) r)) =
      Inr (block_status_of s r = Some BInProgress)" by simp
qed

lemma taskReachable_eq:
  assumes "graph_named g"
  shows "taskReachable g a b = Inr (task_depends g a b)"
proof -
  have wf: "graph_wf g" and ne: "[] \<notin> set (taskNodesInManifestOrder g)"
    using assms by (simp_all add: graph_named_def)
  have "\<not> map_has (taskAdjacency g) []"
    using wf ne by (simp add: graph_wf_def idx_inv_def Let_def dom_is_def)
  from search_reachable_correct [OF this, of True a b] graph_wf_adj_closed(1) [OF wf]
  show ?thesis by (simp add: taskReachable_def reachable_def task_depends_def)
qed

lemma refsConflict_eq:
  assumes "graph_named g" and "l \<in> set (blockRefsInManifestOrder g)" and "r \<in> set (blockRefsInManifestOrder g)"
  shows "refsConflict g l r = Inr (refs_conflict g l r)"
  by (simp add: refsConflict_def refs_conflict_def truthy_task_of [OF assms(1,2)]
      truthy_task_of [OF assms(1,3)] taskReachable_eq [OF assms(1)])

lemma refs_conflict_sym: "refs_conflict g l r = refs_conflict g r l"
  by (auto simp: refs_conflict_def)

lemma canDispatch_eq:
  assumes g: "graph_named g" and s: "covers g s" and r: "r \<in> set (blockRefsInManifestOrder g)"
    and sel: "set sel \<subseteq> set (blockRefsInManifestOrder g)"
  shows "canDispatchImplementationBlock g s r mx sel = Inr (dispatchable g s mx sel r)"
proof -
  have ok: "graph_ok g" using g by (simp add: graph_named_def)
  note get = block_of_get [OF ok r]
  have cur: "set (rs_currentRefs s) \<subseteq> set (blockRefsInManifestOrder g)" using s by (simp add: covers_def)
  have c1: "some_res (\<lambda>c. try_bind (requireBlockState s c) (\<lambda>cb.
        if bs_status cb = BInProgress then refsConflict g r c else Inr False)) (rs_currentRefs s) =
      Inr (list_ex (\<lambda>c. block_status_of s c = Some BInProgress \<and> refs_conflict g r c) (rs_currentRefs s))"
    using cur requireBlockState_eq [OF s] covers_status [OF s] refsConflict_eq [OF g r]
    by (intro some_res_Inr) auto
  have c2: "some_res (\<lambda>c. refsConflict g r c) sel = Inr (list_ex (\<lambda>c. refs_conflict g r c) sel)"
    using sel refsConflict_eq [OF g r] by (intro some_res_Inr) auto
  have run: "list_ex (\<lambda>c. block_status_of s c = Some BInProgress \<and> refs_conflict g r c) (rs_currentRefs s) \<longleftrightarrow>
      (\<exists>c \<in> set (running_refs s). refs_conflict g r c)"
    by (auto simp: list_ex_iff running_refs_def)
  show ?thesis
    unfolding canDispatchImplementationBlock_def truthy_task_of [OF g r] get(1) c1 c2 run
      requireBlockState_eq [OF s r] taskDependenciesSatisfied_eq [OF ok s get(3)]
      blockDependenciesCompleted_eq [OF ok s r] inProgressBlockRefs_eq [OF ok s]
    using taskDependenciesSatisfied_eq [OF ok s get(3)]
    by (auto simp: dispatchable_def covers_status [OF s r] list_ex_iff)
qed

lemma computeWorkRevision_eq:
  assumes g: "graph_ok g" and s: "covers g s" and r: "r \<in> set (blockRefsInManifestOrder g)"
  shows "computeWorkRevision sha g s r = Inr (work_revision sha g s r)"
proof -
  note get = block_of_get [OF g r]
  have "map_res (\<lambda>i. try_bind (requireBlockState s i) (\<lambda>b. Inr (i, bs_lastRunId b)))
        (implementation_refs g (task_of g r)) =
      Inr (map (\<lambda>i. (i, bs_lastRunId (bstate s i))) (implementation_refs g (task_of g r)))"
    using implementation_refs_mem(1) [OF g] requireBlockState_eq [OF s] by (intro map_res_Inr) simp
  with get(2) requiredImplementationRefs_eq [OF g get(3)] show ?thesis
    by (simp add: computeWorkRevision_def work_revision_def)
qed

lemma activeOpenFeedback_task:
  "list_ex (\<lambda>p. map_get (blockTaskByRef g) (fb_sourceReviewBlockRef (snd p)) = Some t)
     (activeOpenFeedback s) = hasOpenFeedbackForTask t g s"
proof -
  have "list_ex P (filter Q xs) = list_ex (\<lambda>x. Q x \<and> P x) xs" for P Q :: "'a \<Rightarrow> bool" and xs
    by (induction xs) auto
  then show ?thesis by (simp add: activeOpenFeedback_def hasOpenFeedbackForTask_def)
qed

lemma canClaimReviewBlock_eq:
  assumes g: "graph_named g" and s: "covers g s" and r: "r \<in> set (blockRefsInManifestOrder g)"
  shows "canClaimReviewBlock sha g s r = Inr (review_claimable sha g s r)"
proof -
  have ok: "graph_ok g" using g by (simp add: graph_named_def)
  note get = block_of_get [OF ok r]
  have "every_res (\<lambda>i. try_bind (requireBlockState s i) (\<lambda>b. Inr (bs_status b = BCompleted)))
        (implementation_refs g (task_of g r)) =
      Inr (list_all (\<lambda>i. block_status_of s i = Some BCompleted) (implementation_refs g (task_of g r)))"
    using implementation_refs_mem(1) [OF ok] requireBlockState_eq [OF s] covers_status [OF s]
    by (intro every_res_Inr) auto
  then show ?thesis
    unfolding canClaimReviewBlock_def get(1) truthy_task_of [OF g r] activeOpenFeedback_task
    by (auto simp: requiredImplementationRefs_eq [OF ok get(3)] computeWorkRevision_eq [OF ok s r]
        requireBlockState_eq [OF s r] review_claimable_def block_is_required_review_def list_all_iff)
qed

lemma effectiveBlockExecutor_ok:
  assumes "graph_ok g" and "r \<in> set (blockRefsInManifestOrder g)"
  shows "\<exists>e. effectiveBlockExecutor g r d = Inr e"
proof -
  from graph_ok_ref [OF assms] obtain t task b where
    "map_get (blockTaskByRef g) r = Some t" "map_get (tasksById g) t = Some task"
    "map_get (blocksByRef g) r = Some b" by blast
  then show ?thesis by (simp add: effectiveBlockExecutor_def getBlock_def)
qed

definition executor_of :: "compiled_graph \<Rightarrow> string option \<Rightarrow> string \<Rightarrow> string" where
  "executor_of g d r = projr (effectiveBlockExecutor g r d)"

lemma effectiveBlockExecutor_eq:
  assumes "graph_ok g" and "r \<in> set (blockRefsInManifestOrder g)"
  shows "effectiveBlockExecutor g r d = Inr (executor_of g d r)"
  using effectiveBlockExecutor_ok [OF assms, of d] by (auto simp: executor_of_def)

definition claim_for :: "compiled_graph \<Rightarrow> string option \<Rightarrow> claim_mode \<Rightarrow> string \<Rightarrow> block_claim" where
  "claim_for g d m r =
     \<lparr>bc_ref = r, bc_taskId = task_of g r, bc_blockId = mb_id (block_of g r),
      bc_blockType = mb_type (block_of g r), bc_effectiveExecutor = executor_of g d r,
      bc_submissionAttemptId = None, bc_reason = Some m, bc_requestedParallel = False,
      bc_parallelFallback = False, bc_nextParallelClaimable = None\<rparr>"

lemma claimResultForBlock_eq:
  assumes "graph_ok g" and "r \<in> set (blockRefsInManifestOrder g)"
  shows "claimResultForBlock r g m d = Inr (claim_for g d m r)"
proof -
  have "parseBlockRef r = Inr (task_of g r, mb_id (block_of g r))"
    using graph_ok_ref [OF assms] by (auto simp: task_of_def block_of_def)
  then show ?thesis
    by (simp add: claimResultForBlock_def getBlock_eq [OF assms] effectiveBlockExecutor_eq [OF assms]
        claim_for_def)
qed

lemma effectiveFeedbackExecutor_ok:
  assumes g: "graph_named g" and r: "r \<in> set (blockRefsInManifestOrder g)"
  shows "\<exists>e. effectiveFeedbackExecutor g r d = Inr e"
proof -
  have ok: "graph_ok g" using g by (simp add: graph_named_def)
  have "map_res (\<lambda>i. effectiveBlockExecutor g i d) (implementation_refs g (task_of g r)) =
      Inr (map (executor_of g d) (implementation_refs g (task_of g r)))"
    using implementation_refs_mem(1) [OF ok] effectiveBlockExecutor_eq [OF ok] by (intro map_res_Inr) simp
  then show ?thesis
    using effectiveBlockExecutor_ok [OF ok r, of d]
    by (auto simp: effectiveFeedbackExecutor_def truthy_task_of [OF g r]
        requiredImplementationRefs_eq [OF ok block_of_get(3) [OF ok r]] split: list.splits)
qed

lemma markClaimed_eq:
  assumes g: "graph_ok g" and s: "covers g s" and r: "r \<in> set (blockRefsInManifestOrder g)"
  shows "markClaimed s r g uuid = Inr
     (let s1 = (with_block r (claimedBlockState (bstate s r) (mb_type (block_of g r)) uuid) s)
                 \<lparr>rs_currentRefs := [r]\<rparr>
      in if mb_type (block_of g r) = Review then s1\<lparr>rs_currentReviewBlockRef := Some r\<rparr> else s1)"
  by (simp add: markClaimed_def requireBlockState_eq [OF s r] getBlock_eq [OF g r] Let_def)

text \<open>A claim writes a record the schema accepts when the block was waiting.\<close>

lemma claimedBlockState_valid:
  assumes "blockState_valid b" and "bs_status b = BReady" and "uuid \<noteq> []"
  shows "blockState_valid (claimedBlockState b bt uuid)"
  using assms waiting_block_no_remote [OF assms(1)]
  by (auto simp: claimedBlockState_def block_valid_simps)

end
