(* ===== verification/Claim_Readiness.thy ===== *)
theory Claim_Readiness
  imports Selectors
begin

text \<open>
  Which work may be claimed now: \<^verbatim>\<open>taskManager/claimReadinessRules.ts\<close>,
  \<^verbatim>\<open>taskManager/claimReadiness.ts\<close> and \<^verbatim>\<open>taskManager/claimHints.ts\<close>.

  The project graph is seen through the interface \<^verbatim>\<open>ProjectGraphClaimGuard\<close>, a record of two
  functions; the locale \<open>claim_guard_laws\<close> states what a guard promises and the theory of the project
  graph interprets it on the guards the code builds. The lemmas show that on a reconciled state the
  selection does not throw, and that a parallel batch respects the concurrency limit, the
  dependencies and the conflicts between tasks.
\<close>

record claim_guard =
  cg_blockersForTask :: "string \<Rightarrow> string list"
  cg_blockerReasonForTask :: "string \<Rightarrow> string option"

locale claim_guard_laws =
  fixes guard :: claim_guard
  assumes reason_iff_blockers:
      "cg_blockerReasonForTask guard t = None \<longleftrightarrow> cg_blockersForTask guard t = []"
    and reason_not_empty: "cg_blockerReasonForTask guard t \<noteq> Some []"

definition noProjectGraphBlockers :: claim_guard where
  "noProjectGraphBlockers =
     \<lparr>cg_blockersForTask = (\<lambda>_. []), cg_blockerReasonForTask = (\<lambda>_. None)\<rparr>"

interpretation no_guard: claim_guard_laws noProjectGraphBlockers
  by unfold_locales (simp_all add: noProjectGraphBlockers_def)

section \<open>Rules\<close>

definition projectBlockerReason :: "claim_guard \<Rightarrow> string option \<Rightarrow> string option" where
  "projectBlockerReason guard taskId =
     (case truthy taskId of None \<Rightarrow> None | Some t \<Rightarrow> cg_blockerReasonForTask guard t)"

definition projectBlockers :: "claim_guard \<Rightarrow> string option \<Rightarrow> string list" where
  "projectBlockers guard taskId =
     (case truthy taskId of None \<Rightarrow> [] | Some t \<Rightarrow> cg_blockersForTask guard t)"

datatype current_work = CurrentFeedback string | CurrentReview string | CurrentBlock string

definition in_progress_review :: "compiled_graph \<Rightarrow> runtime_state \<Rightarrow> string option res" where
  "in_progress_review g s =
     find_res (\<lambda>ref. try_bind (getBlock g ref) (\<lambda>block. try_bind (requireBlockState s ref) (\<lambda>b.
       Inr (mb_type block = Review \<and> bs_status b = BInProgress \<and> bs_remoteOwnership b = None))))
       (blockRefsInManifestOrder g)"

definition currentClaimBlockedReason :: "compiled_graph \<Rightarrow> runtime_state \<Rightarrow> current_work option res" where
  "currentClaimBlockedReason g s =
     (case List.find (\<lambda>p. isActiveFeedbackStatus (fb_status (snd p))) (rs_feedback s) of
        Some p \<Rightarrow> Inr (Some (CurrentFeedback (fst p)))
      | None \<Rightarrow>
          try_bind (in_progress_review g s) (\<lambda>review.
          case review of
            Some r \<Rightarrow> Inr (Some (CurrentReview r))
          | None \<Rightarrow>
              try_bind (find_res (\<lambda>ref. try_bind (getBlock g ref) (\<lambda>block.
                  if mb_type block = Review then Inr False
                  else try_bind (requireBlockState s ref) (\<lambda>b. Inr (bs_status b = BInProgress))))
                (blockRefsInManifestOrder g)) (\<lambda>current.
              Inr (map_option CurrentBlock current))))"

definition blockMatchesClaimFilter ::
  "string \<Rightarrow> compiled_graph \<Rightarrow> claim_scope \<Rightarrow> block_type option \<Rightarrow> bool res" where
  "blockMatchesClaimFilter ref g scope blockType =
     try_bind (getBlock g ref) (\<lambda>block.
     Inr (blockInScope ref g scope \<and> (blockType = None \<or> blockType = Some (mb_type block))))"

definition blockReadyWithoutProjectBlockers ::
  "digest \<Rightarrow> compiled_graph \<Rightarrow> runtime_state \<Rightarrow> string \<Rightarrow> bool res" where
  "blockReadyWithoutProjectBlockers sha g s ref =
     try_bind (requireMapValue (blockTaskByRef g) ref ''blockTaskByRef'') (\<lambda>taskId.
     try_bind (getBlock g ref) (\<lambda>block.
     try_bind (requireBlockState s ref) (\<lambda>b.
     if bs_status b \<noteq> BReady then Inr False
     else try_bind (taskDependenciesSatisfied g s taskId) (\<lambda>satisfied.
       if \<not> satisfied then Inr False
       else if mb_type block = Review then canClaimReviewBlock sha g s ref
       else blockDependenciesCompleted g s ref))))"

definition reviewMaxCycleWarnings :: "compiled_graph \<Rightarrow> runtime_state \<Rightarrow> string list res" where
  "reviewMaxCycleWarnings g s =
     filter_res (\<lambda>ref. try_bind (requireBlockState s ref)
       (\<lambda>b. Inr (bs_completionReason b = Some MaxCyclesReached))) (blockRefsInManifestOrder g)"

section \<open>Claim hints\<close>

datatype status_reason =
    SavedReason string
  | BlockedByProject string
  | BlockedByCurrent current_work
  | OptionalReviewGate

record review_gate =
  rg_required :: bool
  rg_downstreamTasks :: "string list"
  rg_unlocksTasks :: "string list"
  rg_needsChangesReturnsTo :: "string list"

record claim_hint =
  ch_ref :: string
  ch_taskId :: string
  ch_blockId :: string
  ch_blockType :: block_type
  ch_effectiveExecutor :: string
  ch_status :: block_status
  ch_statusReason :: "status_reason option"
  ch_ready :: bool
  ch_blockedByBlocks :: "string list"
  ch_blockedByTasks :: "string list"
  ch_blockedByProject :: "string list"
  ch_sequentialOnly :: bool
  ch_dispatchable :: bool
  ch_reviewGate :: "review_gate option"

definition statusReasonForBlock :: "block_state \<Rightarrow> string option" where
  "statusReasonForBlock b =
     (if bs_status b = BBlocked then bs_blockedReason b
      else if bs_status b = BDiverged then bs_divergenceReason b
      else case bs_blockedReason b of Some r \<Rightarrow> Some r | None \<Rightarrow> bs_divergenceReason b)"

definition reviewGateUnlocksTasks ::
  "string \<Rightarrow> string list \<Rightarrow> runtime_state \<Rightarrow> compiled_graph \<Rightarrow> string list res" where
  "reviewGateUnlocksTasks taskId downstreamTasks s g =
     filter_res (\<lambda>downstream.
       try_bind (requireMapValue (taskDependenciesByTask g) downstream ''taskDependenciesByTask'')
         (every_res (\<lambda>dependency.
            if dependency = taskId then Inr True
            else try_bind (requireTaskState s dependency) (\<lambda>t. Inr (ts_status t = TImplemented)))))
       downstreamTasks"

definition dependencyBlockers ::
  "compiled_graph \<Rightarrow> runtime_state \<Rightarrow> string \<Rightarrow> manifest_block \<Rightarrow> string \<Rightarrow> (string list \<times> string list) res" where
  "dependencyBlockers g s ref block taskId =
     try_bind (requireMapValue (taskDependenciesByTask g) taskId ''taskDependenciesByTask'') (\<lambda>tdeps.
     try_bind (filter_res (\<lambda>d. try_bind (requireTaskState s d) (\<lambda>t. Inr (ts_status t \<noteq> TImplemented))) tdeps)
       (\<lambda>blockedByTasks.
     try_bind (requireMapValue (blockDependenciesByRef g) ref ''blockDependenciesByRef'') (\<lambda>bdeps.
     try_bind (filter_res (\<lambda>d. try_bind (requireBlockState s d) (\<lambda>b. Inr (bs_status b \<noteq> BCompleted))) bdeps)
       (\<lambda>direct.
     try_bind (if mb_type block = Review
               then try_bind (requiredImplementationRefs g taskId)
                      (filter_res (\<lambda>d. try_bind (requireBlockState s d) (\<lambda>b. Inr (bs_status b \<noteq> BCompleted))))
               else Inr []) (\<lambda>reviewWork.
     Inr (blockedByTasks, js_dedup (direct @ reviewWork)))))))"

definition claim_hint_for ::
  "digest \<Rightarrow> compiled_graph \<Rightarrow> runtime_state \<Rightarrow> claim_guard \<Rightarrow> current_work option \<Rightarrow> nat \<Rightarrow>
   string option \<Rightarrow> string \<Rightarrow> claim_hint res" where
  "claim_hint_for sha g s guard defaultReason maxConcurrent defaultExecutor ref =
     try_bind (requireMapValue (blockTaskByRef g) ref ''blockTaskByRef'') (\<lambda>taskId.
     try_bind (requireMapValue (blocksByRef g) ref ''blocksByRef'') (\<lambda>block.
     try_bind (requireBlockState s ref) (\<lambda>b.
     try_bind (parseBlockRef ref) (\<lambda>parts.
     try_bind (dependencyBlockers g s ref block taskId) (\<lambda>blockers.
     try_bind (blockReadyWithoutProjectBlockers sha g s ref) (\<lambda>baseReady.
     let projectBlocker = projectBlockerReason guard (Some taskId);
         ready = (baseReady \<and> defaultReason = None \<and> projectBlocker = None)
     in
     try_bind (if projectBlocker = None then canDispatchImplementationBlock g s ref maxConcurrent []
               else Inr False) (\<lambda>dispatchable.
     try_bind (if mb_type block = Review
               then try_bind (requireMapValue (taskDependentsByTask g) taskId ''taskDependentsByTask'')
                      (\<lambda>downstream.
                    try_bind (reviewGateUnlocksTasks taskId downstream s g) (\<lambda>unlocks.
                    try_bind (requiredImplementationRefs g taskId) (\<lambda>returns.
                    Inr (Some \<lparr>rg_required = rp_required (mb_review block),
                               rg_downstreamTasks = downstream, rg_unlocksTasks = unlocks,
                               rg_needsChangesReturnsTo = returns\<rparr>))))
               else Inr None) (\<lambda>reviewGate.
     try_bind (effectiveBlockExecutor g ref defaultExecutor) (\<lambda>executor.
     Inr \<lparr>ch_ref = ref, ch_taskId = taskId, ch_blockId = snd parts, ch_blockType = mb_type block,
          ch_effectiveExecutor = executor, ch_status = bs_status b,
          ch_statusReason =
            (case statusReasonForBlock b of
               Some r \<Rightarrow> Some (SavedReason r)
             | None \<Rightarrow>
                 (case (if baseReady then truthy projectBlocker else None) of
                    Some r \<Rightarrow> Some (BlockedByProject r)
                  | None \<Rightarrow>
                      (case (if baseReady then defaultReason else None) of
                         Some c \<Rightarrow> Some (BlockedByCurrent c)
                       | None \<Rightarrow> if mb_type block = Review \<and> \<not> rp_required (mb_review block)
                                 then Some OptionalReviewGate else None))),
          ch_ready = ready, ch_blockedByBlocks = snd blockers, ch_blockedByTasks = fst blockers,
          ch_blockedByProject = projectBlockers guard (Some taskId),
          ch_sequentialOnly = (mb_type block = Review), ch_dispatchable = dispatchable,
          ch_reviewGate = reviewGate\<rparr>)))))))))"

definition buildClaimHints ::
  "digest \<Rightarrow> compiled_graph \<Rightarrow> runtime_state \<Rightarrow> claim_guard \<Rightarrow> current_work option \<Rightarrow> nat \<Rightarrow>
   string option \<Rightarrow> claim_hint list res" where
  "buildClaimHints sha g s guard defaultReason maxConcurrent defaultExecutor =
     map_res (claim_hint_for sha g s guard defaultReason maxConcurrent defaultExecutor)
       (blockRefsInManifestOrder g)"

section \<open>Readiness\<close>

datatype review_claim_form =
    InitialClaim
  | ResumeClaim
  | NotClaimable not_claimable
and not_claimable =
    NotReview | NotClaimableNow | OwnedRemotely | HasOpenFeedback | WrongStatus block_status

definition reviewClaimForm ::
  "digest \<Rightarrow> compiled_graph \<Rightarrow> runtime_state \<Rightarrow> string \<Rightarrow> review_claim_form res" where
  "reviewClaimForm sha g s ref =
     (if (case map_get (blocksByRef g) ref of None \<Rightarrow> True | Some b \<Rightarrow> mb_type b \<noteq> Review)
      then Inr (NotClaimable NotReview)
      else try_bind (requireBlockState s ref) (\<lambda>b.
        if bs_status b = BReady
        then try_bind (canClaimReviewBlock sha g s ref) (\<lambda>ok.
             Inr (if ok then InitialClaim else NotClaimable NotClaimableNow))
        else if bs_status b = BInProgress
        then Inr (if bs_remoteOwnership b \<noteq> None then NotClaimable OwnedRemotely
                  else if openFeedbackForReview s ref \<noteq> None then NotClaimable HasOpenFeedback
                  else ResumeClaim)
        else Inr (NotClaimable (WrongStatus (bs_status b)))))"

record claim_candidate =
  cc_ref :: string
  cc_result :: block_claim

definition claimCandidate ::
  "string \<Rightarrow> compiled_graph \<Rightarrow> claim_mode \<Rightarrow> string option \<Rightarrow> claim_candidate res" where
  "claimCandidate ref g reason defaultExecutor =
     try_bind (claimResultForBlock ref g reason defaultExecutor) (\<lambda>result.
     Inr \<lparr>cc_ref = ref, cc_result = result\<rparr>)"

definition select_implementation ::
  "compiled_graph \<Rightarrow> manifest \<Rightarrow> runtime_state \<Rightarrow> claim_scope \<Rightarrow> block_type option \<Rightarrow> claim_guard \<Rightarrow>
   string list \<Rightarrow> string \<Rightarrow> string list \<Rightarrow> string list res" where
  "select_implementation g mf s scope blockType guard retained ref selected =
     try_bind (requireMapValue (blockTaskByRef g) ref ''blockTaskByRef'') (\<lambda>taskId.
     try_bind (getBlock g ref) (\<lambda>block.
     try_bind (blockMatchesClaimFilter ref g scope blockType) (\<lambda>matches.
     if \<not> matches \<or> mb_type block = Review then Inr selected
     else if ref \<in> set retained then Inr selected
     else try_bind (requireBlockState s ref) (\<lambda>b.
       if bs_status b \<noteq> BReady then Inr selected
       else if truthy (projectBlockerReason guard (Some taskId)) \<noteq> None then Inr selected
       else try_bind (canDispatchImplementationBlock g s ref (mf_maxConcurrent mf) selected) (\<lambda>ok.
            Inr (if ok then selected @ [ref] else selected))))))"

definition review_fills_slot ::
  "digest \<Rightarrow> compiled_graph \<Rightarrow> runtime_state \<Rightarrow> claim_scope \<Rightarrow> block_type option \<Rightarrow> claim_guard \<Rightarrow>
   string list \<Rightarrow> string list \<Rightarrow> string \<Rightarrow> bool res" where
  "review_fills_slot sha g s scope blockType guard retained selected ref =
     try_bind (requireMapValue (blockTaskByRef g) ref ''blockTaskByRef'') (\<lambda>taskId.
     try_bind (getBlock g ref) (\<lambda>block.
     if mb_type block \<noteq> Review then Inr False
     else try_bind (blockMatchesClaimFilter ref g scope blockType) (\<lambda>matches.
       if \<not> matches then Inr False
       else try_bind (blockReadyWithoutProjectBlockers sha g s ref) (\<lambda>ready.
         if \<not> ready then Inr False
         else if truthy (projectBlockerReason guard (Some taskId)) \<noteq> None then Inr False
         else try_bind (every_res (\<lambda>a. try_bind (refsConflict g ref a) (\<lambda>c. Inr (\<not> c))) retained)
           (\<lambda>freeOfRetained.
            if \<not> freeOfRetained then Inr False
            else every_res (\<lambda>a. try_bind (refsConflict g ref a) (\<lambda>c. Inr (\<not> c))) selected)))))"

definition selectedParallelBatchRefs ::
  "digest \<Rightarrow> compiled_graph \<Rightarrow> manifest \<Rightarrow> runtime_state \<Rightarrow> claim_scope \<Rightarrow> block_type option \<Rightarrow>
   claim_guard \<Rightarrow> string list res" where
  "selectedParallelBatchRefs sha g mf s scope blockType guard =
     try_bind (inProgressBlockRefs g s) (\<lambda>retained.
     try_bind (for_res (select_implementation g mf s scope blockType guard retained)
                 (blockRefsInManifestOrder g) []) (\<lambda>selected.
     if selected = [] \<or> mf_maxConcurrent mf \<le> length retained + length selected then Inr selected
     else try_bind (some_res (\<lambda>ref. try_bind (getBlock g ref) (\<lambda>b. Inr (mb_type b = Review))) retained)
       (\<lambda>reviewActive.
        if reviewActive then Inr selected
        else try_bind (find_res (review_fills_slot sha g s scope blockType guard retained selected)
                         (blockRefsInManifestOrder g)) (\<lambda>reviewRef.
             Inr (case reviewRef of None \<Rightarrow> selected | Some r \<Rightarrow> selected @ [r])))))"

definition firstProjectBlockedResult ::
  "digest \<Rightarrow> compiled_graph \<Rightarrow> runtime_state \<Rightarrow> claim_scope \<Rightarrow> block_type option \<Rightarrow> claim_guard \<Rightarrow>
   claim_result option res" where
  "firstProjectBlockedResult sha g s scope blockType guard =
     try_bind (find_res (\<lambda>candidate.
         try_bind (blockMatchesClaimFilter candidate g scope blockType) (\<lambda>matches.
         if \<not> matches then Inr False
         else try_bind (blockReadyWithoutProjectBlockers sha g s candidate) (\<lambda>ready.
           if \<not> ready then Inr False
           else try_bind (requireMapValue (blockTaskByRef g) candidate ''blockTaskByRef'') (\<lambda>taskId.
                Inr (truthy (projectBlockerReason guard (Some taskId)) \<noteq> None)))))
       (blockRefsInManifestOrder g)) (\<lambda>found.
     case found of
       None \<Rightarrow> Inr None
     | Some ref \<Rightarrow>
         try_bind (requireMapValue (blockTaskByRef g) ref ''blockTaskByRef'') (\<lambda>taskId.
         Inr (Some (BlockedClaim (Some ref)
           (case projectBlockerReason guard (Some taskId) of
              Some r \<Rightarrow> ProjectBlocked r | None \<Rightarrow> ProjectBlockersIncomplete)))))"

definition firstBlockedResult ::
  "compiled_graph \<Rightarrow> runtime_state \<Rightarrow> claim_scope \<Rightarrow> claim_result option res" where
  "firstBlockedResult g s scope =
     try_bind (find_res (\<lambda>candidate.
         if \<not> blockInScope candidate g scope then Inr False
         else try_bind (requireBlockState s candidate) (\<lambda>b. Inr (bs_status b = BBlocked)))
       (blockRefsInManifestOrder g)) (\<lambda>found.
     case found of
       None \<Rightarrow> Inr None
     | Some ref \<Rightarrow>
         try_bind (requireBlockState s ref) (\<lambda>b.
         Inr (Some (BlockedClaim (Some ref)
           (case bs_blockedReason b of Some r \<Rightarrow> StoredReason r | None \<Rightarrow> BlockIsBlocked ref)))))"

datatype claim_order =
    OrderBlocked claim_result
  | OrderFeedback string feedback_envelope string claim_result
  | OrderCurrentReview string bool block_claim
  | OrderCurrentBlock string block_claim
  | OrderReady

definition order_feedback ::
  "compiled_graph \<Rightarrow> manifest \<Rightarrow> claim_scope \<Rightarrow> claim_guard \<Rightarrow> string \<Rightarrow> feedback_envelope \<Rightarrow>
   claim_order res" where
  "order_feedback g mf scope guard feedbackId fb =
     (if \<not> feedbackInScope fb g scope
      then Inr (OrderBlocked (NoneClaim (Some NoClaimableBlocksInScope) None))
      else case truthy (map_get (blockTaskByRef g) (fb_sourceReviewBlockRef fb)) of
        None \<Rightarrow> Inl (FeedbackSourceUnknown feedbackId)
      | Some taskId \<Rightarrow>
          (case truthy (projectBlockerReason guard (Some taskId)) of
             Some r \<Rightarrow> Inr (OrderBlocked (BlockedClaim (Some (fb_sourceReviewBlockRef fb)) (ProjectBlocked r)))
           | None \<Rightarrow>
               try_bind (effectiveFeedbackExecutor g (fb_sourceReviewBlockRef fb) (mf_defaultExecutor mf))
                 (\<lambda>executor.
               Inr (OrderFeedback feedbackId fb taskId
                      (FeedbackClaim feedbackId (fb_sourceReviewBlockRef fb) taskId (fb_content fb) executor)))))"

definition order_current ::
  "compiled_graph \<Rightarrow> manifest \<Rightarrow> runtime_state \<Rightarrow> claim_scope \<Rightarrow> block_type option \<Rightarrow> claim_order res" where
  "order_current g mf s scope blockType =
     try_bind (find_res (\<lambda>ref. try_bind (getBlock g ref) (\<lambda>block. try_bind (requireBlockState s ref) (\<lambda>b.
         Inr (bs_status b = BInProgress \<and> bs_remoteOwnership b = None \<and> mb_type block \<noteq> Review))))
       (blockRefsInManifestOrder g)) (\<lambda>current.
     case current of
       None \<Rightarrow> Inr OrderReady
     | Some ref \<Rightarrow>
         try_bind (getBlock g ref) (\<lambda>block.
         if blockType \<noteq> None \<and> blockType \<noteq> Some (mb_type block)
         then Inr (OrderBlocked (BlockedClaim (Some ref) BlockOutsideType))
         else if \<not> blockInScope ref g scope
         then Inr (OrderBlocked (BlockedClaim (Some ref) BlockOutsideScope))
         else try_bind (claimCandidate ref g Current (mf_defaultExecutor mf)) (\<lambda>c.
              Inr (OrderCurrentBlock ref (cc_result c)))))"

definition order_review ::
  "digest \<Rightarrow> compiled_graph \<Rightarrow> manifest \<Rightarrow> runtime_state \<Rightarrow> claim_scope \<Rightarrow> block_type option \<Rightarrow> string \<Rightarrow>
   claim_order res" where
  "order_review sha g mf s scope blockType ref =
     (if blockType \<noteq> None \<and> blockType \<noteq> Some Review
      then Inr (OrderBlocked (BlockedClaim (Some ref) ReviewOutsideType))
      else if \<not> blockInScope ref g scope
      then Inr (OrderBlocked (BlockedClaim (Some ref) ReviewOutsideScope))
      else try_bind (reviewClaimForm sha g s ref) (\<lambda>form.
        try_bind (requireBlockState s ref) (\<lambda>b.
        if form \<noteq> ResumeClaim then order_current g mf s scope blockType
        else if (case truthy (rs_currentFeedbackId s) of
                   None \<Rightarrow> False
                 | Some f \<Rightarrow> map_option fb_status (map_get (rs_feedback s) f) = Some FResolved)
        then try_bind (claimCandidate ref g FeedbackResolved (mf_defaultExecutor mf)) (\<lambda>c.
             Inr (OrderCurrentReview ref True (cc_result c)))
        else let reason = (if truthy (bs_pendingFeedbackId b) \<noteq> None then FeedbackResolved else Current)
             in try_bind (claimCandidate ref g reason (mf_defaultExecutor mf)) (\<lambda>c.
                Inr (OrderCurrentReview ref False (cc_result c))))))"

definition buildClaimOrder ::
  "digest \<Rightarrow> compiled_graph \<Rightarrow> manifest \<Rightarrow> runtime_state \<Rightarrow> claim_scope \<Rightarrow> block_type option \<Rightarrow>
   claim_guard \<Rightarrow> claim_order res" where
  "buildClaimOrder sha g mf s scope blockType guard =
     (case activeOpenFeedback s of
        _ # _ # _ \<Rightarrow> Inr (OrderBlocked (BlockedClaim None MultipleOpenFeedback))
      | [(feedbackId, fb)] \<Rightarrow> order_feedback g mf scope guard feedbackId fb
      | [] \<Rightarrow>
          try_bind (in_progress_review g s) (\<lambda>review.
          case review of
            None \<Rightarrow> order_current g mf s scope blockType
          | Some ref \<Rightarrow> order_review sha g mf s scope blockType ref))"

record claim_readiness =
  cr_scope :: claim_scope
  cr_invalidScope :: "claim_result option"
  cr_claimOrder :: claim_order
  cr_defaultClaimBlockedReason :: "current_work option"
  cr_claimHints :: "claim_hint list"
  cr_nextClaimable :: "string list"
  cr_nextParallelClaimable :: "string list"
  cr_nextSequentialClaimable :: "string list"
  cr_nextParallelDispatchable :: "string list"
  cr_scopedNextSequentialClaimable :: "string list"
  cr_sequentialImplementationCandidates :: "claim_candidate list"
  cr_sequentialReviewCandidates :: "claim_candidate list"
  cr_parallelBatchRefs :: "string list"
  cr_firstProjectBlockedResult :: "claim_result option"
  cr_firstBlockedResult :: "claim_result option"
  cr_warnings :: "string list"

definition scoped_ready ::
  "digest \<Rightarrow> compiled_graph \<Rightarrow> runtime_state \<Rightarrow> claim_scope \<Rightarrow> block_type option \<Rightarrow> claim_guard \<Rightarrow> string \<Rightarrow>
   bool res" where
  "scoped_ready sha g s scope blockType guard ref =
     try_bind (requireMapValue (blockTaskByRef g) ref ''blockTaskByRef'') (\<lambda>taskId.
     try_bind (blockMatchesClaimFilter ref g scope blockType) (\<lambda>matches.
     if \<not> matches then Inr False
     else try_bind (blockReadyWithoutProjectBlockers sha g s ref) (\<lambda>ready.
       Inr (ready \<and> truthy (projectBlockerReason guard (Some taskId)) = None))))"

definition buildClaimReadiness ::
  "digest \<Rightarrow> compiled_graph \<Rightarrow> manifest \<Rightarrow> runtime_state \<Rightarrow> claim_scope option \<Rightarrow> block_type option \<Rightarrow>
   claim_guard option \<Rightarrow> claim_readiness res" where
  "buildClaimReadiness sha g mf s scope0 blockType guard0 =
     (let scope = normalizeClaimScope scope0;
          guard = (case guard0 of None \<Rightarrow> noProjectGraphBlockers | Some gd \<Rightarrow> gd);
          isReview = (\<lambda>ref. try_bind (getBlock g ref) (\<lambda>b. Inr (mb_type b = Review)));
          isWork = (\<lambda>ref. try_bind (getBlock g ref) (\<lambda>b. Inr (mb_type b \<noteq> Review)));
          candidate = (\<lambda>ref. claimCandidate ref g Claimed (mf_defaultExecutor mf))
      in
      try_bind (currentClaimBlockedReason g s) (\<lambda>defaultReason.
      try_bind (buildClaimHints sha g s guard defaultReason (mf_maxConcurrent mf) (mf_defaultExecutor mf))
        (\<lambda>hints.
      try_bind (filter_res (scoped_ready sha g s scope blockType guard) (blockRefsInManifestOrder g))
        (\<lambda>scopedReadyRefs.
      try_bind (filter_res isWork scopedReadyRefs) (\<lambda>workRefs.
      try_bind (map_res candidate workRefs) (\<lambda>workCandidates.
      try_bind (filter_res isReview scopedReadyRefs) (\<lambda>reviewRefs.
      try_bind (map_res candidate reviewRefs) (\<lambda>reviewCandidates.
      try_bind (buildClaimOrder sha g mf s scope blockType guard) (\<lambda>order.
      try_bind (selectedParallelBatchRefs sha g mf s scope blockType guard) (\<lambda>batch.
      try_bind (firstProjectBlockedResult sha g s scope blockType guard) (\<lambda>projectBlocked.
      try_bind (firstBlockedResult g s scope) (\<lambda>blocked.
      try_bind (reviewMaxCycleWarnings g s) (\<lambda>warnings.
      Inr \<lparr>cr_scope = scope, cr_invalidScope = validateClaimScope scope g, cr_claimOrder = order,
           cr_defaultClaimBlockedReason = defaultReason, cr_claimHints = hints,
           cr_nextClaimable = map ch_ref (filter ch_ready hints),
           cr_nextParallelClaimable =
             map ch_ref (filter (\<lambda>h. ch_ready h \<and> ch_blockType h = Implementation) hints),
           cr_nextSequentialClaimable =
             map ch_ref (filter (\<lambda>h. ch_ready h \<and> ch_blockType h = Review) hints),
           cr_nextParallelDispatchable = map ch_ref (filter ch_dispatchable hints),
           cr_scopedNextSequentialClaimable = reviewRefs,
           cr_sequentialImplementationCandidates = workCandidates,
           cr_sequentialReviewCandidates = reviewCandidates, cr_parallelBatchRefs = batch,
           cr_firstProjectBlockedResult = projectBlocked, cr_firstBlockedResult = blocked,
           cr_warnings = warnings\<rparr>)))))))))))))"

section \<open>Readiness on a reconciled state\<close>

definition block_ready :: "digest \<Rightarrow> compiled_graph \<Rightarrow> runtime_state \<Rightarrow> string \<Rightarrow> bool" where
  "block_ready sha g s r \<longleftrightarrow>
     block_status_of s r = Some BReady \<and> deps_ok g s (task_of g r) \<and>
     (if mb_type (block_of g r) = Review then review_claimable sha g s r else bdeps_ok g s r)"

definition claim_matches :: "compiled_graph \<Rightarrow> claim_scope \<Rightarrow> block_type option \<Rightarrow> string \<Rightarrow> bool" where
  "claim_matches g scope bt r \<longleftrightarrow>
     blockInScope r g scope \<and> (bt = None \<or> bt = Some (mb_type (block_of g r)))"

definition unblocked :: "claim_guard \<Rightarrow> compiled_graph \<Rightarrow> string \<Rightarrow> bool" where
  "unblocked guard g r \<longleftrightarrow> truthy (projectBlockerReason guard (Some (task_of g r))) = None"

text \<open>The standing assumptions: a compiled graph and a state that covers it.\<close>

definition loaded :: "compiled_graph \<Rightarrow> runtime_state \<Rightarrow> bool" where
  "loaded g s \<longleftrightarrow> graph_named g \<and> covers g s"

lemma loadedD [dest]:
  assumes "loaded g s"
  shows "graph_named g" and "graph_ok g" and "covers g s"
  using assms by (auto simp: loaded_def graph_named_def)

lemma blockMatches_eq:
  assumes "loaded g s" and "r \<in> set (blockRefsInManifestOrder g)"
  shows "blockMatchesClaimFilter r g scope bt = Inr (claim_matches g scope bt r)"
  by (simp add: blockMatchesClaimFilter_def claim_matches_def getBlock_eq [OF loadedD(2) [OF assms(1)] assms(2)])

lemma blockReady_eq:
  assumes "loaded g s" and "r \<in> set (blockRefsInManifestOrder g)"
  shows "blockReadyWithoutProjectBlockers sha g s r = Inr (block_ready sha g s r)"
proof -
  note l = loadedD [OF assms(1)]
  note get = block_of_get [OF l(2) assms(2)]
  show ?thesis
    using get taskDependenciesSatisfied_eq [OF l(2,3) get(3)]
    by (auto simp: blockReadyWithoutProjectBlockers_def getBlock_eq [OF l(2) assms(2)]
        requireBlockState_eq [OF l(3) assms(2)] canClaimReviewBlock_eq [OF l(1,3) assms(2)]
        blockDependenciesCompleted_eq [OF l(2,3) assms(2)] block_ready_def
        covers_status [OF l(3) assms(2)])
qed

lemma in_progress_review_eq:
  assumes "loaded g s"
  shows "in_progress_review g s = Inr (List.find (\<lambda>r. mb_type (block_of g r) = Review \<and>
     block_status_of s r = Some BInProgress \<and> bs_remoteOwnership (bstate s r) = None)
     (blockRefsInManifestOrder g))"
  unfolding in_progress_review_def
  using getBlock_eq [OF loadedD(2) [OF assms]] requireBlockState_eq [OF loadedD(3) [OF assms]]
    covers_status [OF loadedD(3) [OF assms]]
  by (intro find_res_Inr) auto

lemma currentClaimBlockedReason_ok:
  assumes "loaded g s"
  shows "\<exists>c. currentClaimBlockedReason g s = Inr c"
proof -
  have "find_res (\<lambda>ref. try_bind (getBlock g ref) (\<lambda>block. if mb_type block = Review then Inr False
        else try_bind (requireBlockState s ref) (\<lambda>b. Inr (bs_status b = BInProgress))))
      (blockRefsInManifestOrder g) =
      Inr (List.find (\<lambda>r. mb_type (block_of g r) \<noteq> Review \<and> bs_status (bstate s r) = BInProgress)
        (blockRefsInManifestOrder g))"
    using getBlock_eq [OF loadedD(2) [OF assms]] requireBlockState_eq [OF loadedD(3) [OF assms]]
    by (intro find_res_Inr) auto
  then show ?thesis
    by (auto simp: currentClaimBlockedReason_def in_progress_review_eq [OF assms] split: option.splits)
qed

subsection \<open>The parallel batch\<close>

text \<open>What a set of work selected next to the running work has to satisfy.\<close>

definition batch_ok ::
  "digest \<Rightarrow> compiled_graph \<Rightarrow> manifest \<Rightarrow> runtime_state \<Rightarrow> claim_guard \<Rightarrow> string list \<Rightarrow> bool" where
  "batch_ok sha g mf s guard sel \<longleftrightarrow>
     set sel \<subseteq> set (blockRefsInManifestOrder g) \<and>
     (sel \<noteq> [] \<longrightarrow> length (running_refs s) + length sel \<le> mf_maxConcurrent mf) \<and>
     (\<forall>r \<in> set sel. block_ready sha g s r \<and> unblocked guard g r \<and>
        (\<forall>c \<in> set (running_refs s) \<union> set sel. \<not> refs_conflict g r c))"

definition works_only :: "compiled_graph \<Rightarrow> string list \<Rightarrow> bool" where
  "works_only g sel \<longleftrightarrow> (\<forall>r \<in> set sel. mb_type (block_of g r) = Implementation)"

lemma dispatchable_ready: "dispatchable g s mx sel r \<Longrightarrow> block_ready sha g s r"
  by (simp add: dispatchable_def block_ready_def)

lemma select_implementation_eq:
  assumes l: "loaded g s" and r: "r \<in> set (blockRefsInManifestOrder g)"
    and sel: "set sel \<subseteq> set (blockRefsInManifestOrder g)"
  shows "select_implementation g mf s scope bt guard (running_refs s) r sel =
     Inr (if claim_matches g scope bt r \<and> unblocked guard g r \<and> dispatchable g s (mf_maxConcurrent mf) sel r
          then sel @ [r] else sel)"
proof -
  note ld = loadedD [OF l]
  note get = block_of_get [OF ld(2) r]
  have run: "r \<in> set (running_refs s) \<Longrightarrow> \<not> dispatchable g s (mf_maxConcurrent mf) sel r"
    by (simp add: running_refs_def dispatchable_def)
  have ty: "mb_type b = Review \<longleftrightarrow> mb_type b \<noteq> Implementation" for b by (cases b) simp_all
  show ?thesis
    using get run
    by (auto simp: select_implementation_def getBlock_eq [OF ld(2) r] blockMatches_eq [OF l r]
        requireBlockState_eq [OF ld(3) r] canDispatch_eq [OF ld(1,3) r sel] unblocked_def ty
        covers_status [OF ld(3) r] dispatchable_def)
qed

lemma batch_ok_step:
  assumes "batch_ok sha g mf s guard sel" and "r \<in> set (blockRefsInManifestOrder g)"
    and "block_ready sha g s r" and "unblocked guard g r"
    and "length (running_refs s) + length sel < mf_maxConcurrent mf"
    and "\<forall>c \<in> set (running_refs s) \<union> set sel. \<not> refs_conflict g r c"
  shows "batch_ok sha g mf s guard (sel @ [r])"
proof -
  have "\<not> refs_conflict g r r" by (simp add: refs_conflict_def)
  moreover have "\<not> refs_conflict g q r" if "q \<in> set sel" for q
    using assms(6) that refs_conflict_sym [of g q r] by auto
  ultimately show ?thesis using assms by (auto simp: batch_ok_def)
qed

lemma select_loop:
  assumes l: "loaded g s"
  shows "\<exists>sel. for_res (select_implementation g mf s scope bt guard (running_refs s))
           (blockRefsInManifestOrder g) [] = Inr sel \<and> batch_ok sha g mf s guard sel \<and> works_only g sel"
proof (rule for_res_total [where I = "\<lambda>sel. batch_ok sha g mf s guard sel \<and> works_only g sel"])
  show "batch_ok sha g mf s guard [] \<and> works_only g []" by (simp add: batch_ok_def works_only_def)
next
  fix r sel
  assume r: "r \<in> set (blockRefsInManifestOrder g)" and I: "batch_ok sha g mf s guard sel \<and> works_only g sel"
  then have sub: "set sel \<subseteq> set (blockRefsInManifestOrder g)" by (simp add: batch_ok_def)
  let ?go = "claim_matches g scope bt r \<and> unblocked guard g r \<and> dispatchable g s (mf_maxConcurrent mf) sel r"
  have "batch_ok sha g mf s guard (sel @ [r]) \<and> works_only g (sel @ [r])" if ?go
    using that I r dispatchable_ready [of g s "mf_maxConcurrent mf" sel r sha]
    by (auto intro!: batch_ok_step simp: dispatchable_def works_only_def)
  with I show "\<exists>sel'. select_implementation g mf s scope bt guard (running_refs s) r sel = Inr sel' \<and>
      batch_ok sha g mf s guard sel' \<and> works_only g sel'"
    unfolding select_implementation_eq [OF l r sub] by (cases ?go) auto
qed

lemma no_conflict_res:
  assumes "graph_named g" and "r \<in> set (blockRefsInManifestOrder g)" and "set xs \<subseteq> set (blockRefsInManifestOrder g)"
  shows "every_res (\<lambda>a. try_bind (refsConflict g r a) (\<lambda>c. Inr (\<not> c))) xs =
     Inr (\<forall>a \<in> set xs. \<not> refs_conflict g r a)"
proof -
  have "every_res (\<lambda>a. try_bind (refsConflict g r a) (\<lambda>c. Inr (\<not> c))) xs =
      Inr (list_all (\<lambda>a. \<not> refs_conflict g r a) xs)"
    using assms refsConflict_eq [OF assms(1,2)] by (intro every_res_Inr) auto
  then show ?thesis by (simp add: list_all_iff)
qed

definition slot_review ::
  "digest \<Rightarrow> compiled_graph \<Rightarrow> runtime_state \<Rightarrow> claim_scope \<Rightarrow> block_type option \<Rightarrow> claim_guard \<Rightarrow>
   string list \<Rightarrow> string \<Rightarrow> bool" where
  "slot_review sha g s scope bt guard sel r \<longleftrightarrow>
     mb_type (block_of g r) = Review \<and> claim_matches g scope bt r \<and> block_ready sha g s r \<and>
     unblocked guard g r \<and> (\<forall>a \<in> set (running_refs s) \<union> set sel. \<not> refs_conflict g r a)"

lemma running_refs_mem:
  "covers g s \<Longrightarrow> set (running_refs s) \<subseteq> set (blockRefsInManifestOrder g)"
  by (auto simp: running_refs_def covers_def)

lemma review_fills_slot_eq:
  assumes l: "loaded g s" and r: "r \<in> set (blockRefsInManifestOrder g)"
    and sel: "set sel \<subseteq> set (blockRefsInManifestOrder g)"
  shows "review_fills_slot sha g s scope bt guard (running_refs s) sel r =
     Inr (slot_review sha g s scope bt guard sel r)"
proof -
  note ld = loadedD [OF l]
  note get = block_of_get [OF ld(2) r]
  show ?thesis
    using get
    by (auto simp: review_fills_slot_def getBlock_eq [OF ld(2) r] blockMatches_eq [OF l r]
        blockReady_eq [OF l r] no_conflict_res [OF ld(1) r running_refs_mem [OF ld(3)]]
        no_conflict_res [OF ld(1) r sel] slot_review_def unblocked_def)
qed

lemma parallel_batch:
  assumes l: "loaded g s"
  shows "\<exists>sel. selectedParallelBatchRefs sha g mf s scope bt guard = Inr sel \<and>
     batch_ok sha g mf s guard sel \<and>
     (\<exists>w. sel = w \<and> works_only g w \<or>
          (\<exists>r. sel = w @ [r] \<and> w \<noteq> [] \<and> works_only g w \<and> mb_type (block_of g r) = Review \<and>
             (\<forall>c \<in> set (running_refs s). mb_type (block_of g c) \<noteq> Review)))"
proof -
  note ld = loadedD [OF l]
  from select_loop [OF l] obtain w where
    w: "for_res (select_implementation g mf s scope bt guard (running_refs s))
           (blockRefsInManifestOrder g) [] = Inr w" "batch_ok sha g mf s guard w" "works_only g w" by blast
  then have sub: "set w \<subseteq> set (blockRefsInManifestOrder g)" by (simp add: batch_ok_def)
  have rev: "some_res (\<lambda>ref. try_bind (getBlock g ref) (\<lambda>b. Inr (mb_type b = Review))) (running_refs s) =
      Inr (list_ex (\<lambda>r. mb_type (block_of g r) = Review) (running_refs s))"
    using running_refs_mem [OF ld(3)] getBlock_eq [OF ld(2)] by (intro some_res_Inr) auto
  have fnd: "find_res (review_fills_slot sha g s scope bt guard (running_refs s) w) (blockRefsInManifestOrder g) =
      Inr (List.find (slot_review sha g s scope bt guard w) (blockRefsInManifestOrder g))"
    using review_fills_slot_eq [OF l _ sub] by (intro find_res_Inr) auto
  let ?stop = "w = [] \<or> mf_maxConcurrent mf \<le> length (running_refs s) + length w \<or>
      list_ex (\<lambda>r. mb_type (block_of g r) = Review) (running_refs s)"
  let ?f = "List.find (slot_review sha g s scope bt guard w) (blockRefsInManifestOrder g)"
  have eval: "selectedParallelBatchRefs sha g mf s scope bt guard =
      Inr (if ?stop then w else case ?f of None \<Rightarrow> w | Some r \<Rightarrow> w @ [r])"
    by (simp add: selectedParallelBatchRefs_def inProgressBlockRefs_eq [OF ld(2,3)] w(1) rev fnd)
  show ?thesis
  proof (cases "?stop \<or> ?f = None")
    case True
    with eval have "selectedParallelBatchRefs sha g mf s scope bt guard = Inr w" by auto
    with w show ?thesis by blast
  next
    case False
    then obtain r where r: "?f = Some r" by auto
    then have mem: "r \<in> set (blockRefsInManifestOrder g)" and slot: "slot_review sha g s scope bt guard w r"
      by (auto dest: find_Some_iff_mem)
    from eval False r have "selectedParallelBatchRefs sha g mf s scope bt guard = Inr (w @ [r])" by auto
    moreover have "batch_ok sha g mf s guard (w @ [r])"
      using False slot by (intro batch_ok_step [OF w(2) mem]) (auto simp: slot_review_def)
    moreover have "\<forall>c \<in> set (running_refs s). mb_type (block_of g c) \<noteq> Review"
      using False by (auto simp: list_ex_iff)
    ultimately show ?thesis using w(3) slot False by (auto simp: slot_review_def)
  qed
qed

subsection \<open>The other parts of the readiness record\<close>

lemma claimCandidate_eq:
  assumes "graph_ok g" and "r \<in> set (blockRefsInManifestOrder g)"
  shows "claimCandidate r g m d = Inr \<lparr>cc_ref = r, cc_result = claim_for g d m r\<rparr>"
  by (simp add: claimCandidate_def claimResultForBlock_eq [OF assms])

lemma scoped_ready_eq:
  assumes "loaded g s" and "r \<in> set (blockRefsInManifestOrder g)"
  shows "scoped_ready sha g s scope bt guard r =
     Inr (claim_matches g scope bt r \<and> block_ready sha g s r \<and> unblocked guard g r)"
  using block_of_get(2) [OF loadedD(2) [OF assms(1)] assms(2)]
  by (simp add: scoped_ready_def blockMatches_eq [OF assms] blockReady_eq [OF assms] unblocked_def)

lemma filter_res_ok:
  assumes "\<And>x. x \<in> set xs \<Longrightarrow> \<exists>b. f x = Inr b"
  shows "\<exists>ys. filter_res f xs = Inr ys"
  using assms
proof (induction xs)
  case Nil
  then show ?case by simp
next
  case (Cons x xs)
  then obtain b ys where "f x = Inr b" "filter_res f xs = Inr ys" by fastforce
  then show ?case by simp
qed

lemma tasks_known:
  assumes "covers g s" and "t \<in> set (taskNodesInManifestOrder g)"
  shows "\<exists>ts. requireTaskState s t = Inr ts"
proof -
  have "map_has (rs_tasks s) t" using assms by (simp add: covers_def)
  then show ?thesis by (auto simp: requireTaskState_def map_has_get)
qed

lemma dependencyBlockers_ok:
  assumes l: "loaded g s" and r: "r \<in> set (blockRefsInManifestOrder g)"
  shows "\<exists>p. dependencyBlockers g s r block (task_of g r) = Inr p"
proof -
  note ld = loadedD [OF l]
  note t = block_of_get(3) [OF ld(2) r]
  from graph_wf_task(2) [OF graph_ok_wf [OF ld(2)] t] obtain td where
    td: "map_get (taskDependenciesByTask g) (task_of g r) = Some td" "set td \<subseteq> set (taskNodesInManifestOrder g)"
    by auto
  note bd = block_deps_get [OF ld(2) r]
  have ts: "\<exists>b. try_bind (requireTaskState s d) (\<lambda>t. Inr (ts_status t \<noteq> TImplemented)) = Inr b"
    if "d \<in> set td" for d
  proof -
    from tasks_known [OF ld(3)] that td(2) obtain ts where "requireTaskState s d = Inr ts" by blast
    then show ?thesis by simp
  qed
  have "\<exists>ys. filter_res (\<lambda>d. try_bind (requireTaskState s d) (\<lambda>t. Inr (ts_status t \<noteq> TImplemented))) td = Inr ys"
    by (rule filter_res_ok) (rule ts)
  then obtain ys where
    f1: "filter_res (\<lambda>d. try_bind (requireTaskState s d) (\<lambda>t. Inr (ts_status t \<noteq> TImplemented))) td = Inr ys" ..
  have bs: "filter_res (\<lambda>d. try_bind (requireBlockState s d) (\<lambda>b. Inr (bs_status b \<noteq> BCompleted))) xs =
      Inr (filter (\<lambda>d. bs_status (bstate s d) \<noteq> BCompleted) xs)"
    if "set xs \<subseteq> set (blockRefsInManifestOrder g)" for xs
    using that requireBlockState_eq [OF ld(3)] by (intro filter_res_Inr) auto
  have imp: "set (implementation_refs g (task_of g r)) \<subseteq> set (blockRefsInManifestOrder g)"
    using implementation_refs_mem(1) [OF ld(2)] by blast
  show ?thesis
    by (simp add: dependencyBlockers_def td(1) f1 bd(1) bs [OF bd(2)] requiredImplementationRefs_eq [OF ld(2) t]
        bs [OF imp])
qed

lemma reviewGateUnlocks_ok:
  assumes l: "loaded g s" and ds: "set ds \<subseteq> set (taskNodesInManifestOrder g)"
  shows "\<exists>ys. reviewGateUnlocksTasks t ds s g = Inr ys"
  unfolding reviewGateUnlocksTasks_def
proof (rule filter_res_ok)
  fix d
  assume "d \<in> set ds"
  note ld = loadedD [OF l]
  from graph_wf_task(2) [OF graph_ok_wf [OF ld(2)]] \<open>d \<in> set ds\<close> ds obtain td where
    td: "map_get (taskDependenciesByTask g) d = Some td" "set td \<subseteq> set (taskNodesInManifestOrder g)" by blast
  have "every_res (\<lambda>x. if x = t then Inr True
        else try_bind (requireTaskState s x) (\<lambda>u. Inr (ts_status u = TImplemented))) td =
      Inr (list_all (\<lambda>x. x = t \<or> ts_status (projr (requireTaskState s x)) = TImplemented) td)"
  proof (rule every_res_Inr)
    fix x
    assume "x \<in> set td"
    with td(2) tasks_known [OF ld(3)] obtain u where "requireTaskState s x = Inr u" by blast
    then show "(if x = t then Inr True
        else try_bind (requireTaskState s x) (\<lambda>u. Inr (ts_status u = TImplemented))) =
        Inr (x = t \<or> ts_status (projr (requireTaskState s x)) = TImplemented)" by simp
  qed
  with td(1) show "\<exists>b. try_bind (requireMapValue (taskDependenciesByTask g) d ''taskDependenciesByTask'')
      (every_res (\<lambda>x. if x = t then Inr True
        else try_bind (requireTaskState s x) (\<lambda>u. Inr (ts_status u = TImplemented)))) = Inr b" by simp
qed

lemma claim_hint_ok:
  assumes l: "loaded g s" and r: "r \<in> set (blockRefsInManifestOrder g)"
  shows "\<exists>h. claim_hint_for sha g s guard dr mx d r = Inr h \<and> ch_ref h = r \<and>
     ch_blockType h = mb_type (block_of g r) \<and>
     (ch_ready h \<longleftrightarrow> block_ready sha g s r \<and> dr = None \<and>
        projectBlockerReason guard (Some (task_of g r)) = None) \<and>
     (ch_dispatchable h \<longleftrightarrow> projectBlockerReason guard (Some (task_of g r)) = None \<and>
        dispatchable g s mx [] r) \<and>
     ch_blockedByProject h = projectBlockers guard (Some (task_of g r))"
proof -
  note ld = loadedD [OF l]
  note get = block_of_get [OF ld(2) r]
  have parse: "parseBlockRef r = Inr (task_of g r, mb_id (block_of g r))"
    using graph_ok_ref [OF ld(2) r] by (auto simp: task_of_def block_of_def)
  from dependencyBlockers_ok [OF l r] obtain bl where
    bl: "dependencyBlockers g s r (block_of g r) (task_of g r) = Inr bl" by blast
  from graph_wf_task(3) [OF graph_ok_wf [OF ld(2)] get(3)] obtain dn where
    dn: "map_get (taskDependentsByTask g) (task_of g r) = Some dn" "set dn \<subseteq> set (taskNodesInManifestOrder g)"
    by auto
  from reviewGateUnlocks_ok [OF l dn(2)] obtain un where
    un: "reviewGateUnlocksTasks (task_of g r) dn s g = Inr un" by blast
  have disp: "canDispatchImplementationBlock g s r mx [] = Inr (dispatchable g s mx [] r)"
    by (rule canDispatch_eq [OF ld(1,3) r]) simp
  show ?thesis
    by (simp add: claim_hint_for_def get(1,2) requireBlockState_eq [OF ld(3) r] parse bl blockReady_eq [OF l r]
        disp dn(1) un requiredImplementationRefs_eq [OF ld(2) get(3)] effectiveBlockExecutor_eq [OF ld(2) r] Let_def)
qed

lemma hints_ok:
  assumes "loaded g s"
  shows "\<exists>hs. buildClaimHints sha g s guard dr mx d = Inr hs \<and> map ch_ref hs = blockRefsInManifestOrder g"
proof -
  have "\<exists>hs. map_res (claim_hint_for sha g s guard dr mx d) rs = Inr hs \<and> map ch_ref hs = rs"
    if "set rs \<subseteq> set (blockRefsInManifestOrder g)" for rs
    using that
  proof (induction rs)
    case Nil
    then show ?case by simp
  next
    case (Cons r rs)
    from claim_hint_ok [OF assms, of r sha guard dr mx d] Cons.prems obtain h where
      "claim_hint_for sha g s guard dr mx d r = Inr h" "ch_ref h = r" by auto
    with Cons show ?case by auto
  qed
  then show ?thesis by (simp add: buildClaimHints_def)
qed

lemma reviewClaimForm_ok:
  assumes "loaded g s" and "r \<in> set (blockRefsInManifestOrder g)"
  shows "\<exists>f. reviewClaimForm sha g s r = Inr f"
  using block_of_get(1) [OF loadedD(2) [OF assms(1)] assms(2)]
    requireBlockState_eq [OF loadedD(3) [OF assms(1)] assms(2)]
    canClaimReviewBlock_eq [OF loadedD(1,3) [OF assms(1)] assms(2)]
  by (auto simp: reviewClaimForm_def)

definition current_work_ref :: "compiled_graph \<Rightarrow> runtime_state \<Rightarrow> string option" where
  "current_work_ref g s =
     List.find (\<lambda>r. block_status_of s r = Some BInProgress \<and> bs_remoteOwnership (bstate s r) = None \<and>
       mb_type (block_of g r) \<noteq> Review) (blockRefsInManifestOrder g)"

lemma order_current_eq:
  assumes l: "loaded g s"
  shows "order_current g mf s scope bt = Inr
     (case current_work_ref g s of
        None \<Rightarrow> OrderReady
      | Some r \<Rightarrow>
          if bt \<noteq> None \<and> bt \<noteq> Some (mb_type (block_of g r)) then OrderBlocked (BlockedClaim (Some r) BlockOutsideType)
          else if \<not> blockInScope r g scope then OrderBlocked (BlockedClaim (Some r) BlockOutsideScope)
          else OrderCurrentBlock r (claim_for g (mf_defaultExecutor mf) Current r))"
proof -
  note ld = loadedD [OF l]
  have fnd: "find_res (\<lambda>ref. try_bind (getBlock g ref) (\<lambda>block. try_bind (requireBlockState s ref) (\<lambda>b.
         Inr (bs_status b = BInProgress \<and> bs_remoteOwnership b = None \<and> mb_type block \<noteq> Review))))
       (blockRefsInManifestOrder g) = Inr (current_work_ref g s)"
    unfolding current_work_ref_def
    using getBlock_eq [OF ld(2)] requireBlockState_eq [OF ld(3)] covers_status [OF ld(3)]
    by (intro find_res_Inr) auto
  show ?thesis
  proof (cases "current_work_ref g s")
    case None
    then show ?thesis by (simp add: order_current_def fnd)
  next
    case (Some r)
    then have r: "r \<in> set (blockRefsInManifestOrder g)"
      by (auto simp: current_work_ref_def dest: find_Some_iff_mem)
    show ?thesis
      by (simp add: order_current_def fnd Some getBlock_eq [OF ld(2) r] claimCandidate_eq [OF ld(2) r])
  qed
qed

lemma order_review_ok:
  assumes "loaded g s" and "r \<in> set (blockRefsInManifestOrder g)"
  shows "\<exists>c. order_review sha g mf s scope bt r = Inr c"
proof -
  from reviewClaimForm_ok [OF assms] obtain f where "reviewClaimForm sha g s r = Inr f" by blast
  then show ?thesis
    using order_current_eq [OF assms(1)] requireBlockState_eq [OF loadedD(3) [OF assms(1)] assms(2)]
      claimCandidate_eq [OF loadedD(2) [OF assms(1)] assms(2)]
    by (auto simp: order_review_def Let_def split: option.splits)
qed

lemma order_feedback_ok:
  assumes "graph_named g" and "fb_sourceReviewBlockRef fb \<in> set (blockRefsInManifestOrder g)"
  shows "\<exists>c. order_feedback g mf scope guard f fb = Inr c"
  using effectiveFeedbackExecutor_ok [OF assms, of "mf_defaultExecutor mf"] truthy_task_of [OF assms]
  by (auto simp: order_feedback_def split: option.splits)

definition feedback_known :: "compiled_graph \<Rightarrow> runtime_state \<Rightarrow> bool" where
  "feedback_known g s \<longleftrightarrow>
     (\<forall>p \<in> set (rs_feedback s). fb_sourceReviewBlockRef (snd p) \<in> set (blockRefsInManifestOrder g))"

lemma buildClaimOrder_ok:
  assumes l: "loaded g s" and fb: "feedback_known g s"
  shows "\<exists>c. buildClaimOrder sha g mf s scope bt guard = Inr c"
proof (cases "activeOpenFeedback s")
  case Nil
  show ?thesis
  proof (cases "List.find (\<lambda>r. mb_type (block_of g r) = Review \<and> block_status_of s r = Some BInProgress \<and>
      bs_remoteOwnership (bstate s r) = None) (blockRefsInManifestOrder g)")
    case None
    with Nil show ?thesis
      by (simp add: buildClaimOrder_def in_progress_review_eq [OF l] order_current_eq [OF l])
  next
    case (Some r)
    then have "r \<in> set (blockRefsInManifestOrder g)" by (auto dest: find_Some_iff_mem)
    with order_review_ok [OF l this] Nil Some show ?thesis
      by (simp add: buildClaimOrder_def in_progress_review_eq [OF l])
  qed
next
  case (Cons p ps)
  then have "p \<in> set (activeOpenFeedback s)" by simp
  then have "p \<in> set (rs_feedback s)" by (auto simp: activeOpenFeedback_def)
  with fb have src: "fb_sourceReviewBlockRef (snd p) \<in> set (blockRefsInManifestOrder g)"
    by (simp add: feedback_known_def)
  from order_feedback_ok [OF loadedD(1) [OF l] src, of mf scope guard "fst p"] Cons show ?thesis
    by (cases p; cases ps) (auto simp: buildClaimOrder_def)
qed

lemma firstProjectBlocked_ok:
  assumes l: "loaded g s"
  shows "\<exists>x. firstProjectBlockedResult sha g s scope bt guard = Inr x"
proof -
  have "find_res (\<lambda>c. try_bind (blockMatchesClaimFilter c g scope bt) (\<lambda>matches.
         if \<not> matches then Inr False
         else try_bind (blockReadyWithoutProjectBlockers sha g s c) (\<lambda>ready.
           if \<not> ready then Inr False
           else try_bind (requireMapValue (blockTaskByRef g) c ''blockTaskByRef'') (\<lambda>taskId.
                Inr (truthy (projectBlockerReason guard (Some taskId)) \<noteq> None)))))
       (blockRefsInManifestOrder g) =
      Inr (List.find (\<lambda>r. claim_matches g scope bt r \<and> block_ready sha g s r \<and> \<not> unblocked guard g r)
        (blockRefsInManifestOrder g))"
    using blockMatches_eq [OF l] blockReady_eq [OF l] block_of_get(2) [OF loadedD(2) [OF l]]
    by (intro find_res_Inr) (auto simp: unblocked_def)
  then show ?thesis
    using block_of_get(2) [OF loadedD(2) [OF l]]
    by (auto simp: firstProjectBlockedResult_def dest!: find_Some_iff_mem split: option.splits)
qed

lemma firstBlocked_ok:
  assumes l: "loaded g s"
  shows "\<exists>x. firstBlockedResult g s scope = Inr x"
proof -
  have "find_res (\<lambda>c. if \<not> blockInScope c g scope then Inr False
         else try_bind (requireBlockState s c) (\<lambda>b. Inr (bs_status b = BBlocked)))
       (blockRefsInManifestOrder g) =
      Inr (List.find (\<lambda>r. blockInScope r g scope \<and> bs_status (bstate s r) = BBlocked)
        (blockRefsInManifestOrder g))"
    using requireBlockState_eq [OF loadedD(3) [OF l]] by (intro find_res_Inr) auto
  then show ?thesis
    using requireBlockState_eq [OF loadedD(3) [OF l]]
    by (auto simp: firstBlockedResult_def dest!: find_Some_iff_mem split: option.splits)
qed

lemma warnings_ok:
  assumes l: "loaded g s"
  shows "\<exists>x. reviewMaxCycleWarnings g s = Inr x"
  unfolding reviewMaxCycleWarnings_def
  using requireBlockState_eq [OF loadedD(3) [OF l]] by (intro filter_res_ok) auto

definition scoped_refs ::
  "digest \<Rightarrow> compiled_graph \<Rightarrow> runtime_state \<Rightarrow> claim_scope \<Rightarrow> block_type option \<Rightarrow> claim_guard \<Rightarrow> string list" where
  "scoped_refs sha g s scope bt guard =
     filter (\<lambda>r. claim_matches g scope bt r \<and> block_ready sha g s r \<and> unblocked guard g r)
       (blockRefsInManifestOrder g)"

text \<open>The readiness record of a loaded state: what the scheduler reads from it.\<close>

lemma buildClaimReadiness_ok:
  assumes l: "loaded g s" and fb: "feedback_known g s"
  shows "\<exists>rd. buildClaimReadiness sha g mf s (Some scope) bt (Some guard) = Inr rd \<and>
     map ch_ref (cr_claimHints rd) = blockRefsInManifestOrder g \<and>
     buildClaimOrder sha g mf s scope bt guard = Inr (cr_claimOrder rd) \<and>
     selectedParallelBatchRefs sha g mf s scope bt guard = Inr (cr_parallelBatchRefs rd) \<and>
     cr_sequentialImplementationCandidates rd =
       map (\<lambda>r. \<lparr>cc_ref = r, cc_result = claim_for g (mf_defaultExecutor mf) Claimed r\<rparr>)
         (filter (\<lambda>r. mb_type (block_of g r) \<noteq> Review) (scoped_refs sha g s scope bt guard)) \<and>
     cr_sequentialReviewCandidates rd =
       map (\<lambda>r. \<lparr>cc_ref = r, cc_result = claim_for g (mf_defaultExecutor mf) Claimed r\<rparr>)
         (filter (\<lambda>r. mb_type (block_of g r) = Review) (scoped_refs sha g s scope bt guard))"
proof -
  note ld = loadedD [OF l]
  from currentClaimBlockedReason_ok [OF l] obtain c where c: "currentClaimBlockedReason g s = Inr c" by blast
  from hints_ok [OF l] obtain hs where
    hs: "buildClaimHints sha g s guard c (mf_maxConcurrent mf) (mf_defaultExecutor mf) = Inr hs"
      "map ch_ref hs = blockRefsInManifestOrder g" by blast
  have sc: "filter_res (scoped_ready sha g s scope bt guard) (blockRefsInManifestOrder g) =
      Inr (scoped_refs sha g s scope bt guard)"
    unfolding scoped_refs_def using scoped_ready_eq [OF l] by (intro filter_res_Inr) auto
  have mem: "r \<in> set (blockRefsInManifestOrder g)" if "r \<in> set (scoped_refs sha g s scope bt guard)" for r
    using that by (simp add: scoped_refs_def)
  have f: "filter_res (\<lambda>ref. try_bind (getBlock g ref) (\<lambda>b. Inr (Q (mb_type b))))
        (scoped_refs sha g s scope bt guard) =
      Inr (filter (\<lambda>r. Q (mb_type (block_of g r))) (scoped_refs sha g s scope bt guard))" for Q
    using mem getBlock_eq [OF ld(2)] by (intro filter_res_Inr) auto
  have m: "map_res (\<lambda>ref. claimCandidate ref g Claimed (mf_defaultExecutor mf))
        (filter Q (scoped_refs sha g s scope bt guard)) =
      Inr (map (\<lambda>r. \<lparr>cc_ref = r, cc_result = claim_for g (mf_defaultExecutor mf) Claimed r\<rparr>)
        (filter Q (scoped_refs sha g s scope bt guard)))" for Q
    using mem claimCandidate_eq [OF ld(2)] by (intro map_res_Inr) auto
  from buildClaimOrder_ok [OF l fb] obtain co where co: "buildClaimOrder sha g mf s scope bt guard = Inr co" by blast
  from parallel_batch [OF l] obtain sel where
    sel: "selectedParallelBatchRefs sha g mf s scope bt guard = Inr sel" by blast
  from firstProjectBlocked_ok [OF l] obtain p where
    p: "firstProjectBlockedResult sha g s scope bt guard = Inr p" by blast
  from firstBlocked_ok [OF l] obtain b where b: "firstBlockedResult g s scope = Inr b" by blast
  from warnings_ok [OF l] obtain w where w: "reviewMaxCycleWarnings g s = Inr w" by blast
  show ?thesis
    using hs(2) f [of "\<lambda>t. t = Review"] f [of "\<lambda>t. t \<noteq> Review"]
    by (simp add: buildClaimReadiness_def normalizeClaimScope_def Let_def c hs(1) sc m co sel p b w)
qed

lemma loaded_reconciled:
  assumes "compileTaskGraph mf = Inr g" and "\<forall>n \<in> set (mf_nodes mf). mn_id n \<noteq> []"
    and "ensureStateForManifest mf s0 = Inr s"
  shows "loaded g s" and "feedback_known g s" and "reconciled g s"
proof -
  show r: "reconciled g s" by (rule ensure_reconciled [OF assms(3,1)])
  have "graph_named g"
    using compile_graph_ok [OF assms(1)] compile_facts(3) [OF assms(1)] assms(2)
    by (auto simp: graph_named_def)
  with reconciled_covers [OF r] show "loaded g s" by (simp add: loaded_def)
  from r show "feedback_known g s" by (simp add: reconciled_def feedback_known_def)
qed

context claim_guard_laws
begin

text \<open>For a lawful guard the reason, tested by truthiness or against null, and the list of blockers
  tell the same.\<close>

lemma unblocked_iff:
  assumes "graph_named g" and "r \<in> set (blockRefsInManifestOrder g)"
  shows "unblocked guard g r \<longleftrightarrow> projectBlockers guard (Some (task_of g r)) = []"
    and "unblocked guard g r \<longleftrightarrow> projectBlockerReason guard (Some (task_of g r)) = None"
proof -
  have "task_of g r \<noteq> []"
    using block_of_get(3) [of g r] assms by (auto simp: graph_named_def)
  then show "unblocked guard g r \<longleftrightarrow> projectBlockers guard (Some (task_of g r)) = []"
    "unblocked guard g r \<longleftrightarrow> projectBlockerReason guard (Some (task_of g r)) = None"
    using reason_iff_blockers [of "task_of g r"] reason_not_empty [of "task_of g r"]
    by (auto simp: unblocked_def projectBlockerReason_def projectBlockers_def truthy_def split: option.splits)
qed

end

section \<open>Properties of the claim selection\<close>

text \<open>C11: A parallel batch is safe to run next to the work in progress. On a reconciled state the
  selection does not throw; the selected blocks plus the running ones stay within
  \<^verbatim>\<open>maxConcurrent\<close>; every selected block is ready with its task and block dependencies
  satisfied (a review with all implementation work completed and no open feedback), is not held back by
  the project graph, and conflicts neither with running work nor with another selected block; at most
  one review is added, after at least one implementation and only when no review is running.\<close>

theorem parallel_batch_safe:
  assumes "compileTaskGraph mf = Inr g" and "\<forall>n \<in> set (mf_nodes mf). mn_id n \<noteq> []"
    and "ensureStateForManifest mf s0 = Inr s"
  shows "\<exists>sel. selectedParallelBatchRefs sha g mf s scope bt guard = Inr sel \<and>
     batch_ok sha g mf s guard sel \<and>
     (works_only g sel \<or>
      (\<exists>w r. sel = w @ [r] \<and> w \<noteq> [] \<and> works_only g w \<and> mb_type (block_of g r) = Review \<and>
         (\<forall>c \<in> set (running_refs s). mb_type (block_of g c) \<noteq> Review)))"
  using parallel_batch [OF loaded_reconciled(1) [OF assms], of sha mf scope bt guard] by blast

definition two_task_manifest :: manifest where
  "two_task_manifest = sample_manifest\<lparr>mf_edges := []\<rparr>"

lemma parallel_batch_safe_witness:
  "\<exists>g s. compileTaskGraph two_task_manifest = Inr g \<and>
     ensureStateForManifest two_task_manifest createEmptyState = Inr s \<and>
     selectedParallelBatchRefs (\<lambda>_. []) g two_task_manifest s ProjectScope None noProjectGraphBlockers =
       Inr [''T2#B1'', ''T1#B1''] \<and>
     batch_ok (\<lambda>_. []) g two_task_manifest s noProjectGraphBlockers [''T2#B1'', ''T1#B1'']"
proof -
  have "res_holds (\<lambda>g. res_holds (\<lambda>s.
        selectedParallelBatchRefs (\<lambda>_. []) g two_task_manifest s ProjectScope None noProjectGraphBlockers =
          Inr [''T2#B1'', ''T1#B1''])
        (ensureStateForManifest two_task_manifest createEmptyState))
      (compileTaskGraph two_task_manifest)" by code_simp
  then obtain g s where gs: "compileTaskGraph two_task_manifest = Inr g"
    "ensureStateForManifest two_task_manifest createEmptyState = Inr s"
    "selectedParallelBatchRefs (\<lambda>_. []) g two_task_manifest s ProjectScope None noProjectGraphBlockers =
       Inr [''T2#B1'', ''T1#B1'']" by (auto simp only: res_holds_iff)
  have "\<forall>n \<in> set (mf_nodes two_task_manifest). mn_id n \<noteq> []"
    by (simp add: two_task_manifest_def sample_manifest_def)
  from parallel_batch_safe [OF gs(1) this gs(2), of "\<lambda>_. []" ProjectScope None noProjectGraphBlockers] gs
  show ?thesis by auto
qed

text \<open>Computing what can be claimed never throws on a reconciled state, and it explains every block
  of the package, in manifest order.\<close>

theorem readiness_never_throws:
  assumes "compileTaskGraph mf = Inr g" and "\<forall>n \<in> set (mf_nodes mf). mn_id n \<noteq> []"
    and "ensureStateForManifest mf s0 = Inr s"
  shows "\<exists>rd. buildClaimReadiness sha g mf s (Some scope) bt (Some guard) = Inr rd \<and>
     map ch_ref (cr_claimHints rd) = blockRefsInManifestOrder g"
  using buildClaimReadiness_ok [OF loaded_reconciled(1,2) [OF assms], of sha mf scope bt guard] by blast

lemma readiness_never_throws_witness:
  "\<exists>g s rd. compileTaskGraph sample_manifest = Inr g \<and>
     ensureStateForManifest sample_manifest sample_state = Inr s \<and>
     buildClaimReadiness (\<lambda>_. []) g sample_manifest s (Some ProjectScope) None (Some noProjectGraphBlockers) =
       Inr rd"
proof -
  from sample_compiles obtain g where g: "compileTaskGraph sample_manifest = Inr g" by blast
  from sample_reconciles obtain s where
    s: "ensureStateForManifest sample_manifest sample_state = Inr s" by (auto simp only: res_holds_iff)
  have "\<forall>n \<in> set (mf_nodes sample_manifest). mn_id n \<noteq> []" by (simp add: sample_manifest_def)
  from readiness_never_throws [OF g this s, of "\<lambda>_. []" ProjectScope None noProjectGraphBlockers] g s
  show ?thesis by blast
qed

text \<open>The hint of a block is exact, for every project guard that keeps its contract: it says ready
  exactly when the block is ready on its own, no current work blocks default claims and the hint lists
  no project blocker; it says dispatchable exactly when the block is an implementation that may run
  beside the current work and the hint lists no project blocker.\<close>

theorem claim_hint_exact:
  assumes "compileTaskGraph mf = Inr g" and "\<forall>n \<in> set (mf_nodes mf). mn_id n \<noteq> []"
    and "ensureStateForManifest mf s0 = Inr s" and "r \<in> set (blockRefsInManifestOrder g)"
    and "claim_guard_laws guard"
  shows "\<exists>h. claim_hint_for sha g s guard cw mx d r = Inr h \<and>
     (ch_ready h \<longleftrightarrow> block_ready sha g s r \<and> cw = None \<and> ch_blockedByProject h = []) \<and>
     (ch_dispatchable h \<longleftrightarrow> dispatchable g s mx [] r \<and> ch_blockedByProject h = [])"
proof -
  note l = loaded_reconciled(1) [OF assms(1-3)]
  note u = claim_guard_laws.unblocked_iff [OF assms(5) loadedD(1) [OF l] assms(4)]
  from claim_hint_ok [OF l assms(4), of sha guard cw mx d] show ?thesis using u by metis
qed

lemma claim_hint_exact_witness:
  "\<exists>g s h. compileTaskGraph two_task_manifest = Inr g \<and>
     ensureStateForManifest two_task_manifest createEmptyState = Inr s \<and>
     claim_hint_for (\<lambda>_. []) g s noProjectGraphBlockers None 2 None ''T1#B1'' = Inr h \<and>
     (ch_ready h \<longleftrightarrow> block_ready (\<lambda>_. []) g s ''T1#B1'')"
proof -
  have "res_holds (\<lambda>g. res_holds (\<lambda>s. ''T1#B1'' \<in> set (blockRefsInManifestOrder g))
        (ensureStateForManifest two_task_manifest createEmptyState))
      (compileTaskGraph two_task_manifest)" by code_simp
  then obtain g s where gs: "compileTaskGraph two_task_manifest = Inr g"
    "ensureStateForManifest two_task_manifest createEmptyState = Inr s"
    "''T1#B1'' \<in> set (blockRefsInManifestOrder g)" by (auto simp only: res_holds_iff)
  have "\<forall>n \<in> set (mf_nodes two_task_manifest). mn_id n \<noteq> []"
    by (simp add: two_task_manifest_def sample_manifest_def)
  from claim_hint_exact [OF gs(1) this gs(2,3) no_guard.claim_guard_laws_axioms, of "\<lambda>_. []" None 2 None]
  obtain h where "claim_hint_for (\<lambda>_. []) g s noProjectGraphBlockers None 2 None ''T1#B1'' = Inr h"
    "ch_ready h \<longleftrightarrow> block_ready (\<lambda>_. []) g s ''T1#B1'' \<and> ch_blockedByProject h = []" by blast
  moreover from this have "ch_blockedByProject h = []"
    by (auto simp: claim_hint_for_def Let_def projectBlockers_def noProjectGraphBlockers_def
        split: option.splits elim!: try_bind_InrE)
  ultimately show ?thesis using gs by blast
qed

end
