(* ===== verification/Workspace.thy ===== *)
theory Workspace
  imports Claim_Readiness
begin

text \<open>
  The files of one canvas and the commands that run on them under the canvas lock:
  \<^verbatim>\<open>taskManager/runtimeContext.ts\<close> (loading the runtime),
  \<^verbatim>\<open>taskManager/resultIndex.ts\<close> (the task result indexes and the allocation of
  numbered directories) and \<^verbatim>\<open>taskManager/feedbackArtifacts.ts\<close>.

  A command is a function from the files to a result and the files it leaves: an exception keeps what
  was written before it. Every mutating command of the task manager runs under
  \<^verbatim>\<open>withExecutionStateLock\<close>, so commands are atomic here and interleavings are sequences of
  commands. A path is the tuple of identifiers it is built from (distinct identifiers, distinct
  paths). In the task index an absent dictionary and an empty one are one value, as the code reads
  them with \<^verbatim>\<open>?? {}\<close>.

  \<open>hoare P c Q E\<close> states a command's contract with one postcondition for a result and one for an
  exception; the rules of \<open>hoare_rules\<close> compose it along \<open>cmd_bind\<close>.
\<close>

section \<open>The files\<close>

record index_counts =
  ic_runs :: "nat option"
  ic_reviewAttempts :: "nat option"
  ic_feedbackEnvelopes :: "nat option"
  ic_feedbackSubmissions :: "nat option"

record index_warning =
  iw_code :: string
  iw_message :: string
  iw_path :: "string option"
  iw_transitionId :: "string option"

record task_index =
  ti_latestRunByBlock :: "(string, string) js_map"
  ti_latestReviewAttemptByBlock :: "(string, string) js_map"
  ti_latestReviewVerdictByBlock :: "(string, review_verdict) js_map"
  ti_latestReviewedWorkRevisionByBlock :: "(string, string) js_map"
  ti_latestFeedbackByReviewBlock :: "(string, string) js_map"
  ti_latestFeedbackSubmissionByFeedback :: "(string, string) js_map"
  ti_feedbackStatusById :: "(string, feedback_status) js_map"
  ti_reviewCompletionReasonByBlock :: "(string, completion_reason) js_map"
  ti_counts :: index_counts
  ti_warnings :: "index_warning list"

definition empty_index :: task_index where
  "empty_index =
     \<lparr>ti_latestRunByBlock = [], ti_latestReviewAttemptByBlock = [], ti_latestReviewVerdictByBlock = [],
      ti_latestReviewedWorkRevisionByBlock = [], ti_latestFeedbackByReviewBlock = [],
      ti_latestFeedbackSubmissionByFeedback = [], ti_feedbackStatusById = [],
      ti_reviewCompletionReasonByBlock = [],
      ti_counts = \<lparr>ic_runs = None, ic_reviewAttempts = None, ic_feedbackEnvelopes = None,
                   ic_feedbackSubmissions = None\<rparr>,
      ti_warnings = []\<rparr>"

record feedback_artifact =
  fa_feedbackId :: string
  fa_sourceReviewBlockRef :: string
  fa_content :: string
  fa_sourceReviewAttemptId :: string
  fa_status :: feedback_status
  fa_createdAt :: string
  fa_latestSubmissionId :: "string option"
  fa_resolvedAt :: "string option"

record submission_metadata =
  sm_feedbackId :: "string option"
  sm_submissionId :: "string option"
  sm_sourceReviewBlockRef :: "string option"
  sm_reportHash :: "string option"
  sm_submittedAt :: "string option"

record submission_dir =
  sd_metadata :: "submission_metadata option"
  sd_report :: "string option"

record feedback_dir =
  fd_artifact :: "feedback_artifact option"
  fd_submissions :: "(string, submission_dir) js_map"

record review_result =
  rv_reviewBlockRef :: string
  rv_taskId :: string
  rv_verdict :: review_verdict
  rv_content :: string

record attempt_metadata =
  am_reviewBlockRef :: "string option"
  am_attemptId :: "string option"
  am_reviewedWorkRevision :: "string option"
  am_resultHash :: "string option"
  am_sourceResultPath :: "string option"
  am_reviewedAt :: "string option"

record attempt_dir =
  ad_metadata :: "attempt_metadata option"
  ad_result :: "review_result option"

record review_index =
  rx_latestReviewAttemptId :: string
  rx_latestVerdict :: review_verdict
  rx_reviewedWorkRevision :: string

text \<open>A run directory of an implementation block: \<^verbatim>\<open>metadata.json\<close> and the other files by name. The
  metadata has the fields of its schema (a time that may be \<^verbatim>\<open>null\<close> is an option of an option); the other keys
  that executors add are passed through in \<open>rm_other\<close>.\<close>

datatype artifact_kind = ImplementationArtifact | ReviewArtifact | FeedbackArtifact

record artifact_reference =
  ar_version :: string
  ar_kind :: artifact_kind
  ar_relativePath :: string
  ar_sha256 :: string
  ar_sizeBytes :: nat
  ar_mediaType :: string

record run_metadata =
  rm_ref :: "string option"
  rm_taskId :: "string option"
  rm_blockId :: "string option"
  rm_runId :: "string option"
  rm_submissionReportHash :: "string option"
  rm_submissionAttemptId :: "string option"
  rm_preparedContentRevision :: "string option"
  rm_executionAdmittedAt :: "string option option"
  rm_submittedAt :: "string option"
  rm_startedAt :: "string option option"
  rm_finishedAt :: "string option option"
  rm_reportHash :: "string option"
  rm_sourceReportPath :: "string option"
  rm_artifactReference :: "artifact_reference option"
  rm_other :: "(string, string) js_map"

record run_dir =
  rd_metadata :: "run_metadata option"
  rd_files :: "(string, string) js_map"

record workspace_files =
  wf_state :: "runtime_state option"
  wf_taskIndex :: "(string, task_index) js_map"
  wf_feedback :: "(string, (string, feedback_dir) js_map) js_map"
  wf_attempts :: "(string, (string, attempt_dir) js_map) js_map"
  wf_reviewIndex :: "(string, review_index) js_map"
  wf_runs :: "(string, (string, run_dir) js_map) js_map"

definition empty_files :: workspace_files where
  "empty_files =
     \<lparr>wf_state = None, wf_taskIndex = [], wf_feedback = [], wf_attempts = [], wf_reviewIndex = [], wf_runs = []\<rparr>"

text \<open>The entries of a directory; a directory that does not exist has none.\<close>

definition dir_of :: "(string, (string, 'd) js_map) js_map \<Rightarrow> string \<Rightarrow> (string, 'd) js_map" where
  "dir_of m key = (case map_get m key of None \<Rightarrow> [] | Some d \<Rightarrow> d)"

section \<open>Commands\<close>

type_synonym 'a cmd = "workspace_files \<Rightarrow> 'a res \<times> workspace_files"

definition cmd_return :: "'a \<Rightarrow> 'a cmd" where
  "cmd_return x ws = (Inr x, ws)"

definition cmd_lift :: "'a res \<Rightarrow> 'a cmd" where
  "cmd_lift r ws = (r, ws)"

definition cmd_bind :: "'a cmd \<Rightarrow> ('a \<Rightarrow> 'b cmd) \<Rightarrow> 'b cmd" where
  "cmd_bind c k ws = (case c ws of (Inl e, ws') \<Rightarrow> (Inl e, ws') | (Inr x, ws') \<Rightarrow> k x ws')"

definition cmd_read :: "(workspace_files \<Rightarrow> 'a) \<Rightarrow> 'a cmd" where
  "cmd_read f ws = (Inr (f ws), ws)"

definition cmd_write :: "(workspace_files \<Rightarrow> workspace_files) \<Rightarrow> unit cmd" where
  "cmd_write f ws = (Inr (), f ws)"

lemmas cmd_defs = cmd_return_def cmd_lift_def cmd_bind_def cmd_read_def cmd_write_def

text \<open>A command that returned a value with a property: the form in which commands are evaluated.\<close>

fun cmd_holds :: "('a \<Rightarrow> workspace_files \<Rightarrow> bool) \<Rightarrow> 'a res \<times> workspace_files \<Rightarrow> bool" where
  "cmd_holds P (Inl e, ws) = False"
| "cmd_holds P (Inr x, ws) = P x ws"

lemma cmd_holdsE:
  assumes "cmd_holds P r"
  obtains x ws where "r = (Inr x, ws)" and "P x ws"
  using assms by (cases "(P, r)" rule: cmd_holds.cases) auto

definition hoare ::
  "(workspace_files \<Rightarrow> bool) \<Rightarrow> 'a cmd \<Rightarrow> ('a \<Rightarrow> workspace_files \<Rightarrow> bool) \<Rightarrow>
   (runtime_error \<Rightarrow> workspace_files \<Rightarrow> bool) \<Rightarrow> bool" where
  "hoare P c Q E \<longleftrightarrow>
     (\<forall>ws. P ws \<longrightarrow> (case c ws of (Inl e, ws') \<Rightarrow> E e ws' | (Inr x, ws') \<Rightarrow> Q x ws'))"

named_theorems hoare_rules \<open>composition of command contracts\<close>

lemma hoare_return [hoare_rules]: "(\<And>ws. P ws \<Longrightarrow> Q x ws) \<Longrightarrow> hoare P (cmd_return x) Q E"
  by (simp add: hoare_def cmd_return_def)

lemma hoare_lift [hoare_rules]:
  "(\<And>x ws. P ws \<Longrightarrow> r = Inr x \<Longrightarrow> Q x ws) \<Longrightarrow> (\<And>e ws. P ws \<Longrightarrow> r = Inl e \<Longrightarrow> E e ws) \<Longrightarrow>
   hoare P (cmd_lift r) Q E"
  by (simp add: hoare_def cmd_lift_def split: sum.splits)

lemma hoare_read [hoare_rules]: "(\<And>ws. P ws \<Longrightarrow> Q (f ws) ws) \<Longrightarrow> hoare P (cmd_read f) Q E"
  by (simp add: hoare_def cmd_read_def)

lemma hoare_write [hoare_rules]: "(\<And>ws. P ws \<Longrightarrow> Q () (f ws)) \<Longrightarrow> hoare P (cmd_write f) Q E"
  by (simp add: hoare_def cmd_write_def)

lemma hoare_bind:
  assumes "hoare P c R E" and "\<And>x. hoare (R x) (k x) Q E"
  shows "hoare P (cmd_bind c k) Q E"
  using assms unfolding hoare_def cmd_bind_def by (fastforce split: prod.splits sum.splits)

lemma hoare_pre: "hoare P' c Q E \<Longrightarrow> (\<And>ws. P ws \<Longrightarrow> P' ws) \<Longrightarrow> hoare P c Q E"
  by (auto simp: hoare_def)

lemma hoare_post:
  "hoare P c Q' E' \<Longrightarrow> (\<And>x ws. Q' x ws \<Longrightarrow> Q x ws) \<Longrightarrow> (\<And>e ws. E' e ws \<Longrightarrow> E e ws) \<Longrightarrow> hoare P c Q E"
  unfolding hoare_def by (fastforce split: prod.splits sum.splits)

lemma hoare_conj_pre: "(A \<Longrightarrow> hoare P c Q E) \<Longrightarrow> hoare (\<lambda>ws. P ws \<and> A) c Q E"
  by (auto simp: hoare_def)

lemma hoare_apply:
  assumes "hoare P c Q E" and "P ws"
  shows "c ws = (Inr x, ws') \<Longrightarrow> Q x ws'" and "c ws = (Inl e, ws') \<Longrightarrow> E e ws'"
  using assms by (auto simp: hoare_def)

text \<open>A command that keeps an invariant of the files whatever its outcome.\<close>

definition cmd_keeps :: "(workspace_files \<Rightarrow> bool) \<Rightarrow> 'a cmd \<Rightarrow> bool" where
  "cmd_keeps I c \<longleftrightarrow> hoare I c (\<lambda>_. I) (\<lambda>_. I)"

lemma cmd_keepsD: "cmd_keeps I c \<Longrightarrow> I ws \<Longrightarrow> I (snd (c ws))"
  unfolding cmd_keeps_def hoare_def by (fastforce split: prod.splits sum.splits)

lemma cmd_keepsI: "(\<And>ws. I ws \<Longrightarrow> I (snd (c ws))) \<Longrightarrow> cmd_keeps I c"
  unfolding cmd_keeps_def hoare_def by (fastforce split: prod.splits sum.splits)

named_theorems keeps_rules \<open>commands that keep an invariant\<close>

lemma keeps_return [keeps_rules]: "cmd_keeps I (cmd_return x)"
  by (rule cmd_keepsI) (simp add: cmd_return_def)

lemma keeps_lift [keeps_rules]: "cmd_keeps I (cmd_lift r)"
  by (rule cmd_keepsI) (simp add: cmd_lift_def)

lemma keeps_read [keeps_rules]: "cmd_keeps I (cmd_read f)"
  by (rule cmd_keepsI) (simp add: cmd_read_def)

lemma keeps_bind [keeps_rules]:
  "cmd_keeps I c \<Longrightarrow> (\<And>x. cmd_keeps I (k x)) \<Longrightarrow> cmd_keeps I (cmd_bind c k)"
  unfolding cmd_keeps_def by (rule hoare_bind)

lemma keeps_lift_bind:
  "(\<And>x. r = Inr x \<Longrightarrow> cmd_keeps I (k x)) \<Longrightarrow> cmd_keeps I (cmd_bind (cmd_lift r) k)"
  by (rule cmd_keepsI) (auto simp: cmd_defs dest: cmd_keepsD split: sum.splits)

lemma keeps_if: "(b \<Longrightarrow> cmd_keeps I c) \<Longrightarrow> (\<not> b \<Longrightarrow> cmd_keeps I d) \<Longrightarrow> cmd_keeps I (if b then c else d)"
  by simp

lemma keeps_write: "(\<And>ws. I ws \<Longrightarrow> I (f ws)) \<Longrightarrow> cmd_keeps I (cmd_write f)"
  by (rule cmd_keepsI) (simp add: cmd_write_def)

section \<open>Loading the runtime\<close>

record runtime_context =
  rc_graph :: compiled_graph
  rc_rawState :: runtime_state
  rc_state :: runtime_state

definition writeState :: "runtime_state \<Rightarrow> unit cmd" where
  "writeState s = cmd_write (\<lambda>ws. ws\<lparr>wf_state := Some s\<rparr>)"

definition loadRuntimeContext :: "manifest \<Rightarrow> runtime_context cmd" where
  "loadRuntimeContext mf =
     cmd_bind (cmd_lift (compileTaskGraph mf)) (\<lambda>g.
     cmd_bind (cmd_read wf_state) (\<lambda>file.
     cmd_bind (cmd_lift (readState file)) (\<lambda>raw.
     cmd_bind (cmd_lift (ensureStateForManifest mf raw)) (\<lambda>derived.
     cmd_return \<lparr>rc_graph = g, rc_rawState = raw, rc_state = derived\<rparr>))))"

definition loadRuntimeReadonly :: "manifest \<Rightarrow> runtime_context cmd" where
  "loadRuntimeReadonly mf = loadRuntimeContext mf"

definition loadRuntime :: "manifest \<Rightarrow> runtime_context cmd" where
  "loadRuntime mf =
     cmd_bind (loadRuntimeContext mf) (\<lambda>ctx.
     cmd_bind (if rc_rawState ctx \<noteq> rc_state ctx then writeState (rc_state ctx) else cmd_return ()) (\<lambda>_.
     cmd_return ctx))"

definition refreshDerivedState :: "manifest \<Rightarrow> runtime_state \<Rightarrow> runtime_state res" where
  "refreshDerivedState mf s = ensureStateForManifest mf s"

text \<open>\<^verbatim>\<open>writeState(file, refreshDerivedState(manifest, state))\<close>, the end of every mutation.\<close>

definition saveState :: "manifest \<Rightarrow> runtime_state \<Rightarrow> runtime_state cmd" where
  "saveState mf s =
     cmd_bind (cmd_lift (refreshDerivedState mf s)) (\<lambda>s'.
     cmd_bind (writeState s') (\<lambda>_. cmd_return s'))"

section \<open>Task result indexes\<close>

definition readTaskIndex :: "workspace_files \<Rightarrow> string \<Rightarrow> task_index" where
  "readTaskIndex ws taskId =
     (case map_get (wf_taskIndex ws) taskId of None \<Rightarrow> empty_index | Some i \<Rightarrow> i)"

definition updateTaskIndex :: "string \<Rightarrow> (task_index \<Rightarrow> task_index) \<Rightarrow> unit cmd" where
  "updateTaskIndex taskId update =
     cmd_write (\<lambda>ws. ws\<lparr>wf_taskIndex := map_set (wf_taskIndex ws) taskId (update (readTaskIndex ws taskId))\<rparr>)"

definition clearReviewCompletionReason :: "string \<Rightarrow> string \<Rightarrow> unit cmd" where
  "clearReviewCompletionReason taskId reviewBlockRef =
     updateTaskIndex taskId (\<lambda>index. index
       \<lparr>ti_reviewCompletionReasonByBlock :=
          map_delete (ti_reviewCompletionReasonByBlock index) reviewBlockRef,
        ti_warnings :=
          filter (\<lambda>w. \<not> (iw_code w = ''review_max_cycles_reached'' \<and> iw_path w = Some reviewBlockRef))
            (ti_warnings index)\<rparr>)"

definition recordReviewCompletionReason ::
  "string \<Rightarrow> string \<Rightarrow> completion_reason \<Rightarrow> index_warning option \<Rightarrow> unit cmd" where
  "recordReviewCompletionReason taskId reviewBlockRef completionReason warning =
     updateTaskIndex taskId (\<lambda>index. index
       \<lparr>ti_reviewCompletionReasonByBlock :=
          map_set (ti_reviewCompletionReasonByBlock index) reviewBlockRef completionReason,
        ti_warnings :=
          (case warning of None \<Rightarrow> ti_warnings index | Some w \<Rightarrow> ti_warnings index @ [w])\<rparr>)"

datatype count_field = RunsField | ReviewAttemptsField | FeedbackEnvelopesField | FeedbackSubmissionsField

definition plus_one :: "nat option \<Rightarrow> nat option" where
  "plus_one c = Some ((case c of None \<Rightarrow> 0 | Some n \<Rightarrow> n) + 1)"

fun incrementTaskIndexCount :: "task_index \<Rightarrow> count_field \<Rightarrow> index_counts" where
  "incrementTaskIndexCount i RunsField = (ti_counts i)\<lparr>ic_runs := plus_one (ic_runs (ti_counts i))\<rparr>"
| "incrementTaskIndexCount i ReviewAttemptsField =
     (ti_counts i)\<lparr>ic_reviewAttempts := plus_one (ic_reviewAttempts (ti_counts i))\<rparr>"
| "incrementTaskIndexCount i FeedbackEnvelopesField =
     (ti_counts i)\<lparr>ic_feedbackEnvelopes := plus_one (ic_feedbackEnvelopes (ti_counts i))\<rparr>"
| "incrementTaskIndexCount i FeedbackSubmissionsField =
     (ti_counts i)\<lparr>ic_feedbackSubmissions := plus_one (ic_feedbackSubmissions (ti_counts i))\<rparr>"

section \<open>Feedback artifacts\<close>

text \<open>\<^verbatim>\<open>feedbackArtifactSchema\<close> on a value of the type; the timestamps are the
  \<^verbatim>\<open>toISOString\<close> values the code writes, which the schema accepts.\<close>

definition feedbackArtifact_valid :: "feedback_artifact \<Rightarrow> bool" where
  "feedbackArtifact_valid a \<longleftrightarrow>
     fa_feedbackId a \<noteq> [] \<and> fa_sourceReviewBlockRef a \<noteq> [] \<and> fa_sourceReviewAttemptId a \<noteq> [] \<and>
     fa_latestSubmissionId a \<noteq> Some []"

definition feedback_entry :: "workspace_files \<Rightarrow> string \<Rightarrow> string \<Rightarrow> feedback_dir" where
  "feedback_entry ws taskId feedbackId =
     (case map_get (dir_of (wf_feedback ws) taskId) feedbackId of
        None \<Rightarrow> \<lparr>fd_artifact = None, fd_submissions = []\<rparr>
      | Some d \<Rightarrow> d)"

definition set_feedback_entry ::
  "string \<Rightarrow> string \<Rightarrow> (feedback_dir \<Rightarrow> feedback_dir) \<Rightarrow> workspace_files \<Rightarrow> workspace_files" where
  "set_feedback_entry taskId feedbackId f ws =
     ws\<lparr>wf_feedback := map_set (wf_feedback ws) taskId
          (map_set (dir_of (wf_feedback ws) taskId) feedbackId (f (feedback_entry ws taskId feedbackId)))\<rparr>"

definition writeFeedbackArtifact :: "string \<Rightarrow> feedback_artifact \<Rightarrow> unit cmd" where
  "writeFeedbackArtifact taskId artifact =
     (if feedbackArtifact_valid artifact
      then cmd_write (set_feedback_entry taskId (fa_feedbackId artifact) (\<lambda>d. d\<lparr>fd_artifact := Some artifact\<rparr>))
      else cmd_lift (Inl (SchemaInvalid ''feedback'')))"

definition readFeedbackArtifact :: "workspace_files \<Rightarrow> string \<Rightarrow> string \<Rightarrow> feedback_artifact res" where
  "readFeedbackArtifact ws taskId feedbackId =
     (case fd_artifact (feedback_entry ws taskId feedbackId) of
        None \<Rightarrow> Inl (FileMissing ''feedback.json'')
      | Some a \<Rightarrow> if feedbackArtifact_valid a then Inr a else Inl (SchemaInvalid ''feedback''))"

text \<open>The patch of an artifact; a field that is not in the patch is \<open>None\<close>.\<close>

record artifact_patch =
  ap_status :: feedback_status
  ap_latestSubmissionId :: "string option"
  ap_resolvedAt :: "string option"

definition apply_patch :: "artifact_patch \<Rightarrow> feedback_artifact \<Rightarrow> feedback_artifact" where
  "apply_patch p a = a
     \<lparr>fa_status := ap_status p,
      fa_latestSubmissionId :=
        (case ap_latestSubmissionId p of None \<Rightarrow> fa_latestSubmissionId a | Some i \<Rightarrow> Some i),
      fa_resolvedAt := (case ap_resolvedAt p of None \<Rightarrow> fa_resolvedAt a | Some t \<Rightarrow> Some t)\<rparr>"

definition patchFeedbackArtifact :: "string \<Rightarrow> string \<Rightarrow> artifact_patch \<Rightarrow> unit cmd" where
  "patchFeedbackArtifact taskId feedbackId patch =
     cmd_bind (cmd_read (\<lambda>ws. readFeedbackArtifact ws taskId feedbackId)) (\<lambda>r.
     cmd_bind (cmd_lift r) (\<lambda>current.
     cmd_write (set_feedback_entry taskId feedbackId
       (\<lambda>d. d\<lparr>fd_artifact := Some (apply_patch patch current)\<rparr>))))"

section \<open>Numbered directories\<close>

definition digit_char :: "nat \<Rightarrow> char" where
  "digit_char n = char_of (48 + n)"

fun nat_digits :: "nat \<Rightarrow> string" where
  "nat_digits n = (if n < 10 then [digit_char n] else nat_digits (n div 10) @ [digit_char (n mod 10)])"

declare nat_digits.simps [simp del]

definition padStart3 :: "string \<Rightarrow> string" where
  "padStart3 ds = replicate (3 - length ds) (CHR ''0'') @ ds"

definition nextId :: "string \<Rightarrow> nat \<Rightarrow> string" where
  "nextId prefix count = prefix @ ''-'' @ padStart3 (nat_digits (count + 1))"

definition is_digit :: "char \<Rightarrow> bool" where
  "is_digit c \<longleftrightarrow> (let n = (of_char c :: nat) in 48 \<le> n \<and> n \<le> 57)"

text \<open>\<^verbatim>\<open>new RegExp(`^${prefix}-\\d+$`)\<close>.\<close>

definition matches_id :: "string \<Rightarrow> string \<Rightarrow> bool" where
  "matches_id prefix name \<longleftrightarrow>
     (let n = length prefix + 1; rest = drop n name
      in take n name = prefix @ ''-'' \<and> rest \<noteq> [] \<and> list_all is_digit rest)"

text \<open>The loop that tries one name after the other, at most \<open>n\<close> times.\<close>

fun first_free :: "(nat \<Rightarrow> string) \<Rightarrow> (string \<Rightarrow> bool) \<Rightarrow> nat \<Rightarrow> nat \<Rightarrow> string option" where
  "first_free name taken start 0 = None"
| "first_free name taken start (Suc n) =
     (if taken (name start) then first_free name taken (start + 1) n else Some (name start))"

definition allocatePrefixedId ::
  "(string, 'd) js_map \<Rightarrow> string \<Rightarrow> 'd \<Rightarrow> (string \<times> (string, 'd) js_map) res" where
  "allocatePrefixedId entries prefix fresh =
     (case first_free (nextId prefix) (map_has entries)
             (length (filter (matches_id prefix) (map_keys entries))) 1000 of
        None \<Rightarrow> Inl (IdAllocationExhausted prefix)
      | Some candidate \<Rightarrow> Inr (candidate, map_set entries candidate fresh))"

section \<open>Fresh names\<close>

text \<open>What the allocation loops need of a numbering: different numbers give different names. Fewer
  names in use than attempts then leave a free one.\<close>

locale numbered_names =
  fixes name :: "nat \<Rightarrow> string"
  assumes name_inj: "name i = name j \<Longrightarrow> i = j"
begin

lemma first_free_Some: "first_free name taken start n = Some c \<Longrightarrow> \<not> taken c \<and> (\<exists>i. c = name i)"
  by (induction n arbitrary: start) (auto split: if_splits)

lemma first_free_None: "first_free name taken start n = None \<longleftrightarrow> (\<forall>i < n. taken (name (start + i)))"
proof (induction n arbitrary: start)
  case 0
  then show ?case by simp
next
  case (Suc n)
  have "(\<forall>i < Suc n. taken (name (start + i))) \<longleftrightarrow>
      taken (name start) \<and> (\<forall>i < n. taken (name (start + 1 + i)))"
    unfolding less_Suc_eq_0_disj by auto
  with Suc show ?case by simp
qed

lemma first_free_total:
  assumes "card {c \<in> range name. taken c} < n" and "finite {c \<in> range name. taken c}"
  shows "\<exists>c. first_free name taken start n = Some c"
proof (rule ccontr)
  assume "\<nexists>c. first_free name taken start n = Some c"
  then have "\<forall>i < n. taken (name (start + i))" by (simp add: first_free_None [symmetric])
  then have "(\<lambda>i. name (start + i)) ` {..<n} \<subseteq> {c \<in> range name. taken c}" by auto
  moreover have "card ((\<lambda>i. name (start + i)) ` {..<n}) = n"
    by (subst card_image) (auto intro!: inj_onI dest: name_inj)
  ultimately have "n \<le> card {c \<in> range name. taken c}" using card_mono [OF assms(2)] by metis
  with assms(1) show False by linarith
qed

end

text \<open>Reading the number back.\<close>

definition digits_val :: "string \<Rightarrow> nat" where
  "digits_val = foldl (\<lambda>acc c. acc * 10 + (of_char c - 48)) 0"

lemma digit_char_code: "n < 10 \<Longrightarrow> (of_char (digit_char n) :: nat) = 48 + n"
  by (simp add: digit_char_def)

lemma digits_val_append: "digits_val (ds @ [c]) = digits_val ds * 10 + (of_char c - 48)"
  by (simp add: digits_val_def)

lemma digits_val_nat_digits: "digits_val (nat_digits n) = n"
proof (induction n rule: nat_digits.induct)
  case (1 n)
  show ?case
  proof (cases "n < 10")
    case True
    then show ?thesis by (subst nat_digits.simps) (simp add: digits_val_def digit_char_code)
  next
    case False
    with 1 have "digits_val (nat_digits (n div 10)) = n div 10" by simp
    moreover have "n mod 10 < 10" by simp
    ultimately show ?thesis using False
      by (subst nat_digits.simps) (simp add: digits_val_append digit_char_code)
  qed
qed

lemma digits_val_zeros: "digits_val (replicate k (CHR ''0'') @ ds) = digits_val ds"
  unfolding digits_val_def by (induction k) simp_all

lemma digits_val_pad: "digits_val (padStart3 (nat_digits n)) = n"
  by (simp add: padStart3_def digits_val_zeros digits_val_nat_digits)

lemma nat_digits_digits: "list_all is_digit (nat_digits n) \<and> nat_digits n \<noteq> []"
proof (induction n rule: nat_digits.induct)
  case (1 n)
  have d: "m < 10 \<Longrightarrow> is_digit (digit_char m)" for m
    by (simp add: is_digit_def Let_def digit_char_code)
  show ?case
  proof (cases "n < 10")
    case True
    then show ?thesis by (subst (1 2) nat_digits.simps) (simp add: d)
  next
    case False
    with 1 d [of "n mod 10"] show ?thesis by (subst (1 2) nat_digits.simps) simp
  qed
qed

lemma nextId_matches: "matches_id prefix (nextId prefix n)"
proof -
  have "is_digit (CHR ''0'')" by (simp add: is_digit_def)
  then show ?thesis
    using nat_digits_digits [of "n + 1"]
    by (auto simp: matches_id_def nextId_def padStart3_def Let_def list_all_iff)
qed

interpretation prefixed: numbered_names "nextId prefix" for prefix
proof
  fix i j
  assume "nextId prefix i = nextId prefix j"
  then have "digits_val (padStart3 (nat_digits (i + 1))) = digits_val (padStart3 (nat_digits (j + 1)))"
    by (simp add: nextId_def)
  then show "i = j" by (simp add: digits_val_pad)
qed

lemma allocate_spec:
  assumes "allocatePrefixedId entries prefix fresh = Inr (c, entries')"
  shows "\<not> map_has entries c" and "entries' = map_set entries c fresh" and "matches_id prefix c"
proof -
  from assms have f: "first_free (nextId prefix) (map_has entries)
      (length (filter (matches_id prefix) (map_keys entries))) 1000 = Some c"
    and e: "entries' = map_set entries c fresh"
    by (auto simp: allocatePrefixedId_def split: option.splits)
  from prefixed.first_free_Some [OF f] nextId_matches e
  show "\<not> map_has entries c" "entries' = map_set entries c fresh" "matches_id prefix c" by auto
qed

lemma allocate_ok:
  assumes "length (filter (matches_id prefix) (map_keys entries)) < 1000"
  shows "\<exists>c entries'. allocatePrefixedId entries prefix fresh = Inr (c, entries')"
proof -
  have sub: "{c \<in> range (nextId prefix). map_has entries c} \<subseteq> set (filter (matches_id prefix) (map_keys entries))"
    using nextId_matches by auto
  have "card {c \<in> range (nextId prefix). map_has entries c} \<le>
      card (set (filter (matches_id prefix) (map_keys entries)))"
    by (rule card_mono [OF _ sub]) simp
  also have "\<dots> \<le> length (filter (matches_id prefix) (map_keys entries))" by (rule card_length)
  finally have "card {c \<in> range (nextId prefix). map_has entries c} < 1000" using assms by linarith
  moreover have "finite {c \<in> range (nextId prefix). map_has entries c}"
    using sub by (rule finite_subset) simp
  ultimately obtain c where "first_free (nextId prefix) (map_has entries)
      (length (filter (matches_id prefix) (map_keys entries))) 1000 = Some c"
    using prefixed.first_free_total by metis
  then show ?thesis by (simp add: allocatePrefixedId_def)
qed

section \<open>Contracts of loading and saving\<close>

lemma cmd_bind_Inr:
  "cmd_bind c k ws = (Inr y, ws'') \<longleftrightarrow> (\<exists>x ws'. c ws = (Inr x, ws') \<and> k x ws' = (Inr y, ws''))"
  by (auto simp: cmd_bind_def split: prod.splits sum.splits)

lemma cmd_bind_InrE:
  assumes "cmd_bind c k ws = (Inr y, ws'')"
  obtains x ws' where "c ws = (Inr x, ws')" and "k x ws' = (Inr y, ws'')"
  using assms by (auto simp: cmd_bind_def split: prod.splits sum.splits)

lemma cmd_prim_Inr [simp]:
  "cmd_return x ws = (Inr y, ws') \<longleftrightarrow> y = x \<and> ws' = ws"
  "cmd_lift r ws = (Inr y, ws') \<longleftrightarrow> r = Inr y \<and> ws' = ws"
  "cmd_read f ws = (Inr z, ws') \<longleftrightarrow> z = f ws \<and> ws' = ws"
  "cmd_write h ws = (Inr u, ws') \<longleftrightarrow> ws' = h ws"
  by (auto simp: cmd_defs)

lemma writeState_Inr [simp]: "writeState s ws = (Inr u, ws') \<longleftrightarrow> ws' = ws\<lparr>wf_state := Some s\<rparr>"
  by (auto simp: writeState_def)

text \<open>The state file reads back.\<close>

definition files_ok :: "workspace_files \<Rightarrow> bool" where
  "files_ok ws \<longleftrightarrow> (case wf_state ws of None \<Rightarrow> True | Some s \<Rightarrow> runtimeState_valid s)"

lemma files_ok_read: "files_ok ws \<longleftrightarrow> (\<exists>s. readState (wf_state ws) = Inr s)"
  by (simp add: files_ok_def readState_def split: option.splits)

lemma readState_valid: "readState f = Inr s \<Longrightarrow> runtimeState_valid s"
  by (auto simp: readState_def split: option.splits if_splits)

lemma files_ok_other [simp]:
  "files_ok (ws\<lparr>wf_taskIndex := ti\<rparr>) = files_ok ws"
  "files_ok (ws\<lparr>wf_feedback := fb\<rparr>) = files_ok ws"
  "files_ok (ws\<lparr>wf_attempts := ad\<rparr>) = files_ok ws"
  "files_ok (ws\<lparr>wf_reviewIndex := rx\<rparr>) = files_ok ws"
  "files_ok (ws\<lparr>wf_runs := rd\<rparr>) = files_ok ws"
  "files_ok (ws\<lparr>wf_state := Some s\<rparr>) = runtimeState_valid s"
  by (simp_all add: files_ok_def)

text \<open>What a command gets from loading.\<close>

definition context_ok :: "manifest \<Rightarrow> runtime_context \<Rightarrow> bool" where
  "context_ok mf ctx \<longleftrightarrow>
     compileTaskGraph mf = Inr (rc_graph ctx) \<and> runtimeState_valid (rc_rawState ctx) \<and>
     ensureStateForManifest mf (rc_rawState ctx) = Inr (rc_state ctx)"

lemma context_okD:
  assumes "context_ok mf ctx"
  shows "compileTaskGraph mf = Inr (rc_graph ctx)" and "graph_ok (rc_graph ctx)"
    and "runtimeState_valid (rc_state ctx)" and "reconciled (rc_graph ctx) (rc_state ctx)"
    and "covers (rc_graph ctx) (rc_state ctx)" and "receipts_match (rc_graph ctx) (rc_state ctx)"
    and "ensureStateForManifest mf (rc_rawState ctx) = Inr (rc_state ctx)"
  using assms ensure_valid compile_graph_ok ensure_reconciled reconciled_covers ensure_receipts_match(1)
  unfolding context_ok_def by blast+

lemma loadRuntimeReadonly_Inr:
  "loadRuntimeReadonly mf ws = (Inr ctx, ws') \<longleftrightarrow>
     ws' = ws \<and> context_ok mf ctx \<and> readState (wf_state ws) = Inr (rc_rawState ctx)"
  unfolding loadRuntimeReadonly_def loadRuntimeContext_def context_ok_def
  by (cases ctx) (auto simp: cmd_bind_Inr dest: readState_valid)

lemma loadRuntimeReadonly_Inl: "loadRuntimeReadonly mf ws = (Inl e, ws') \<Longrightarrow> ws' = ws"
  unfolding loadRuntimeReadonly_def loadRuntimeContext_def
  by (auto simp: cmd_defs split: sum.splits)

lemma loadRuntime_eq:
  "loadRuntime mf ws =
     (case loadRuntimeReadonly mf ws of
        (Inl e, ws') \<Rightarrow> (Inl e, ws')
      | (Inr ctx, ws') \<Rightarrow>
          (Inr ctx, if rc_rawState ctx \<noteq> rc_state ctx then ws'\<lparr>wf_state := Some (rc_state ctx)\<rparr> else ws'))"
  by (auto simp: loadRuntime_def loadRuntimeReadonly_def cmd_defs writeState_def split: prod.splits sum.splits)

lemma loadRuntime_Inr:
  assumes "loadRuntime mf ws = (Inr ctx, ws')"
  shows "context_ok mf ctx" and "readState (wf_state ws) = Inr (rc_rawState ctx)"
    and "ws' = (if rc_rawState ctx \<noteq> rc_state ctx then ws\<lparr>wf_state := Some (rc_state ctx)\<rparr> else ws)"
  using assms by (auto simp: loadRuntime_eq loadRuntimeReadonly_Inr split: prod.splits sum.splits)

lemma loadRuntime_hoare:
  "hoare files_ok (loadRuntime mf) (\<lambda>ctx ws. files_ok ws \<and> context_ok mf ctx) (\<lambda>_. files_ok)"
  unfolding hoare_def
  by (auto simp: loadRuntime_eq loadRuntimeReadonly_Inr dest!: loadRuntimeReadonly_Inl
      dest: context_okD(3) split: prod.splits sum.splits)

lemma loadRuntimeReadonly_hoare:
  "hoare files_ok (loadRuntimeReadonly mf) (\<lambda>ctx ws. files_ok ws \<and> context_ok mf ctx) (\<lambda>_. files_ok)"
  unfolding hoare_def
  by (auto simp: loadRuntimeReadonly_Inr dest!: loadRuntimeReadonly_Inl split: prod.splits sum.splits)

text \<open>The contract of a command that loads first: it may rely on \<open>context_ok\<close>.\<close>

lemma keeps_after_load:
  assumes "\<And>ctx. context_ok mf ctx \<Longrightarrow> cmd_keeps files_ok (fn ctx)"
  shows "cmd_keeps files_ok (cmd_bind (loadRuntime mf) fn)"
    and "cmd_keeps files_ok (cmd_bind (loadRuntimeReadonly mf) fn)"
  using assms unfolding cmd_keeps_def
  by (auto intro!: hoare_bind [OF loadRuntime_hoare] hoare_bind [OF loadRuntimeReadonly_hoare] hoare_conj_pre)

lemma keeps_writeState [keeps_rules]: "runtimeState_valid s \<Longrightarrow> cmd_keeps files_ok (writeState s)"
  unfolding writeState_def by (rule keeps_write) simp

lemma keeps_saveState [keeps_rules]: "runtimeState_valid s \<Longrightarrow> cmd_keeps files_ok (saveState mf s)"
  by (rule cmd_keepsI)
    (auto simp: saveState_def refreshDerivedState_def cmd_defs writeState_def dest: ensure_valid split: sum.splits)

lemma keeps_updateTaskIndex [keeps_rules]: "cmd_keeps files_ok (updateTaskIndex t f)"
  unfolding updateTaskIndex_def by (rule keeps_write) simp

lemma keeps_index_ops [keeps_rules]:
  "cmd_keeps files_ok (clearReviewCompletionReason t r)"
  "cmd_keeps files_ok (recordReviewCompletionReason t r c w)"
  unfolding clearReviewCompletionReason_def recordReviewCompletionReason_def
  by (rule keeps_updateTaskIndex)+

lemma keeps_artifact_ops [keeps_rules]:
  "cmd_keeps files_ok (patchFeedbackArtifact t f p)" "cmd_keeps files_ok (writeFeedbackArtifact t a)"
  unfolding patchFeedbackArtifact_def writeFeedbackArtifact_def set_feedback_entry_def
  by (auto intro!: keeps_rules keeps_write)

lemma saveState_Inr:
  "saveState mf s ws = (Inr s', ws') \<longleftrightarrow>
     ensureStateForManifest mf s = Inr s' \<and> ws' = ws\<lparr>wf_state := Some s'\<rparr>"
  by (auto simp: saveState_def refreshDerivedState_def cmd_defs writeState_def split: sum.splits)

section \<open>Properties\<close>

text \<open>Directory allocation is fresh and complete. With fewer than 1000 directories of the family
  in place, \<^verbatim>\<open>allocatePrefixedId\<close> finds an identifier within its 1000 attempts; the
  identifier belongs to the family, was not in use, and afterwards it is the only new entry.\<close>

theorem allocation_fresh:
  assumes "length (filter (matches_id prefix) (map_keys entries)) < 1000"
  shows "\<exists>c entries'. allocatePrefixedId entries prefix fresh = Inr (c, entries') \<and>
     matches_id prefix c \<and> \<not> map_has entries c \<and>
     (\<forall>k. map_get entries' k = (if k = c then Some fresh else map_get entries k))"
proof -
  from allocate_ok [OF assms] obtain c entries' where
    "allocatePrefixedId entries prefix fresh = Inr (c, entries')" by blast
  with allocate_spec [OF this] show ?thesis by (auto simp: jm.get_put)
qed

lemma allocation_fresh_witness:
  "\<exists>c entries'. allocatePrefixedId [(''REV-002'', ()), (''notes'', ())] ''REV'' () = Inr (c, entries') \<and>
     matches_id ''REV'' c \<and> \<not> map_has [(''REV-002'', ()), (''notes'', ())] c"
proof -
  have "length (filter (matches_id ''REV'') (map_keys [(''REV-002'', ()), (''notes'', ())])) < 1000"
    by code_simp
  from allocation_fresh [OF this, of "()"] show ?thesis by blast
qed

text \<open>The sequence number of an allocated identifier can be read back from its digits, so the
  numbering loses nothing however long it gets.\<close>

lemma nextId_roundtrip: "digits_val (drop (length prefix + 1) (nextId prefix n)) = n + 1"
proof -
  have "drop (length prefix + 1) (nextId prefix n) = padStart3 (nat_digits (n + 1))"
    by (simp add: nextId_def)
  then show ?thesis by (simp only: digits_val_pad)
qed

end
