(* ===== verification/Block_Mutations.thy ===== *)
theory Block_Mutations
  imports Workspace
begin

text \<open>
  The commands that change the status of one block by hand:
  \<^verbatim>\<open>taskManager/blockStatusMutations.ts\<close>, and the reset of reviews that ran out of feedback
  cycles: \<^verbatim>\<open>taskManager/reviewRetry.ts\<close>.

  Each command loads the runtime under the lock, checks, changes one block record and saves the
  reconciled state. The lemmas show that what they save is accepted when it is read again, what each
  leaves on the block, and that the reset is the one command that does not keep the schema: it
  rewrites the status of a completed review without clearing its remote receipt.
\<close>

section \<open>Commands\<close>

definition applyCurrentReviewResumeClaim ::
  "runtime_state \<Rightarrow> string \<Rightarrow> bool \<Rightarrow> runtime_state res" where
  "applyCurrentReviewResumeClaim s ref clearCurrentFeedback =
     (case map_get (rs_blocks s) ref of
        None \<Rightarrow> Inl (BlockDoesNotExist ref)
      | Some b \<Rightarrow>
          let s1 = with_block ref (b\<lparr>bs_pendingFeedbackId := None\<rparr>) s;
              s2 = s1\<lparr>rs_currentRefs := with_ref (rs_currentRefs s1) ref\<rparr>;
              s3 = (if clearCurrentFeedback then s2\<lparr>rs_currentFeedbackId := None\<rparr> else s2)
          in Inr (s3\<lparr>rs_currentReviewBlockRef := Some ref\<rparr>))"

definition withLockedRuntime :: "manifest \<Rightarrow> (runtime_context \<Rightarrow> 'a cmd) \<Rightarrow> 'a cmd" where
  "withLockedRuntime mf fn = cmd_bind (loadRuntime mf) fn"

record mutation_result =
  mr_ref :: string
  mr_status :: block_status
  mr_reason :: "string option"

definition drop_current :: "string \<Rightarrow> runtime_state \<Rightarrow> runtime_state" where
  "drop_current ref s = s\<lparr>rs_currentRefs := without_ref (rs_currentRefs s) ref\<rparr>"

text \<open>Writing the block, saving the state and answering.\<close>

definition save_block ::
  "manifest \<Rightarrow> runtime_state \<Rightarrow> string \<Rightarrow> block_status \<Rightarrow> string option \<Rightarrow> mutation_result cmd" where
  "save_block mf s ref status reason =
     cmd_bind (saveState mf s) (\<lambda>_.
     cmd_return \<lparr>mr_ref = ref, mr_status = status, mr_reason = reason\<rparr>)"

definition markBlockBlocked :: "manifest \<Rightarrow> string \<Rightarrow> string \<Rightarrow> mutation_result cmd" where
  "markBlockBlocked mf ref reason =
     withLockedRuntime mf (\<lambda>ctx.
     cmd_bind (cmd_lift (getBlock (rc_graph ctx) ref)) (\<lambda>block.
     if trim reason = [] then cmd_lift (Inl (EmptyReason ''mark-blocked''))
     else cmd_bind (cmd_lift (requireBlockState (rc_state ctx) ref)) (\<lambda>b.
       let s1 = with_block ref ((withoutRemoteBlockOwnership b BBlocked)
                  \<lparr>bs_blockedReason := Some (trim reason)\<rparr>) (rc_state ctx)
       in if mb_type block = Review \<and> openFeedbackForReview s1 ref \<noteq> None
          then cmd_lift (Inl OpenFeedbackBlocksMarkBlocked)
          else save_block mf (drop_current ref s1) ref BBlocked (Some (trim reason)))))"

text \<open>The review fields that \<^verbatim>\<open>mark-diverged\<close> and \<^verbatim>\<open>resolve-divergence\<close> clear.\<close>

definition clear_review_fields :: "block_type \<Rightarrow> block_state \<Rightarrow> block_state" where
  "clear_review_fields bt b =
     (if bt = Review
      then b\<lparr>bs_activeFeedbackId := None, bs_pendingFeedbackId := None, bs_completionReason := None,
             bs_passedWorkRevision := None\<rparr>
      else b)"

definition clear_review_index :: "runtime_context \<Rightarrow> block_type \<Rightarrow> string \<Rightarrow> unit cmd" where
  "clear_review_index ctx bt ref =
     (case (bt, truthy (map_get (blockTaskByRef (rc_graph ctx)) ref)) of
        (Review, Some taskId) \<Rightarrow> clearReviewCompletionReason taskId ref
      | _ \<Rightarrow> cmd_return ())"

definition diverged_block :: "block_state \<Rightarrow> string \<Rightarrow> block_state" where
  "diverged_block current reason =
     (if bs_remoteOwnership current \<noteq> None
      then current\<lparr>bs_remoteInterruption := None, bs_remoteOperationReceipt := None\<rparr>
      else clearRemoteBlockOperationState current)
     \<lparr>bs_status := BDiverged, bs_divergenceReason := Some reason\<rparr>"

definition markBlockDiverged :: "manifest \<Rightarrow> string \<Rightarrow> string \<Rightarrow> mutation_result cmd" where
  "markBlockDiverged mf ref reason =
     withLockedRuntime mf (\<lambda>ctx.
     cmd_bind (cmd_lift (getBlock (rc_graph ctx) ref)) (\<lambda>block.
     if trim reason = [] then cmd_lift (Inl (EmptyReason ''mark-diverged''))
     else cmd_bind (cmd_lift (requireBlockState (rc_state ctx) ref)) (\<lambda>current.
       let b = clear_review_fields (mb_type block) (diverged_block current (trim reason))
       in cmd_bind (clear_review_index ctx (mb_type block) ref) (\<lambda>_.
          save_block mf (drop_current ref (with_block ref b (rc_state ctx))) ref BDiverged
            (Some (trim reason))))))"

text \<open>The status a block returns to.\<close>

definition waiting_status :: "runtime_context \<Rightarrow> string \<Rightarrow> block_status res" where
  "waiting_status ctx ref =
     try_bind (blockDependenciesCompleted (rc_graph ctx) (rc_state ctx) ref)
       (\<lambda>completed. Inr (if completed then BReady else BPlanned))"

definition unblockBlock :: "manifest \<Rightarrow> string \<Rightarrow> string \<Rightarrow> bool \<Rightarrow> mutation_result cmd" where
  "unblockBlock mf ref reason allowAlreadyCompleted =
     withLockedRuntime mf (\<lambda>ctx.
     cmd_bind (cmd_lift (getBlock (rc_graph ctx) ref)) (\<lambda>block.
     if trim reason = [] then cmd_lift (Inl (EmptyReason ''unblock''))
     else case map_get (rs_blocks (rc_state ctx)) ref of
       None \<Rightarrow> cmd_lift (Inl (BlockNotBlocked ref))
     | Some current \<Rightarrow>
         if bs_status current \<noteq> BBlocked
         then (if allowAlreadyCompleted \<and> bs_status current = BCompleted
               then cmd_return \<lparr>mr_ref = ref, mr_status = BCompleted, mr_reason = Some (trim reason)\<rparr>
               else cmd_lift (Inl (BlockNotBlocked ref)))
         else cmd_bind (cmd_lift (waiting_status ctx ref)) (\<lambda>nextStatus.
              save_block mf (with_block ref ((withoutRemoteBlockOwnership current nextStatus)
                \<lparr>bs_blockedReason := None\<rparr>) (rc_state ctx)) ref nextStatus (Some (trim reason)))))"

definition releaseInProgressBlock :: "manifest \<Rightarrow> string \<Rightarrow> mutation_result cmd" where
  "releaseInProgressBlock mf ref =
     withLockedRuntime mf (\<lambda>ctx.
     cmd_bind (cmd_lift (getBlock (rc_graph ctx) ref)) (\<lambda>block.
     case map_get (rs_blocks (rc_state ctx)) ref of
       None \<Rightarrow> cmd_lift (Inl (BlockNotInProgress ref))
     | Some current \<Rightarrow>
         if bs_status current \<noteq> BInProgress then cmd_lift (Inl (BlockNotInProgress ref))
         else if bs_remoteOwnership current \<noteq> None then cmd_lift (Inl (RemoteOwnedRelease ref))
         else cmd_bind (cmd_lift (waiting_status ctx ref)) (\<lambda>nextStatus.
              save_block mf (drop_current ref (with_block ref
                ((withoutRemoteBlockOwnership current nextStatus)\<lparr>bs_blockedReason := None\<rparr>)
                (rc_state ctx))) ref nextStatus None)))"

definition resolveBlockDivergence :: "manifest \<Rightarrow> string \<Rightarrow> string \<Rightarrow> mutation_result cmd" where
  "resolveBlockDivergence mf ref reason =
     withLockedRuntime mf (\<lambda>ctx.
     cmd_bind (cmd_lift (getBlock (rc_graph ctx) ref)) (\<lambda>block.
     case map_get (rs_blocks (rc_state ctx)) ref of
       None \<Rightarrow> cmd_lift (Inl (BlockNotDiverged ref))
     | Some current \<Rightarrow>
         if bs_status current \<noteq> BDiverged then cmd_lift (Inl (BlockNotDiverged ref))
         else if trim reason = [] then cmd_lift (Inl (EmptyReason ''resolve-divergence''))
         else cmd_bind (cmd_lift (waiting_status ctx ref)) (\<lambda>nextStatus.
              let b = clear_review_fields (mb_type block)
                        ((withoutRemoteBlockOwnership current nextStatus)\<lparr>bs_divergenceReason := None\<rparr>)
              in cmd_bind (clear_review_index ctx (mb_type block) ref) (\<lambda>_.
                 save_block mf (with_block ref b (rc_state ctx)) ref nextStatus (Some (trim reason))))))"

section \<open>Resetting reviews that ran out of cycles\<close>

definition reset_block :: "block_status \<Rightarrow> block_state \<Rightarrow> block_state" where
  "reset_block st b =
     b\<lparr>bs_status := st, bs_activeFeedbackId := None, bs_pendingFeedbackId := None,
       bs_blockedReason := None, bs_completionReason := None, bs_passedWorkRevision := None\<rparr>"

text \<open>One iteration of the loop over the blocks: the references reset so far, the tasks they belong to
  and the state, which later iterations read.\<close>

definition reset_review ::
  "compiled_graph \<Rightarrow> claim_scope \<Rightarrow> string \<Rightarrow> string list \<times> string list \<times> runtime_state \<Rightarrow>
   (string list \<times> string list \<times> runtime_state) res" where
  "reset_review g scope ref acc =
     (case acc of (refs, taskIds, s) \<Rightarrow>
      case (map_get (blocksByRef g) ref, map_get (rs_blocks s) ref) of
        (Some block, Some b) \<Rightarrow>
          if mb_type block \<noteq> Review \<or> bs_completionReason b \<noteq> Some MaxCyclesReached \<or>
             \<not> blockInScope ref g scope
          then Inr acc
          else try_bind (blockDependenciesCompleted g s ref) (\<lambda>completed.
            Inr (refs @ [ref],
                 (case truthy (map_get (blockTaskByRef g) ref) of
                    None \<Rightarrow> taskIds | Some t \<Rightarrow> with_ref taskIds t),
                 with_block ref (reset_block (if completed then BReady else BPlanned) b) s))
      | _ \<Rightarrow> Inr acc)"

record file_snapshot =
  sn_state :: "runtime_state option"
  sn_indexes :: "(string \<times> task_index option) list"

definition snapshot_files :: "string list \<Rightarrow> workspace_files \<Rightarrow> file_snapshot" where
  "snapshot_files taskIds ws =
     \<lparr>sn_state = wf_state ws, sn_indexes = map (\<lambda>t. (t, map_get (wf_taskIndex ws) t)) taskIds\<rparr>"

definition restore_files :: "file_snapshot \<Rightarrow> workspace_files \<Rightarrow> workspace_files" where
  "restore_files sn ws = ws
     \<lparr>wf_state := sn_state sn,
      wf_taskIndex := fold (\<lambda>(t, i) m. case i of None \<Rightarrow> map_delete m t | Some x \<Rightarrow> map_set m t x)
        (sn_indexes sn) (wf_taskIndex ws)\<rparr>"

definition clear_reset_pointers :: "string list \<Rightarrow> runtime_state \<Rightarrow> runtime_state" where
  "clear_reset_pointers refs s =
     (let fb = filter (\<lambda>p. fb_sourceReviewBlockRef (snd p) \<notin> set refs) (rs_feedback s)
      in s\<lparr>rs_feedback := fb,
           rs_currentFeedbackId :=
             (case truthy (rs_currentFeedbackId s) of
                Some f \<Rightarrow> if map_has fb f then rs_currentFeedbackId s else None
              | None \<Rightarrow> rs_currentFeedbackId s),
           rs_currentReviewBlockRef :=
             (case truthy (rs_currentReviewBlockRef s) of
                Some r \<Rightarrow> if r \<in> set refs then None else rs_currentReviewBlockRef s
              | None \<Rightarrow> rs_currentReviewBlockRef s),
           rs_currentRefs := filter (\<lambda>r. r \<notin> set refs) (rs_currentRefs s)\<rparr>)"

fun clear_reasons :: "compiled_graph \<Rightarrow> string list \<Rightarrow> unit cmd" where
  "clear_reasons g [] = cmd_return ()"
| "clear_reasons g (ref # refs) =
     cmd_bind (case truthy (map_get (blockTaskByRef g) ref) of
                 None \<Rightarrow> cmd_return () | Some t \<Rightarrow> clearReviewCompletionReason t ref)
       (\<lambda>_. clear_reasons g refs)"

text \<open>\<^verbatim>\<open>try { ... } catch { rollback; rethrow }\<close>.\<close>

definition cmd_rollback :: "file_snapshot \<Rightarrow> 'a cmd \<Rightarrow> 'a cmd" where
  "cmd_rollback sn c ws =
     (case c ws of (Inl e, ws') \<Rightarrow> (Inl e, restore_files sn ws') | (Inr x, ws') \<Rightarrow> (Inr x, ws'))"

definition resetMaxCycleReviewsUnderCanvasLock ::
  "manifest \<Rightarrow> runtime_context \<Rightarrow> claim_scope \<Rightarrow> string list cmd" where
  "resetMaxCycleReviewsUnderCanvasLock mf ctx scope =
     (let g = rc_graph ctx
      in cmd_bind (cmd_lift (for_res (reset_review g scope) (blockRefsInManifestOrder g)
                     ([], [], rc_state ctx))) (\<lambda>(refs, taskIds, s).
         if refs = [] then cmd_return []
         else cmd_bind (cmd_read (snapshot_files taskIds)) (\<lambda>sn.
              cmd_rollback sn
                (cmd_bind (clear_reasons g refs) (\<lambda>_.
                 cmd_bind (saveState mf (clear_reset_pointers refs s)) (\<lambda>_.
                 cmd_return refs))))))"

definition resetMaxCycleReviewsForRetry :: "manifest \<Rightarrow> claim_scope \<Rightarrow> string list cmd" where
  "resetMaxCycleReviewsForRetry mf scope =
     withLockedRuntime mf (\<lambda>ctx. resetMaxCycleReviewsUnderCanvasLock mf ctx scope)"

section \<open>What the commands save is accepted\<close>

lemma keeps_locked:
  "(\<And>ctx. context_ok mf ctx \<Longrightarrow> cmd_keeps files_ok (fn ctx)) \<Longrightarrow> cmd_keeps files_ok (withLockedRuntime mf fn)"
  unfolding withLockedRuntime_def by (rule keeps_after_load)

lemma drop_current_valid [simp]: "runtimeState_valid (drop_current ref s) = runtimeState_valid s"
  by (rule runtimeState_valid_cong) (simp add: drop_current_def)

lemma keeps_save_block: "runtimeState_valid s \<Longrightarrow> cmd_keeps files_ok (save_block mf s ref st r)"
  unfolding save_block_def by (intro keeps_bind keeps_saveState keeps_return)

lemma requireBlockState_Inr: "requireBlockState s ref = Inr b \<longleftrightarrow> map_get (rs_blocks s) ref = Some b"
  by (simp add: requireBlockState_def split: option.splits)

lemma keeps_review_index: "cmd_keeps files_ok (clear_review_index ctx bt ref)"
  unfolding clear_review_index_def
  by (auto intro: keeps_rules split: block_type.splits option.splits)

text \<open>The fields the commands overwrite carry no constraint of the schema.\<close>

lemma free_fields_valid [simp]:
  "blockState_valid (b\<lparr>bs_blockedReason := br\<rparr>) = blockState_valid b"
  "blockState_valid (b\<lparr>bs_divergenceReason := dr\<rparr>) = blockState_valid b"
  "blockState_valid (b\<lparr>bs_activeFeedbackId := af\<rparr>) = blockState_valid b"
  "blockState_valid (b\<lparr>bs_pendingFeedbackId := pf\<rparr>) = blockState_valid b"
  "blockState_valid (b\<lparr>bs_completionReason := cr\<rparr>) = blockState_valid b"
  "blockState_valid (b\<lparr>bs_passedWorkRevision := pr\<rparr>) = blockState_valid b"
  "blockState_valid (b\<lparr>bs_latestReviewAttemptId := la\<rparr>) = blockState_valid b"
  by (simp_all add: block_valid_simps cong: option.case_cong remote_receipt.case_cong)

lemma clear_review_fields_valid [simp]: "blockState_valid (clear_review_fields bt b) = blockState_valid b"
  by (simp add: clear_review_fields_def)

lemma diverged_valid:
  assumes "blockState_valid b"
  shows "blockState_valid (diverged_block b r)"
  using assms unfolding diverged_block_def
  by (auto simp: block_valid_simps clearRemoteBlockOperationState_def split: option.splits remote_receipt.splits)

lemma context_block_valid:
  "context_ok mf ctx \<Longrightarrow> map_get (rs_blocks (rc_state ctx)) ref = Some b \<Longrightarrow> blockState_valid b"
  using context_okD(3) runtimeState_valid_get by blast

lemma context_without_valid:
  "context_ok mf ctx \<Longrightarrow> map_get (rs_blocks (rc_state ctx)) ref = Some b \<Longrightarrow>
   blockState_valid (withoutRemoteBlockOwnership b st)"
  using context_block_valid withoutRemote_valid by blast

lemma context_with_block_valid:
  "context_ok mf ctx \<Longrightarrow> blockState_valid b \<Longrightarrow> runtimeState_valid (with_block ref b (rc_state ctx))"
  using context_okD(3) with_block_valid by blast

lemmas mutation_rules =
  keeps_locked keeps_lift_bind keeps_save_block keeps_lift keeps_return context_with_block_valid

lemma markBlockBlocked_keeps: "cmd_keeps files_ok (markBlockBlocked mf ref reason)"
  unfolding markBlockBlocked_def
  by (intro mutation_rules keeps_if)
    (auto simp: Let_def requireBlockState_Inr intro!: mutation_rules context_without_valid)

lemma markBlockDiverged_keeps: "cmd_keeps files_ok (markBlockDiverged mf ref reason)"
  unfolding markBlockDiverged_def Let_def
  by (intro mutation_rules keeps_if keeps_bind [OF keeps_review_index])
    (auto simp: requireBlockState_Inr intro!: context_with_block_valid diverged_valid dest: context_block_valid)

lemma unblockBlock_keeps: "cmd_keeps files_ok (unblockBlock mf ref reason ac)"
  unfolding unblockBlock_def
  by (intro mutation_rules keeps_if)
    (auto dest: context_block_valid intro!: mutation_rules context_without_valid split: option.splits)

lemma releaseInProgressBlock_keeps: "cmd_keeps files_ok (releaseInProgressBlock mf ref)"
  unfolding releaseInProgressBlock_def
  by (intro mutation_rules)
    (auto dest: context_block_valid intro!: mutation_rules context_without_valid split: option.splits)

lemma resolveBlockDivergence_keeps: "cmd_keeps files_ok (resolveBlockDivergence mf ref reason)"
  unfolding resolveBlockDivergence_def
  by (intro mutation_rules)
    (auto simp: Let_def intro!: mutation_rules context_without_valid keeps_bind [OF keeps_review_index]
      split: option.splits)

section \<open>What the commands change\<close>

text \<open>The state the next load would give.\<close>

definition loaded_state :: "manifest \<Rightarrow> workspace_files \<Rightarrow> runtime_state res" where
  "loaded_state mf ws = try_bind (readState (wf_state ws)) (ensureStateForManifest mf)"

text \<open>The records of a block in two states differ at most in the choice between planned and ready.\<close>

definition same_record :: "runtime_state \<Rightarrow> runtime_state \<Rightarrow> string \<Rightarrow> bool" where
  "same_record s s' r \<longleftrightarrow>
     map_option norm_block (map_get (rs_blocks s') r) = map_option norm_block (map_get (rs_blocks s) r)"

lemma loaded_state_context:
  "context_ok mf ctx \<Longrightarrow> readState (wf_state ws) = Inr (rc_rawState ctx) \<Longrightarrow>
   loaded_state mf ws = Inr (rc_state ctx)"
  by (simp add: loaded_state_def context_ok_def)

lemma loaded_state_saved:
  assumes "ensureStateForManifest mf s = Inr s'" and "runtimeState_valid s"
  shows "loaded_state mf (ws\<lparr>wf_state := Some s'\<rparr>) = Inr s'"
  using ensure_valid [OF assms] ensure_idem [OF assms(1)] by (simp add: loaded_state_def readState_def)

lemma context_block_known:
  assumes "context_ok mf ctx" and "map_get (rs_blocks (rc_state ctx)) r = Some b"
  shows "r \<in> set (blockRefsInManifestOrder (rc_graph ctx))"
    and "map_get (blocksByRef (rc_graph ctx)) r = Some (block_of (rc_graph ctx) r)"
    and "\<forall>rc. bs_remoteOperationReceipt b = Some rc \<longrightarrow>
           remoteOperationReceiptMatchesBlockType rc (mb_type (block_of (rc_graph ctx) r))"
proof -
  note c = context_okD [OF assms(1)]
  have "map_has (rs_blocks (rc_state ctx)) r" using assms(2) by (simp add: map_has_get)
  with c(4) show r: "r \<in> set (blockRefsInManifestOrder (rc_graph ctx))"
    by (simp add: reconciled_def blocks_cover_def)
  show g: "map_get (blocksByRef (rc_graph ctx)) r = Some (block_of (rc_graph ctx) r)"
    by (rule block_of_get(1) [OF c(2) r])
  from c(6) map_get_mem [OF assms(2)] have "\<not> entry_drifts (rc_graph ctx) (r, b)"
    by (auto simp: receipts_match_def)
  with g show "\<forall>rc. bs_remoteOperationReceipt b = Some rc \<longrightarrow>
      remoteOperationReceiptMatchesBlockType rc (mb_type (block_of (rc_graph ctx) r))"
    by (auto simp: entry_drifts_def)
qed

lemma reconciled_has: "reconciled g s \<Longrightarrow> map_has (rs_blocks s) r \<longleftrightarrow> r \<in> set (blockRefsInManifestOrder g)"
  by (simp add: reconciled_def blocks_cover_def)

text \<open>Saving a state in which one block of the loaded state was replaced: the block is saved up to
  planned and ready, and so is every other one.\<close>

lemma save_one_block:
  assumes ctx: "context_ok mf ctx" and old: "map_get (rs_blocks (rc_state ctx)) ref = Some b0"
    and blocks: "rs_blocks s = map_set (rs_blocks (rc_state ctx)) ref b"
    and rcp: "bs_remoteOperationReceipt b = None"
    and e: "ensureStateForManifest mf s = Inr s'"
  shows "\<exists>b'. map_get (rs_blocks s') ref = Some b' \<and> norm_block b' = norm_block b"
    and "\<forall>r. r \<noteq> ref \<longrightarrow> same_record (rc_state ctx) s' r"
proof -
  note c = context_okD [OF ctx]
  have wf: "map_wf (rs_blocks s)" using c(4) blocks by (simp add: reconciled_def jm.wf_put)
  note keep = ensure_block [OF e c(1) wf]
  show "\<exists>b'. map_get (rs_blocks s') ref = Some b' \<and> norm_block b' = norm_block b"
    by (rule keep [OF _ context_block_known(2) [OF ctx old]]) (simp_all add: blocks jm.get_put rcp)
  show "\<forall>r. r \<noteq> ref \<longrightarrow> same_record (rc_state ctx) s' r"
  proof (intro allI impI)
    fix r
    assume r: "r \<noteq> ref"
    show "same_record (rc_state ctx) s' r"
    proof (cases "map_get (rs_blocks (rc_state ctx)) r")
      case (Some br)
      have "\<exists>b'. map_get (rs_blocks s') r = Some b' \<and> norm_block b' = norm_block br"
        using r Some
        by (intro keep [OF _ context_block_known(2,3) [OF ctx Some]]) (simp add: blocks jm.get_put)
      with Some show ?thesis by (auto simp: same_record_def)
    next
      case None
      then have "r \<notin> set (blockRefsInManifestOrder (rc_graph ctx))"
        using reconciled_has [OF c(4), of r] by (simp add: map_has_get)
      then have "\<not> map_has (rs_blocks s') r"
        using reconciled_has [OF ensure_reconciled [OF e c(1)], of r] by simp
      with None show ?thesis by (simp add: same_record_def map_has_get)
    qed
  qed
qed

text \<open>The five commands as data, to state what they share.\<close>

datatype block_mutation =
    MarkBlocked string string
  | MarkDiverged string string
  | Unblock string string bool
  | Release string
  | ResolveDivergence string string

fun mutation_ref :: "block_mutation \<Rightarrow> string" where
  "mutation_ref (MarkBlocked r _) = r"
| "mutation_ref (MarkDiverged r _) = r"
| "mutation_ref (Unblock r _ _) = r"
| "mutation_ref (Release r) = r"
| "mutation_ref (ResolveDivergence r _) = r"

fun run_mutation :: "manifest \<Rightarrow> block_mutation \<Rightarrow> mutation_result cmd" where
  "run_mutation mf (MarkBlocked r reason) = markBlockBlocked mf r reason"
| "run_mutation mf (MarkDiverged r reason) = markBlockDiverged mf r reason"
| "run_mutation mf (Unblock r reason ac) = unblockBlock mf r reason ac"
| "run_mutation mf (Release r) = releaseInProgressBlock mf r"
| "run_mutation mf (ResolveDivergence r reason) = resolveBlockDivergence mf r reason"

text \<open>What a command demands of the block and writes to it: the guards of the code.\<close>

fun mutation_guard :: "block_mutation \<Rightarrow> block_state \<Rightarrow> bool" where
  "mutation_guard (MarkBlocked _ reason) b \<longleftrightarrow> trim reason \<noteq> []"
| "mutation_guard (MarkDiverged _ reason) b \<longleftrightarrow> trim reason \<noteq> []"
| "mutation_guard (Unblock _ reason _) b \<longleftrightarrow> trim reason \<noteq> [] \<and> bs_status b = BBlocked"
| "mutation_guard (Release _) b \<longleftrightarrow> bs_status b = BInProgress \<and> bs_remoteOwnership b = None"
| "mutation_guard (ResolveDivergence _ reason) b \<longleftrightarrow> trim reason \<noteq> [] \<and> bs_status b = BDiverged"

fun mutation_effect :: "block_mutation \<Rightarrow> block_type \<Rightarrow> block_state \<Rightarrow> block_state" where
  "mutation_effect (MarkBlocked _ reason) bt b =
     (withoutRemoteBlockOwnership b BBlocked)\<lparr>bs_blockedReason := Some (trim reason)\<rparr>"
| "mutation_effect (MarkDiverged _ reason) bt b = clear_review_fields bt (diverged_block b (trim reason))"
| "mutation_effect (Unblock _ _ _) bt b = (withoutRemoteBlockOwnership b BPlanned)\<lparr>bs_blockedReason := None\<rparr>"
| "mutation_effect (Release _) bt b = (withoutRemoteBlockOwnership b BPlanned)\<lparr>bs_blockedReason := None\<rparr>"
| "mutation_effect (ResolveDivergence _ _) bt b =
     clear_review_fields bt ((withoutRemoteBlockOwnership b BPlanned)\<lparr>bs_divergenceReason := None\<rparr>)"

lemma norm_block_waiting:
  "norm_block ((withoutRemoteBlockOwnership b BReady)\<lparr>bs_blockedReason := x\<rparr>) =
   norm_block ((withoutRemoteBlockOwnership b BPlanned)\<lparr>bs_blockedReason := x\<rparr>)"
  "norm_block (clear_review_fields bt ((withoutRemoteBlockOwnership b BReady)\<lparr>bs_divergenceReason := x\<rparr>)) =
   norm_block (clear_review_fields bt ((withoutRemoteBlockOwnership b BPlanned)\<lparr>bs_divergenceReason := x\<rparr>))"
  by (simp_all add: norm_block_def waiting_def withoutRemoteBlockOwnership_def clear_review_fields_def)

text \<open>A command that returns either found the block completed already, or saved its effect.\<close>

definition mutation_saved ::
  "manifest \<Rightarrow> block_mutation \<Rightarrow> workspace_files \<Rightarrow> workspace_files \<Rightarrow> runtime_context \<Rightarrow> bool" where
  "mutation_saved mf m ws ws' ctx \<longleftrightarrow>
     (\<exists>b0 b s s'. map_get (rs_blocks (rc_state ctx)) (mutation_ref m) = Some b0 \<and> mutation_guard m b0 \<and>
        norm_block b = norm_block (mutation_effect m (mb_type (block_of (rc_graph ctx) (mutation_ref m))) b0) \<and>
        rs_blocks s = map_set (rs_blocks (rc_state ctx)) (mutation_ref m) b \<and>
        runtimeState_valid s \<and> ensureStateForManifest mf s = Inr s' \<and> wf_state ws' = Some s')"

lemma save_block_Inr:
  "save_block mf s ref st r ws = (Inr res, ws') \<longleftrightarrow>
     (\<exists>s'. ensureStateForManifest mf s = Inr s' \<and> ws' = ws\<lparr>wf_state := Some s'\<rparr> \<and>
        res = \<lparr>mr_ref = ref, mr_status = st, mr_reason = r\<rparr>)"
  by (auto simp: save_block_def cmd_bind_Inr saveState_Inr)

lemma getBlock_block_of:
  assumes "context_ok mf ctx" and "getBlock (rc_graph ctx) ref = Inr block"
  shows "block = block_of (rc_graph ctx) ref"
proof -
  note c = context_okD [OF assms(1)]
  from assms(2) have g: "map_get (blocksByRef (rc_graph ctx)) ref = Some block"
    by (simp add: getBlock_def split: option.splits)
  then have "map_has (blocksByRef (rc_graph ctx)) ref" by (simp add: map_has_get)
  then have "ref \<in> set (blockRefsInManifestOrder (rc_graph ctx))"
    using graph_wf_doms(2) [OF graph_ok_wf [OF c(2)]] by simp
  from block_of_get(1) [OF c(2) this] g show ?thesis by simp
qed

lemma mutation_savedI:
  assumes "context_ok mf ctx" and "map_get (rs_blocks (rc_state ctx)) (mutation_ref m) = Some b0"
    and "mutation_guard m b0"
    and "norm_block b = norm_block (mutation_effect m (mb_type (block_of (rc_graph ctx) (mutation_ref m))) b0)"
    and "blockState_valid b" and "rs_blocks s = map_set (rs_blocks (rc_state ctx)) (mutation_ref m) b"
    and "ensureStateForManifest mf s = Inr s'" and "wf_state ws' = Some s'"
  shows "mutation_saved mf m ws ws' ctx"
proof -
  have "runtimeState_valid s"
    using context_with_block_valid [OF assms(1,5), of "mutation_ref m"] assms(6)
    by (simp add: runtimeState_valid_def)
  with assms show ?thesis unfolding mutation_saved_def by blast
qed

lemma withLocked_InrE:
  assumes "withLockedRuntime mf fn ws = (Inr x, ws'')"
  obtains ctx ws' where "context_ok mf ctx" and "readState (wf_state ws) = Inr (rc_rawState ctx)"
    and "wf_state ws' = Some (rc_state ctx) \<or> ws' = ws \<and> rc_rawState ctx = rc_state ctx"
    and "fn ctx ws' = (Inr x, ws'')"
proof -
  from assms obtain ctx ws' where c: "loadRuntime mf ws = (Inr ctx, ws')" "fn ctx ws' = (Inr x, ws'')"
    by (auto simp: withLockedRuntime_def cmd_bind_Inr)
  from loadRuntime_Inr [OF c(1)] have "context_ok mf ctx" "readState (wf_state ws) = Inr (rc_rawState ctx)"
    "wf_state ws' = Some (rc_state ctx) \<or> ws' = ws \<and> rc_rawState ctx = rc_state ctx"
    by auto
  with c(2) show thesis by (rule that [rotated -1])
qed

lemma waiting_status_Inr: "waiting_status ctx ref = Inr st \<Longrightarrow> st = BReady \<or> st = BPlanned"
  by (auto simp: waiting_status_def elim!: try_bind_InrE split: if_splits)

lemma without_block_valid:
  "context_ok mf ctx \<Longrightarrow> map_get (rs_blocks (rc_state ctx)) ref = Some b \<Longrightarrow>
   blockState_valid ((withoutRemoteBlockOwnership b st)\<lparr>bs_blockedReason := x\<rparr>)"
  using context_without_valid by simp

definition saves :: "manifest \<Rightarrow> block_mutation \<Rightarrow> workspace_files \<Rightarrow> workspace_files \<Rightarrow> bool" where
  "saves mf m ws ws' \<longleftrightarrow>
     (\<exists>ctx. context_ok mf ctx \<and> readState (wf_state ws) = Inr (rc_rawState ctx) \<and>
        mutation_saved mf m ws ws' ctx)"

lemma savesI:
  assumes "context_ok mf ctx" and "readState (wf_state ws) = Inr (rc_rawState ctx)"
    and "map_get (rs_blocks (rc_state ctx)) (mutation_ref m) = Some b0" and "mutation_guard m b0"
    and "norm_block b = norm_block (mutation_effect m (mb_type (block_of (rc_graph ctx) (mutation_ref m))) b0)"
    and "blockState_valid b" and "rs_blocks s = map_set (rs_blocks (rc_state ctx)) (mutation_ref m) b"
    and "ensureStateForManifest mf s = Inr s'" and "wf_state ws' = Some s'"
  shows "saves mf m ws ws'"
  using mutation_savedI [OF assms(1,3-9)] assms(1,2) unfolding saves_def by blast

lemma guard_Inr:
  "(case v of None \<Rightarrow> cmd_lift (Inl e) | Some b \<Rightarrow> k b) ws = (Inr x, ws') \<longleftrightarrow>
     (\<exists>b. v = Some b \<and> k b ws = (Inr x, ws'))"
  "(if c then cmd_lift (Inl e) else d) ws = (Inr x, ws') \<longleftrightarrow> \<not> c \<and> d ws = (Inr x, ws')"
  by (auto split: option.splits)

lemmas command_simps = cmd_bind_Inr requireBlockState_Inr Let_def save_block_Inr guard_Inr

lemma drop_current_blocks [simp]: "rs_blocks (drop_current ref s) = rs_blocks s"
  by (simp add: drop_current_def)

lemma markBlockBlocked_saves:
  assumes "markBlockBlocked mf ref reason ws = (Inr res, ws')"
  shows "saves mf (MarkBlocked ref reason) ws ws'"
proof -
  from assms obtain ctx b s' where c: "context_ok mf ctx" "readState (wf_state ws) = Inr (rc_rawState ctx)"
    and b: "map_get (rs_blocks (rc_state ctx)) ref = Some b" "trim reason \<noteq> []"
    and s': "ensureStateForManifest mf (drop_current ref (with_block ref
        ((withoutRemoteBlockOwnership b BBlocked)\<lparr>bs_blockedReason := Some (trim reason)\<rparr>)
        (rc_state ctx))) = Inr s'" "wf_state ws' = Some s'"
    unfolding markBlockBlocked_def
    by (auto elim!: withLocked_InrE simp: command_simps split: if_splits)
  show ?thesis
    by (rule savesI [OF c, of "MarkBlocked ref reason" b, OF _ _ refl _ _ s'])
      (use b context_without_valid [OF c(1) b(1)] in simp_all)
qed

lemma markBlockDiverged_saves:
  assumes "markBlockDiverged mf ref reason ws = (Inr res, ws')"
  shows "saves mf (MarkDiverged ref reason) ws ws'"
proof -
  from assms obtain ctx b block s' where c: "context_ok mf ctx" "readState (wf_state ws) = Inr (rc_rawState ctx)"
    and b: "map_get (rs_blocks (rc_state ctx)) ref = Some b" "trim reason \<noteq> []"
    and bl: "getBlock (rc_graph ctx) ref = Inr block"
    and s': "ensureStateForManifest mf (drop_current ref (with_block ref
        (clear_review_fields (mb_type block) (diverged_block b (trim reason))) (rc_state ctx))) = Inr s'"
      "wf_state ws' = Some s'"
    unfolding markBlockDiverged_def
    by (auto elim!: withLocked_InrE simp: command_simps split: if_splits)
  show ?thesis
    by (rule savesI [OF c, of "MarkDiverged ref reason" b, OF _ _ _ _ _ s'])
      (use b getBlock_block_of [OF c(1) bl] diverged_valid [OF context_block_valid [OF c(1) b(1)]] in simp_all)
qed

lemma unblockBlock_saves:
  assumes "unblockBlock mf ref reason ac ws = (Inr res, ws')"
  shows "saves mf (Unblock ref reason ac) ws ws' \<or>
     loaded_state mf ws' = loaded_state mf ws \<and> ac \<and> mr_status res = BCompleted"
  using assms unfolding unblockBlock_def
proof (elim withLocked_InrE, goal_cases)
  case (1 ctx ws1)
  note c = 1(1,2)
  from 1(4) consider
      (already) "ac" "mr_status res = BCompleted" "ws' = ws1"
    | (saved) b st s' where "map_get (rs_blocks (rc_state ctx)) ref = Some b" "trim reason \<noteq> []"
        "bs_status b = BBlocked" "waiting_status ctx ref = Inr st"
        "ensureStateForManifest mf (with_block ref ((withoutRemoteBlockOwnership b st)
          \<lparr>bs_blockedReason := None\<rparr>) (rc_state ctx)) = Inr s'" "wf_state ws' = Some s'"
    by (auto simp: command_simps split: if_splits option.splits)
  then show ?case
  proof cases
    case already
    moreover have "loaded_state mf ws1 = loaded_state mf ws"
      using 1(3) loaded_state_context [OF c] context_okD(3) [OF c(1)] ensure_idem [OF context_okD(7) [OF c(1)]]
      by (auto simp: loaded_state_def readState_def)
    ultimately show ?thesis by simp
  next
    case (saved b st s')
    have "saves mf (Unblock ref reason ac) ws ws'"
      by (rule savesI [OF c, of "Unblock ref reason ac" b, OF _ _ _ _ _ saved(5,6)])
        (use saved waiting_status_Inr [OF saved(4)] norm_block_waiting
          context_without_valid [OF c(1) saved(1)] in auto)
    then show ?thesis by blast
  qed
qed

lemma releaseInProgressBlock_saves:
  assumes "releaseInProgressBlock mf ref ws = (Inr res, ws')"
  shows "saves mf (Release ref) ws ws'"
proof -
  from assms obtain ctx b st s' where c: "context_ok mf ctx" "readState (wf_state ws) = Inr (rc_rawState ctx)"
    and b: "map_get (rs_blocks (rc_state ctx)) ref = Some b" "bs_status b = BInProgress"
      "bs_remoteOwnership b = None" and st: "waiting_status ctx ref = Inr st"
    and s': "ensureStateForManifest mf (drop_current ref (with_block ref ((withoutRemoteBlockOwnership b st)
          \<lparr>bs_blockedReason := None\<rparr>) (rc_state ctx))) = Inr s'" "wf_state ws' = Some s'"
    unfolding releaseInProgressBlock_def
    by (auto elim!: withLocked_InrE simp: command_simps split: if_splits option.splits)
  show ?thesis
    by (rule savesI [OF c, of "Release ref" b, OF _ _ _ _ _ s'])
      (use b waiting_status_Inr [OF st] norm_block_waiting context_without_valid [OF c(1) b(1)] in auto)
qed

lemma resolveBlockDivergence_saves:
  assumes "resolveBlockDivergence mf ref reason ws = (Inr res, ws')"
  shows "saves mf (ResolveDivergence ref reason) ws ws'"
proof -
  from assms obtain ctx b block st s' where
    c: "context_ok mf ctx" "readState (wf_state ws) = Inr (rc_rawState ctx)"
    and b: "map_get (rs_blocks (rc_state ctx)) ref = Some b" "bs_status b = BDiverged" "trim reason \<noteq> []"
    and bl: "getBlock (rc_graph ctx) ref = Inr block" and st: "waiting_status ctx ref = Inr st"
    and s': "ensureStateForManifest mf (with_block ref (clear_review_fields (mb_type block)
          ((withoutRemoteBlockOwnership b st)\<lparr>bs_divergenceReason := None\<rparr>)) (rc_state ctx)) = Inr s'"
      "wf_state ws' = Some s'"
    unfolding resolveBlockDivergence_def
    by (auto elim!: withLocked_InrE simp: command_simps split: if_splits option.splits)
  show ?thesis
    by (rule savesI [OF c, of "ResolveDivergence ref reason" b, OF _ _ _ _ _ s'])
      (use b getBlock_block_of [OF c(1) bl] waiting_status_Inr [OF st] norm_block_waiting
        context_without_valid [OF c(1) b(1)] in auto)
qed

lemma run_mutation_saves:
  assumes "run_mutation mf m ws = (Inr res, ws')"
  shows "saves mf m ws ws' \<or> loaded_state mf ws' = loaded_state mf ws \<and> mr_status res = BCompleted"
  using assms
  by (cases m) (auto dest: markBlockBlocked_saves markBlockDiverged_saves unblockBlock_saves
      releaseInProgressBlock_saves resolveBlockDivergence_saves)

lemma mutation_effect_receipt [simp]: "bs_remoteOperationReceipt (mutation_effect m bt b) = None"
  by (cases m) (auto simp: clear_review_fields_def diverged_block_def clearRemoteBlockOperationState_def)

lemma saves_post:
  assumes "saves mf m ws ws'" and "loaded_state mf ws = Inr s" and "compileTaskGraph mf = Inr g"
  shows "\<exists>s' b b'. loaded_state mf ws' = Inr s' \<and> map_get (rs_blocks s) (mutation_ref m) = Some b \<and>
     mutation_guard m b \<and> map_get (rs_blocks s') (mutation_ref m) = Some b' \<and>
     norm_block b' = norm_block (mutation_effect m (mb_type (block_of g (mutation_ref m))) b) \<and>
     (\<forall>r. r \<noteq> mutation_ref m \<longrightarrow> same_record s s' r)"
proof -
  from assms(1) obtain ctx where c: "context_ok mf ctx" "readState (wf_state ws) = Inr (rc_rawState ctx)"
    and ms: "mutation_saved mf m ws ws' ctx" by (auto simp: saves_def)
  from loaded_state_context [OF c] assms(2) have s: "s = rc_state ctx" by simp
  from context_okD(1) [OF c(1)] assms(3) have g: "g = rc_graph ctx" by simp
  from ms obtain b0 b t s' where b0: "map_get (rs_blocks (rc_state ctx)) (mutation_ref m) = Some b0"
    "mutation_guard m b0"
    and b: "norm_block b = norm_block (mutation_effect m (mb_type (block_of g (mutation_ref m))) b0)"
    and t: "rs_blocks t = map_set (rs_blocks (rc_state ctx)) (mutation_ref m) b" "runtimeState_valid t"
    and s': "ensureStateForManifest mf t = Inr s'" "wf_state ws' = Some s'"
    unfolding mutation_saved_def g by blast
  have "bs_remoteOperationReceipt b = None" using norm_block_remote(2) [OF b] by simp
  note one = save_one_block [OF c(1) b0(1) t(1) this s'(1)]
  have "loaded_state mf ws' = Inr s'"
    using loaded_state_saved [OF s'(1) t(2), of ws'] s'(2) by (simp add: loaded_state_def)
  with one b0 b s show ?thesis by auto
qed

section \<open>Properties of the commands\<close>

text \<open>Whatever a status command answers, it leaves the records of the other blocks.\<close>

lemma mutation_touches_one_block:
  assumes "run_mutation mf m ws = (Inr res, ws')" and "loaded_state mf ws = Inr s"
  shows "\<exists>s'. loaded_state mf ws' = Inr s' \<and> (\<forall>r. r \<noteq> mutation_ref m \<longrightarrow> same_record s s' r)"
  using run_mutation_saves [OF assms(1)]
proof
  assume sv: "saves mf m ws ws'"
  then obtain g where "compileTaskGraph mf = Inr g" by (auto simp: saves_def context_ok_def)
  from saves_post [OF sv assms(2) this] show ?thesis by blast
next
  assume "loaded_state mf ws' = loaded_state mf ws \<and> mr_status res = BCompleted"
  with assms(2) show ?thesis by (simp add: same_record_def)
qed


definition sample_files :: workspace_files where
  "sample_files = empty_files\<lparr>wf_state := Some sample_state\<rparr>"

lemma sample_marked:
  obtains res ws' s g where
    "run_mutation sample_manifest (MarkBlocked ''T2#B1'' '' needs a key '') sample_files = (Inr res, ws')"
    and "mr_status res = BBlocked" and "loaded_state sample_manifest sample_files = Inr s"
    and "compileTaskGraph sample_manifest = Inr g"
proof -
  have "cmd_holds (\<lambda>res ws'. mr_status res = BBlocked)
      (run_mutation sample_manifest (MarkBlocked ''T2#B1'' '' needs a key '') sample_files)" by code_simp
  then obtain res ws' where
    r: "run_mutation sample_manifest (MarkBlocked ''T2#B1'' '' needs a key '') sample_files = (Inr res, ws')"
      "mr_status res = BBlocked" by (rule cmd_holdsE)
  have "res_holds (\<lambda>s. True) (loaded_state sample_manifest sample_files)" by code_simp
  then obtain s where s: "loaded_state sample_manifest sample_files = Inr s" by (rule res_holdsE)
  from sample_compiles obtain g where "compileTaskGraph sample_manifest = Inr g" by blast
  with r s show thesis by (rule that)
qed


section \<open>Properties of the reset\<close>

lemma keeps_loadRuntime: "cmd_keeps files_ok (loadRuntime mf)"
  unfolding cmd_keeps_def by (rule hoare_post [OF loadRuntime_hoare]) simp_all

text \<open>The reviews a reset may rewrite carry no remote record.\<close>

definition exhausted_local :: "runtime_state \<Rightarrow> bool" where
  "exhausted_local s \<longleftrightarrow>
     (\<forall>r b. map_get (rs_blocks s) r = Some b \<longrightarrow> bs_completionReason b = Some MaxCyclesReached \<longrightarrow>
        bs_remoteOwnership b = None \<and> bs_remoteInterruption b = None \<and> bs_remoteOperationReceipt b = None)"

lemma reset_review_cases:
  assumes "reset_review g scope r acc = Inr acc'"
  shows "acc' = acc \<or> (\<exists>b st. map_get (rs_blocks (snd (snd acc))) r = Some b \<and>
     bs_completionReason b = Some MaxCyclesReached \<and>
     snd (snd acc') = with_block r (reset_block st b) (snd (snd acc)))"
proof (cases acc)
  case (fields refs ts s)
  with assms show ?thesis
    by (cases "map_get (blocksByRef g) r"; cases "map_get (rs_blocks s) r")
      (auto simp: reset_review_def split: if_split_asm elim!: try_bind_InrE)
qed

lemma reset_review_valid:
  assumes "reset_review g scope r acc = Inr acc'"
    and "runtimeState_valid (snd (snd acc)) \<and> exhausted_local (snd (snd acc))"
  shows "runtimeState_valid (snd (snd acc')) \<and> exhausted_local (snd (snd acc'))"
proof -
  obtain refs ts s where acc: "acc = (refs, ts, s)" by (cases acc)
  show ?thesis
  proof (cases "acc' = acc")
    case False
    with assms(1) acc obtain b st where
      b: "map_get (rs_blocks s) r = Some b" "bs_completionReason b = Some MaxCyclesReached"
      and acc': "snd (snd acc') = with_block r (reset_block st b) s"
      using reset_review_cases [OF assms(1)] by auto
    have v: "blockState_valid b" using assms(2) acc b(1) runtimeState_valid_get by auto
    have "bs_remoteOwnership b = None" "bs_remoteInterruption b = None" "bs_remoteOperationReceipt b = None"
      using assms(2) acc b by (auto simp: exhausted_local_def)
    with v have "blockState_valid (b\<lparr>bs_status := st\<rparr>)" by (simp add: block_valid_simps)
    then have "blockState_valid (reset_block st b)" by (simp add: reset_block_def)
    then have "runtimeState_valid (snd (snd acc'))"
      unfolding acc' using assms(2) acc by (intro with_block_valid) simp_all
    moreover have "exhausted_local (snd (snd acc'))"
      unfolding acc' using assms(2) acc by (auto simp: exhausted_local_def jm.get_put reset_block_def)
    ultimately show ?thesis by simp
  qed (use assms(2) in simp)
qed

lemma clear_reset_pointers_blocks [simp]: "rs_blocks (clear_reset_pointers refs s) = rs_blocks s"
  by (simp add: clear_reset_pointers_def Let_def)

lemma keeps_clear_reasons: "cmd_keeps files_ok (clear_reasons g refs)"
  by (induction refs) (auto intro!: keeps_rules split: option.splits)

lemma rollback_restores_state:
  "snd (cmd_rollback (snapshot_files ts ws) c ws) = snd (c ws) \<or>
   wf_state (snd (cmd_rollback (snapshot_files ts ws) c ws)) = wf_state ws"
  by (auto simp: cmd_rollback_def restore_files_def snapshot_files_def split: prod.splits sum.splits)

text \<open>Resetting exhausted reviews keeps the state file readable as long as none of them carries a
  remote record.\<close>

lemma reset_keeps_schema:
  assumes "files_ok ws" and "loaded_state mf ws = Inr s" and "exhausted_local s"
  shows "files_ok (snd (resetMaxCycleReviewsForRetry mf scope ws))"
proof (cases "loadRuntime mf ws")
  case (Pair r ws1)
  have ok1: "files_ok ws1" using cmd_keepsD [OF keeps_loadRuntime assms(1), of mf] Pair by simp
  show ?thesis
  proof (cases r)
    case (Inl e)
    with Pair ok1 show ?thesis by (simp add: resetMaxCycleReviewsForRetry_def withLockedRuntime_def cmd_bind_def)
  next
    case (Inr ctx)
    note ld = loadRuntime_Inr [OF Pair [unfolded Inr]]
    from loaded_state_context [OF ld(1,2)] assms(2) have s: "s = rc_state ctx" by simp
    have body: "files_ok (snd (resetMaxCycleReviewsUnderCanvasLock mf ctx scope ws1))"
    proof (cases "for_res (reset_review (rc_graph ctx) scope) (blockRefsInManifestOrder (rc_graph ctx))
        ([], [], rc_state ctx)")
      case (Inl e)
      then show ?thesis using ok1 by (simp add: resetMaxCycleReviewsUnderCanvasLock_def cmd_defs)
    next
      case (Inr acc)
      obtain refs ts s1 where acc: "acc = (refs, ts, s1)" by (cases acc)
      have "runtimeState_valid (snd (snd acc)) \<and> exhausted_local (snd (snd acc))"
        by (rule for_res_invariant [OF Inr, where I = "\<lambda>acc. runtimeState_valid (snd (snd acc)) \<and>
            exhausted_local (snd (snd acc))"])
          (use assms(3) s context_okD(3) [OF ld(1)] reset_review_valid in auto)
      then have v: "runtimeState_valid (clear_reset_pointers refs s1)"
        using acc by (simp add: runtimeState_valid_def)
      let ?c = "cmd_bind (clear_reasons (rc_graph ctx) refs) (\<lambda>_.
          cmd_bind (saveState mf (clear_reset_pointers refs s1)) (\<lambda>_. cmd_return refs))"
      have "cmd_keeps files_ok ?c" by (intro keeps_bind keeps_clear_reasons keeps_saveState [OF v] keeps_return)
      from cmd_keepsD [OF this ok1] have "files_ok (snd (?c ws1))" .
      then have "files_ok (snd (cmd_rollback (snapshot_files ts ws1) ?c ws1))"
        using rollback_restores_state [of ts ws1 ?c] ok1 by (auto simp: files_ok_def)
      then show ?thesis
        using ok1 acc Inr
        by (simp add: resetMaxCycleReviewsUnderCanvasLock_def cmd_bind_def cmd_lift_def cmd_read_def cmd_return_def)
    qed
    with Pair Inr show ?thesis
      by (simp add: resetMaxCycleReviewsForRetry_def withLockedRuntime_def cmd_bind_def)
  qed
qed

definition exhausted_state :: "block_state \<Rightarrow> runtime_state" where
  "exhausted_state review = createEmptyState\<lparr>rs_blocks :=
     [(''T1#B1'', (fresh_block BCompleted)\<lparr>bs_lastRunId := Some ''RUN-001''\<rparr>), (''T1#R1'', review)]\<rparr>"

definition exhausted_review :: block_state where
  "exhausted_review = (fresh_block BCompleted)\<lparr>bs_lastRunId := Some ''REV-001'',
     bs_latestReviewAttemptId := Some ''REV-001'', bs_completionReason := Some MaxCyclesReached\<rparr>"

text \<open>The files agree: the same state file, the same content of every other file.\<close>

definition same_files :: "workspace_files \<Rightarrow> workspace_files \<Rightarrow> bool" where
  "same_files ws ws' \<longleftrightarrow>
     wf_state ws' = wf_state ws \<and> (\<forall>t. map_get (wf_taskIndex ws') t = map_get (wf_taskIndex ws) t) \<and>
     wf_feedback ws' = wf_feedback ws \<and> wf_attempts ws' = wf_attempts ws \<and>
     wf_reviewIndex ws' = wf_reviewIndex ws"

text \<open>The files agree up to the state file and the indexes of some tasks.\<close>

definition indexes_differ :: "string set \<Rightarrow> workspace_files \<Rightarrow> workspace_files \<Rightarrow> bool" where
  "indexes_differ T ws ws' \<longleftrightarrow>
     (\<forall>t. t \<notin> T \<longrightarrow> map_get (wf_taskIndex ws') t = map_get (wf_taskIndex ws) t) \<and>
     wf_feedback ws' = wf_feedback ws \<and> wf_attempts ws' = wf_attempts ws \<and>
     wf_reviewIndex ws' = wf_reviewIndex ws"

lemma restore_fold:
  "map_get (fold (\<lambda>(t, i) m. case i of None \<Rightarrow> map_delete m t | Some x \<Rightarrow> map_set m t x)
     (map (\<lambda>t. (t, f t)) ts) m) t = (if t \<in> set ts then f t else map_get m t)"
  by (induction ts arbitrary: m) (auto simp: jm.get_put jm.get_del split: option.splits)

lemma restore_same:
  "indexes_differ (set ts) ws ws' \<Longrightarrow> same_files ws (restore_files (snapshot_files ts ws) ws')"
  by (simp add: same_files_def indexes_differ_def restore_files_def snapshot_files_def restore_fold)

lemma clear_reasons_frame:
  assumes "\<forall>r \<in> set refs. \<forall>t. truthy (map_get (blockTaskByRef g) r) = Some t \<longrightarrow> t \<in> T"
  shows "\<exists>ws'. clear_reasons g refs ws = (Inr (), ws') \<and> indexes_differ T ws ws'"
  using assms
proof (induction refs arbitrary: ws)
  case Nil
  then show ?case by (simp add: cmd_return_def indexes_differ_def)
next
  case (Cons r refs)
  let ?c = "case truthy (map_get (blockTaskByRef g) r) of
      None \<Rightarrow> cmd_return () | Some t \<Rightarrow> clearReviewCompletionReason t r"
  obtain ws1 where c: "?c ws = (Inr (), ws1)" "indexes_differ T ws ws1"
    using Cons.prems
    by (cases "truthy (map_get (blockTaskByRef g) r)")
      (auto simp: cmd_return_def clearReviewCompletionReason_def updateTaskIndex_def cmd_write_def
        indexes_differ_def jm.get_put)
  from Cons.IH [of ws1] Cons.prems obtain ws' where
    "clear_reasons g refs ws1 = (Inr (), ws')" "indexes_differ T ws1 ws'" by auto
  with c show ?case by (auto simp: cmd_bind_def indexes_differ_def)
qed

lemma reset_tasks:
  assumes "for_res (reset_review g scope) rs ([], [], s) = Inr (refs, ts, s')"
  shows "\<forall>r \<in> set refs. \<forall>t. truthy (map_get (blockTaskByRef g) r) = Some t \<longrightarrow> t \<in> set ts"
proof -
  let ?I = "\<lambda>(refs, ts, s). \<forall>r \<in> set refs. \<forall>t. truthy (map_get (blockTaskByRef g) r) = Some t \<longrightarrow> t \<in> set ts"
  have "?I acc'" if "reset_review g scope r acc = Inr acc'" "?I acc" for r acc acc'
    using that by (auto simp: reset_review_def split: option.splits if_splits elim!: try_bind_InrE)
  then have "?I (refs, ts, s')" by (intro for_res_invariant [OF assms, where I = ?I]) auto
  then show ?thesis by simp
qed


definition interrupted_files :: workspace_files where
  "interrupted_files = empty_files
     \<lparr>wf_state := Some (exhausted_state (exhausted_review\<lparr>bs_status := BInProgress,
        bs_remoteOwnership := Some (Preparing \<lparr>src_operationId = ''op1'', src_sourceRevision = ''r1'',
          src_graphFingerprint = ''g1'', src_controlPlane = None\<rparr>)\<rparr>)),
      wf_taskIndex := [(''T1'', empty_index
        \<lparr>ti_reviewCompletionReasonByBlock := [(''T1#R1'', MaxCyclesReached)]\<rparr>)]\<rparr>"



end
