(* ===== verification/Claim_Scheduler.thy ===== *)
theory Claim_Scheduler
  imports Block_Mutations
begin

text \<open>
  Claiming work: \<^verbatim>\<open>taskManager/claimScheduler.ts\<close> and
  \<^verbatim>\<open>taskManager/claimBlockDispatch.ts\<close>.

  The project guard is an argument: what \<^verbatim>\<open>createProjectGraphClaimGuard\<close> returned, which may be
  an exception (the guards it builds are modelled with the project graph). The random submission
  attempt identities are a function from the claimed reference. The lemmas show what a claim may
  return, that it saves only states that read back, that a dry run writes nothing, that a sequential
  claim starts exactly one block that was ready, and that a parallel claim never drops running work.
\<close>

section \<open>claimNext\<close>

definition js_from_entries :: "('k \<times> 'v) list \<Rightarrow> ('k, 'v) js_map" where
  "js_from_entries kvs = fold (\<lambda>p m. map_set m (fst p) (snd p)) kvs []"

definition effectiveExecutorsForRefs ::
  "string list \<Rightarrow> compiled_graph \<Rightarrow> string option \<Rightarrow> (string \<times> string) list res" where
  "effectiveExecutorsForRefs refs g defaultExecutor =
     try_bind (map_res (\<lambda>ref. try_bind (effectiveBlockExecutor g ref defaultExecutor)
       (\<lambda>e. Inr (ref, e))) refs) (\<lambda>kvs. Inr (js_from_entries kvs))"

text \<open>A current implementation claim without a captured attempt identity.\<close>

definition missing_identity :: "runtime_state \<Rightarrow> claim_order \<Rightarrow> string option" where
  "missing_identity s order =
     (case order of
        OrderCurrentBlock ref c \<Rightarrow>
          if bc_blockType c = Implementation \<and>
             (case map_get (rs_blocks s) ref of None \<Rightarrow> True | Some b \<Rightarrow> truthy (bs_submissionAttemptId b) = None)
          then Some ref else None
      | _ \<Rightarrow> None)"

definition attempt_of :: "runtime_state \<Rightarrow> string \<Rightarrow> string option" where
  "attempt_of s ref = (case map_get (rs_blocks s) ref of None \<Rightarrow> None | Some b \<Rightarrow> bs_submissionAttemptId b)"

definition with_attempt :: "runtime_state \<Rightarrow> block_claim \<Rightarrow> block_claim" where
  "with_attempt s c =
     (if bc_blockType c = Implementation then c\<lparr>bc_submissionAttemptId := attempt_of s (bc_ref c)\<rparr> else c)"

definition claim_feedback_order ::
  "manifest \<Rightarrow> runtime_state \<Rightarrow> bool \<Rightarrow> string \<Rightarrow> feedback_envelope \<Rightarrow> string \<Rightarrow> claim_result \<Rightarrow>
   claim_result cmd" where
  "claim_feedback_order mf s dryRun feedbackId fb taskId result =
     (if dryRun then cmd_return result
      else cmd_bind (patchFeedbackArtifact taskId feedbackId
                       \<lparr>ap_status = FInProgress, ap_latestSubmissionId = None, ap_resolvedAt = None\<rparr>) (\<lambda>_.
           cmd_bind (updateTaskIndex taskId (\<lambda>index. index\<lparr>ti_feedbackStatusById :=
                       map_set (ti_feedbackStatusById index) feedbackId FInProgress\<rparr>)) (\<lambda>_.
           let s1 = s\<lparr>rs_feedback := map_set (rs_feedback s) feedbackId (fb\<lparr>fb_status := FInProgress\<rparr>),
                      rs_currentFeedbackId := Some feedbackId,
                      rs_currentReviewBlockRef := Some (fb_sourceReviewBlockRef fb),
                      rs_currentRefs := without_ref (rs_currentRefs s) (fb_sourceReviewBlockRef fb)\<rparr>
           in cmd_bind (saveState mf s1) (\<lambda>_. cmd_return result))))"

definition claim_review_order ::
  "manifest \<Rightarrow> runtime_state \<Rightarrow> bool \<Rightarrow> string \<Rightarrow> bool \<Rightarrow> block_claim \<Rightarrow> claim_result cmd" where
  "claim_review_order mf s dryRun ref clearCurrentFeedback result =
     (if dryRun then cmd_return (BlockClaim result)
      else cmd_bind (cmd_lift (applyCurrentReviewResumeClaim s ref clearCurrentFeedback)) (\<lambda>s1.
           cmd_bind (saveState mf s1) (\<lambda>_. cmd_return (BlockClaim result))))"

text \<open>The inner function \<^verbatim>\<open>claimCandidate\<close> of \<^verbatim>\<open>claimNextUnlocked\<close>.\<close>

definition claim_one ::
  "(string \<Rightarrow> string) \<Rightarrow> manifest \<Rightarrow> compiled_graph \<Rightarrow> runtime_state \<Rightarrow> bool \<Rightarrow> claim_candidate \<Rightarrow>
   string list \<Rightarrow> block_claim cmd" where
  "claim_one uuid mf g s dryRun candidate retainedRefs =
     (if dryRun then cmd_return (cc_result candidate)
      else cmd_bind (cmd_lift (markClaimed s (cc_ref candidate) g (uuid (cc_ref candidate)))) (\<lambda>s1.
           let s2 = (if retainedRefs = [] then s1
                     else s1\<lparr>rs_currentRefs :=
                            retainedRefs @ filter (\<lambda>r. r \<notin> set retainedRefs) (rs_currentRefs s1)\<rparr>)
           in cmd_bind (saveState mf s2) (\<lambda>s3. cmd_return (with_attempt s3 (cc_result candidate)))))"

definition claim_none :: "manifest \<Rightarrow> runtime_state \<Rightarrow> bool \<Rightarrow> claim_result \<Rightarrow> claim_result cmd" where
  "claim_none mf s dryRun result =
     cmd_bind (if dryRun then cmd_return () else cmd_bind (saveState mf s) (\<lambda>_. cmd_return ()))
       (\<lambda>_. cmd_return result)"

text \<open>The loop of the parallel branch that marks the selected blocks.\<close>

definition block_or_absent :: "runtime_state \<Rightarrow> string \<Rightarrow> block_state" where
  "block_or_absent s ref = (case map_get (rs_blocks s) ref of None \<Rightarrow> fresh_block BPlanned | Some b \<Rightarrow> b)"

definition claim_selected ::
  "(string \<Rightarrow> string) \<Rightarrow> compiled_graph \<Rightarrow> string \<Rightarrow> runtime_state \<Rightarrow> runtime_state res" where
  "claim_selected uuid g ref s =
     try_bind (getBlock g ref) (\<lambda>block.
     let s1 = with_block ref (claimedBlockState (block_or_absent s ref) (mb_type block) (uuid ref)) s
     in Inr (if mb_type block = Review then s1\<lparr>rs_currentReviewBlockRef := Some ref\<rparr> else s1))"

definition batch_result ::
  "manifest \<Rightarrow> compiled_graph \<Rightarrow> string list \<Rightarrow> (string \<times> string) list option \<Rightarrow> bool \<Rightarrow> claim_result res" where
  "batch_result mf g refs attempts atCapacity =
     try_bind (effectiveExecutorsForRefs refs g (mf_defaultExecutor mf))
       (\<lambda>ex. Inr (BatchClaim refs ex attempts atCapacity))"

definition attempt_ids :: "compiled_graph \<Rightarrow> runtime_state \<Rightarrow> string list \<Rightarrow> (string \<times> string) list res" where
  "attempt_ids g s refs =
     try_bind (map_res (\<lambda>ref. try_bind (getBlock g ref) (\<lambda>block.
        Inr (case (mb_type block, truthy (attempt_of s ref)) of
               (Implementation, Some a) \<Rightarrow> [(ref, a)] | _ \<Rightarrow> []))) refs)
       (\<lambda>xss. Inr (js_from_entries (concat xss)))"

definition claim_parallel ::
  "(string \<Rightarrow> string) \<Rightarrow> manifest \<Rightarrow> compiled_graph \<Rightarrow> runtime_state \<Rightarrow> bool \<Rightarrow> claim_readiness \<Rightarrow>
   claim_result cmd" where
  "claim_parallel uuid mf g s dryRun rd =
     (if \<not> mf_parallelEnabled mf then cmd_return (BlockedClaim None ParallelDisabled)
      else cmd_bind (cmd_lift (inProgressBlockRefs g s)) (\<lambda>retained.
      if mf_maxConcurrent mf \<le> length retained then cmd_lift (batch_result mf g retained None True)
      else let selected = cr_parallelBatchRefs rd in
        if selected = []
        then (case cr_sequentialReviewCandidates rd of
                c # _ \<Rightarrow>
                  cmd_bind (claim_one uuid mf g s dryRun c retained) (\<lambda>reviewClaim.
                  cmd_return (BlockClaim
                    (if dryRun \<and> bc_blockType reviewClaim = Review
                     then reviewClaim\<lparr>bc_requestedParallel := True, bc_parallelFallback := True,
                                      bc_nextParallelClaimable := Some []\<rparr>
                     else reviewClaim)))
              | [] \<Rightarrow>
                  if retained \<noteq> [] then cmd_lift (batch_result mf g retained None True)
                  else (case cr_firstProjectBlockedResult rd of
                          Some r \<Rightarrow> cmd_return r
                        | None \<Rightarrow>
                            claim_none mf (s\<lparr>rs_currentRefs := []\<rparr>) dryRun
                              (NoneClaim (Some NoParallelBlocks) (Some (cr_scopedNextSequentialClaimable rd)))))
        else if dryRun then cmd_lift (batch_result mf g selected None False)
        else cmd_bind (cmd_lift (for_res (claim_selected uuid g) selected s)) (\<lambda>s1.
             let s2 = s1\<lparr>rs_currentRefs := retained @ filter (\<lambda>r. r \<notin> set retained) selected\<rparr>
             in cmd_bind (saveState mf s2) (\<lambda>_.
                cmd_bind (cmd_lift (attempt_ids g s2 selected)) (\<lambda>ids.
                cmd_lift (batch_result mf g selected (Some ids) False))))))"

definition claim_sequential ::
  "(string \<Rightarrow> string) \<Rightarrow> manifest \<Rightarrow> compiled_graph \<Rightarrow> runtime_state \<Rightarrow> bool \<Rightarrow> claim_readiness \<Rightarrow>
   claim_result cmd" where
  "claim_sequential uuid mf g s dryRun rd =
     (case cr_sequentialReviewCandidates rd @ cr_sequentialImplementationCandidates rd of
        c # _ \<Rightarrow> cmd_bind (claim_one uuid mf g s dryRun c []) (\<lambda>r. cmd_return (BlockClaim r))
      | [] \<Rightarrow>
          (case cr_firstProjectBlockedResult rd of
             Some r \<Rightarrow> cmd_return r
           | None \<Rightarrow>
               (case cr_firstBlockedResult rd of
                  Some r \<Rightarrow> cmd_return r
                | None \<Rightarrow> claim_none mf s dryRun (NoneClaim (Some NoClaimableBlocks) None))))"

record claim_options =
  co_parallel :: bool
  co_blockType :: "block_type option"
  co_dryRun :: bool
  co_scope :: "claim_scope option"

text \<open>The branches of \<^verbatim>\<open>claimNextUnlocked\<close> on the claim order.\<close>

definition claim_by_order ::
  "(string \<Rightarrow> string) \<Rightarrow> manifest \<Rightarrow> compiled_graph \<Rightarrow> runtime_state \<Rightarrow> claim_options \<Rightarrow> claim_readiness \<Rightarrow>
   claim_result cmd" where
  "claim_by_order uuid mf g s opts rd =
     (case cr_claimOrder rd of
        OrderBlocked result \<Rightarrow> cmd_return result
      | OrderFeedback feedbackId fb taskId result \<Rightarrow>
          claim_feedback_order mf s (co_dryRun opts) feedbackId fb taskId result
      | OrderCurrentReview ref clear result \<Rightarrow> claim_review_order mf s (co_dryRun opts) ref clear result
      | OrderCurrentBlock ref result \<Rightarrow>
          if \<not> co_parallel opts then cmd_return (BlockClaim (with_attempt s result))
          else claim_parallel uuid mf g s (co_dryRun opts) rd
      | OrderReady \<Rightarrow>
          if co_parallel opts then claim_parallel uuid mf g s (co_dryRun opts) rd
          else claim_sequential uuid mf g s (co_dryRun opts) rd)"

definition claimNextUnlocked ::
  "digest \<Rightarrow> (string \<Rightarrow> string) \<Rightarrow> claim_guard res \<Rightarrow> manifest \<Rightarrow> claim_options \<Rightarrow> claim_result cmd" where
  "claimNextUnlocked sha uuid guardRes mf opts =
     cmd_bind (loadRuntimeReadonly mf) (\<lambda>ctx.
     let g = rc_graph ctx; s = rc_state ctx; dryRun = co_dryRun opts;
         scope = normalizeClaimScope (co_scope opts)
     in case validateClaimScope scope g of
          Some invalid \<Rightarrow> cmd_return invalid
        | None \<Rightarrow>
            cmd_bind (cmd_lift guardRes) (\<lambda>guard.
            cmd_bind (cmd_lift (buildClaimReadiness sha g mf s (Some scope) (co_blockType opts) (Some guard)))
              (\<lambda>rd.
            case (if dryRun then None else missing_identity s (cr_claimOrder rd)) of
              Some ref \<Rightarrow> cmd_return (BlockedClaim (Some ref) (MissingClaimIdentity ref))
            | None \<Rightarrow>
                cmd_bind (if \<not> dryRun \<and> rc_rawState ctx \<noteq> s then writeState s else cmd_return ()) (\<lambda>_.
                claim_by_order uuid mf g s opts rd))))"

text \<open>Both branches of \<^verbatim>\<open>claimNext\<close> run the same body; the one that writes runs it under the
  lock.\<close>

definition claimNext ::
  "digest \<Rightarrow> (string \<Rightarrow> string) \<Rightarrow> claim_guard res \<Rightarrow> manifest \<Rightarrow> claim_options \<Rightarrow> claim_result cmd" where
  "claimNext sha uuid guardRes mf opts =
     (if co_dryRun opts then claimNextUnlocked sha uuid guardRes mf opts
      else claimNextUnlocked sha uuid guardRes mf (opts\<lparr>co_dryRun := False\<rparr>))"

section \<open>Dispatch claims and the other entry points\<close>

definition claimDispatchedBlock ::
  "(string \<Rightarrow> string) \<Rightarrow> claim_guard res \<Rightarrow> manifest \<Rightarrow> string \<Rightarrow> claim_result cmd" where
  "claimDispatchedBlock uuid guardRes mf ref =
     cmd_bind (loadRuntime mf) (\<lambda>ctx.
     let g = rc_graph ctx; s = rc_state ctx
     in case validateClaimScope (BlockScope ref) g of
          Some invalid \<Rightarrow> cmd_return invalid
        | None \<Rightarrow>
            (case map_get (blocksByRef g) ref of
               None \<Rightarrow> cmd_return (BlockedClaim (Some ref) DispatchNeedsImplementation)
             | Some block \<Rightarrow>
                 if mb_type block \<noteq> Implementation
                 then cmd_return (BlockedClaim (Some ref) DispatchNeedsImplementation)
                 else cmd_bind (cmd_lift guardRes) (\<lambda>guard.
                   case truthy (projectBlockerReason guard (map_get (blockTaskByRef g) ref)) of
                     Some r \<Rightarrow> cmd_return (BlockedClaim (Some ref) (ProjectBlocked r))
                   | None \<Rightarrow>
                       cmd_bind (cmd_lift (canDispatchImplementationBlock g s ref (mf_maxConcurrent mf) []))
                         (\<lambda>ok.
                       if \<not> ok then cmd_return (BlockedClaim (Some ref) (NotDispatchable ref))
                       else let s1 = with_block ref
                                  (claimedBlockState (block_or_absent s ref) (mb_type block) (uuid ref)) s;
                                s2 = s1\<lparr>rs_currentRefs := with_ref (rs_currentRefs s1) ref\<rparr>
                            in cmd_bind (saveState mf s2) (\<lambda>_.
                               cmd_bind (cmd_lift (claimResultForBlock ref g Dispatched (mf_defaultExecutor mf)))
                                 (\<lambda>r. cmd_return (BlockClaim (r\<lparr>bc_submissionAttemptId := attempt_of s2 ref\<rparr>))))))))"

definition claim_in :: "claim_scope option \<Rightarrow> block_type option \<Rightarrow> claim_options" where
  "claim_in scope bt = \<lparr>co_parallel = False, co_blockType = bt, co_dryRun = False, co_scope = scope\<rparr>"

definition claimBlock ::
  "digest \<Rightarrow> (string \<Rightarrow> string) \<Rightarrow> claim_guard res \<Rightarrow> manifest \<Rightarrow> string \<Rightarrow> bool \<Rightarrow> claim_result cmd" where
  "claimBlock sha uuid guardRes mf ref dispatch =
     (if dispatch then claimDispatchedBlock uuid guardRes mf ref
      else claimNext sha uuid guardRes mf (claim_in (Some (BlockScope ref)) None))"

definition claimTask ::
  "digest \<Rightarrow> (string \<Rightarrow> string) \<Rightarrow> claim_guard res \<Rightarrow> manifest \<Rightarrow> string \<Rightarrow> claim_result cmd" where
  "claimTask sha uuid guardRes mf taskId =
     claimNext sha uuid guardRes mf (claim_in (Some (TaskScope taskId)) None)"

definition claimBlockType ::
  "digest \<Rightarrow> (string \<Rightarrow> string) \<Rightarrow> claim_guard res \<Rightarrow> manifest \<Rightarrow> block_type \<Rightarrow> claim_result cmd" where
  "claimBlockType sha uuid guardRes mf bt = claimNext sha uuid guardRes mf (claim_in None (Some bt))"

section \<open>A dry run writes nothing\<close>

lemma cmd_pure [simp]:
  "snd (cmd_return x ws) = ws" "snd (cmd_lift r ws) = ws" "snd (cmd_read f ws) = ws"
  by (simp_all add: cmd_defs)

lemma bind_pure:
  "snd (c ws) = ws \<Longrightarrow> (\<And>x. snd (k x ws) = ws) \<Longrightarrow> snd (cmd_bind c k ws) = ws"
  by (auto simp: cmd_bind_def split: prod.splits sum.splits)

lemma load_pure: "snd (loadRuntimeReadonly mf ws) = ws"
  unfolding loadRuntimeReadonly_def loadRuntimeContext_def by (intro bind_pure) simp_all

lemma claim_one_dry: "claim_one uuid mf g s True c rs = cmd_return (cc_result c)"
  by (simp add: claim_one_def)

lemma claim_none_dry: "snd (claim_none mf s True r ws) = ws"
  unfolding claim_none_def by (simp add: bind_pure)

lemma claim_parallel_dry: "snd (claim_parallel uuid mf g s True rd ws) = ws"
  unfolding claim_parallel_def
  by (auto intro!: bind_pure simp: claim_one_dry claim_none_dry Let_def split: list.splits option.splits)

lemma claim_sequential_dry: "snd (claim_sequential uuid mf g s True rd ws) = ws"
  unfolding claim_sequential_def
  by (auto intro!: bind_pure simp: claim_one_dry claim_none_dry split: list.splits option.splits)

lemma claimNext_dry:
  assumes "co_dryRun opts"
  shows "snd (claimNext sha uuid gr mf opts ws) = ws"
  using assms unfolding claimNext_def claimNextUnlocked_def claim_by_order_def Let_def
  by (auto intro!: bind_pure simp: load_pure claim_parallel_dry claim_sequential_dry
      claim_feedback_order_def claim_review_order_def split: option.splits claim_order.splits)

section \<open>What a claim saves is accepted\<close>

definition named :: "manifest \<Rightarrow> bool" where
  "named mf \<longleftrightarrow> (\<forall>n \<in> set (mf_nodes mf). mn_id n \<noteq> [])"

lemma context_loaded:
  assumes "named mf" and "context_ok mf ctx"
  shows "loaded (rc_graph ctx) (rc_state ctx)" and "feedback_known (rc_graph ctx) (rc_state ctx)"
  using loaded_reconciled [OF context_okD(1) [OF assms(2)] _ context_okD(7) [OF assms(2)]] assms(1)
  by (simp_all add: named_def)

text \<open>The readiness record a claim works with.\<close>

definition readiness_ok ::
  "digest \<Rightarrow> manifest \<Rightarrow> compiled_graph \<Rightarrow> runtime_state \<Rightarrow> claim_scope \<Rightarrow> block_type option \<Rightarrow> claim_guard \<Rightarrow>
   claim_readiness \<Rightarrow> bool" where
  "readiness_ok sha mf g s scope bt guard rd \<longleftrightarrow>
     buildClaimOrder sha g mf s scope bt guard = Inr (cr_claimOrder rd) \<and>
     batch_ok sha g mf s guard (cr_parallelBatchRefs rd) \<and>
     (\<forall>c \<in> set (cr_sequentialReviewCandidates rd @ cr_sequentialImplementationCandidates rd).
        cc_ref c \<in> set (blockRefsInManifestOrder g) \<and> block_ready sha g s (cc_ref c) \<and>
        unblocked guard g (cc_ref c) \<and> claim_matches g scope bt (cc_ref c) \<and>
        cc_result c = claim_for g (mf_defaultExecutor mf) Claimed (cc_ref c)) \<and>
     (\<forall>c \<in> set (cr_sequentialReviewCandidates rd). mb_type (block_of g (cc_ref c)) = Review)"

lemma readiness_holds:
  assumes "loaded g s" and "feedback_known g s"
  shows "\<exists>rd. buildClaimReadiness sha g mf s (Some scope) bt (Some guard) = Inr rd \<and>
     readiness_ok sha mf g s scope bt guard rd"
proof -
  from buildClaimReadiness_ok [OF assms, of sha mf scope bt guard] obtain rd where
    rd: "buildClaimReadiness sha g mf s (Some scope) bt (Some guard) = Inr rd"
      "buildClaimOrder sha g mf s scope bt guard = Inr (cr_claimOrder rd)"
      "selectedParallelBatchRefs sha g mf s scope bt guard = Inr (cr_parallelBatchRefs rd)"
      "cr_sequentialImplementationCandidates rd =
         map (\<lambda>r. \<lparr>cc_ref = r, cc_result = claim_for g (mf_defaultExecutor mf) Claimed r\<rparr>)
           (filter (\<lambda>r. mb_type (block_of g r) \<noteq> Review) (scoped_refs sha g s scope bt guard))"
      "cr_sequentialReviewCandidates rd =
         map (\<lambda>r. \<lparr>cc_ref = r, cc_result = claim_for g (mf_defaultExecutor mf) Claimed r\<rparr>)
           (filter (\<lambda>r. mb_type (block_of g r) = Review) (scoped_refs sha g s scope bt guard))" by blast
  from parallel_batch [OF assms(1), of sha mf scope bt guard] rd(3)
  have "batch_ok sha g mf s guard (cr_parallelBatchRefs rd)" by auto
  with rd show ?thesis by (auto simp: readiness_ok_def scoped_refs_def)
qed

lemma claimed_valid:
  assumes "blockState_valid b" and "bs_status b = BReady \<or> bs_status b = BInProgress" and "u \<noteq> []"
  shows "blockState_valid (claimedBlockState b bt u)"
  using assms by (auto simp: claimedBlockState_def block_valid_simps split: option.splits remote_receipt.splits)

lemma review_resume_valid:
  assumes "runtimeState_valid s" and "applyCurrentReviewResumeClaim s ref c = Inr s'"
  shows "runtimeState_valid s'"
proof -
  from assms(2) obtain b where b: "map_get (rs_blocks s) ref = Some b"
    "rs_blocks s' = rs_blocks (with_block ref (b\<lparr>bs_pendingFeedbackId := None\<rparr>) s)"
    by (auto simp: applyCurrentReviewResumeClaim_def Let_def split: option.splits if_splits)
  have "runtimeState_valid (with_block ref (b\<lparr>bs_pendingFeedbackId := None\<rparr>) s)"
    using assms(1) runtimeState_valid_get [OF assms(1) b(1)] by (intro with_block_valid) simp_all
  with b(2) show ?thesis by (simp add: runtimeState_valid_def)
qed

lemma markClaimed_valid:
  assumes "runtimeState_valid s" and "block_status_of s ref = Some BReady" and "u \<noteq> []"
    and "markClaimed s ref g u = Inr s'"
  shows "runtimeState_valid s'"
proof -
  from assms(4) obtain b bt where b: "map_get (rs_blocks s) ref = Some b"
    "rs_blocks s' = rs_blocks (with_block ref (claimedBlockState b bt u) s)"
    by (auto simp: markClaimed_def requireBlockState_Inr Let_def elim!: try_bind_InrE split: if_splits)
  from b(1) assms(2) have "bs_status b = BReady" by (simp add: block_status_of_def)
  then have "blockState_valid (claimedBlockState b bt u)"
    using claimed_valid [OF runtimeState_valid_get [OF assms(1) b(1)]] assms(3) by blast
  with with_block_valid [OF assms(1) this, of ref] b(2) show ?thesis by (simp add: runtimeState_valid_def)
qed

lemma keeps_claim_one:
  assumes "runtimeState_valid s" and "block_status_of s (cc_ref c) = Some BReady" and "\<And>r. uuid r \<noteq> []"
  shows "cmd_keeps files_ok (claim_one uuid mf g s dry c rs)"
proof -
  have "runtimeState_valid (if rs = [] then s1 else s1\<lparr>rs_currentRefs := x\<rparr>)"
    if "markClaimed s (cc_ref c) g (uuid (cc_ref c)) = Inr s1" for s1 x
    using markClaimed_valid [OF assms(1,2) assms(3) that] by (simp add: runtimeState_valid_def)
  then show ?thesis
    unfolding claim_one_def Let_def
    by (intro keeps_if keeps_return keeps_lift_bind keeps_bind keeps_saveState) auto
qed

lemma keeps_claim_none:
  "runtimeState_valid s \<Longrightarrow> cmd_keeps files_ok (claim_none mf s dry r)"
  unfolding claim_none_def by (intro keeps_bind keeps_if keeps_return keeps_saveState)

lemma claim_selected_Inr:
  assumes "claim_selected uuid g r s = Inr s'"
  shows "rs_blocks s' = map_set (rs_blocks s) r
     (claimedBlockState (block_or_absent s r) (mb_type (block_of g r)) (uuid r))"
  using assms by (auto simp: claim_selected_def getBlock_def block_of_def Let_def split: option.splits if_splits)

text \<open>The marking loop leaves every selected block claimed and the others untouched.\<close>

lemma claimed_twice: "claimedBlockState (claimedBlockState b bt u) bt u = claimedBlockState b bt u"
  by (simp add: claimedBlockState_def)

lemma claim_selected_loop:
  assumes "for_res (claim_selected uuid g) sel s = Inr s'"
  shows "map_get (rs_blocks s') r =
     (if r \<in> set sel then Some (claimedBlockState (block_or_absent s r) (mb_type (block_of g r)) (uuid r))
      else map_get (rs_blocks s) r)"
  using assms
proof (induction sel arbitrary: s)
  case Nil
  then show ?case by simp
next
  case (Cons x sel)
  from Cons.prems obtain s1 where s1: "claim_selected uuid g x s = Inr s1"
    "for_res (claim_selected uuid g) sel s1 = Inr s'" by (auto elim: try_bind_InrE)
  from Cons.IH [OF s1(2)] claim_selected_Inr [OF s1(1)] show ?case
    by (auto simp: block_or_absent_def jm.get_put claimed_twice)
qed

lemma claim_selected_frame:
  assumes "for_res (claim_selected uuid g) sel s = Inr s'"
  shows "rs_feedback s' = rs_feedback s" and "map_wf (rs_blocks s) \<Longrightarrow> map_wf (rs_blocks s')"
proof -
  let ?I = "\<lambda>t. rs_feedback t = rs_feedback s \<and> (map_wf (rs_blocks s) \<longrightarrow> map_wf (rs_blocks t))"
  have step: "?I t'" if "?I t" and "claim_selected uuid g r t = Inr t'" for r t t'
    using that by (auto simp: claim_selected_def with_block_def Let_def jm.wf_put elim!: try_bind_InrE)
  have "?I s'" by (rule for_res_invariant [OF assms, where I = ?I]) (blast | erule (1) step)+
  then show "rs_feedback s' = rs_feedback s" "map_wf (rs_blocks s) \<Longrightarrow> map_wf (rs_blocks s')" by auto
qed

lemma claim_selected_valid:
  assumes "for_res (claim_selected uuid g) sel s = Inr s'" and "runtimeState_valid s"
    and "\<forall>r \<in> set sel. block_status_of s r = Some BReady" and "\<And>r. uuid r \<noteq> []"
  shows "runtimeState_valid s'"
proof -
  let ?I = "\<lambda>s. runtimeState_valid s \<and>
      (\<forall>r \<in> set sel. block_status_of s r = Some BReady \<or> block_status_of s r = Some BInProgress)"
  have step: "?I t'" if r: "r \<in> set sel" and t: "?I t" and e: "claim_selected uuid g r t = Inr t'" for r t t'
  proof -
    from r t obtain b where b: "map_get (rs_blocks t) r = Some b" "bs_status b = BReady \<or> bs_status b = BInProgress"
      by (auto simp: block_status_of_def)
    let ?b = "claimedBlockState b (mb_type (block_of g r)) (uuid r)"
    have eq: "rs_blocks t' = rs_blocks (with_block r ?b t)"
      using claim_selected_Inr [OF e] b(1) by (simp add: block_or_absent_def)
    have "blockState_valid ?b"
      using claimed_valid [OF runtimeState_valid_get [OF _ b(1)] b(2) assms(4)] t by blast
    with t have "runtimeState_valid (with_block r ?b t)" by blast
    moreover have "bs_status ?b = BInProgress" by (simp add: claimedBlockState_def)
    ultimately show ?thesis using t eq
      by (auto simp: runtimeState_valid_def block_status_of_def jm.get_put)
  qed
  have "?I s" using assms(2,3) by simp
  have "?I s'" by (rule for_res_invariant [OF assms(1), where I = ?I]) (fact | erule (2) step)+
  then show ?thesis by blast
qed

lemma runtimeState_valid_refs [simp]:
  "runtimeState_valid (s\<lparr>rs_currentRefs := rs\<rparr>) = runtimeState_valid s"
  "runtimeState_valid (s\<lparr>rs_feedback := fb\<rparr>) = runtimeState_valid s"
  "runtimeState_valid (s\<lparr>rs_currentFeedbackId := f\<rparr>) = runtimeState_valid s"
  "runtimeState_valid (s\<lparr>rs_currentReviewBlockRef := r\<rparr>) = runtimeState_valid s"
  by (simp_all add: runtimeState_valid_def)

lemma keeps_claim_parallel:
  assumes v: "runtimeState_valid s" and rd: "readiness_ok sha mf g s scope bt guard rd" and u: "\<And>r. uuid r \<noteq> []"
  shows "cmd_keeps files_ok (claim_parallel uuid mf g s dry rd)"
proof -
  have ready: "\<forall>r \<in> set (cr_parallelBatchRefs rd). block_status_of s r = Some BReady"
    using rd by (auto simp: readiness_ok_def batch_ok_def block_ready_def)
  have cand: "block_status_of s (cc_ref c) = Some BReady" if "cr_sequentialReviewCandidates rd = c # cs" for c cs
    using rd that by (auto simp: readiness_ok_def block_ready_def)
  have sel: "runtimeState_valid s1" if "for_res (claim_selected uuid g) (cr_parallelBatchRefs rd) s = Inr s1" for s1
    using claim_selected_valid [OF that v ready u] .
  have fallback: "cmd_keeps files_ok (case cr_sequentialReviewCandidates rd of
        c # _ \<Rightarrow> cmd_bind (claim_one uuid mf g s dry c retained) (\<lambda>r. cmd_return (h r))
      | [] \<Rightarrow> if retained \<noteq> [] then cmd_lift x
              else (case cr_firstProjectBlockedResult rd of
                      Some r \<Rightarrow> cmd_return r | None \<Rightarrow> claim_none mf (s\<lparr>rs_currentRefs := []\<rparr>) dry y))"
    for retained x y and h :: "block_claim \<Rightarrow> claim_result"
    using v by (cases "cr_sequentialReviewCandidates rd"; cases "cr_firstProjectBlockedResult rd")
      (simp_all add: keeps_claim_none keeps_claim_one [OF v cand u] keeps_bind keeps_return keeps_lift)
  show ?thesis
    unfolding claim_parallel_def Let_def
    by (intro keeps_if keeps_return keeps_lift keeps_lift_bind keeps_bind keeps_saveState fallback)
      (simp add: sel)
qed

lemma keeps_claim_sequential:
  assumes v: "runtimeState_valid s" and rd: "readiness_ok sha mf g s scope bt guard rd" and u: "\<And>r. uuid r \<noteq> []"
  shows "cmd_keeps files_ok (claim_sequential uuid mf g s dry rd)"
proof -
  have cand: "block_status_of s (cc_ref c) = Some BReady"
    if "cr_sequentialReviewCandidates rd @ cr_sequentialImplementationCandidates rd = c # cs" for c cs
  proof -
    have "c \<in> set (cr_sequentialReviewCandidates rd @ cr_sequentialImplementationCandidates rd)"
      unfolding that by simp
    with rd show ?thesis by (auto simp: readiness_ok_def block_ready_def)
  qed
  show ?thesis
    unfolding claim_sequential_def
    by (auto intro!: keeps_bind keeps_return keeps_claim_none keeps_claim_one [OF v cand u] v
        split: list.split option.split)
qed

lemma keeps_claim_feedback_order:
  "runtimeState_valid s \<Longrightarrow> cmd_keeps files_ok (claim_feedback_order mf s dry fid fb t r)"
  unfolding claim_feedback_order_def Let_def by (intro keeps_if keeps_rules) simp

lemma keeps_claim_review_order:
  "runtimeState_valid s \<Longrightarrow> cmd_keeps files_ok (claim_review_order mf s dry ref c r)"
  unfolding claim_review_order_def
  by (intro keeps_if keeps_lift_bind keeps_bind keeps_return keeps_saveState) (rule review_resume_valid)

lemma keeps_claim_by_order:
  assumes v: "runtimeState_valid s" and rd: "readiness_ok sha mf g s scope bt guard rd" and u: "\<And>r. uuid r \<noteq> []"
  shows "cmd_keeps files_ok (claim_by_order uuid mf g s opts rd)"
  unfolding claim_by_order_def
  by (auto intro!: keeps_return keeps_claim_parallel [OF v rd u] keeps_claim_sequential [OF v rd u]
      keeps_claim_feedback_order [OF v] keeps_claim_review_order [OF v] split: claim_order.splits)

lemma claimNext_keeps:
  assumes nm: "named mf" and u: "\<And>r. uuid r \<noteq> []"
  shows "cmd_keeps files_ok (claimNext sha uuid gr mf opts)"
proof -
  have "cmd_keeps files_ok (claimNextUnlocked sha uuid gr mf o')" for o'
    unfolding claimNextUnlocked_def Let_def
  proof (rule keeps_after_load(2), goal_cases)
    case (1 ctx)
    note v = context_okD(3) [OF 1]
    have rd: "readiness_ok sha mf (rc_graph ctx) (rc_state ctx) scope bt guard rd"
      if "buildClaimReadiness sha (rc_graph ctx) mf (rc_state ctx) (Some scope) bt (Some guard) = Inr rd"
      for scope bt guard rd
      using readiness_holds [OF context_loaded [OF nm 1], of sha mf scope bt guard] that by auto
    show ?case
      by (auto intro!: keeps_return keeps_bind keeps_writeState keeps_lift_bind
          keeps_claim_by_order [OF v rd u] v split: option.splits)
  qed
  then show ?thesis unfolding claimNext_def by simp
qed

section \<open>What a claim starts\<close>

text \<open>The files hold the state in which exactly the blocks \<open>C\<close> were started, each with its
  attempt identity, and \<open>refs\<close> are the current references.\<close>

definition claimed_record :: "(string \<Rightarrow> string) \<Rightarrow> compiled_graph \<Rightarrow> runtime_state \<Rightarrow> string \<Rightarrow> block_state" where
  "claimed_record uuid g s r = claimedBlockState (bstate s r) (mb_type (block_of g r)) (uuid r)"

definition started ::
  "(string \<Rightarrow> string) \<Rightarrow> manifest \<Rightarrow> compiled_graph \<Rightarrow> runtime_state \<Rightarrow> string set \<Rightarrow> string list \<Rightarrow>
   workspace_files \<Rightarrow> bool" where
  "started uuid mf g s C refs ws' \<longleftrightarrow>
     (\<exists>s'. loaded_state mf ws' = Inr s' \<and> rs_currentRefs s' = refs \<and>
        (\<forall>r \<in> C. map_get (rs_blocks s') r = Some (claimed_record uuid g s r)) \<and>
        (\<forall>r. r \<notin> C \<longrightarrow> same_record s s' r))"

text \<open>Saving a state that differs from the loaded one in the records of \<open>C\<close>.\<close>

lemma save_started:
  assumes ctx: "context_ok mf ctx" and wf: "map_wf (rs_blocks s)" and v: "runtimeState_valid s"
    and get: "\<And>r. map_get (rs_blocks s) r =
      (if r \<in> C then Some (claimed_record uuid (rc_graph ctx) (rc_state ctx) r)
       else map_get (rs_blocks (rc_state ctx)) r)"
    and C: "C \<subseteq> set (blockRefsInManifestOrder (rc_graph ctx))"
      "\<forall>r \<in> C. block_status_of (rc_state ctx) r = Some BReady"
    and refs: "set (rs_currentRefs s) \<subseteq> set (blockRefsInManifestOrder (rc_graph ctx))"
    and fb: "rs_feedback s = rs_feedback (rc_state ctx)"
    and e: "ensureStateForManifest mf s = Inr s'"
  shows "started uuid mf (rc_graph ctx) (rc_state ctx) C (rs_currentRefs s) (ws\<lparr>wf_state := Some s'\<rparr>)"
proof -
  note c = context_okD [OF ctx]
  let ?g = "rc_graph ctx" and ?s = "rc_state ctx"
  have rdy: "bs_remoteOperationReceipt (claimed_record uuid ?g ?s r) = None \<and>
      bs_status (claimed_record uuid ?g ?s r) = BInProgress" if "r \<in> C" for r
  proof -
    have b: "map_get (rs_blocks ?s) r = Some (bstate ?s r)" using covers_block [OF c(5)] C(1) that by blast
    moreover have "bs_status (bstate ?s r) = BReady" using C(2) that b by (auto simp: block_status_of_def)
    ultimately have "bs_remoteOperationReceipt (bstate ?s r) = None"
      using waiting_block_no_remote [OF runtimeState_valid_get [OF c(3) b]] by simp
    then show ?thesis by (simp add: claimed_record_def claimedBlockState_def)
  qed
  have known: "map_get (rs_blocks s) r = Some b \<Longrightarrow>
      r \<in> set (blockRefsInManifestOrder ?g) \<and> map_get (blocksByRef ?g) r = Some (block_of ?g r) \<and>
      (\<forall>rc. bs_remoteOperationReceipt b = Some rc \<longrightarrow>
         remoteOperationReceiptMatchesBlockType rc (mb_type (block_of ?g r)))" for r b
    using C(1) rdy context_block_known [OF ctx, of r] block_of_get(1) [OF c(2), of r]
    by (cases "r \<in> C") (auto simp: get)
  have rm: "receipts_match ?g s"
    using known map_wf_get [OF wf] by (fastforce simp: receipts_match_def entry_drifts_def)
  have fbk: "\<forall>p \<in> set (rs_feedback s). fb_sourceReviewBlockRef (snd p) \<in> set (blockRefsInManifestOrder ?g)"
    using c(4) fb by (simp add: reconciled_def)
  have "map_get (rs_blocks s') r = Some (claimed_record uuid ?g ?s r)" if "r \<in> C" for r
  proof -
    have g: "map_get (rs_blocks s) r = Some (claimed_record uuid ?g ?s r)" using get that by simp
    show ?thesis
      by (rule ensure_keeps_started [OF e c(1) wf g]) (use known [OF g] rdy [OF that] in auto)
  qed
  moreover have "same_record ?s s' r" if "r \<notin> C" for r
  proof (cases "map_get (rs_blocks ?s) r")
    case (Some b)
    with get that have g: "map_get (rs_blocks s) r = Some b" by simp
    have "\<exists>b'. map_get (rs_blocks s') r = Some b' \<and> norm_block b' = norm_block b"
      by (rule ensure_block [OF e c(1) wf g]) (use known [OF g] in auto)
    with Some show ?thesis by (auto simp: same_record_def)
  next
    case None
    then show ?thesis
      using reconciled_has [OF c(4), of r] reconciled_has [OF ensure_reconciled [OF e c(1)], of r]
      by (simp add: same_record_def map_has_get)
  qed
  ultimately show ?thesis
    using loaded_state_saved [OF e v] ensure_pointers(1) [OF e c(1) rm refs fbk]
    by (auto simp: started_def)
qed

lemma claim_one_started:
  assumes ctx: "context_ok mf ctx" and u: "\<And>r. uuid r \<noteq> []"
    and r: "cc_ref c \<in> set (blockRefsInManifestOrder (rc_graph ctx))"
      "block_status_of (rc_state ctx) (cc_ref c) = Some BReady"
    and kept: "set kept \<subseteq> set (blockRefsInManifestOrder (rc_graph ctx))"
    and run: "claim_one uuid mf (rc_graph ctx) (rc_state ctx) False c kept ws = (Inr res, ws')"
  shows "started uuid mf (rc_graph ctx) (rc_state ctx) {cc_ref c}
      (kept @ filter (\<lambda>x. x \<notin> set kept) [cc_ref c]) ws'"
    and "\<exists>a. res = (cc_result c)\<lparr>bc_submissionAttemptId := a\<rparr>"
proof -
  note c = context_okD [OF ctx]
  let ?g = "rc_graph ctx" and ?s = "rc_state ctx"
  from run obtain s1 s3 where m: "markClaimed ?s (cc_ref c) ?g (uuid (cc_ref c)) = Inr s1"
    and e: "ensureStateForManifest mf (if kept = [] then s1 else s1\<lparr>rs_currentRefs :=
        kept @ filter (\<lambda>r. r \<notin> set kept) (rs_currentRefs s1)\<rparr>) = Inr s3"
    and ws': "ws' = ws\<lparr>wf_state := Some s3\<rparr>" and res: "res = with_attempt s3 (cc_result c)"
    by (auto simp: claim_one_def Let_def cmd_bind_Inr saveState_Inr)
  let ?s2 = "if kept = [] then s1 else s1\<lparr>rs_currentRefs := kept @ filter (\<lambda>r. r \<notin> set kept) (rs_currentRefs s1)\<rparr>"
  have s1: "rs_blocks s1 = map_set (rs_blocks ?s) (cc_ref c) (claimed_record uuid ?g ?s (cc_ref c))"
    "rs_currentRefs s1 = [cc_ref c]" "rs_feedback s1 = rs_feedback ?s"
    using m unfolding markClaimed_eq [OF c(2,5) r(1)]
    by (auto simp: claimed_record_def with_block_def Let_def split: if_splits)
  have v: "runtimeState_valid ?s2" using markClaimed_valid [OF c(3) r(2) u m] by simp
  have refs: "rs_currentRefs ?s2 = kept @ filter (\<lambda>x. x \<notin> set kept) [cc_ref c]" using s1(2) by simp
  have "map_wf (rs_blocks ?s2)" using c(4) s1(1) by (simp add: reconciled_def jm.wf_put)
  then have "started uuid mf ?g ?s {cc_ref c} (rs_currentRefs ?s2) (ws\<lparr>wf_state := Some s3\<rparr>)"
    by (rule save_started [OF ctx _ v _ _ _ _ _ e]) (use s1 r kept refs in \<open>auto simp: jm.get_put\<close>)
  then show "started uuid mf ?g ?s {cc_ref c} (kept @ filter (\<lambda>x. x \<notin> set kept) [cc_ref c]) ws'"
    unfolding refs ws' .
  have "cc_result c = (cc_result c)\<lparr>bc_submissionAttemptId := bc_submissionAttemptId (cc_result c)\<rparr>" by simp
  then show "\<exists>a. res = (cc_result c)\<lparr>bc_submissionAttemptId := a\<rparr>"
    unfolding res with_attempt_def by metis
qed

text \<open>An order that resumes or refuses never yields a new claim.\<close>

fun not_new :: "claim_result \<Rightarrow> bool" where
  "not_new (BlockClaim c) \<longleftrightarrow> bc_reason c \<noteq> Some Claimed"
| "not_new (BatchClaim refs ex attempts atCapacity) \<longleftrightarrow> attempts = None"
| "not_new _ \<longleftrightarrow> True"

fun order_not_new :: "claim_order \<Rightarrow> bool" where
  "order_not_new (OrderBlocked r) \<longleftrightarrow> not_new r"
| "order_not_new (OrderFeedback _ _ _ r) \<longleftrightarrow> not_new r"
| "order_not_new (OrderCurrentReview _ _ c) \<longleftrightarrow> bc_reason c \<noteq> Some Claimed"
| "order_not_new (OrderCurrentBlock _ c) \<longleftrightarrow> bc_reason c \<noteq> Some Claimed"
| "order_not_new OrderReady \<longleftrightarrow> True"

lemma candidate_reason: "claimCandidate r g m d = Inr c \<Longrightarrow> bc_reason (cc_result c) = Some m"
  by (auto simp: claimCandidate_def claimResultForBlock_def elim!: try_bind_InrE)

lemma order_current_not_new: "order_current g mf s scope bt = Inr co \<Longrightarrow> order_not_new co"
  by (auto simp: order_current_def elim!: try_bind_InrE dest!: candidate_reason split: option.splits if_splits)

lemma order_review_not_new: "order_review sha g mf s scope bt ref = Inr co \<Longrightarrow> order_not_new co"
  by (auto simp: order_review_def Let_def elim!: try_bind_InrE dest!: candidate_reason
      dest: order_current_not_new split: if_splits)

lemma order_feedback_not_new: "order_feedback g mf scope guard f fb = Inr co \<Longrightarrow> order_not_new co"
  by (auto simp: order_feedback_def elim!: try_bind_InrE split: if_splits option.splits)

lemma buildClaimOrder_not_new: "buildClaimOrder sha g mf s scope bt guard = Inr co \<Longrightarrow> order_not_new co"
  by (auto simp: buildClaimOrder_def elim!: try_bind_InrE
      dest: order_feedback_not_new order_review_not_new order_current_not_new
      split: list.splits prod.splits option.splits)

lemma refusals_not_new:
  assumes "buildClaimReadiness sha g mf s scope bt guard = Inr rd"
  shows "cr_firstProjectBlockedResult rd = Some x \<Longrightarrow> not_new x"
    and "cr_firstBlockedResult rd = Some x \<Longrightarrow> not_new x"
proof -
  from assms obtain guard' scope' where
    "firstProjectBlockedResult sha g s scope' bt guard' = Inr (cr_firstProjectBlockedResult rd)"
    "firstBlockedResult g s scope' = Inr (cr_firstBlockedResult rd)"
    by (auto simp: buildClaimReadiness_def Let_def elim!: try_bind_InrE)
  then show "cr_firstProjectBlockedResult rd = Some x \<Longrightarrow> not_new x"
    "cr_firstBlockedResult rd = Some x \<Longrightarrow> not_new x"
    by (auto simp: firstProjectBlockedResult_def firstBlockedResult_def elim!: try_bind_InrE
        split: option.splits)
qed

lemma validate_not_new: "validateClaimScope scope g = Some x \<Longrightarrow> not_new x"
  by (cases scope) (auto split: if_splits)

text \<open>What a committed claim works with.\<close>

lemma claimNext_InrE:
  assumes "claimNext sha uuid (Inr guard) mf opts ws = (Inr res, ws')" and "\<not> co_dryRun opts"
    and "named mf" and "loaded_state mf ws = Inr s" and "compileTaskGraph mf = Inr g" and "\<not> not_new res"
  obtains ctx rd ws1 where "context_ok mf ctx" and "rc_graph ctx = g" and "rc_state ctx = s"
    and "readiness_ok sha mf g s (normalizeClaimScope (co_scope opts)) (co_blockType opts) guard rd"
    and "buildClaimReadiness sha g mf s (Some (normalizeClaimScope (co_scope opts))) (co_blockType opts)
           (Some guard) = Inr rd"
    and "(if co_parallel opts then claim_parallel uuid mf g s False rd
          else claim_sequential uuid mf g s False rd) ws1 = (Inr res, ws')"
proof -
  let ?scope = "normalizeClaimScope (co_scope opts)"
  have o': "opts\<lparr>co_dryRun := False\<rparr> = opts" using assms(2) by (cases opts) simp
  obtain ctx rd ws1 where c: "context_ok mf ctx" "readState (wf_state ws) = Inr (rc_rawState ctx)"
    and rd: "buildClaimReadiness sha (rc_graph ctx) mf (rc_state ctx) (Some ?scope) (co_blockType opts)
      (Some guard) = Inr rd"
    and go: "claim_by_order uuid mf (rc_graph ctx) (rc_state ctx) opts rd ws1 = (Inr res, ws')"
    using assms(1,2,6) unfolding claimNext_def o' claimNextUnlocked_def Let_def
    by (auto simp: cmd_bind_Inr loadRuntimeReadonly_Inr dest: validate_not_new
        split: option.splits if_splits)
  from c(1) assms(5) have g: "rc_graph ctx = g" by (simp add: context_ok_def)
  from loaded_state_context [OF c] assms(4) have s: "rc_state ctx = s" by simp
  from readiness_holds [OF context_loaded [OF assms(3) c(1)], of sha mf ?scope "co_blockType opts" guard] rd g s
  have rok: "readiness_ok sha mf g s ?scope (co_blockType opts) guard rd" by auto
  then have nn: "order_not_new (cr_claimOrder rd)"
    using buildClaimOrder_not_new by (auto simp: readiness_ok_def)
  have "(if co_parallel opts then claim_parallel uuid mf g s False rd
         else claim_sequential uuid mf g s False rd) ws1 = (Inr res, ws')"
    using go nn assms(2,6) unfolding g s claim_by_order_def
    by (cases "cr_claimOrder rd")
      (auto simp: claim_feedback_order_def claim_review_order_def Let_def cmd_bind_Inr with_attempt_def
        split: if_splits)
  with c(1) g s rok rd [unfolded g s] show thesis by (rule that)
qed

lemma dispatch_record_valid:
  assumes "context_ok mf ctx" and "named mf" and "\<forall>r. uuid r \<noteq> []"
    and "map_get (blocksByRef (rc_graph ctx)) ref = Some block"
    and "canDispatchImplementationBlock (rc_graph ctx) (rc_state ctx) ref n [] = Inr True"
  shows "blockState_valid (claimedBlockState (block_or_absent (rc_state ctx) ref) bt (uuid ref))"
proof -
  note c = context_okD [OF assms(1)]
  have refs: "ref \<in> set (blockRefsInManifestOrder (rc_graph ctx))"
    using graph_wf_doms(2) [OF graph_ok_wf [OF c(2)], of ref] assms(4) by (auto simp: map_has_get)
  have "dispatchable (rc_graph ctx) (rc_state ctx) n [] ref"
    using assms(5) canDispatch_eq [OF loadedD(1,3) [OF context_loaded(1) [OF assms(2,1)]] refs, of "[]"] by simp
  then have "block_status_of (rc_state ctx) ref = Some BReady" by (simp add: dispatchable_def)
  then show ?thesis
    using claimed_valid [OF runtimeState_valid_get [OF c(3) covers_block [OF c(5) refs]]]
      covers_block [OF c(5) refs] assms(3) by (auto simp: block_or_absent_def block_status_of_def)
qed

lemma claimDispatched_keeps:
  assumes nm: "named mf" and u: "\<forall>r. uuid r \<noteq> []"
  shows "cmd_keeps files_ok (claimDispatchedBlock uuid gr mf ref)"
  unfolding claimDispatchedBlock_def Let_def
proof (rule keeps_after_load(1), goal_cases)
  case (1 ctx)
  have "runtimeState_valid ((with_block ref (claimedBlockState (block_or_absent (rc_state ctx) ref) (mb_type block) (uuid ref))
      (rc_state ctx))\<lparr>rs_currentRefs := refs\<rparr>)"
    if "map_get (blocksByRef (rc_graph ctx)) ref = Some block"
      "canDispatchImplementationBlock (rc_graph ctx) (rc_state ctx) ref (mf_maxConcurrent mf) [] = Inr True" for block refs
    using with_block_valid [OF context_okD(3) [OF 1] dispatch_record_valid [OF 1 nm u that]]
    by (simp add: runtimeState_valid_def)
  then show ?case
    by (auto intro!: keeps_return keeps_lift_bind keeps_bind keeps_saveState keeps_lift split: option.split)
qed

section \<open>Properties\<close>

lemma sequential_started:
  assumes "claimNext sha uuid (Inr guard) mf opts ws = (Inr (BlockClaim c), ws')" and "\<not> co_dryRun opts"
    and "\<not> co_parallel opts" and "bc_reason c = Some Claimed" and "named mf" and "\<forall>r. uuid r \<noteq> []"
    and "loaded_state mf ws = Inr s" and "compileTaskGraph mf = Inr g"
  shows "block_ready sha g s (bc_ref c) \<and> unblocked guard g (bc_ref c) \<and>
     claim_matches g (normalizeClaimScope (co_scope opts)) (co_blockType opts) (bc_ref c) \<and>
     started uuid mf g s {bc_ref c} [bc_ref c] ws'"
proof -
  have "\<not> not_new (BlockClaim c)" using assms(4) by simp
  with assms obtain ctx rd ws1 where ctx: "context_ok mf ctx" and gs: "rc_graph ctx = g" "rc_state ctx = s"
    and rok: "readiness_ok sha mf g s (normalizeClaimScope (co_scope opts)) (co_blockType opts) guard rd"
    and rd: "buildClaimReadiness sha g mf s (Some (normalizeClaimScope (co_scope opts))) (co_blockType opts)
      (Some guard) = Inr rd"
    and go: "claim_sequential uuid mf g s False rd ws1 = (Inr (BlockClaim c), ws')"
    by (elim claimNext_InrE) auto
  from go refusals_not_new [OF rd] assms(4) obtain x xs where
    xs: "cr_sequentialReviewCandidates rd @ cr_sequentialImplementationCandidates rd = x # xs"
    and one: "claim_one uuid mf g s False x [] ws1 = (Inr c, ws')"
    by (auto simp: claim_sequential_def claim_none_def cmd_bind_Inr split: list.splits option.splits)
  have "x \<in> set (cr_sequentialReviewCandidates rd @ cr_sequentialImplementationCandidates rd)"
    unfolding xs by simp
  with rok have x: "cc_ref x \<in> set (blockRefsInManifestOrder g)" "block_ready sha g s (cc_ref x)"
    "unblocked guard g (cc_ref x)"
    "claim_matches g (normalizeClaimScope (co_scope opts)) (co_blockType opts) (cc_ref x)"
    "cc_result x = claim_for g (mf_defaultExecutor mf) Claimed (cc_ref x)"
    unfolding readiness_ok_def by blast+
  have st: "block_status_of s (cc_ref x) = Some BReady" using x(2) by (simp add: block_ready_def)
  note p = claim_one_started [OF ctx, unfolded gs, OF _ x(1) st _ one]
  from p(2) assms(6) x(5) have "bc_ref c = cc_ref x" by (auto simp: claim_for_def)
  with p(1) assms(6) x(2-4) show ?thesis by simp
qed


lemma parallel_started:
  assumes "claimNext sha uuid (Inr guard) mf opts ws = (Inr (BatchClaim refs ex (Some ids) cap), ws')"
    and "\<not> co_dryRun opts" and "named mf" and "\<forall>r. uuid r \<noteq> []"
    and "loaded_state mf ws = Inr s" and "compileTaskGraph mf = Inr g"
  shows "refs \<noteq> [] \<and> batch_ok sha g mf s guard refs \<and>
     length (running_refs s @ refs) \<le> mf_maxConcurrent mf \<and>
     started uuid mf g s (set refs) (running_refs s @ refs) ws'"
proof -
  have "\<not> not_new (BatchClaim refs ex (Some ids) cap)" by simp
  with assms obtain ctx rd ws1 where ctx: "context_ok mf ctx" and gs: "rc_graph ctx = g" "rc_state ctx = s"
    and rok: "readiness_ok sha mf g s (normalizeClaimScope (co_scope opts)) (co_blockType opts) guard rd"
    and rd: "buildClaimReadiness sha g mf s (Some (normalizeClaimScope (co_scope opts))) (co_blockType opts)
      (Some guard) = Inr rd"
    and go: "(if co_parallel opts then claim_parallel uuid mf g s False rd
          else claim_sequential uuid mf g s False rd) ws1 = (Inr (BatchClaim refs ex (Some ids) cap), ws')"
    by (elim claimNext_InrE)
  note c = context_okD [OF ctx, unfolded gs]
  note nn = refusals_not_new [OF rd]
  have "claim_sequential uuid mf g s False rd ws1 \<noteq> (Inr (BatchClaim refs ex (Some ids) cap), ws')"
    using nn by (auto simp: claim_sequential_def claim_none_def cmd_bind_Inr split: list.splits option.splits)
  with go have "claim_parallel uuid mf g s False rd ws1 = (Inr (BatchClaim refs ex (Some ids) cap), ws')"
    by (auto split: if_splits)
  then obtain s1 s2 where refs: "refs = cr_parallelBatchRefs rd" "refs \<noteq> []"
    and loop: "for_res (claim_selected uuid g) refs s = Inr s1"
    and e: "ensureStateForManifest mf (s1\<lparr>rs_currentRefs := running_refs s @
        filter (\<lambda>r. r \<notin> set (running_refs s)) refs\<rparr>) = Inr s2"
    and ws': "ws' = ws1\<lparr>wf_state := Some s2\<rparr>"
    using nn(1) inProgressBlockRefs_eq [OF c(2,5)]
    by (auto simp: claim_parallel_def batch_result_def claim_none_def Let_def cmd_bind_Inr saveState_Inr
        elim!: try_bind_InrE split: list.splits option.splits if_splits)
  have b: "batch_ok sha g mf s guard refs" using rok refs by (simp add: readiness_ok_def)
  then have rdy: "\<forall>r \<in> set refs. block_status_of s r = Some BReady"
    by (simp add: batch_ok_def block_ready_def)
  have sub: "set refs \<subseteq> set (blockRefsInManifestOrder g)" using b by (simp add: batch_ok_def)
  have cur: "running_refs s @ filter (\<lambda>r. r \<notin> set (running_refs s)) refs = running_refs s @ refs"
    using rdy by (auto simp: running_refs_def filter_id_conv)
  have v: "runtimeState_valid (s1\<lparr>rs_currentRefs := running_refs s @ refs\<rparr>)"
    using claim_selected_valid [OF loop c(3) rdy] assms(4) by simp
  have "map_wf (rs_blocks (s1\<lparr>rs_currentRefs := running_refs s @ refs\<rparr>))"
    using claim_selected_frame(2) [OF loop] c(4) by (simp add: reconciled_def)
  note save = save_started [OF ctx this v, unfolded gs, where C = "set refs" and uuid = uuid, OF _ sub rdy _ _
      e [unfolded cur], of ws1]
  have get: "map_get (rs_blocks (s1\<lparr>rs_currentRefs := running_refs s @ refs\<rparr>)) r =
      (if r \<in> set refs then Some (claimed_record uuid g s r) else map_get (rs_blocks s) r)" for r
    using claim_selected_loop [OF loop, of r] covers_block [OF c(5), of r] sub
    by (auto simp: claimed_record_def block_or_absent_def)
  have "started uuid mf g s (set refs) (running_refs s @ refs) ws'"
    using save [OF get] claim_selected_frame(1) [OF loop] sub c(5) ws'
    by (auto simp: running_refs_def covers_def)
  with b refs show ?thesis by (auto simp: batch_ok_def)
qed


text \<open>A dispatch claim starts the requested implementation beside the current work. When
  \<^verbatim>\<open>claimDispatchedBlock\<close> commits, the block is the requested one, it may run beside the
  current blocks (ready, dependencies satisfied, free capacity, no conflict) and is not held back by the
  project graph; afterwards it has its claimed record, the current references are the old ones plus it,
  and every other block keeps its record.\<close>

theorem dispatch_claim_starts:
  assumes "claimDispatchedBlock uuid (Inr guard) mf ref ws = (Inr (BlockClaim c), ws')"
    and "named mf" and "\<forall>r. uuid r \<noteq> []" and "loaded_state mf ws = Inr s" and "compileTaskGraph mf = Inr g"
  shows "bc_ref c = ref \<and> dispatchable g s (mf_maxConcurrent mf) [] ref \<and> unblocked guard g ref \<and>
     started uuid mf g s {ref} (with_ref (rs_currentRefs s) ref) ws'"
proof -
  from assms(1) obtain ctx ws1 where ld: "loadRuntime mf ws = (Inr ctx, ws1)"
    by (auto simp: claimDispatchedBlock_def cmd_bind_Inr)
  note ctx = loadRuntime_Inr [OF ld]
  have g: "rc_graph ctx = g" using context_okD(1) [OF ctx(1)] assms(5) by simp
  have s: "rc_state ctx = s" using loaded_state_context [OF ctx(1,2)] assms(4) by simp
  note c = context_okD [OF ctx(1), unfolded g s]
  let ?rec = "claimedBlockState (block_or_absent s ref) Implementation (uuid ref)"
  let ?s2 = "(with_block ref ?rec s)\<lparr>rs_currentRefs := with_ref (rs_currentRefs s) ref\<rparr>"
  from assms(1) obtain block s3 r where b: "map_get (blocksByRef g) ref = Some block" "mb_type block = Implementation"
    and guard: "truthy (projectBlockerReason guard (map_get (blockTaskByRef g) ref)) = None"
    and ok: "canDispatchImplementationBlock g s ref (mf_maxConcurrent mf) [] = Inr True"
    and e: "ensureStateForManifest mf ?s2 = Inr s3" and ws': "ws' = ws1\<lparr>wf_state := Some s3\<rparr>"
    and r: "claimResultForBlock ref g Dispatched (mf_defaultExecutor mf) = Inr r" "bc_ref c = bc_ref r"
    using ld unfolding claimDispatchedBlock_def
    by (auto simp: cmd_bind_Inr Let_def g s saveState_Inr with_block_def dest: validate_not_new split: option.splits if_splits)
  have refs: "ref \<in> set (blockRefsInManifestOrder g)"
    using graph_wf_doms(2) [OF graph_ok_wf [OF c(2)], of ref] b(1) by (auto simp: map_has_get)
  note of = block_of_get [OF c(2) refs]
  have l: "loaded g s" using context_loaded(1) [OF assms(2) ctx(1)] by (simp add: g s)
  have d: "dispatchable g s (mf_maxConcurrent mf) [] ref"
    using ok canDispatch_eq [OF loadedD(1,3) [OF l] refs, of "[]"] by simp
  then have rdy: "block_status_of s ref = Some BReady" and impl: "mb_type (block_of g ref) = Implementation"
    by (simp_all add: dispatchable_def)
  have rec: "?rec = claimed_record uuid g s ref"
    using covers_block [OF c(5) refs] impl by (simp add: claimed_record_def block_or_absent_def)
  have "blockState_valid ?rec"
    using dispatch_record_valid [OF ctx(1) assms(2,3), unfolded g s, OF b(1) ok] .
  then have v: "runtimeState_valid ?s2" using c(3) by (simp add: with_block_valid)
  have wf: "map_wf (rs_blocks ?s2)" using c(4) by (simp add: with_block_def reconciled_def jm.wf_put)
  have "started uuid mf g s {ref} (rs_currentRefs ?s2) (ws1\<lparr>wf_state := Some s3\<rparr>)"
    by (rule save_started [OF ctx(1) wf v, unfolded g s, OF _ _ _ _ _ e])
      (use rec refs rdy c(5) in \<open>auto simp: jm.get_put covers_def with_block_def\<close>)
  moreover have "unblocked guard g ref" using guard of(2) by (simp add: unblocked_def)
  moreover have "bc_ref c = ref" using r claimResultForBlock_eq [OF c(2) refs] by (auto simp: claim_for_def)
  ultimately show ?thesis using d ws' by simp
qed

section \<open>Witnesses and a lost reference\<close>

definition sample_uuid :: "string \<Rightarrow> string" where
  "sample_uuid r = ''attempt-'' @ r"

definition parallel_claim :: claim_options where
  "parallel_claim = (claim_in None None)\<lparr>co_parallel := True\<rparr>"

lemma two_tasks_loaded:
  obtains s g where "loaded_state two_task_manifest empty_files = Inr s"
    and "compileTaskGraph two_task_manifest = Inr g" and "named two_task_manifest"
proof -
  have "res_holds (\<lambda>_. True) (loaded_state two_task_manifest empty_files)"
    "res_holds (\<lambda>_. True) (compileTaskGraph two_task_manifest)" by code_simp+
  then obtain s g where "loaded_state two_task_manifest empty_files = Inr s"
    "compileTaskGraph two_task_manifest = Inr g" by (auto elim!: res_holdsE)
  moreover have "named two_task_manifest" by (simp add: named_def two_task_manifest_def sample_manifest_def)
  ultimately show thesis by (rule that)
qed



lemma dispatch_claim_starts_witness:
  "\<exists>c ws' s g. claimDispatchedBlock sample_uuid (Inr noProjectGraphBlockers) two_task_manifest ''T1#B1''
       empty_files = (Inr (BlockClaim c), ws') \<and>
     started sample_uuid two_task_manifest g s {''T1#B1''} (with_ref (rs_currentRefs s) ''T1#B1'') ws'"
proof (rule two_tasks_loaded)
  fix s g
  assume s: "loaded_state two_task_manifest empty_files = Inr s"
    and g: "compileTaskGraph two_task_manifest = Inr g" and n: "named two_task_manifest"
  have "cmd_holds (\<lambda>r ws'. case r of BlockClaim c \<Rightarrow> True | _ \<Rightarrow> False)
      (claimDispatchedBlock sample_uuid (Inr noProjectGraphBlockers) two_task_manifest ''T1#B1'' empty_files)"
    by code_simp
  then obtain c ws' where r: "claimDispatchedBlock sample_uuid (Inr noProjectGraphBlockers) two_task_manifest
      ''T1#B1'' empty_files = (Inr (BlockClaim c), ws')"
    by (elim cmd_holdsE) (auto split: claim_result.splits)
  have "\<forall>r. sample_uuid r \<noteq> []" by (simp add: sample_uuid_def)
  from dispatch_claim_starts [OF r n this s g] r show ?thesis by blast
qed

definition three_task_manifest :: manifest where
  "three_task_manifest = two_task_manifest\<lparr>mf_nodes :=
     \<lparr>mn_id = ''T3'', mn_type = TaskNode, mn_title = ''third'', mn_prompt = ''p'', mn_executor = None,
      mn_acceptance = [], mn_blocks = [ManifestImplementationBlock ''B1'' ''b'' ''p'' [] None None None]\<rparr>
     # mf_nodes two_task_manifest\<rparr>"

definition remote_running :: workspace_files where
  "remote_running = empty_files\<lparr>wf_state := Some (createEmptyState
     \<lparr>rs_currentRefs := [''T1#B1''],
      rs_blocks := [(''T1#B1'', (fresh_block BInProgress)
        \<lparr>bs_remoteOwnership := Some (Active sample_identity)\<rparr>)]\<rparr>)\<rparr>"


end
