(* ===== verification/Submission.thy ===== *)
theory Submission
  imports Claim_Scheduler "HOL-Library.List_Lexorder" "HOL-Library.Char_ord"
begin

text \<open>
  Submitting feedback and review results: \<^verbatim>\<open>taskManager/feedbackSubmission.ts\<close> and
  \<^verbatim>\<open>taskManager/reviewSubmission.ts\<close>.

  The SHA-256 digests of a report and of a review result, the clock, the process that runs a review
  hook (with its trust check and output parser) and the conversation a remote completion stores are
  arguments. A review result arrives parsed. The artifacts of a submission are written before the
  state file, so a submission that is repeated after a crash has to find them again; the lemmas show
  that it does, what every verdict does to the review block, that the number of feedback envelopes of
  a review stays bounded by its policy, and that the state file stays readable.
\<close>

section \<open>Submitting feedback\<close>

definition submissionMetadata_valid :: "submission_metadata \<Rightarrow> bool" where
  "submissionMetadata_valid m \<longleftrightarrow>
     sm_feedbackId m \<noteq> Some [] \<and> sm_submissionId m \<noteq> Some [] \<and> sm_sourceReviewBlockRef m \<noteq> Some [] \<and>
     sm_reportHash m \<noteq> Some [] \<and> sm_submittedAt m \<noteq> Some []"

text \<open>A missing file is no match; a file the schema rejects is an error.\<close>

definition feedbackSubmissionMatches ::
  "(string \<Rightarrow> string) \<Rightarrow> submission_dir \<Rightarrow> string \<Rightarrow> string \<Rightarrow> string \<Rightarrow> string \<Rightarrow> bool res" where
  "feedbackSubmissionMatches fileHash d feedbackId submissionId sourceReviewBlockRef reportHash =
     (case sd_metadata d of
        None \<Rightarrow> Inr False
      | Some m \<Rightarrow>
          if \<not> submissionMetadata_valid m then Inl (SchemaInvalid ''feedback submission metadata'')
          else if sm_feedbackId m \<noteq> Some feedbackId \<or> sm_submissionId m \<noteq> Some submissionId \<or>
                  sm_sourceReviewBlockRef m \<noteq> Some sourceReviewBlockRef
          then Inr False
          else (case sd_report d of
                  None \<Rightarrow> Inr False
                | Some report \<Rightarrow> Inr (fileHash report = reportHash)))"

text \<open>The directory names of a family in the order of \<^verbatim>\<open>.sort()\<close>.\<close>

definition sorted_ids :: "string \<Rightarrow> (string, 'd) js_map \<Rightarrow> string list" where
  "sorted_ids prefix entries = sort (filter (matches_id prefix) (map_keys entries))"

definition findPersistedFeedbackSubmission ::
  "(string \<Rightarrow> string) \<Rightarrow> (string, submission_dir) js_map \<Rightarrow> string \<Rightarrow> string \<Rightarrow> string \<Rightarrow> string option res" where
  "findPersistedFeedbackSubmission fileHash entries feedbackId sourceReviewBlockRef reportHash =
     find_res (\<lambda>submissionId.
         case map_get entries submissionId of
           None \<Rightarrow> Inr False
         | Some d \<Rightarrow> feedbackSubmissionMatches fileHash d feedbackId submissionId sourceReviewBlockRef reportHash)
       (rev (sorted_ids ''FS'' entries))"

definition recordFeedbackSubmissionIndexes :: "string \<Rightarrow> string \<Rightarrow> string \<Rightarrow> bool \<Rightarrow> unit cmd" where
  "recordFeedbackSubmissionIndexes taskId feedbackId submissionId incrementCount =
     updateTaskIndex taskId (\<lambda>index. index
       \<lparr>ti_latestFeedbackSubmissionByFeedback :=
          map_set (ti_latestFeedbackSubmissionByFeedback index) feedbackId submissionId,
        ti_feedbackStatusById := map_set (ti_feedbackStatusById index) feedbackId FResolved,
        ti_counts := (if incrementCount then incrementTaskIndexCount index FeedbackSubmissionsField
                      else ti_counts index)\<rparr>)"

record submit_feedback_result =
  sf_feedbackId :: string
  sf_submissionId :: string

text \<open>The new submission directory with its two files.\<close>

definition write_submission ::
  "string \<Rightarrow> (string \<Rightarrow> string) \<Rightarrow> string \<Rightarrow> string \<Rightarrow> string \<Rightarrow> string \<Rightarrow> string cmd" where
  "write_submission now fileHash taskId feedbackId sourceReviewBlockRef report =
     cmd_bind (cmd_read (\<lambda>ws. fd_submissions (feedback_entry ws taskId feedbackId))) (\<lambda>entries.
     cmd_bind (cmd_lift (allocatePrefixedId entries ''FS'' \<lparr>sd_metadata = None, sd_report = None\<rparr>)) (\<lambda>(submissionId, entries').
     cmd_bind (cmd_write (set_feedback_entry taskId feedbackId (\<lambda>d. d\<lparr>fd_submissions :=
         map_set entries' submissionId
           \<lparr>sd_metadata = Some \<lparr>sm_feedbackId = Some feedbackId, sm_submissionId = Some submissionId,
              sm_sourceReviewBlockRef = Some sourceReviewBlockRef, sm_reportHash = Some (fileHash report),
              sm_submittedAt = Some now\<rparr>,
            sd_report = Some report\<rparr>\<rparr>))) (\<lambda>_.
     cmd_return submissionId)))"

definition feedback_submitted ::
  "string \<Rightarrow> feedback_envelope \<Rightarrow> string \<Rightarrow> runtime_state \<Rightarrow> runtime_state" where
  "feedback_submitted feedbackId fb submissionId s =
     (let src = fb_sourceReviewBlockRef fb
      in (with_block src ((block_or_absent s src)\<lparr>bs_status := BInProgress, bs_activeFeedbackId := None,
             bs_pendingFeedbackId := Some feedbackId\<rparr>) s)
           \<lparr>rs_feedback := map_set (rs_feedback s) feedbackId
              (fb\<lparr>fb_status := FResolved, fb_latestSubmissionId := Some submissionId\<rparr>),
            rs_currentFeedbackId := None, rs_currentReviewBlockRef := Some src,
            rs_currentRefs := with_ref (rs_currentRefs s) src\<rparr>)"

text \<open>The part of \<^verbatim>\<open>submitFeedbackFromBytes\<close> after its guards.\<close>

definition process_feedback ::
  "string \<Rightarrow> (string \<Rightarrow> string) \<Rightarrow> manifest \<Rightarrow> string \<Rightarrow> runtime_state \<Rightarrow> string \<Rightarrow> string \<Rightarrow> feedback_envelope \<Rightarrow>
   submit_feedback_result cmd" where
  "process_feedback now fileHash mf report s taskId feedbackId fb =
     cmd_bind (cmd_read (\<lambda>ws. findPersistedFeedbackSubmission fileHash
         (fd_submissions (feedback_entry ws taskId feedbackId)) feedbackId
         (fb_sourceReviewBlockRef fb) (fileHash report))) (\<lambda>found.
     cmd_bind (cmd_lift found) (\<lambda>persisted.
     cmd_bind (case persisted of
                 Some submissionId \<Rightarrow> cmd_return submissionId
               | None \<Rightarrow> write_submission now fileHash taskId feedbackId (fb_sourceReviewBlockRef fb) report)
       (\<lambda>submissionId.
     cmd_bind (recordFeedbackSubmissionIndexes taskId feedbackId submissionId (persisted = None)) (\<lambda>_.
     cmd_bind (patchFeedbackArtifact taskId feedbackId
         \<lparr>ap_status = FResolved, ap_latestSubmissionId = Some submissionId, ap_resolvedAt = Some now\<rparr>) (\<lambda>_.
     cmd_bind (saveState mf (feedback_submitted feedbackId fb submissionId s)) (\<lambda>_.
     cmd_return \<lparr>sf_feedbackId = feedbackId, sf_submissionId = submissionId\<rparr>))))))"

definition submitFeedbackFromBytes ::
  "string \<Rightarrow> (string \<Rightarrow> string) \<Rightarrow> manifest \<Rightarrow> string \<Rightarrow> submit_feedback_result cmd" where
  "submitFeedbackFromBytes now fileHash mf report =
     cmd_bind (loadRuntime mf) (\<lambda>ctx.
     let s = rc_state ctx in
     case truthy (rs_currentFeedbackId s) of
       None \<Rightarrow> cmd_lift (Inl NoActiveFeedback)
     | Some feedbackId \<Rightarrow>
         (case map_get (rs_feedback s) feedbackId of
            None \<Rightarrow> cmd_lift (Inl NoActiveFeedback)
          | Some fb \<Rightarrow>
              (case truthy (map_get (blockTaskByRef (rc_graph ctx)) (fb_sourceReviewBlockRef fb)) of
                 None \<Rightarrow> cmd_lift (Inl (FeedbackSourceUnknown feedbackId))
               | Some taskId \<Rightarrow> process_feedback now fileHash mf report s taskId feedbackId fb)))"

section \<open>Review attempts\<close>

definition reviewResult_valid :: "review_result \<Rightarrow> bool" where
  "reviewResult_valid r \<longleftrightarrow> rv_reviewBlockRef r \<noteq> [] \<and> rv_taskId r \<noteq> [] \<and> trim (rv_content r) \<noteq> []"

definition attemptMetadata_valid :: "attempt_metadata \<Rightarrow> bool" where
  "attemptMetadata_valid m \<longleftrightarrow>
     am_reviewBlockRef m \<noteq> Some [] \<and> am_attemptId m \<noteq> Some [] \<and> am_reviewedWorkRevision m \<noteq> Some [] \<and>
     am_resultHash m \<noteq> Some [] \<and> am_reviewedAt m \<noteq> Some []"

record persisted_attempt =
  pa_attemptId :: string
  pa_reviewedWorkRevision :: "string option"
  pa_sourceResultPath :: "string option"

definition readMatchingReviewAttempt ::
  "(review_result \<Rightarrow> string) \<Rightarrow> attempt_dir \<Rightarrow> string \<Rightarrow> string \<Rightarrow> string \<Rightarrow> persisted_attempt option res" where
  "readMatchingReviewAttempt resultHashOf d reviewBlockRef attemptId resultHash =
     (case ad_metadata d of
        None \<Rightarrow> Inr None
      | Some m \<Rightarrow>
          if \<not> attemptMetadata_valid m then Inl (SchemaInvalid ''review attempt metadata'')
          else if am_reviewBlockRef m \<noteq> Some reviewBlockRef \<or> am_attemptId m \<noteq> Some attemptId then Inr None
          else (case ad_result d of
                  None \<Rightarrow> Inr None
                | Some r \<Rightarrow>
                    if \<not> reviewResult_valid r then Inl (SchemaInvalid ''review result'')
                    else if resultHashOf r \<noteq> resultHash then Inr None
                    else Inr (Some \<lparr>pa_attemptId = attemptId,
                                    pa_reviewedWorkRevision = am_reviewedWorkRevision m,
                                    pa_sourceResultPath = am_sourceResultPath m\<rparr>)))"

text \<open>The first result of a list of candidates.\<close>

fun first_res :: "('a \<Rightarrow> 'b option res) \<Rightarrow> 'a list \<Rightarrow> 'b option res" where
  "first_res f [] = Inr None"
| "first_res f (x # xs) = try_bind (f x) (\<lambda>r. case r of None \<Rightarrow> first_res f xs | Some y \<Rightarrow> Inr (Some y))"

definition findPersistedReviewAttempt ::
  "(review_result \<Rightarrow> string) \<Rightarrow> workspace_files \<Rightarrow> string \<Rightarrow> string \<Rightarrow> persisted_attempt option res" where
  "findPersistedReviewAttempt resultHashOf ws reviewBlockRef resultHash =
     try_bind (parseBlockRef reviewBlockRef) (\<lambda>_.
     let entries = dir_of (wf_attempts ws) reviewBlockRef
     in first_res (\<lambda>attemptId.
            case map_get entries attemptId of
              None \<Rightarrow> Inr None
            | Some d \<Rightarrow> readMatchingReviewAttempt resultHashOf d reviewBlockRef attemptId resultHash)
          (rev (sorted_ids ''REV'' entries)))"

definition recordReviewAttemptIndexes ::
  "string \<Rightarrow> review_result \<Rightarrow> string \<Rightarrow> string \<Rightarrow> bool \<Rightarrow> unit cmd" where
  "recordReviewAttemptIndexes reviewBlockRef result workRevision attemptId incrementCount =
     cmd_bind (cmd_lift (parseBlockRef reviewBlockRef)) (\<lambda>(taskId, blockId).
     cmd_bind (cmd_write (\<lambda>ws. ws\<lparr>wf_reviewIndex := map_set (wf_reviewIndex ws) reviewBlockRef
         \<lparr>rx_latestReviewAttemptId = attemptId, rx_latestVerdict = rv_verdict result,
          rx_reviewedWorkRevision = workRevision\<rparr>\<rparr>)) (\<lambda>_.
     updateTaskIndex taskId (\<lambda>index. index
       \<lparr>ti_latestReviewAttemptByBlock := map_set (ti_latestReviewAttemptByBlock index) reviewBlockRef attemptId,
        ti_latestReviewVerdictByBlock :=
          map_set (ti_latestReviewVerdictByBlock index) reviewBlockRef (rv_verdict result),
        ti_latestReviewedWorkRevisionByBlock :=
          map_set (ti_latestReviewedWorkRevisionByBlock index) reviewBlockRef workRevision,
        ti_counts := (if incrementCount then incrementTaskIndexCount index ReviewAttemptsField
                      else ti_counts index)\<rparr>)))"

definition writeReviewAttempt ::
  "string \<Rightarrow> string \<Rightarrow> review_result \<Rightarrow> string \<Rightarrow> string \<Rightarrow> string \<Rightarrow> string cmd" where
  "writeReviewAttempt now reviewBlockRef result workRevision resultHash resultPath =
     cmd_bind (cmd_lift (parseBlockRef reviewBlockRef)) (\<lambda>_.
     cmd_bind (cmd_read (\<lambda>ws. dir_of (wf_attempts ws) reviewBlockRef)) (\<lambda>entries.
     cmd_bind (cmd_lift (allocatePrefixedId entries ''REV'' \<lparr>ad_metadata = None, ad_result = None\<rparr>))
       (\<lambda>(attemptId, entries').
     cmd_bind (cmd_write (\<lambda>ws. ws\<lparr>wf_attempts := map_set (wf_attempts ws) reviewBlockRef
         (map_set entries' attemptId
           \<lparr>ad_metadata = Some \<lparr>am_reviewBlockRef = Some reviewBlockRef, am_attemptId = Some attemptId,
              am_reviewedWorkRevision = Some workRevision, am_resultHash = Some resultHash,
              am_sourceResultPath = Some resultPath, am_reviewedAt = Some now\<rparr>,
            ad_result = Some result\<rparr>)\<rparr>)) (\<lambda>_.
     cmd_bind (recordReviewAttemptIndexes reviewBlockRef result workRevision attemptId True) (\<lambda>_.
     cmd_return attemptId)))))"

definition recordFeedbackEnvelopeIndexes ::
  "string \<Rightarrow> string \<Rightarrow> string \<Rightarrow> feedback_status \<Rightarrow> bool \<Rightarrow> unit cmd" where
  "recordFeedbackEnvelopeIndexes taskId reviewBlockRef feedbackId feedbackStatus incrementCount =
     updateTaskIndex taskId (\<lambda>index. index
       \<lparr>ti_latestFeedbackByReviewBlock :=
          map_set (ti_latestFeedbackByReviewBlock index) reviewBlockRef feedbackId,
        ti_feedbackStatusById := map_set (ti_feedbackStatusById index) feedbackId feedbackStatus,
        ti_counts := (if incrementCount then incrementTaskIndexCount index FeedbackEnvelopesField
                      else ti_counts index)\<rparr>)"

definition findFeedbackForReviewAttempt ::
  "workspace_files \<Rightarrow> string \<Rightarrow> string \<Rightarrow> string \<Rightarrow> feedback_artifact option res" where
  "findFeedbackForReviewAttempt ws taskId reviewBlockRef attemptId =
     first_res (\<lambda>feedbackId.
         case readFeedbackArtifact ws taskId feedbackId of
           Inl (FileMissing _) \<Rightarrow> Inr None
         | Inl e \<Rightarrow> Inl e
         | Inr artifact \<Rightarrow>
             Inr (if fa_feedbackId artifact = feedbackId \<and> fa_sourceReviewBlockRef artifact = reviewBlockRef \<and>
                     fa_sourceReviewAttemptId artifact = attemptId
                  then Some artifact else None))
       (sorted_ids ''FE'' (dir_of (wf_feedback ws) taskId))"

definition reviewCompletionReasonForAttempt ::
  "workspace_files \<Rightarrow> string \<Rightarrow> string \<Rightarrow> string \<Rightarrow> completion_reason option" where
  "reviewCompletionReasonForAttempt ws taskId reviewBlockRef attemptId =
     (let index = readTaskIndex ws taskId
      in if map_get (ti_latestReviewAttemptByBlock index) reviewBlockRef \<noteq> Some attemptId then None
         else map_get (ti_reviewCompletionReasonByBlock index) reviewBlockRef)"

text \<open>\<^verbatim>\<open>nextFeedbackId\<close> starts at the larger of the two counts and skips identifiers known
  to the state or on disk; the directory it makes is empty.\<close>

definition nextFeedbackId :: "string \<Rightarrow> runtime_state \<Rightarrow> string cmd" where
  "nextFeedbackId taskId s =
     cmd_bind (cmd_read (\<lambda>ws. dir_of (wf_feedback ws) taskId)) (\<lambda>entries.
     case first_free (nextId ''FE'') (\<lambda>i. map_has (rs_feedback s) i \<or> map_has entries i)
            (max (length (map_keys (rs_feedback s))) (length (map_keys entries))) 1000 of
       None \<Rightarrow> cmd_lift (Inl (IdAllocationExhausted ''FE''))
     | Some feedbackId \<Rightarrow>
         cmd_bind (cmd_write (set_feedback_entry taskId feedbackId (\<lambda>_. \<lparr>fd_artifact = None, fd_submissions = []\<rparr>)))
           (\<lambda>_. cmd_return feedbackId))"

definition maxFeedbackCyclesReached :: "nat \<Rightarrow> nat \<Rightarrow> bool" where
  "maxFeedbackCyclesReached previousFeedbackCount maxFeedbackCycles \<longleftrightarrow>
     maxFeedbackCycles = 0 \<or> maxFeedbackCycles < previousFeedbackCount"

text \<open>\<^verbatim>\<open>executeReviewHook\<close>: without a hook the review content is the feedback; the hook
  process either returns the feedback prompt or fails with a message.\<close>

type_synonym hook_runner = "review_hook \<Rightarrow> review_result \<Rightarrow> nat \<Rightarrow> string + string"

definition executeReviewHook :: "hook_runner \<Rightarrow> review_policy \<Rightarrow> review_result \<Rightarrow> nat \<Rightarrow> string + string" where
  "executeReviewHook run policy result feedbackCycleCount =
     (case rp_hook policy of
        None \<Rightarrow> Inr (rv_content result)
      | Some hook \<Rightarrow> run hook result feedbackCycleCount)"

section \<open>Submitting a review result\<close>

record submit_review_result =
  sr_ref :: string
  sr_reviewAttemptId :: string
  sr_verdict :: review_verdict
  sr_feedbackId :: "string option"
  sr_status :: block_status
  sr_completionReason :: "completion_reason option"
  sr_feedbackCreated :: bool

text \<open>The options of the command: the reference, the path of the result file, the remote identity if
  a remote operation completes the review.\<close>

record review_submission =
  so_ref :: string
  so_resultPath :: string
  so_remote :: "active_identity option"

text \<open>What the command gets from outside: the clock, the digests, the hook process, and what storing
  the conversation of a remote attempt answers.\<close>

record review_environment =
  re_now :: string
  re_workHash :: digest
  re_resultHash :: "review_result \<Rightarrow> string"
  re_runHook :: hook_runner
  re_materialize :: "string \<Rightarrow> unit res"

text \<open>A remote completion that finds its own receipt answers from the record.\<close>

definition review_replay ::
  "review_environment \<Rightarrow> string \<Rightarrow> active_identity \<Rightarrow> review_result \<Rightarrow> block_state \<Rightarrow> remote_receipt \<Rightarrow>
   submit_review_result res" where
  "review_replay env ref remote parsed b receipt =
     (case receipt of
        FailedReceipt _ _ _ \<Rightarrow> Inl (RemoteBlockResultConflict ref)
      | CompletedReceipt _ runId _ \<Rightarrow>
          if \<not> matchesRemoteOperationReceipt (Some receipt) remote \<or> bs_latestReviewAttemptId b \<noteq> Some runId
          then Inl (RemoteBlockResultConflict ref)
          else try_bind (re_materialize env runId) (\<lambda>_.
               Inr \<lparr>sr_ref = ref, sr_reviewAttemptId = runId, sr_verdict = rv_verdict parsed,
                    sr_feedbackId = None, sr_status = bs_status b,
                    sr_completionReason = bs_completionReason b,
                    sr_feedbackCreated = (truthy (bs_activeFeedbackId b) \<noteq> None)\<rparr>))"

definition review_guard :: "string \<Rightarrow> active_identity option \<Rightarrow> block_state \<Rightarrow> unit res" where
  "review_guard ref remote b =
     (case remote of
        Some identity \<Rightarrow>
          try_bind (assertActiveRemoteBlockOwnership Review b identity) (\<lambda>_.
          if bs_status b = BInProgress \<or>
             (bs_status b = BDiverged \<and>
              (case bs_remoteInterruption b of None \<Rightarrow> False | Some i \<Rightarrow> ri_resumable i))
          then Inr () else Inl (ReviewNotInProgress ref))
      | None \<Rightarrow>
          if bs_remoteOwnership b \<noteq> None then Inl (RemoteOwnedReview ref)
          else if bs_status b \<noteq> BInProgress then Inl (ReviewNotInProgress ref)
          else Inr ())"

definition sealRemoteCompletion ::
  "review_environment \<Rightarrow> review_submission \<Rightarrow> string \<Rightarrow> runtime_state \<Rightarrow> runtime_state res" where
  "sealRemoteCompletion env opts attemptId s =
     (case so_remote opts of
        None \<Rightarrow> Inr s
      | Some identity \<Rightarrow>
          try_bind (sealRemoteBlockOperationCompleted Review (block_or_absent s (so_ref opts)) identity attemptId)
            (\<lambda>b. try_bind (re_materialize env attemptId) (\<lambda>_. Inr (with_block (so_ref opts) b s))))"

text \<open>The end of every branch: seal, refresh, write, answer.\<close>

definition finish_review ::
  "review_environment \<Rightarrow> manifest \<Rightarrow> review_submission \<Rightarrow> string \<Rightarrow> runtime_state \<Rightarrow> submit_review_result \<Rightarrow>
   submit_review_result cmd" where
  "finish_review env mf opts attemptId s result =
     cmd_bind (cmd_lift (sealRemoteCompletion env opts attemptId s)) (\<lambda>s1.
     cmd_bind (saveState mf s1) (\<lambda>_. cmd_return result))"

definition update_review :: "string \<Rightarrow> (block_state \<Rightarrow> block_state) \<Rightarrow> runtime_state \<Rightarrow> runtime_state" where
  "update_review ref f s = with_block ref (f (block_or_absent s ref)) s"

text \<open>A finished review leaves the pointers.\<close>

definition leave_review :: "string \<Rightarrow> runtime_state \<Rightarrow> runtime_state" where
  "leave_review ref s = s
     \<lparr>rs_currentReviewBlockRef :=
        (if rs_currentReviewBlockRef s = Some ref then None else rs_currentReviewBlockRef s),
      rs_currentRefs := without_ref (rs_currentRefs s) ref\<rparr>"

text \<open>The states of the branches.\<close>

definition resumed_feedback_state :: "string \<Rightarrow> string \<Rightarrow> feedback_artifact \<Rightarrow> runtime_state \<Rightarrow> runtime_state" where
  "resumed_feedback_state ref attemptId artifact s =
     (let active = isActiveFeedbackStatus (fa_status artifact); fid = fa_feedbackId artifact;
          s1 = update_review ref (\<lambda>b. b\<lparr>bs_status := BInProgress, bs_latestReviewAttemptId := Some attemptId,
                 bs_activeFeedbackId := (if active then Some fid else None),
                 bs_pendingFeedbackId := (if fa_status artifact = FResolved then Some fid else None),
                 bs_completionReason := None\<rparr>) s;
          s2 = s1\<lparr>rs_feedback := map_set (rs_feedback s1) fid
                   \<lparr>fb_status = fa_status artifact, fb_sourceReviewBlockRef = ref,
                    fb_latestSubmissionId = fa_latestSubmissionId artifact, fb_content = fa_content artifact\<rparr>,
                  rs_currentReviewBlockRef := Some ref\<rparr>
      in if active then s2\<lparr>rs_currentFeedbackId := Some fid, rs_currentRefs := without_ref (rs_currentRefs s2) ref\<rparr>
         else s2\<lparr>rs_currentRefs := with_ref (rs_currentRefs s2) ref\<rparr>)"

definition resumed_exhausted_state :: "string \<Rightarrow> string \<Rightarrow> runtime_state \<Rightarrow> runtime_state" where
  "resumed_exhausted_state ref attemptId s =
     leave_review ref (update_review ref (\<lambda>b. b\<lparr>bs_status := BCompleted,
       bs_latestReviewAttemptId := Some attemptId, bs_activeFeedbackId := None, bs_pendingFeedbackId := None,
       bs_blockedReason := None, bs_completionReason := Some MaxCyclesReached\<rparr>) s)"

definition passed_state :: "string \<Rightarrow> string \<Rightarrow> string \<Rightarrow> runtime_state \<Rightarrow> runtime_state" where
  "passed_state ref attemptId workRevision s =
     leave_review ref (update_review ref (\<lambda>b. b\<lparr>bs_status := BCompleted,
       bs_latestReviewAttemptId := Some attemptId, bs_activeFeedbackId := None, bs_pendingFeedbackId := None,
       bs_completionReason := Some PassedReason, bs_passedWorkRevision := Some workRevision\<rparr>) s)"

definition max_cycles_state :: "string \<Rightarrow> string \<Rightarrow> runtime_state \<Rightarrow> runtime_state" where
  "max_cycles_state ref attemptId s =
     leave_review ref (update_review ref (\<lambda>b. b\<lparr>bs_status := BCompleted,
       bs_latestReviewAttemptId := Some attemptId, bs_activeFeedbackId := None, bs_pendingFeedbackId := None,
       bs_completionReason := Some MaxCyclesReached\<rparr>) s)"

definition hook_failed_state :: "string \<Rightarrow> string \<Rightarrow> string \<Rightarrow> runtime_state \<Rightarrow> runtime_state" where
  "hook_failed_state ref attemptId message s =
     (let s1 = update_review ref (\<lambda>b. b\<lparr>bs_status := BBlocked,
            bs_latestReviewAttemptId := Some attemptId, bs_activeFeedbackId := None, bs_pendingFeedbackId := None,
            bs_blockedReason := Some (''Review hook failed: '' @ message)\<rparr>) s
      in s1\<lparr>rs_currentRefs := without_ref (rs_currentRefs s1) ref\<rparr>)"

definition feedback_opened_state :: "string \<Rightarrow> string \<Rightarrow> string \<Rightarrow> string \<Rightarrow> runtime_state \<Rightarrow> runtime_state" where
  "feedback_opened_state ref attemptId feedbackId content s =
     (let s1 = update_review ref (\<lambda>b. b\<lparr>bs_status := BInProgress,
            bs_latestReviewAttemptId := Some attemptId, bs_activeFeedbackId := Some feedbackId,
            bs_pendingFeedbackId := None\<rparr>) s
      in s1\<lparr>rs_feedback := map_set (rs_feedback s1) feedbackId
              \<lparr>fb_status = FOpen, fb_sourceReviewBlockRef = ref, fb_latestSubmissionId = None, fb_content = content\<rparr>,
            rs_currentFeedbackId := Some feedbackId, rs_currentReviewBlockRef := Some ref,
            rs_currentRefs := without_ref (rs_currentRefs s1) ref\<rparr>)"

definition feedback_count :: "string \<Rightarrow> runtime_state \<Rightarrow> nat" where
  "feedback_count ref s = length (filter (\<lambda>p. fb_sourceReviewBlockRef (snd p) = ref) (rs_feedback s))"

definition review_result_of ::
  "review_submission \<Rightarrow> string \<Rightarrow> review_verdict \<Rightarrow> string option \<Rightarrow> block_status \<Rightarrow> completion_reason option \<Rightarrow>
   submit_review_result" where
  "review_result_of opts attemptId verdict feedbackId status reason =
     \<lparr>sr_ref = so_ref opts, sr_reviewAttemptId = attemptId, sr_verdict = verdict, sr_feedbackId = feedbackId,
      sr_status = status, sr_completionReason = reason, sr_feedbackCreated = (feedbackId \<noteq> None)\<rparr>"

text \<open>A new envelope: directory, artifact, index, state.\<close>

definition open_feedback ::
  "review_environment \<Rightarrow> manifest \<Rightarrow> review_submission \<Rightarrow> string \<Rightarrow> string \<Rightarrow> string \<Rightarrow> runtime_state \<Rightarrow>
   submit_review_result cmd" where
  "open_feedback env mf opts taskId attemptId content s =
     cmd_bind (nextFeedbackId taskId s) (\<lambda>feedbackId.
     cmd_bind (writeFeedbackArtifact taskId
         \<lparr>fa_feedbackId = feedbackId, fa_sourceReviewBlockRef = so_ref opts, fa_content = content,
          fa_sourceReviewAttemptId = attemptId, fa_status = FOpen, fa_createdAt = re_now env,
          fa_latestSubmissionId = None, fa_resolvedAt = None\<rparr>) (\<lambda>_.
     cmd_bind (recordFeedbackEnvelopeIndexes taskId (so_ref opts) feedbackId FOpen True) (\<lambda>_.
     finish_review env mf opts attemptId (feedback_opened_state (so_ref opts) attemptId feedbackId content s)
       (review_result_of opts attemptId NeedsChanges (Some feedbackId) BInProgress None))))"

definition max_cycles_warning :: "string \<Rightarrow> index_warning" where
  "max_cycles_warning ref =
     \<lparr>iw_code = ''review_max_cycles_reached'',
      iw_message = ''Review block '' @ [CHR 0x27] @ ref @ [CHR 0x27] @ '' reached max feedback cycles without passing.'',
      iw_path = Some ref, iw_transitionId = None\<rparr>"

text \<open>The verdict of an attempt that has not been acted on.\<close>

definition apply_verdict ::
  "review_environment \<Rightarrow> manifest \<Rightarrow> review_submission \<Rightarrow> review_policy \<Rightarrow> string \<Rightarrow> review_result \<Rightarrow> string \<Rightarrow>
   string \<Rightarrow> runtime_state \<Rightarrow> submit_review_result cmd" where
  "apply_verdict env mf opts policy taskId parsed workRevision attemptId s =
     (let ref = so_ref opts; count = feedback_count ref s in
      if rv_verdict parsed = Passed
      then cmd_bind (recordReviewCompletionReason taskId ref PassedReason None) (\<lambda>_.
           finish_review env mf opts attemptId (passed_state ref attemptId workRevision s)
             (review_result_of opts attemptId Passed None BCompleted (Some PassedReason)))
      else if maxFeedbackCyclesReached count (rp_maxFeedbackCycles policy)
      then cmd_bind (recordReviewCompletionReason taskId ref MaxCyclesReached (Some (max_cycles_warning ref))) (\<lambda>_.
           finish_review env mf opts attemptId (max_cycles_state ref attemptId s)
             (review_result_of opts attemptId NeedsChanges None BCompleted (Some MaxCyclesReached)))
      else (case executeReviewHook (re_runHook env) policy parsed count of
              Inl message \<Rightarrow>
                finish_review env mf opts attemptId (hook_failed_state ref attemptId message s)
                  (review_result_of opts attemptId NeedsChanges None BBlocked None)
            | Inr content \<Rightarrow> open_feedback env mf opts taskId attemptId content s))"

text \<open>What the artifacts of an earlier, identical submission say.\<close>

record review_history =
  rh_attempt :: "persisted_attempt option"
  rh_feedback :: "feedback_artifact option"
  rh_reason :: "completion_reason option"

definition read_history ::
  "review_environment \<Rightarrow> workspace_files \<Rightarrow> string \<Rightarrow> string \<Rightarrow> review_result \<Rightarrow> review_history res" where
  "read_history env ws ref taskId parsed =
     try_bind (findPersistedReviewAttempt (re_resultHash env) ws ref (re_resultHash env parsed)) (\<lambda>attempt.
     case attempt of
       None \<Rightarrow> Inr \<lparr>rh_attempt = None, rh_feedback = None, rh_reason = None\<rparr>
     | Some a \<Rightarrow>
         if rv_verdict parsed \<noteq> NeedsChanges
         then Inr \<lparr>rh_attempt = Some a, rh_feedback = None, rh_reason = None\<rparr>
         else try_bind (findFeedbackForReviewAttempt ws taskId ref (pa_attemptId a)) (\<lambda>feedback.
              Inr \<lparr>rh_attempt = Some a, rh_feedback = feedback,
                   rh_reason = (if feedback = None
                                then reviewCompletionReasonForAttempt ws taskId ref (pa_attemptId a)
                                else None)\<rparr>))"

definition reuse_attempt :: "string \<Rightarrow> string \<Rightarrow> runtime_state \<Rightarrow> review_history \<Rightarrow> persisted_attempt option" where
  "reuse_attempt ref workRevision s h =
     (case rh_attempt h of
        None \<Rightarrow> None
      | Some a \<Rightarrow>
          let sameRevision = (pa_reviewedWorkRevision a = Some workRevision);
              currentRetry = (case rh_feedback h of
                 None \<Rightarrow> False
               | Some f \<Rightarrow> rs_currentFeedbackId s = Some (fa_feedbackId f) \<and> rs_currentReviewBlockRef s = Some ref);
              pendingRetry = (case rh_feedback h of
                 None \<Rightarrow> False
               | Some f \<Rightarrow> fa_status f = FResolved \<and>
                   (case map_get (rs_blocks s) ref of
                      None \<Rightarrow> False | Some b \<Rightarrow> bs_pendingFeedbackId b = Some (fa_feedbackId f)))
          in if sameRevision \<or> currentRetry \<or> pendingRetry then Some a else None)"

text \<open>The part of \<^verbatim>\<open>submitReviewResultLocked\<close> after its guards.\<close>

definition process_review ::
  "review_environment \<Rightarrow> manifest \<Rightarrow> review_submission \<Rightarrow> review_policy \<Rightarrow> string \<Rightarrow> review_result \<Rightarrow>
   compiled_graph \<Rightarrow> runtime_state \<Rightarrow> submit_review_result cmd" where
  "process_review env mf opts policy taskId parsed g s =
     (let ref = so_ref opts in
      cmd_bind (cmd_lift (computeWorkRevision (re_workHash env) g s ref)) (\<lambda>workRevision.
      cmd_bind (cmd_read (\<lambda>ws. read_history env ws ref taskId parsed)) (\<lambda>history.
      cmd_bind (cmd_lift history) (\<lambda>h.
      case reuse_attempt ref workRevision s h of
        None \<Rightarrow>
          cmd_bind (writeReviewAttempt (re_now env) ref parsed workRevision (re_resultHash env parsed)
              (so_resultPath opts)) (\<lambda>attemptId.
          cmd_bind (cmd_lift (getTask g taskId)) (\<lambda>_.
          apply_verdict env mf opts policy taskId parsed workRevision attemptId s))
      | Some a \<Rightarrow>
          cmd_bind (recordReviewAttemptIndexes ref parsed
              (case pa_reviewedWorkRevision a of None \<Rightarrow> workRevision | Some r \<Rightarrow> r) (pa_attemptId a) False) (\<lambda>_.
          case (if rv_verdict parsed = NeedsChanges then rh_feedback h else None) of
            Some artifact \<Rightarrow>
              cmd_bind (recordFeedbackEnvelopeIndexes taskId ref (fa_feedbackId artifact) (fa_status artifact) False)
                (\<lambda>_. finish_review env mf opts (pa_attemptId a)
                       (resumed_feedback_state ref (pa_attemptId a) artifact s)
                       (review_result_of opts (pa_attemptId a) NeedsChanges (Some (fa_feedbackId artifact))
                          BInProgress None))
          | None \<Rightarrow>
              if rv_verdict parsed = NeedsChanges \<and> rh_reason h = Some MaxCyclesReached
              then finish_review env mf opts (pa_attemptId a) (resumed_exhausted_state ref (pa_attemptId a) s)
                     (review_result_of opts (pa_attemptId a) NeedsChanges None BCompleted (Some MaxCyclesReached))
              else cmd_bind (cmd_lift (getTask g taskId)) (\<lambda>_.
                   apply_verdict env mf opts policy taskId parsed workRevision (pa_attemptId a) s))))))"

text \<open>The receipt a remote completion finds on its block.\<close>

definition found_receipt :: "review_submission \<Rightarrow> block_state \<Rightarrow> (active_identity \<times> remote_receipt) option" where
  "found_receipt opts b =
     (case so_remote opts of
        None \<Rightarrow> None
      | Some identity \<Rightarrow> map_option (Pair identity) (bs_remoteOperationReceipt b))"

definition submitReviewResultLocked ::
  "review_environment \<Rightarrow> manifest \<Rightarrow> review_submission \<Rightarrow> review_result \<Rightarrow> submit_review_result cmd" where
  "submitReviewResultLocked env mf opts parsed =
     (let ref = so_ref opts in
      cmd_bind (loadRuntime mf) (\<lambda>ctx.
      let g = rc_graph ctx; s = rc_state ctx in
      cmd_bind (cmd_lift (parseBlockRef ref)) (\<lambda>tb.
      cmd_bind (cmd_lift (getBlock g ref)) (\<lambda>block.
      if mb_type block \<noteq> Review then cmd_lift (Inl SubmitReviewNotReview)
      else if rv_reviewBlockRef parsed \<noteq> ref \<or> rv_taskId parsed \<noteq> fst tb
      then cmd_lift (Inl ReviewResultMismatch)
      else cmd_bind (cmd_lift (requireBlockState s ref)) (\<lambda>b.
      case found_receipt opts b of
        Some (identity, receipt) \<Rightarrow> cmd_lift (review_replay env ref identity parsed b receipt)
      | None \<Rightarrow>
          cmd_bind (cmd_lift (review_guard ref (so_remote opts) b)) (\<lambda>_.
          process_review env mf opts (mb_review block) (fst tb) parsed g s))))))"

text \<open>\<^verbatim>\<open>submitReviewResultValue\<close> parses its argument first.\<close>

definition submitReviewResultValue ::
  "review_environment \<Rightarrow> manifest \<Rightarrow> review_submission \<Rightarrow> review_result \<Rightarrow> submit_review_result cmd" where
  "submitReviewResultValue env mf opts value =
     (if reviewResult_valid value then submitReviewResultLocked env mf opts value
      else cmd_lift (Inl (SchemaInvalid ''review result'')))"

section \<open>Saving one changed record\<close>

text \<open>The saved state in which the record of one started block was replaced: the record, the pointers
  and the feedback are as given, the other records are kept.\<close>

lemma save_record:
  assumes ctx: "context_ok mf ctx" and r: "ref \<in> set (blockRefsInManifestOrder (rc_graph ctx))"
    and blocks: "rs_blocks s = map_set (rs_blocks (rc_state ctx)) ref b"
    and b: "bs_status b \<noteq> BPlanned" "bs_status b \<noteq> BReady"
      "\<forall>rc. bs_remoteOperationReceipt b = Some rc \<longrightarrow>
         remoteOperationReceiptMatchesBlockType rc (mb_type (block_of (rc_graph ctx) ref))"
    and refs: "set (rs_currentRefs s) \<subseteq> set (blockRefsInManifestOrder (rc_graph ctx))"
    and fb: "\<forall>p \<in> set (rs_feedback s). fb_sourceReviewBlockRef (snd p) \<in> set (blockRefsInManifestOrder (rc_graph ctx))"
    and e: "ensureStateForManifest mf s = Inr s'"
  shows "map_get (rs_blocks s') ref = Some b" and "\<forall>r. r \<noteq> ref \<longrightarrow> same_record (rc_state ctx) s' r"
    and "rs_currentRefs s' = rs_currentRefs s" and "rs_feedback s' = rs_feedback s"
proof -
  note c = context_okD [OF ctx]
  let ?g = "rc_graph ctx"
  have wf: "map_wf (rs_blocks s)" using c(4) blocks by (simp add: reconciled_def jm.wf_put)
  have g: "map_get (blocksByRef ?g) ref = Some (block_of ?g ref)" by (rule block_of_get(1) [OF c(2) r])
  show "map_get (rs_blocks s') ref = Some b"
    by (rule ensure_keeps_started [OF e c(1) wf _ g b]) (simp add: blocks jm.get_put)
  have get: "map_get (rs_blocks s) q = (if q = ref then Some b else map_get (rs_blocks (rc_state ctx)) q)" for q
    by (simp add: blocks jm.get_put)
  show "\<forall>q. q \<noteq> ref \<longrightarrow> same_record (rc_state ctx) s' q"
  proof (intro allI impI)
    fix q
    assume q: "q \<noteq> ref"
    show "same_record (rc_state ctx) s' q"
    proof (cases "map_get (rs_blocks (rc_state ctx)) q")
      case (Some bq)
      have "\<exists>b'. map_get (rs_blocks s') q = Some b' \<and> norm_block b' = norm_block bq"
        using q Some by (intro ensure_block [OF e c(1) wf _ context_block_known(2,3) [OF ctx Some]]) (simp add: get)
      with Some show ?thesis by (auto simp: same_record_def)
    next
      case None
      then show ?thesis
        using reconciled_has [OF c(4), of q] reconciled_has [OF ensure_reconciled [OF e c(1)], of q]
        by (simp add: same_record_def map_has_get)
    qed
  qed
  have "\<not> entry_drifts ?g (q, bq)" if "map_get (rs_blocks s) q = Some bq" for q bq
    using that g b(3) context_block_known [OF ctx, of q bq]
    by (cases "q = ref") (auto simp: get entry_drifts_def)
  then have rm: "receipts_match ?g s" using map_wf_get [OF wf] by (auto simp: receipts_match_def)
  show "rs_currentRefs s' = rs_currentRefs s" "rs_feedback s' = rs_feedback s"
    by (rule ensure_pointers [OF e c(1) rm refs fb])+
qed

section \<open>The record of a review after a submission\<close>

text \<open>A review block changes its status, its attempt and its feedback fields; the remote records change
  only in the seal.\<close>

definition same_remote :: "block_state \<Rightarrow> block_state \<Rightarrow> bool" where
  "same_remote b b' \<longleftrightarrow>
     bs_submissionAttemptId b' = bs_submissionAttemptId b \<and> bs_submissionRunId b' = bs_submissionRunId b \<and>
     bs_remoteOwnership b' = bs_remoteOwnership b \<and> bs_remoteInterruption b' = bs_remoteInterruption b \<and>
     bs_remoteOperationReceipt b' = bs_remoteOperationReceipt b"

definition sealed_record :: "active_identity option \<Rightarrow> string \<Rightarrow> block_state \<Rightarrow> block_state" where
  "sealed_record remote attemptId b =
     (case remote of
        None \<Rightarrow> b
      | Some identity \<Rightarrow>
          let cleared = clearRemoteBlockOperationState b
          in if bs_status b = BCompleted
             then cleared\<lparr>bs_lastRunId := Some attemptId,
                    bs_remoteOperationReceipt := Some (CompletedReceipt identity attemptId (Some Review))\<rparr>
             else cleared)"

lemma seal_Inr:
  assumes "sealRemoteCompletion env opts attemptId s = Inr s'"
  shows "rs_blocks s' = (case so_remote opts of
       None \<Rightarrow> rs_blocks s
     | Some i \<Rightarrow> map_set (rs_blocks s) (so_ref opts)
         (sealed_record (so_remote opts) attemptId (block_or_absent s (so_ref opts))))"
    and "rs_currentRefs s' = rs_currentRefs s" and "rs_feedback s' = rs_feedback s"
    and "so_remote opts = Some i \<Longrightarrow> bs_status (block_or_absent s (so_ref opts)) = BCompleted \<Longrightarrow>
         remoteReceipt_valid (CompletedReceipt i attemptId (Some Review))"
  using assms
  by (auto simp: sealRemoteCompletion_def sealRemoteBlockOperationCompleted_def sealed_record_def parse_receipt_def
      Let_def split: option.splits if_splits elim!: try_bind_InrE)

lemma seal_update:
  assumes "sealRemoteCompletion env opts attemptId s = Inr s'"
    and "rs_blocks s = map_set (rs_blocks s0) (so_ref opts) b"
  shows "rs_blocks s' = map_set (rs_blocks s0) (so_ref opts) (sealed_record (so_remote opts) attemptId b)"
proof -
  have "block_or_absent s (so_ref opts) = b" using assms(2) by (simp add: block_or_absent_def jm.get_put)
  with seal_Inr(1) [OF assms(1)] assms(2) show ?thesis
    by (auto simp: map_set_set sealed_record_def split: option.splits)
qed

lemma guard_owner:
  assumes "review_guard ref remote b = Inr u"
  shows "remote = None \<Longrightarrow> bs_remoteOwnership b = None \<and> bs_status b = BInProgress"
  using assms by (auto simp: review_guard_def split: if_splits)

lemma sealed_valid:
  assumes v: "blockState_valid b" and gd: "review_guard ref remote b = Inr u"
    and same: "same_remote b b1" and st: "bs_status b1 \<in> {BInProgress, BCompleted, BBlocked}"
    and rc: "remote \<noteq> None \<Longrightarrow> bs_remoteOperationReceipt b = None"
    and ok: "\<And>i. remote = Some i \<Longrightarrow> bs_status b1 = BCompleted \<Longrightarrow>
        remoteReceipt_valid (CompletedReceipt i a (Some Review))"
  shows "blockState_valid (sealed_record remote a b1)"
proof (cases remote)
  case None
  with guard_owner [OF gd] have b: "bs_remoteOwnership b = None" "bs_status b = BInProgress" by auto
  with v have "bs_remoteInterruption b = None" "bs_remoteOperationReceipt b = None"
    by (auto simp: block_valid_simps split: option.splits remote_receipt.splits)
  with None v b same show ?thesis
    by (auto simp: sealed_record_def same_remote_def block_valid_simps)
next
  case (Some i)
  with v same rc ok st show ?thesis
    by (auto simp: sealed_record_def same_remote_def block_valid_simps clearRemoteBlockOperationState_def Let_def)
qed

text \<open>The situation in which a submission starts to write: the runtime is loaded, the block is a review
  of the graph, the guard let the command pass.\<close>

definition submittable :: "manifest \<Rightarrow> review_submission \<Rightarrow> runtime_context \<Rightarrow> bool" where
  "submittable mf opts ctx \<longleftrightarrow>
     context_ok mf ctx \<and> so_ref opts \<in> set (blockRefsInManifestOrder (rc_graph ctx)) \<and>
     mb_type (block_of (rc_graph ctx) (so_ref opts)) = Review \<and>
     review_guard (so_ref opts) (so_remote opts) (bstate (rc_state ctx) (so_ref opts)) = Inr () \<and>
     (so_remote opts \<noteq> None \<longrightarrow> bs_remoteOperationReceipt (bstate (rc_state ctx) (so_ref opts)) = None)"

lemma submittable_record:
  assumes "submittable mf opts ctx"
  shows "map_get (rs_blocks (rc_state ctx)) (so_ref opts) = Some (bstate (rc_state ctx) (so_ref opts))"
    and "blockState_valid (bstate (rc_state ctx) (so_ref opts))"
    and "bs_remoteOperationReceipt (bstate (rc_state ctx) (so_ref opts)) = None"
    and "block_or_absent (rc_state ctx) (so_ref opts) = bstate (rc_state ctx) (so_ref opts)"
proof -
  note c = context_okD [of mf ctx]
  show g: "map_get (rs_blocks (rc_state ctx)) (so_ref opts) = Some (bstate (rc_state ctx) (so_ref opts))"
    using assms covers_block [OF c(5)] by (simp add: submittable_def)
  then show v: "blockState_valid (bstate (rc_state ctx) (so_ref opts))"
    using assms c(3) runtimeState_valid_get by (auto simp: submittable_def)
  show "bs_remoteOperationReceipt (bstate (rc_state ctx) (so_ref opts)) = None"
    using assms v guard_owner [of "so_ref opts" "so_remote opts" "bstate (rc_state ctx) (so_ref opts)" "()"]
    by (cases "so_remote opts")
      (auto simp: submittable_def block_valid_simps split: option.splits remote_receipt.splits)
  from g show "block_or_absent (rc_state ctx) (so_ref opts) = bstate (rc_state ctx) (so_ref opts)"
    by (simp add: block_or_absent_def)
qed

text \<open>A state in which a branch of the command has changed the review record and the pointers.\<close>

definition branch_state :: "review_submission \<Rightarrow> runtime_context \<Rightarrow> block_state \<Rightarrow> runtime_state \<Rightarrow> bool" where
  "branch_state opts ctx b1 s1 \<longleftrightarrow>
     rs_blocks s1 = map_set (rs_blocks (rc_state ctx)) (so_ref opts) b1 \<and>
     same_remote (bstate (rc_state ctx) (so_ref opts)) b1 \<and>
     bs_status b1 \<in> {BInProgress, BCompleted, BBlocked} \<and>
     set (rs_currentRefs s1) \<subseteq> set (blockRefsInManifestOrder (rc_graph ctx)) \<and>
     (\<forall>p \<in> set (rs_feedback s1). fb_sourceReviewBlockRef (snd p) \<in> set (blockRefsInManifestOrder (rc_graph ctx)))"

lemma branch_sealed:
  assumes sub: "submittable mf opts ctx" and br: "branch_state opts ctx b1 s1"
    and seal: "sealRemoteCompletion env opts a s1 = Inr s2"
  shows "runtimeState_valid s2"
    and "rs_blocks s2 = map_set (rs_blocks (rc_state ctx)) (so_ref opts) (sealed_record (so_remote opts) a b1)"
proof -
  note c = context_okD [of mf ctx] and rec = submittable_record [OF sub]
  show b: "rs_blocks s2 = map_set (rs_blocks (rc_state ctx)) (so_ref opts) (sealed_record (so_remote opts) a b1)"
    using br by (intro seal_update [OF seal]) (simp add: branch_state_def)
  have "block_or_absent s1 (so_ref opts) = b1"
    using br by (simp add: branch_state_def block_or_absent_def jm.get_put)
  then have "blockState_valid (sealed_record (so_remote opts) a b1)"
    using sub br rec seal_Inr(4) [OF seal]
    by (intro sealed_valid [OF rec(2)]) (auto simp: submittable_def branch_state_def)
  then have "runtimeState_valid (with_block (so_ref opts) (sealed_record (so_remote opts) a b1) (rc_state ctx))"
    using sub c(3) by (intro with_block_valid) (simp_all add: submittable_def)
  then show "runtimeState_valid s2" using b by (simp add: runtimeState_valid_def)
qed

lemma keeps_finish:
  assumes "submittable mf opts ctx" and "branch_state opts ctx b1 s1"
  shows "cmd_keeps files_ok (finish_review env mf opts a s1 r)"
  unfolding finish_review_def
  using branch_sealed(1) [OF assms] by (intro keeps_lift_bind keeps_bind keeps_return keeps_saveState)

lemma finish_Inr:
  assumes sub: "submittable mf opts ctx" and br: "branch_state opts ctx b1 s1"
    and run: "finish_review env mf opts a s1 r ws = (Inr res, ws')"
  obtains s' where "res = r" and "ws' = ws\<lparr>wf_state := Some s'\<rparr>" and "loaded_state mf ws' = Inr s'"
    and "map_get (rs_blocks s') (so_ref opts) = Some (sealed_record (so_remote opts) a b1)"
    and "\<forall>q. q \<noteq> so_ref opts \<longrightarrow> same_record (rc_state ctx) s' q"
    and "rs_currentRefs s' = rs_currentRefs s1" and "rs_feedback s' = rs_feedback s1"
proof -
  from run obtain s2 s' where seal: "sealRemoteCompletion env opts a s1 = Inr s2"
    and e: "ensureStateForManifest mf s2 = Inr s'" and ws': "ws' = ws\<lparr>wf_state := Some s'\<rparr>" and r: "res = r"
    by (auto simp: finish_review_def cmd_bind_Inr saveState_Inr)
  note v = branch_sealed [OF sub br seal]
  note ptr = seal_Inr(2,3) [OF seal]
  have ctx: "context_ok mf ctx" and ref: "so_ref opts \<in> set (blockRefsInManifestOrder (rc_graph ctx))"
    using sub by (simp_all add: submittable_def)
  have st: "bs_status (sealed_record (so_remote opts) a b1) \<in> {BInProgress, BCompleted, BBlocked}"
    using br by (auto simp: branch_state_def sealed_record_def clearRemoteBlockOperationState_def Let_def
        split: option.splits)
  have rc: "remoteOperationReceiptMatchesBlockType x (mb_type (block_of (rc_graph ctx) (so_ref opts)))"
    if "bs_remoteOperationReceipt (sealed_record (so_remote opts) a b1) = Some x" for x
    using that br sub submittable_record(3) [OF sub]
    by (auto simp: sealed_record_def branch_state_def same_remote_def submittable_def Let_def
        remoteOperationReceiptMatchesBlockType_def clearRemoteBlockOperationState_def
        split: option.splits if_splits)
  note sr = save_record [OF ctx ref v(2) _ _ _ _ _ e]
  have "loaded_state mf ws' = Inr s'" unfolding ws' by (rule loaded_state_saved [OF e v(1)])
  then show thesis
    using that r ws' sr st rc ptr br by (auto simp: branch_state_def)
qed

section \<open>What a verdict does\<close>

text \<open>The abstract outcome of a review: a function of the verdict, the number of earlier envelopes, the
  policy and what the hook answers.\<close>

datatype review_outcome = OutcomePassed | OutcomeExhausted | OutcomeHookFailed string | OutcomeFeedback string

definition outcome_of :: "hook_runner \<Rightarrow> review_policy \<Rightarrow> review_result \<Rightarrow> nat \<Rightarrow> review_outcome" where
  "outcome_of run policy parsed count =
     (if rv_verdict parsed = Passed then OutcomePassed
      else if rp_maxFeedbackCycles policy = 0 \<or> rp_maxFeedbackCycles policy < count then OutcomeExhausted
      else (case rp_hook policy of
              None \<Rightarrow> OutcomeFeedback (rv_content parsed)
            | Some hook \<Rightarrow> (case run hook parsed count of
                Inl message \<Rightarrow> OutcomeHookFailed message | Inr content \<Rightarrow> OutcomeFeedback content)))"

fun outcome_status :: "review_outcome \<Rightarrow> block_status" where
  "outcome_status OutcomePassed = BCompleted"
| "outcome_status OutcomeExhausted = BCompleted"
| "outcome_status (OutcomeHookFailed _) = BBlocked"
| "outcome_status (OutcomeFeedback _) = BInProgress"

fun outcome_record :: "review_outcome \<Rightarrow> string \<Rightarrow> string \<Rightarrow> string option \<Rightarrow> block_state \<Rightarrow> block_state" where
  "outcome_record OutcomePassed attemptId workRevision fid b =
     b\<lparr>bs_status := BCompleted, bs_latestReviewAttemptId := Some attemptId, bs_activeFeedbackId := None,
       bs_pendingFeedbackId := None, bs_completionReason := Some PassedReason,
       bs_passedWorkRevision := Some workRevision\<rparr>"
| "outcome_record OutcomeExhausted attemptId workRevision fid b =
     b\<lparr>bs_status := BCompleted, bs_latestReviewAttemptId := Some attemptId, bs_activeFeedbackId := None,
       bs_pendingFeedbackId := None, bs_completionReason := Some MaxCyclesReached\<rparr>"
| "outcome_record (OutcomeHookFailed message) attemptId workRevision fid b =
     b\<lparr>bs_status := BBlocked, bs_latestReviewAttemptId := Some attemptId, bs_activeFeedbackId := None,
       bs_pendingFeedbackId := None, bs_blockedReason := Some (''Review hook failed: '' @ message)\<rparr>"
| "outcome_record (OutcomeFeedback content) attemptId workRevision fid b =
     b\<lparr>bs_status := BInProgress, bs_latestReviewAttemptId := Some attemptId, bs_activeFeedbackId := fid,
       bs_pendingFeedbackId := None\<rparr>"

lemma outcome_record_facts:
  "bs_status (outcome_record o' a w f b) = outcome_status o'" "same_remote b (outcome_record o' a w f b)"
  "outcome_status o' \<in> {BInProgress, BCompleted, BBlocked}"
  by (cases o'; simp add: same_remote_def)+

text \<open>The files after a verdict was applied: the record, nothing else but one new envelope.\<close>

definition verdict_applied ::
  "manifest \<Rightarrow> review_submission \<Rightarrow> string \<Rightarrow> runtime_state \<Rightarrow> review_outcome \<Rightarrow> string \<Rightarrow> string \<Rightarrow>
   submit_review_result \<Rightarrow> workspace_files \<Rightarrow> bool" where
  "verdict_applied mf opts taskId s outcome attemptId workRevision res ws' \<longleftrightarrow>
     sr_reviewAttemptId res = attemptId \<and> sr_status res = outcome_status outcome \<and>
     (\<exists>s'. loaded_state mf ws' = Inr s' \<and>
        map_get (rs_blocks s') (so_ref opts) = Some (sealed_record (so_remote opts) attemptId
          (outcome_record outcome attemptId workRevision (sr_feedbackId res) (bstate s (so_ref opts)))) \<and>
        (\<forall>q. q \<noteq> so_ref opts \<longrightarrow> same_record s s' q) \<and> so_ref opts \<notin> set (rs_currentRefs s') \<and>
        (case outcome of
           OutcomeFeedback content \<Rightarrow>
             (\<exists>fid. sr_feedbackId res = Some fid \<and> \<not> map_has (rs_feedback s) fid \<and>
                rs_feedback s' = map_set (rs_feedback s) fid \<lparr>fb_status = FOpen,
                  fb_sourceReviewBlockRef = so_ref opts, fb_latestSubmissionId = None, fb_content = content\<rparr> \<and>
                (\<exists>art. readFeedbackArtifact ws' taskId fid = Inr art \<and> fa_status art = FOpen \<and>
                   fa_content art = content \<and> fa_sourceReviewAttemptId art = attemptId \<and>
                   fa_sourceReviewBlockRef art = so_ref opts))
         | _ \<Rightarrow> sr_feedbackId res = None \<and> rs_feedback s' = rs_feedback s))"

lemma review_pointers [simp]:
  "rs_feedback (leave_review ref s) = rs_feedback s" "rs_blocks (leave_review ref s) = rs_blocks s"
  "rs_currentRefs (leave_review ref s) = without_ref (rs_currentRefs s) ref"
  "rs_feedback (update_review ref f s) = rs_feedback s" "rs_currentRefs (update_review ref f s) = rs_currentRefs s"
  "rs_blocks (update_review ref f s) = map_set (rs_blocks s) ref (f (block_or_absent s ref))"
  by (simp_all add: leave_review_def update_review_def)

lemma branch_from:
  assumes "submittable mf opts ctx" and "rs_blocks s1 = map_set (rs_blocks (rc_state ctx)) (so_ref opts) b1"
    and "same_remote (bstate (rc_state ctx) (so_ref opts)) b1" and "bs_status b1 \<in> {BInProgress, BCompleted, BBlocked}"
    and "set (rs_currentRefs s1) \<subseteq> insert (so_ref opts) (set (rs_currentRefs (rc_state ctx)))"
    and "\<forall>p \<in> set (rs_feedback s1). p \<in> set (rs_feedback (rc_state ctx)) \<or> fb_sourceReviewBlockRef (snd p) = so_ref opts"
  shows "branch_state opts ctx b1 s1"
proof -
  let ?refs = "set (blockRefsInManifestOrder (rc_graph ctx))"
  have "so_ref opts \<in> ?refs" and r: "reconciled (rc_graph ctx) (rc_state ctx)"
    using assms(1) context_okD(4) by (auto simp: submittable_def)
  moreover have "set (rs_currentRefs (rc_state ctx)) \<subseteq> ?refs"
    "\<forall>p \<in> set (rs_feedback (rc_state ctx)). fb_sourceReviewBlockRef (snd p) \<in> ?refs"
    using r by (simp_all add: reconciled_def)
  ultimately have "set (rs_currentRefs s1) \<subseteq> ?refs"
    "\<forall>p \<in> set (rs_feedback s1). fb_sourceReviewBlockRef (snd p) \<in> ?refs" using assms(5,6) by fastforce+
  with assms(2-4) show ?thesis by (simp add: branch_state_def)
qed

lemma outcome_branch:
  assumes sub: "submittable mf opts ctx"
    and "rs_blocks s1 = map_set (rs_blocks (rc_state ctx)) (so_ref opts)
           (outcome_record oc a w fid (bstate (rc_state ctx) (so_ref opts)))"
    and "rs_currentRefs s1 = without_ref (rs_currentRefs (rc_state ctx)) (so_ref opts)"
    and "rs_feedback s1 = rs_feedback (rc_state ctx) \<or>
         (\<exists>f e. rs_feedback s1 = map_set (rs_feedback (rc_state ctx)) f e \<and> fb_sourceReviewBlockRef e = so_ref opts)"
  shows "branch_state opts ctx (outcome_record oc a w fid (bstate (rc_state ctx) (so_ref opts))) s1"
proof (rule branch_from [OF sub])
  show "\<forall>p \<in> set (rs_feedback s1).
      p \<in> set (rs_feedback (rc_state ctx)) \<or> fb_sourceReviewBlockRef (snd p) = so_ref opts"
    using assms(4) set_map_set [of "rs_feedback (rc_state ctx)"] by fastforce
qed (use assms(2,3) outcome_record_facts in auto)

lemma verdict_states:
  assumes sub: "submittable mf opts ctx"
  defines "s \<equiv> rc_state ctx" and "ref \<equiv> so_ref opts"
  shows "branch_state opts ctx (outcome_record OutcomePassed a w fid (bstate s ref)) (passed_state ref a w s)"
    and "branch_state opts ctx (outcome_record OutcomeExhausted a w fid (bstate s ref)) (max_cycles_state ref a s)"
    and "branch_state opts ctx (outcome_record (OutcomeHookFailed m) a w fid (bstate s ref))
           (hook_failed_state ref a m s)"
    and "branch_state opts ctx (outcome_record (OutcomeFeedback content) a w (Some f) (bstate s ref))
           (feedback_opened_state ref a f content s)"
  unfolding s_def ref_def
  by (rule outcome_branch [OF sub];
      force simp: passed_state_def max_cycles_state_def hook_failed_state_def feedback_opened_state_def Let_def
        submittable_record(4) [OF sub])+

lemma nextFeedbackId_Inr:
  assumes "nextFeedbackId taskId s ws = (Inr fid, ws')"
  shows "\<not> map_has (rs_feedback s) fid" and "\<not> map_has (dir_of (wf_feedback ws) taskId) fid"
    and "matches_id ''FE'' fid"
    and "ws' = set_feedback_entry taskId fid (\<lambda>_. \<lparr>fd_artifact = None, fd_submissions = []\<rparr>) ws"
proof -
  let ?taken = "\<lambda>i. map_has (rs_feedback s) i \<or> map_has (dir_of (wf_feedback ws) taskId) i"
  let ?n = "max (length (map_keys (rs_feedback s))) (length (map_keys (dir_of (wf_feedback ws) taskId)))"
  from assms have f: "first_free (nextId ''FE'') ?taken ?n 1000 = Some fid"
    and w: "ws' = set_feedback_entry taskId fid (\<lambda>_. \<lparr>fd_artifact = None, fd_submissions = []\<rparr>) ws"
    by (auto simp: nextFeedbackId_def cmd_bind_Inr split: option.splits)
  from prefixed.first_free_Some [OF f] nextId_matches w
  show "\<not> map_has (rs_feedback s) fid" "\<not> map_has (dir_of (wf_feedback ws) taskId) fid"
    "matches_id ''FE'' fid" "ws' = set_feedback_entry taskId fid (\<lambda>_. \<lparr>fd_artifact = None, fd_submissions = []\<rparr>) ws"
    by auto
qed

lemma keeps_nextFeedbackId [keeps_rules]: "cmd_keeps files_ok (nextFeedbackId taskId s)"
  unfolding nextFeedbackId_def
  by (auto intro!: keeps_bind keeps_read keeps_lift keeps_return keeps_write simp: set_feedback_entry_def
      split: option.splits)

lemma feedback_entry_simps [simp]:
  "feedback_entry (set_feedback_entry t f h ws) t f = h (feedback_entry ws t f)"
  "feedback_entry (ws\<lparr>wf_state := s\<rparr>) t f = feedback_entry ws t f"
  "feedback_entry (ws\<lparr>wf_taskIndex := ti\<rparr>) t f = feedback_entry ws t f"
  "feedback_entry (ws\<lparr>wf_attempts := ad\<rparr>) t f = feedback_entry ws t f"
  "feedback_entry (ws\<lparr>wf_reviewIndex := rx\<rparr>) t f = feedback_entry ws t f"
  by (simp_all add: feedback_entry_def set_feedback_entry_def dir_of_def jm.get_put)

lemma readFeedback_simps [simp]:
  "readFeedbackArtifact (ws\<lparr>wf_state := s\<rparr>) t f = readFeedbackArtifact ws t f"
  "readFeedbackArtifact (ws\<lparr>wf_taskIndex := ti\<rparr>) t f = readFeedbackArtifact ws t f"
  by (simp_all add: readFeedbackArtifact_def)

lemma keeps_index_records [keeps_rules]:
  "cmd_keeps files_ok (recordFeedbackEnvelopeIndexes t r f st i)"
  "cmd_keeps files_ok (recordFeedbackSubmissionIndexes t f sid i)"
  "cmd_keeps files_ok (recordReviewAttemptIndexes r p w a i)"
  unfolding recordFeedbackEnvelopeIndexes_def recordFeedbackSubmissionIndexes_def recordReviewAttemptIndexes_def
  by (auto intro!: keeps_rules keeps_write)

lemma keeps_apply_verdict:
  assumes "submittable mf opts ctx"
  shows "cmd_keeps files_ok (apply_verdict env mf opts policy taskId parsed w a (rc_state ctx))"
proof -
  note st = verdict_states [OF assms]
  have "cmd_keeps files_ok (open_feedback env mf opts taskId a content (rc_state ctx))" for content
    unfolding open_feedback_def by (intro keeps_bind keeps_rules keeps_finish [OF assms st(4)])
  then show ?thesis
    unfolding apply_verdict_def Let_def
    by (auto intro!: keeps_bind keeps_index_ops keeps_finish [OF assms st(1)] keeps_finish [OF assms st(2)]
        keeps_finish [OF assms st(3)] split: sum.splits)
qed

lemma open_feedback_Inr:
  assumes sub: "submittable mf opts ctx" and s: "s = rc_state ctx"
    and run: "open_feedback env mf opts taskId a content s ws = (Inr res, ws')"
  shows "verdict_applied mf opts taskId s (OutcomeFeedback content) a w res ws'"
proof -
  from run obtain fid ws1 ws2 ws3 where n: "nextFeedbackId taskId s ws = (Inr fid, ws1)"
    and art: "writeFeedbackArtifact taskId \<lparr>fa_feedbackId = fid, fa_sourceReviewBlockRef = so_ref opts,
        fa_content = content, fa_sourceReviewAttemptId = a, fa_status = FOpen, fa_createdAt = re_now env,
        fa_latestSubmissionId = None, fa_resolvedAt = None\<rparr> ws1 = (Inr (), ws2)"
    and ix: "recordFeedbackEnvelopeIndexes taskId (so_ref opts) fid FOpen True ws2 = (Inr (), ws3)"
    and fin: "finish_review env mf opts a (feedback_opened_state (so_ref opts) a fid content s)
        (review_result_of opts a NeedsChanges (Some fid) BInProgress None) ws3 = (Inr res, ws')"
    unfolding open_feedback_def by (auto simp: cmd_bind_Inr)
  from finish_Inr [OF sub verdict_states(4) [OF sub] fin [unfolded s]] obtain s' where
    p: "res = review_result_of opts a NeedsChanges (Some fid) BInProgress None"
      "ws' = ws3\<lparr>wf_state := Some s'\<rparr>" "loaded_state mf ws' = Inr s'"
      "map_get (rs_blocks s') (so_ref opts) = Some (sealed_record (so_remote opts) a
         (outcome_record (OutcomeFeedback content) a w (Some fid) (bstate s (so_ref opts))))"
      "\<forall>q. q \<noteq> so_ref opts \<longrightarrow> same_record s s' q"
      "rs_currentRefs s' = rs_currentRefs (feedback_opened_state (so_ref opts) a fid content s)"
      "rs_feedback s' = rs_feedback (feedback_opened_state (so_ref opts) a fid content s)" unfolding s by blast
  have "readFeedbackArtifact ws' taskId fid = Inr \<lparr>fa_feedbackId = fid, fa_sourceReviewBlockRef = so_ref opts,
        fa_content = content, fa_sourceReviewAttemptId = a, fa_status = FOpen, fa_createdAt = re_now env,
        fa_latestSubmissionId = None, fa_resolvedAt = None\<rparr>"
    using art ix p(2) by (auto simp: writeFeedbackArtifact_def recordFeedbackEnvelopeIndexes_def
        updateTaskIndex_def readFeedbackArtifact_def split: if_splits)
  with p nextFeedbackId_Inr(1) [OF n] show ?thesis
    by (auto simp: verdict_applied_def review_result_of_def feedback_opened_state_def Let_def)
qed

lemma apply_verdict_Inr:
  assumes sub: "submittable mf opts ctx" and s: "s = rc_state ctx"
    and run: "apply_verdict env mf opts policy taskId parsed w a s ws = (Inr res, ws')"
  shows "verdict_applied mf opts taskId s
     (outcome_of (re_runHook env) policy parsed (feedback_count (so_ref opts) s)) a w res ws'"
proof -
  let ?count = "feedback_count (so_ref opts) s"
  note st = verdict_states [OF sub]
  have quiet: "verdict_applied mf opts taskId s oc a w res ws'"
    if br: "branch_state opts ctx (outcome_record oc a w None (bstate s (so_ref opts))) s1"
      and fin: "finish_review env mf opts a s1 (review_result_of opts a vd None (outcome_status oc) cr) ws1 = (Inr res, ws')"
      and ptr: "rs_currentRefs s1 = without_ref (rs_currentRefs s) (so_ref opts)" "rs_feedback s1 = rs_feedback s"
      and oc: "\<And>x. oc \<noteq> OutcomeFeedback x"
    for oc s1 vd cr ws1
  proof -
    from finish_Inr [OF sub br [unfolded s] fin] obtain s' where
      "res = review_result_of opts a vd None (outcome_status oc) cr" "loaded_state mf ws' = Inr s'"
      "map_get (rs_blocks s') (so_ref opts) = Some (sealed_record (so_remote opts) a
         (outcome_record oc a w None (bstate s (so_ref opts))))"
      "\<forall>q. q \<noteq> so_ref opts \<longrightarrow> same_record s s' q"
      "rs_currentRefs s' = rs_currentRefs s1" "rs_feedback s' = rs_feedback s1" unfolding s by blast
    with ptr oc show ?thesis
      by (auto simp: verdict_applied_def review_result_of_def split: review_outcome.split)
  qed
  show ?thesis
  proof (cases "outcome_of (re_runHook env) policy parsed ?count")
    case OutcomePassed
    with run show ?thesis
      by (auto simp: outcome_of_def apply_verdict_def Let_def cmd_bind_Inr s passed_state_def
          intro!: quiet [unfolded s, OF st(1)] split: if_splits option.splits sum.splits)
  next
    case OutcomeExhausted
    with run show ?thesis
      by (auto simp: outcome_of_def apply_verdict_def maxFeedbackCyclesReached_def Let_def cmd_bind_Inr s
          max_cycles_state_def intro!: quiet [unfolded s, OF st(2)] split: if_splits option.splits sum.splits)
  next
    case (OutcomeHookFailed m)
    with run show ?thesis
      by (auto simp: outcome_of_def apply_verdict_def maxFeedbackCyclesReached_def executeReviewHook_def Let_def
          hook_failed_state_def s intro!: quiet [unfolded s, OF st(3)] split: if_splits option.splits sum.splits)
  next
    case (OutcomeFeedback content)
    with run have "open_feedback env mf opts taskId a content s ws = (Inr res, ws')"
      by (auto simp: outcome_of_def apply_verdict_def maxFeedbackCyclesReached_def executeReviewHook_def Let_def
          split: if_splits option.splits sum.splits)
    from open_feedback_Inr [OF sub s this] OutcomeFeedback show ?thesis by simp
  qed
qed

lemma resumed_states:
  assumes sub: "submittable mf opts ctx"
  shows "\<exists>b1. branch_state opts ctx b1 (resumed_feedback_state (so_ref opts) a art (rc_state ctx))"
    and "\<exists>b1. branch_state opts ctx b1 (resumed_exhausted_state (so_ref opts) a (rc_state ctx))"
proof -
  let ?s = "rc_state ctx" and ?ref = "so_ref opts"
  let ?b = "(bstate ?s ?ref)\<lparr>bs_status := BInProgress, bs_latestReviewAttemptId := Some a,
      bs_activeFeedbackId := (if isActiveFeedbackStatus (fa_status art) then Some (fa_feedbackId art) else None),
      bs_pendingFeedbackId := (if fa_status art = FResolved then Some (fa_feedbackId art) else None),
      bs_completionReason := None\<rparr>"
  have "branch_state opts ctx ?b (resumed_feedback_state ?ref a art ?s)"
  proof (rule branch_from [OF sub])
    show "\<forall>p \<in> set (rs_feedback (resumed_feedback_state ?ref a art ?s)).
        p \<in> set (rs_feedback ?s) \<or> fb_sourceReviewBlockRef (snd p) = ?ref"
      by (auto simp: resumed_feedback_state_def Let_def dest!: set_map_set [THEN subsetD])
  qed (auto simp: resumed_feedback_state_def Let_def same_remote_def submittable_record(4) [OF sub])
  then show "\<exists>b1. branch_state opts ctx b1 (resumed_feedback_state ?ref a art ?s)" by blast
  have "branch_state opts ctx ((bstate ?s ?ref)\<lparr>bs_status := BCompleted, bs_latestReviewAttemptId := Some a,
      bs_activeFeedbackId := None, bs_pendingFeedbackId := None, bs_blockedReason := None,
      bs_completionReason := Some MaxCyclesReached\<rparr>) (resumed_exhausted_state ?ref a ?s)"
    by (rule branch_from [OF sub])
      (auto simp: resumed_exhausted_state_def same_remote_def submittable_record(4) [OF sub])
  then show "\<exists>b1. branch_state opts ctx b1 (resumed_exhausted_state ?ref a ?s)" by blast
qed

lemma keeps_resumed:
  assumes "submittable mf opts ctx"
  shows "cmd_keeps files_ok (finish_review env mf opts a (resumed_feedback_state (so_ref opts) a art (rc_state ctx)) r)"
    and "cmd_keeps files_ok (finish_review env mf opts a (resumed_exhausted_state (so_ref opts) a (rc_state ctx)) r)"
  using resumed_states [OF assms, of a] keeps_finish [OF assms] by metis+

lemma keeps_writeReviewAttempt [keeps_rules]:
  "cmd_keeps files_ok (writeReviewAttempt now ref parsed w h path)"
  unfolding writeReviewAttempt_def
  by (auto intro!: keeps_bind keeps_lift keeps_read keeps_write keeps_return keeps_index_records split: prod.splits)

lemma submittableI:
  assumes "context_ok mf ctx" and "getBlock (rc_graph ctx) (so_ref opts) = Inr block" and "mb_type block = Review"
    and "requireBlockState (rc_state ctx) (so_ref opts) = Inr b"
    and "review_guard (so_ref opts) (so_remote opts) b = Inr u"
    and "so_remote opts \<noteq> None \<Longrightarrow> bs_remoteOperationReceipt b = None"
  shows "submittable mf opts ctx"
proof -
  have b: "map_get (rs_blocks (rc_state ctx)) (so_ref opts) = Some b"
    using assms(4) by (simp add: requireBlockState_Inr)
  have "block = block_of (rc_graph ctx) (so_ref opts)" using assms(1,2) by (rule getBlock_block_of)
  with assms b context_block_known(1) [OF assms(1) b] show ?thesis
    by (simp add: submittable_def bstate_def)
qed

lemma keeps_case:
  "(x = None \<Longrightarrow> cmd_keeps I c) \<Longrightarrow> (\<And>y. x = Some y \<Longrightarrow> cmd_keeps I (f y)) \<Longrightarrow>
   cmd_keeps I (case x of None \<Rightarrow> c | Some y \<Rightarrow> f y)"
  "cmd_keeps I (case p of (y, z) \<Rightarrow> h y z) = cmd_keeps I (h (fst p) (snd p))"
  by (cases x; simp) (simp add: case_prod_unfold)

lemma keeps_process_review:
  assumes sub: "submittable mf opts ctx"
  shows "cmd_keeps files_ok (process_review env mf opts policy taskId parsed (rc_graph ctx) (rc_state ctx))"
  unfolding process_review_def Let_def
  by (auto intro!: keeps_lift keeps_bind keeps_read keeps_writeReviewAttempt
      keeps_index_records keeps_resumed [OF sub] keeps_apply_verdict [OF sub] split: option.split)

lemma submitReview_keeps: "cmd_keeps files_ok (submitReviewResultLocked env mf opts parsed)"
  unfolding submitReviewResultLocked_def Let_def
proof (rule keeps_after_load(1), goal_cases)
  case (1 ctx)
  have "cmd_keeps files_ok (process_review env mf opts policy taskId parsed (rc_graph ctx) (rc_state ctx))"
    if "getBlock (rc_graph ctx) (so_ref opts) = Inr block" "mb_type block = Review"
      "requireBlockState (rc_state ctx) (so_ref opts) = Inr b"
      "review_guard (so_ref opts) (so_remote opts) b = Inr u" "found_receipt opts b = None"
    for block b u policy taskId
    using that by (intro keeps_process_review submittableI [OF 1 that(1-4)])
      (auto simp: found_receipt_def split: option.splits)
  then show ?case
    by (intro keeps_lift keeps_lift_bind keeps_if keeps_case(1)) (simp_all add: keeps_case(2) keeps_lift)
qed

text \<open>Submitting feedback sets the source review running again, so it must carry no remote record.\<close>

definition feedback_source_local :: "runtime_state \<Rightarrow> bool" where
  "feedback_source_local s \<longleftrightarrow>
     (\<forall>fid fb b. rs_currentFeedbackId s = Some fid \<longrightarrow> map_get (rs_feedback s) fid = Some fb \<longrightarrow>
        map_get (rs_blocks s) (fb_sourceReviewBlockRef fb) = Some b \<longrightarrow>
        bs_remoteOwnership b = None \<and> bs_remoteInterruption b = None \<and> bs_remoteOperationReceipt b = None)"

lemma keeps_write_submission [keeps_rules]: "cmd_keeps files_ok (write_submission now h t f r report)"
  unfolding write_submission_def set_feedback_entry_def Let_def
  by (auto intro!: keeps_bind keeps_read keeps_lift keeps_return keeps_write split: prod.split)

lemma feedback_submitted_valid:
  assumes "runtimeState_valid s" and "feedback_source_local s" and "rs_currentFeedbackId s = Some fid"
    and "map_get (rs_feedback s) fid = Some fb"
  shows "runtimeState_valid (feedback_submitted fid fb sid s)"
proof -
  let ?src = "fb_sourceReviewBlockRef fb"
  have "blockState_valid ((block_or_absent s ?src)\<lparr>bs_status := BInProgress, bs_activeFeedbackId := None,
      bs_pendingFeedbackId := Some fid\<rparr>)"
  proof (cases "map_get (rs_blocks s) ?src")
    case None
    then show ?thesis by (simp add: block_or_absent_def fresh_block_def block_valid_simps)
  next
    case (Some b)
    with assms have "blockState_valid b" "bs_remoteOwnership b = None" "bs_remoteInterruption b = None"
      "bs_remoteOperationReceipt b = None" by (auto simp: feedback_source_local_def dest: runtimeState_valid_get)
    with Some show ?thesis by (simp add: block_or_absent_def block_valid_simps)
  qed
  from with_block_valid [OF assms(1) this, of ?src] show ?thesis
    by (simp add: feedback_submitted_def Let_def runtimeState_valid_def)
qed

lemma submitFeedback_keeps:
  assumes "files_ok ws" and "\<And>s. loaded_state mf ws = Inr s \<Longrightarrow> feedback_source_local s"
  shows "files_ok (snd (submitFeedbackFromBytes now h mf report ws))"
proof (cases "loadRuntime mf ws")
  case (Pair r ws1)
  have ok1: "files_ok ws1" using cmd_keepsD [OF keeps_loadRuntime assms(1), of mf] Pair by simp
  show ?thesis
  proof (cases r)
    case (Inl e)
    with Pair ok1 show ?thesis by (simp add: submitFeedbackFromBytes_def cmd_bind_def)
  next
    case (Inr ctx)
    note ld = loadRuntime_Inr [OF Pair [unfolded Inr]]
    have loc: "feedback_source_local (rc_state ctx)" by (rule assms(2) [OF loaded_state_context [OF ld(1,2)]])
    have "cmd_keeps files_ok (process_feedback now h mf report (rc_state ctx) t fid fb)"
      if "rs_currentFeedbackId (rc_state ctx) = Some fid" "map_get (rs_feedback (rc_state ctx)) fid = Some fb" for t fid fb
      unfolding process_feedback_def
      by (intro keeps_bind keeps_read keeps_lift keeps_saveState keeps_return keeps_index_records keeps_artifact_ops
          feedback_submitted_valid [OF context_okD(3) [OF ld(1)] loc that])
        (auto intro: keeps_rules split: option.split)
    from cmd_keepsD [OF this ok1] show ?thesis
      using Pair Inr ok1
      by (auto simp: submitFeedbackFromBytes_def cmd_bind_def cmd_lift_def Let_def truthy_def split: option.splits if_splits)
  qed
qed

section \<open>The first submission of a review result\<close>

lemma keeps_attempts:
  fixes A :: "(string, (string, attempt_dir) js_map) js_map"
  defines "I \<equiv> \<lambda>ws. wf_attempts ws = A"
  shows "cmd_keeps I (saveState mf s)" and "cmd_keeps I (updateTaskIndex t f)"
    and "cmd_keeps I (writeFeedbackArtifact t art)" and "cmd_keeps I (nextFeedbackId t s)"
    and "cmd_keeps I (finish_review env mf opts a s r)"
    and "cmd_keeps I (apply_verdict env mf opts policy taskId parsed w a s)"
proof -
  show save: "cmd_keeps I (saveState mf s)" for s
    by (rule cmd_keepsI) (auto simp: I_def saveState_def refreshDerivedState_def cmd_defs writeState_def split: sum.splits)
  show upd: "cmd_keeps I (updateTaskIndex t f)" for t f
    unfolding updateTaskIndex_def by (rule keeps_write) (simp add: I_def)
  show art: "cmd_keeps I (writeFeedbackArtifact t art)" for t art
    unfolding writeFeedbackArtifact_def set_feedback_entry_def
    by (auto intro!: keeps_lift keeps_write simp: I_def)
  show nxt: "cmd_keeps I (nextFeedbackId t s)" for t s
    unfolding nextFeedbackId_def set_feedback_entry_def
    by (auto intro!: keeps_bind keeps_read keeps_lift keeps_return keeps_write simp: I_def split: option.split)
  show fin: "cmd_keeps I (finish_review env mf opts a s r)" for s r
    unfolding finish_review_def by (intro keeps_bind keeps_lift keeps_return save)
  have "cmd_keeps I (open_feedback env mf opts taskId a content s)" for content
    unfolding open_feedback_def recordFeedbackEnvelopeIndexes_def by (intro keeps_bind nxt art upd fin)
  then show "cmd_keeps I (apply_verdict env mf opts policy taskId parsed w a s)"
    unfolding apply_verdict_def Let_def recordReviewCompletionReason_def
    by (auto intro!: keeps_bind upd fin split: sum.split)
qed

lemma writeReviewAttempt_Inr:
  assumes "writeReviewAttempt now ref parsed w h path ws = (Inr a, ws')"
  shows "\<not> map_has (dir_of (wf_attempts ws) ref) a"
    and "\<exists>d. map_get (dir_of (wf_attempts ws') ref) a = Some d \<and> ad_result d = Some parsed"
    and "wf_feedback ws' = wf_feedback ws" and "matches_id ''REV'' a"
proof -
  from assms obtain entries' where al: "allocatePrefixedId (dir_of (wf_attempts ws) ref) ''REV''
      \<lparr>ad_metadata = None, ad_result = None\<rparr> = Inr (a, entries')"
    and get: "\<exists>d. map_get (dir_of (wf_attempts ws') ref) a = Some d \<and> ad_result d = Some parsed"
    and fb: "wf_feedback ws' = wf_feedback ws"
    by (auto simp: writeReviewAttempt_def recordReviewAttemptIndexes_def updateTaskIndex_def cmd_bind_Inr
        dir_of_def jm.get_put)
  from allocate_spec [OF al] get fb show "\<not> map_has (dir_of (wf_attempts ws) ref) a"
    "\<exists>d. map_get (dir_of (wf_attempts ws') ref) a = Some d \<and> ad_result d = Some parsed"
    "wf_feedback ws' = wf_feedback ws" "matches_id ''REV'' a" by auto
qed

text \<open>What a command that is not the replay of a remote completion passed before it writes.\<close>

lemma submitReview_InrE:
  assumes run: "submitReviewResultLocked env mf opts parsed ws = (Inr res, ws')"
    and s: "loaded_state mf ws = Inr s" and g: "compileTaskGraph mf = Inr g"
    and new: "found_receipt opts (bstate s (so_ref opts)) = None"
  obtains ctx ws1 where "submittable mf opts ctx" and "rc_graph ctx = g" and "rc_state ctx = s"
    and "ws1\<lparr>wf_state := wf_state ws\<rparr> = ws"
    and "process_review env mf opts (mb_review (block_of g (so_ref opts))) (rv_taskId parsed) parsed g s ws1 = (Inr res, ws')"
proof -
  let ?ref = "so_ref opts"
  from run obtain ctx ws1 where ld: "loadRuntime mf ws = (Inr ctx, ws1)"
    by (auto simp: submitReviewResultLocked_def cmd_bind_Inr Let_def)
  note ctx = loadRuntime_Inr [OF ld]
  have gs: "rc_graph ctx = g" "rc_state ctx = s"
    using context_okD(1) [OF ctx(1)] g loaded_state_context [OF ctx(1,2)] s by simp_all
  from run ld gs obtain tb block b where
    pre: "parseBlockRef ?ref = Inr tb" "getBlock g ?ref = Inr block" "mb_type block = Review"
      "rv_taskId parsed = fst tb" "requireBlockState s ?ref = Inr b"
    and go: "(case found_receipt opts b of
        Some (identity, receipt) \<Rightarrow> cmd_lift (review_replay env ?ref identity parsed b receipt)
      | None \<Rightarrow>
          cmd_bind (cmd_lift (review_guard ?ref (so_remote opts) b)) (\<lambda>_.
          process_review env mf opts (mb_review block) (fst tb) parsed g s)) ws1 = (Inr res, ws')"
    by (auto simp: submitReviewResultLocked_def cmd_bind_Inr Let_def split: if_splits)
  have b: "b = bstate s ?ref" using pre(5) by (simp add: requireBlockState_Inr bstate_def)
  have bl: "block = block_of g ?ref" using getBlock_block_of [OF ctx(1)] gs pre(2) by simp
  from go new b have gd: "review_guard ?ref (so_remote opts) b = Inr ()"
    and pr: "process_review env mf opts (mb_review (block_of g ?ref)) (rv_taskId parsed) parsed g s ws1 = (Inr res, ws')"
    using bl pre(4) by (auto simp: cmd_bind_Inr)
  have rcp: "so_remote opts \<noteq> None \<Longrightarrow> bs_remoteOperationReceipt b = None"
    using new b by (auto simp: found_receipt_def split: option.splits)
  have "submittable mf opts ctx"
    by (rule submittableI [OF ctx(1), unfolded gs, OF pre(2,3,5) gd rcp])
  moreover have "ws1\<lparr>wf_state := wf_state ws\<rparr> = ws" using ctx(3) by auto
  ultimately show thesis using gs pr by (intro that)
qed

lemma history_state [simp]: "read_history env (ws\<lparr>wf_state := x\<rparr>) ref t p = read_history env ws ref t p"
proof -
  have eqs: "findPersistedReviewAttempt h (ws\<lparr>wf_state := x\<rparr>) = findPersistedReviewAttempt h ws"
    "findFeedbackForReviewAttempt (ws\<lparr>wf_state := x\<rparr>) = findFeedbackForReviewAttempt ws"
    "reviewCompletionReasonForAttempt (ws\<lparr>wf_state := x\<rparr>) = reviewCompletionReasonForAttempt ws" for h
    by (simp_all add: fun_eq_iff findPersistedReviewAttempt_def findFeedbackForReviewAttempt_def
        reviewCompletionReasonForAttempt_def readTaskIndex_def)
  show ?thesis unfolding read_history_def eqs ..
qed

lemma first_submission:
  assumes run: "submitReviewResultLocked env mf opts parsed ws = (Inr res, ws')"
    and s: "loaded_state mf ws = Inr s" and g: "compileTaskGraph mf = Inr g"
    and new: "found_receipt opts (bstate s (so_ref opts)) = None"
    and first: "findPersistedReviewAttempt (re_resultHash env) ws (so_ref opts) (re_resultHash env parsed) = Inr None"
  shows "\<exists>a w. computeWorkRevision (re_workHash env) g s (so_ref opts) = Inr w \<and>
     \<not> map_has (dir_of (wf_attempts ws) (so_ref opts)) a \<and>
     (\<exists>d. map_get (dir_of (wf_attempts ws') (so_ref opts)) a = Some d \<and> ad_result d = Some parsed) \<and>
     verdict_applied mf opts (rv_taskId parsed) s
       (outcome_of (re_runHook env) (mb_review (block_of g (so_ref opts))) parsed (feedback_count (so_ref opts) s))
       a w res ws'"
proof -
  let ?policy = "mb_review (block_of g (so_ref opts))"
  from submitReview_InrE [OF run s g new] obtain ctx ws1 where sub: "submittable mf opts ctx"
    and gs: "rc_graph ctx = g" "rc_state ctx = s" and ws1: "ws1\<lparr>wf_state := wf_state ws\<rparr> = ws"
    and pr: "process_review env mf opts ?policy (rv_taskId parsed) parsed g s ws1 = (Inr res, ws')" .
  have "read_history env (ws1\<lparr>wf_state := wf_state ws\<rparr>) (so_ref opts) (rv_taskId parsed) parsed =
      Inr \<lparr>rh_attempt = None, rh_feedback = None, rh_reason = None\<rparr>"
    unfolding ws1 using first by (simp add: read_history_def)
  then have h: "read_history env ws1 (so_ref opts) (rv_taskId parsed) parsed =
      Inr \<lparr>rh_attempt = None, rh_feedback = None, rh_reason = None\<rparr>" by simp
  from pr h obtain w a ws2 where w: "computeWorkRevision (re_workHash env) g s (so_ref opts) = Inr w"
    and wr: "writeReviewAttempt (re_now env) (so_ref opts) parsed w (re_resultHash env parsed)
        (so_resultPath opts) ws1 = (Inr a, ws2)"
    and ap: "apply_verdict env mf opts ?policy (rv_taskId parsed) parsed w a s ws2 = (Inr res, ws')"
    by (auto simp: process_review_def Let_def cmd_bind_Inr reuse_attempt_def)
  have "wf_attempts ws' = wf_attempts ws2"
    using cmd_keepsD [OF keeps_attempts(6), of ws2 "wf_attempts ws2"] ap by (metis snd_conv)
  moreover have "wf_attempts ws1 = wf_attempts ws" using arg_cong [OF ws1, of wf_attempts] by simp
  ultimately show ?thesis
    using w writeReviewAttempt_Inr [OF wr] apply_verdict_Inr [OF sub gs(2) [symmetric] ap] by auto
qed

section \<open>A feedback submission that is repeated\<close>

lemma find_res_None: "find_res p xs = Inr None \<longleftrightarrow> (\<forall>x \<in> set xs. p x = Inr False)"
  by (induction xs) (auto simp: try_bind_def split: sum.splits)

lemma find_res_only:
  assumes "y \<in> set xs" and "p y = Inr True" and "\<And>x. x \<in> set xs \<Longrightarrow> x \<noteq> y \<Longrightarrow> p x = Inr False"
  shows "find_res p xs = Inr (Some y)"
  using assms(1,3)
proof (induction xs)
  case (Cons x xs)
  then show ?case using assms(2) by (cases "x = y") auto
qed simp

lemma find_res_Some: "find_res p xs = Inr (Some y) \<Longrightarrow> y \<in> set xs"
  by (induction xs) (auto elim!: try_bind_InrE split: if_splits)

lemma set_sorted_ids [simp]: "set (sorted_ids prefix m) = {k. map_has m k \<and> matches_id prefix k}"
  by (auto simp: sorted_ids_def)

lemma matches_id_nonempty: "matches_id prefix i \<Longrightarrow> i \<noteq> []"
  by (auto simp: matches_id_def Let_def)

text \<open>After a submission was written, the search finds it.\<close>

lemma find_after_write:
  assumes none: "findPersistedFeedbackSubmission h entries fid src (h report) = Inr None"
    and alloc: "allocatePrefixedId entries ''FS'' d0 = Inr (sid, entries')"
    and m: "sd_metadata d = Some \<lparr>sm_feedbackId = Some fid, sm_submissionId = Some sid,
        sm_sourceReviewBlockRef = Some src, sm_reportHash = Some (h report), sm_submittedAt = Some now\<rparr>"
      "sd_report d = Some report"
    and ne: "fid \<noteq> []" "src \<noteq> []" "h report \<noteq> []" "now \<noteq> []"
  shows "findPersistedFeedbackSubmission h (map_set entries' sid d) fid src (h report) = Inr (Some sid)"
proof -
  note al = allocate_spec [OF alloc]
  have sid: "sid \<noteq> []" using matches_id_nonempty [OF al(3)] .
  have e: "map_set entries' sid d = map_set entries sid d" by (simp add: al(2) map_set_set)
  have get: "map_get (map_set entries' sid d) k = (if k = sid then Some d else map_get entries k)" for k
    by (simp add: e jm.get_put)
  show ?thesis
    unfolding findPersistedFeedbackSubmission_def
  proof (rule find_res_only)
    show "sid \<in> set (rev (sorted_ids ''FS'' (map_set entries' sid d)))"
      using al(3) get [of sid] by (simp add: map_has_get)
    show "(case map_get (map_set entries' sid d) sid of None \<Rightarrow> Inr False
        | Some d \<Rightarrow> feedbackSubmissionMatches h d fid sid src (h report)) = Inr True"
      using ne sid by (simp add: get feedbackSubmissionMatches_def m submissionMetadata_valid_def)
  next
    fix x
    assume "x \<in> set (rev (sorted_ids ''FS'' (map_set entries' sid d)))" "x \<noteq> sid"
    then have "x \<in> set (rev (sorted_ids ''FS'' entries))" using get [of x] by (simp add: map_has_get)
    with none \<open>x \<noteq> sid\<close> show "(case map_get (map_set entries' sid d) x of None \<Rightarrow> Inr False
        | Some d \<Rightarrow> feedbackSubmissionMatches h d fid x src (h report)) = Inr False"
      unfolding findPersistedFeedbackSubmission_def find_res_None get by auto
  qed
qed

lemma find_submission_id:
  assumes "findPersistedFeedbackSubmission h entries fid src r = Inr (Some sid)"
  shows "sid \<noteq> []"
  using find_res_Some [OF assms [unfolded findPersistedFeedbackSubmission_def]] matches_id_nonempty by auto

text \<open>The index entry that a repeated submission would write is there already.\<close>

lemma record_submission_again:
  assumes "recordFeedbackSubmissionIndexes t fid sid i ws = (Inr (), ws')"
  shows "recordFeedbackSubmissionIndexes t fid sid False (ws'\<lparr>wf_state := x, wf_feedback := y\<rparr>) =
     (Inr (), ws'\<lparr>wf_state := x, wf_feedback := y\<rparr>)"
proof -
  obtain ix where ix: "wf_taskIndex ws' = map_set (wf_taskIndex ws) t (ix
      \<lparr>ti_latestFeedbackSubmissionByFeedback := map_set (ti_latestFeedbackSubmissionByFeedback ix) fid sid,
       ti_feedbackStatusById := map_set (ti_feedbackStatusById ix) fid FResolved,
       ti_counts := (if i then incrementTaskIndexCount ix FeedbackSubmissionsField else ti_counts ix)\<rparr>)"
    using assms by (auto simp: recordFeedbackSubmissionIndexes_def updateTaskIndex_def)
  let ?upd = "\<lambda>index. index
      \<lparr>ti_latestFeedbackSubmissionByFeedback := map_set (ti_latestFeedbackSubmissionByFeedback index) fid sid,
       ti_feedbackStatusById := map_set (ti_feedbackStatusById index) fid FResolved,
       ti_counts := ti_counts index\<rparr>"
  have same: "map_set (wf_taskIndex ws') t (?upd (readTaskIndex ws' t)) = wf_taskIndex ws'"
    by (simp add: ix readTaskIndex_def jm.get_put map_set_set)
  have rd: "readTaskIndex (ws'\<lparr>wf_state := x, wf_feedback := y\<rparr>) t = readTaskIndex ws' t"
    by (simp add: readTaskIndex_def)
  show ?thesis
    unfolding recordFeedbackSubmissionIndexes_def updateTaskIndex_def cmd_write_def rd
    using same by (cases ws') simp
qed

lemma patchFeedback_Inr:
  "patchFeedbackArtifact t f p ws = (Inr u, ws') \<longleftrightarrow>
     (\<exists>a. readFeedbackArtifact ws t f = Inr a \<and>
        ws' = set_feedback_entry t f (\<lambda>d. d\<lparr>fd_artifact := Some (apply_patch p a)\<rparr>) ws)"
  by (auto simp: patchFeedbackArtifact_def cmd_bind_Inr)

text \<open>The files agree on everything a repeated submission must not change: the state, the indexes, the
  reviews and the stored submissions (the time of resolution may differ).\<close>

definition same_submission :: "workspace_files \<Rightarrow> workspace_files \<Rightarrow> bool" where
  "same_submission ws ws' \<longleftrightarrow>
     wf_state ws' = wf_state ws \<and> wf_taskIndex ws' = wf_taskIndex ws \<and> wf_attempts ws' = wf_attempts ws \<and>
     wf_reviewIndex ws' = wf_reviewIndex ws \<and> wf_runs ws' = wf_runs ws \<and>
     (\<forall>t f. fd_submissions (feedback_entry ws' t f) = fd_submissions (feedback_entry ws t f))"

lemma fd_submissions_artifact [simp]:
  "fd_submissions (feedback_entry (set_feedback_entry t f (\<lambda>d. d\<lparr>fd_artifact := a\<rparr>) ws) t' f') =
     fd_submissions (feedback_entry ws t' f')"
  by (simp add: feedback_entry_def set_feedback_entry_def dir_of_def jm.get_put split: option.splits)

lemma set_feedback_frame [simp]:
  "wf_state (set_feedback_entry t f h ws) = wf_state ws" "wf_taskIndex (set_feedback_entry t f h ws) = wf_taskIndex ws"
  "wf_attempts (set_feedback_entry t f h ws) = wf_attempts ws"
  "wf_reviewIndex (set_feedback_entry t f h ws) = wf_reviewIndex ws"
  "wf_runs (set_feedback_entry t f h ws) = wf_runs ws"
  by (simp_all add: set_feedback_entry_def)

lemma process_feedback_InrE:
  assumes run: "process_feedback now h mf report s t fid fb ws = (Inr r, ws1)"
    and ne: "fid \<noteq> []" "fb_sourceReviewBlockRef fb \<noteq> []" "h report \<noteq> []" "now \<noteq> []"
  obtains sid i wsA wsB a s' where "r = \<lparr>sf_feedbackId = fid, sf_submissionId = sid\<rparr>" and "sid \<noteq> []"
    and "recordFeedbackSubmissionIndexes t fid sid i wsA = (Inr (), wsB)"
    and "findPersistedFeedbackSubmission h (fd_submissions (feedback_entry wsB t fid)) fid
           (fb_sourceReviewBlockRef fb) (h report) = Inr (Some sid)"
    and "readFeedbackArtifact wsB t fid = Inr a"
    and "ensureStateForManifest mf (feedback_submitted fid fb sid s) = Inr s'"
    and "ws1 = (set_feedback_entry t fid (\<lambda>d. d\<lparr>fd_artifact := Some (apply_patch
           \<lparr>ap_status = FResolved, ap_latestSubmissionId = Some sid, ap_resolvedAt = Some now\<rparr> a)\<rparr>) wsB)
           \<lparr>wf_state := Some s'\<rparr>"
proof -
  let ?find = "\<lambda>w. findPersistedFeedbackSubmission h (fd_submissions (feedback_entry w t fid)) fid
      (fb_sourceReviewBlockRef fb) (h report)"
  from run obtain persisted sid wsA wsB a s' where p: "?find ws = Inr persisted"
    and sub: "(case persisted of Some sid \<Rightarrow> cmd_return sid
        | None \<Rightarrow> write_submission now h t fid (fb_sourceReviewBlockRef fb) report) ws = (Inr sid, wsA)"
    and ix: "recordFeedbackSubmissionIndexes t fid sid (persisted = None) wsA = (Inr (), wsB)"
    and art: "readFeedbackArtifact wsB t fid = Inr a"
    and rest: "ensureStateForManifest mf (feedback_submitted fid fb sid s) = Inr s'"
      "ws1 = (set_feedback_entry t fid (\<lambda>d. d\<lparr>fd_artifact := Some (apply_patch
         \<lparr>ap_status = FResolved, ap_latestSubmissionId = Some sid, ap_resolvedAt = Some now\<rparr> a)\<rparr>) wsB)
         \<lparr>wf_state := Some s'\<rparr>" "r = \<lparr>sf_feedbackId = fid, sf_submissionId = sid\<rparr>"
    by (auto simp: process_feedback_def cmd_bind_Inr patchFeedback_Inr saveState_Inr)
  have B: "feedback_entry wsB t fid = feedback_entry wsA t fid"
    using ix by (auto simp: recordFeedbackSubmissionIndexes_def updateTaskIndex_def)
  have found: "?find wsA = Inr (Some sid) \<and> sid \<noteq> []"
  proof (cases persisted)
    case (Some x)
    with sub p find_submission_id show ?thesis by auto
  next
    case None
    with sub obtain entries' where al: "allocatePrefixedId (fd_submissions (feedback_entry ws t fid)) ''FS''
        \<lparr>sd_metadata = None, sd_report = None\<rparr> = Inr (sid, entries')"
      and A: "fd_submissions (feedback_entry wsA t fid) = map_set entries' sid
        \<lparr>sd_metadata = Some \<lparr>sm_feedbackId = Some fid, sm_submissionId = Some sid,
           sm_sourceReviewBlockRef = Some (fb_sourceReviewBlockRef fb), sm_reportHash = Some (h report),
           sm_submittedAt = Some now\<rparr>, sd_report = Some report\<rparr>"
      by (auto simp: write_submission_def cmd_bind_Inr split: prod.splits)
    show ?thesis
      using find_after_write [OF p [unfolded None] al _ _ ne] matches_id_nonempty [OF allocate_spec(3) [OF al]]
      unfolding A by simp
  qed
  from that [OF rest(3) _ ix _ art rest(1,2)] found B show thesis by simp
qed

lemma process_feedback_again:
  assumes run: "process_feedback now h mf report s t fid fb ws = (Inr r, ws1)"
    and ne: "fid \<noteq> []" "fb_sourceReviewBlockRef fb \<noteq> []" "h report \<noteq> []" "now \<noteq> []"
  shows "\<exists>ws2. process_feedback now' h mf report s t fid fb (ws1\<lparr>wf_state := x\<rparr>) = (Inr r, ws2) \<and>
     same_submission ws1 ws2"
proof (rule process_feedback_InrE [OF run ne])
  fix sid i wsA wsB a s'
  assume r: "r = \<lparr>sf_feedbackId = fid, sf_submissionId = sid\<rparr>" and sid: "sid \<noteq> []"
    and ix: "recordFeedbackSubmissionIndexes t fid sid i wsA = (Inr (), wsB)"
    and found: "findPersistedFeedbackSubmission h (fd_submissions (feedback_entry wsB t fid)) fid
        (fb_sourceReviewBlockRef fb) (h report) = Inr (Some sid)"
    and art: "readFeedbackArtifact wsB t fid = Inr a"
    and e: "ensureStateForManifest mf (feedback_submitted fid fb sid s) = Inr s'"
    and ws1: "ws1 = (set_feedback_entry t fid (\<lambda>d. d\<lparr>fd_artifact := Some (apply_patch
         \<lparr>ap_status = FResolved, ap_latestSubmissionId = Some sid, ap_resolvedAt = Some now\<rparr> a)\<rparr>) wsB)
         \<lparr>wf_state := Some s'\<rparr>"
  let ?p = "\<lambda>n. \<lparr>ap_status = FResolved, ap_latestSubmissionId = Some sid, ap_resolvedAt = Some n\<rparr>"
  let ?w = "ws1\<lparr>wf_state := x\<rparr>"
  have "feedbackArtifact_valid a"
    using art by (auto simp: readFeedbackArtifact_def split: option.splits if_splits)
  then have "feedbackArtifact_valid (apply_patch (?p now) a)"
    using sid by (simp add: feedbackArtifact_valid_def apply_patch_def)
  then have ra: "readFeedbackArtifact ?w t fid = Inr (apply_patch (?p now) a)"
    by (simp add: ws1 readFeedbackArtifact_def)
  have "?w = wsB\<lparr>wf_state := x, wf_feedback := wf_feedback ws1\<rparr>"
    by (simp add: ws1 set_feedback_entry_def)
  with record_submission_again [OF ix, where x = x and y = "wf_feedback ws1"]
  have again: "recordFeedbackSubmissionIndexes t fid sid False ?w = (Inr (), ?w)" by simp
  let ?ws2 = "(set_feedback_entry t fid (\<lambda>d. d\<lparr>fd_artifact := Some (apply_patch (?p now') (apply_patch (?p now) a))\<rparr>) ?w)
      \<lparr>wf_state := Some s'\<rparr>"
  have "process_feedback now' h mf report s t fid fb ?w = (Inr r, ?ws2)"
    using again ra e found r
    by (auto simp: process_feedback_def cmd_bind_Inr patchFeedback_Inr saveState_Inr ws1)
  moreover have "same_submission ws1 ?ws2"
    by (simp add: same_submission_def) (simp add: ws1)
  ultimately show ?thesis by blast
qed

lemma graph_ref_nonempty:
  assumes "graph_ok g" and "map_get (blockTaskByRef g) r = Some t"
  shows "r \<noteq> []"
proof -
  have "r \<in> set (blockRefsInManifestOrder g)"
    using graph_wf_doms(3) [OF graph_ok_wf [OF assms(1)], of r] assms(2) by (simp add: map_has_get)
  from graph_ok_ref [OF assms(1) this] show ?thesis by (auto simp: parseBlockRef_Inr blockRef_def)
qed

section \<open>Properties\<close>

text \<open>C15: A submitted review refines its abstract outcome. The first submission of a result, local or
  by the remote owner of the block, stores the result under an unused attempt identifier and then does
  exactly what the outcome says, which is a function of the verdict, the number of earlier envelopes,
  the policy and the hook: completes the review as passed with the current work revision, completes it
  as exhausted, blocks it with the message of the failed hook, or opens one new feedback envelope and
  keeps it in progress. Every other block keeps its record; the remote owner of a completed review is
  replaced by its receipt.\<close>

theorem review_submission_refines:
  assumes "submitReviewResultLocked env mf opts parsed ws = (Inr res, ws')"
    and "loaded_state mf ws = Inr s" and "compileTaskGraph mf = Inr g"
    and "found_receipt opts (bstate s (so_ref opts)) = None"
    and "findPersistedReviewAttempt (re_resultHash env) ws (so_ref opts) (re_resultHash env parsed) = Inr None"
  shows "\<exists>a w. computeWorkRevision (re_workHash env) g s (so_ref opts) = Inr w \<and>
     \<not> map_has (dir_of (wf_attempts ws) (so_ref opts)) a \<and>
     (\<exists>d. map_get (dir_of (wf_attempts ws') (so_ref opts)) a = Some d \<and> ad_result d = Some parsed) \<and>
     verdict_applied mf opts (rv_taskId parsed) s
       (outcome_of (re_runHook env) (mb_review (block_of g (so_ref opts))) parsed (feedback_count (so_ref opts) s))
       a w res ws'"
  using assms by (rule first_submission)

lemma feedback_count_new:
  "\<not> map_has m k \<Longrightarrow> length (filter P (map_set m k v)) = length (filter P m) + (if P (k, v) then 1 else 0)"
  unfolding map_set_def map_has_def by (induction m) auto


text \<open>C24: A feedback submission is safe to repeat. When the command wrote its artifacts but its state
  write was lost, running it again on the same report succeeds, answers the same submission, and leaves
  the state, the indexes with their counts and the stored submissions as the first run left them.\<close>

theorem feedback_submission_repeatable:
  assumes "submitFeedbackFromBytes now fileHash mf report ws = (Inr r, ws1)"
    and "fileHash report \<noteq> []" and "now \<noteq> []"
  shows "\<exists>ws2. submitFeedbackFromBytes now' fileHash mf report (ws1\<lparr>wf_state := wf_state ws\<rparr>) = (Inr r, ws2) \<and>
     same_submission ws1 ws2"
proof -
  from assms(1) obtain ctx w0 where ld: "loadRuntime mf ws = (Inr ctx, w0)"
    by (auto simp: submitFeedbackFromBytes_def cmd_bind_Inr)
  note ctx = loadRuntime_Inr [OF ld]
  from assms(1) ld obtain fid fb t where
    g: "truthy (rs_currentFeedbackId (rc_state ctx)) = Some fid" "map_get (rs_feedback (rc_state ctx)) fid = Some fb"
      "truthy (map_get (blockTaskByRef (rc_graph ctx)) (fb_sourceReviewBlockRef fb)) = Some t"
    and pr: "process_feedback now fileHash mf report (rc_state ctx) t fid fb w0 = (Inr r, ws1)"
    by (auto simp: submitFeedbackFromBytes_def cmd_bind_Inr Let_def split: option.splits)
  have "fid \<noteq> []" using g(1) by (auto simp: truthy_def split: option.splits if_splits)
  moreover have "fb_sourceReviewBlockRef fb \<noteq> []"
    using g(3) graph_ref_nonempty [OF context_okD(2) [OF ctx(1)]]
    by (auto simp: truthy_def split: option.splits if_splits)
  ultimately have again: "\<exists>ws2. process_feedback now' fileHash mf report (rc_state ctx) t fid fb
      (ws1\<lparr>wf_state := x\<rparr>) = (Inr r, ws2) \<and> same_submission ws1 ws2" for x
    using process_feedback_again [OF pr] assms(2,3) by blast
  have "loadRuntimeReadonly mf ws = (Inr ctx, ws)"
    using ctx by (simp add: loadRuntimeReadonly_Inr)
  then have "loadRuntimeReadonly mf (ws1\<lparr>wf_state := wf_state ws\<rparr>) = (Inr ctx, ws1\<lparr>wf_state := wf_state ws\<rparr>)"
    by (simp add: loadRuntimeReadonly_Inr)
  then obtain x where "loadRuntime mf (ws1\<lparr>wf_state := wf_state ws\<rparr>) = (Inr ctx, ws1\<lparr>wf_state := x\<rparr>)"
    unfolding loadRuntime_eq by (cases "rc_rawState ctx \<noteq> rc_state ctx") auto
  with again [of x] g show ?thesis
    by (auto simp: submitFeedbackFromBytes_def cmd_bind_def Let_def)
qed

section \<open>Witnesses\<close>

definition reviewing_state :: runtime_state where
  "reviewing_state = createEmptyState
     \<lparr>rs_currentRefs := [''T1#R1''], rs_currentReviewBlockRef := Some ''T1#R1'',
      rs_blocks := [(''T1#B1'', (fresh_block BCompleted)\<lparr>bs_lastRunId := Some ''RUN-001''\<rparr>),
                    (''T1#R1'', fresh_block BInProgress)]\<rparr>"

definition reviewing_files :: workspace_files where
  "reviewing_files = empty_files\<lparr>wf_state := Some reviewing_state\<rparr>"

definition sample_env :: review_environment where
  "sample_env = \<lparr>re_now = ''2025-01-01'', re_workHash = (\<lambda>_. ''abc''), re_resultHash = rv_content,
     re_runHook = (\<lambda>_ _ _. Inl ''no hook''), re_materialize = (\<lambda>_. Inr ())\<rparr>"

definition sample_submission :: review_submission where
  "sample_submission = \<lparr>so_ref = ''T1#R1'', so_resultPath = ''result.json'', so_remote = None\<rparr>"

definition change_request :: review_result where
  "change_request = \<lparr>rv_reviewBlockRef = ''T1#R1'', rv_taskId = ''T1'', rv_verdict = NeedsChanges,
     rv_content = ''fix the parser''\<rparr>"

lemma change_requested:
  obtains res ws' s g where
    "submitReviewResultLocked sample_env sample_manifest sample_submission change_request reviewing_files = (Inr res, ws')"
    and "sr_status res = BInProgress" and "loaded_state sample_manifest reviewing_files = Inr s"
    and "compileTaskGraph sample_manifest = Inr g"
    and "found_receipt sample_submission (bstate s (so_ref sample_submission)) = None"
    and "findPersistedReviewAttempt (re_resultHash sample_env) reviewing_files (so_ref sample_submission)
           (re_resultHash sample_env change_request) = Inr None"
proof -
  have "cmd_holds (\<lambda>res ws'. sr_status res = BInProgress)
      (submitReviewResultLocked sample_env sample_manifest sample_submission change_request reviewing_files)"
    by code_simp
  then obtain res ws' where
    r: "submitReviewResultLocked sample_env sample_manifest sample_submission change_request reviewing_files = (Inr res, ws')"
      "sr_status res = BInProgress" by (rule cmd_holdsE)
  have "res_holds (\<lambda>_. True) (loaded_state sample_manifest reviewing_files)" by code_simp
  then obtain s where s: "loaded_state sample_manifest reviewing_files = Inr s" by (rule res_holdsE)
  from sample_compiles obtain g where g: "compileTaskGraph sample_manifest = Inr g" by blast
  have f: "findPersistedReviewAttempt (re_resultHash sample_env) reviewing_files (so_ref sample_submission)
      (re_resultHash sample_env change_request) = Inr None" by code_simp
  have "found_receipt sample_submission b = None" for b by (simp add: found_receipt_def sample_submission_def)
  from that [OF r s g this f] show thesis .
qed

lemma review_submission_refines_witness:
  "\<exists>res ws' s g a w. submitReviewResultLocked sample_env sample_manifest sample_submission change_request
       reviewing_files = (Inr res, ws') \<and> sr_status res = BInProgress \<and>
     verdict_applied sample_manifest sample_submission ''T1'' s
       (outcome_of (re_runHook sample_env) (mb_review (block_of g ''T1#R1'')) change_request
          (feedback_count ''T1#R1'' s)) a w res ws'"
proof (rule change_requested)
  fix res ws' s g
  assume r: "submitReviewResultLocked sample_env sample_manifest sample_submission change_request reviewing_files =
      (Inr res, ws')" and st: "sr_status res = BInProgress"
    and h: "loaded_state sample_manifest reviewing_files = Inr s" "compileTaskGraph sample_manifest = Inr g"
      "found_receipt sample_submission (bstate s (so_ref sample_submission)) = None"
      "findPersistedReviewAttempt (re_resultHash sample_env) reviewing_files (so_ref sample_submission)
         (re_resultHash sample_env change_request) = Inr None"
  have "so_ref sample_submission = ''T1#R1''" "rv_taskId change_request = ''T1''"
    by (simp_all add: sample_submission_def change_request_def)
  with review_submission_refines [OF r h] r st show ?thesis by auto
qed


definition feedback_files :: workspace_files where
  "feedback_files =
     snd (submitReviewResultLocked sample_env sample_manifest sample_submission change_request reviewing_files)"

lemma feedback_submission_repeatable_witness:
  "\<exists>r ws1 ws2. submitFeedbackFromBytes ''t1'' (\<lambda>x. ''h'' @ x) sample_manifest ''fixed'' feedback_files = (Inr r, ws1) \<and>
     sf_submissionId r = ''FS-001'' \<and>
     submitFeedbackFromBytes ''t2'' (\<lambda>x. ''h'' @ x) sample_manifest ''fixed''
       (ws1\<lparr>wf_state := wf_state feedback_files\<rparr>) = (Inr r, ws2) \<and> same_submission ws1 ws2"
proof -
  have "cmd_holds (\<lambda>r _. sf_submissionId r = ''FS-001'')
      (submitFeedbackFromBytes ''t1'' (\<lambda>x. ''h'' @ x) sample_manifest ''fixed'' feedback_files)" by code_simp
  then obtain r ws1 where
    r: "submitFeedbackFromBytes ''t1'' (\<lambda>x. ''h'' @ x) sample_manifest ''fixed'' feedback_files = (Inr r, ws1)"
      "sf_submissionId r = ''FS-001''" by (rule cmd_holdsE)
  from feedback_submission_repeatable [OF r(1), of "''t2''"] r show ?thesis by auto
qed

end
