(* ===== verification/Block_Submission.thy ===== *)
theory Block_Submission
  imports Submission
begin

text \<open>
  Submitting the result of an implementation block: \<^verbatim>\<open>taskManager/blockSubmission.ts\<close>,
  \<^verbatim>\<open>taskManager/implementationRunMetadata.ts\<close>, and what they use of
  \<^verbatim>\<open>autoRun/artifactReferenceContract.ts\<close> and \<^verbatim>\<open>taskManager/remoteBlockSource.ts\<close>.

  The command writes in several steps, so that an interrupted submission can be taken up again: it
  reserves a run directory and writes the reservation into the directory and the state, stores the
  report, records its hash in the metadata, records the run in the indexes and completes the block.
  The definitions below follow these steps. Bytes are strings; the digest, the clock, the random
  identity, the source evidence of a remote dispatch and the outcome of updating the paged run index
  are given by the environment.
\<close>

section \<open>Run metadata\<close>

definition hex_char :: "char \<Rightarrow> bool" where
  "hex_char c \<longleftrightarrow> (let n = (of_char c :: nat) in (48 \<le> n \<and> n \<le> 57) \<or> (97 \<le> n \<and> n \<le> 102))"

definition hex64 :: "string \<Rightarrow> bool" where
  "hex64 s \<longleftrightarrow> length s = 64 \<and> list_all hex_char s"

definition artifactRelativePath_valid :: "string \<Rightarrow> bool" where
  "artifactRelativePath_valid p \<longleftrightarrow>
     p \<noteq> [] \<and> length p \<le> 1024 \<and> list_all (\<lambda>c. c \<notin> {CHR ''/'', CHR 0x5C}) p \<and>
     p \<noteq> ''.'' \<and> p \<noteq> ''..'' \<and>
     \<not> (case p of a # b # _ \<Rightarrow> ascii_letter a \<and> b = CHR '':'' | _ \<Rightarrow> False)"

definition runner_version :: string where
  "runner_version = ''planweave.runner/v1''"

fun mediaTypeForKind :: "artifact_kind \<Rightarrow> string" where
  "mediaTypeForKind ReviewArtifact = ''application/json''"
| "mediaTypeForKind _ = ''text/markdown''"

definition artifactReference_valid :: "artifact_reference \<Rightarrow> bool" where
  "artifactReference_valid r \<longleftrightarrow>
     ar_version r = runner_version \<and> artifactRelativePath_valid (ar_relativePath r) \<and> hex64 (ar_sha256 r) \<and>
     ar_mediaType r = mediaTypeForKind (ar_kind r)"

definition runMetadata_valid :: "run_metadata \<Rightarrow> bool" where
  "runMetadata_valid m \<longleftrightarrow>
     rm_ref m \<noteq> Some [] \<and> rm_taskId m \<noteq> Some [] \<and> rm_blockId m \<noteq> Some [] \<and> rm_runId m \<noteq> Some [] \<and>
     (case rm_submissionReportHash m of None \<Rightarrow> True | Some h \<Rightarrow> hex64 h) \<and>
     rm_submissionAttemptId m \<noteq> Some [] \<and>
     (case rm_preparedContentRevision m of None \<Rightarrow> True | Some r \<Rightarrow> take 9 r = ''snapshot:'' \<and> hex64 (drop 9 r)) \<and>
     rm_executionAdmittedAt m \<noteq> Some (Some []) \<and> rm_submittedAt m \<noteq> Some [] \<and> rm_startedAt m \<noteq> Some (Some []) \<and>
     rm_finishedAt m \<noteq> Some (Some []) \<and> rm_reportHash m \<noteq> Some [] \<and>
     (case rm_artifactReference m of None \<Rightarrow> True | Some r \<Rightarrow> artifactReference_valid r)"

definition no_metadata :: run_metadata where
  "no_metadata =
     \<lparr>rm_ref = None, rm_taskId = None, rm_blockId = None, rm_runId = None, rm_submissionReportHash = None,
      rm_submissionAttemptId = None, rm_preparedContentRevision = None, rm_executionAdmittedAt = None,
      rm_submittedAt = None, rm_startedAt = None, rm_finishedAt = None, rm_reportHash = None, rm_sourceReportPath = None,
      rm_artifactReference = None, rm_other = []\<rparr>"

definition empty_run :: run_dir where
  "empty_run = \<lparr>rd_metadata = None, rd_files = []\<rparr>"

text \<open>Reading \<^verbatim>\<open>metadata.json\<close> of a directory: \<open>None\<close> when it has none.\<close>

definition readRunMetadata :: "run_dir \<Rightarrow> run_metadata option res" where
  "readRunMetadata d =
     (case rd_metadata d of
        None \<Rightarrow> Inr None
      | Some m \<Rightarrow> if runMetadata_valid m then Inr (Some m) else Inl (SchemaInvalid ''run metadata''))"

definition visible_run :: "string \<times> run_dir \<Rightarrow> bool" where
  "visible_run p \<longleftrightarrow> (case fst p of [] \<Rightarrow> True | c # _ \<Rightarrow> c \<noteq> CHR ''.'')"

definition findAttemptRun :: "(string, run_dir) js_map \<Rightarrow> string \<Rightarrow> string option res" where
  "findAttemptRun runs attemptId =
     try_bind (filter_res (\<lambda>p. try_bind (readRunMetadata (snd p)) (\<lambda>m.
         Inr (case m of None \<Rightarrow> False | Some md \<Rightarrow> rm_submissionAttemptId md = Some attemptId)))
       (filter visible_run runs)) (\<lambda>matches.
     case matches of
       [] \<Rightarrow> Inr None
     | [p] \<Rightarrow> Inr (Some (fst p))
     | _ \<Rightarrow> Inl MultipleAttemptRuns)"

section \<open>Artifacts\<close>

definition RUNNER_ARTIFACT_MAX_CONTENT_BYTES :: nat where
  "RUNNER_ARTIFACT_MAX_CONTENT_BYTES = 768 * 1024"

definition OUTPUT_MAX_ARTIFACT_BYTES :: nat where
  "OUTPUT_MAX_ARTIFACT_BYTES = 100 * 1024 * 1024"

definition referenceFromBytes :: "(string \<Rightarrow> string) \<Rightarrow> string \<Rightarrow> artifact_kind \<Rightarrow> string \<Rightarrow> artifact_reference res" where
  "referenceFromBytes sha relativePath kind bytes =
     (let r = \<lparr>ar_version = runner_version, ar_kind = kind, ar_relativePath = relativePath, ar_sha256 = sha bytes,
               ar_sizeBytes = length bytes, ar_mediaType = mediaTypeForKind kind\<rparr>
      in if artifactReference_valid r then Inr r else Inl (SchemaInvalid ''artifact reference''))"

text \<open>The file appears under its name only after its bytes were checked in a temporary file.\<close>

definition materializeArtifactBytes ::
  "(string \<Rightarrow> string) \<Rightarrow> string \<Rightarrow> artifact_kind \<Rightarrow> string \<Rightarrow> run_dir \<Rightarrow> (artifact_reference \<times> run_dir) res" where
  "materializeArtifactBytes sha relativePath kind bytes d =
     (if \<not> artifactRelativePath_valid relativePath then Inl (SchemaInvalid ''artifact path'')
      else if RUNNER_ARTIFACT_MAX_CONTENT_BYTES < length bytes then Inl ArtifactReferenceMismatch
      else try_bind (referenceFromBytes sha relativePath kind bytes) (\<lambda>r.
           Inr (r, d\<lparr>rd_files := map_set (rd_files d) relativePath bytes\<rparr>)))"

definition readVerifiedArtifactReference ::
  "(string \<Rightarrow> string) \<Rightarrow> run_dir \<Rightarrow> artifact_reference option \<Rightarrow> (artifact_reference \<times> string) res" where
  "readVerifiedArtifactReference sha d value =
     (case value of
        None \<Rightarrow> Inl ArtifactReferenceMismatch
      | Some r \<Rightarrow>
          if \<not> artifactReference_valid r then Inl ArtifactReferenceMismatch
          else case map_get (rd_files d) (ar_relativePath r) of
                 None \<Rightarrow> Inl ArtifactReferenceMismatch
               | Some bytes \<Rightarrow>
                   if RUNNER_ARTIFACT_MAX_CONTENT_BYTES < length bytes \<or> length bytes \<noteq> ar_sizeBytes r \<or>
                      sha bytes \<noteq> ar_sha256 r
                   then Inl ArtifactReferenceMismatch
                   else Inr (r, bytes))"

datatype submission_artifact =
    LegacyArtifact (art_bytes: string)
  | VerifiedArtifact (art_reference: artifact_reference) (art_bytes: string)

definition report_name :: string where
  "report_name = ''report.md''"

definition runHasSubmittedResult ::
  "(string \<Rightarrow> string) \<Rightarrow> run_dir option \<Rightarrow> string \<Rightarrow> string \<Rightarrow> submission_artifact \<Rightarrow> bool res" where
  "runHasSubmittedResult sha dir ref runId artifact =
     (case dir of
        None \<Rightarrow> Inr False
      | Some d \<Rightarrow>
          (case map_get (rd_files d) report_name of
             None \<Rightarrow> Inr False
           | Some report \<Rightarrow>
               try_bind (readRunMetadata d) (\<lambda>m.
               case m of
                 None \<Rightarrow> Inr False
               | Some md \<Rightarrow>
                   if rm_ref md \<noteq> Some ref \<or> rm_runId md \<noteq> Some runId then Inr False
                   else if rm_reportHash md \<noteq> Some (sha (art_bytes artifact)) then Inr False
                   else try_bind
                     (case artifact of
                        LegacyArtifact _ \<Rightarrow> Inr report
                      | VerifiedArtifact reference _ \<Rightarrow>
                          try_bind (readVerifiedArtifactReference sha d (rm_artifactReference md)) (\<lambda>(r, bytes).
                          if r \<noteq> reference then Inl (PersistedReportMismatch runId) else Inr bytes))
                     (\<lambda>persisted.
                      if persisted \<noteq> art_bytes artifact then Inl (PersistedReportMismatch runId) else Inr True))))"

section \<open>Which run a submission belongs to\<close>

record submission_run =
  sn_runId :: "string option"
  sn_metadata :: run_metadata
  sn_exists :: bool

text \<open>A local submission without a run must not be mistaken for one that was interrupted before it
  could write its identity.\<close>

definition ambiguous_run :: "block_state \<Rightarrow> string \<times> run_dir \<Rightarrow> unit res" where
  "ambiguous_run b p =
     (if \<not> visible_run p then Inr ()
      else try_bind (readRunMetadata (snd p)) (\<lambda>m.
        case m of
          None \<Rightarrow> if Some (fst p) \<noteq> bs_lastRunId b then Inl (AmbiguousRun (fst p)) else Inr ()
        | Some md \<Rightarrow>
            if truthy (rm_submissionAttemptId md) = None \<and> Some (fst p) \<noteq> bs_lastRunId b
            then Inl (AmbiguousRun (fst p)) else Inr ()))"

definition candidate_run ::
  "(string, run_dir) js_map \<Rightarrow> block_state \<Rightarrow> string option \<Rightarrow> string option \<Rightarrow> bool \<Rightarrow> string option res" where
  "candidate_run runs b attemptId runId local =
     (let reserved = (if bs_submissionAttemptId b = attemptId then bs_submissionRunId b else None)
      in if truthy runId \<noteq> None \<and> truthy reserved \<noteq> None \<and> runId \<noteq> reserved then Inl (RunConflict (the runId))
         else let c0 = (if runId \<noteq> None then runId else reserved);
                  c1 = (if truthy c0 = None \<and> bs_status b = BCompleted then bs_lastRunId b else c0)
              in try_bind (if truthy c1 = None \<and> truthy attemptId \<noteq> None
                           then findAttemptRun runs (the attemptId) else Inr c1) (\<lambda>c2.
                 if truthy c2 = None \<and> local \<and> bs_status b = BInProgress
                 then try_bind (for_res (\<lambda>p _. ambiguous_run b p) runs ()) (\<lambda>_. Inr c2)
                 else Inr c2))"

definition identity_conflict :: "string \<Rightarrow> string \<Rightarrow> string \<Rightarrow> string \<Rightarrow> run_metadata \<Rightarrow> bool" where
  "identity_conflict ref taskId blockId runId m \<longleftrightarrow>
     (rm_ref m \<noteq> None \<and> rm_ref m \<noteq> Some ref) \<or> (rm_taskId m \<noteq> None \<and> rm_taskId m \<noteq> Some taskId) \<or>
     (rm_blockId m \<noteq> None \<and> rm_blockId m \<noteq> Some blockId) \<or> (rm_runId m \<noteq> None \<and> rm_runId m \<noteq> Some runId)"

definition check_candidate ::
  "block_state \<Rightarrow> string option \<Rightarrow> string \<Rightarrow> string \<Rightarrow> string \<Rightarrow> string \<Rightarrow> run_metadata \<Rightarrow> bool \<Rightarrow> unit res" where
  "check_candidate b attemptId ref taskId blockId r m dirExists =
     (let reserved = (if bs_submissionAttemptId b = attemptId then bs_submissionRunId b else None)
      in if identity_conflict ref taskId blockId r m then Inl (RunConflict r)
         else if truthy (rm_submissionAttemptId m) \<noteq> None \<and> rm_submissionAttemptId m \<noteq> attemptId \<and>
                 \<not> (attemptId = None \<and> bs_status b = BCompleted \<and> Some r = bs_lastRunId b)
         then Inl (RunConflict r)
         else if truthy (rm_submissionAttemptId m) = None \<and> bs_status b = BInProgress \<and> dirExists \<and> reserved \<noteq> Some r
         then Inl (AmbiguousRun r)
         else if truthy (rm_submissionAttemptId m) = None \<and> truthy (rm_reportHash m) \<noteq> None \<and>
                 bs_status b = BInProgress \<and> Some r = bs_lastRunId b
         then Inl (AmbiguousRun r)
         else Inr ())"

definition resolveSubmissionRun ::
  "(string, run_dir) js_map \<Rightarrow> block_state \<Rightarrow> string option \<Rightarrow> string option \<Rightarrow> string \<Rightarrow> string \<Rightarrow> string \<Rightarrow> bool \<Rightarrow>
   submission_run res" where
  "resolveSubmissionRun runs b attemptId runId ref taskId blockId local =
     try_bind (candidate_run runs b attemptId runId local) (\<lambda>c.
     let dir = (case truthy c of None \<Rightarrow> None | Some r \<Rightarrow> map_get runs r)
     in try_bind (case dir of None \<Rightarrow> Inr None | Some d \<Rightarrow> readRunMetadata d) (\<lambda>m0.
        let m = (case m0 of None \<Rightarrow> no_metadata | Some md \<Rightarrow> md)
        in try_bind (case truthy c of
                       None \<Rightarrow> Inr ()
                     | Some r \<Rightarrow> check_candidate b attemptId ref taskId blockId r m (dir \<noteq> None)) (\<lambda>_.
           if bs_status b = BCompleted \<and> \<not> (c \<noteq> None \<and> c = bs_lastRunId b)
           then Inl (RunConflict (case c of None \<Rightarrow> [] | Some r \<Rightarrow> r))
           else Inr \<lparr>sn_runId = c, sn_metadata = m, sn_exists = (dir \<noteq> None)\<rparr>)))"

section \<open>The steps of a submission\<close>

record submission_environment =
  se_sha :: "string \<Rightarrow> string"
  se_now :: string
  se_uuid :: string
  se_source :: "runtime_context \<Rightarrow> string \<Rightarrow> (string \<times> string) res"
  se_indexRun :: "string \<Rightarrow> string \<Rightarrow> workspace_files \<Rightarrow> unit res"

record block_submission =
  bo_ref :: string
  bo_reportPath :: "string option"
  bo_runId :: "string option"
  bo_submissionAttemptId :: "string option"

datatype submission_authority = LocalAuthority | RemoteAuthority active_identity

record submit_result =
  sb_ref :: string
  sb_runId :: string
  sb_status :: block_status

definition completed_result :: "string \<Rightarrow> string \<Rightarrow> submit_result" where
  "completed_result ref runId = \<lparr>sb_ref = ref, sb_runId = runId, sb_status = BCompleted\<rparr>"

text \<open>\<^verbatim>\<open>JSON.stringify\<close> of the identity. The parts are opaque identifiers, which contain no
  character that JSON escapes.\<close>

definition json_string :: "string \<Rightarrow> string" where
  "json_string s = [CHR 0x22] @ s @ [CHR 0x22]"

fun json_items :: "string list \<Rightarrow> string" where
  "json_items [] = []"
| "json_items [x] = json_string x"
| "json_items (x # y # ys) = json_string x @ '','' @ json_items (y # ys)"

definition plane_name :: "control_plane option \<Rightarrow> string" where
  "plane_name p = (case p of Some OwnerPlane \<Rightarrow> ''owner'' | _ \<Rightarrow> ''collaboration'')"

definition remote_attempt_id :: "active_identity \<Rightarrow> string" where
  "remote_attempt_id i =
     ''['' @ json_items [src_operationId (ai_source i), plane_name (src_controlPlane (ai_source i)),
       src_sourceRevision (ai_source i), src_graphFingerprint (ai_source i), ai_dispatchId i,
       ai_executionAttemptId i] @ '']''"

definition sameRemoteBlockAuthority :: "string \<times> string \<Rightarrow> remote_source \<Rightarrow> bool" where
  "sameRemoteBlockAuthority current requested \<longleftrightarrow>
     (if take 9 (src_sourceRevision requested) = ''snapshot:''
      then snd current = src_graphFingerprint requested
      else fst current = src_sourceRevision requested \<and> snd current = src_graphFingerprint requested)"

definition run_of :: "workspace_files \<Rightarrow> string \<Rightarrow> string \<Rightarrow> run_dir option" where
  "run_of ws ref runId = map_get (dir_of (wf_runs ws) ref) runId"

definition set_run :: "string \<Rightarrow> string \<Rightarrow> run_dir \<Rightarrow> workspace_files \<Rightarrow> workspace_files" where
  "set_run ref runId d ws = ws\<lparr>wf_runs := map_set (wf_runs ws) ref (map_set (dir_of (wf_runs ws) ref) runId d)\<rparr>"

text \<open>The guards on the artifact and on the state of the block.\<close>

definition artifact_guard :: "(string \<Rightarrow> string) \<Rightarrow> submission_artifact \<Rightarrow> unit res" where
  "artifact_guard sha artifact =
     (case artifact of
        LegacyArtifact _ \<Rightarrow> Inr ()
      | VerifiedArtifact r bytes \<Rightarrow>
          if ar_kind r \<noteq> ImplementationArtifact \<or> ar_relativePath r \<noteq> report_name \<or> ar_sha256 r \<noteq> sha bytes \<or>
             ar_sizeBytes r \<noteq> length bytes
          then Inl ArtifactReferenceMismatch else Inr ())"

definition receipt_guard :: "submission_authority \<Rightarrow> string \<Rightarrow> block_state \<Rightarrow> unit res" where
  "receipt_guard authority ref b =
     (case authority of
        LocalAuthority \<Rightarrow>
          if bs_remoteOwnership b \<noteq> None then Inl (RemoteOwnedSubmit ref)
          else if bs_remoteOperationReceipt b \<noteq> None then Inl (RemoteCompletedReplay ref)
          else Inr ()
      | RemoteAuthority _ \<Rightarrow> Inr ())"

text \<open>A remote completion that finds a terminal receipt is answered from it, or is a conflict.\<close>

definition receipt_replay ::
  "(string \<Rightarrow> string) \<Rightarrow> string \<Rightarrow> submission_artifact \<Rightarrow> active_identity \<Rightarrow> remote_receipt \<Rightarrow> submit_result cmd" where
  "receipt_replay sha ref artifact identity receipt =
     (case receipt of
        FailedReceipt _ _ _ \<Rightarrow> cmd_lift (Inl (RemoteBlockResultConflict ref))
      | CompletedReceipt _ runId _ \<Rightarrow>
          if \<not> matchesRemoteOperationReceipt (Some receipt) identity
          then cmd_lift (Inl (RemoteBlockResultConflict ref))
          else cmd_bind (cmd_read (\<lambda>ws. runHasSubmittedResult sha (run_of ws ref runId) ref runId artifact)) (\<lambda>r.
               cmd_bind (cmd_lift r) (\<lambda>ok.
               if ok then cmd_return (completed_result ref runId)
               else cmd_lift (Inl (RemoteBlockResultConflict ref)))))"

definition resumable :: "block_state \<Rightarrow> bool" where
  "resumable b \<longleftrightarrow> (case bs_remoteInterruption b of None \<Rightarrow> False | Some i \<Rightarrow> ri_resumable i)"

text \<open>A remote completion: the identity must own the block, the block must be running (or interrupted
  and resumable), and the source must not have changed; a changed source is written down as drift.\<close>

definition drift_reason :: "string \<Rightarrow> string" where
  "drift_reason ref = ''Remote source changed before completion of '' @ quoted ref @ ''.''"

definition remote_guard ::
  "submission_environment \<Rightarrow> manifest \<Rightarrow> runtime_context \<Rightarrow> string \<Rightarrow> block_type \<Rightarrow> block_state \<Rightarrow>
   active_identity \<Rightarrow> unit cmd" where
  "remote_guard env mf ctx ref bt b identity =
     cmd_bind (cmd_lift (assertActiveRemoteBlockOwnership bt b identity)) (\<lambda>_.
     if \<not> (bs_status b = BInProgress \<or> (bs_status b = BDiverged \<and> resumable b))
     then cmd_lift (Inl (SubmitNotInProgress ref))
     else cmd_bind (cmd_lift (se_source env ctx ref)) (\<lambda>current.
       if sameRemoteBlockAuthority current (ai_source identity) then cmd_return ()
       else cmd_bind (cmd_lift (markRemoteBlockOwnershipSourceDrift bt b (fst current) (snd current) (drift_reason ref))) (\<lambda>b1.
            cmd_bind (saveState mf (with_block ref b1 (rc_state ctx))) (\<lambda>_.
            cmd_lift (Inl (RemoteBlockSourceChanged ref))))))"

definition local_guard :: "block_submission \<Rightarrow> block_state \<Rightarrow> unit res" where
  "local_guard opts b =
     (if bs_status b \<noteq> BInProgress \<and> bs_status b \<noteq> BCompleted then Inl (SubmitNotInProgress (bo_ref opts))
      else if bo_submissionAttemptId opts \<noteq> None \<and> bs_submissionAttemptId b \<noteq> bo_submissionAttemptId opts
      then Inl (SubmissionAttemptConflict (bo_ref opts)) else Inr ())"

text \<open>The end of every accepted submission: the block is completed and leaves the current references.\<close>

definition completed_block ::
  "submission_authority \<Rightarrow> block_type \<Rightarrow> block_state \<Rightarrow> string \<Rightarrow> block_state res" where
  "completed_block authority bt b runId =
     (case authority of
        RemoteAuthority identity \<Rightarrow> completeRemoteBlockOwnership bt b identity runId
      | LocalAuthority \<Rightarrow> Inr ((withoutRemoteBlockOwnership b BCompleted)\<lparr>bs_lastRunId := Some runId\<rparr>))"

definition complete_submission ::
  "manifest \<Rightarrow> submission_authority \<Rightarrow> block_type \<Rightarrow> string \<Rightarrow> string \<Rightarrow> runtime_state \<Rightarrow> submit_result cmd" where
  "complete_submission mf authority bt ref runId s =
     cmd_bind (cmd_lift (requireBlockState s ref)) (\<lambda>b.
     cmd_bind (cmd_lift (completed_block authority bt b runId)) (\<lambda>b1.
     cmd_bind (saveState mf ((with_block ref b1 s)\<lparr>rs_currentRefs := without_ref (rs_currentRefs s) ref\<rparr>)) (\<lambda>_.
     cmd_return (completed_result ref runId))))"

text \<open>A run that holds this very report already: only the indexes and the state are brought up to date.\<close>

definition index_persisted :: "string \<Rightarrow> string \<Rightarrow> task_index \<Rightarrow> task_index" where
  "index_persisted ref runId index = index
     \<lparr>ti_latestRunByBlock := map_set (ti_latestRunByBlock index) ref runId,
      ti_counts := (if map_get (ti_latestRunByBlock index) ref = Some runId then ti_counts index
                    else incrementTaskIndexCount index RunsField)\<rparr>"

definition cmd_index_run :: "submission_environment \<Rightarrow> string \<Rightarrow> string \<Rightarrow> unit cmd" where
  "cmd_index_run env ref runId = cmd_bind (cmd_read (se_indexRun env ref runId)) cmd_lift"

definition resume_persisted ::
  "submission_environment \<Rightarrow> manifest \<Rightarrow> submission_authority \<Rightarrow> block_type \<Rightarrow> string \<Rightarrow> string \<Rightarrow> string \<Rightarrow>
   runtime_state \<Rightarrow> submit_result cmd" where
  "resume_persisted env mf authority bt ref taskId runId s =
     cmd_bind (cmd_index_run env ref runId) (\<lambda>_.
     cmd_bind (updateTaskIndex taskId (index_persisted ref runId)) (\<lambda>_.
     complete_submission mf authority bt ref runId s))"

text \<open>Reserving the run: the attempt identity, the directory, the reservation in its metadata, and the
  reservation in the state, each written before the next step.\<close>

definition reserve_attempt :: "submission_environment \<Rightarrow> string \<Rightarrow> string option \<Rightarrow> block_state \<Rightarrow> runtime_state \<Rightarrow>
  (string \<times> runtime_state) cmd" where
  "reserve_attempt env ref attemptId b s =
     (case truthy attemptId of
        Some a \<Rightarrow> cmd_return (a, s)
      | None \<Rightarrow>
          let a = (case attemptId of None \<Rightarrow> se_uuid env | Some x \<Rightarrow> x);
              s1 = with_block ref (b\<lparr>bs_submissionAttemptId := Some a\<rparr>) s
          in cmd_bind (writeState s1) (\<lambda>_. cmd_return (a, s1)))"

definition reserve_directory :: "string \<Rightarrow> submission_run \<Rightarrow> string cmd" where
  "reserve_directory ref run =
     (case sn_runId run of
        Some r \<Rightarrow>
          if r \<noteq> [] \<and> \<not> sn_exists run
          then cmd_bind (cmd_write (set_run ref r empty_run)) (\<lambda>_. cmd_return r) else cmd_return r
      | None \<Rightarrow>
          cmd_bind (cmd_read (\<lambda>ws. allocatePrefixedId (dir_of (wf_runs ws) ref) ''RUN'' empty_run)) (\<lambda>x.
          cmd_bind (cmd_lift x) (\<lambda>(r, runs).
          cmd_bind (cmd_write (\<lambda>ws. ws\<lparr>wf_runs := map_set (wf_runs ws) ref runs\<rparr>)) (\<lambda>_. cmd_return r))))"

definition write_metadata :: "string \<Rightarrow> string \<Rightarrow> run_metadata \<Rightarrow> unit cmd" where
  "write_metadata ref runId m =
     cmd_write (\<lambda>ws. set_run ref runId
       ((case run_of ws ref runId of None \<Rightarrow> empty_run | Some d \<Rightarrow> d)\<lparr>rd_metadata := Some m\<rparr>) ws)"

definition reservation ::
  "string \<Rightarrow> string \<Rightarrow> string \<Rightarrow> string \<Rightarrow> string \<Rightarrow> string \<Rightarrow> run_metadata \<Rightarrow> run_metadata" where
  "reservation ref taskId blockId runId attemptId reportHash m = m
     \<lparr>rm_ref := Some ref, rm_taskId := Some taskId, rm_blockId := Some blockId, rm_runId := Some runId,
      rm_submissionAttemptId := Some attemptId, rm_submissionReportHash := Some reportHash\<rparr>"

definition reserve_run ::
  "submission_environment \<Rightarrow> string \<Rightarrow> string \<Rightarrow> string \<Rightarrow> string option \<Rightarrow> string \<Rightarrow> submission_run \<Rightarrow> block_state \<Rightarrow>
   runtime_state \<Rightarrow> (string \<times> string \<times> runtime_state) cmd" where
  "reserve_run env ref taskId blockId attemptId reportHash run b s =
     cmd_bind (reserve_attempt env ref attemptId b s) (\<lambda>(a, s1).
     cmd_bind (reserve_directory ref run) (\<lambda>runId.
     cmd_bind (write_metadata ref runId (reservation ref taskId blockId runId a reportHash (sn_metadata run))) (\<lambda>_.
     let s2 = with_block ref (b\<lparr>bs_submissionAttemptId := Some a, bs_submissionRunId := Some runId\<rparr>) s1
     in cmd_bind (writeState s2) (\<lambda>_. cmd_return (runId, a, s2)))))"

text \<open>Storing the report and recording its hash.\<close>

definition store_artifact :: "submission_environment \<Rightarrow> string \<Rightarrow> string \<Rightarrow> submission_artifact \<Rightarrow>
  artifact_reference option cmd" where
  "store_artifact env ref runId artifact =
     cmd_bind (cmd_read (\<lambda>ws. case run_of ws ref runId of None \<Rightarrow> empty_run | Some d \<Rightarrow> d)) (\<lambda>d.
     case artifact of
       VerifiedArtifact _ bytes \<Rightarrow>
         cmd_bind (cmd_lift (materializeArtifactBytes (se_sha env) report_name ImplementationArtifact bytes d)) (\<lambda>(r, d1).
         cmd_bind (cmd_write (set_run ref runId d1)) (\<lambda>_. cmd_return (Some r)))
     | LegacyArtifact bytes \<Rightarrow>
         cmd_bind (cmd_write (set_run ref runId (d\<lparr>rd_files := map_set (rd_files d) report_name bytes\<rparr>))) (\<lambda>_.
         cmd_return None))"

definition submitted_metadata ::
  "submission_environment \<Rightarrow> block_submission \<Rightarrow> string \<Rightarrow> string \<Rightarrow> string \<Rightarrow> string \<Rightarrow> string \<Rightarrow>
   artifact_reference option \<Rightarrow> run_metadata \<Rightarrow> run_metadata" where
  "submitted_metadata env opts taskId blockId runId attemptId reportHash reference m = m
     \<lparr>rm_ref := Some (bo_ref opts), rm_taskId := Some taskId, rm_blockId := Some blockId, rm_runId := Some runId,
      rm_submittedAt := Some (se_now env), rm_reportHash := Some reportHash,
      rm_submissionAttemptId := Some attemptId,
      rm_artifactReference := (case reference of None \<Rightarrow> rm_artifactReference m | Some r \<Rightarrow> Some r),
      rm_sourceReportPath :=
        (case truthy (bo_reportPath opts) of None \<Rightarrow> rm_sourceReportPath m | Some p \<Rightarrow> Some p)\<rparr>"

definition store_report ::
  "submission_environment \<Rightarrow> block_submission \<Rightarrow> string \<Rightarrow> string \<Rightarrow> string \<Rightarrow> string \<Rightarrow> submission_artifact \<Rightarrow> unit cmd" where
  "store_report env opts taskId blockId runId attemptId artifact =
     cmd_bind (store_artifact env (bo_ref opts) runId artifact) (\<lambda>reference.
     cmd_bind (cmd_read (\<lambda>ws. case run_of ws (bo_ref opts) runId of None \<Rightarrow> Inr None | Some d \<Rightarrow> readRunMetadata d)) (\<lambda>x.
     cmd_bind (cmd_lift x) (\<lambda>m.
     write_metadata (bo_ref opts) runId
       (submitted_metadata env opts taskId blockId runId attemptId (se_sha env (art_bytes artifact)) reference
         (case m of None \<Rightarrow> no_metadata | Some md \<Rightarrow> md)))))"

definition index_new_run :: "string \<Rightarrow> string \<Rightarrow> task_index \<Rightarrow> task_index" where
  "index_new_run ref runId index = index
     \<lparr>ti_latestRunByBlock := map_set (ti_latestRunByBlock index) ref runId,
      ti_counts := incrementTaskIndexCount index RunsField\<rparr>"

definition new_submission ::
  "submission_environment \<Rightarrow> manifest \<Rightarrow> block_submission \<Rightarrow> submission_authority \<Rightarrow> block_type \<Rightarrow> string \<Rightarrow> string \<Rightarrow>
   string option \<Rightarrow> submission_artifact \<Rightarrow> submission_run \<Rightarrow> block_state \<Rightarrow> runtime_state \<Rightarrow> submit_result cmd" where
  "new_submission env mf opts authority bt taskId blockId attemptId artifact run b s =
     cmd_bind (reserve_run env (bo_ref opts) taskId blockId attemptId (se_sha env (art_bytes artifact)) run b s)
       (\<lambda>(runId, a, s1).
     cmd_bind (store_report env opts taskId blockId runId a artifact) (\<lambda>_.
     cmd_bind (cmd_index_run env (bo_ref opts) runId) (\<lambda>_.
     cmd_bind (updateTaskIndex taskId (index_new_run (bo_ref opts) runId)) (\<lambda>_.
     complete_submission mf authority bt (bo_ref opts) runId s1))))"

text \<open>Everything after the guards.\<close>

definition report_conflict :: "string \<Rightarrow> run_metadata \<Rightarrow> bool" where
  "report_conflict reportHash m \<longleftrightarrow>
     (truthy (rm_reportHash m) \<noteq> None \<and> rm_reportHash m \<noteq> Some reportHash) \<or>
     (truthy (rm_submissionReportHash m) \<noteq> None \<and> rm_submissionReportHash m \<noteq> Some reportHash)"

definition process_submission ::
  "submission_environment \<Rightarrow> manifest \<Rightarrow> block_submission \<Rightarrow> submission_authority \<Rightarrow> block_type \<Rightarrow> string \<Rightarrow> string \<Rightarrow>
   submission_artifact \<Rightarrow> block_state \<Rightarrow> runtime_state \<Rightarrow> submit_result cmd" where
  "process_submission env mf opts authority bt taskId blockId artifact b s =
     (let ref = bo_ref opts; reportHash = se_sha env (art_bytes artifact);
          attemptId = (case authority of RemoteAuthority i \<Rightarrow> Some (remote_attempt_id i)
                                       | LocalAuthority \<Rightarrow> bs_submissionAttemptId b)
      in cmd_bind (cmd_read (\<lambda>ws. dir_of (wf_runs ws) ref)) (\<lambda>runs.
         cmd_bind (cmd_lift (resolveSubmissionRun runs b attemptId (bo_runId opts) ref taskId blockId
                     (authority = LocalAuthority))) (\<lambda>run.
         if report_conflict reportHash (sn_metadata run)
         then cmd_lift (Inl (RunConflict (case sn_runId run of None \<Rightarrow> [] | Some r \<Rightarrow> r)))
         else cmd_bind (cmd_lift (case truthy (sn_runId run) of
                          None \<Rightarrow> Inr None
                        | Some r \<Rightarrow> try_bind (runHasSubmittedResult (se_sha env) (map_get runs r) ref r artifact) (\<lambda>ok.
                            Inr (if ok then Some r else None)))) (\<lambda>persisted.
           case persisted of
             Some r \<Rightarrow> resume_persisted env mf authority bt ref taskId r s
           | None \<Rightarrow>
               if authority = LocalAuthority \<and> bs_status b \<noteq> BInProgress
               then cmd_lift (Inl (SubmitNotInProgress ref))
               else new_submission env mf opts authority bt taskId blockId attemptId artifact run b s))))"

definition run_id_guard :: "string option \<Rightarrow> unit res" where
  "run_id_guard runId =
     (case runId of None \<Rightarrow> Inr () | Some r \<Rightarrow> if submissionRunId_valid r then Inr () else Inl RunIdInvalid)"

text \<open>The record of a block of the graph is present after reconciliation, so a missing one is not
  reached; it would not be in progress.\<close>

definition submitBlockResultArtifact ::
  "submission_environment \<Rightarrow> manifest \<Rightarrow> block_submission \<Rightarrow> submission_artifact \<Rightarrow> submission_authority \<Rightarrow>
   submit_result cmd" where
  "submitBlockResultArtifact env mf opts artifact authority =
     (let ref = bo_ref opts in
      cmd_bind (cmd_lift (artifact_guard (se_sha env) artifact)) (\<lambda>_.
      cmd_bind (loadRuntime mf) (\<lambda>ctx.
      cmd_bind (cmd_lift (parseBlockRef ref)) (\<lambda>(taskId, blockId).
      cmd_bind (cmd_lift (getBlock (rc_graph ctx) ref)) (\<lambda>block.
      if mb_type block = Review then cmd_lift (Inl SubmitResultNotImplementation)
      else case map_get (rs_blocks (rc_state ctx)) ref of
        None \<Rightarrow> cmd_lift (Inl (SubmitNotInProgress ref))
      | Some b \<Rightarrow>
          cmd_bind (cmd_lift (receipt_guard authority ref b)) (\<lambda>_.
          case (authority, bs_remoteOperationReceipt b) of
            (RemoteAuthority identity, Some receipt) \<Rightarrow> receipt_replay (se_sha env) ref artifact identity receipt
          | _ \<Rightarrow>
              cmd_bind (case authority of
                          RemoteAuthority identity \<Rightarrow> remote_guard env mf ctx ref (mb_type block) b identity
                        | LocalAuthority \<Rightarrow> cmd_lift (local_guard opts b)) (\<lambda>_.
              cmd_bind (cmd_lift (run_id_guard (bo_runId opts))) (\<lambda>_.
              process_submission env mf opts authority (mb_type block) taskId blockId artifact b (rc_state ctx)))))))))"

text \<open>The entry points. The remote one checks the size and the digest of the report, and hands the
  report of a review block to the review submission; \<open>parseReview\<close> stands for reading the review result from
  the bytes.\<close>

definition submitBlockResultFromBytes ::
  "submission_environment \<Rightarrow> manifest \<Rightarrow> block_submission \<Rightarrow> string \<Rightarrow> submit_result cmd" where
  "submitBlockResultFromBytes env mf opts bytes =
     submitBlockResultArtifact env mf opts (LegacyArtifact bytes) LocalAuthority"

definition submitVerifiedBlockResult ::
  "submission_environment \<Rightarrow> manifest \<Rightarrow> block_submission \<Rightarrow> artifact_reference \<Rightarrow> string \<Rightarrow> submit_result cmd" where
  "submitVerifiedBlockResult env mf opts reference bytes =
     submitBlockResultArtifact env mf opts (VerifiedArtifact reference bytes) LocalAuthority"

record remote_completion =
  rk_ref :: string
  rk_identity :: active_identity
  rk_reportArtifactRef :: string
  rk_reportBytes :: string

definition remote_reference :: "string \<Rightarrow> string \<Rightarrow> artifact_reference" where
  "remote_reference sha256 bytes =
     \<lparr>ar_version = runner_version, ar_kind = ImplementationArtifact, ar_relativePath = report_name,
      ar_sha256 = sha256, ar_sizeBytes = length bytes, ar_mediaType = ''text/markdown''\<rparr>"

definition submitRemoteReviewResult ::
  "review_environment \<Rightarrow> (string \<Rightarrow> string \<Rightarrow> string \<Rightarrow> review_result res) \<Rightarrow> manifest \<Rightarrow> string \<Rightarrow> string \<Rightarrow>
   active_identity \<Rightarrow> submit_review_result cmd" where
  "submitRemoteReviewResult renv parseReview mf ref bytes ownership =
     cmd_bind (cmd_lift (parseBlockRef ref)) (\<lambda>(taskId, _).
     cmd_bind (cmd_lift (parseReview ref taskId bytes)) (\<lambda>parsed.
     submitReviewResultValue renv mf
       \<lparr>so_ref = ref, so_resultPath = ai_executionAttemptId ownership @ ''.json'', so_remote = Some ownership\<rparr> parsed))"

definition submitRemoteBlockResult ::
  "submission_environment \<Rightarrow> review_environment \<Rightarrow> (string \<Rightarrow> string \<Rightarrow> string \<Rightarrow> review_result res) \<Rightarrow> manifest \<Rightarrow>
   remote_completion \<Rightarrow> submit_result cmd" where
  "submitRemoteBlockResult env renv parseReview mf input =
     (let bytes = rk_reportBytes input; sha256 = drop (length ''artifact:sha256:'') (rk_reportArtifactRef input)
      in if OUTPUT_MAX_ARTIFACT_BYTES < length bytes then cmd_lift (Inl (RemoteBlockResultConflict (rk_ref input)))
         else if sha256 \<noteq> se_sha env bytes then cmd_lift (Inl (RemoteBlockResultConflict (rk_ref input)))
         else cmd_bind (loadRuntimeReadonly mf) (\<lambda>ctx.
              cmd_bind (cmd_lift (getBlock (rc_graph ctx) (rk_ref input))) (\<lambda>block.
              if mb_type block = Review
              then cmd_bind (submitRemoteReviewResult renv parseReview mf (rk_ref input) bytes (rk_identity input)) (\<lambda>r.
                   cmd_return (completed_result (sr_ref r) (sr_reviewAttemptId r)))
              else submitBlockResultArtifact env mf
                     \<lparr>bo_ref = rk_ref input, bo_reportPath = None, bo_runId = None, bo_submissionAttemptId = None\<rparr>
                     (VerifiedArtifact (remote_reference sha256 bytes) bytes)
                     (RemoteAuthority (rk_identity input)))))"

section \<open>The ways a submission succeeds\<close>

definition owns :: "submission_authority \<Rightarrow> block_type \<Rightarrow> block_state \<Rightarrow> bool" where
  "owns authority bt b \<longleftrightarrow>
     (case authority of
        LocalAuthority \<Rightarrow> bs_remoteOwnership b = None \<and> bs_remoteOperationReceipt b = None \<and>
          (bs_status b = BInProgress \<or> bs_status b = BCompleted)
      | RemoteAuthority i \<Rightarrow> (\<exists>current. assertActiveRemoteBlockOwnership bt b i = Inr current) \<and>
          (bs_status b = BInProgress \<or> (bs_status b = BDiverged \<and> resumable b)))"

lemma remote_guard_Inr:
  "remote_guard env mf ctx ref bt b i ws = (Inr u, ws') \<Longrightarrow> ws' = ws \<and> owns (RemoteAuthority i) bt b"
  by (auto simp: remote_guard_def owns_def cmd_bind_Inr split: if_splits)

lemma local_guard_Inr:
  "local_guard opts b = Inr u \<Longrightarrow> receipt_guard LocalAuthority ref b = Inr v \<Longrightarrow> owns LocalAuthority bt b"
  by (auto simp: local_guard_def receipt_guard_def owns_def split: if_splits)

lemma submitBlock_InrE:
  assumes "submitBlockResultArtifact env mf opts artifact authority ws = (Inr r, ws')"
  obtains (replay) ctx w0 taskId blockId block b identity receipt where
      "loadRuntime mf ws = (Inr ctx, w0)" "parseBlockRef (bo_ref opts) = Inr (taskId, blockId)"
      "getBlock (rc_graph ctx) (bo_ref opts) = Inr block" "map_get (rs_blocks (rc_state ctx)) (bo_ref opts) = Some b"
      "bs_remoteOperationReceipt b = Some receipt"
      "receipt_replay (se_sha env) (bo_ref opts) artifact identity receipt w0 = (Inr r, ws')"
    | (submit) ctx w0 taskId blockId block b where
      "loadRuntime mf ws = (Inr ctx, w0)" "parseBlockRef (bo_ref opts) = Inr (taskId, blockId)"
      "getBlock (rc_graph ctx) (bo_ref opts) = Inr block" "mb_type block \<noteq> Review"
      "map_get (rs_blocks (rc_state ctx)) (bo_ref opts) = Some b" "owns authority (mb_type block) b"
      "run_id_guard (bo_runId opts) = Inr ()"
      "process_submission env mf opts authority (mb_type block) taskId blockId artifact b (rc_state ctx) w0 = (Inr r, ws')"
proof -
  let ?ref = "bo_ref opts"
  from assms obtain ctx w0 taskId blockId block where
    1: "loadRuntime mf ws = (Inr ctx, w0)" "parseBlockRef ?ref = Inr (taskId, blockId)"
      "getBlock (rc_graph ctx) ?ref = Inr block" "mb_type block \<noteq> Review"
    and rest: "(case map_get (rs_blocks (rc_state ctx)) ?ref of
        None \<Rightarrow> cmd_lift (Inl (SubmitNotInProgress ?ref))
      | Some b \<Rightarrow>
          cmd_bind (cmd_lift (receipt_guard authority ?ref b)) (\<lambda>_.
          case (authority, bs_remoteOperationReceipt b) of
            (RemoteAuthority identity, Some receipt) \<Rightarrow> receipt_replay (se_sha env) ?ref artifact identity receipt
          | _ \<Rightarrow>
              cmd_bind (case authority of
                          RemoteAuthority identity \<Rightarrow> remote_guard env mf ctx ?ref (mb_type block) b identity
                        | LocalAuthority \<Rightarrow> cmd_lift (local_guard opts b)) (\<lambda>_.
              cmd_bind (cmd_lift (run_id_guard (bo_runId opts))) (\<lambda>_.
              process_submission env mf opts authority (mb_type block) taskId blockId artifact b (rc_state ctx))))) w0 =
      (Inr r, ws')"
    unfolding submitBlockResultArtifact_def Let_def by (auto simp: cmd_bind_Inr split: if_splits)
  from rest obtain b where b: "map_get (rs_blocks (rc_state ctx)) ?ref = Some b"
    by (cases "map_get (rs_blocks (rc_state ctx)) ?ref") auto
  show ?thesis
  proof (cases authority)
    case LocalAuthority
    with rest b have "receipt_guard LocalAuthority ?ref b = Inr ()" "local_guard opts b = Inr ()"
      "run_id_guard (bo_runId opts) = Inr ()"
      "process_submission env mf opts authority (mb_type block) taskId blockId artifact b (rc_state ctx) w0 = (Inr r, ws')"
      by (auto simp: cmd_bind_Inr)
    with 1 b local_guard_Inr [of opts b] LocalAuthority show ?thesis by (intro submit) auto
  next
    case (RemoteAuthority i)
    show ?thesis
    proof (cases "bs_remoteOperationReceipt b")
      case (Some rc)
      with rest b RemoteAuthority 1 show ?thesis by (intro replay [of ctx w0]) (auto simp: cmd_bind_Inr)
    next
      case None
      with rest b RemoteAuthority obtain w1 where "remote_guard env mf ctx ?ref (mb_type block) b i w0 = (Inr (), w1)"
        "run_id_guard (bo_runId opts) = Inr ()"
        "process_submission env mf opts authority (mb_type block) taskId blockId artifact b (rc_state ctx) w1 = (Inr r, ws')"
        by (auto simp: cmd_bind_Inr)
      with 1 b remote_guard_Inr [of env mf ctx ?ref "mb_type block" b i] RemoteAuthority show ?thesis
        by (intro submit) auto
    qed
  qed
qed

lemma process_InrE:
  assumes "process_submission env mf opts authority bt taskId blockId artifact b s ws = (Inr r, ws')"
  obtains (persisted) run runId where
      "resolveSubmissionRun (dir_of (wf_runs ws) (bo_ref opts)) b
         (case authority of RemoteAuthority i \<Rightarrow> Some (remote_attempt_id i) | LocalAuthority \<Rightarrow> bs_submissionAttemptId b)
         (bo_runId opts) (bo_ref opts) taskId blockId (authority = LocalAuthority) = Inr run"
      "truthy (sn_runId run) = Some runId"
      "runHasSubmittedResult (se_sha env) (run_of ws (bo_ref opts) runId) (bo_ref opts) runId artifact = Inr True"
      "resume_persisted env mf authority bt (bo_ref opts) taskId runId s ws = (Inr r, ws')"
    | (fresh) run where
      "resolveSubmissionRun (dir_of (wf_runs ws) (bo_ref opts)) b
         (case authority of RemoteAuthority i \<Rightarrow> Some (remote_attempt_id i) | LocalAuthority \<Rightarrow> bs_submissionAttemptId b)
         (bo_runId opts) (bo_ref opts) taskId blockId (authority = LocalAuthority) = Inr run"
      "\<not> report_conflict (se_sha env (art_bytes artifact)) (sn_metadata run)"
      "authority = LocalAuthority \<Longrightarrow> bs_status b = BInProgress"
      "new_submission env mf opts authority bt taskId blockId
         (case authority of RemoteAuthority i \<Rightarrow> Some (remote_attempt_id i) | LocalAuthority \<Rightarrow> bs_submissionAttemptId b)
         artifact run b s ws = (Inr r, ws')"
proof -
  let ?att = "case authority of RemoteAuthority i \<Rightarrow> Some (remote_attempt_id i) | LocalAuthority \<Rightarrow> bs_submissionAttemptId b"
  from assms obtain run p where
    1: "resolveSubmissionRun (dir_of (wf_runs ws) (bo_ref opts)) b ?att (bo_runId opts) (bo_ref opts) taskId blockId
          (authority = LocalAuthority) = Inr run" "\<not> report_conflict (se_sha env (art_bytes artifact)) (sn_metadata run)"
    and p: "(case truthy (sn_runId run) of
          None \<Rightarrow> Inr None
        | Some r \<Rightarrow> try_bind (runHasSubmittedResult (se_sha env) (map_get (dir_of (wf_runs ws) (bo_ref opts)) r) (bo_ref opts) r artifact) (\<lambda>ok.
            Inr (if ok then Some r else None))) = Inr p"
    and rest: "(case p of
             Some r \<Rightarrow> resume_persisted env mf authority bt (bo_ref opts) taskId r s
           | None \<Rightarrow>
               if authority = LocalAuthority \<and> bs_status b \<noteq> BInProgress
               then cmd_lift (Inl (SubmitNotInProgress (bo_ref opts)))
               else new_submission env mf opts authority bt taskId blockId ?att artifact run b s) ws = (Inr r, ws')"
    unfolding process_submission_def Let_def by (auto simp: cmd_bind_Inr split: if_splits)
  show ?thesis
  proof (cases p)
    case None
    with rest 1 show ?thesis by (intro fresh) (auto split: if_splits)
  next
    case (Some q)
    with p have "truthy (sn_runId run) = Some q"
      "runHasSubmittedResult (se_sha env) (run_of ws (bo_ref opts) q) (bo_ref opts) q artifact = Inr True"
      by (auto simp: run_of_def try_bind_eq_Inr split: option.splits if_splits)
    with rest 1 Some show ?thesis by (intro persisted) auto
  qed
qed

lemma replay_Inr:
  "receipt_replay sha ref artifact i receipt ws = (Inr r, ws') \<Longrightarrow>
   \<exists>i runId bt. r = completed_result ref runId \<and> receipt = CompletedReceipt i runId bt \<and> ws' = ws \<and>
     runHasSubmittedResult sha (run_of ws ref runId) ref runId artifact = Inr True"
  by (auto simp: receipt_replay_def cmd_bind_Inr split: remote_receipt.splits if_splits)

section \<open>Reports that are too large\<close>

lemma too_large_not_stored:
  assumes "RUNNER_ARTIFACT_MAX_CONTENT_BYTES < length bytes"
  shows "new_submission env mf opts authority bt taskId blockId attemptId (VerifiedArtifact r bytes) run b s ws \<noteq> (Inr x, ws')"
  using assms
  by (auto simp: new_submission_def cmd_bind_Inr store_report_def store_artifact_def materializeArtifactBytes_def)

lemma too_large_not_found:
  assumes "RUNNER_ARTIFACT_MAX_CONTENT_BYTES < length bytes"
  shows "runHasSubmittedResult sha dir ref runId (VerifiedArtifact r bytes) \<noteq> Inr True"
  using assms
  by (auto simp: runHasSubmittedResult_def readVerifiedArtifactReference_def try_bind_def
      split: option.splits sum.splits if_splits)

lemma too_large_not_submitted:
  assumes "RUNNER_ARTIFACT_MAX_CONTENT_BYTES < length bytes"
  shows "submitBlockResultArtifact env mf opts (VerifiedArtifact r bytes) authority ws \<noteq> (Inr x, ws')"
proof
  assume "submitBlockResultArtifact env mf opts (VerifiedArtifact r bytes) authority ws = (Inr x, ws')"
  then show False
    by (rule submitBlock_InrE)
      (auto dest!: replay_Inr simp: too_large_not_found [OF assms] too_large_not_stored [OF assms] elim!: process_InrE)
qed

section \<open>The run directory of a stored report\<close>

lemma run_of_set [simp]:
  "run_of (set_run ref r d ws) ref' r' = (if ref' = ref \<and> r' = r then Some d else run_of ws ref' r')"
  by (simp add: run_of_def set_run_def dir_of_def jm.get_put split: option.splits)

lemma set_run_frame [simp]:
  "wf_state (set_run ref r d ws) = wf_state ws" "wf_taskIndex (set_run ref r d ws) = wf_taskIndex ws"
  by (simp_all add: set_run_def)

lemma run_of_frame [simp]:
  "run_of (ws\<lparr>wf_state := x\<rparr>) ref r = run_of ws ref r" "run_of (ws\<lparr>wf_taskIndex := y\<rparr>) ref r = run_of ws ref r"
  by (simp_all add: run_of_def)

lemma updateTaskIndex_Inr:
  "updateTaskIndex t f ws = (Inr u, ws') \<longleftrightarrow>
     ws' = ws\<lparr>wf_taskIndex := map_set (wf_taskIndex ws) t (f (readTaskIndex ws t))\<rparr>"
  by (simp add: updateTaskIndex_def)

lemma index_run_Inr: "cmd_index_run env ref r ws = (Inr u, ws') \<longleftrightarrow> ws' = ws \<and> se_indexRun env ref r ws = Inr u"
  by (auto simp: cmd_index_run_def cmd_bind_Inr)

definition artifact_typed :: "submission_artifact \<Rightarrow> bool" where
  "artifact_typed artifact \<longleftrightarrow>
     (case artifact of LegacyArtifact _ \<Rightarrow> True | VerifiedArtifact r _ \<Rightarrow> artifactReference_valid r)"

lemma store_artifact_Inr:
  assumes "store_artifact env ref runId artifact ws = (Inr reference, ws')" and "run_of ws ref runId = Some d"
  shows "ws' = set_run ref runId (d\<lparr>rd_files := map_set (rd_files d) report_name (art_bytes artifact)\<rparr>) ws"
    and "case artifact of
       LegacyArtifact _ \<Rightarrow> reference = None
     | VerifiedArtifact _ bytes \<Rightarrow> length bytes \<le> RUNNER_ARTIFACT_MAX_CONTENT_BYTES \<and>
         artifactReference_valid (remote_reference (se_sha env bytes) bytes) \<and>
         reference = Some (remote_reference (se_sha env bytes) bytes)"
  using assms
  by (auto simp: store_artifact_def cmd_bind_Inr materializeArtifactBytes_def referenceFromBytes_def Let_def
      remote_reference_def try_bind_eq_Inr split: submission_artifact.splits if_splits)

lemma typed_reference:
  assumes "artifact_guard sha (VerifiedArtifact r bytes) = Inr u" and "artifactReference_valid r"
  shows "r = remote_reference (sha bytes) bytes"
  using assms
  by (cases r) (auto simp: artifact_guard_def artifactReference_valid_def remote_reference_def split: if_splits)

lemma submitted_metadata_valid:
  assumes "runMetadata_valid m" and "rm_ref m = Some (bo_ref opts)" and "rm_taskId m = Some taskId"
    and "rm_blockId m = Some blockId" and "rm_runId m = Some runId" and "rm_submissionAttemptId m = Some a"
    and "rm_submissionReportHash m = Some h" and "se_now env \<noteq> []"
    and "case reference of None \<Rightarrow> True | Some r \<Rightarrow> artifactReference_valid r"
  shows "runMetadata_valid (submitted_metadata env opts taskId blockId runId a h reference m)"
  using assms by (auto simp: runMetadata_valid_def submitted_metadata_def hex64_def split: option.splits)

lemma has_submitted:
  assumes "map_get (rd_files d) report_name = Some report" and "readRunMetadata d = Inr (Some md)"
    and "rm_ref md = Some ref" and "rm_runId md = Some runId" and "rm_reportHash md = Some (sha (art_bytes artifact))"
    and "case artifact of
       LegacyArtifact bytes \<Rightarrow> report = bytes
     | VerifiedArtifact r bytes \<Rightarrow> readVerifiedArtifactReference sha d (rm_artifactReference md) = Inr (r, bytes)"
  shows "runHasSubmittedResult sha (Some d) ref runId artifact = Inr True"
  using assms by (cases artifact) (simp_all add: runHasSubmittedResult_def)

text \<open>A run directory that carries a reservation of this submission.\<close>

definition reserved_metadata :: "string \<Rightarrow> string \<Rightarrow> string \<Rightarrow> string \<Rightarrow> string \<Rightarrow> string \<Rightarrow> run_metadata \<Rightarrow> bool" where
  "reserved_metadata ref taskId blockId runId a h m \<longleftrightarrow> runMetadata_valid m \<and>
     rm_ref m = Some ref \<and> rm_taskId m = Some taskId \<and> rm_blockId m = Some blockId \<and> rm_runId m = Some runId \<and>
     rm_submissionAttemptId m = Some a \<and> rm_submissionReportHash m = Some h"

definition run_records :: "workspace_files \<Rightarrow> string \<Rightarrow> string \<Rightarrow> string \<Rightarrow> string \<Rightarrow> string \<Rightarrow> string \<Rightarrow> string option \<Rightarrow> bool" where
  "run_records ws ref taskId blockId runId a h recorded \<longleftrightarrow>
     (\<exists>d m. run_of ws ref runId = Some d \<and> rd_metadata d = Some m \<and>
        reserved_metadata ref taskId blockId runId a h m \<and> rm_reportHash m = recorded)"

lemma store_report_holds:
  assumes run: "store_report env opts taskId blockId runId a artifact ws = (Inr u, ws')"
    and d: "run_of ws (bo_ref opts) runId = Some d"
    and m: "rd_metadata d = Some (reservation (bo_ref opts) taskId blockId runId a (se_sha env (art_bytes artifact)) m0)"
    and now: "se_now env \<noteq> []"
    and typed: "artifact_typed artifact" and guard: "artifact_guard (se_sha env) artifact = Inr v"
  shows "runHasSubmittedResult (se_sha env) (run_of ws' (bo_ref opts) runId) (bo_ref opts) runId artifact = Inr True"
    and "wf_state ws' = wf_state ws" and "wf_taskIndex ws' = wf_taskIndex ws"
    and "\<exists>d'. ws' = set_run (bo_ref opts) runId d' ws"
    and "run_records ws' (bo_ref opts) taskId blockId runId a (se_sha env (art_bytes artifact)) (Some (se_sha env (art_bytes artifact)))"
proof -
  let ?ref = "bo_ref opts" and ?h = "se_sha env (art_bytes artifact)"
  let ?m = "reservation ?ref taskId blockId runId a ?h m0"
  let ?d1 = "d\<lparr>rd_files := map_set (rd_files d) report_name (art_bytes artifact)\<rparr>"
  from run obtain reference ws1 x where st: "store_artifact env ?ref runId artifact ws = (Inr reference, ws1)"
    and x: "(case run_of ws1 ?ref runId of None \<Rightarrow> Inr None | Some d \<Rightarrow> readRunMetadata d) = Inr x"
    and w: "write_metadata ?ref runId (submitted_metadata env opts taskId blockId runId a ?h reference
        (case x of None \<Rightarrow> no_metadata | Some md \<Rightarrow> md)) ws1 = (Inr u, ws')"
    unfolding store_report_def by (auto simp: cmd_bind_Inr)
  note sa = store_artifact_Inr [OF st d]
  from x sa(1) m have valid: "runMetadata_valid ?m" and xm: "x = Some ?m"
    by (auto simp: readRunMetadata_def split: if_splits)
  let ?md = "submitted_metadata env opts taskId blockId runId a ?h reference ?m"
  have ref_ok: "case reference of None \<Rightarrow> True | Some r \<Rightarrow> artifactReference_valid r"
    using sa(2) by (auto split: submission_artifact.splits)
  have mdv: "runMetadata_valid ?md"
    by (rule submitted_metadata_valid [OF valid _ _ _ _ _ _ now ref_ok]) (simp_all add: reservation_def)
  have ws': "ws' = set_run ?ref runId (?d1\<lparr>rd_metadata := Some ?md\<rparr>) ws"
    using w sa(1) xm by (simp add: write_metadata_def) (simp add: set_run_def dir_of_def jm.get_put map_set_set)
  then show "wf_state ws' = wf_state ws" "wf_taskIndex ws' = wf_taskIndex ws" "\<exists>d'. ws' = set_run ?ref runId d' ws" by auto
  define d' where "d' = ?d1\<lparr>rd_metadata := Some ?md\<rparr>"
  have d': "run_of ws' ?ref runId = Some d'" "map_get (rd_files d') report_name = Some (art_bytes artifact)"
    by (simp_all add: ws' d'_def jm.get_put)
  have read: "readRunMetadata d' = Inr (Some ?md)" using mdv by (simp add: readRunMetadata_def d'_def)
  show "run_records ws' ?ref taskId blockId runId a ?h (Some ?h)"
    unfolding run_records_def reserved_metadata_def
    by (intro exI conjI, rule d'(1), simp add: d'_def, rule mdv) (simp_all add: submitted_metadata_def reservation_def)
  have fields: "rm_ref ?md = Some ?ref" "rm_runId ?md = Some runId" "rm_reportHash ?md = Some ?h"
    "reference \<noteq> None \<Longrightarrow> rm_artifactReference ?md = reference"
    by (auto simp: submitted_metadata_def split: option.splits)
  have "case artifact of
       LegacyArtifact bytes \<Rightarrow> art_bytes artifact = bytes
     | VerifiedArtifact r bytes \<Rightarrow> readVerifiedArtifactReference (se_sha env) d' (rm_artifactReference ?md) = Inr (r, bytes)"
  proof (cases artifact)
    case (VerifiedArtifact r bytes)
    have r: "r = remote_reference (se_sha env bytes) bytes"
      using typed_reference guard typed VerifiedArtifact by (auto simp: artifact_typed_def)
    have v: "length bytes \<le> RUNNER_ARTIFACT_MAX_CONTENT_BYTES" "artifactReference_valid r" "reference = Some r"
      using sa(2) VerifiedArtifact r by auto
    then have "rm_artifactReference ?md = Some r" using fields(4) by simp
    moreover have "ar_relativePath r = report_name" "ar_sizeBytes r = length bytes" "ar_sha256 r = se_sha env bytes"
      by (simp_all add: r remote_reference_def)
    ultimately show ?thesis using v(1,2) VerifiedArtifact d'(2) by (simp add: readVerifiedArtifactReference_def)
  qed simp
  then show "runHasSubmittedResult (se_sha env) (run_of ws' ?ref runId) ?ref runId artifact = Inr True"
    unfolding d'(1) by (rule has_submitted [where sha = "se_sha env", OF d'(2) read fields(1-3)])
qed

section \<open>Reserving a run and completing the block\<close>

definition reserved_block :: "string \<Rightarrow> string \<Rightarrow> block_state \<Rightarrow> block_state" where
  "reserved_block a runId b = b\<lparr>bs_submissionAttemptId := Some a, bs_submissionRunId := Some runId\<rparr>"

lemma reserve_directory_Inr:
  assumes "reserve_directory ref run ws = (Inr runId, ws')"
  shows "wf_state ws' = wf_state ws" and "wf_taskIndex ws' = wf_taskIndex ws"
    and "sn_runId run = None \<Longrightarrow> \<not> map_has (dir_of (wf_runs ws) ref) runId \<and> matches_id ''RUN'' runId \<and>
      ws' = set_run ref runId empty_run ws"
    and "sn_runId run = Some r \<Longrightarrow> runId = r \<and>
      ws' = (if r \<noteq> [] \<and> \<not> sn_exists run then set_run ref r empty_run ws else ws)"
  using assms
  by (auto simp: reserve_directory_def cmd_bind_Inr set_run_def dest: allocate_spec
      split: option.splits if_splits)

lemma set_run_set [simp]: "set_run ref r d' (set_run ref r d ws) = set_run ref r d' ws"
  by (simp add: set_run_def dir_of_def jm.get_put map_set_set)

lemma set_run_state [simp]: "set_run ref r d (ws\<lparr>wf_state := x\<rparr>) = (set_run ref r d ws)\<lparr>wf_state := x\<rparr>"
  by (simp add: set_run_def)

lemma with_block_twice [simp]: "with_block ref y (with_block ref x s) = with_block ref y s"
  by (simp add: with_block_def map_set_set)

definition attempt_or_new :: "submission_environment \<Rightarrow> string option \<Rightarrow> string" where
  "attempt_or_new env attemptId = (case attemptId of None \<Rightarrow> se_uuid env | Some x \<Rightarrow> x)"

lemma reserve_attempt_Inr:
  assumes "reserve_attempt env ref attemptId b s ws = (Inr (a, s1), ws')"
  shows "a = attempt_or_new env attemptId" and "\<exists>x. ws' = ws\<lparr>wf_state := x\<rparr>"
    and "with_block ref y s1 = with_block ref y s"
proof -
  have "a = attempt_or_new env attemptId \<and> (\<exists>x. ws' = ws\<lparr>wf_state := x\<rparr>) \<and> with_block ref y s1 = with_block ref y s"
  proof (cases "truthy attemptId")
    case None
    with assms show ?thesis by (auto simp: reserve_attempt_def attempt_or_new_def Let_def cmd_bind_Inr)
  next
    case (Some x)
    then have "attemptId = Some x" by (auto simp: truthy_def split: option.splits if_splits)
    with assms Some have "a = x" "s1 = s" "ws' = ws" by (auto simp: reserve_attempt_def)
    moreover have "\<exists>y. ws = ws\<lparr>wf_state := y\<rparr>" by (rule exI [of _ "wf_state ws"]) simp
    ultimately show ?thesis using \<open>attemptId = Some x\<close> by (simp add: attempt_or_new_def)
  qed
  then show "a = attempt_or_new env attemptId" "\<exists>x. ws' = ws\<lparr>wf_state := x\<rparr>" "with_block ref y s1 = with_block ref y s"
    by auto
qed

lemma reserve_run_Inr:
  assumes "reserve_run env ref taskId blockId attemptId h run b s ws = (Inr (runId, a, s1), ws')"
  shows "a = attempt_or_new env attemptId" and "s1 = with_block ref (reserved_block a runId b) s"
    and "\<exists>d. ws' = (set_run ref runId d ws)\<lparr>wf_state := Some s1\<rparr> \<and>
       rd_metadata d = Some (reservation ref taskId blockId runId a h (sn_metadata run)) \<and>
       (\<forall>d0. sn_exists run \<longrightarrow> sn_runId run \<noteq> None \<longrightarrow> run_of ws ref runId = Some d0 \<longrightarrow> rd_files d = rd_files d0)"
    and "sn_runId run = None \<Longrightarrow> \<not> map_has (dir_of (wf_runs ws) ref) runId \<and> matches_id ''RUN'' runId"
    and "sn_runId run = Some r \<Longrightarrow> runId = r"
proof -
  from assms obtain a0 s0 w0 w1 where at: "reserve_attempt env ref attemptId b s ws = (Inr (a0, s0), w0)"
    and dir: "reserve_directory ref run w0 = (Inr runId, w1)"
    and a: "a = a0" "s1 = with_block ref (reserved_block a0 runId b) s0"
    and ws': "ws' = (set_run ref runId
        ((case run_of w1 ref runId of None \<Rightarrow> empty_run | Some d \<Rightarrow> d)
          \<lparr>rd_metadata := Some (reservation ref taskId blockId runId a0 h (sn_metadata run))\<rparr>) w1)\<lparr>wf_state := Some s1\<rparr>"
    by (auto simp: reserve_run_def cmd_bind_Inr write_metadata_def reserved_block_def Let_def)
  note at = reserve_attempt_Inr [OF at] and dir = reserve_directory_Inr [OF dir]
  from at(2) obtain x where w0: "w0 = ws\<lparr>wf_state := x\<rparr>" by blast
  show "a = attempt_or_new env attemptId" "s1 = with_block ref (reserved_block a runId b) s"
    using a at(1,3) by simp_all
  show "sn_runId run = None \<Longrightarrow> \<not> map_has (dir_of (wf_runs ws) ref) runId \<and> matches_id ''RUN'' runId"
    using dir(3) w0 by simp
  show "sn_runId run = Some r \<Longrightarrow> runId = r" using dir(4) by simp
  let ?m = "reservation ref taskId blockId runId a h (sn_metadata run)"
  have "\<exists>d. w1 = set_run ref runId d w0 \<and> \<not> (sn_exists run \<and> sn_runId run \<noteq> None) \<or> w1 = w0"
    using dir(3,4) by (cases "sn_runId run") auto
  then have "\<exists>d. ws' = (set_run ref runId d ws)\<lparr>wf_state := Some s1\<rparr> \<and> rd_metadata d = Some ?m \<and>
      (\<forall>d0. sn_exists run \<longrightarrow> sn_runId run \<noteq> None \<longrightarrow> run_of ws ref runId = Some d0 \<longrightarrow> rd_files d = rd_files d0)"
    unfolding ws' a(1) w0 by (elim exE disjE conjE; clarsimp) (rule exI, intro conjI, rule refl, simp_all)+
  then show "\<exists>d. ws' = (set_run ref runId d ws)\<lparr>wf_state := Some s1\<rparr> \<and> rd_metadata d = Some ?m \<and>
      (\<forall>d0. sn_exists run \<longrightarrow> sn_runId run \<noteq> None \<longrightarrow> run_of ws ref runId = Some d0 \<longrightarrow> rd_files d = rd_files d0)" .
qed

lemma completed_block_facts:
  assumes "completed_block authority bt b runId = Inr b1" and "blockState_valid b" and "bt \<noteq> Review"
  shows "bs_status b1 = BCompleted" and "bs_lastRunId b1 = Some runId" and "blockState_valid b1"
    and "\<forall>rc. bs_remoteOperationReceipt b1 = Some rc \<longrightarrow> remoteOperationReceiptMatchesBlockType rc bt"
proof -
  have bt: "bt = Implementation" using assms(3) by (cases bt) auto
  show "blockState_valid b1"
  proof (cases authority)
    case LocalAuthority
    with assms withoutRemote_valid [OF assms(2), of BCompleted] show ?thesis
      by (auto simp: completed_block_def block_valid_simps)
  next
    case (RemoteAuthority i)
    with assms complete_valid show ?thesis by (auto simp: completed_block_def)
  qed
  show "bs_status b1 = BCompleted" "bs_lastRunId b1 = Some runId"
    "\<forall>rc. bs_remoteOperationReceipt b1 = Some rc \<longrightarrow> remoteOperationReceiptMatchesBlockType rc bt"
    using assms bt
    by (auto simp: completed_block_def completeRemoteBlockOwnership_def parse_receipt_def try_bind_eq_Inr
        remoteOperationReceiptMatchesBlockType_def split: submission_authority.splits if_splits)
qed

text \<open>The state that completing leaves in the files.\<close>

definition completed_in :: "manifest \<Rightarrow> runtime_state \<Rightarrow> string \<Rightarrow> string \<Rightarrow> workspace_files \<Rightarrow> bool" where
  "completed_in mf s ref runId ws' \<longleftrightarrow>
     (\<exists>s' b'. loaded_state mf ws' = Inr s' \<and> map_get (rs_blocks s') ref = Some b' \<and>
        bs_status b' = BCompleted \<and> bs_lastRunId b' = Some runId \<and>
        set (rs_currentRefs s') \<subseteq> set (rs_currentRefs s) \<and> (\<forall>q. q \<noteq> ref \<longrightarrow> same_record s s' q))"

lemma complete_Inr:
  assumes ctx: "context_ok mf ctx" and known: "map_get (rs_blocks (rc_state ctx)) ref = Some b0"
    and s: "s = with_block ref b (rc_state ctx)" and b: "blockState_valid b"
    and bt: "bt = mb_type (block_of (rc_graph ctx) ref)" "bt \<noteq> Review"
    and run: "complete_submission mf authority bt ref runId s ws = (Inr r, ws')"
  obtains s' b1 where "r = completed_result ref runId" "ws' = ws\<lparr>wf_state := Some s'\<rparr>"
    "loaded_state mf ws' = Inr s'" "completed_block authority bt b runId = Inr b1" "map_get (rs_blocks s') ref = Some b1"
    "rs_currentRefs s' = without_ref (rs_currentRefs (rc_state ctx)) ref"
    "\<forall>q. q \<noteq> ref \<longrightarrow> same_record (rc_state ctx) s' q" "blockState_valid b1"
proof -
  note c = context_okD [OF ctx] and r = context_block_known(1) [OF ctx known]
  let ?s1 = "\<lambda>b1. (with_block ref b1 s)\<lparr>rs_currentRefs := without_ref (rs_currentRefs s) ref\<rparr>"
  from run s obtain b1 s' where b1: "completed_block authority bt b runId = Inr b1"
    and e: "ensureStateForManifest mf (?s1 b1) = Inr s'"
    and w: "ws' = ws\<lparr>wf_state := Some s'\<rparr>" and res: "r = completed_result ref runId"
    by (auto simp: complete_submission_def cmd_bind_Inr saveState_Inr requireBlockState_def jm.get_put)
  note f = completed_block_facts [OF b1 b bt(2)]
  have v: "runtimeState_valid (?s1 b1)"
  proof -
    have "runtimeState_valid (with_block ref b1 (rc_state ctx))" using with_block_valid [OF c(3) f(3)] .
    then show ?thesis by (simp add: runtimeState_valid_def s map_set_set)
  qed
  have refs: "set (rs_currentRefs (?s1 b1)) \<subseteq> set (blockRefsInManifestOrder (rc_graph ctx))"
    using c(4) s by (auto simp: reconciled_def)
  have fb: "\<forall>p \<in> set (rs_feedback (?s1 b1)). fb_sourceReviewBlockRef (snd p) \<in> set (blockRefsInManifestOrder (rc_graph ctx))"
    using c(4) s by (simp add: reconciled_def)
  have blocks: "rs_blocks (?s1 b1) = map_set (rs_blocks (rc_state ctx)) ref b1" by (simp add: s map_set_set)
  have st: "bs_status b1 \<noteq> BPlanned" "bs_status b1 \<noteq> BReady" using f(1) by simp_all
  note sv = save_record [OF ctx r blocks st f(4) [unfolded bt(1)] refs fb e]
  have ld: "loaded_state mf ws' = Inr s'" unfolding w by (rule loaded_state_saved [OF e v])
  show ?thesis
    by (rule that [OF res w ld b1 sv(1) _ sv(2) f(3)]) (simp add: sv(3) s)
qed

lemma complete_completed_in:
  assumes "context_ok mf ctx" and "map_get (rs_blocks (rc_state ctx)) ref = Some b0"
    and "s = with_block ref b (rc_state ctx)" and "blockState_valid b"
    and "bt = mb_type (block_of (rc_graph ctx) ref)" "bt \<noteq> Review"
    and "complete_submission mf authority bt ref runId s ws = (Inr r, ws')"
  shows "completed_in mf (rc_state ctx) ref runId ws'" and "r = completed_result ref runId"
    and "\<exists>x. ws' = ws\<lparr>wf_state := x\<rparr>"
proof -
  from complete_Inr [OF assms] obtain s' b1 where 1: "r = completed_result ref runId" "ws' = ws\<lparr>wf_state := Some s'\<rparr>"
    "loaded_state mf ws' = Inr s'" "completed_block authority bt b runId = Inr b1" "map_get (rs_blocks s') ref = Some b1"
    "rs_currentRefs s' = without_ref (rs_currentRefs (rc_state ctx)) ref"
    "\<forall>q. q \<noteq> ref \<longrightarrow> same_record (rc_state ctx) s' q" by metis
  with completed_block_facts(1,2) [OF 1(4) assms(4,6)] show "completed_in mf (rc_state ctx) ref runId ws'"
    unfolding completed_in_def by auto
  from 1(1,2) show "r = completed_result ref runId" "\<exists>x. ws' = ws\<lparr>wf_state := x\<rparr>" by auto
qed

lemma reserved_valid:
  assumes "blockState_valid b" and "a \<noteq> []" and "submissionRunId_valid runId"
  shows "blockState_valid (reserved_block a runId b)"
  using assms by (auto simp: block_valid_simps reserved_block_def split: option.splits remote_receipt.splits)

section \<open>Names of run directories\<close>

definition runs_named :: "workspace_files \<Rightarrow> bool" where
  "runs_named ws \<longleftrightarrow> (\<forall>ref r. map_has (dir_of (wf_runs ws) ref) r \<longrightarrow> submissionRunId_valid r)"

lemma matches_RUN_valid:
  assumes "matches_id ''RUN'' r"
  shows "submissionRunId_valid r"
proof -
  from assms obtain ds where r: "r = ''RUN-'' @ ds" and d: "list_all is_digit ds"
    by (auto simp: matches_id_def Let_def dest!: append_take_drop_id [THEN subst, of "\<lambda>x. x = r"])
      (metis append_Cons append_Nil append_take_drop_id)
  have "c \<notin> {CHR ''/'', CHR 0x5C, CHR 0x00}" if "is_digit c" for c
    using that by (auto simp: is_digit_def)
  with d have "list_all (\<lambda>c. c \<notin> {CHR ''/'', CHR 0x5C, CHR 0x00}) ds" by (auto simp: list_all_iff)
  then show ?thesis by (simp add: r submissionRunId_valid_def)
qed

lemma findAttemptRun_has:
  assumes "findAttemptRun runs a = Inr (Some r)"
  shows "map_has runs r"
proof -
  have sub: "filter_res p xs = Inr ys \<Longrightarrow> set ys \<subseteq> set xs" for p and xs ys :: "(string \<times> run_dir) list"
    by (induction xs arbitrary: ys) (auto simp: try_bind_eq_Inr split: if_splits)
  from assms obtain ms where ms: "filter_res (\<lambda>p. try_bind (readRunMetadata (snd p)) (\<lambda>m.
         Inr (case m of None \<Rightarrow> False | Some md \<Rightarrow> rm_submissionAttemptId md = Some a))) (filter visible_run runs) = Inr ms"
    and r: "(case ms of [] \<Rightarrow> Inr None | [p] \<Rightarrow> Inr (Some (fst p)) | _ \<Rightarrow> Inl MultipleAttemptRuns) = Inr (Some r)"
    unfolding findAttemptRun_def try_bind_eq_Inr by blast
  from r have "r \<in> fst ` set ms" by (cases ms; cases "tl ms") auto
  with sub [OF ms] show ?thesis by (auto simp: map_has_def)
qed

lemma candidate_cases:
  assumes "candidate_run runs b att runId local = Inr (Some r)"
  shows "runId = Some r \<or> bs_submissionRunId b = Some r \<or> (bs_status b = BCompleted \<and> bs_lastRunId b = Some r) \<or> map_has runs r"
  using assms
  by (auto simp: candidate_run_def Let_def try_bind_eq_Inr dest: findAttemptRun_has split: if_splits)

lemma resolve_cases:
  assumes "resolveSubmissionRun runs b att runId ref taskId blockId local = Inr run" and "sn_runId run = Some r"
  shows "runId = Some r \<or> bs_submissionRunId b = Some r \<or> (bs_status b = BCompleted \<and> bs_lastRunId b = Some r) \<or> map_has runs r"
proof -
  from assms have "candidate_run runs b att runId local = Inr (Some r)"
    by (auto simp: resolveSubmissionRun_def Let_def try_bind_eq_Inr split: if_splits)
  then show ?thesis by (rule candidate_cases)
qed

lemma reserved_run_valid:
  assumes res: "resolveSubmissionRun (dir_of (wf_runs ws) ref) b att runId ref taskId blockId local = Inr run"
    and rv: "reserve_run env ref taskId blockId att h run b s ws = (Inr (r, a, s1), ws')"
    and "runs_named ws" and "blockState_valid b" and "run_id_guard runId = Inr ()" and "bs_status b \<noteq> BCompleted"
  shows "submissionRunId_valid r"
proof (cases "sn_runId run")
  case None
  then show ?thesis using reserve_run_Inr(4) [OF rv] matches_RUN_valid by blast
next
  case (Some q)
  then have "r = q" by (rule reserve_run_Inr(5) [OF rv])
  with resolve_cases [OF res Some] assms(3-6) show ?thesis
    by (auto simp: runs_named_def run_id_guard_def block_valid_simps split: option.splits if_splits)
qed

section \<open>A successful submission\<close>

lemma new_submission_Inr:
  assumes ctx: "context_ok mf ctx" and b: "map_get (rs_blocks (rc_state ctx)) (bo_ref opts) = Some b"
    and bt: "bt = mb_type (block_of (rc_graph ctx) (bo_ref opts))" "bt \<noteq> Review"
    and res: "resolveSubmissionRun (dir_of (wf_runs ws) (bo_ref opts)) b att (bo_runId opts) (bo_ref opts) taskId blockId local = Inr run"
    and guards: "run_id_guard (bo_runId opts) = Inr ()" "bs_status b \<noteq> BCompleted" "artifact_guard (se_sha env) artifact = Inr ()"
    and typed: "artifact_typed artifact" and env: "se_now env \<noteq> []" "att \<noteq> Some []" "se_uuid env \<noteq> []" and named: "runs_named ws"
    and run: "new_submission env mf opts authority bt taskId blockId att artifact run b (rc_state ctx) ws = (Inr r, ws')"
  obtains runId where "r = completed_result (bo_ref opts) runId" "completed_in mf (rc_state ctx) (bo_ref opts) runId ws'"
    "runHasSubmittedResult (se_sha env) (run_of ws' (bo_ref opts) runId) (bo_ref opts) runId artifact = Inr True"
    "\<exists>d. dir_of (wf_runs ws') (bo_ref opts) = map_set (dir_of (wf_runs ws) (bo_ref opts)) runId d"
proof -
  let ?ref = "bo_ref opts" and ?h = "se_sha env (art_bytes artifact)"
  from run obtain runId a s1 w1 w2 w3 where
    1: "reserve_run env ?ref taskId blockId att ?h run b (rc_state ctx) ws = (Inr (runId, a, s1), w1)"
    and 2: "store_report env opts taskId blockId runId a artifact w1 = (Inr (), w2)"
    and 3: "w3 = w2\<lparr>wf_taskIndex := map_set (wf_taskIndex w2) taskId (index_new_run ?ref runId (readTaskIndex w2 taskId))\<rparr>"
    and 4: "complete_submission mf authority bt ?ref runId s1 w3 = (Inr r, ws')"
    by (auto simp: new_submission_def cmd_bind_Inr index_run_Inr updateTaskIndex_Inr)
  note rv = reserve_run_Inr [OF 1]
  have bv: "blockState_valid b" by (rule context_block_valid [OF ctx b])
  have "a \<noteq> []" using rv(1) env by (auto simp: attempt_or_new_def split: option.splits)
  then have rb: "blockState_valid (reserved_block a runId b)"
    using reserved_valid bv reserved_run_valid [OF res 1 named bv guards(1,2)] by blast
  from rv(3) obtain d where d: "w1 = (set_run ?ref runId d ws)\<lparr>wf_state := Some s1\<rparr>"
    "rd_metadata d = Some (reservation ?ref taskId blockId runId a ?h (sn_metadata run))" by blast
  have "run_of w1 ?ref runId = Some d" by (simp add: d)
  note st = store_report_holds [OF 2 this d(2) env(1) typed guards(3)]
  note cm = complete_completed_in [OF ctx b rv(2) rb bt 4]
  from cm(3) st(4) obtain x d' where ws': "ws' = w3\<lparr>wf_state := x\<rparr>" "w2 = set_run ?ref runId d' w1" by blast
  have "run_of ws' ?ref runId = run_of w2 ?ref runId" using 3 ws'(1) by simp
  moreover have "dir_of (wf_runs ws') ?ref = map_set (dir_of (wf_runs ws) ?ref) runId d'"
    using 3 ws' d(1) by (simp add: set_run_def dir_of_def jm.get_put map_set_set)
  ultimately show ?thesis using that [OF cm(2,1)] st(1) by auto
qed

lemma with_block_same: "map_get (rs_blocks s) ref = Some b \<Longrightarrow> with_block ref b s = s"
  by (simp add: with_block_def map_set_same)

lemma resume_Inr:
  assumes ctx: "context_ok mf ctx" and b: "map_get (rs_blocks (rc_state ctx)) ref = Some b"
    and bt: "bt = mb_type (block_of (rc_graph ctx) ref)" "bt \<noteq> Review"
    and run: "resume_persisted env mf authority bt ref taskId runId (rc_state ctx) ws = (Inr r, ws')"
  shows "r = completed_result ref runId" and "completed_in mf (rc_state ctx) ref runId ws'" and "wf_runs ws' = wf_runs ws"
    and "wf_taskIndex ws' = map_set (wf_taskIndex ws) taskId (index_persisted ref runId (readTaskIndex ws taskId))"
proof -
  from run obtain w1 where w1: "w1 = ws\<lparr>wf_taskIndex := map_set (wf_taskIndex ws) taskId (index_persisted ref runId (readTaskIndex ws taskId))\<rparr>"
    and cm: "complete_submission mf authority bt ref runId (rc_state ctx) w1 = (Inr r, ws')"
    by (auto simp: resume_persisted_def cmd_bind_Inr index_run_Inr updateTaskIndex_Inr)
  have same: "rc_state ctx = with_block ref b (rc_state ctx)" using with_block_same [OF b] by simp
  note c = complete_completed_in [OF ctx b same context_block_valid [OF ctx b] bt cm]
  from c(1,2) show "r = completed_result ref runId" "completed_in mf (rc_state ctx) ref runId ws'" by simp_all
  from c(3) w1 show "wf_runs ws' = wf_runs ws"
    "wf_taskIndex ws' = map_set (wf_taskIndex ws) taskId (index_persisted ref runId (readTaskIndex ws taskId))" by auto
qed

lemma receipt_completed:
  assumes "context_ok mf ctx" and "map_get (rs_blocks (rc_state ctx)) ref = Some b"
    and "bs_remoteOperationReceipt b = Some (CompletedReceipt i runId bt)"
  shows "bs_status b = BCompleted \<and> bs_lastRunId b = Some runId"
  using context_block_valid [OF assms(1,2)] assms(3) by (auto simp: block_valid_simps)

lemma loaded_context:
  assumes "loadRuntime mf ws = (Inr ctx, w0)"
  shows "context_ok mf ctx" and "loaded_state mf ws = Inr (rc_state ctx)" and "\<exists>x. w0 = ws\<lparr>wf_state := x\<rparr>"
    and "loaded_state mf w0 = Inr (rc_state ctx)"
proof -
  note l = loadRuntime_Inr [OF assms]
  show c: "context_ok mf ctx" by (rule l(1))
  show 1: "loaded_state mf ws = Inr (rc_state ctx)" by (rule loaded_state_context [OF l(1,2)])
  show "\<exists>x. w0 = ws\<lparr>wf_state := x\<rparr>"
  proof (cases "rc_rawState ctx = rc_state ctx")
    case True
    with l(3) show ?thesis by (intro exI [of _ "wf_state ws"]) simp
  next
    case False
    with l(3) show ?thesis by auto
  qed
  show "loaded_state mf w0 = Inr (rc_state ctx)"
    using l(3) 1 loaded_state_saved [OF context_okD(7) [OF c]] c by (auto simp: context_ok_def)
qed

lemma submission_outcome:
  assumes run: "submitBlockResultArtifact env mf opts artifact authority ws = (Inr r, ws')"
    and s: "loaded_state mf ws = Inr s" and env: "se_now env \<noteq> []" "se_uuid env \<noteq> []"
    and named: "runs_named ws" and typed: "artifact_typed artifact"
  obtains runId where "r = completed_result (bo_ref opts) runId" "completed_in mf s (bo_ref opts) runId ws'"
    "runHasSubmittedResult (se_sha env) (run_of ws' (bo_ref opts) runId) (bo_ref opts) runId artifact = Inr True"
    "wf_runs ws' = wf_runs ws \<or>
     (\<exists>d. dir_of (wf_runs ws') (bo_ref opts) = map_set (dir_of (wf_runs ws) (bo_ref opts)) runId d)"
  using run
proof (rule submitBlock_InrE)
  let ?ref = "bo_ref opts"
  fix ctx w0 taskId blockId block b identity receipt
  assume ld: "loadRuntime mf ws = (Inr ctx, w0)" and b: "map_get (rs_blocks (rc_state ctx)) ?ref = Some b"
    and rc: "bs_remoteOperationReceipt b = Some receipt"
    and rp: "receipt_replay (se_sha env) ?ref artifact identity receipt w0 = (Inr r, ws')"
  note l = loaded_context [OF ld]
  have s': "s = rc_state ctx" using s l(2) by simp
  from replay_Inr [OF rp] obtain i runId bt where
    q: "r = completed_result ?ref runId" "receipt = CompletedReceipt i runId bt" "ws' = w0"
      "runHasSubmittedResult (se_sha env) (run_of w0 ?ref runId) ?ref runId artifact = Inr True" by blast
  have "completed_in mf s ?ref runId ws'"
    unfolding completed_in_def s' q(3) using l(4) b receipt_completed [OF l(1) b] rc q(2)
    by (auto simp: same_record_def)
  moreover have "wf_runs ws' = wf_runs ws" using l(3) q(3) by auto
  ultimately show thesis using that q by auto
next
  let ?ref = "bo_ref opts"
  fix ctx w0 taskId blockId block b
  assume ld: "loadRuntime mf ws = (Inr ctx, w0)" and g: "getBlock (rc_graph ctx) ?ref = Inr block" "mb_type block \<noteq> Review"
    and b: "map_get (rs_blocks (rc_state ctx)) ?ref = Some b" and own: "owns authority (mb_type block) b"
    and rid: "run_id_guard (bo_runId opts) = Inr ()"
    and pr: "process_submission env mf opts authority (mb_type block) taskId blockId artifact b (rc_state ctx) w0 = (Inr r, ws')"
  note l = loaded_context [OF ld]
  have s': "s = rc_state ctx" using s l(2) by simp
  have runs: "wf_runs w0 = wf_runs ws" using l(3) by auto
  have bt: "mb_type block = mb_type (block_of (rc_graph ctx) ?ref)" using getBlock_block_of [OF l(1) g(1)] by simp
  from run have ag: "artifact_guard (se_sha env) artifact = Inr ()"
    by (auto simp: submitBlockResultArtifact_def Let_def cmd_bind_Inr)
  from pr show thesis
  proof (rule process_InrE)
    fix srun runId
    assume h: "runHasSubmittedResult (se_sha env) (run_of w0 ?ref runId) ?ref runId artifact = Inr True"
      and rs: "resume_persisted env mf authority (mb_type block) ?ref taskId runId (rc_state ctx) w0 = (Inr r, ws')"
    note q = resume_Inr [OF l(1) b bt g(2) rs]
    have "run_of ws' ?ref runId = run_of w0 ?ref runId" using q(3) by (simp add: run_of_def)
    with that [OF q(1)] q(2,3) h s' runs show thesis by simp
  next
    fix srun
    let ?att = "case authority of RemoteAuthority i \<Rightarrow> Some (remote_attempt_id i) | LocalAuthority \<Rightarrow> bs_submissionAttemptId b"
    assume res: "resolveSubmissionRun (dir_of (wf_runs w0) ?ref) b ?att (bo_runId opts) ?ref taskId blockId
        (authority = LocalAuthority) = Inr srun"
      and st: "authority = LocalAuthority \<Longrightarrow> bs_status b = BInProgress"
      and nw: "new_submission env mf opts authority (mb_type block) taskId blockId ?att artifact srun b (rc_state ctx) w0 = (Inr r, ws')"
    have nc: "bs_status b \<noteq> BCompleted" using own st by (auto simp: owns_def split: submission_authority.splits)
    have att: "?att \<noteq> Some []"
      using context_block_valid [OF l(1) b]
      by (auto simp: remote_attempt_id_def block_valid_simps split: submission_authority.splits)
    have nm: "runs_named w0" using named runs by (simp add: runs_named_def)
    from new_submission_Inr [OF l(1) b bt g(2) res rid nc ag typed env(1) att env(2) nm nw] that s' runs
    show thesis by metis
  qed
qed

section \<open>Taking up an interrupted submission\<close>

text \<open>Reconciling a loaded state in which the record of one block was replaced does not throw.\<close>

lemma ensure_replaced:
  assumes ctx: "context_ok mf ctx" and known: "map_get (rs_blocks (rc_state ctx)) ref = Some b0"
    and s: "rs_blocks s = map_set (rs_blocks (rc_state ctx)) ref b" and b: "blockState_valid b"
  shows "runtimeState_valid s" and "\<exists>s'. ensureStateForManifest mf s = Inr s'"
proof -
  note c = context_okD [OF ctx]
  show v: "runtimeState_valid s"
    using with_block_valid [OF c(3) b, of ref] runtimeState_valid_cong [of s "with_block ref b (rc_state ctx)"] s by simp
  have "map_has (blocksByRef (rc_graph ctx)) r" if "(r, x) \<in> set (rs_blocks s)" for r x
  proof -
    have "map_has (rs_blocks s) r" using that by (force simp: map_has_def)
    then have "map_has (rs_blocks (rc_state ctx)) r" using s known by (auto simp: js_map_simps split: if_splits)
    then obtain y where "map_get (rs_blocks (rc_state ctx)) r = Some y" by (auto simp: map_has_get)
    from context_block_known(2) [OF ctx this] show ?thesis by (simp add: map_has_get)
  qed
  then show "\<exists>s'. ensureStateForManifest mf s = Inr s'" by (intro ensure_total [OF v c(1)]) auto
qed

lemma complete_local_ok:
  assumes ctx: "context_ok mf ctx" and known: "map_get (rs_blocks (rc_state ctx)) ref = Some b0"
    and s: "s = with_block ref b (rc_state ctx)" and b: "blockState_valid b"
  shows "\<exists>ws'. complete_submission mf LocalAuthority bt ref runId s ws = (Inr (completed_result ref runId), ws')"
proof -
  let ?b1 = "(withoutRemoteBlockOwnership b BCompleted)\<lparr>bs_lastRunId := Some runId\<rparr>"
  have v: "blockState_valid ?b1"
    using withoutRemote_valid [OF b, of BCompleted] by (simp add: block_valid_simps)
  have "rs_blocks ((with_block ref ?b1 s)\<lparr>rs_currentRefs := without_ref (rs_currentRefs s) ref\<rparr>) =
      map_set (rs_blocks (rc_state ctx)) ref ?b1" by (simp add: s map_set_set)
  from ensure_replaced(2) [OF ctx known this v] obtain s' where
    "ensureStateForManifest mf ((with_block ref ?b1 s)\<lparr>rs_currentRefs := without_ref (rs_currentRefs s) ref\<rparr>) = Inr s'" ..
  then show ?thesis
    by (auto simp: complete_submission_def cmd_bind_Inr saveState_Inr requireBlockState_def s jm.get_put completed_block_def)
qed

text \<open>The reserved state loads again, with the reservation in the record of the block.\<close>

lemma load_reserved:
  assumes ctx: "context_ok mf ctx" and known: "map_get (rs_blocks (rc_state ctx)) ref = Some b"
    and st: "bs_status b = BInProgress" "bs_remoteOperationReceipt b = None"
    and b: "blockState_valid (reserved_block a runId b)"
    and w: "wf_state w = Some (with_block ref (reserved_block a runId b) (rc_state ctx))"
  obtains ctx2 w' where "loadRuntime mf w = (Inr ctx2, w')" "rc_graph ctx2 = rc_graph ctx"
    "map_get (rs_blocks (rc_state ctx2)) ref = Some (reserved_block a runId b)"
    "set (rs_currentRefs (rc_state ctx2)) \<subseteq> set (rs_currentRefs (rc_state ctx))"
    "\<forall>q. q \<noteq> ref \<longrightarrow> same_record (rc_state ctx) (rc_state ctx2) q"
proof -
  let ?s = "with_block ref (reserved_block a runId b) (rc_state ctx)"
  note c = context_okD [OF ctx] and r = context_block_known(1) [OF ctx known]
  note e = ensure_replaced [OF ctx known with_block_fields(7) b]
  from e(2) obtain s2 where s2: "ensureStateForManifest mf ?s = Inr s2" ..
  have q: "bs_status (reserved_block a runId b) \<noteq> BPlanned" "bs_status (reserved_block a runId b) \<noteq> BReady"
    "\<forall>rc. bs_remoteOperationReceipt (reserved_block a runId b) = Some rc \<longrightarrow>
       remoteOperationReceiptMatchesBlockType rc (mb_type (block_of (rc_graph ctx) ref))"
    using st by (simp_all add: reserved_block_def)
  have refs: "set (rs_currentRefs ?s) \<subseteq> set (blockRefsInManifestOrder (rc_graph ctx))"
    "\<forall>p \<in> set (rs_feedback ?s). fb_sourceReviewBlockRef (snd p) \<in> set (blockRefsInManifestOrder (rc_graph ctx))"
    using c(4) by (simp_all add: reconciled_def)
  note sv = save_record [OF ctx r with_block_fields(7) q refs s2]
  let ?ctx2 = "\<lparr>rc_graph = rc_graph ctx, rc_rawState = ?s, rc_state = s2\<rparr>"
  have "loadRuntimeReadonly mf w = (Inr ?ctx2, w)"
    unfolding loadRuntimeReadonly_Inr using c(1) e(1) s2 w by (simp add: context_ok_def readState_def)
  then obtain w' where "loadRuntime mf w = (Inr ?ctx2, w')" by (simp add: loadRuntime_eq)
  from that [OF this] sv show ?thesis by simp
qed

lemma truthy_Some [simp]: "x \<noteq> [] \<Longrightarrow> truthy (Some x) = Some x"
  and truthy_None [simp]: "truthy None = None"
  by (simp_all add: truthy_def)

lemma resolve_reserved:
  assumes "map_get runs runId = Some d" and "rd_metadata d = Some m" and "reserved_metadata ref taskId blockId runId a h m"
    and "rid = None \<or> rid = Some runId" and "runId \<noteq> []" and "a \<noteq> []"
    and "bs_submissionAttemptId b = Some a" and "bs_submissionRunId b = Some runId" and "bs_status b = BInProgress"
  shows "resolveSubmissionRun runs b (Some a) rid ref taskId blockId True =
    Inr \<lparr>sn_runId = Some runId, sn_metadata = m, sn_exists = True\<rparr>"
proof -
  have "candidate_run runs b (Some a) rid True = Inr (Some runId)"
    using assms(4-9) by (auto simp: candidate_run_def Let_def)
  moreover have "readRunMetadata d = Inr (Some m)" using assms(2,3) by (simp add: readRunMetadata_def reserved_metadata_def)
  moreover have "check_candidate b (Some a) ref taskId blockId runId m True = Inr ()"
    using assms(3,6) by (simp add: check_candidate_def identity_conflict_def reserved_metadata_def Let_def)
  ultimately show ?thesis using assms(1,5,9) by (simp add: resolveSubmissionRun_def)
qed

lemma resolve_given:
  assumes "resolveSubmissionRun runs b att (Some r) ref taskId blockId local = Inr run" and "r \<noteq> []"
  shows "sn_runId run = Some r"
  using assms by (auto simp: resolveSubmissionRun_def candidate_run_def Let_def try_bind_eq_Inr split: if_splits)

lemma no_metadata_valid: "runMetadata_valid no_metadata"
  by (simp add: no_metadata_def runMetadata_valid_def)

lemma readRunMetadata_valid: "readRunMetadata d = Inr (Some m) \<Longrightarrow> runMetadata_valid m"
  by (simp add: readRunMetadata_def split: option.splits if_splits)

lemma resolve_metadata:
  assumes "resolveSubmissionRun runs b att rid ref taskId blockId local = Inr run"
  shows "runMetadata_valid (sn_metadata run)"
proof -
  from assms obtain c m0 where m0: "(case (case truthy c of None \<Rightarrow> None | Some r \<Rightarrow> map_get runs r) of
       None \<Rightarrow> Inr None | Some d \<Rightarrow> readRunMetadata d) = Inr m0"
    and run: "sn_metadata run = (case m0 of None \<Rightarrow> no_metadata | Some md \<Rightarrow> md)"
    unfolding resolveSubmissionRun_def Let_def try_bind_eq_Inr by (fastforce split: if_splits)
  from m0 have "runMetadata_valid md" if "m0 = Some md" for md
    using that by (auto split: option.splits dest: readRunMetadata_valid)
  then show ?thesis using run no_metadata_valid by (cases m0) simp_all
qed

lemma reserve_again:
  assumes "a \<noteq> []"
  shows "\<exists>s1 ws'. reserve_run env ref taskId blockId (Some a) h \<lparr>sn_runId = Some runId, sn_metadata = m, sn_exists = True\<rparr> b s ws =
    (Inr (runId, a, s1), ws')"
  using assms
  by (simp add: reserve_run_def reserve_attempt_def reserve_directory_def cmd_bind_def cmd_return_def write_metadata_def
      cmd_write_def writeState_def Let_def)

lemma store_legacy_ok:
  assumes "run_of ws (bo_ref opts) runId = Some d" and "rd_metadata d = Some m" and "runMetadata_valid m"
  shows "\<exists>ws'. store_report env opts taskId blockId runId a (LegacyArtifact bytes) ws = (Inr (), ws')"
  using assms
  by (simp add: store_report_def store_artifact_def cmd_bind_def cmd_read_def cmd_write_def cmd_return_def cmd_lift_def
      readRunMetadata_def write_metadata_def)

lemma reservation_valid:
  assumes "runMetadata_valid m" and "ref \<noteq> []" "taskId \<noteq> []" "blockId \<noteq> []" "runId \<noteq> []" "a \<noteq> []" "hex64 h"
  shows "reserved_metadata ref taskId blockId runId a h (reservation ref taskId blockId runId a h m)"
  using assms by (auto simp: reserved_metadata_def reservation_def runMetadata_valid_def)

definition quiet_index :: "submission_environment \<Rightarrow> bool" where
  "quiet_index env \<longleftrightarrow> (\<forall>ref r ws. se_indexRun env ref r ws = Inr ())"

lemma index_quiet: "quiet_index env \<Longrightarrow> cmd_index_run env ref r ws = (Inr (), ws)"
  by (simp add: quiet_index_def cmd_index_run_def cmd_bind_def cmd_read_def cmd_lift_def)

definition runs_count :: "workspace_files \<Rightarrow> string \<Rightarrow> nat option" where
  "runs_count ws taskId = ic_runs (ti_counts (readTaskIndex ws taskId))"

definition latest_run :: "workspace_files \<Rightarrow> string \<Rightarrow> string \<Rightarrow> string option" where
  "latest_run ws taskId ref = map_get (ti_latestRunByBlock (readTaskIndex ws taskId)) ref"

text \<open>Submitting again when the reservation is in place and the report is not recorded: the submission is
  made in the reserved run.\<close>

lemma resubmit_reserved:
  assumes ctx: "context_ok mf ctx" and b: "map_get (rs_blocks (rc_state ctx)) (bo_ref opts) = Some b"
    and st: "bs_status b = BInProgress" "bs_submissionAttemptId b = Some a" "bs_submissionRunId b = Some runId"
    and bt: "bt = mb_type (block_of (rc_graph ctx) (bo_ref opts))" "bt \<noteq> Review"
    and d: "run_of ws (bo_ref opts) runId = Some d" "rd_metadata d = Some m"
      "reserved_metadata (bo_ref opts) taskId blockId runId a (se_sha env bytes) m" "rm_reportHash m = None"
    and rid: "bo_runId opts = None \<or> bo_runId opts = Some runId" and ne: "runId \<noteq> []" "a \<noteq> []"
    and env: "se_now env \<noteq> []" "quiet_index env"
  shows "\<exists>ws'. process_submission env mf opts LocalAuthority bt taskId blockId (LegacyArtifact bytes) b (rc_state ctx) ws =
       (Inr (completed_result (bo_ref opts) runId), ws') \<and> completed_in mf (rc_state ctx) (bo_ref opts) runId ws' \<and>
     (\<forall>r. map_has (dir_of (wf_runs ws') (bo_ref opts)) r \<longleftrightarrow> map_has (dir_of (wf_runs ws) (bo_ref opts)) r) \<and>
     runs_count ws' taskId = plus_one (runs_count ws taskId)"
proof -
  let ?ref = "bo_ref opts" and ?h = "se_sha env bytes" and ?art = "LegacyArtifact bytes"
  let ?run = "\<lparr>sn_runId = Some runId, sn_metadata = m, sn_exists = True\<rparr>"
  have dir: "map_get (dir_of (wf_runs ws) ?ref) runId = Some d" using d(1) by (simp add: run_of_def)
  have has: "runHasSubmittedResult (se_sha env) (Some d) ?ref runId ?art = Inr False"
    using d(2-4) by (simp add: runHasSubmittedResult_def readRunMetadata_def reserved_metadata_def split: option.split)
  have nc: "\<not> report_conflict ?h m" using d(3,4) by (simp add: report_conflict_def reserved_metadata_def truthy_def)
  have bv: "blockState_valid b" by (rule context_block_valid [OF ctx b])
  from reserve_again [OF ne(2), of env ?ref taskId blockId ?h runId m b "rc_state ctx" ws] obtain s1 w1 where
    1: "reserve_run env ?ref taskId blockId (Some a) ?h ?run b (rc_state ctx) ws = (Inr (runId, a, s1), w1)" by blast
  note rv = reserve_run_Inr [OF 1]
  from rv(3) obtain d1 where w1: "w1 = (set_run ?ref runId d1 ws)\<lparr>wf_state := Some s1\<rparr>"
    "rd_metadata d1 = Some (reservation ?ref taskId blockId runId a ?h m)" by auto
  have rm: "reservation ?ref taskId blockId runId a ?h m = m"
    using d(3) by (cases m) (simp add: reservation_def reserved_metadata_def)
  have mv: "runMetadata_valid m" using d(3) by (simp add: reserved_metadata_def)
  have r1: "run_of w1 ?ref runId = Some d1" by (simp add: w1)
  from store_legacy_ok [where m = m, OF r1 _ mv] w1(2) rm obtain w2 where
    2: "store_report env opts taskId blockId runId a ?art w1 = (Inr (), w2)" by metis
  have g: "artifact_guard (se_sha env) ?art = Inr ()" "artifact_typed ?art" by (simp_all add: artifact_guard_def artifact_typed_def)
  have m1: "rd_metadata d1 = Some (reservation ?ref taskId blockId runId a (se_sha env (art_bytes ?art)) m)" using w1(2) by simp
  note sr = store_report_holds [OF 2 r1 m1 env(1) g(2,1)]
  let ?w3 = "w2\<lparr>wf_taskIndex := map_set (wf_taskIndex w2) taskId (index_new_run ?ref runId (readTaskIndex w2 taskId))\<rparr>"
  have same: "reserved_block a runId b = b" using st by (cases b) (simp add: reserved_block_def)
  from complete_local_ok [OF ctx b rv(2) [unfolded same] bv, of bt runId ?w3] obtain ws' where
    4: "complete_submission mf LocalAuthority bt ?ref runId s1 ?w3 = (Inr (completed_result ?ref runId), ws')" by blast
  note cm = complete_completed_in [OF ctx b rv(2) [unfolded same] bv bt 4]
  have "new_submission env mf opts LocalAuthority bt taskId blockId (Some a) ?art ?run b (rc_state ctx) ws =
      (Inr (completed_result ?ref runId), ws')"
    using 1 2 4 index_quiet [OF env(2)]
    by (simp add: new_submission_def cmd_bind_def updateTaskIndex_def cmd_write_def)
  then have "process_submission env mf opts LocalAuthority bt taskId blockId ?art b (rc_state ctx) ws =
      (Inr (completed_result ?ref runId), ws')"
    using resolve_reserved [OF dir d(2,3) rid ne st(2,3,1)] nc has dir ne(1) st(1,2)
    by (simp add: process_submission_def Let_def cmd_bind_def cmd_read_def cmd_lift_def)
  moreover from cm(3) sr(4) obtain x d' where ws': "ws' = ?w3\<lparr>wf_state := x\<rparr>" "w2 = set_run ?ref runId d' w1" by blast
  moreover have "map_has (dir_of (wf_runs ws') ?ref) r \<longleftrightarrow> map_has (dir_of (wf_runs ws) ?ref) r" for r
    using ws' w1(1) dir by (auto simp: set_run_def dir_of_def js_map_simps)
  moreover have "runs_count ws' taskId = plus_one (runs_count ws taskId)"
    using ws' w1(1) sr(3)
    by (simp add: runs_count_def readTaskIndex_def jm.get_put index_new_run_def split: option.splits)
  ultimately show ?thesis using cm(1) by blast
qed

text \<open>Submitting again when the run holds the report: the indexes and the state are brought up to date, and
  the run is counted unless it is the latest run already.\<close>

lemma resubmit_persisted:
  assumes ctx: "context_ok mf ctx" and b: "map_get (rs_blocks (rc_state ctx)) (bo_ref opts) = Some b"
    and st: "bs_status b = BInProgress" "bs_submissionAttemptId b = Some a" "bs_submissionRunId b = Some runId"
    and bt: "bt = mb_type (block_of (rc_graph ctx) (bo_ref opts))" "bt \<noteq> Review"
    and d: "run_of ws (bo_ref opts) runId = Some d" "rd_metadata d = Some m"
      "reserved_metadata (bo_ref opts) taskId blockId runId a (se_sha env bytes) m" "rm_reportHash m = Some (se_sha env bytes)"
    and has: "runHasSubmittedResult (se_sha env) (run_of ws (bo_ref opts) runId) (bo_ref opts) runId (LegacyArtifact bytes) = Inr True"
    and rid: "bo_runId opts = None \<or> bo_runId opts = Some runId" and ne: "runId \<noteq> []" "a \<noteq> []" and env: "quiet_index env"
  shows "\<exists>ws'. process_submission env mf opts LocalAuthority bt taskId blockId (LegacyArtifact bytes) b (rc_state ctx) ws =
       (Inr (completed_result (bo_ref opts) runId), ws') \<and> completed_in mf (rc_state ctx) (bo_ref opts) runId ws' \<and>
     (\<forall>r. map_has (dir_of (wf_runs ws') (bo_ref opts)) r \<longleftrightarrow> map_has (dir_of (wf_runs ws) (bo_ref opts)) r) \<and>
     runs_count ws' taskId =
       (if latest_run ws taskId (bo_ref opts) = Some runId then runs_count ws taskId else plus_one (runs_count ws taskId))"
proof -
  let ?ref = "bo_ref opts" and ?h = "se_sha env bytes"
  have dir: "map_get (dir_of (wf_runs ws) ?ref) runId = Some d" using d(1) by (simp add: run_of_def)
  have nc: "\<not> report_conflict ?h m" using d(3,4) by (simp add: report_conflict_def reserved_metadata_def)
  let ?w1 = "ws\<lparr>wf_taskIndex := map_set (wf_taskIndex ws) taskId (index_persisted ?ref runId (readTaskIndex ws taskId))\<rparr>"
  have same: "rc_state ctx = with_block ?ref b (rc_state ctx)" using with_block_same [OF b] by simp
  from complete_local_ok [OF ctx b same context_block_valid [OF ctx b], of bt runId ?w1] obtain ws' where
    "complete_submission mf LocalAuthority bt ?ref runId (rc_state ctx) ?w1 = (Inr (completed_result ?ref runId), ws')" by blast
  then have 1: "resume_persisted env mf LocalAuthority bt ?ref taskId runId (rc_state ctx) ws =
      (Inr (completed_result ?ref runId), ws')"
    using index_quiet [OF env] by (simp add: resume_persisted_def cmd_bind_def updateTaskIndex_def cmd_write_def)
  note q = resume_Inr [OF ctx b bt 1]
  have "process_submission env mf opts LocalAuthority bt taskId blockId (LegacyArtifact bytes) b (rc_state ctx) ws =
      (Inr (completed_result ?ref runId), ws')"
    using resolve_reserved [OF dir d(2,3) rid ne st(2,3,1)] nc has d(1) dir ne(1) st(1,2) 1
    by (simp add: process_submission_def Let_def cmd_bind_def cmd_read_def cmd_lift_def)
  moreover have "runs_count ws' taskId =
      (if latest_run ws taskId ?ref = Some runId then runs_count ws taskId else plus_one (runs_count ws taskId))"
    using q(4) by (simp add: runs_count_def latest_run_def readTaskIndex_def jm.get_put index_persisted_def)
  ultimately show ?thesis using q(2,3) by auto
qed

end
