(* ===== verification/Submission_Recovery.thy ===== *)
theory Submission_Recovery
  imports Block_Submission
begin

text \<open>
  A block submission that stops half-way. \<^verbatim>\<open>submitBlockResultArtifact\<close> writes the
  reservation, the report, the indexes and the state one after the other, and a process can end between
  any two writes. The relation \<open>interrupted\<close> below gives the files such an end leaves once the
  reservation is written; submitting the same report again on any of them completes the block in the
  reserved run and counts the run once.

  Before that, an interruption that leaves a new directory without metadata is not taken up: the code
  rejects it as ambiguous and asks for the run to be named.
\<close>

section \<open>The files an interruption leaves\<close>

datatype submission_phase = Reserved | Stored | Indexed

text \<open>A local submission that passes its guards and finds no report in its run.\<close>

definition starts ::
  "submission_environment \<Rightarrow> manifest \<Rightarrow> block_submission \<Rightarrow> string \<Rightarrow> workspace_files \<Rightarrow> runtime_context \<Rightarrow>
   string \<Rightarrow> string \<Rightarrow> block_state \<Rightarrow> submission_run \<Rightarrow> workspace_files \<Rightarrow> bool" where
  "starts env mf opts bytes ws ctx taskId blockId b run w0 \<longleftrightarrow>
     loadRuntime mf ws = (Inr ctx, w0) \<and> parseBlockRef (bo_ref opts) = Inr (taskId, blockId) \<and>
     (case getBlock (rc_graph ctx) (bo_ref opts) of Inl _ \<Rightarrow> False | Inr block \<Rightarrow> mb_type block \<noteq> Review) \<and>
     map_get (rs_blocks (rc_state ctx)) (bo_ref opts) = Some b \<and> bs_status b = BInProgress \<and>
     receipt_guard LocalAuthority (bo_ref opts) b = Inr () \<and> local_guard opts b = Inr () \<and>
     run_id_guard (bo_runId opts) = Inr () \<and>
     resolveSubmissionRun (dir_of (wf_runs w0) (bo_ref opts)) b (bs_submissionAttemptId b) (bo_runId opts) (bo_ref opts)
       taskId blockId True = Inr run \<and>
     \<not> report_conflict (se_sha env bytes) (sn_metadata run) \<and> rm_reportHash (sn_metadata run) = None"

inductive interrupted ::
  "submission_environment \<Rightarrow> manifest \<Rightarrow> block_submission \<Rightarrow> string \<Rightarrow> workspace_files \<Rightarrow> submission_phase \<Rightarrow>
   string \<Rightarrow> string \<Rightarrow> string \<Rightarrow> workspace_files \<Rightarrow> bool"
  for env :: submission_environment and mf :: manifest and opts :: block_submission and bytes :: string
    and ws :: workspace_files where
  reserved: "starts env mf opts bytes ws ctx taskId blockId b run w0 \<Longrightarrow>
    reserve_run env (bo_ref opts) taskId blockId (bs_submissionAttemptId b) (se_sha env bytes) run b (rc_state ctx) w0 =
      (Inr (runId, a, s1), w1) \<Longrightarrow>
    interrupted env mf opts bytes ws Reserved taskId runId a w1"
| stored: "interrupted env mf opts bytes ws Reserved taskId runId a w1 \<Longrightarrow>
    parseBlockRef (bo_ref opts) = Inr (taskId, blockId) \<Longrightarrow>
    store_report env opts taskId blockId runId a (LegacyArtifact bytes) w1 = (Inr (), w2) \<Longrightarrow>
    interrupted env mf opts bytes ws Stored taskId runId a w2"
| indexed: "interrupted env mf opts bytes ws Stored taskId runId a w2 \<Longrightarrow>
    updateTaskIndex taskId (index_new_run (bo_ref opts) runId) w2 = (Inr (), w3) \<Longrightarrow>
    interrupted env mf opts bytes ws Indexed taskId runId a w3"

inductive_simps interrupted_reserved [simp]: "interrupted env mf opts bytes ws Reserved taskId runId a w"

section \<open>What every such state has in common\<close>

text \<open>The state loaded before the first submission, with the block that was submitted.\<close>

definition submitted_block :: "manifest \<Rightarrow> block_submission \<Rightarrow> workspace_files \<Rightarrow> runtime_context \<Rightarrow> string \<Rightarrow> string \<Rightarrow>
  manifest_block \<Rightarrow> block_state \<Rightarrow> bool" where
  "submitted_block mf opts ws ctx taskId blockId block b \<longleftrightarrow>
     context_ok mf ctx \<and> loaded_state mf ws = Inr (rc_state ctx) \<and> parseBlockRef (bo_ref opts) = Inr (taskId, blockId) \<and>
     getBlock (rc_graph ctx) (bo_ref opts) = Inr block \<and> mb_type block \<noteq> Review \<and>
     map_get (rs_blocks (rc_state ctx)) (bo_ref opts) = Some b \<and> bs_status b = BInProgress \<and>
     bs_remoteOwnership b = None \<and> bs_remoteOperationReceipt b = None"

definition reserved_for :: "block_submission \<Rightarrow> string \<Rightarrow> string \<Rightarrow> bool" where
  "reserved_for opts runId a \<longleftrightarrow>
     a \<noteq> [] \<and> submissionRunId_valid runId \<and> run_id_guard (bo_runId opts) = Inr () \<and>
     (bo_submissionAttemptId opts = None \<or> bo_submissionAttemptId opts = Some a) \<and>
     (bo_runId opts = None \<or> bo_runId opts = Some runId)"

definition resume_point ::
  "(string \<Rightarrow> string) \<Rightarrow> block_submission \<Rightarrow> string \<Rightarrow> workspace_files \<Rightarrow> runtime_context \<Rightarrow> block_state \<Rightarrow>
   submission_phase \<Rightarrow> string \<Rightarrow> string \<Rightarrow> string \<Rightarrow> string \<Rightarrow> workspace_files \<Rightarrow> bool" where
  "resume_point sha opts bytes ws ctx b phase taskId blockId runId a w \<longleftrightarrow>
     wf_state w = Some (with_block (bo_ref opts) (reserved_block a runId b) (rc_state ctx)) \<and>
     run_records w (bo_ref opts) taskId blockId runId a (sha bytes) (if phase = Reserved then None else Some (sha bytes)) \<and>
     (phase \<noteq> Reserved \<longrightarrow>
        runHasSubmittedResult sha (run_of w (bo_ref opts) runId) (bo_ref opts) runId (LegacyArtifact bytes) = Inr True) \<and>
     readTaskIndex w taskId =
       (if phase = Indexed then index_new_run (bo_ref opts) runId (readTaskIndex ws taskId) else readTaskIndex ws taskId)"

lemma reservation_same:
  "reserved_metadata ref taskId blockId runId a h m \<Longrightarrow> reservation ref taskId blockId runId a h m = m"
  by (cases m) (simp add: reservation_def reserved_metadata_def)

lemma parsed_nonempty:
  "parseBlockRef ref = Inr (taskId, blockId) \<Longrightarrow> ref \<noteq> [] \<and> taskId \<noteq> [] \<and> blockId \<noteq> []"
  by (auto simp: parseBlockRef_Inr id_ok_def blockRef_def)

lemma starts_block:
  assumes "starts env mf opts bytes ws ctx taskId blockId b run w0"
  obtains block where "submitted_block mf opts ws ctx taskId blockId block b"
  using assms loaded_context(1,2) [of mf ws ctx w0]
  by (auto simp: starts_def submitted_block_def receipt_guard_def split: sum.splits if_splits)

lemma starts_reserved:
  assumes st: "starts env mf opts bytes ws ctx taskId blockId b run w0"
    and rv: "reserve_run env (bo_ref opts) taskId blockId (bs_submissionAttemptId b) (se_sha env bytes) run b (rc_state ctx) w0 =
      (Inr (runId, a, s1), w1)"
    and uuid: "se_uuid env \<noteq> []" and named: "runs_named ws"
  shows "reserved_for opts runId a"
proof -
  from starts_block [OF st] obtain block where sb: "submitted_block mf opts ws ctx taskId blockId block b" .
  have ctx: "context_ok mf ctx" and b: "map_get (rs_blocks (rc_state ctx)) (bo_ref opts) = Some b"
    and ip: "bs_status b \<noteq> BCompleted" using sb by (auto simp: submitted_block_def)
  have bv: "blockState_valid b" by (rule context_block_valid [OF ctx b])
  note r = reserve_run_Inr [OF rv]
  have ld: "loadRuntime mf ws = (Inr ctx, w0)" and rs: "resolveSubmissionRun (dir_of (wf_runs w0) (bo_ref opts)) b
      (bs_submissionAttemptId b) (bo_runId opts) (bo_ref opts) taskId blockId True = Inr run"
    and g: "run_id_guard (bo_runId opts) = Inr ()" and lg: "local_guard opts b = Inr ()"
    using st by (simp_all add: starts_def)
  have nm: "runs_named w0" using named loaded_context(3) [OF ld] by (auto simp: runs_named_def)
  have v: "submissionRunId_valid runId" by (rule reserved_run_valid [OF rs rv nm bv g ip])
  have att: "bs_submissionAttemptId b \<noteq> Some []" using bv by (simp add: block_valid_simps)
  then have a: "a \<noteq> []" using r(1) uuid by (auto simp: attempt_or_new_def split: option.splits)
  have "bo_runId opts = Some r \<Longrightarrow> r = runId" for r
    using resolve_given [of _ b _ r] rs g r(5)
    by (fastforce simp: run_id_guard_def submissionRunId_valid_def split: if_splits)
  moreover have "bo_submissionAttemptId opts = Some x \<Longrightarrow> x = a" for x
    using lg r(1) att by (auto simp: local_guard_def attempt_or_new_def split: if_splits)
  ultimately show ?thesis
    using v a g unfolding reserved_for_def by (cases "bo_runId opts"; cases "bo_submissionAttemptId opts") auto
qed

lemma readTaskIndex_frame [simp]:
  "readTaskIndex (ws\<lparr>wf_state := x\<rparr>) t = readTaskIndex ws t" "readTaskIndex (set_run ref r d ws) t = readTaskIndex ws t"
  by (simp_all add: readTaskIndex_def)

lemma reserved_point:
  assumes st: "starts env mf opts bytes ws ctx taskId blockId b run w0"
    and rv: "reserve_run env (bo_ref opts) taskId blockId (bs_submissionAttemptId b) (se_sha env bytes) run b (rc_state ctx) w0 =
      (Inr (runId, a, s1), w1)"
    and r: "reserved_for opts runId a" and h: "hex64 (se_sha env bytes)"
  shows "resume_point (se_sha env) opts bytes ws ctx b Reserved taskId blockId runId a w1"
proof -
  note rr = reserve_run_Inr [OF rv]
  have ld: "loadRuntime mf ws = (Inr ctx, w0)" and rs: "resolveSubmissionRun (dir_of (wf_runs w0) (bo_ref opts)) b
      (bs_submissionAttemptId b) (bo_runId opts) (bo_ref opts) taskId blockId True = Inr run"
    and p: "parseBlockRef (bo_ref opts) = Inr (taskId, blockId)" and rh: "rm_reportHash (sn_metadata run) = None"
    using st by (simp_all add: starts_def)
  let ?m = "reservation (bo_ref opts) taskId blockId runId a (se_sha env bytes) (sn_metadata run)"
  from rr(3) obtain d where d: "w1 = (set_run (bo_ref opts) runId d w0)\<lparr>wf_state := Some s1\<rparr>" "rd_metadata d = Some ?m" by blast
  have "runId \<noteq> []" "a \<noteq> []" using r by (auto simp: reserved_for_def submissionRunId_valid_def)
  with reservation_valid [OF resolve_metadata [OF rs]] parsed_nonempty [OF p] h
  have "reserved_metadata (bo_ref opts) taskId blockId runId a (se_sha env bytes) ?m" by blast
  moreover have "rm_reportHash ?m = None" using rh by (simp add: reservation_def)
  ultimately have "run_records w1 (bo_ref opts) taskId blockId runId a (se_sha env bytes) None"
    using d by (simp add: run_records_def)
  moreover from loaded_context(3) [OF ld] obtain x where "w0 = ws\<lparr>wf_state := x\<rparr>" ..
  ultimately show ?thesis using d(1) rr(2) by (simp add: resume_point_def)
qed

lemma stored_point:
  assumes rp: "resume_point (se_sha env) opts bytes ws ctx b Reserved taskId blockId runId a w1"
    and st: "store_report env opts taskId blockId runId a (LegacyArtifact bytes) w1 = (Inr (), w2)" and now: "se_now env \<noteq> []"
  shows "resume_point (se_sha env) opts bytes ws ctx b Stored taskId blockId runId a w2"
proof -
  let ?art = "LegacyArtifact bytes" and ?ref = "bo_ref opts"
  from rp obtain d m where d: "run_of w1 ?ref runId = Some d" "rd_metadata d = Some m"
    "reserved_metadata ?ref taskId blockId runId a (se_sha env bytes) m"
    by (auto simp: resume_point_def run_records_def)
  have m: "rd_metadata d = Some (reservation ?ref taskId blockId runId a (se_sha env (art_bytes ?art)) m)"
    using d(2) reservation_same [OF d(3)] by simp
  have g: "artifact_guard (se_sha env) ?art = Inr ()" "artifact_typed ?art"
    by (simp_all add: artifact_guard_def artifact_typed_def)
  note sr = store_report_holds [OF st d(1) m now g(2,1)]
  have "readTaskIndex w2 taskId = readTaskIndex w1 taskId" using sr(3) by (simp add: readTaskIndex_def)
  then show ?thesis using sr(1,2,5) rp by (simp add: resume_point_def)
qed

lemma indexed_point:
  assumes "resume_point sha opts bytes ws ctx b Stored taskId blockId runId a w2"
    and "updateTaskIndex taskId (index_new_run (bo_ref opts) runId) w2 = (Inr (), w3)"
  shows "resume_point sha opts bytes ws ctx b Indexed taskId blockId runId a w3"
proof -
  have w3: "w3 = w2\<lparr>wf_taskIndex := map_set (wf_taskIndex w2) taskId (index_new_run (bo_ref opts) runId (readTaskIndex w2 taskId))\<rparr>"
    using assms(2) by (simp add: updateTaskIndex_Inr)
  then have "readTaskIndex w3 taskId = index_new_run (bo_ref opts) runId (readTaskIndex w2 taskId)"
    by (simp add: readTaskIndex_def jm.get_put)
  then show ?thesis using assms(1) w3 by (simp add: resume_point_def run_records_def)
qed

lemma interrupted_point:
  assumes "interrupted env mf opts bytes ws phase taskId runId a w"
    and env: "se_now env \<noteq> []" "se_uuid env \<noteq> []" "hex64 (se_sha env bytes)" and named: "runs_named ws"
  shows "\<exists>ctx blockId block b. submitted_block mf opts ws ctx taskId blockId block b \<and> reserved_for opts runId a \<and>
    resume_point (se_sha env) opts bytes ws ctx b phase taskId blockId runId a w"
  using assms(1)
proof induction
  case (reserved ctx taskId blockId b run w0 runId a s1 w1)
  note r = starts_reserved [OF reserved env(2) named]
  from starts_block [OF reserved(1)] obtain block where "submitted_block mf opts ws ctx taskId blockId block b" .
  with reserved_point [OF reserved r env(3)] r show ?case by blast
next
  case (stored taskId runId a w1 blockId w2)
  from stored.IH obtain ctx blockId' block b where
    1: "submitted_block mf opts ws ctx taskId blockId' block b" "reserved_for opts runId a"
      "resume_point (se_sha env) opts bytes ws ctx b Reserved taskId blockId' runId a w1" by blast
  have "blockId' = blockId" using 1(1) stored.hyps(2) by (simp add: submitted_block_def)
  with 1 stored_point [OF _ stored.hyps(3) env(1)] show ?case by blast
next
  case (indexed taskId runId a w2 w3)
  then show ?case using indexed_point by blast
qed

section \<open>Submitting again\<close>

lemma completed_in_trans:
  assumes "completed_in mf s2 ref runId w" and "set (rs_currentRefs s2) \<subseteq> set (rs_currentRefs s)"
    and "\<forall>q. q \<noteq> ref \<longrightarrow> same_record s s2 q"
  shows "completed_in mf s ref runId w"
proof -
  from assms(1) obtain s' b' where 1: "loaded_state mf w = Inr s'" "map_get (rs_blocks s') ref = Some b'"
    "bs_status b' = BCompleted" "bs_lastRunId b' = Some runId" and 2: "set (rs_currentRefs s') \<subseteq> set (rs_currentRefs s2)"
    and 3: "\<forall>q. q \<noteq> ref \<longrightarrow> same_record s2 s' q" unfolding completed_in_def by blast
  have "\<forall>q. q \<noteq> ref \<longrightarrow> same_record s s' q" using 3 assms(3) by (simp add: same_record_def)
  with 1 subset_trans [OF 2 assms(2)] show ?thesis unfolding completed_in_def by blast
qed

lemma submit_local:
  assumes "loadRuntime mf w = (Inr ctx, w0)" and "parseBlockRef (bo_ref opts) = Inr (taskId, blockId)"
    and "getBlock (rc_graph ctx) (bo_ref opts) = Inr block" "mb_type block \<noteq> Review"
    and "map_get (rs_blocks (rc_state ctx)) (bo_ref opts) = Some b"
    and "bs_remoteOwnership b = None" "bs_remoteOperationReceipt b = None" "local_guard opts b = Inr ()"
    and "run_id_guard (bo_runId opts) = Inr ()"
  shows "submitBlockResultFromBytes env mf opts bytes w =
    process_submission env mf opts LocalAuthority (mb_type block) taskId blockId (LegacyArtifact bytes) b (rc_state ctx) w0"
  using assms
  by (simp add: submitBlockResultFromBytes_def submitBlockResultArtifact_def Let_def cmd_bind_def cmd_lift_def
      artifact_guard_def receipt_guard_def)

lemma resume_point_submits:
  assumes sb: "submitted_block mf opts ws ctx taskId blockId block b" and r: "reserved_for opts runId a"
    and rp: "resume_point (se_sha env) opts bytes ws ctx b phase taskId blockId runId a w"
    and env: "se_now env \<noteq> []" "quiet_index env"
    and fresh: "latest_run ws taskId (bo_ref opts) \<noteq> Some runId"
  shows "\<exists>w'. submitBlockResultFromBytes env mf opts bytes w = (Inr (completed_result (bo_ref opts) runId), w') \<and>
    completed_in mf (rc_state ctx) (bo_ref opts) runId w' \<and>
    (\<forall>q. map_has (dir_of (wf_runs w') (bo_ref opts)) q \<longleftrightarrow> map_has (dir_of (wf_runs w) (bo_ref opts)) q) \<and>
    runs_count w' taskId = plus_one (runs_count ws taskId)"
proof -
  let ?ref = "bo_ref opts" and ?b = "reserved_block a runId b"
  have ctx: "context_ok mf ctx" and b: "map_get (rs_blocks (rc_state ctx)) ?ref = Some b" and p: "parseBlockRef ?ref = Inr (taskId, blockId)"
    and st: "bs_status b = BInProgress" "bs_remoteOperationReceipt b = None" "bs_remoteOwnership b = None"
    and bl: "getBlock (rc_graph ctx) ?ref = Inr block" "mb_type block \<noteq> Review"
    using sb by (simp_all add: submitted_block_def)
  have a: "a \<noteq> []" "submissionRunId_valid runId" and rid: "bo_runId opts = None \<or> bo_runId opts = Some runId"
    and g: "run_id_guard (bo_runId opts) = Inr ()" using r by (simp_all add: reserved_for_def)
  have ne: "runId \<noteq> []" using a(2) by (auto simp: submissionRunId_valid_def)
  have bv: "blockState_valid ?b" by (rule reserved_valid [OF context_block_valid [OF ctx b] a])
  have w: "wf_state w = Some (with_block ?ref ?b (rc_state ctx))" using rp by (simp add: resume_point_def)
  from load_reserved [OF ctx b st(1,2) bv w] obtain ctx2 w2 where
    l: "loadRuntime mf w = (Inr ctx2, w2)" "rc_graph ctx2 = rc_graph ctx" "map_get (rs_blocks (rc_state ctx2)) ?ref = Some ?b"
      "set (rs_currentRefs (rc_state ctx2)) \<subseteq> set (rs_currentRefs (rc_state ctx))"
      "\<forall>q. q \<noteq> ?ref \<longrightarrow> same_record (rc_state ctx) (rc_state ctx2) q" by metis
  note c2 = loaded_context [OF l(1)]
  have f: "bs_status ?b = BInProgress" "bs_submissionAttemptId ?b = Some a" "bs_submissionRunId ?b = Some runId"
    "bs_remoteOwnership ?b = None" "bs_remoteOperationReceipt ?b = None" using st by (simp_all add: reserved_block_def)
  have lg: "local_guard opts ?b = Inr ()" using f r by (auto simp: local_guard_def reserved_for_def)
  have bl2: "getBlock (rc_graph ctx2) ?ref = Inr block" using bl l(2) by simp
  have bt: "mb_type block = mb_type (block_of (rc_graph ctx2) ?ref)" using getBlock_block_of [OF c2(1) bl2] by simp
  note run = submit_local [OF l(1) p bl2 bl(2) l(3) f(4,5) lg g, of env bytes]
  from c2(3) obtain x where w2: "w2 = w\<lparr>wf_state := x\<rparr>" ..
  have count: "runs_count w2 taskId = runs_count w taskId" "latest_run w2 taskId ?ref = latest_run w taskId ?ref"
    "dir_of (wf_runs w2) ?ref = dir_of (wf_runs w) ?ref" by (simp_all add: w2 runs_count_def latest_run_def)
  from rp obtain d m where d: "run_of w2 ?ref runId = Some d" "rd_metadata d = Some m"
    "reserved_metadata ?ref taskId blockId runId a (se_sha env bytes) m"
    "rm_reportHash m = (if phase = Reserved then None else Some (se_sha env bytes))"
    by (auto simp: resume_point_def run_records_def w2)
  have ix: "readTaskIndex w taskId =
      (if phase = Indexed then index_new_run ?ref runId (readTaskIndex ws taskId) else readTaskIndex ws taskId)"
    using rp by (simp add: resume_point_def)
  show ?thesis
  proof (cases "phase = Reserved")
    case True
    then have "rm_reportHash m = None" using d(4) by simp
    from resubmit_reserved [OF c2(1) l(3) f(1-3) bt bl(2) d(1-3) this rid ne a(1) env] run count ix True
      completed_in_trans [OF _ l(4,5)]
    show ?thesis by (simp add: runs_count_def) metis
  next
    case False
    then have h: "rm_reportHash m = Some (se_sha env bytes)"
      "runHasSubmittedResult (se_sha env) (run_of w2 ?ref runId) ?ref runId (LegacyArtifact bytes) = Inr True"
      using d(4) rp by (auto simp: resume_point_def w2)
    have c: "(if latest_run w2 taskId ?ref = Some runId then runs_count w2 taskId else plus_one (runs_count w2 taskId)) =
        plus_one (runs_count ws taskId)"
      using count ix fresh by (simp add: latest_run_def runs_count_def index_new_run_def jm.get_put)
    from resubmit_persisted [OF c2(1) l(3) f(1-3) bt bl(2) d(1-3) h rid ne a(1) env(2)] run count(3) c
      completed_in_trans [OF _ l(4,5)]
    show ?thesis by metis
  qed
qed

section \<open>Properties\<close>


text \<open>C19: a local submission that stopped anywhere after its reservation was written is taken up by
  submitting the same report again (possibly by another process, at another time): the second submission
  succeeds, completes the block in the reserved run, makes no further run directory, and in the end the run
  is counted exactly once.\<close>

theorem interrupted_submission_resumes:
  assumes "interrupted env mf opts bytes ws phase taskId runId a w" and "loaded_state mf ws = Inr s"
    and "se_now env \<noteq> []" "se_uuid env \<noteq> []" "hex64 (se_sha env bytes)" and "runs_named ws"
    and "latest_run ws taskId (bo_ref opts) \<noteq> Some runId"
    and "se_sha env' = se_sha env" "se_now env' \<noteq> []" "quiet_index env'"
  shows "\<exists>w' s' b'. submitBlockResultFromBytes env' mf opts bytes w = (Inr (completed_result (bo_ref opts) runId), w') \<and>
    loaded_state mf w' = Inr s' \<and> map_get (rs_blocks s') (bo_ref opts) = Some b' \<and>
    bs_status b' = BCompleted \<and> bs_lastRunId b' = Some runId \<and> (\<forall>q. q \<noteq> bo_ref opts \<longrightarrow> same_record s s' q) \<and>
    (\<forall>q. map_has (dir_of (wf_runs w') (bo_ref opts)) q \<longleftrightarrow> map_has (dir_of (wf_runs w) (bo_ref opts)) q) \<and>
    runs_count w' taskId = plus_one (runs_count ws taskId)"
proof -
  from interrupted_point [OF assms(1,3-6)] obtain ctx blockId block b where
    sb: "submitted_block mf opts ws ctx taskId blockId block b" and r: "reserved_for opts runId a"
    and rp: "resume_point (se_sha env') opts bytes ws ctx b phase taskId blockId runId a w"
    unfolding assms(8) [symmetric] by blast
  have s: "rc_state ctx = s" using sb assms(2) by (simp add: submitted_block_def)
  from resume_point_submits [OF sb r rp assms(9,10,7)] obtain w' where
    1: "submitBlockResultFromBytes env' mf opts bytes w = (Inr (completed_result (bo_ref opts) runId), w')"
      "completed_in mf s (bo_ref opts) runId w'"
      "\<forall>q. map_has (dir_of (wf_runs w') (bo_ref opts)) q \<longleftrightarrow> map_has (dir_of (wf_runs w) (bo_ref opts)) q"
      "runs_count w' taskId = plus_one (runs_count ws taskId)" unfolding s by blast
  from 1(2) obtain s' b' where "loaded_state mf w' = Inr s'" "map_get (rs_blocks s') (bo_ref opts) = Some b'"
    "bs_status b' = BCompleted" "bs_lastRunId b' = Some runId" "\<forall>q. q \<noteq> bo_ref opts \<longrightarrow> same_record s s' q"
    unfolding completed_in_def by blast
  with 1(1,3,4) show ?thesis by (intro exI [of _ w'] exI [of _ s'] exI [of _ b']) simp
qed

text \<open>C39: the remote entry point admits reports of up to \<open>OUTPUT_MAX_ARTIFACT_BYTES\<close>, but the store it hands
  an implementation report to takes at most \<open>RUNNER_ARTIFACT_MAX_CONTENT_BYTES\<close>, which is less: a larger
  report of an implementation block is never accepted, whatever the state of the files.\<close>

theorem remote_report_limit:
  assumes "compileTaskGraph mf = Inr g" and "getBlock g (rk_ref input) = Inr block" and "mb_type block \<noteq> Review"
    and "RUNNER_ARTIFACT_MAX_CONTENT_BYTES < length (rk_reportBytes input)"
  shows "RUNNER_ARTIFACT_MAX_CONTENT_BYTES < OUTPUT_MAX_ARTIFACT_BYTES \<and>
    (\<exists>e ws'. submitRemoteBlockResult env renv parseReview mf input ws = (Inl e, ws'))"
proof -
  have "submitRemoteBlockResult env renv parseReview mf input ws \<noteq> (Inr x, ws')" for x ws'
    using assms too_large_not_submitted [OF assms(4)]
    by (auto simp: submitRemoteBlockResult_def Let_def cmd_bind_Inr loadRuntimeReadonly_Inr context_ok_def split: if_splits)
  moreover obtain y ws' where "submitRemoteBlockResult env renv parseReview mf input ws = (y, ws')" by (rule prod.exhaust)
  ultimately have "\<exists>e ws'. submitRemoteBlockResult env renv parseReview mf input ws = (Inl e, ws')" by (cases y) auto
  moreover have "RUNNER_ARTIFACT_MAX_CONTENT_BYTES < OUTPUT_MAX_ARTIFACT_BYTES"
    by (simp add: RUNNER_ARTIFACT_MAX_CONTENT_BYTES_def OUTPUT_MAX_ARTIFACT_BYTES_def)
  ultimately show ?thesis by blast
qed

section \<open>Witnesses\<close>

definition running_state :: runtime_state where
  "running_state = createEmptyState
     \<lparr>rs_currentRefs := [''T1#B1''], rs_blocks := [(''T1#B1'', fresh_block BInProgress)]\<rparr>"

definition running_files :: workspace_files where
  "running_files = empty_files\<lparr>wf_state := Some running_state\<rparr>"

definition local_env :: submission_environment where
  "local_env = \<lparr>se_sha = (\<lambda>bytes. replicate 64 (if bytes = [] then CHR ''0'' else CHR ''a'')), se_now = ''2025-01-01'',
     se_uuid = ''uuid-1'', se_source = (\<lambda>_ _. Inr (''r1'', ''f1'')), se_indexRun = (\<lambda>_ _ _. Inr ())\<rparr>"

definition local_submission :: block_submission where
  "local_submission = \<lparr>bo_ref = ''T1#B1'', bo_reportPath = Some ''out.md'', bo_runId = None, bo_submissionAttemptId = None\<rparr>"

lemma running_files_named: "runs_named running_files"
  by (simp add: runs_named_def running_files_def empty_files_def dir_of_def map_has_def map_get_def)

lemma running_loaded: obtains s where "loaded_state sample_manifest running_files = Inr s"
proof -
  have "res_holds (\<lambda>_. True) (loaded_state sample_manifest running_files)" by code_simp
  with that show thesis by (auto elim: res_holdsE)
qed

lemma local_env_fields [simp]: "se_now local_env \<noteq> []" "se_uuid local_env \<noteq> []" "quiet_index local_env"
  by (simp_all add: local_env_def quiet_index_def)


text \<open>The first submission, stopped after the report was stored.\<close>

lemma stopped_after_store:
  obtains a w where "interrupted local_env sample_manifest local_submission ''done'' running_files Stored ''T1'' ''RUN-001'' a w"
proof -
  let ?ref = "''T1#B1''" and ?h = "se_sha local_env ''done''"
  have "cmd_holds (\<lambda>ctx w0. res_holds (\<lambda>block. mb_type block \<noteq> Review) (getBlock (rc_graph ctx) ?ref) \<and>
      res_holds (\<lambda>b. bs_status b = BInProgress \<and> receipt_guard LocalAuthority ?ref b = Inr () \<and> local_guard local_submission b = Inr () \<and>
        res_holds (\<lambda>run. \<not> report_conflict ?h (sn_metadata run) \<and> rm_reportHash (sn_metadata run) = None \<and>
          cmd_holds (\<lambda>(runId, a, s1) w1. runId = ''RUN-001'' \<and>
            cmd_holds (\<lambda>_ _. True) (store_report local_env local_submission ''T1'' ''B1'' runId a (LegacyArtifact ''done'') w1))
            (reserve_run local_env ?ref ''T1'' ''B1'' (bs_submissionAttemptId b) ?h run b (rc_state ctx) w0))
          (resolveSubmissionRun (dir_of (wf_runs w0) ?ref) b (bs_submissionAttemptId b) None ?ref ''T1'' ''B1'' True))
        (requireBlockState (rc_state ctx) ?ref))
    (loadRuntime sample_manifest running_files)" by code_simp
  then obtain ctx w0 block b run a s1 w1 w2 where 1: "loadRuntime sample_manifest running_files = (Inr ctx, w0)"
    "getBlock (rc_graph ctx) ?ref = Inr block" "mb_type block \<noteq> Review"
    "requireBlockState (rc_state ctx) ?ref = Inr b" "bs_status b = BInProgress" "receipt_guard LocalAuthority ?ref b = Inr ()"
    "local_guard local_submission b = Inr ()"
    "resolveSubmissionRun (dir_of (wf_runs w0) ?ref) b (bs_submissionAttemptId b) None ?ref ''T1'' ''B1'' True = Inr run"
    "\<not> report_conflict ?h (sn_metadata run)" "rm_reportHash (sn_metadata run) = None"
    "reserve_run local_env ?ref ''T1'' ''B1'' (bs_submissionAttemptId b) ?h run b (rc_state ctx) w0 = (Inr (''RUN-001'', a, s1), w1)"
    "store_report local_env local_submission ''T1'' ''B1'' ''RUN-001'' a (LegacyArtifact ''done'') w1 = (Inr (), w2)"
    by (elim cmd_holdsE res_holdsE conjE) (clarsimp elim!: cmd_holdsE)
  have p: "parseBlockRef ?ref = Inr (''T1'', ''B1'')" by code_simp
  have o: "bo_ref local_submission = ?ref" "bo_runId local_submission = None" by (simp_all add: local_submission_def)
  have "map_get (rs_blocks (rc_state ctx)) ?ref = Some b" using 1(4) by (simp add: requireBlockState_def split: option.splits)
  with 1 p o have "starts local_env sample_manifest local_submission ''done'' running_files ctx ''T1'' ''B1'' b run w0"
    by (simp add: starts_def run_id_guard_def)
  with 1(11) o have "interrupted local_env sample_manifest local_submission ''done'' running_files Reserved ''T1'' ''RUN-001'' a w1"
    by (metis interrupted.reserved)
  from interrupted.stored [OF this _ 1(12)] p o that show thesis by simp
qed

lemma interrupted_submission_resumes_witness:
  "\<exists>a w w'. interrupted local_env sample_manifest local_submission ''done'' running_files Stored ''T1'' ''RUN-001'' a w \<and>
     submitBlockResultFromBytes (local_env\<lparr>se_now := ''2025-01-02'', se_uuid := ''uuid-2''\<rparr>) sample_manifest local_submission
       ''done'' w = (Inr (completed_result ''T1#B1'' ''RUN-001''), w') \<and> runs_count w' ''T1'' = Some 1"
proof -
  obtain a w where i: "interrupted local_env sample_manifest local_submission ''done'' running_files Stored ''T1'' ''RUN-001'' a w"
    by (rule stopped_after_store)
  obtain s where s: "loaded_state sample_manifest running_files = Inr s" by (rule running_loaded)
  let ?env = "local_env\<lparr>se_now := ''2025-01-02'', se_uuid := ''uuid-2''\<rparr>"
  have h: "hex64 (se_sha local_env ''done'')" by code_simp
  have l: "latest_run running_files ''T1'' (bo_ref local_submission) \<noteq> Some ''RUN-001''" by code_simp
  have e: "se_sha ?env = se_sha local_env" "se_now ?env \<noteq> []" "quiet_index ?env"
    by (simp_all add: quiet_index_def local_env_def)
  have c: "plus_one (runs_count running_files ''T1'') = Some 1" by code_simp
  from interrupted_submission_resumes [OF i s local_env_fields(1,2) h running_files_named l e] i c show ?thesis
    by (auto simp: local_submission_def)
qed

definition large_completion :: remote_completion where
  "large_completion = \<lparr>rk_ref = ''T1#B1'', rk_identity = sample_identity,
     rk_reportArtifactRef = ''artifact:sha256:'' @ replicate 64 (CHR ''a''), rk_reportBytes = replicate (1024 * 1024) (CHR ''x'')\<rparr>"

lemma remote_report_limit_witness:
  "\<exists>e ws'. submitRemoteBlockResult local_env sample_env (\<lambda>_ _ _. Inr change_request) sample_manifest large_completion running_files =
     (Inl e, ws')"
proof -
  have "res_holds (\<lambda>g. res_holds (\<lambda>block. mb_type block \<noteq> Review) (getBlock g ''T1#B1'')) (compileTaskGraph sample_manifest)"
    by code_simp
  then obtain g block where "compileTaskGraph sample_manifest = Inr g" "getBlock g (rk_ref large_completion) = Inr block"
    "mb_type block \<noteq> Review" by (elim res_holdsE) (auto simp: large_completion_def)
  moreover have "RUNNER_ARTIFACT_MAX_CONTENT_BYTES < length (rk_reportBytes large_completion)"
    by (simp add: RUNNER_ARTIFACT_MAX_CONTENT_BYTES_def large_completion_def)
  ultimately show ?thesis using remote_report_limit by blast
qed

end
