(* ===== verification/Project_Graph.thy ===== *)
theory Project_Graph
  imports Claim_Readiness
begin

text \<open>
  The project graph over several task canvases: \<^verbatim>\<open>projectGraph/compileProjectGraph.ts\<close>,
  \<^verbatim>\<open>projectGraph/runtimeAggregation.ts\<close>, \<^verbatim>\<open>projectGraph/projectGraphKeys.ts\<close> and
  \<^verbatim>\<open>taskManager/projectGraphClaimGuard.ts\<close>.

  What the project reads from disk is an argument: the package and the state file of every canvas and
  the resolved package directories. The recursive searches carry fuel, the number of canvases, which
  the lemmas show to be enough. The lemmas show that compilation relates the indexes exactly to the
  edges of the manifest, that the execution order is a topological order, and that the guard built
  from the aggregation holds back exactly the tasks whose upstream canvases or tasks are not finished;
  that guard is an instance of \<open>claim_guard_laws\<close>.
\<close>

section \<open>The project manifest\<close>

record project_task_ref =
  pt_canvasId :: string
  pt_taskId :: string

record canvas_node =
  cn_id :: string
  cn_title :: string
  cn_description :: "string option"
  cn_packageDir :: string
  cn_stateFile :: string
  cn_resultsDir :: string

record canvas_edge =
  ce_from :: string
  ce_to :: string

record cross_task_edge =
  xe_from :: project_task_ref
  xe_to :: project_task_ref

record project_manifest =
  pm_canvases :: "canvas_node list"
  pm_edges :: "canvas_edge list"
  pm_crossTaskEdges :: "cross_task_edge list"

datatype project_source = FromProjectGraph | FromLegacyRegistry | FromLegacyDefaultCanvas

record validation_issue =
  vi_code :: string
  vi_message :: string
  vi_path :: "string option"

text \<open>\<^verbatim>\<open>canvasIdSchema\<close> and \<^verbatim>\<open>projectGraphManifestSchema\<close> on a value of the type.\<close>

definition canvas_char :: "char \<Rightarrow> bool" where
  "canvas_char c \<longleftrightarrow> alnum_char c \<or> c \<in> {CHR ''.'', CHR ''_'', CHR ''-''}"

definition canvasId_valid :: "string \<Rightarrow> bool" where
  "canvasId_valid s \<longleftrightarrow> (case s of [] \<Rightarrow> False | c # cs \<Rightarrow> alnum_char c \<and> list_all canvas_char cs)"

definition taskRef_valid :: "project_task_ref \<Rightarrow> bool" where
  "taskRef_valid r \<longleftrightarrow> canvasId_valid (pt_canvasId r) \<and> pt_taskId r \<noteq> []"

definition projectManifest_valid :: "project_manifest \<Rightarrow> bool" where
  "projectManifest_valid m \<longleftrightarrow>
     pm_canvases m \<noteq> [] \<and>
     list_all (\<lambda>c. canvasId_valid (cn_id c) \<and> cn_title c \<noteq> [] \<and> cn_packageDir c \<noteq> [] \<and>
       cn_stateFile c \<noteq> [] \<and> cn_resultsDir c \<noteq> []) (pm_canvases m) \<and>
     list_all (\<lambda>e. canvasId_valid (ce_from e) \<and> canvasId_valid (ce_to e)) (pm_edges m) \<and>
     list_all (\<lambda>e. taskRef_valid (xe_from e) \<and> taskRef_valid (xe_to e)) (pm_crossTaskEdges m)"

section \<open>Keys\<close>

definition projectTaskRefKey :: "project_task_ref \<Rightarrow> string" where
  "projectTaskRefKey r = pt_canvasId r @ ''::'' @ pt_taskId r"

text \<open>\<^verbatim>\<open>ref.indexOf("::")\<close> with the text before and after it.\<close>

fun split_sep :: "string \<Rightarrow> (string \<times> string) option" where
  "split_sep (a # b # cs) =
     (if a = CHR '':'' \<and> b = CHR '':'' then Some ([], cs)
      else map_option (\<lambda>(l, r). (a # l, r)) (split_sep (b # cs)))"
| "split_sep _ = None"

definition parseProjectTaskRefKey :: "string \<Rightarrow> project_task_ref res" where
  "parseProjectTaskRefKey key =
     (case split_sep key of
        None \<Rightarrow> Inl (SchemaInvalid ''project task ref'')
      | Some (canvasId, taskId) \<Rightarrow>
          if canvasId = [] \<or> taskId = [] then Inl (SchemaInvalid ''project task ref'')
          else Inr \<lparr>pt_canvasId = canvasId, pt_taskId = taskId\<rparr>)"

definition nul :: string where
  "nul = [CHR 0x00]"

definition projectCanvasEdgeKey :: "canvas_edge \<Rightarrow> string" where
  "projectCanvasEdgeKey e = ce_from e @ nul @ ''depends_on'' @ nul @ ce_to e"

definition projectCrossTaskEdgeKey :: "cross_task_edge \<Rightarrow> string" where
  "projectCrossTaskEdgeKey e =
     projectTaskRefKey (xe_from e) @ nul @ ''depends_on'' @ nul @ projectTaskRefKey (xe_to e)"

definition canvasPairKey :: "string \<Rightarrow> string \<Rightarrow> string" where
  "canvasPairKey from to = from @ nul @ to"

section \<open>Mixed cycles\<close>

fun cycleUsesEdge :: "string list \<Rightarrow> string set \<Rightarrow> bool" where
  "cycleUsesEdge (a # b # cs) edgeKeys \<longleftrightarrow> canvasPairKey a b \<in> edgeKeys \<or> cycleUsesEdge (b # cs) edgeKeys"
| "cycleUsesEdge _ edgeKeys \<longleftrightarrow> False"

text \<open>The neighbours that a call of \<^verbatim>\<open>visit\<close> still has to look at. A recursive call spends one
  unit of fuel; \<open>None\<close> is running out of it. The result is the cycle, if any, and the visited set.\<close>

fun mixed_loop ::
  "nat \<Rightarrow> adjacency \<Rightarrow> string set \<Rightarrow> string set \<Rightarrow> string list \<Rightarrow> string list \<Rightarrow> string set \<Rightarrow>
   (string list option \<times> string set) option" where
  "mixed_loop n adj ck xk path [] visited = Some (None, visited)"
| "mixed_loop n adj ck xk path (nid # ns) visited =
     (if nid \<in> set path
      then (let cycle = dropWhile (\<lambda>x. x \<noteq> nid) path @ [nid]
            in if cycleUsesEdge cycle ck \<and> cycleUsesEdge cycle xk then Some (Some cycle, visited)
               else mixed_loop n adj ck xk path ns visited)
      else if nid \<notin> visited \<and> map_has adj nid
      then (case n of
              0 \<Rightarrow> None
            | Suc m \<Rightarrow>
                (case mixed_loop m adj ck xk (path @ [nid]) (succs adj nid) visited of
                   None \<Rightarrow> None
                 | Some (Some cycle, visited') \<Rightarrow> Some (Some cycle, visited')
                 | Some (None, visited') \<Rightarrow> mixed_loop n adj ck xk path ns (insert nid visited')))
      else mixed_loop n adj ck xk path ns visited)"

fun mixed_roots ::
  "nat \<Rightarrow> adjacency \<Rightarrow> string set \<Rightarrow> string set \<Rightarrow> string list \<Rightarrow> string set \<Rightarrow> string list option option" where
  "mixed_roots n adj ck xk [] visited = Some None"
| "mixed_roots n adj ck xk (nid # ids) visited =
     (if nid \<in> visited then mixed_roots n adj ck xk ids visited
      else (case mixed_loop n adj ck xk [nid] (succs adj nid) visited of
              None \<Rightarrow> None
            | Some (Some cycle, _) \<Rightarrow> Some (Some cycle)
            | Some (None, visited') \<Rightarrow> mixed_roots n adj ck xk ids (insert nid visited')))"

definition findMixedCycle :: "adjacency \<Rightarrow> string set \<Rightarrow> string set \<Rightarrow> string list option option" where
  "findMixedCycle adj ck xk = mixed_roots (length (map_keys adj)) adj ck xk (map_keys adj) {}"

section \<open>Compilation\<close>

definition addUnique :: "adjacency \<Rightarrow> string \<Rightarrow> string \<Rightarrow> adjacency" where
  "addUnique m from to =
     (case map_get m from of
        None \<Rightarrow> map_set m from [to]
      | Some values \<Rightarrow> if to \<in> set values then m else map_set m from (values @ [to]))"

text \<open>The compiled graph, with the three adjacency maps and the edge keys that the source keeps in
  local variables and closures.\<close>

record compiled_project_graph =
  pg_manifest :: project_manifest
  pg_source :: project_source
  pg_canvasesById :: "(string, canvas_node) js_map"
  pg_canvasIdsInOrder :: "string list"
  pg_taskRefsInProjectOrder :: "project_task_ref list"
  pg_canvasDependenciesByCanvas :: adjacency
  pg_canvasDependentsByCanvas :: adjacency
  pg_crossTaskDependenciesByTaskRef :: adjacency
  pg_crossTaskDependentsByTaskRef :: adjacency
  pg_taskDependenciesByTaskRef :: adjacency
  pg_taskDependentsByTaskRef :: adjacency
  pg_errors :: "validation_issue list"
  pg_warnings :: "validation_issue list"
  pg_canvasAdjacency :: adjacency
  pg_projectCanvasAdjacency :: adjacency
  pg_taskAdjacency :: adjacency
  pg_canvasEdgeKeys :: "string set"
  pg_crossTaskEdgeKeys :: "string set"
  pg_taskIdsByCanvas :: "(string, string list) js_map"

definition pissue :: "string \<Rightarrow> string \<Rightarrow> string option \<Rightarrow> validation_issue" where
  "pissue code message path = \<lparr>vi_code = code, vi_message = message, vi_path = path\<rparr>"

definition add_issue :: "validation_issue \<Rightarrow> compiled_project_graph \<Rightarrow> compiled_project_graph" where
  "add_issue i pg = pg\<lparr>pg_errors := pg_errors pg @ [i]\<rparr>"

definition add_issue_if :: "bool \<Rightarrow> validation_issue \<Rightarrow> compiled_project_graph \<Rightarrow> compiled_project_graph" where
  "add_issue_if b i pg = (if b then add_issue i pg else pg)"

text \<open>The identifiers that occur again, in the order in which the second occurrence is met.\<close>

definition duplicateCanvasIds :: "string list \<Rightarrow> string list" where
  "duplicateCanvasIds ids =
     snd (fold (\<lambda>i (seen, dups).
       (insert i seen, if i \<in> seen \<and> i \<notin> set dups then dups @ [i] else dups)) ids ({}, []))"

definition start_project ::
  "project_manifest \<Rightarrow> project_source \<Rightarrow> validation_issue list \<Rightarrow> compiled_project_graph" where
  "start_project m source diagnostics =
     (let ids = map cn_id (pm_canvases m); empties = fold (\<lambda>i a. map_set a i []) ids []
      in \<lparr>pg_manifest = m, pg_source = source,
          pg_canvasesById = fold (\<lambda>c a. map_set a (cn_id c) c) (pm_canvases m) [],
          pg_canvasIdsInOrder = ids, pg_taskRefsInProjectOrder = [],
          pg_canvasDependenciesByCanvas = empties, pg_canvasDependentsByCanvas = empties,
          pg_crossTaskDependenciesByTaskRef = [], pg_crossTaskDependentsByTaskRef = [],
          pg_taskDependenciesByTaskRef = [], pg_taskDependentsByTaskRef = [],
          pg_errors = map (\<lambda>i. pissue ''project_canvas_id_duplicate''
            (''Canvas id '' @ quoted i @ '' is duplicated.'') (Some ''canvases'')) (duplicateCanvasIds ids),
          pg_warnings = diagnostics,
          pg_canvasAdjacency = empties, pg_projectCanvasAdjacency = empties, pg_taskAdjacency = [],
          pg_canvasEdgeKeys = {}, pg_crossTaskEdgeKeys = {}, pg_taskIdsByCanvas = []\<rparr>)"

definition link_canvas_edge ::
  "canvas_edge \<Rightarrow> string set \<times> compiled_project_graph \<Rightarrow> string set \<times> compiled_project_graph" where
  "link_canvas_edge e = (\<lambda>(seen, pg).
     let key = projectCanvasEdgeKey e; from = ce_from e; to = ce_to e;
         hasFrom = map_has (pg_canvasesById pg) from; hasTo = map_has (pg_canvasesById pg) to;
         pg1 = add_issue_if (key \<in> seen) (pissue ''project_canvas_edge_duplicate''
                 (''Canvas edge '' @ quoted (from @ '' --depends_on--> '' @ to) @ '' is duplicated.'')
                 (Some ''edges'')) pg;
         pg2 = add_issue_if (\<not> hasFrom) (pissue ''project_canvas_edge_from_missing''
                 (''Canvas edge references missing from canvas '' @ quoted from @ ''.'') (Some ''edges'')) pg1;
         pg3 = add_issue_if (\<not> hasTo) (pissue ''project_canvas_edge_to_missing''
                 (''Canvas edge references missing to canvas '' @ quoted to @ ''.'') (Some ''edges'')) pg2
     in (insert key seen,
         if \<not> hasFrom \<or> \<not> hasTo then pg3
         else pg3\<lparr>pg_canvasDependenciesByCanvas := addUnique (pg_canvasDependenciesByCanvas pg3) from to,
                  pg_canvasDependentsByCanvas := addUnique (pg_canvasDependentsByCanvas pg3) to from,
                  pg_canvasAdjacency := addUnique (pg_canvasAdjacency pg3) from to,
                  pg_projectCanvasAdjacency := addUnique (pg_projectCanvasAdjacency pg3) from to,
                  pg_canvasEdgeKeys := insert (canvasPairKey from to) (pg_canvasEdgeKeys pg3)\<rparr>))"

text \<open>What \<^verbatim>\<open>readCanvasPackage\<close> returns: the message of the exception, or the manifest with the
  task identifiers of its graph. The package comes from disk; \<open>errText\<close> is the message of an
  exception of the compiler.\<close>

type_synonym package_reader = "canvas_node \<Rightarrow> string + manifest"

definition readCanvasPackage ::
  "(runtime_error \<Rightarrow> string) \<Rightarrow> package_reader \<Rightarrow> canvas_node \<Rightarrow> validation_issue + manifest \<times> string list" where
  "readCanvasPackage errText readPackage canvas =
     (case readPackage canvas of
        Inl message \<Rightarrow> Inl (pissue ''project_canvas_manifest_read_failed'' message (Some (cn_id canvas)))
      | Inr mf \<Rightarrow>
          (case compileTaskGraph mf of
             Inl e \<Rightarrow> Inl (pissue ''project_canvas_manifest_read_failed'' (errText e) (Some (cn_id canvas)))
           | Inr g \<Rightarrow> Inr (mf, taskNodesInManifestOrder g)))"

definition touch :: "adjacency \<Rightarrow> string \<Rightarrow> adjacency" where
  "touch m k = map_set m k (succs m k)"

definition index_project_task :: "string \<Rightarrow> string \<Rightarrow> compiled_project_graph \<Rightarrow> compiled_project_graph" where
  "index_project_task canvasId taskId pg =
     (let r = \<lparr>pt_canvasId = canvasId, pt_taskId = taskId\<rparr>; key = projectTaskRefKey r
      in pg\<lparr>pg_taskRefsInProjectOrder := pg_taskRefsInProjectOrder pg @ [r],
            pg_taskDependenciesByTaskRef := touch (pg_taskDependenciesByTaskRef pg) key,
            pg_taskDependentsByTaskRef := touch (pg_taskDependentsByTaskRef pg) key,
            pg_taskAdjacency := touch (pg_taskAdjacency pg) key\<rparr>)"

definition link_task_edge :: "string \<Rightarrow> string \<Rightarrow> compiled_project_graph \<Rightarrow> compiled_project_graph" where
  "link_task_edge from to pg =
     pg\<lparr>pg_taskDependenciesByTaskRef := addUnique (pg_taskDependenciesByTaskRef pg) from to,
        pg_taskDependentsByTaskRef := addUnique (pg_taskDependentsByTaskRef pg) to from,
        pg_taskAdjacency := addUnique (pg_taskAdjacency pg) from to\<rparr>"

definition index_canvas ::
  "(runtime_error \<Rightarrow> string) \<Rightarrow> package_reader \<Rightarrow> canvas_node \<Rightarrow> compiled_project_graph \<Rightarrow> compiled_project_graph" where
  "index_canvas errText readPackage canvas pg =
     (case readCanvasPackage errText readPackage canvas of
        Inl e \<Rightarrow> add_issue e pg
      | Inr (mf, taskIds) \<Rightarrow>
          let key = (\<lambda>t. projectTaskRefKey \<lparr>pt_canvasId = cn_id canvas, pt_taskId = t\<rparr>);
              pg1 = pg\<lparr>pg_taskIdsByCanvas := map_set (pg_taskIdsByCanvas pg) (cn_id canvas) taskIds\<rparr>;
              pg2 = fold (index_project_task (cn_id canvas)) taskIds pg1
          in fold (\<lambda>e. link_task_edge (key (me_from e)) (key (me_to e))) (mf_edges mf) pg2)"

definition missing_task :: "project_task_ref \<Rightarrow> compiled_project_graph \<Rightarrow> bool" where
  "missing_task r pg \<longleftrightarrow>
     (case map_get (pg_taskIdsByCanvas pg) (pt_canvasId r) of None \<Rightarrow> False | Some ids \<Rightarrow> pt_taskId r \<notin> set ids)"

definition link_cross_edge ::
  "cross_task_edge \<Rightarrow> string set \<times> compiled_project_graph \<Rightarrow> string set \<times> compiled_project_graph" where
  "link_cross_edge e = (\<lambda>(seen, pg).
     let key = projectCrossTaskEdgeKey e; f = xe_from e; t = xe_to e;
         from = projectTaskRefKey f; to = projectTaskRefKey t;
         pg1 = add_issue_if (key \<in> seen) (pissue ''project_cross_task_edge_duplicate''
                 (''Cross task edge '' @ quoted key @ '' is duplicated.'') (Some ''crossTaskEdges'')) pg;
         pg2 = add_issue_if (\<not> map_has (pg_canvasesById pg) (pt_canvasId f))
                 (pissue ''project_cross_task_from_canvas_missing''
                   (''Cross task edge references missing from canvas '' @ quoted (pt_canvasId f) @ ''.'')
                   (Some ''crossTaskEdges'')) pg1;
         pg3 = add_issue_if (\<not> map_has (pg_canvasesById pg) (pt_canvasId t))
                 (pissue ''project_cross_task_to_canvas_missing''
                   (''Cross task edge references missing to canvas '' @ quoted (pt_canvasId t) @ ''.'')
                   (Some ''crossTaskEdges'')) pg2;
         pg4 = add_issue_if (missing_task f pg) (pissue ''project_cross_task_from_missing''
                 (''Cross task edge references missing from task '' @ quoted from @ ''.'') (Some ''crossTaskEdges'')) pg3;
         pg5 = add_issue_if (missing_task t pg) (pissue ''project_cross_task_to_missing''
                 (''Cross task edge references missing to task '' @ quoted to @ ''.'') (Some ''crossTaskEdges'')) pg4
     in (insert key seen,
         if \<not> map_has (pg_taskAdjacency pg) from \<or> \<not> map_has (pg_taskAdjacency pg) to then pg5
         else let pg6 = link_task_edge from to (pg5
                   \<lparr>pg_crossTaskDependenciesByTaskRef := addUnique (pg_crossTaskDependenciesByTaskRef pg5) from to,
                    pg_crossTaskDependentsByTaskRef := addUnique (pg_crossTaskDependentsByTaskRef pg5) to from\<rparr>)
              in if pt_canvasId f \<noteq> pt_canvasId t
                 then pg6\<lparr>pg_projectCanvasAdjacency :=
                            addUnique (pg_projectCanvasAdjacency pg6) (pt_canvasId f) (pt_canvasId t),
                          pg_crossTaskEdgeKeys :=
                            insert (canvasPairKey (pt_canvasId f) (pt_canvasId t)) (pg_crossTaskEdgeKeys pg6)\<rparr>
                 else pg6))"

fun join_with :: "string \<Rightarrow> string list \<Rightarrow> string" where
  "join_with sep [] = []"
| "join_with sep [x] = x"
| "join_with sep (x # y # ys) = x @ sep @ join_with sep (y # ys)"

definition report_cycle ::
  "string \<Rightarrow> string \<Rightarrow> string \<Rightarrow> string list option \<Rightarrow> compiled_project_graph \<Rightarrow> compiled_project_graph" where
  "report_cycle code kind path cycle pg =
     (case cycle of
        None \<Rightarrow> pg
      | Some c \<Rightarrow> add_issue (pissue code (kind @ '' dependency cycle detected: '' @ join_with '' -> '' c @ ''.'')
                              (Some path)) pg)"

text \<open>Running out of fuel in the search for a mixed cycle would be the value \<open>Inl\<close>.\<close>

definition report_project_cycles :: "compiled_project_graph \<Rightarrow> compiled_project_graph res" where
  "report_project_cycles pg =
     try_bind (project_findCycle (pg_canvasAdjacency pg)) (\<lambda>canvasCycle.
     try_bind (project_findCycle (pg_taskAdjacency pg)) (\<lambda>taskCycle.
     case findMixedCycle (pg_projectCanvasAdjacency pg) (pg_canvasEdgeKeys pg) (pg_crossTaskEdgeKeys pg) of
       None \<Rightarrow> Inl (SchemaInvalid ''mixed cycle fuel'')
     | Some mixedCycle \<Rightarrow>
         Inr (report_cycle ''project_mixed_depends_on_cycle'' ''Mixed project'' ''crossTaskEdges'' mixedCycle
              (report_cycle ''project_task_depends_on_cycle'' ''Task'' ''crossTaskEdges'' taskCycle
              (report_cycle ''project_canvas_depends_on_cycle'' ''Canvas'' ''edges'' canvasCycle pg)))))"

definition compileProjectGraph ::
  "(runtime_error \<Rightarrow> string) \<Rightarrow> package_reader \<Rightarrow> project_manifest \<Rightarrow> project_source \<Rightarrow> validation_issue list \<Rightarrow>
   compiled_project_graph res" where
  "compileProjectGraph errText readPackage m source diagnostics =
     (let pg0 = start_project m source diagnostics;
          pg1 = snd (fold link_canvas_edge (pm_edges m) ({}, pg0));
          pg2 = fold (index_canvas errText readPackage) (pm_canvases m) pg1;
          pg3 = snd (fold link_cross_edge (pm_crossTaskEdges m) ({}, pg2))
      in report_project_cycles pg3)"

definition canvasReachable :: "compiled_project_graph \<Rightarrow> string \<Rightarrow> string \<Rightarrow> bool res" where
  "canvasReachable pg from to = project_reachable (pg_canvasAdjacency pg) from to"

definition project_taskReachable ::
  "compiled_project_graph \<Rightarrow> project_task_ref \<Rightarrow> project_task_ref \<Rightarrow> bool res" where
  "project_taskReachable pg from to =
     project_reachable (pg_taskAdjacency pg) (projectTaskRefKey from) (projectTaskRefKey to)"

definition crossTaskDependencies :: "compiled_project_graph \<Rightarrow> project_task_ref \<Rightarrow> project_task_ref list res" where
  "crossTaskDependencies pg r =
     map_res parseProjectTaskRefKey (succs (pg_crossTaskDependenciesByTaskRef pg) (projectTaskRefKey r))"

definition taskDependencies :: "compiled_project_graph \<Rightarrow> project_task_ref \<Rightarrow> project_task_ref list res" where
  "taskDependencies pg r =
     map_res parseProjectTaskRefKey (succs (pg_taskDependenciesByTaskRef pg) (projectTaskRefKey r))"

section \<open>Execution order\<close>

text \<open>The calls of \<^verbatim>\<open>visit\<close> that are still to be made; fuel as above.\<close>

fun order_loop ::
  "nat \<Rightarrow> adjacency \<Rightarrow> string set \<Rightarrow> string list \<Rightarrow> string set \<times> string list \<Rightarrow> (string set \<times> string list) option" where
  "order_loop n deps visiting [] st = Some st"
| "order_loop n deps visiting (c # cs) (visited, ordered) =
     (if c \<in> visited \<or> c \<in> visiting then order_loop n deps visiting cs (visited, ordered)
      else (case n of
              0 \<Rightarrow> None
            | Suc m \<Rightarrow>
                (case order_loop m deps (insert c visiting) (succs deps c) (visited, ordered) of
                   None \<Rightarrow> None
                 | Some (visited', ordered') \<Rightarrow>
                     order_loop n deps visiting cs (insert c visited', ordered' @ [c]))))"

definition projectCanvasExecutionOrder :: "compiled_project_graph \<Rightarrow> string list option" where
  "projectCanvasExecutionOrder pg =
     map_option snd (order_loop (length (pg_canvasIdsInOrder pg)) (pg_canvasDependenciesByCanvas pg) {}
       (pg_canvasIdsInOrder pg) ({}, []))"

section \<open>Runtime aggregation\<close>

record canvas_snapshot =
  cs_taskCount :: nat
  cs_taskStatusById :: "(string, task_status) js_map"
  cs_complete :: bool

definition emptyRuntimeSnapshot :: canvas_snapshot where
  "emptyRuntimeSnapshot = \<lparr>cs_taskCount = 0, cs_taskStatusById = [], cs_complete = False\<rparr>"

definition runtimeSnapshotFromGraphState :: "compiled_graph \<Rightarrow> runtime_state \<Rightarrow> canvas_snapshot res" where
  "runtimeSnapshotFromGraphState g s =
     try_bind (map_res (\<lambda>t. try_bind (requireTaskState s t) (\<lambda>ts. Inr (t, ts_status ts)))
       (taskNodesInManifestOrder g)) (\<lambda>kvs.
     try_bind (every_res (\<lambda>t. try_bind (requireTaskState s t) (\<lambda>ts. Inr (ts_status ts = TImplemented)))
       (taskNodesInManifestOrder g)) (\<lambda>complete.
     Inr \<lparr>cs_taskCount = length (taskNodesInManifestOrder g),
          cs_taskStatusById = fold (\<lambda>p m. map_set m (fst p) (snd p)) kvs [],
          cs_complete = complete\<rparr>))"

text \<open>The files of a canvas: its manifest and its state file.\<close>

definition canvasRuntimeSnapshot :: "manifest \<Rightarrow> runtime_state option \<Rightarrow> canvas_snapshot res" where
  "canvasRuntimeSnapshot mf file =
     try_bind (compileTaskGraph mf) (\<lambda>g.
     try_bind (readState file) (\<lambda>raw.
     try_bind (ensureStateForManifest mf raw) (\<lambda>s.
     runtimeSnapshotFromGraphState g s)))"

text \<open>What the aggregation finds of a canvas: a storage error, or its files (or the error of reading
  the package).\<close>

record canvas_disk =
  dk_storageError :: "string option"
  dk_package :: "string + manifest"
  dk_state :: "runtime_state option"

type_synonym project_disk = "canvas_node \<Rightarrow> canvas_disk"

definition disk_snapshot :: "canvas_disk \<Rightarrow> canvas_snapshot res" where
  "disk_snapshot d =
     (case dk_package d of
        Inl message \<Rightarrow> Inl (FileMissing message)
      | Inr mf \<Rightarrow> canvasRuntimeSnapshot mf (dk_state d))"

record aggregation =
  ag_graph :: compiled_project_graph
  ag_orderedCanvasIds :: "string list"
  ag_canvasesById :: "(string, canvas_node) js_map"
  ag_runtimeSnapshotsByCanvas :: "(string, canvas_snapshot) js_map"

definition aggregate_canvas ::
  "project_disk \<Rightarrow> compiled_project_graph \<Rightarrow> string \<Rightarrow>
   (string, canvas_node) js_map \<times> (string, canvas_snapshot) js_map \<Rightarrow>
   (string, canvas_node) js_map \<times> (string, canvas_snapshot) js_map" where
  "aggregate_canvas disk pg canvasId = (\<lambda>(canvases, snaps).
     case map_get (pg_canvasesById pg) canvasId of
       None \<Rightarrow> (canvases, snaps)
     | Some canvas \<Rightarrow>
         if dk_storageError (disk canvas) \<noteq> None
         then (canvases, map_set snaps canvasId emptyRuntimeSnapshot)
         else (map_set canvases canvasId canvas,
               map_set snaps canvasId
                 (case disk_snapshot (disk canvas) of Inl _ \<Rightarrow> emptyRuntimeSnapshot | Inr x \<Rightarrow> x)))"

definition loadProjectCanvasRuntimeAggregation ::
  "(runtime_error \<Rightarrow> string) \<Rightarrow> project_disk \<Rightarrow> project_manifest \<Rightarrow> project_source \<Rightarrow> validation_issue list \<Rightarrow>
   aggregation res" where
  "loadProjectCanvasRuntimeAggregation errText disk m source diagnostics =
     try_bind (compileProjectGraph errText (\<lambda>c. dk_package (disk c)) m source diagnostics) (\<lambda>pg.
     case projectCanvasExecutionOrder pg of
       None \<Rightarrow> Inl (SchemaInvalid ''execution order fuel'')
     | Some ordered \<Rightarrow>
         let (canvases, snaps) = fold (aggregate_canvas disk pg) ordered ([], [])
         in Inr \<lparr>ag_graph = pg, ag_orderedCanvasIds = ordered, ag_canvasesById = canvases,
                 ag_runtimeSnapshotsByCanvas = snaps\<rparr>)"

section \<open>Blockers and the claim guard\<close>

definition canvas_complete :: "aggregation \<Rightarrow> string \<Rightarrow> bool" where
  "canvas_complete ag c =
     (case map_get (ag_runtimeSnapshotsByCanvas ag) c of None \<Rightarrow> False | Some x \<Rightarrow> cs_complete x)"

definition task_implemented :: "aggregation \<Rightarrow> project_task_ref \<Rightarrow> bool" where
  "task_implemented ag r =
     (case map_get (ag_runtimeSnapshotsByCanvas ag) (pt_canvasId r) of
        None \<Rightarrow> False
      | Some x \<Rightarrow> map_get (cs_taskStatusById x) (pt_taskId r) = Some TImplemented)"

definition taskRefLabel :: "project_task_ref \<Rightarrow> string" where
  "taskRefLabel r = pt_canvasId r @ '':'' @ pt_taskId r"

definition projectBlockersForTask :: "aggregation \<Rightarrow> string \<Rightarrow> string \<Rightarrow> string list res" where
  "projectBlockersForTask ag canvasId taskId =
     (let canvasBlockers = map (\<lambda>c. ''canvas:'' @ c)
            (filter (\<lambda>c. \<not> canvas_complete ag c)
              (succs (pg_canvasDependenciesByCanvas (ag_graph ag)) canvasId))
      in try_bind (crossTaskDependencies (ag_graph ag) \<lparr>pt_canvasId = canvasId, pt_taskId = taskId\<rparr>) (\<lambda>deps.
         Inr (js_dedup (canvasBlockers @ map taskRefLabel
           (filter (\<lambda>d. \<not> task_implemented ag d) (filter (\<lambda>d. pt_canvasId d \<noteq> canvasId) deps))))))"

definition projectBlockerReasonForTask :: "aggregation \<Rightarrow> string \<Rightarrow> string \<Rightarrow> string option res" where
  "projectBlockerReasonForTask ag canvasId taskId =
     try_bind (projectBlockersForTask ag canvasId taskId) (\<lambda>blockers.
     Inr (if blockers \<noteq> []
          then Some (''Project graph blockers are not complete: '' @ join_with '', '' blockers @ ''.'')
          else None))"

definition currentProjectCanvasForWorkspace :: "(canvas_node \<Rightarrow> string) \<Rightarrow> aggregation \<Rightarrow> string \<Rightarrow> string option" where
  "currentProjectCanvasForWorkspace packageDirOf ag packageDir =
     List.find (\<lambda>canvasId. case map_get (ag_canvasesById ag) canvasId of
         None \<Rightarrow> False | Some c \<Rightarrow> packageDirOf c = packageDir) (pg_canvasIdsInOrder (ag_graph ag))"

definition projectGraphDiagnosticNote :: "validation_issue \<Rightarrow> string" where
  "projectGraphDiagnosticNote i =
     vi_code i @ (case truthy (vi_path i) of None \<Rightarrow> [] | Some p \<Rightarrow> '' ['' @ p @ '']'') @ '': '' @ vi_message i"

definition constant_guard :: "string \<Rightarrow> claim_guard" where
  "constant_guard reason =
     \<lparr>cg_blockersForTask = (\<lambda>_. [reason]), cg_blockerReasonForTask = (\<lambda>_. Some reason)\<rparr>"

definition newline :: string where
  "newline = [CHR 0x0A]"

definition invalid_graph_reason :: "compiled_project_graph \<Rightarrow> string" where
  "invalid_graph_reason pg =
     join_with newline (''Project graph is invalid; no task canvas work can be claimed.'' #
       map (\<lambda>e. ''- '' @ projectGraphDiagnosticNote e) (pg_errors pg))"

text \<open>The guard of a listed canvas. Its functions throw when a stored task reference does not parse; the references come
  from the keys of the manifest's edges, and \<open>blockers_total\<close> below shows that those always parse. Here
  an exception is an empty answer.\<close>

definition canvas_guard :: "aggregation \<Rightarrow> string \<Rightarrow> claim_guard" where
  "canvas_guard ag canvasId =
     \<lparr>cg_blockersForTask = (\<lambda>t. case projectBlockersForTask ag canvasId t of Inl _ \<Rightarrow> [] | Inr bs \<Rightarrow> bs),
      cg_blockerReasonForTask =
        (\<lambda>t. case projectBlockerReasonForTask ag canvasId t of Inl _ \<Rightarrow> None | Inr r \<Rightarrow> r)\<rparr>"

definition createProjectGraphClaimGuardFromAggregation ::
  "(canvas_node \<Rightarrow> string) \<Rightarrow> string \<Rightarrow> aggregation \<Rightarrow> claim_guard" where
  "createProjectGraphClaimGuardFromAggregation packageDirOf packageDir ag =
     (if pg_source (ag_graph ag) \<noteq> FromProjectGraph then noProjectGraphBlockers
      else if pg_errors (ag_graph ag) \<noteq> [] then constant_guard (invalid_graph_reason (ag_graph ag))
      else case currentProjectCanvasForWorkspace packageDirOf ag packageDir of
             None \<Rightarrow> constant_guard ''Current task canvas is not listed in project-graph.json.''
           | Some canvasId \<Rightarrow> canvas_guard ag canvasId)"

definition createProjectGraphClaimGuard ::
  "(runtime_error \<Rightarrow> string) \<Rightarrow> (canvas_node \<Rightarrow> string) \<Rightarrow> project_disk \<Rightarrow> project_manifest \<Rightarrow> project_source \<Rightarrow>
   validation_issue list \<Rightarrow> string \<Rightarrow> claim_guard res" where
  "createProjectGraphClaimGuard errText packageDirOf disk m source diagnostics packageDir =
     try_bind (loadProjectCanvasRuntimeAggregation errText disk m source diagnostics) (\<lambda>ag.
     Inr (createProjectGraphClaimGuardFromAggregation packageDirOf packageDir ag))"

section \<open>The guard keeps its contract\<close>

lemma join_nonempty: "xs \<noteq> [] \<Longrightarrow> hd xs \<noteq> [] \<Longrightarrow> join_with sep xs \<noteq> []"
  by (cases xs; cases "tl xs") auto

lemma constant_guard_laws: "reason \<noteq> [] \<Longrightarrow> claim_guard_laws (constant_guard reason)"
  by unfold_locales (simp_all add: constant_guard_def)

lemma canvas_guard_laws: "claim_guard_laws (canvas_guard ag c)"
  by unfold_locales (auto simp: canvas_guard_def projectBlockerReasonForTask_def try_bind_def split: sum.splits)

interpretation project_guard: claim_guard_laws
  "createProjectGraphClaimGuardFromAggregation packageDirOf packageDir ag" for packageDirOf packageDir ag
proof -
  have "invalid_graph_reason (ag_graph ag) \<noteq> []"
    unfolding invalid_graph_reason_def by (rule join_nonempty) simp_all
  then show "claim_guard_laws (createProjectGraphClaimGuardFromAggregation packageDirOf packageDir ag)"
    using no_guard.claim_guard_laws_axioms canvas_guard_laws
    by (simp add: createProjectGraphClaimGuardFromAggregation_def constant_guard_laws split: option.split)
qed

section \<open>The execution order is topological\<close>

text \<open>Every element comes after its dependencies.\<close>

definition deps_first :: "adjacency \<Rightarrow> string list \<Rightarrow> bool" where
  "deps_first deps o' \<longleftrightarrow> (\<forall>i < length o'. set (succs deps (o' ! i)) \<subseteq> set (take i o'))"

lemma deps_first_Nil [simp]: "deps_first deps []"
  by (simp add: deps_first_def)

lemma deps_first_snoc:
  "deps_first deps (o' @ [c]) \<longleftrightarrow> deps_first deps o' \<and> set (succs deps c) \<subseteq> set o'"
  by (auto simp: deps_first_def nth_append less_Suc_eq)

text \<open>What a visit leaves behind.\<close>

definition order_inv ::
  "string set \<Rightarrow> string set \<Rightarrow> string set \<times> string list \<Rightarrow> bool" where
  "order_inv K visiting st \<longleftrightarrow>
     set (snd st) = fst st \<and> distinct (snd st) \<and> fst st \<subseteq> K \<and> fst st \<inter> visiting = {}"

lemma order_loop_total:
  assumes "finite K" and "\<forall>c \<in> K. set (succs deps c) \<subseteq> K" and "set cs \<subseteq> K" and "visiting \<subseteq> K"
    and "card (K - visiting) \<le> n" and "order_inv K visiting st"
  shows "\<exists>st'. order_loop n deps visiting cs st = Some st' \<and> order_inv K visiting st' \<and>
     fst st \<subseteq> fst st' \<and> set cs \<subseteq> fst st' \<union> visiting \<and>
     (acyclic (all_edges deps) \<longrightarrow> (\<forall>v \<in> visiting. \<forall>c \<in> set cs. (v, c) \<in> (all_edges deps)\<^sup>+) \<longrightarrow>
        deps_first deps (snd st) \<longrightarrow> deps_first deps (snd st'))"
  using assms(2-6)
proof (induction n deps visiting cs st rule: order_loop.induct)
  case (1 n deps visiting st)
  then show ?case by simp
next
  case (2 n deps visiting c cs visited ordered)
  note IH = "2.IH" and prems = "2.prems"
  have cs: "set cs \<subseteq> K" using prems(2) by simp
  show ?case
  proof (cases "c \<in> visited \<or> c \<in> visiting")
    case True
    from IH(1) [OF True prems(1) cs prems(3-5)] True show ?thesis by auto
  next
    case False
    with prems have c: "c \<in> K" "c \<notin> visiting" by auto
    with assms(1) have "0 < card (K - visiting)" by (auto simp: card_gt_0_iff)
    then obtain m where n: "n = Suc m" using prems(4) by (cases n) auto
    have sub: "set (succs deps c) \<subseteq> K" "insert c visiting \<subseteq> K" using prems(1,3) c by auto
    have card: "card (K - insert c visiting) \<le> m"
      using prems(4) c assms(1) n by (simp add: card_Diff_insert)
    have inv: "order_inv K (insert c visiting) (visited, ordered)"
      using prems(5) False by (simp add: order_inv_def)
    from IH(2) [OF False n prems(1) sub card inv] obtain st1 where
      r1: "order_loop m deps (insert c visiting) (succs deps c) (visited, ordered) = Some st1"
        "order_inv K (insert c visiting) st1" "visited \<subseteq> fst st1" "set (succs deps c) \<subseteq> fst st1 \<union> insert c visiting"
        "acyclic (all_edges deps) \<Longrightarrow>
          (\<forall>v \<in> insert c visiting. \<forall>d \<in> set (succs deps c). (v, d) \<in> (all_edges deps)\<^sup>+) \<Longrightarrow>
          deps_first deps ordered \<Longrightarrow> deps_first deps (snd st1)"
      unfolding fst_conv snd_conv by blast
    obtain V1 O1 where st1: "st1 = (V1, O1)" by (cases st1)
    have inv2: "order_inv K visiting (insert c V1, O1 @ [c])"
      using r1(2) c by (auto simp: st1 order_inv_def)
    from IH(3) [OF False n r1(1) st1 [symmetric] prems(1) cs prems(3,4) inv2] obtain st2 where
      r2: "order_loop n deps visiting cs (insert c V1, O1 @ [c]) = Some st2" "order_inv K visiting st2"
        "insert c V1 \<subseteq> fst st2" "set cs \<subseteq> fst st2 \<union> visiting"
        "acyclic (all_edges deps) \<Longrightarrow> (\<forall>v \<in> visiting. \<forall>d \<in> set cs. (v, d) \<in> (all_edges deps)\<^sup>+) \<Longrightarrow>
          deps_first deps (O1 @ [c]) \<Longrightarrow> deps_first deps (snd st2)"
      unfolding fst_conv snd_conv by blast
    have topo: "deps_first deps (snd st2)"
      if ac: "acyclic (all_edges deps)" and ch: "\<forall>v \<in> visiting. \<forall>d \<in> set (c # cs). (v, d) \<in> (all_edges deps)\<^sup>+"
        and d1: "deps_first deps ordered"
    proof -
      have e: "(c, d) \<in> all_edges deps" if "d \<in> set (succs deps c)" for d
        using that by (simp add: all_edges_def)
      have up: "\<forall>v \<in> insert c visiting. \<forall>d \<in> set (succs deps c). (v, d) \<in> (all_edges deps)\<^sup>+"
        using ch e by (auto intro: trancl_into_trancl)
      have "d \<in> set O1" if d: "d \<in> set (succs deps c)" for d
      proof -
        have "d \<notin> insert c visiting" using up d ac unfolding acyclic_def by blast
        with r1(2,4) d show ?thesis by (auto simp: st1 order_inv_def)
      qed
      then have "deps_first deps (O1 @ [c])" using r1(5) [OF ac up d1] by (auto simp: st1 deps_first_snoc)
      with r2(5) [OF ac] ch show ?thesis by simp
    qed
    show ?thesis using False n r1(1,3) st1 r2(1-4) topo by auto
  qed
qed

section \<open>The search for mixed cycles\<close>

text \<open>The fuel is enough, and a reported cycle is a closed walk that uses an edge of both kinds.\<close>

definition mixed_cycle :: "adjacency \<Rightarrow> string set \<Rightarrow> string set \<Rightarrow> string list \<Rightarrow> bool" where
  "mixed_cycle adj ck xk c \<longleftrightarrow> is_cycle adj c \<and> cycleUsesEdge c ck \<and> cycleUsesEdge c xk"

lemma path_cycle:
  assumes "walk adj (ps @ [p])" and "nid \<in> set (ps @ [p])" and "nid \<in> set (succs adj p)" and "map_has adj nid"
  shows "is_cycle adj (dropWhile (\<lambda>x. x \<noteq> nid) (ps @ [p]) @ [nid])"
proof -
  let ?c = "dropWhile (\<lambda>x. x \<noteq> nid) (ps @ [p])"
  from assms(2) obtain cs where c: "?c = nid # cs"
    using hd_dropWhile [of "\<lambda>x. x \<noteq> nid" "ps @ [p]"] by (cases ?c) auto
  have "walk adj (takeWhile (\<lambda>x. x \<noteq> nid) (ps @ [p]) @ ?c)" using assms(1) by simp
  then have w: "walk adj ?c" by (rule walk_suffix)
  have "last ?c = last (ps @ [p])" using c by (metis last_append list.discI takeWhile_dropWhile_id)
  then have "?c = butlast ?c @ [p]" using c by (metis append_butlast_last_id last_snoc list.discI)
  with w assms(3,4) have "walk adj (?c @ [nid])" by (metis append.assoc append_Cons append_Nil walk_snoc)
  with c show ?thesis by (simp add: is_cycle_def)
qed

lemma mixed_loop_total:
  assumes "card ({k. map_has adj k} - set path) \<le> n" and "path \<noteq> []" and "walk adj path"
    and "list_all (map_has adj) path" and "set ns \<subseteq> set (succs adj (last path))"
  shows "\<exists>c v. mixed_loop n adj ck xk path ns visited = Some (c, v) \<and>
     (case c of None \<Rightarrow> True | Some cy \<Rightarrow> mixed_cycle adj ck xk cy)"
  using assms
proof (induction n adj ck xk path ns visited rule: mixed_loop.induct)
  case (1 n adj ck xk path visited)
  then show ?case by simp
next
  case (2 n adj ck xk path nid ns visited)
  note IH = "2.IH" and prems = "2.prems"
  have ns: "set ns \<subseteq> set (succs adj (last path))" "nid \<in> set (succs adj (last path))" using prems(5) by auto
  obtain ps p where path: "path = ps @ [p]" using prems(2) by (cases path rule: rev_cases) auto
  show ?case
  proof (cases "nid \<in> set path")
    case True
    have "map_has adj nid" using True prems(4) by (auto simp: list_all_iff)
    then have "is_cycle adj (dropWhile (\<lambda>x. x \<noteq> nid) path @ [nid])"
      using path_cycle [of adj ps p nid] prems(3) True ns(2) path by simp
    with True IH(1) [OF True refl _ prems(1-4) ns(1)] show ?thesis
      by (auto simp: mixed_cycle_def Let_def)
  next
    case False
    show ?thesis
    proof (cases "nid \<notin> visited \<and> map_has adj nid")
      case skip: False
      with False IH(4) [OF False skip prems(1-4) ns(1)] show ?thesis by auto
    next
      case True
      have "0 < card ({k. map_has adj k} - set path)" using True False by (auto simp: card_gt_0_iff)
      then obtain m where n: "n = Suc m" using prems(1) by (cases n) auto
      have "{k. map_has adj k} - set (path @ [nid]) = {k. map_has adj k} - set path - {nid}" by auto
      then have card: "card ({k. map_has adj k} - set (path @ [nid])) \<le> m"
        using prems(1) True False n by simp
      have w: "walk adj (path @ [nid])" using prems(3) ns(2) True path walk_snoc by simp
      have keys: "list_all (map_has adj) (path @ [nid])" using prems(4) True by simp
      have ne: "path @ [nid] \<noteq> []" by simp
      from IH(2) [OF False True n card ne w keys] obtain c v where
        r: "mixed_loop m adj ck xk (path @ [nid]) (succs adj nid) visited = Some (c, v)"
          "case c of None \<Rightarrow> True | Some cy \<Rightarrow> mixed_cycle adj ck xk cy" by auto
      show ?thesis
      proof (cases c)
        case None
        from IH(3) [OF False True n r(1) [unfolded None] refl refl prems(1-4) ns(1)] False True n r(1) None
        show ?thesis by auto
      next
        case (Some cy)
        with False True n r show ?thesis by auto
      qed
    qed
  qed
qed

lemma mixed_roots_total:
  assumes "card {k. map_has adj k} \<le> Suc n" and "\<forall>k \<in> set ids. map_has adj k"
  shows "\<exists>c. mixed_roots n adj ck xk ids visited = Some c \<and>
     (case c of None \<Rightarrow> True | Some cy \<Rightarrow> mixed_cycle adj ck xk cy)"
  using assms(2)
proof (induction ids arbitrary: visited)
  case (Cons k ids)
  have "card ({j. map_has adj j} - set [k]) \<le> n" using assms(1) Cons.prems by simp
  from mixed_loop_total [OF this, where ns = "succs adj k" and ck = ck and xk = xk and visited = visited]
  obtain c v where r: "mixed_loop n adj ck xk [k] (succs adj k) visited = Some (c, v)"
    "case c of None \<Rightarrow> True | Some cy \<Rightarrow> mixed_cycle adj ck xk cy" using Cons.prems by auto
  from Cons.IH [of visited] Cons.IH [of "insert k v"] Cons.prems r show ?case
    by (cases c) auto
qed simp

lemma findMixedCycle_total:
  "\<exists>c. findMixedCycle adj ck xk = Some c \<and> (case c of None \<Rightarrow> True | Some cy \<Rightarrow> mixed_cycle adj ck xk cy)"
proof -
  have "card {k. map_has adj k} = card (set (map_keys adj))" by (rule arg_cong [where f = card]) auto
  also have "\<dots> \<le> length (map_keys adj)" by (rule card_length)
  finally show ?thesis
    unfolding findMixedCycle_def by (intro mixed_roots_total) auto
qed

section \<open>What compilation puts into the indexes\<close>

lemma succs_addUnique: "set (succs (addUnique m a b) k) = set (succs m k) \<union> (if k = a then {b} else {})"
  by (auto simp: addUnique_def succs_def jm.get_put split: option.splits if_splits)

lemma has_addUnique: "map_has (addUnique m a b) k \<longleftrightarrow> map_has m k \<or> k = a"
  by (auto simp: addUnique_def js_map_simps split: option.splits)

lemma has_touch: "map_has (touch m a) k \<longleftrightarrow> map_has m k \<or> k = a"
  by (auto simp: touch_def js_map_simps)

text \<open>The part of the graph that a step leaves alone, with the errors only growing.\<close>

definition known_edge :: "compiled_project_graph \<Rightarrow> canvas_edge \<Rightarrow> bool" where
  "known_edge pg e \<longleftrightarrow> map_has (pg_canvasesById pg) (ce_from e) \<and> map_has (pg_canvasesById pg) (ce_to e)"

definition canvas_edges_added ::
  "canvas_edge list \<Rightarrow> compiled_project_graph \<Rightarrow> compiled_project_graph \<Rightarrow> bool" where
  "canvas_edges_added es pg pg' \<longleftrightarrow>
     pg_canvasesById pg' = pg_canvasesById pg \<and> pg_canvasIdsInOrder pg' = pg_canvasIdsInOrder pg \<and>
     pg_source pg' = pg_source pg \<and>
     pg_crossTaskDependenciesByTaskRef pg' = pg_crossTaskDependenciesByTaskRef pg \<and>
     pg_taskAdjacency pg' = pg_taskAdjacency pg \<and> pg_taskIdsByCanvas pg' = pg_taskIdsByCanvas pg \<and>
     (pg_canvasAdjacency pg = pg_canvasDependenciesByCanvas pg \<longrightarrow>
        pg_canvasAdjacency pg' = pg_canvasDependenciesByCanvas pg') \<and>
     (\<forall>k. map_has (pg_canvasDependenciesByCanvas pg) k \<longrightarrow> map_has (pg_canvasDependenciesByCanvas pg') k) \<and>
     (\<forall>a. set (succs (pg_canvasDependenciesByCanvas pg') a) =
        set (succs (pg_canvasDependenciesByCanvas pg) a) \<union>
        {ce_to e | e. e \<in> set es \<and> ce_from e = a \<and> known_edge pg e}) \<and>
     (pg_errors pg' = [] \<longrightarrow> pg_errors pg = [] \<and> (\<forall>e \<in> set es. known_edge pg e))"

lemma link_canvas_edge_step:
  "canvas_edges_added [e] pg (snd (link_canvas_edge e (seen, pg)))"
  by (auto simp: canvas_edges_added_def link_canvas_edge_def known_edge_def Let_def add_issue_if_def add_issue_def
      succs_addUnique has_addUnique)

lemma link_canvas_edges:
  "canvas_edges_added es pg (snd (fold link_canvas_edge es (seen, pg)))"
proof (induction es arbitrary: seen pg)
  case Nil
  then show ?case by (simp add: canvas_edges_added_def)
next
  case (Cons e es)
  obtain seen1 pg1 where s1: "link_canvas_edge e (seen, pg) = (seen1, pg1)" by fastforce
  have 1: "canvas_edges_added [e] pg pg1" using link_canvas_edge_step [of e pg seen] s1 by simp
  then have k: "known_edge pg1 x \<longleftrightarrow> known_edge pg x" for x by (simp add: canvas_edges_added_def known_edge_def)
  let ?pg' = "snd (fold link_canvas_edge es (seen1, pg1))"
  have 2: "canvas_edges_added es pg1 ?pg'" by (rule Cons.IH)
  have deps: "set (succs (pg_canvasDependenciesByCanvas ?pg') a) =
      set (succs (pg_canvasDependenciesByCanvas pg) a) \<union>
      {ce_to x | x. x \<in> set [e] \<and> ce_from x = a \<and> known_edge pg x} \<union>
      {ce_to x | x. x \<in> set es \<and> ce_from x = a \<and> known_edge pg x}" for a
    using 1 2 by (simp only: canvas_edges_added_def k)
  have e2: "pg_errors ?pg' = [] \<Longrightarrow> pg_errors pg1 = [] \<and> (\<forall>x \<in> set es. known_edge pg x)"
    using 2 unfolding canvas_edges_added_def k by blast
  have e1: "pg_errors pg1 = [] \<Longrightarrow> pg_errors pg = [] \<and> (\<forall>x \<in> set [e]. known_edge pg x)"
    using 1 unfolding canvas_edges_added_def by blast
  have adj: "pg_canvasAdjacency pg = pg_canvasDependenciesByCanvas pg \<Longrightarrow>
      pg_canvasAdjacency ?pg' = pg_canvasDependenciesByCanvas ?pg'"
    using 1 2 by (simp only: canvas_edges_added_def)
  have has: "map_has (pg_canvasDependenciesByCanvas ?pg') k" if "map_has (pg_canvasDependenciesByCanvas pg) k" for k
    using 1 2 that unfolding canvas_edges_added_def by metis
  have frame: "pg_canvasesById ?pg' = pg_canvasesById pg" "pg_canvasIdsInOrder ?pg' = pg_canvasIdsInOrder pg"
    "pg_source ?pg' = pg_source pg"
    "pg_crossTaskDependenciesByTaskRef ?pg' = pg_crossTaskDependenciesByTaskRef pg"
    "pg_taskAdjacency ?pg' = pg_taskAdjacency pg" "pg_taskIdsByCanvas ?pg' = pg_taskIdsByCanvas pg"
    using 1 2 by (simp_all only: canvas_edges_added_def)
  have eq: "snd (fold link_canvas_edge (e # es) (seen, pg)) = ?pg'" using s1 by simp
  have "{ce_to x | x. x \<in> set (e # es) \<and> ce_from x = a \<and> known_edge pg x} =
      {ce_to x | x. x \<in> set [e] \<and> ce_from x = a \<and> known_edge pg x} \<union>
      {ce_to x | x. x \<in> set es \<and> ce_from x = a \<and> known_edge pg x}" for a by auto
  then show ?case
    unfolding eq canvas_edges_added_def using frame adj has deps e1 e2 by (simp add: Un_assoc)
qed

text \<open>Indexing the canvases leaves the canvas part of the graph alone; without an error every canvas has
  its task identifiers, and every one of them has an entry in the task adjacency.\<close>

definition canvas_frame :: "compiled_project_graph \<Rightarrow> compiled_project_graph \<Rightarrow> bool" where
  "canvas_frame pg pg' \<longleftrightarrow>
     pg_canvasesById pg' = pg_canvasesById pg \<and> pg_canvasIdsInOrder pg' = pg_canvasIdsInOrder pg \<and>
     pg_source pg' = pg_source pg \<and>
     pg_canvasAdjacency pg' = pg_canvasAdjacency pg \<and>
     pg_canvasDependenciesByCanvas pg' = pg_canvasDependenciesByCanvas pg \<and>
     pg_crossTaskDependenciesByTaskRef pg' = pg_crossTaskDependenciesByTaskRef pg \<and>
     (pg_errors pg' = [] \<longrightarrow> pg_errors pg = []) \<and>
     (\<forall>k. map_has (pg_taskIdsByCanvas pg) k \<longrightarrow> map_has (pg_taskIdsByCanvas pg') k) \<and>
     (\<forall>k. map_has (pg_taskAdjacency pg) k \<longrightarrow> map_has (pg_taskAdjacency pg') k)"

lemma canvas_frame_refl: "canvas_frame pg pg"
  by (simp add: canvas_frame_def)

lemma canvas_frame_trans: "canvas_frame a b \<Longrightarrow> canvas_frame b c \<Longrightarrow> canvas_frame a c"
  by (simp add: canvas_frame_def)

definition taskKey :: "string \<Rightarrow> string \<Rightarrow> string" where
  "taskKey c t = projectTaskRefKey \<lparr>pt_canvasId = c, pt_taskId = t\<rparr>"

definition tasks_indexed :: "compiled_project_graph \<Rightarrow> bool" where
  "tasks_indexed pg \<longleftrightarrow> (\<forall>c ids t. map_get (pg_taskIdsByCanvas pg) c = Some ids \<longrightarrow> t \<in> set ids \<longrightarrow>
     map_has (pg_taskAdjacency pg) (taskKey c t))"

lemma index_tasks:
  "canvas_frame pg (fold (index_project_task c) ids pg) \<and>
   pg_taskIdsByCanvas (fold (index_project_task c) ids pg) = pg_taskIdsByCanvas pg \<and>
   (\<forall>t \<in> set ids. map_has (pg_taskAdjacency (fold (index_project_task c) ids pg)) (taskKey c t))"
proof (induction ids arbitrary: pg)
  case Nil
  show ?case by (simp add: canvas_frame_refl)
next
  case (Cons t ids)
  let ?pg1 = "index_project_task c t pg"
  have 1: "canvas_frame pg ?pg1" "pg_taskIdsByCanvas ?pg1 = pg_taskIdsByCanvas pg"
    "map_has (pg_taskAdjacency ?pg1) (taskKey c t)"
    by (simp_all add: canvas_frame_def index_project_task_def Let_def has_touch taskKey_def)
  have 2: "canvas_frame ?pg1 (fold (index_project_task c) ids ?pg1)" using Cons.IH by blast
  then have "map_has (pg_taskAdjacency (fold (index_project_task c) ids ?pg1)) (taskKey c t)"
    using 1(3) by (simp add: canvas_frame_def)
  with 1 Cons.IH [of ?pg1] canvas_frame_trans [OF 1(1) 2] show ?case by simp
qed

lemma link_task_edges:
  "canvas_frame pg (fold (\<lambda>e. link_task_edge (k (me_from e)) (k (me_to e))) es pg) \<and>
   pg_taskIdsByCanvas (fold (\<lambda>e. link_task_edge (k (me_from e)) (k (me_to e))) es pg) = pg_taskIdsByCanvas pg"
proof (induction es arbitrary: pg)
  case Nil
  show ?case by (simp add: canvas_frame_refl)
next
  case (Cons e es)
  have "canvas_frame pg (link_task_edge (k (me_from e)) (k (me_to e)) pg)"
    by (simp add: canvas_frame_def link_task_edge_def has_addUnique)
  with Cons.IH [of "link_task_edge (k (me_from e)) (k (me_to e)) pg"] show ?case
    by (simp add: link_task_edge_def canvas_frame_trans)
qed

lemma index_canvas_step:
  assumes "tasks_indexed pg"
  shows "canvas_frame pg (index_canvas errText rp canvas pg)" "tasks_indexed (index_canvas errText rp canvas pg)"
    and "pg_errors (index_canvas errText rp canvas pg) = [] \<Longrightarrow>
      map_has (pg_taskIdsByCanvas (index_canvas errText rp canvas pg)) (cn_id canvas)"
proof -
  let ?pg' = "index_canvas errText rp canvas pg"
  have "canvas_frame pg ?pg' \<and> tasks_indexed ?pg' \<and>
    (pg_errors ?pg' = [] \<longrightarrow> map_has (pg_taskIdsByCanvas ?pg') (cn_id canvas))"
  proof (cases "readCanvasPackage errText rp canvas")
    case (Inl e)
    with assms show ?thesis
      by (simp add: index_canvas_def canvas_frame_def add_issue_def tasks_indexed_def)
  next
    case (Inr r)
    obtain mf ids where r: "r = (mf, ids)" by (cases r)
    let ?k = "\<lambda>t. projectTaskRefKey \<lparr>pt_canvasId = cn_id canvas, pt_taskId = t\<rparr>"
    let ?pg1 = "pg\<lparr>pg_taskIdsByCanvas := map_set (pg_taskIdsByCanvas pg) (cn_id canvas) ids\<rparr>"
    let ?pg2 = "fold (index_project_task (cn_id canvas)) ids ?pg1"
    let ?pg3 = "fold (\<lambda>e. link_task_edge (?k (me_from e)) (?k (me_to e))) (mf_edges mf) ?pg2"
    have eq: "?pg' = ?pg3" using Inr r by (simp add: index_canvas_def Let_def)
    have f1: "canvas_frame pg ?pg1" by (simp add: canvas_frame_def js_map_simps)
    have f2: "canvas_frame ?pg1 ?pg2"
      and i2: "pg_taskIdsByCanvas ?pg2 = map_set (pg_taskIdsByCanvas pg) (cn_id canvas) ids"
      and a2: "\<forall>t \<in> set ids. map_has (pg_taskAdjacency ?pg2) (taskKey (cn_id canvas) t)"
      using index_tasks [of ?pg1 "cn_id canvas" ids] by simp_all
    have f3: "canvas_frame ?pg2 ?pg3" and i3: "pg_taskIdsByCanvas ?pg3 = pg_taskIdsByCanvas ?pg2"
      using link_task_edges [of ?pg2 ?k "mf_edges mf"] by blast+
    have f: "canvas_frame pg ?pg2" "canvas_frame pg ?pg3"
      using f1 f2 f3 canvas_frame_trans by blast+
    have "tasks_indexed ?pg3"
      unfolding tasks_indexed_def i3 i2
    proof (intro allI impI)
      fix c ids' t
      assume g: "map_get (map_set (pg_taskIdsByCanvas pg) (cn_id canvas) ids) c = Some ids'" and t: "t \<in> set ids'"
      have "map_has (pg_taskAdjacency ?pg2) (taskKey c t)"
      proof (cases "c = cn_id canvas")
        case True
        with g t a2 show ?thesis by (simp add: jm.get_put)
      next
        case False
        with g t assms have "map_has (pg_taskAdjacency pg) (taskKey c t)" by (simp add: jm.get_put tasks_indexed_def)
        with f(1) show ?thesis by (simp add: canvas_frame_def)
      qed
      with f3 show "map_has (pg_taskAdjacency ?pg3) (taskKey c t)" by (simp add: canvas_frame_def)
    qed
    with f(2) show ?thesis unfolding eq i3 i2 by (simp add: js_map_simps)
  qed
  then show "canvas_frame pg ?pg'" "tasks_indexed ?pg'"
    "pg_errors ?pg' = [] \<Longrightarrow> map_has (pg_taskIdsByCanvas ?pg') (cn_id canvas)" by blast+
qed

lemma index_canvases:
  assumes "tasks_indexed pg"
  shows "canvas_frame pg (fold (index_canvas errText rp) cs pg) \<and> tasks_indexed (fold (index_canvas errText rp) cs pg) \<and>
    (pg_errors (fold (index_canvas errText rp) cs pg) = [] \<longrightarrow>
      (\<forall>c \<in> set cs. map_has (pg_taskIdsByCanvas (fold (index_canvas errText rp) cs pg)) (cn_id c)))"
  using assms
proof (induction cs arbitrary: pg)
  case Nil
  then show ?case by (simp add: canvas_frame_refl)
next
  case (Cons c cs)
  let ?pg1 = "index_canvas errText rp c pg" and ?pg2 = "fold (index_canvas errText rp) cs (index_canvas errText rp c pg)"
  note 1 = index_canvas_step [OF Cons.prems, of errText rp c]
  have f2: "canvas_frame ?pg1 ?pg2" and 2: "tasks_indexed ?pg2"
    "pg_errors ?pg2 = [] \<Longrightarrow> \<forall>c \<in> set cs. map_has (pg_taskIdsByCanvas ?pg2) (cn_id c)"
    using Cons.IH [OF 1(2)] by blast+
  have "map_has (pg_taskIdsByCanvas ?pg2) (cn_id c)" if "pg_errors ?pg2 = []"
    using that f2 1(3) by (simp add: canvas_frame_def)
  with 2 canvas_frame_trans [OF 1(1) f2] show ?case by simp
qed

text \<open>An edge between tasks is linked when both ends have an entry; without an error every edge is.\<close>

definition cross_linked :: "compiled_project_graph \<Rightarrow> cross_task_edge \<Rightarrow> bool" where
  "cross_linked pg e \<longleftrightarrow> map_has (pg_taskAdjacency pg) (projectTaskRefKey (xe_from e)) \<and>
     map_has (pg_taskAdjacency pg) (projectTaskRefKey (xe_to e))"

definition ref_known :: "compiled_project_graph \<Rightarrow> project_task_ref \<Rightarrow> bool" where
  "ref_known pg r \<longleftrightarrow> map_has (pg_canvasesById pg) (pt_canvasId r) \<and> \<not> missing_task r pg"

definition cross_frame :: "compiled_project_graph \<Rightarrow> compiled_project_graph \<Rightarrow> bool" where
  "cross_frame pg pg' \<longleftrightarrow>
     pg_canvasesById pg' = pg_canvasesById pg \<and> pg_canvasIdsInOrder pg' = pg_canvasIdsInOrder pg \<and>
     pg_source pg' = pg_source pg \<and>
     pg_canvasAdjacency pg' = pg_canvasAdjacency pg \<and>
     pg_canvasDependenciesByCanvas pg' = pg_canvasDependenciesByCanvas pg \<and>
     pg_taskIdsByCanvas pg' = pg_taskIdsByCanvas pg \<and>
     (\<forall>k. map_has (pg_taskAdjacency pg') k \<longleftrightarrow> map_has (pg_taskAdjacency pg) k)"

definition cross_targets :: "compiled_project_graph \<Rightarrow> cross_task_edge list \<Rightarrow> string \<Rightarrow> string set" where
  "cross_targets pg es k =
     {projectTaskRefKey (xe_to e) | e. e \<in> set es \<and> projectTaskRefKey (xe_from e) = k \<and> cross_linked pg e}"

lemma cross_frame_same:
  assumes "cross_frame pg pg'"
  shows "cross_linked pg' e = cross_linked pg e" "ref_known pg' r = ref_known pg r"
    "cross_targets pg' es k = cross_targets pg es k"
  using assms by (simp_all add: cross_frame_def cross_linked_def ref_known_def missing_task_def cross_targets_def)

lemma add_issue_if_fields [simp]:
  "pg_canvasesById (add_issue_if b i pg) = pg_canvasesById pg"
  "pg_canvasIdsInOrder (add_issue_if b i pg) = pg_canvasIdsInOrder pg"
  "pg_source (add_issue_if b i pg) = pg_source pg"
  "pg_canvasDependenciesByCanvas (add_issue_if b i pg) = pg_canvasDependenciesByCanvas pg"
  "pg_crossTaskDependenciesByTaskRef (add_issue_if b i pg) = pg_crossTaskDependenciesByTaskRef pg"
  "pg_taskIdsByCanvas (add_issue_if b i pg) = pg_taskIdsByCanvas pg"
  "pg_taskAdjacency (add_issue_if b i pg) = pg_taskAdjacency pg"
  "pg_canvasAdjacency (add_issue_if b i pg) = pg_canvasAdjacency pg"
  "pg_errors (add_issue_if b i pg) = [] \<longleftrightarrow> \<not> b \<and> pg_errors pg = []"
  by (simp_all add: add_issue_if_def add_issue_def)

lemma link_cross_edge_step:
  assumes "link_cross_edge e (seen, pg) = (seen', pg')"
  shows "cross_frame pg pg'"
    and "set (succs (pg_crossTaskDependenciesByTaskRef pg') k) =
      set (succs (pg_crossTaskDependenciesByTaskRef pg) k) \<union> cross_targets pg [e] k"
    and "pg_errors pg' = [] \<Longrightarrow> pg_errors pg = [] \<and> ref_known pg (xe_from e) \<and> ref_known pg (xe_to e)"
proof -
  have pg': "pg' = snd (link_cross_edge e (seen, pg))" using assms by simp
  show "cross_frame pg pg'" unfolding pg'
    by (auto simp: cross_frame_def link_cross_edge_def Let_def link_task_edge_def
        has_addUnique)
  show "set (succs (pg_crossTaskDependenciesByTaskRef pg') k) =
      set (succs (pg_crossTaskDependenciesByTaskRef pg) k) \<union> cross_targets pg [e] k" unfolding pg'
    by (auto simp: link_cross_edge_def Let_def link_task_edge_def succs_addUnique
        cross_targets_def cross_linked_def split: if_splits)
  show "pg_errors pg = [] \<and> ref_known pg (xe_from e) \<and> ref_known pg (xe_to e)" if "pg_errors pg' = []"
    using that unfolding pg'
    by (auto simp: link_cross_edge_def Let_def link_task_edge_def ref_known_def
        split: if_splits)
qed

lemma link_cross_edges:
  "cross_frame pg (snd (fold link_cross_edge es (seen, pg))) \<and>
   (\<forall>k. set (succs (pg_crossTaskDependenciesByTaskRef (snd (fold link_cross_edge es (seen, pg)))) k) =
      set (succs (pg_crossTaskDependenciesByTaskRef pg) k) \<union> cross_targets pg es k) \<and>
   (pg_errors (snd (fold link_cross_edge es (seen, pg))) = [] \<longrightarrow>
      pg_errors pg = [] \<and> (\<forall>e \<in> set es. ref_known pg (xe_from e) \<and> ref_known pg (xe_to e)))"
proof (induction es arbitrary: seen pg)
  case Nil
  show ?case by (simp add: cross_frame_def cross_targets_def)
next
  case (Cons e es)
  obtain seen1 pg1 where s1: "link_cross_edge e (seen, pg) = (seen1, pg1)" by fastforce
  note 1 = link_cross_edge_step [OF s1] and same = cross_frame_same [OF link_cross_edge_step(1) [OF s1]]
  let ?pg2 = "snd (fold link_cross_edge es (seen1, pg1))"
  have f2: "cross_frame pg1 ?pg2"
    and d2: "\<And>k. set (succs (pg_crossTaskDependenciesByTaskRef ?pg2) k) =
      set (succs (pg_crossTaskDependenciesByTaskRef pg1) k) \<union> cross_targets pg1 es k"
    and e2: "pg_errors ?pg2 = [] \<Longrightarrow>
      pg_errors pg1 = [] \<and> (\<forall>e \<in> set es. ref_known pg1 (xe_from e) \<and> ref_known pg1 (xe_to e))"
    using Cons.IH [of pg1 seen1] by blast+
  have f: "cross_frame pg ?pg2" using 1(1) f2 by (simp add: cross_frame_def)
  have split: "cross_targets pg (e # es) k = cross_targets pg [e] k \<union> cross_targets pg es k" for k
    by (auto simp: cross_targets_def)
  have eq: "fold link_cross_edge (e # es) (seen, pg) = fold link_cross_edge es (seen1, pg1)" using s1 by simp
  show ?case unfolding eq
    using f d2 e2 1(2,3) by (simp add: same split Un_assoc)
qed

lemma report_keeps:
  assumes "report_project_cycles pg = Inr pg'"
  shows "cross_frame pg pg'" "pg_crossTaskDependenciesByTaskRef pg' = pg_crossTaskDependenciesByTaskRef pg"
    "pg_errors pg' = [] \<Longrightarrow> pg_errors pg = []"
  using assms
  by (auto simp: report_project_cycles_def try_bind_def report_cycle_def add_issue_def cross_frame_def
      split: sum.splits option.splits)

lemma duplicates_fold:
  assumes "snd (fold (\<lambda>i (seen, dups).
       (insert i seen, if i \<in> seen \<and> i \<notin> set dups then dups @ [i] else dups)) ids (seen, dups)) = []"
  shows "dups = [] \<and> distinct ids \<and> set ids \<inter> seen = {}"
  using assms
proof (induction ids arbitrary: seen dups)
  case (Cons i ids)
  from Cons.prems Cons.IH show ?case by (fastforce split: if_splits)
qed simp

lemma duplicates_none: "duplicateCanvasIds ids = [] \<Longrightarrow> distinct ids"
  unfolding duplicateCanvasIds_def by (drule duplicates_fold) simp

lemma start_project_facts:
  "pg_canvasIdsInOrder (start_project m src ds) = map cn_id (pm_canvases m)"
  "pg_source (start_project m src ds) = src"
  "map_has (pg_canvasesById (start_project m src ds)) c \<longleftrightarrow> c \<in> cn_id ` set (pm_canvases m)"
  "pg_crossTaskDependenciesByTaskRef (start_project m src ds) = []"
  "pg_taskAdjacency (start_project m src ds) = []" "pg_taskIdsByCanvas (start_project m src ds) = []"
  "pg_canvasAdjacency (start_project m src ds) = pg_canvasDependenciesByCanvas (start_project m src ds)"
  "succs (pg_canvasDependenciesByCanvas (start_project m src ds)) k = []"
  "pg_errors (start_project m src ds) = [] \<Longrightarrow> distinct (map cn_id (pm_canvases m))"
  "c \<in> cn_id ` set (pm_canvases m) \<Longrightarrow> map_has (pg_canvasDependenciesByCanvas (start_project m src ds)) c"
proof -
  show "c \<in> cn_id ` set (pm_canvases m) \<Longrightarrow> map_has (pg_canvasDependenciesByCanvas (start_project m src ds)) c"
    by (simp add: start_project_def Let_def map_has_get jm.get_fold_put_fun)
  have has: "map_has (fold (\<lambda>c a. map_set a (cn_id c) c) cs a) k \<longleftrightarrow> k \<in> cn_id ` set cs \<or> map_has a k" for cs a
    and k :: string
    by (induction cs arbitrary: a) (auto simp: js_map_simps)
  show "map_has (pg_canvasesById (start_project m src ds)) c \<longleftrightarrow> c \<in> cn_id ` set (pm_canvases m)"
    by (simp add: start_project_def Let_def has) (simp add: js_map_simps)
  show "succs (pg_canvasDependenciesByCanvas (start_project m src ds)) k = []"
    by (simp add: start_project_def Let_def succs_def jm.get_fold_put_fun jm.get_emp)
  show "pg_errors (start_project m src ds) = [] \<Longrightarrow> distinct (map cn_id (pm_canvases m))"
    by (simp add: start_project_def Let_def duplicates_none)
qed (simp_all add: start_project_def Let_def)

lemma start_project_canvas:
  assumes "distinct (map cn_id (pm_canvases m))" and "c \<in> set (pm_canvases m)"
  shows "map_get (pg_canvasesById (start_project m src ds)) (cn_id c) = Some c"
proof -
  have keep: "k \<notin> cn_id ` set cs \<Longrightarrow> map_get (fold (\<lambda>c a. map_set a (cn_id c) c) cs a) k = map_get a k" for cs a k
    by (induction cs arbitrary: a) (auto simp: jm.get_put)
  have "distinct (map cn_id cs) \<Longrightarrow> c \<in> set cs \<Longrightarrow>
      map_get (fold (\<lambda>c a. map_set a (cn_id c) c) cs a) (cn_id c) = Some c" for cs a
    by (induction cs arbitrary: a) (auto simp: keep jm.get_put)
  with assms show ?thesis by (simp add: start_project_def Let_def)
qed

lemma compile_stages:
  assumes "compileProjectGraph errText rp m src ds = Inr pg"
  obtains pg1 pg2 pg3 where
    "canvas_edges_added (pm_edges m) (start_project m src ds) pg1"
    "canvas_frame pg1 pg2" "tasks_indexed pg2"
    "pg_errors pg2 = [] \<Longrightarrow> \<forall>c \<in> set (pm_canvases m). map_has (pg_taskIdsByCanvas pg2) (cn_id c)"
    "cross_frame pg2 pg3"
    "\<And>k. set (succs (pg_crossTaskDependenciesByTaskRef pg3) k) =
      set (succs (pg_crossTaskDependenciesByTaskRef pg2) k) \<union> cross_targets pg2 (pm_crossTaskEdges m) k"
    "pg_errors pg3 = [] \<Longrightarrow> pg_errors pg2 = [] \<and>
      (\<forall>e \<in> set (pm_crossTaskEdges m). ref_known pg2 (xe_from e) \<and> ref_known pg2 (xe_to e))"
    "report_project_cycles pg3 = Inr pg"
proof -
  let ?pg0 = "start_project m src ds"
  let ?pg1 = "snd (fold link_canvas_edge (pm_edges m) ({}, ?pg0))"
  let ?pg2 = "fold (index_canvas errText rp) (pm_canvases m) ?pg1"
  let ?pg3 = "snd (fold link_cross_edge (pm_crossTaskEdges m) ({}, ?pg2))"
  have e1: "canvas_edges_added (pm_edges m) ?pg0 ?pg1" by (rule link_canvas_edges)
  then have "pg_taskIdsByCanvas ?pg1 = []" by (simp add: canvas_edges_added_def start_project_facts)
  then have "tasks_indexed ?pg1" by (simp add: tasks_indexed_def jm.get_emp)
  note 2 = index_canvases [OF this, of errText rp "pm_canvases m"]
  have "report_project_cycles ?pg3 = Inr pg" using assms by (simp add: compileProjectGraph_def Let_def)
  with that [OF e1, of ?pg2 ?pg3] 2 link_cross_edges [of ?pg2 "pm_crossTaskEdges m" "{}"] show ?thesis
    by blast
qed

text \<open>The canvas indexes, with or without errors.\<close>

definition canvas_ids :: "project_manifest \<Rightarrow> string set" where
  "canvas_ids m = cn_id ` set (pm_canvases m)"

lemma compile_canvases:
  assumes "compileProjectGraph errText rp m src ds = Inr pg"
  shows "pg_canvasIdsInOrder pg = map cn_id (pm_canvases m)" and "pg_source pg = src"
    and "pg_canvasesById pg = pg_canvasesById (start_project m src ds)"
    and "pg_canvasAdjacency pg = pg_canvasDependenciesByCanvas pg"
    and "set (succs (pg_canvasDependenciesByCanvas pg) a) =
      {ce_to e | e. e \<in> set (pm_edges m) \<and> ce_from e = a \<and> ce_from e \<in> canvas_ids m \<and> ce_to e \<in> canvas_ids m}"
    and "c \<in> canvas_ids m \<Longrightarrow> map_has (pg_canvasDependenciesByCanvas pg) c"
proof -
  from compile_stages [OF assms] obtain pg1 pg2 pg3 where
    s: "canvas_edges_added (pm_edges m) (start_project m src ds) pg1" "canvas_frame pg1 pg2"
      "cross_frame pg2 pg3" "report_project_cycles pg3 = Inr pg" by metis
  note r = report_keeps(1) [OF s(4)]
  note d = canvas_edges_added_def canvas_frame_def cross_frame_def start_project_facts known_edge_def canvas_ids_def
  show "pg_canvasIdsInOrder pg = map cn_id (pm_canvases m)" "pg_source pg = src"
    "pg_canvasesById pg = pg_canvasesById (start_project m src ds)"
    "pg_canvasAdjacency pg = pg_canvasDependenciesByCanvas pg"
    "set (succs (pg_canvasDependenciesByCanvas pg) a) =
      {ce_to e | e. e \<in> set (pm_edges m) \<and> ce_from e = a \<and> ce_from e \<in> canvas_ids m \<and> ce_to e \<in> canvas_ids m}"
    "c \<in> canvas_ids m \<Longrightarrow> map_has (pg_canvasDependenciesByCanvas pg) c"
    using s(1-3) r by (simp_all add: d)
qed

text \<open>Without errors: every edge of the manifest is in the indexes.\<close>

lemma compile_valid:
  assumes "compileProjectGraph errText rp m src ds = Inr pg" and "pg_errors pg = []"
  shows "distinct (map cn_id (pm_canvases m))"
    and "\<forall>e \<in> set (pm_edges m). ce_from e \<in> canvas_ids m \<and> ce_to e \<in> canvas_ids m"
    and "\<forall>e \<in> set (pm_crossTaskEdges m). pt_canvasId (xe_from e) \<in> canvas_ids m \<and> pt_canvasId (xe_to e) \<in> canvas_ids m"
    and "set (succs (pg_crossTaskDependenciesByTaskRef pg) k) =
      {projectTaskRefKey (xe_to e) | e. e \<in> set (pm_crossTaskEdges m) \<and> projectTaskRefKey (xe_from e) = k}"
proof -
  let ?pg0 = "start_project m src ds"
  from compile_stages [OF assms(1)] obtain pg1 pg2 pg3 where
    s: "canvas_edges_added (pm_edges m) ?pg0 pg1" "canvas_frame pg1 pg2" "tasks_indexed pg2"
      "pg_errors pg2 = [] \<Longrightarrow> \<forall>c \<in> set (pm_canvases m). map_has (pg_taskIdsByCanvas pg2) (cn_id c)"
      "\<And>k. set (succs (pg_crossTaskDependenciesByTaskRef pg3) k) =
        set (succs (pg_crossTaskDependenciesByTaskRef pg2) k) \<union> cross_targets pg2 (pm_crossTaskEdges m) k"
      "pg_errors pg3 = [] \<Longrightarrow> pg_errors pg2 = [] \<and>
        (\<forall>e \<in> set (pm_crossTaskEdges m). ref_known pg2 (xe_from e) \<and> ref_known pg2 (xe_to e))"
      "report_project_cycles pg3 = Inr pg" by metis
  note r = report_keeps [OF s(7)]
  have e3: "pg_errors pg3 = []" using r(3) assms(2) by simp
  note e2 = s(6) [OF this]
  have e1: "pg_errors pg1 = []" using e2 s(2) by (simp add: canvas_frame_def)
  have e0: "pg_errors ?pg0 = [] \<and> (\<forall>e \<in> set (pm_edges m). known_edge ?pg0 e)"
    using e1 s(1) unfolding canvas_edges_added_def by blast
  then show "\<forall>e \<in> set (pm_edges m). ce_from e \<in> canvas_ids m \<and> ce_to e \<in> canvas_ids m"
    by (simp add: start_project_facts known_edge_def canvas_ids_def)
  from e0 show "distinct (map cn_id (pm_canvases m))" using start_project_facts(9) by blast
  have by_id: "map_has (pg_canvasesById pg2) c \<longleftrightarrow> c \<in> canvas_ids m" for c
    using s(1,2) by (simp add: canvas_edges_added_def canvas_frame_def start_project_facts canvas_ids_def)
  then show "\<forall>e \<in> set (pm_crossTaskEdges m). pt_canvasId (xe_from e) \<in> canvas_ids m \<and> pt_canvasId (xe_to e) \<in> canvas_ids m"
    using e2 by (simp add: ref_known_def)
  have known: "map_has (pg_taskAdjacency pg2) (projectTaskRefKey r)" if "ref_known pg2 r" for r
  proof -
    have "pt_canvasId r \<in> canvas_ids m" using that by (simp add: ref_known_def by_id)
    then have "map_has (pg_taskIdsByCanvas pg2) (pt_canvasId r)" using s(4) e2 by (auto simp: canvas_ids_def)
    then obtain ids where "map_get (pg_taskIdsByCanvas pg2) (pt_canvasId r) = Some ids"
      unfolding map_has_get by blast
    with that s(3) have "map_has (pg_taskAdjacency pg2) (taskKey (pt_canvasId r) (pt_taskId r))"
      by (simp add: ref_known_def missing_task_def tasks_indexed_def)
    then show ?thesis by (simp add: taskKey_def projectTaskRefKey_def)
  qed
  have "cross_targets pg2 (pm_crossTaskEdges m) k =
      {projectTaskRefKey (xe_to e) | e. e \<in> set (pm_crossTaskEdges m) \<and> projectTaskRefKey (xe_from e) = k}"
    using e2 known by (auto simp: cross_targets_def cross_linked_def)
  moreover have "succs (pg_crossTaskDependenciesByTaskRef pg2) k = []"
    using s(1,2) by (simp add: canvas_edges_added_def canvas_frame_def start_project_facts succs_def jm.get_emp)
  ultimately show "set (succs (pg_crossTaskDependenciesByTaskRef pg) k) =
      {projectTaskRefKey (xe_to e) | e. e \<in> set (pm_crossTaskEdges m) \<and> projectTaskRefKey (xe_from e) = k}"
    using s(5) [of k] r(2) by simp
qed

section \<open>Keys of task references\<close>

lemma canvas_char_not_colon: "canvas_char c \<Longrightarrow> c \<noteq> CHR '':''"
  by (auto simp: canvas_char_def alnum_char_def)

lemma canvasId_no_colon: "canvasId_valid s \<Longrightarrow> s \<noteq> [] \<and> CHR '':'' \<notin> set s"
  by (auto simp: canvasId_valid_def list_all_iff canvas_char_not_colon split: list.splits)
    (auto simp: alnum_char_def dest: canvas_char_not_colon)

lemma split_sep_append: "CHR '':'' \<notin> set l \<Longrightarrow> split_sep (l @ ''::'' @ r) = Some (l, r)"
proof (induction l)
  case (Cons a l)
  then show ?case by (cases l) auto
qed simp

lemma parse_key:
  assumes "CHR '':'' \<notin> set (pt_canvasId r)" and "pt_canvasId r \<noteq> []" and "pt_taskId r \<noteq> []"
  shows "parseProjectTaskRefKey (projectTaskRefKey r) = Inr r"
  using assms split_sep_append [of "pt_canvasId r" "pt_taskId r"]
  by (simp add: parseProjectTaskRefKey_def projectTaskRefKey_def)

lemma parse_key_valid: "taskRef_valid r \<Longrightarrow> parseProjectTaskRefKey (projectTaskRefKey r) = Inr r"
  by (rule parse_key) (auto simp: taskRef_valid_def dest: canvasId_no_colon)

lemma split_sep_sound: "split_sep k = Some (l, r) \<Longrightarrow> k = l @ ''::'' @ r"
  by (induction k arbitrary: l rule: split_sep.induct) (auto split: if_splits)

lemma key_of_parse: "parseProjectTaskRefKey k = Inr r \<Longrightarrow> projectTaskRefKey r = k"
  by (auto simp: parseProjectTaskRefKey_def projectTaskRefKey_def dest!: split_sep_sound split: option.splits if_splits)

lemma key_inject:
  assumes "projectTaskRefKey a = projectTaskRefKey b"
    and "CHR '':'' \<notin> set (pt_canvasId a)" and "CHR '':'' \<notin> set (pt_canvasId b)"
  shows "a = b"
  using assms split_sep_append [of "pt_canvasId a" "pt_taskId a"] split_sep_append [of "pt_canvasId b" "pt_taskId b"]
  by (simp add: projectTaskRefKey_def)

section \<open>Compilation always ends with a graph\<close>

definition keys_not_empty :: "compiled_project_graph \<Rightarrow> bool" where
  "keys_not_empty pg \<longleftrightarrow> (\<forall>k. [] \<notin> set (succs (pg_taskAdjacency pg) k))"

lemma key_not_empty [simp]: "projectTaskRefKey r \<noteq> []" "[] \<noteq> projectTaskRefKey r"
  by (simp_all add: projectTaskRefKey_def)

lemma succs_touch: "succs (touch m a) k = succs m k"
  by (simp add: touch_def succs_def jm.get_put)

lemma keys_not_empty_task:
  "keys_not_empty pg \<Longrightarrow> keys_not_empty (index_project_task c t pg)"
  "keys_not_empty pg \<Longrightarrow> to \<noteq> [] \<Longrightarrow> keys_not_empty (link_task_edge from to pg)"
  by (auto simp: keys_not_empty_def index_project_task_def Let_def succs_touch link_task_edge_def succs_addUnique
      split: if_splits)

lemma keys_not_empty_canvas:
  assumes "keys_not_empty pg"
  shows "keys_not_empty (index_canvas errText rp c pg)"
proof (cases "readCanvasPackage errText rp c")
  case (Inl e)
  with assms show ?thesis by (simp add: index_canvas_def keys_not_empty_def add_issue_def)
next
  case (Inr r)
  obtain mf ids where r: "r = (mf, ids)" by (cases r)
  let ?k = "\<lambda>t. projectTaskRefKey \<lparr>pt_canvasId = cn_id c, pt_taskId = t\<rparr>"
  let ?pg1 = "pg\<lparr>pg_taskIdsByCanvas := map_set (pg_taskIdsByCanvas pg) (cn_id c) ids\<rparr>"
  let ?pg2 = "fold (index_project_task (cn_id c)) ids ?pg1"
  have "keys_not_empty ?pg1" using assms by (simp add: keys_not_empty_def)
  then have "keys_not_empty ?pg2"
    by (rule fold_invariant [where Q = "\<lambda>_. True", rotated]) (simp_all add: keys_not_empty_task)
  then have "keys_not_empty (fold (\<lambda>e. link_task_edge (?k (me_from e)) (?k (me_to e))) (mf_edges mf) ?pg2)"
    by (rule fold_invariant [where Q = "\<lambda>_. True", rotated]) (simp_all add: keys_not_empty_task)
  with Inr r show ?thesis by (simp add: index_canvas_def Let_def)
qed

lemma keys_not_empty_cross:
  assumes "keys_not_empty (snd st)"
  shows "keys_not_empty (snd (link_cross_edge e st))"
proof -
  obtain seen pg where st: "st = (seen, pg)" by (cases st)
  have "set (succs (pg_taskAdjacency (snd (link_cross_edge e (seen, pg)))) k) \<subseteq>
      set (succs (pg_taskAdjacency pg) k) \<union> {projectTaskRefKey (xe_to e)}" for k
    by (auto simp: link_cross_edge_def Let_def link_task_edge_def succs_addUnique split: if_splits)
  moreover have "[] \<notin> set (succs (pg_taskAdjacency pg) k) \<union> {projectTaskRefKey (xe_to e)}" for k
    using assms by (simp add: st keys_not_empty_def)
  ultimately show ?thesis unfolding st keys_not_empty_def by blast
qed

lemma canvas_edges_not_empty:
  assumes "canvas_edges_added es (start_project m src ds) pg" and "[] \<notin> canvas_ids m"
  shows "[] \<notin> set (succs (pg_canvasDependenciesByCanvas pg) k)"
  using assms by (auto simp: canvas_edges_added_def start_project_facts known_edge_def canvas_ids_def)

lemma canvas_ids_not_empty: "projectManifest_valid m \<Longrightarrow> [] \<notin> canvas_ids m"
  by (auto simp: projectManifest_valid_def canvas_ids_def list_all_iff canvasId_valid_def)

lemma project_compile_total:
  assumes "projectManifest_valid m"
  shows "\<exists>pg. compileProjectGraph errText rp m src ds = Inr pg \<and>
    (pg_errors pg = [] \<longrightarrow> acyclic (edges_of (pg_canvasAdjacency pg)) \<and> acyclic (edges_of (pg_taskAdjacency pg)))"
proof -
  let ?pg0 = "start_project m src ds"
  let ?pg1 = "snd (fold link_canvas_edge (pm_edges m) ({}, ?pg0))"
  let ?pg2 = "fold (index_canvas errText rp) (pm_canvases m) ?pg1"
  let ?pg3 = "snd (fold link_cross_edge (pm_crossTaskEdges m) ({}, ?pg2))"
  have e1: "canvas_edges_added (pm_edges m) ?pg0 ?pg1" by (rule link_canvas_edges)
  then have t1: "tasks_indexed ?pg1"
    by (simp add: canvas_edges_added_def start_project_facts tasks_indexed_def jm.get_emp)
  have "keys_not_empty ?pg1" using e1
    by (simp add: canvas_edges_added_def start_project_facts keys_not_empty_def succs_def jm.get_emp)
  then have "keys_not_empty ?pg2"
    by (rule fold_invariant [where Q = "\<lambda>_. True", rotated]) (simp_all add: keys_not_empty_canvas)
  then have "keys_not_empty (snd ({} :: string set, ?pg2))" by simp
  then have k3: "keys_not_empty ?pg3"
    by (rule fold_invariant [where Q = "\<lambda>_. True" and P = "\<lambda>st. keys_not_empty (snd st)", rotated])
      (simp_all add: keys_not_empty_cross)
  have adj: "pg_canvasAdjacency ?pg3 = pg_canvasDependenciesByCanvas ?pg1"
    using e1 index_canvases [OF t1, of errText rp "pm_canvases m"] link_cross_edges [of ?pg2 "pm_crossTaskEdges m" "{}"]
    by (simp add: canvas_frame_def cross_frame_def canvas_edges_added_def start_project_facts)
  have c3: "\<forall>k. [] \<notin> set (succs (pg_canvasAdjacency ?pg3) k)"
    unfolding adj using canvas_edges_not_empty [OF e1 canvas_ids_not_empty [OF assms]] by blast
  from search_cycle_correct [of False "pg_canvasAdjacency ?pg3"] c3 obtain c1 where
    c1: "project_findCycle (pg_canvasAdjacency ?pg3) = Inr c1"
      "case c1 of Some c \<Rightarrow> is_cycle (pg_canvasAdjacency ?pg3) c | None \<Rightarrow> acyclic (edges_of (pg_canvasAdjacency ?pg3))"
    unfolding project_findCycle_def by blast
  from search_cycle_correct [of False "pg_taskAdjacency ?pg3"] k3 obtain c2 where
    c2: "project_findCycle (pg_taskAdjacency ?pg3) = Inr c2"
      "case c2 of Some c \<Rightarrow> is_cycle (pg_taskAdjacency ?pg3) c | None \<Rightarrow> acyclic (edges_of (pg_taskAdjacency ?pg3))"
    unfolding project_findCycle_def keys_not_empty_def by blast
  from findMixedCycle_total obtain c where
    c: "findMixedCycle (pg_projectCanvasAdjacency ?pg3) (pg_canvasEdgeKeys ?pg3) (pg_crossTaskEdgeKeys ?pg3) = Some c"
    by blast
  have "compileProjectGraph errText rp m src ds = report_project_cycles ?pg3"
    by (simp add: compileProjectGraph_def Let_def)
  with c1 c2 c show ?thesis
    by (auto simp: report_project_cycles_def report_cycle_def add_issue_def split: option.splits)
qed

section \<open>The execution order of a compiled project\<close>

lemma execution_order:
  assumes "compileProjectGraph errText rp m src ds = Inr pg"
  shows "\<exists>o'. projectCanvasExecutionOrder pg = Some o' \<and> distinct o' \<and> set o' = canvas_ids m \<and>
    (acyclic (edges_of (pg_canvasAdjacency pg)) \<longrightarrow> deps_first (pg_canvasDependenciesByCanvas pg) o')"
proof -
  let ?deps = "pg_canvasDependenciesByCanvas pg" and ?ids = "map cn_id (pm_canvases m)"
  note c = compile_canvases [OF assms]
  have edges: "edges_of (pg_canvasAdjacency pg) = all_edges ?deps"
    using c(4-6) by (auto simp: edges_of_def all_edges_def)
  have fin: "finite (canvas_ids m)" by (simp add: canvas_ids_def)
  have closed: "\<forall>x \<in> canvas_ids m. set (succs ?deps x) \<subseteq> canvas_ids m" using c(5) by auto
  have ids: "set ?ids \<subseteq> canvas_ids m" "card (canvas_ids m - {}) \<le> length ?ids"
    using card_length [of ?ids] by (simp_all add: canvas_ids_def)
  have "order_inv (canvas_ids m) {} ({}, [])" by (simp add: order_inv_def)
  from order_loop_total [OF fin closed ids(1) empty_subsetI ids(2) this] obtain st where
    st: "order_loop (length ?ids) ?deps {} ?ids ({}, []) = Some st" "order_inv (canvas_ids m) {} st"
      "set ?ids \<subseteq> fst st \<union> {}" "acyclic (all_edges ?deps) \<Longrightarrow> deps_first ?deps (snd st)"
    by auto
  have "set (snd st) = canvas_ids m" "distinct (snd st)"
    using st(2,3) by (auto simp: order_inv_def canvas_ids_def)
  with st(1,4) edges c(1) show ?thesis by (simp add: projectCanvasExecutionOrder_def)
qed

section \<open>The aggregation of the runtime states\<close>

text \<open>What the aggregation makes of the files of a canvas: the graph and the reconciled state. A canvas
  is done when all its tasks are implemented in that state.\<close>

definition loaded_canvas :: "canvas_disk \<Rightarrow> (compiled_graph \<times> runtime_state) option" where
  "loaded_canvas d =
     (case (dk_storageError d, dk_package d) of
        (None, Inr mf) \<Rightarrow>
          (case try_bind (compileTaskGraph mf) (\<lambda>g. try_bind (readState (dk_state d)) (\<lambda>raw.
                try_bind (ensureStateForManifest mf raw) (\<lambda>s. Inr (g, s)))) of
             Inl _ \<Rightarrow> None
           | Inr p \<Rightarrow> Some p)
      | _ \<Rightarrow> None)"

definition implemented :: "runtime_state \<Rightarrow> string \<Rightarrow> bool" where
  "implemented s t \<longleftrightarrow> map_option ts_status (map_get (rs_tasks s) t) = Some TImplemented"

definition canvas_done :: "canvas_disk \<Rightarrow> bool" where
  "canvas_done d \<longleftrightarrow>
     (case loaded_canvas d of None \<Rightarrow> False | Some (g, s) \<Rightarrow> \<forall>t \<in> set (taskNodesInManifestOrder g). implemented s t)"

definition task_done :: "canvas_disk \<Rightarrow> string \<Rightarrow> bool" where
  "task_done d t \<longleftrightarrow>
     (case loaded_canvas d of None \<Rightarrow> False | Some (g, s) \<Rightarrow> t \<in> set (taskNodesInManifestOrder g) \<and> implemented s t)"

definition found_snapshot :: "canvas_disk \<Rightarrow> canvas_snapshot" where
  "found_snapshot d =
     (if dk_storageError d \<noteq> None then emptyRuntimeSnapshot
      else case disk_snapshot d of Inl _ \<Rightarrow> emptyRuntimeSnapshot | Inr x \<Rightarrow> x)"

lemma snapshot_of_state:
  assumes "covers g s"
  shows "runtimeSnapshotFromGraphState g s = Inr
    \<lparr>cs_taskCount = length (taskNodesInManifestOrder g),
     cs_taskStatusById = fold (\<lambda>t m. map_set m t (ts_status (the (map_get (rs_tasks s) t)))) (taskNodesInManifestOrder g) [],
     cs_complete = list_all (implemented s) (taskNodesInManifestOrder g)\<rparr>"
proof -
  let ?ts = "taskNodesInManifestOrder g"
  have t: "\<exists>u. map_get (rs_tasks s) t = Some u" if "t \<in> set ?ts" for t
    using assms that by (auto simp: covers_def map_has_get)
  have 1: "map_res (\<lambda>t. try_bind (requireTaskState s t) (\<lambda>ts. Inr (t, ts_status ts))) ?ts =
      Inr (map (\<lambda>t. (t, ts_status (the (map_get (rs_tasks s) t)))) ?ts)"
  proof (rule map_res_Inr)
    fix t assume "t \<in> set ?ts"
    then obtain u where "map_get (rs_tasks s) t = Some u" using t by blast
    then show "try_bind (requireTaskState s t) (\<lambda>ts. Inr (t, ts_status ts)) =
        Inr (t, ts_status (the (map_get (rs_tasks s) t)))"
      by (simp add: requireTaskState_def)
  qed
  have 2: "every_res (\<lambda>t. try_bind (requireTaskState s t) (\<lambda>ts. Inr (ts_status ts = TImplemented))) ?ts =
      Inr (list_all (implemented s) ?ts)"
  proof (rule every_res_Inr)
    fix t assume "t \<in> set ?ts"
    then obtain u where "map_get (rs_tasks s) t = Some u" using t by blast
    then show "try_bind (requireTaskState s t) (\<lambda>ts. Inr (ts_status ts = TImplemented)) = Inr (implemented s t)"
      by (simp add: requireTaskState_def implemented_def)
  qed
  show ?thesis by (simp add: runtimeSnapshotFromGraphState_def 1 2 fold_map comp_def)
qed

lemma found_snapshot_exact:
  "cs_complete (found_snapshot d) \<longleftrightarrow> canvas_done d"
  "map_get (cs_taskStatusById (found_snapshot d)) t = Some TImplemented \<longleftrightarrow> task_done d t"
proof -
  have "(cs_complete (found_snapshot d) \<longleftrightarrow> canvas_done d) \<and>
    (map_get (cs_taskStatusById (found_snapshot d)) t = Some TImplemented \<longleftrightarrow> task_done d t)"
  proof (cases "loaded_canvas d")
    case None
    then have "found_snapshot d = emptyRuntimeSnapshot"
      by (auto simp: loaded_canvas_def found_snapshot_def disk_snapshot_def canvasRuntimeSnapshot_def try_bind_def
          split: option.splits sum.splits)
    with None show ?thesis
      by (simp add: emptyRuntimeSnapshot_def canvas_done_def task_done_def jm.get_emp)
  next
    case (Some p)
    obtain g s where p: "p = (g, s)" by (cases p)
    from Some p obtain mf raw where
      m: "dk_storageError d = None" "dk_package d = Inr mf" "compileTaskGraph mf = Inr g"
        "readState (dk_state d) = Inr raw" "ensureStateForManifest mf raw = Inr s"
      by (auto simp: loaded_canvas_def try_bind_def split: option.splits sum.splits)
    have "covers g s" by (rule reconciled_covers, rule ensure_reconciled [OF m(5,3)])
    then have snap: "found_snapshot d = \<lparr>cs_taskCount = length (taskNodesInManifestOrder g),
       cs_taskStatusById = fold (\<lambda>t m. map_set m t (ts_status (the (map_get (rs_tasks s) t)))) (taskNodesInManifestOrder g) [],
       cs_complete = list_all (implemented s) (taskNodesInManifestOrder g)\<rparr>"
      using m by (simp add: found_snapshot_def disk_snapshot_def canvasRuntimeSnapshot_def snapshot_of_state)
    have known: "t \<in> set (taskNodesInManifestOrder g) \<Longrightarrow> \<exists>u. map_get (rs_tasks s) t = Some u"
      using \<open>covers g s\<close> by (auto simp: covers_def map_has_get)
    show ?thesis unfolding snap canvas_done_def task_done_def Some p
      using known by (auto simp: list_all_iff jm.get_fold_put_fun jm.get_emp implemented_def split: if_splits)
  qed
  then show "cs_complete (found_snapshot d) \<longleftrightarrow> canvas_done d"
    "map_get (cs_taskStatusById (found_snapshot d)) t = Some TImplemented \<longleftrightarrow> task_done d t" by blast+
qed

lemma aggregate_fold:
  "map_get (snd (fold (aggregate_canvas disk pg) ids (cv, sn))) c =
     (if c \<in> set ids \<and> map_has (pg_canvasesById pg) c
      then Some (found_snapshot (disk (the (map_get (pg_canvasesById pg) c)))) else map_get sn c)"
  "map_get (fst (fold (aggregate_canvas disk pg) ids (cv, sn))) c =
     (case map_get (pg_canvasesById pg) c of
        None \<Rightarrow> map_get cv c
      | Some x \<Rightarrow> if c \<in> set ids \<and> dk_storageError (disk x) = None then Some x else map_get cv c)"
proof -
  have step: "aggregate_canvas disk pg i (cv, sn) =
      (case map_get (pg_canvasesById pg) i of None \<Rightarrow> (cv, sn)
       | Some x \<Rightarrow> (if dk_storageError (disk x) = None then map_set cv i x else cv,
                    map_set sn i (found_snapshot (disk x))))" for i cv sn
    by (simp add: aggregate_canvas_def found_snapshot_def split: option.split)
  show "map_get (snd (fold (aggregate_canvas disk pg) ids (cv, sn))) c =
     (if c \<in> set ids \<and> map_has (pg_canvasesById pg) c
      then Some (found_snapshot (disk (the (map_get (pg_canvasesById pg) c)))) else map_get sn c)"
  proof (induction ids arbitrary: cv sn)
    case (Cons i ids)
    then show ?case by (cases "map_get (pg_canvasesById pg) i") (auto simp: step map_has_get jm.get_put)
  qed simp
  show "map_get (fst (fold (aggregate_canvas disk pg) ids (cv, sn))) c =
     (case map_get (pg_canvasesById pg) c of
        None \<Rightarrow> map_get cv c
      | Some x \<Rightarrow> if c \<in> set ids \<and> dk_storageError (disk x) = None then Some x else map_get cv c)"
  proof (induction ids arbitrary: cv sn)
    case (Cons i ids)
    then show ?case
      by (cases "map_get (pg_canvasesById pg) i") (auto simp: step jm.get_put split: option.splits)
  qed (simp split: option.split)
qed

lemma aggregation_total:
  assumes "projectManifest_valid m"
  obtains pg o' ag where
    "compileProjectGraph errText (\<lambda>c. dk_package (disk c)) m src ds = Inr pg"
    "projectCanvasExecutionOrder pg = Some o'" "set o' = canvas_ids m"
    "loadProjectCanvasRuntimeAggregation errText disk m src ds = Inr ag" "ag_graph ag = pg"
    "ag_canvasesById ag = fst (fold (aggregate_canvas disk pg) o' ([], []))"
    "ag_runtimeSnapshotsByCanvas ag = snd (fold (aggregate_canvas disk pg) o' ([], []))"
proof -
  from project_compile_total [OF assms, of errText "\<lambda>c. dk_package (disk c)" src ds] obtain pg where
    pg: "compileProjectGraph errText (\<lambda>c. dk_package (disk c)) m src ds = Inr pg" by blast
  from execution_order [OF pg] obtain o' where o: "projectCanvasExecutionOrder pg = Some o'" "set o' = canvas_ids m"
    by blast
  let ?f = "fold (aggregate_canvas disk pg) o' ([], [])"
  let ?ag = "\<lparr>ag_graph = pg, ag_orderedCanvasIds = o', ag_canvasesById = fst ?f, ag_runtimeSnapshotsByCanvas = snd ?f\<rparr>"
  have "loadProjectCanvasRuntimeAggregation errText disk m src ds = Inr ?ag"
    using pg o by (simp add: loadProjectCanvasRuntimeAggregation_def case_prod_beta)
  from that [OF pg o this] show ?thesis by simp
qed

text \<open>The same in terms of the manifest and the disk.\<close>

definition done_canvas :: "project_disk \<Rightarrow> project_manifest \<Rightarrow> string \<Rightarrow> bool" where
  "done_canvas disk m c \<longleftrightarrow> list_ex (\<lambda>x. cn_id x = c \<and> canvas_done (disk x)) (pm_canvases m)"

definition done_task :: "project_disk \<Rightarrow> project_manifest \<Rightarrow> project_task_ref \<Rightarrow> bool" where
  "done_task disk m r \<longleftrightarrow>
     list_ex (\<lambda>x. cn_id x = pt_canvasId r \<and> task_done (disk x) (pt_taskId r)) (pm_canvases m)"

definition workspace_canvas ::
  "(canvas_node \<Rightarrow> string) \<Rightarrow> project_disk \<Rightarrow> project_manifest \<Rightarrow> string \<Rightarrow> string option" where
  "workspace_canvas packageDirOf disk m packageDir =
     List.find (\<lambda>i. list_ex (\<lambda>x. cn_id x = i \<and> dk_storageError (disk x) = None \<and> packageDirOf x = packageDir)
       (pm_canvases m)) (map cn_id (pm_canvases m))"

lemma aggregation_exact:
  assumes "compileProjectGraph errText (\<lambda>c. dk_package (disk c)) m src ds = Inr pg" and "pg_errors pg = []"
    and "set o' = canvas_ids m" and "ag_graph ag = pg"
    and "ag_canvasesById ag = fst (fold (aggregate_canvas disk pg) o' ([], []))"
    and "ag_runtimeSnapshotsByCanvas ag = snd (fold (aggregate_canvas disk pg) o' ([], []))"
  shows "c \<in> canvas_ids m \<Longrightarrow> canvas_complete ag c \<longleftrightarrow> done_canvas disk m c"
    and "pt_canvasId r \<in> canvas_ids m \<Longrightarrow> task_implemented ag r \<longleftrightarrow> done_task disk m r"
    and "currentProjectCanvasForWorkspace packageDirOf ag packageDir = workspace_canvas packageDirOf disk m packageDir"
proof -
  note dist = compile_valid(1) [OF assms(1,2)]
  have node: "map_get (pg_canvasesById pg) (cn_id x) = Some x" if "x \<in> set (pm_canvases m)" for x
    using start_project_canvas [OF dist that] compile_canvases(3) [OF assms(1)] by simp
  have only: "y = x" if "x \<in> set (pm_canvases m)" "y \<in> set (pm_canvases m)" "cn_id y = cn_id x" for x y
    using node that by (metis option.inject)
  have snap: "map_get (ag_runtimeSnapshotsByCanvas ag) (cn_id x) = Some (found_snapshot (disk x))"
    if "x \<in> set (pm_canvases m)" for x
    using that node assms(3) unfolding assms(6) aggregate_fold by (simp add: canvas_ids_def map_has_get)
  show "canvas_complete ag c \<longleftrightarrow> done_canvas disk m c" if c: "c \<in> canvas_ids m"
  proof -
    from c obtain x where x: "x \<in> set (pm_canvases m)" "c = cn_id x" by (auto simp: canvas_ids_def)
    then have "done_canvas disk m c \<longleftrightarrow> canvas_done (disk x)" using only by (auto simp: done_canvas_def list_ex_iff)
    with snap x show ?thesis by (simp add: canvas_complete_def found_snapshot_exact)
  qed
  show "task_implemented ag r \<longleftrightarrow> done_task disk m r" if c: "pt_canvasId r \<in> canvas_ids m"
  proof -
    from c obtain x where x: "x \<in> set (pm_canvases m)" "pt_canvasId r = cn_id x" by (auto simp: canvas_ids_def)
    then have "done_task disk m r \<longleftrightarrow> task_done (disk x) (pt_taskId r)" using only by (auto simp: done_task_def list_ex_iff)
    with snap x show ?thesis by (simp add: task_implemented_def found_snapshot_exact)
  qed
  have "(case map_get (ag_canvasesById ag) (cn_id x) of None \<Rightarrow> False | Some y \<Rightarrow> packageDirOf y = packageDir) \<longleftrightarrow>
      list_ex (\<lambda>y. cn_id y = cn_id x \<and> dk_storageError (disk y) = None \<and> packageDirOf y = packageDir) (pm_canvases m)"
    if x: "x \<in> set (pm_canvases m)" for x
  proof -
    have "map_get (ag_canvasesById ag) (cn_id x) = (if dk_storageError (disk x) = None then Some x else None)"
      using x node assms(3) unfolding assms(5) aggregate_fold by (auto simp: canvas_ids_def jm.get_emp)
    then show ?thesis using x only by (auto simp: list_ex_iff)
  qed
  then show "currentProjectCanvasForWorkspace packageDirOf ag packageDir = workspace_canvas packageDirOf disk m packageDir"
    unfolding currentProjectCanvasForWorkspace_def workspace_canvas_def assms(4) compile_canvases(1) [OF assms(1)]
    by (intro find_cong) auto
qed

section \<open>What the guard holds back\<close>

definition upstream_done :: "project_disk \<Rightarrow> project_manifest \<Rightarrow> string \<Rightarrow> string \<Rightarrow> bool" where
  "upstream_done disk m c t \<longleftrightarrow>
     list_all (\<lambda>e. ce_from e = c \<longrightarrow> done_canvas disk m (ce_to e)) (pm_edges m) \<and>
     list_all (\<lambda>e. xe_from e = \<lparr>pt_canvasId = c, pt_taskId = t\<rparr> \<longrightarrow> pt_canvasId (xe_to e) \<noteq> c \<longrightarrow>
       done_task disk m (xe_to e)) (pm_crossTaskEdges m)"

lemma blockers_total:
  assumes "projectManifest_valid m" and "compileProjectGraph errText rp m src ds = Inr pg" and "pg_errors pg = []"
    and "c \<in> canvas_ids m"
  shows "\<exists>deps. crossTaskDependencies pg \<lparr>pt_canvasId = c, pt_taskId = t\<rparr> = Inr deps \<and>
    set deps = xe_to ` {e \<in> set (pm_crossTaskEdges m). xe_from e = \<lparr>pt_canvasId = c, pt_taskId = t\<rparr>}"
proof -
  let ?r = "\<lparr>pt_canvasId = c, pt_taskId = t\<rparr>" and ?E = "set (pm_crossTaskEdges m)"
  let ?ks = "succs (pg_crossTaskDependenciesByTaskRef pg) (projectTaskRefKey ?r)"
  have colon: "CHR '':'' \<notin> set i" if "i \<in> canvas_ids m" for i
    using assms(1) that by (auto simp: projectManifest_valid_def list_all_iff canvas_ids_def dest: canvasId_no_colon)
  have valid: "taskRef_valid (xe_to e)" if "e \<in> ?E" for e
    using assms(1) that by (simp add: projectManifest_valid_def list_all_iff)
  have "projectTaskRefKey (xe_from e) = projectTaskRefKey ?r \<longleftrightarrow> xe_from e = ?r" if "e \<in> ?E" for e
  proof -
    have "CHR '':'' \<notin> set (pt_canvasId (xe_from e))" "CHR '':'' \<notin> set (pt_canvasId ?r)"
      using compile_valid(3) [OF assms(2,3)] that colon assms(4) by auto
    with key_inject [of "xe_from e" ?r] show ?thesis by auto
  qed
  then have ks: "set ?ks = projectTaskRefKey ` xe_to ` {e \<in> ?E. xe_from e = ?r}"
    unfolding compile_valid(4) [OF assms(2,3)] by auto
  have parse: "parseProjectTaskRefKey k = Inr (projr (parseProjectTaskRefKey k))" if "k \<in> set ?ks" for k
    using that valid parse_key_valid unfolding ks by auto
  then have "map_res parseProjectTaskRefKey ?ks = Inr (map (projr \<circ> parseProjectTaskRefKey) ?ks)"
    by (intro map_res_Inr) simp
  moreover have "set (map (projr \<circ> parseProjectTaskRefKey) ?ks) = xe_to ` {e \<in> ?E. xe_from e = ?r}"
    unfolding set_map ks image_image comp_def
    by (rule image_cong [OF refl]) (simp add: valid parse_key_valid)
  ultimately show ?thesis by (simp add: crossTaskDependencies_def)
qed

lemma dedup_empty: "js_dedup xs = [] \<longleftrightarrow> xs = []"
  using set_js_dedup [of xs] by (metis set_empty)

lemma canvas_guard_exact:
  assumes "projectManifest_valid m" and "compileProjectGraph errText (\<lambda>c. dk_package (disk c)) m src ds = Inr pg"
    and "pg_errors pg = []" and "set o' = canvas_ids m" and "ag_graph ag = pg"
    and "ag_canvasesById ag = fst (fold (aggregate_canvas disk pg) o' ([], []))"
    and "ag_runtimeSnapshotsByCanvas ag = snd (fold (aggregate_canvas disk pg) o' ([], []))"
    and "c \<in> canvas_ids m"
  shows "cg_blockersForTask (canvas_guard ag c) t = [] \<longleftrightarrow> upstream_done disk m c t"
proof -
  let ?r = "\<lparr>pt_canvasId = c, pt_taskId = t\<rparr>" and ?E = "set (pm_crossTaskEdges m)"
  note exact = aggregation_exact [OF assms(2-7)] and known = compile_valid(2,3) [OF assms(2,3)]
  from blockers_total [OF assms(1-3,8), of t] obtain deps where
    deps: "crossTaskDependencies pg ?r = Inr deps" "set deps = xe_to ` {e \<in> ?E. xe_from e = ?r}" by blast
  have "cg_blockersForTask (canvas_guard ag c) t = [] \<longleftrightarrow>
      (\<forall>d \<in> set (succs (pg_canvasDependenciesByCanvas pg) c). canvas_complete ag d) \<and>
      (\<forall>d \<in> set deps. pt_canvasId d \<noteq> c \<longrightarrow> task_implemented ag d)"
    using deps(1) by (auto simp: canvas_guard_def projectBlockersForTask_def assms(5) dedup_empty filter_empty_conv)
  also have "(\<forall>d \<in> set (succs (pg_canvasDependenciesByCanvas pg) c). canvas_complete ag d) \<longleftrightarrow>
      (\<forall>e \<in> set (pm_edges m). ce_from e = c \<longrightarrow> done_canvas disk m (ce_to e))"
    unfolding compile_canvases(5) [OF assms(2)] using known(1) exact(1) assms(8) by auto
  also have "(\<forall>d \<in> set deps. pt_canvasId d \<noteq> c \<longrightarrow> task_implemented ag d) \<longleftrightarrow>
      (\<forall>e \<in> ?E. xe_from e = ?r \<longrightarrow> pt_canvasId (xe_to e) \<noteq> c \<longrightarrow> done_task disk m (xe_to e))"
    unfolding deps(2) using known(2) exact(2) by auto
  finally show ?thesis by (simp add: upstream_done_def list_all_iff)
qed

section \<open>Properties\<close>

lemma guard_exact:
  assumes "projectManifest_valid m"
  shows "\<exists>guard. createProjectGraphClaimGuard errText packageDirOf disk m src ds packageDir = Inr guard \<and>
    (\<forall>t. cg_blockersForTask guard t = [] \<longleftrightarrow>
       src \<noteq> FromProjectGraph \<or>
       (\<exists>pg c. compileProjectGraph errText (\<lambda>x. dk_package (disk x)) m src ds = Inr pg \<and> pg_errors pg = [] \<and>
          workspace_canvas packageDirOf disk m packageDir = Some c \<and> upstream_done disk m c t))"
proof -
  obtain pg o' ag where
    a: "compileProjectGraph errText (\<lambda>c. dk_package (disk c)) m src ds = Inr pg"
      "projectCanvasExecutionOrder pg = Some o'" "set o' = canvas_ids m"
      "loadProjectCanvasRuntimeAggregation errText disk m src ds = Inr ag" "ag_graph ag = pg"
      "ag_canvasesById ag = fst (fold (aggregate_canvas disk pg) o' ([], []))"
      "ag_runtimeSnapshotsByCanvas ag = snd (fold (aggregate_canvas disk pg) o' ([], []))"
    by (rule aggregation_total [OF assms, of errText disk src ds])
  note src = compile_canvases(2) [OF a(1)]
  let ?g = "createProjectGraphClaimGuardFromAggregation packageDirOf packageDir ag"
  have guard: "createProjectGraphClaimGuard errText packageDirOf disk m src ds packageDir = Inr ?g"
    using a(4) by (simp add: createProjectGraphClaimGuard_def)
  have "cg_blockersForTask ?g t = [] \<longleftrightarrow> src \<noteq> FromProjectGraph \<or>
      pg_errors pg = [] \<and> (\<exists>c. workspace_canvas packageDirOf disk m packageDir = Some c \<and> upstream_done disk m c t)" for t
  proof (cases "src = FromProjectGraph \<and> pg_errors pg = []")
    case False
    then show ?thesis
      by (auto simp: createProjectGraphClaimGuardFromAggregation_def a(5) src noProjectGraphBlockers_def constant_guard_def)
  next
    case True
    note cur = aggregation_exact(3) [OF a(1) conjunct2 [OF True] a(3,5-7), of packageDirOf packageDir]
    have "c \<in> canvas_ids m" if "workspace_canvas packageDirOf disk m packageDir = Some c" for c
      using find_Some_iff_mem [OF that [unfolded workspace_canvas_def]] by (simp add: canvas_ids_def)
    with True cur canvas_guard_exact [OF assms a(1) conjunct2 [OF True] a(3,5-7), of _ t] show ?thesis
      by (auto simp: createProjectGraphClaimGuardFromAggregation_def a(5) src constant_guard_def split: option.split)
  qed
  with guard a(1) show ?thesis by auto
qed

text \<open>C20: for every valid project manifest and every content of the disk, building the claim guard
  succeeds, and the guard lets a task be claimed exactly when the project has no project graph of its
  own, or when the graph compiles without errors, the workspace is one of its canvases, every canvas that this
  canvas depends on is done on disk (its files load, and after reconciliation all its tasks are implemented) and
  every task of another canvas that the task depends on is implemented on disk.\<close>

theorem project_guard_exact:
  assumes "projectManifest_valid m"
  shows "\<exists>guard. createProjectGraphClaimGuard errText packageDirOf disk m src ds packageDir = Inr guard \<and>
    (\<forall>t. cg_blockersForTask guard t = [] \<longleftrightarrow>
       src \<noteq> FromProjectGraph \<or>
       (\<exists>pg c. compileProjectGraph errText (\<lambda>x. dk_package (disk x)) m src ds = Inr pg \<and> pg_errors pg = [] \<and>
          workspace_canvas packageDirOf disk m packageDir = Some c \<and> upstream_done disk m c t))"
  using assms by (rule guard_exact)

text \<open>A project of two canvases: \<open>app\<close> depends on \<open>lib\<close>, and its task \<open>T2\<close> on \<open>T1\<close> of \<open>lib\<close>; the
  state file of \<open>lib\<close> has every block completed.\<close>

definition pref :: "string \<Rightarrow> string \<Rightarrow> project_task_ref" where
  "pref c t = \<lparr>pt_canvasId = c, pt_taskId = t\<rparr>"

definition plain_canvas :: "string \<Rightarrow> canvas_node" where
  "plain_canvas i = \<lparr>cn_id = i, cn_title = i, cn_description = None, cn_packageDir = i,
     cn_stateFile = ''state.json'', cn_resultsDir = ''results''\<rparr>"

definition sample_project :: project_manifest where
  "sample_project =
     \<lparr>pm_canvases = [plain_canvas ''app'', plain_canvas ''lib''],
      pm_edges = [\<lparr>ce_from = ''app'', ce_to = ''lib''\<rparr>],
      pm_crossTaskEdges = [\<lparr>xe_from = pref ''app'' ''T2'', xe_to = pref ''lib'' ''T1''\<rparr>]\<rparr>"

definition finished_state :: runtime_state where
  "finished_state = sample_state\<lparr>rs_blocks := rs_blocks sample_state @
     [(''T2#B1'', (fresh_block BCompleted)\<lparr>bs_lastRunId := Some ''RUN-1''\<rparr>)]\<rparr>"

definition sample_disk :: project_disk where
  "sample_disk c = \<lparr>dk_storageError = None, dk_package = Inr sample_manifest,
     dk_state = (if cn_id c = ''lib'' then Some finished_state else None)\<rparr>"

definition untouched_disk :: project_disk where
  "untouched_disk c = \<lparr>dk_storageError = None, dk_package = Inr sample_manifest, dk_state = None\<rparr>"

lemma sample_project_compiles:
  "res_holds (\<lambda>pg. pg_errors pg = [])
     (compileProjectGraph (\<lambda>_. []) (\<lambda>x. Inr sample_manifest) sample_project FromProjectGraph [])"
  by code_simp

lemma project_guard_exact_witness:
  "\<exists>g1 g2. createProjectGraphClaimGuard (\<lambda>_. []) cn_packageDir sample_disk sample_project FromProjectGraph [] ''app'' = Inr g1 \<and>
     cg_blockersForTask g1 ''T2'' = [] \<and>
     createProjectGraphClaimGuard (\<lambda>_. []) cn_packageDir untouched_disk sample_project FromProjectGraph [] ''app'' = Inr g2 \<and>
     cg_blockersForTask g2 ''T2'' \<noteq> []"
proof -
  have v: "projectManifest_valid sample_project" by code_simp
  from sample_project_compiles obtain pg where
    pg: "compileProjectGraph (\<lambda>_. []) (\<lambda>x. Inr sample_manifest) sample_project FromProjectGraph [] = Inr pg"
      "pg_errors pg = []" by (rule res_holdsE)
  have 1: "workspace_canvas cn_packageDir sample_disk sample_project ''app'' = Some ''app''"
    "upstream_done sample_disk sample_project ''app'' ''T2''" by code_simp+
  have 2: "workspace_canvas cn_packageDir untouched_disk sample_project ''app'' = Some ''app''"
    "\<not> upstream_done untouched_disk sample_project ''app'' ''T2''" by code_simp+
  have "dk_package (sample_disk x) = Inr sample_manifest" "dk_package (untouched_disk x) = Inr sample_manifest" for x
    by (simp_all add: sample_disk_def untouched_disk_def)
  with project_guard_exact [OF v, of "\<lambda>_. []" cn_packageDir sample_disk FromProjectGraph "[]" "''app''"]
    project_guard_exact [OF v, of "\<lambda>_. []" cn_packageDir untouched_disk FromProjectGraph "[]" "''app''"] pg 1 2
  show ?thesis by (simp only:) blast
qed

definition precedes :: "string list \<Rightarrow> string \<Rightarrow> string \<Rightarrow> bool" where
  "precedes o' a b \<longleftrightarrow> list_ex (\<lambda>i. o' ! i = b \<and> a \<in> set (take i o')) [0..<length o']"

text \<open>C25: when a valid project manifest compiles without errors, the execution order exists, lists every
  canvas exactly once, and every canvas comes after all the canvases it depends on.\<close>

theorem execution_order_topological:
  assumes "projectManifest_valid m" and "compileProjectGraph errText rp m src ds = Inr pg" and "pg_errors pg = []"
  shows "\<exists>o'. projectCanvasExecutionOrder pg = Some o' \<and> distinct o' \<and> set o' = set (map cn_id (pm_canvases m)) \<and>
    list_all (\<lambda>e. precedes o' (ce_to e) (ce_from e)) (pm_edges m)"
proof -
  from project_compile_total [OF assms(1), of errText rp src ds] assms(2,3)
  have ac: "acyclic (edges_of (pg_canvasAdjacency pg))" by auto
  from execution_order [OF assms(2)] ac obtain o' where
    o: "projectCanvasExecutionOrder pg = Some o'" "distinct o'" "set o' = canvas_ids m"
      "deps_first (pg_canvasDependenciesByCanvas pg) o'" by blast
  have "precedes o' (ce_to e) (ce_from e)" if e: "e \<in> set (pm_edges m)" for e
  proof -
    have known: "ce_from e \<in> canvas_ids m" "ce_to e \<in> canvas_ids m" using compile_valid(2) [OF assms(2,3)] e by auto
    then obtain i where i: "i < length o'" "o' ! i = ce_from e" using o(3) by (metis in_set_conv_nth)
    have "ce_to e \<in> set (succs (pg_canvasDependenciesByCanvas pg) (ce_from e))"
      unfolding compile_canvases(5) [OF assms(2)] using e known by blast
    with o(4) i have "ce_to e \<in> set (take i o')" unfolding deps_first_def by (metis subsetD)
    with i show ?thesis by (auto simp: precedes_def list_ex_iff)
  qed
  with o(1-3) show ?thesis by (simp add: list_all_iff canvas_ids_def)
qed

lemma execution_order_topological_witness:
  "\<exists>pg o'. compileProjectGraph (\<lambda>_. []) (\<lambda>x. Inr sample_manifest) sample_project FromProjectGraph [] = Inr pg \<and>
     projectCanvasExecutionOrder pg = Some o' \<and> precedes o' ''lib'' ''app''"
proof -
  have v: "projectManifest_valid sample_project" by code_simp
  from sample_project_compiles obtain pg where
    pg: "compileProjectGraph (\<lambda>_. []) (\<lambda>x. Inr sample_manifest) sample_project FromProjectGraph [] = Inr pg"
      "pg_errors pg = []" by (rule res_holdsE)
  from execution_order_topological [OF v pg] pg(1) show ?thesis by (auto simp: sample_project_def)
qed

text \<open>The search for a cycle that mixes canvas edges and edges between tasks always ends within its
  fuel, and what it reports is a closed walk of the graph that uses an edge of both kinds.\<close>

theorem mixed_cycle_sound:
  "\<exists>r. findMixedCycle adj canvasEdgeKeys crossTaskEdgeKeys = Some r \<and>
     (case r of
        None \<Rightarrow> True
      | Some c \<Rightarrow> is_cycle adj c \<and> cycleUsesEdge c canvasEdgeKeys \<and> cycleUsesEdge c crossTaskEdgeKeys)"
  using findMixedCycle_total [of adj canvasEdgeKeys crossTaskEdgeKeys]
  by (auto simp: mixed_cycle_def split: option.splits)

text \<open>Three canvases with three tasks each and no edges inside a canvas.\<close>

definition free_manifest :: manifest where
  "free_manifest = sample_manifest\<lparr>mf_edges := [],
     mf_nodes := map (\<lambda>i. \<lparr>mn_id = i, mn_type = TaskNode, mn_title = i, mn_prompt = ''p'', mn_executor = None,
       mn_acceptance = [], mn_blocks = [ManifestImplementationBlock ''B1'' ''b'' ''p'' [] None None None]\<rparr>)
       [''T1'', ''T2'', ''T3'']\<rparr>"

definition mixed_project :: "cross_task_edge list \<Rightarrow> project_manifest" where
  "mixed_project xs =
     \<lparr>pm_canvases = [plain_canvas ''w'', plain_canvas ''v'', plain_canvas ''u''],
      pm_edges = [\<lparr>ce_from = ''u'', ce_to = ''v''\<rparr>], pm_crossTaskEdges = xs\<rparr>"

definition w_to_v :: cross_task_edge where
  "w_to_v = \<lparr>xe_from = pref ''w'' ''T1'', xe_to = pref ''v'' ''T1''\<rparr>"

definition w_to_u :: cross_task_edge where
  "w_to_u = \<lparr>xe_from = pref ''w'' ''T2'', xe_to = pref ''u'' ''T1''\<rparr>"

definition v_to_w :: cross_task_edge where
  "v_to_w = \<lparr>xe_from = pref ''v'' ''T2'', xe_to = pref ''w'' ''T3''\<rparr>"

text \<open>Whether a mixed cycle is reported depends on the order in which the manifest lists its edges. The
  same three canvases with the same edges, so with the mixed cycle \<open>w\<close> to \<open>u\<close> to \<open>v\<close> to \<open>w\<close>, compile without
  any error when the edge from \<open>w\<close> to \<open>v\<close> is listed first, and with an error when it is listed second: a
  canvas is marked as visited although a cycle through it was only rejected for not being mixed.\<close>

theorem mixed_cycle_depends_on_order:
  "res_holds (\<lambda>pg. pg_errors pg = [] \<and>
       mixed_cycle (pg_projectCanvasAdjacency pg) (pg_canvasEdgeKeys pg) (pg_crossTaskEdgeKeys pg) [''w'', ''u'', ''v'', ''w''])
     (compileProjectGraph (\<lambda>_. []) (\<lambda>x. Inr free_manifest) (mixed_project [w_to_v, w_to_u, v_to_w]) FromProjectGraph []) \<and>
   res_holds (\<lambda>pg. map vi_code (pg_errors pg) = [''project_mixed_depends_on_cycle''])
     (compileProjectGraph (\<lambda>_. []) (\<lambda>x. Inr free_manifest) (mixed_project [w_to_u, w_to_v, v_to_w]) FromProjectGraph [])"
  by code_simp

end
