(* ===== verification/Remote_Port.thy ===== *)
theory Remote_Port
  imports Submission_Recovery Project_Graph
begin

text \<open>
  The port through which a remote host drives a block: \<^verbatim>\<open>taskManager/remoteBlockRuntime.ts\<close>, with the checks of
  \<^verbatim>\<open>remoteBlockInspection.ts\<close> and \<^verbatim>\<open>remoteBlockDispatchReadiness.ts\<close> and the failure record of
  \<^verbatim>\<open>remoteAcpTranscript.ts\<close>.

  Each operation takes the lock, loads the state, checks that the caller owns the block and that the source the
  operation was prepared for is still the current one (a changed source is written down as drift), applies one of
  the transitions of \<open>Remote_Ownership\<close> and saves. The inputs are the ones that passed their schemas. The source
  evidence, the project guard, the clock, the names of the workspace, the event log of a failed run and the
  paged run index are given by the environment. Inspection of a dispatch candidate, which reads prompts and
  dependency reports, is not modelled.
\<close>

section \<open>Data\<close>

record port_environment =
  pe_sha :: digest
  pe_source :: "runtime_context \<Rightarrow> string \<Rightarrow> (string \<times> string) res"
  pe_guard :: "claim_guard res"
  pe_now :: string
  pe_projectId :: string
  pe_canvasId :: string
  pe_log :: "string \<Rightarrow> string \<Rightarrow> unit res"
  pe_indexRun :: "string \<Rightarrow> string \<Rightarrow> workspace_files \<Rightarrow> unit res"

record binding_view =
  bv_ref :: string
  bv_status :: block_status
  bv_ownership :: "remote_ownership option"
  bv_interruption :: "remote_interruption option"
  bv_terminalReceipt :: "remote_receipt option"
  bv_blockedReason :: "string option"
  bv_divergenceReason :: "string option"

datatype retry_decision = ResumeExactAttempt | ManualRetryRequired | NotRetryable

record port_result =
  pr_binding :: binding_view
  pr_retryDecision :: retry_decision

record claim_input =
  ci_ref :: string
  ci_source :: remote_source
  ci_restoration :: "(string \<times> string) option"

section \<open>Checks\<close>

definition bindingView :: "runtime_state \<Rightarrow> string \<Rightarrow> binding_view res" where
  "bindingView s ref =
     (case map_get (rs_blocks s) ref of
        None \<Rightarrow> Inl (RemoteBlockNotFound ref)
      | Some b \<Rightarrow> Inr \<lparr>bv_ref = ref, bv_status = bs_status b, bv_ownership = bs_remoteOwnership b,
          bv_interruption = bs_remoteInterruption b, bv_terminalReceipt = bs_remoteOperationReceipt b,
          bv_blockedReason = bs_blockedReason b, bv_divergenceReason = bs_divergenceReason b\<rparr>)"

definition recorded_operation :: "binding_view \<Rightarrow> string option" where
  "recorded_operation v =
     (case bv_ownership v of
        Some owner \<Rightarrow> Some (src_operationId (owner_source owner))
      | None \<Rightarrow> map_option (\<lambda>r. src_operationId (ai_source (rcp_identity r))) (bv_terminalReceipt v))"

definition assertOperationMatchesView :: "binding_view \<Rightarrow> string \<Rightarrow> unit res" where
  "assertOperationMatchesView v operationId =
     (case truthy (recorded_operation v) of
        None \<Rightarrow> Inl (RemoteOwnershipConflict RemoteOwnershipNotActive)
      | Some recorded \<Rightarrow>
          if recorded \<noteq> operationId then Inl (RemoteOwnershipConflict RemoteOwnershipOperationConflict) else Inr ())"

definition releaseCurrentBlockPointers :: "string \<Rightarrow> runtime_state \<Rightarrow> runtime_state" where
  "releaseCurrentBlockPointers ref s = s
     \<lparr>rs_currentRefs := without_ref (rs_currentRefs s) ref,
      rs_currentReviewBlockRef := (if rs_currentReviewBlockRef s = Some ref then None else rs_currentReviewBlockRef s)\<rparr>"

definition assertRemoteBlockExecutable :: "compiled_graph \<Rightarrow> string \<Rightarrow> block_type res" where
  "assertRemoteBlockExecutable g ref =
     (case validateClaimScope (BlockScope ref) g of
        Some _ \<Rightarrow> Inl (RemoteBlockNotFound ref)
      | None \<Rightarrow>
          (case map_get (blocksByRef g) ref of
             None \<Rightarrow> Inl (RemoteBlockNotExecutable ref)
           | Some block \<Rightarrow> Inr (mb_type block)))"

definition remoteBlockDispatchReadiness ::
  "digest \<Rightarrow> compiled_graph \<Rightarrow> manifest \<Rightarrow> runtime_state \<Rightarrow> string \<Rightarrow> bool res" where
  "remoteBlockDispatchReadiness sha g mf s ref =
     (case map_get (blocksByRef g) ref of
        None \<Rightarrow> Inr False
      | Some block \<Rightarrow>
          (case mb_type block of
             Implementation \<Rightarrow> canDispatchImplementationBlock g s ref (mf_maxConcurrent mf) []
           | Review \<Rightarrow> try_bind (reviewClaimForm sha g s ref) (\<lambda>form.
               Inr (case form of NotClaimable _ \<Rightarrow> False | _ \<Rightarrow> True))))"

definition assertRemoteBlockDispatchable :: "port_environment \<Rightarrow> manifest \<Rightarrow> runtime_context \<Rightarrow> string \<Rightarrow> unit res" where
  "assertRemoteBlockDispatchable env mf ctx ref =
     try_bind (assertRemoteBlockExecutable (rc_graph ctx) ref) (\<lambda>_.
     try_bind (pe_guard env) (\<lambda>guard.
     case truthy (projectBlockerReason guard (map_get (blockTaskByRef (rc_graph ctx)) ref)) of
       Some _ \<Rightarrow> Inl (RemoteBlockNotDispatchable ref)
     | None \<Rightarrow>
         try_bind (remoteBlockDispatchReadiness (pe_sha env) (rc_graph ctx) mf (rc_state ctx) ref) (\<lambda>ok.
         if ok then Inr () else Inl (RemoteBlockNotDispatchable ref))))"

text \<open>The check of the source that every operation of an owner makes. A source that has changed is
  recorded on the block, which leaves the current work, before the operation throws.\<close>

definition require_source ::
  "port_environment \<Rightarrow> manifest \<Rightarrow> runtime_context \<Rightarrow> string \<Rightarrow> block_type \<Rightarrow> block_state \<Rightarrow> remote_source \<Rightarrow> string \<Rightarrow>
   unit cmd" where
  "require_source env mf ctx ref bt b source reason =
     cmd_bind (cmd_lift (pe_source env ctx ref)) (\<lambda>current.
     if sameRemoteBlockAuthority current source then cmd_return ()
     else cmd_bind (cmd_lift (markRemoteBlockOwnershipSourceDrift bt b (fst current) (snd current) reason)) (\<lambda>b1.
          cmd_bind (saveState mf (releaseCurrentBlockPointers ref (with_block ref b1 (rc_state ctx)))) (\<lambda>_.
          cmd_lift (Inl (RemoteBlockSourceChanged ref)))))"

definition drift_text :: "string \<Rightarrow> string \<Rightarrow> string" where
  "drift_text step ref = ''Remote source changed before '' @ step @ '' of '' @ quoted ref @ ''.''"

text \<open>Every operation but the query runs under the lock on a block that exists.\<close>

definition with_remote_block ::
  "manifest \<Rightarrow> string \<Rightarrow> (runtime_context \<Rightarrow> block_type \<Rightarrow> block_state \<Rightarrow> 'a cmd) \<Rightarrow> 'a cmd" where
  "with_remote_block mf ref fn =
     withLockedRuntime mf (\<lambda>ctx.
     cmd_bind (cmd_lift (assertRemoteBlockExecutable (rc_graph ctx) ref)) (\<lambda>bt.
     cmd_bind (cmd_lift (requireBlockState (rc_state ctx) ref)) (\<lambda>b. fn ctx bt b)))"

definition save_view :: "manifest \<Rightarrow> runtime_state \<Rightarrow> string \<Rightarrow> binding_view cmd" where
  "save_view mf s ref = cmd_bind (saveState mf s) (\<lambda>_. cmd_lift (bindingView s ref))"

section \<open>Claiming and activating\<close>

definition claim_form :: "port_environment \<Rightarrow> runtime_context \<Rightarrow> string \<Rightarrow> block_type \<Rightarrow> block_state \<Rightarrow> review_claim_form option res" where
  "claim_form env ctx ref bt current =
     (if bt = Review \<and> bs_remoteOwnership current = None
      then try_bind (reviewClaimForm (pe_sha env) (rc_graph ctx) (rc_state ctx) ref) (\<lambda>f. Inr (Some f))
      else Inr None)"

definition claim_checks ::
  "port_environment \<Rightarrow> manifest \<Rightarrow> runtime_context \<Rightarrow> claim_input \<Rightarrow> block_type \<Rightarrow> block_state \<Rightarrow> unit cmd" where
  "claim_checks env mf ctx input bt current =
     (if bs_remoteOwnership current \<noteq> None
      then require_source env mf ctx (ci_ref input) bt current (ci_source input)
             (''Remote source changed after operation '' @ quoted (src_operationId (ci_source input)) @ '' was prepared.'')
      else cmd_bind (cmd_lift (assertRemoteBlockDispatchable env mf ctx (ci_ref input))) (\<lambda>_.
           cmd_bind (cmd_lift (pe_source env ctx (ci_ref input))) (\<lambda>source.
           if sameRemoteBlockAuthority source (ci_source input) then cmd_return ()
           else cmd_lift (Inl (RemoteBlockSourceChanged (ci_ref input))))))"

definition resolved_current_feedback :: "runtime_state \<Rightarrow> bool" where
  "resolved_current_feedback s \<longleftrightarrow>
     (case truthy (rs_currentFeedbackId s) of
        None \<Rightarrow> False
      | Some f \<Rightarrow> (case map_get (rs_feedback s) f of None \<Rightarrow> False | Some fb \<Rightarrow> fb_status fb = FResolved))"

definition claimed_state :: "review_claim_form option \<Rightarrow> block_type \<Rightarrow> string \<Rightarrow> runtime_state \<Rightarrow> runtime_state res" where
  "claimed_state form bt ref s =
     (if form = Some ResumeClaim then applyCurrentReviewResumeClaim s ref (resolved_current_feedback s)
      else Inr (s\<lparr>rs_currentRefs := with_ref (rs_currentRefs s) ref,
                  rs_currentReviewBlockRef := (if bt = Review then Some ref else rs_currentReviewBlockRef s)\<rparr>))"

definition restored :: "claim_input \<Rightarrow> block_state \<Rightarrow> block_state res" where
  "restored input existing =
     (case ci_restoration input of
        Some (operationId, executionAttemptId) \<Rightarrow>
          if bs_remoteOwnership existing = None then restoreStoppedRemoteBlock existing operationId executionAttemptId
          else Inr existing
      | None \<Rightarrow> Inr existing)"

definition port_claim :: "port_environment \<Rightarrow> manifest \<Rightarrow> claim_input \<Rightarrow> binding_view cmd" where
  "port_claim env mf input =
     (let ref = ci_ref input in
      with_remote_block mf ref (\<lambda>ctx0 bt existing.
      cmd_bind (cmd_lift (restored input existing)) (\<lambda>current.
      let ctx = ctx0\<lparr>rc_state := with_block ref current (rc_state ctx0)\<rparr> in
      cmd_bind (cmd_lift (claim_form env ctx ref bt current)) (\<lambda>form.
      cmd_bind (cmd_lift (prepareRemoteBlockOwnership bt current (ci_source input))) (\<lambda>prepared.
      cmd_bind (claim_checks env mf ctx input bt current) (\<lambda>_.
      cmd_bind (cmd_lift (claimed_state form bt ref (with_block ref prepared (rc_state ctx)))) (\<lambda>s.
      save_view mf s ref)))))))"

definition port_activate :: "port_environment \<Rightarrow> manifest \<Rightarrow> string \<Rightarrow> active_identity \<Rightarrow> binding_view cmd" where
  "port_activate env mf ref identity =
     with_remote_block mf ref (\<lambda>ctx bt b.
     cmd_bind (cmd_lift (activateRemoteBlockOwnership bt b identity)) (\<lambda>_.
     cmd_bind (require_source env mf ctx ref bt b (ai_source identity) (drift_text ''activation'' ref)) (\<lambda>_.
     cmd_bind (cmd_lift (activateRemoteBlockOwnership bt b identity)) (\<lambda>b1.
     save_view mf (with_block ref b1 (rc_state ctx)) ref))))"

section \<open>Asking\<close>

definition port_query :: "manifest \<Rightarrow> string \<Rightarrow> string \<Rightarrow> binding_view cmd" where
  "port_query mf ref operationId =
     cmd_bind (loadRuntimeReadonly mf) (\<lambda>ctx.
     cmd_bind (cmd_lift (assertRemoteBlockExecutable (rc_graph ctx) ref)) (\<lambda>_.
     cmd_bind (cmd_lift (bindingView (rc_state ctx) ref)) (\<lambda>v.
     cmd_bind (cmd_lift (assertOperationMatchesView v operationId)) (\<lambda>_. cmd_return v))))"

definition port_reconcile :: "port_environment \<Rightarrow> manifest \<Rightarrow> string \<Rightarrow> string \<Rightarrow> binding_view cmd" where
  "port_reconcile env mf ref operationId =
     with_remote_block mf ref (\<lambda>ctx bt b.
     cmd_bind (cmd_lift (bindingView (rc_state ctx) ref)) (\<lambda>v.
     cmd_bind (cmd_lift (assertOperationMatchesView v operationId)) (\<lambda>_.
     case bv_ownership v of
       None \<Rightarrow> cmd_return v
     | Some owner \<Rightarrow>
         cmd_bind (cmd_lift (pe_source env ctx ref)) (\<lambda>current.
         if sameRemoteBlockAuthority current (owner_source owner) then cmd_return v
         else cmd_bind (cmd_lift (markRemoteBlockOwnershipSourceDrift bt b (fst current) (snd current)
                (''Remote source changed while operation '' @ quoted operationId @ '' was active.''))) (\<lambda>b1.
              save_view mf (releaseCurrentBlockPointers ref (with_block ref b1 (rc_state ctx))) ref)))))"

section \<open>Failing, interrupting, resuming\<close>

text \<open>A failed or lost attempt is stored as a run of its own. Its metadata names no submission attempt;
  the keys beyond the schema are kept as JSON text.\<close>

definition failed_metadata ::
  "port_environment \<Rightarrow> string \<Rightarrow> string \<Rightarrow> string \<Rightarrow> string \<Rightarrow> normalized_failure \<Rightarrow> active_identity \<Rightarrow> string option \<Rightarrow>
   run_metadata" where
  "failed_metadata env ref taskId blockId runId failure identity agent =
     (let agentId = (case agent of None \<Rightarrow> ''codex'' | Some a \<Rightarrow> a);
          session = json_string (''remote-failed:'' @ ai_executionAttemptId identity)
      in no_metadata
         \<lparr>rm_ref := Some ref, rm_taskId := Some taskId, rm_blockId := Some blockId, rm_runId := Some runId,
          rm_submittedAt := Some (pe_now env), rm_startedAt := Some (Some (pe_now env)),
          rm_finishedAt := Some (Some (pe_now env)),
          rm_other :=
            [(''claimRef'', json_string ref), (''projectId'', json_string (pe_projectId env)),
             (''canvasId'', json_string (pe_canvasId env)), (''executor'', json_string agentId),
             (''adapter'', json_string ''agent''), (''agentId'', json_string agentId),
             (''runnerKind'', json_string ''acp''), (''executorRunId'', json_string runId),
             (''runSessionId'', ''null''), (''desktopRunId'', ''null''), (''sessionId'', session),
             (''agentSessionId'', session), (''status'', json_string ''failed''), (''exitCode'', ''1''),
             (''failureCode'', json_string (nf_code failure)), (''failureMessage'', json_string (nf_message failure)),
             (''operationId'', json_string (src_operationId (ai_source identity))),
             (''dispatchId'', json_string (ai_dispatchId identity)),
             (''executionAttemptId'', json_string (ai_executionAttemptId identity))]\<rparr>)"

definition index_failed_run :: "string \<Rightarrow> string \<Rightarrow> task_index \<Rightarrow> task_index" where
  "index_failed_run ref runId index = index\<lparr>ti_latestRunByBlock := map_set (ti_latestRunByBlock index) ref runId\<rparr>"

definition materializeRemoteAcpFailure ::
  "port_environment \<Rightarrow> string \<Rightarrow> string \<Rightarrow> string \<Rightarrow> string \<Rightarrow> normalized_failure \<Rightarrow> active_identity \<Rightarrow> string option \<Rightarrow>
   unit cmd" where
  "materializeRemoteAcpFailure env ref taskId blockId runId failure identity agent =
     cmd_bind (cmd_lift (pe_log env ref runId)) (\<lambda>_.
     write_metadata ref runId (failed_metadata env ref taskId blockId runId failure identity agent))"

definition record_failed_run ::
  "port_environment \<Rightarrow> string \<Rightarrow> normalized_failure \<Rightarrow> active_identity \<Rightarrow> string option \<Rightarrow> string cmd" where
  "record_failed_run env ref failure identity agent =
     cmd_bind (cmd_lift (parseBlockRef ref)) (\<lambda>(taskId, blockId).
     cmd_bind (cmd_read (\<lambda>ws. allocatePrefixedId (dir_of (wf_runs ws) ref) ''RUN'' empty_run)) (\<lambda>x.
     cmd_bind (cmd_lift x) (\<lambda>(runId, runs).
     cmd_bind (cmd_write (\<lambda>ws. ws\<lparr>wf_runs := map_set (wf_runs ws) ref runs\<rparr>)) (\<lambda>_.
     cmd_bind (materializeRemoteAcpFailure env ref taskId blockId runId failure identity agent) (\<lambda>_.
     cmd_bind (cmd_bind (cmd_read (pe_indexRun env ref runId)) cmd_lift) (\<lambda>_.
     cmd_bind (updateTaskIndex taskId (index_failed_run ref runId)) (\<lambda>_.
     cmd_return runId)))))))"

fun interruption_name :: "interruption_reason \<Rightarrow> string" where
  "interruption_name HostRestart = ''host_restart''"
| "interruption_name TransportLost = ''transport_lost''"
| "interruption_name AcpSessionLost = ''acp_session_lost''"
| "interruption_name LeaseLost = ''lease_lost''"

definition interruption_text :: "remote_interruption \<Rightarrow> string" where
  "interruption_text i = ''Remote execution interrupted: '' @ interruption_name (ri_reason i) @ ''.''"

definition port_markInterrupted ::
  "port_environment \<Rightarrow> manifest \<Rightarrow> string \<Rightarrow> active_identity \<Rightarrow> remote_interruption \<Rightarrow> string option \<Rightarrow> port_result cmd" where
  "port_markInterrupted env mf ref identity interruption agent =
     with_remote_block mf ref (\<lambda>ctx bt b.
     cmd_bind (cmd_lift (assertActiveRemoteBlockOwnership bt b identity)) (\<lambda>_.
     cmd_bind (require_source env mf ctx ref bt b (ai_source identity) (drift_text ''interruption'' ref)) (\<lambda>_.
     cmd_bind (if ri_resumable interruption then cmd_return None
               else cmd_bind (record_failed_run env ref
                      \<lparr>nf_code = ''transport_failed'', nf_message = interruption_text interruption, nf_retryable = False\<rparr>
                      identity agent) (\<lambda>r. cmd_return (Some r))) (\<lambda>runId.
     cmd_bind (cmd_lift (interruptRemoteBlockOwnership bt b identity interruption (interruption_text interruption) runId)) (\<lambda>b1.
     cmd_bind (save_view mf (releaseCurrentBlockPointers ref (with_block ref b1 (rc_state ctx))) ref) (\<lambda>v.
     cmd_return \<lparr>pr_binding = v,
       pr_retryDecision = (if ri_resumable interruption then ResumeExactAttempt else ManualRetryRequired)\<rparr>))))))"

definition port_resumeAttempt :: "port_environment \<Rightarrow> manifest \<Rightarrow> string \<Rightarrow> active_identity \<Rightarrow> binding_view cmd" where
  "port_resumeAttempt env mf ref identity =
     with_remote_block mf ref (\<lambda>ctx bt b.
     if bs_status b = BInProgress \<and> bs_remoteOwnership b = Some (Active identity)
     then cmd_lift (bindingView (rc_state ctx) ref)
     else cmd_bind (cmd_lift (assertActiveRemoteBlockOwnership bt b identity)) (\<lambda>_.
          cmd_bind (require_source env mf ctx ref bt b (ai_source identity) (drift_text ''resume'' ref)) (\<lambda>_.
          cmd_bind (cmd_lift (resumeRemoteBlockOwnership bt b identity)) (\<lambda>b1.
          save_view mf (with_block ref b1 (rc_state ctx)) ref))))"

definition port_retryAttempt ::
  "port_environment \<Rightarrow> manifest \<Rightarrow> string \<Rightarrow> active_identity \<Rightarrow> string \<Rightarrow> string \<Rightarrow> binding_view cmd" where
  "port_retryAttempt env mf ref identity newDispatchId newExecutionAttemptId =
     (if ai_executionAttemptId identity = newExecutionAttemptId
      then cmd_lift (Inl (SchemaInvalid ''remote retry''))
      else with_remote_block mf ref (\<lambda>ctx bt b.
      if bs_status b = BInProgress \<and> bs_remoteOwnership b =
           Some (Active (identity\<lparr>ai_dispatchId := newDispatchId, ai_executionAttemptId := newExecutionAttemptId\<rparr>))
      then cmd_lift (bindingView (rc_state ctx) ref)
      else cmd_bind (cmd_lift (assertActiveRemoteBlockOwnership bt b identity)) (\<lambda>_.
           cmd_bind (require_source env mf ctx ref bt b (ai_source identity) (drift_text ''retry'' ref)) (\<lambda>_.
           cmd_bind (cmd_lift (retryRemoteBlockOwnership bt b identity newDispatchId newExecutionAttemptId)) (\<lambda>b1.
           save_view mf (with_block ref b1 (rc_state ctx)) ref)))))"

definition failure_decision :: "normalized_failure \<Rightarrow> retry_decision" where
  "failure_decision f = (if nf_retryable f then ManualRetryRequired else NotRetryable)"

definition failure_text :: "normalized_failure \<Rightarrow> string" where
  "failure_text f = ''['' @ nf_code f @ ''] '' @ nf_message f"

definition port_fail ::
  "port_environment \<Rightarrow> manifest \<Rightarrow> string \<Rightarrow> active_identity \<Rightarrow> normalized_failure \<Rightarrow> string option \<Rightarrow> port_result cmd" where
  "port_fail env mf ref identity failure agent =
     with_remote_block mf ref (\<lambda>ctx bt b.
     case bs_remoteOperationReceipt b of
       Some receipt \<Rightarrow>
         if \<not> (case receipt of FailedReceipt _ f _ \<Rightarrow> f = failure | _ \<Rightarrow> False) \<or>
            \<not> matchesRemoteOperationReceipt (Some receipt) identity
         then cmd_lift (Inl (RemoteOwnershipConflict RemoteOwnershipTerminalConflict))
         else cmd_bind (cmd_lift (bindingView (rc_state ctx) ref)) (\<lambda>v.
              cmd_return \<lparr>pr_binding = v, pr_retryDecision = failure_decision failure\<rparr>)
     | None \<Rightarrow>
         cmd_bind (cmd_lift (assertActiveRemoteBlockOwnership bt b identity)) (\<lambda>_.
         cmd_bind (require_source env mf ctx ref bt b (ai_source identity) (drift_text ''failure'' ref)) (\<lambda>_.
         cmd_bind (record_failed_run env ref failure identity agent) (\<lambda>runId.
         cmd_bind (cmd_lift (failRemoteBlockOwnership bt b identity failure (failure_text failure) (Some runId))) (\<lambda>b1.
         cmd_bind (save_view mf (releaseCurrentBlockPointers ref (with_block ref b1 (rc_state ctx))) ref) (\<lambda>v.
         cmd_return \<lparr>pr_binding = v, pr_retryDecision = failure_decision failure\<rparr>))))))"

definition port_complete ::
  "submission_environment \<Rightarrow> review_environment \<Rightarrow> (string \<Rightarrow> string \<Rightarrow> string \<Rightarrow> review_result res) \<Rightarrow> manifest \<Rightarrow>
   remote_completion \<Rightarrow> submit_result cmd" where
  "port_complete env renv parseReview mf input =
     (if rk_reportBytes input = [] then cmd_lift (Inl (SchemaInvalid ''report bytes''))
      else submitRemoteBlockResult env renv parseReview mf input)"

section \<open>What the port saves is accepted\<close>

lemma release_pointers_fields [simp]:
  "rs_blocks (releaseCurrentBlockPointers ref s) = rs_blocks s"
  "rs_currentRefs (releaseCurrentBlockPointers ref s) = without_ref (rs_currentRefs s) ref"
  "rs_feedback (releaseCurrentBlockPointers ref s) = rs_feedback s"
  by (simp_all add: releaseCurrentBlockPointers_def)

lemma release_pointers_valid [simp]: "runtimeState_valid (releaseCurrentBlockPointers ref s) = runtimeState_valid s"
  by (rule runtimeState_valid_cong) simp

lemma keeps_remote_block:
  assumes "\<And>ctx bt b. context_ok mf ctx \<Longrightarrow> map_get (rs_blocks (rc_state ctx)) ref = Some b \<Longrightarrow>
    assertRemoteBlockExecutable (rc_graph ctx) ref = Inr bt \<Longrightarrow> cmd_keeps files_ok (fn ctx bt b)"
  shows "cmd_keeps files_ok (with_remote_block mf ref fn)"
  unfolding with_remote_block_def
  by (intro keeps_locked keeps_lift_bind assms) (simp_all add: requireBlockState_Inr)

lemma keeps_save_view: "runtimeState_valid s \<Longrightarrow> cmd_keeps files_ok (save_view mf s ref)"
  unfolding save_view_def by (intro keeps_bind keeps_saveState keeps_lift)

lemma keeps_require_source:
  assumes "runtimeState_valid (rc_state ctx)" and "blockState_valid b"
  shows "cmd_keeps files_ok (require_source env mf ctx ref bt b src reason)"
  unfolding require_source_def
  by (intro keeps_lift_bind keeps_if keeps_return keeps_bind keeps_saveState keeps_lift)
    (simp add: with_block_valid [OF assms(1) drift_valid [OF assms(2)]])

lemma keeps_record_failed_run: "cmd_keeps files_ok (record_failed_run env ref failure i agent)"
proof -
  have "cmd_keeps files_ok (write_metadata ref r m)" for r m
    unfolding write_metadata_def by (rule keeps_write) (simp add: set_run_def)
  then show ?thesis
    unfolding record_failed_run_def materializeRemoteAcpFailure_def
    by (intro keeps_lift_bind) (auto intro!: keeps_bind keeps_lift keeps_read keeps_write keeps_updateTaskIndex keeps_return
        split: prod.split)
qed

lemma claimed_state_valid:
  assumes "runtimeState_valid s" and "claimed_state form bt ref s = Inr s'"
  shows "runtimeState_valid s'"
  using assms review_resume_valid [OF assms(1)]
  by (auto simp: claimed_state_def runtimeState_valid_def split: if_splits)

lemma claim_checks_keeps:
  assumes "runtimeState_valid (rc_state ctx)" and "blockState_valid b"
  shows "cmd_keeps files_ok (claim_checks env mf ctx input bt b)"
  unfolding claim_checks_def
  by (intro keeps_if keeps_require_source [OF assms] keeps_lift_bind keeps_return keeps_lift)

lemma restored_valid: "blockState_valid b \<Longrightarrow> restored input b = Inr b' \<Longrightarrow> blockState_valid b'"
  by (auto simp: restored_def intro: restoreStopped_valid split: option.splits if_splits)

lemma port_claim_keeps: "cmd_keeps files_ok (port_claim env mf input)"
  unfolding port_claim_def Let_def
proof (rule keeps_remote_block, intro keeps_lift_bind keeps_bind claim_checks_keeps keeps_save_view)
  fix ctx bt b current prepared form s
  assume c: "context_ok mf ctx" "map_get (rs_blocks (rc_state ctx)) (ci_ref input) = Some b" "restored input b = Inr current"
    and p: "prepareRemoteBlockOwnership bt current (ci_source input) = Inr prepared"
  show b: "blockState_valid current" by (rule restored_valid [OF context_block_valid [OF c(1,2)] c(3)])
  show v: "runtimeState_valid (rc_state (ctx\<lparr>rc_state := with_block (ci_ref input) current (rc_state ctx)\<rparr>))"
    using context_with_block_valid [OF c(1) b] by simp
  assume "claimed_state form bt (ci_ref input) (with_block (ci_ref input) prepared
      (rc_state (ctx\<lparr>rc_state := with_block (ci_ref input) current (rc_state ctx)\<rparr>))) = Inr s"
  then show "runtimeState_valid s" by (rule claimed_state_valid [OF with_block_valid [OF v prepare_valid [OF b p]]])
qed

lemmas port_op_rules = keeps_remote_block keeps_lift_bind keeps_bind keeps_save_view keeps_if keeps_lift keeps_return
  keeps_require_source keeps_record_failed_run

lemma port_activate_keeps: "cmd_keeps files_ok (port_activate env mf ref i)"
  unfolding port_activate_def
  by (intro port_op_rules) (auto intro: context_with_block_valid activate_valid context_block_valid context_okD)

lemma port_query_keeps: "cmd_keeps files_ok (port_query mf ref op')"
  unfolding port_query_def by (intro keeps_after_load port_op_rules)

lemma port_reconcile_keeps: "cmd_keeps files_ok (port_reconcile env mf ref op')"
  unfolding port_reconcile_def
  by (intro port_op_rules keeps_case) (auto intro: context_with_block_valid drift_valid context_block_valid)

lemma port_markInterrupted_keeps: "cmd_keeps files_ok (port_markInterrupted env mf ref i intr agent)"
  unfolding port_markInterrupted_def
  by (intro port_op_rules) (auto intro: context_with_block_valid interrupt_valid context_block_valid context_okD)

lemma port_resume_keeps: "cmd_keeps files_ok (port_resumeAttempt env mf ref i)"
  unfolding port_resumeAttempt_def
  by (intro port_op_rules) (auto intro: context_with_block_valid resume_valid context_block_valid context_okD)

lemma port_retry_keeps: "cmd_keeps files_ok (port_retryAttempt env mf ref i d e)"
  unfolding port_retryAttempt_def
  by (intro port_op_rules) (auto intro: context_with_block_valid retry_valid context_block_valid context_okD)

lemma port_fail_keeps: "cmd_keeps files_ok (port_fail env mf ref i failure agent)"
  unfolding port_fail_def
  by (intro port_op_rules keeps_case) (auto intro: context_with_block_valid fail_valid context_block_valid context_okD)

section \<open>What a remote claim starts\<close>

lemma with_remote_block_InrE:
  assumes "with_remote_block mf ref fn ws = (Inr x, ws')"
  obtains ctx w0 bt b where "loadRuntime mf ws = (Inr ctx, w0)" "assertRemoteBlockExecutable (rc_graph ctx) ref = Inr bt"
    "map_get (rs_blocks (rc_state ctx)) ref = Some b" "fn ctx bt b w0 = (Inr x, ws')"
  using assms by (auto simp: with_remote_block_def withLockedRuntime_def cmd_bind_Inr requireBlockState_Inr)

lemma executable_type:
  assumes "context_ok mf ctx" and "assertRemoteBlockExecutable (rc_graph ctx) ref = Inr bt"
  shows "bt = mb_type (block_of (rc_graph ctx) ref)" and "ref \<in> set (blockRefsInManifestOrder (rc_graph ctx))"
proof -
  note c = context_okD [OF assms(1)]
  from assms(2) obtain block where b: "map_get (blocksByRef (rc_graph ctx)) ref = Some block" "bt = mb_type block"
    by (auto simp: assertRemoteBlockExecutable_def split: option.splits if_splits)
  show r: "ref \<in> set (blockRefsInManifestOrder (rc_graph ctx))"
    using graph_wf_doms(2) [OF graph_ok_wf [OF c(2)], of ref] b(1) by (auto simp: map_has_get)
  show "bt = mb_type (block_of (rc_graph ctx) ref)" using block_of_get(1) [OF c(2) r] b by simp
qed

text \<open>Saving a state in which a started block was replaced, seen from the next command.\<close>

lemma saved_started:
  assumes ctx: "context_ok mf ctx" and r: "ref \<in> set (blockRefsInManifestOrder (rc_graph ctx))"
    and blocks: "rs_blocks s1 = map_set (rs_blocks (rc_state ctx)) ref b1" and b1: "blockState_valid b1"
      "bs_status b1 \<noteq> BPlanned" "bs_status b1 \<noteq> BReady"
      "\<forall>rc. bs_remoteOperationReceipt b1 = Some rc \<longrightarrow>
         remoteOperationReceiptMatchesBlockType rc (mb_type (block_of (rc_graph ctx) ref))"
    and refs: "set (rs_currentRefs s1) \<subseteq> set (blockRefsInManifestOrder (rc_graph ctx))"
    and fb: "rs_feedback s1 = rs_feedback (rc_state ctx)"
    and run: "save_view mf s1 ref ws = (Inr v, ws')"
  obtains s' where "loaded_state mf ws' = Inr s'" "map_get (rs_blocks s') ref = Some b1"
    "\<forall>q. q \<noteq> ref \<longrightarrow> same_record (rc_state ctx) s' q" "rs_currentRefs s' = rs_currentRefs s1" "ws' = ws\<lparr>wf_state := Some s'\<rparr>"
proof -
  note c = context_okD [OF ctx]
  from run obtain s' where e: "ensureStateForManifest mf s1 = Inr s'" "ws' = ws\<lparr>wf_state := Some s'\<rparr>"
    by (auto simp: save_view_def cmd_bind_Inr saveState_Inr)
  have f: "\<forall>p \<in> set (rs_feedback s1). fb_sourceReviewBlockRef (snd p) \<in> set (blockRefsInManifestOrder (rc_graph ctx))"
    using c(4) fb by (simp add: reconciled_def)
  note sv = save_record [OF ctx r blocks b1(2-4) refs f e(1)]
  have v: "runtimeState_valid s1"
    using with_block_valid [OF c(3) b1(1), of ref] runtimeState_valid_cong [of s1 "with_block ref b1 (rc_state ctx)"] blocks by simp
  have "loaded_state mf ws' = Inr s'" unfolding e(2) by (rule loaded_state_saved [OF e(1) v])
  from that [OF this sv(1-3) e(2)] show ?thesis .
qed

text \<open>The claim of a block that nobody owns: what it checked, and what it leaves.\<close>

definition remotely_claimable :: "digest \<Rightarrow> compiled_graph \<Rightarrow> manifest \<Rightarrow> runtime_state \<Rightarrow> claim_guard \<Rightarrow> string \<Rightarrow> bool" where
  "remotely_claimable sha g mf s guard ref \<longleftrightarrow> unblocked guard g ref \<and>
     (case mb_type (block_of g ref) of
        Implementation \<Rightarrow> dispatchable g s (mf_maxConcurrent mf) [] ref
      | Review \<Rightarrow> reviewClaimForm sha g s ref = Inr InitialClaim \<or> reviewClaimForm sha g s ref = Inr ResumeClaim)"

lemma dispatchable_Inr:
  assumes ctx: "context_ok mf ctx" and nm: "named mf" and guard: "pe_guard env = Inr guard"
    and ok: "assertRemoteBlockDispatchable env mf ctx ref = Inr ()"
  shows "remotely_claimable (pe_sha env) (rc_graph ctx) mf (rc_state ctx) guard ref"
proof -
  let ?g = "rc_graph ctx"
  note c = context_okD [OF ctx]
  from ok obtain bt where x: "assertRemoteBlockExecutable ?g ref = Inr bt"
    and g: "truthy (projectBlockerReason guard (map_get (blockTaskByRef ?g) ref)) = None"
    and rdy: "remoteBlockDispatchReadiness (pe_sha env) ?g mf (rc_state ctx) ref = Inr True"
    using guard by (auto simp: assertRemoteBlockDispatchable_def try_bind_eq_Inr split: option.splits if_splits)
  note r = executable_type(2) [OF ctx x] and l = context_loaded(1) [OF nm ctx]
  note of = block_of_get [OF c(2) r]
  have u: "unblocked guard ?g ref" using g of(2) by (simp add: unblocked_def)
  show ?thesis
  proof (cases "mb_type (block_of ?g ref)")
    case Implementation
    then show ?thesis
      using u rdy of(1) canDispatch_eq [OF loadedD(1,3) [OF l] r, of "[]"]
      by (simp add: remotely_claimable_def remoteBlockDispatchReadiness_def)
  next
    case Review
    with rdy of(1) obtain f where f: "reviewClaimForm (pe_sha env) ?g (rc_state ctx) ref = Inr f"
      "case f of NotClaimable _ \<Rightarrow> False | _ \<Rightarrow> True"
      by (auto simp: remoteBlockDispatchReadiness_def try_bind_eq_Inr)
    with u Review show ?thesis by (cases f) (simp_all add: remotely_claimable_def)
  qed
qed

lemma claimed_state_fields:
  assumes "claimed_state form bt ref s = Inr s'" and "map_get (rs_blocks s) ref = Some b"
  shows "\<exists>p. rs_blocks s' = map_set (rs_blocks s) ref (b\<lparr>bs_pendingFeedbackId := p\<rparr>)"
    and "rs_currentRefs s' = with_ref (rs_currentRefs s) ref" and "rs_feedback s' = rs_feedback s"
proof -
  have "b\<lparr>bs_pendingFeedbackId := bs_pendingFeedbackId b\<rparr> = b" by simp
  then have "rs_blocks s = map_set (rs_blocks s) ref (b\<lparr>bs_pendingFeedbackId := bs_pendingFeedbackId b\<rparr>)"
    using assms(2) by (simp only: map_set_same)
  then have same: "\<exists>p. rs_blocks s = map_set (rs_blocks s) ref (b\<lparr>bs_pendingFeedbackId := p\<rparr>)" ..
  show "\<exists>p. rs_blocks s' = map_set (rs_blocks s) ref (b\<lparr>bs_pendingFeedbackId := p\<rparr>)"
  proof (cases "form = Some ResumeClaim")
    case True
    with assms show ?thesis by (auto simp: claimed_state_def applyCurrentReviewResumeClaim_def Let_def with_block_def)
  next
    case False
    with assms same show ?thesis by (auto simp: claimed_state_def)
  qed
  show "rs_currentRefs s' = with_ref (rs_currentRefs s) ref" "rs_feedback s' = rs_feedback s"
    using assms by (auto simp: claimed_state_def applyCurrentReviewResumeClaim_def Let_def with_block_def split: if_splits)
qed


section \<open>Witness, and a local submission after remote failures\<close>

definition port_env :: port_environment where
  "port_env = \<lparr>pe_sha = (\<lambda>_. []),
     pe_source = (\<lambda>_ _. Inr (src_sourceRevision (ai_source sample_identity), src_graphFingerprint (ai_source sample_identity))),
     pe_guard = Inr noProjectGraphBlockers, pe_now = ''2025-01-01'', pe_projectId = ''project'', pe_canvasId = ''default'',
     pe_log = (\<lambda>_ _. Inr ()), pe_indexRun = (\<lambda>_ _ _. Inr ())\<rparr>"

definition sample_claim :: claim_input where
  "sample_claim = \<lparr>ci_ref = ''T1#B1'', ci_source = ai_source sample_identity, ci_restoration = None\<rparr>"


text \<open>A remote attempt at a block that fails, after which the block is unblocked; and a local attempt: claim and
  submit.\<close>

definition sample_failure :: normalized_failure where
  "sample_failure = \<lparr>nf_code = ''executor_failed'', nf_message = ''failed'', nf_retryable = True\<rparr>"

definition failed_remotely :: "mutation_result cmd" where
  "failed_remotely =
     cmd_bind (port_claim port_env sample_manifest sample_claim) (\<lambda>_.
     cmd_bind (port_activate port_env sample_manifest ''T1#B1'' sample_identity) (\<lambda>_.
     cmd_bind (port_fail port_env sample_manifest ''T1#B1'' sample_identity
       sample_failure None) (\<lambda>_.
     unblockBlock sample_manifest ''T1#B1'' ''again'' False)))"

definition done_locally :: "submit_result cmd" where
  "done_locally =
     cmd_bind (claimNext (\<lambda>_. []) sample_uuid (Inr noProjectGraphBlockers) sample_manifest (claim_in None None)) (\<lambda>_.
     submitBlockResultFromBytes local_env sample_manifest local_submission ''done'')"

text \<open>The files that such failed attempts leave, given the names of their runs.\<close>

definition after_failures :: "string list \<Rightarrow> workspace_files" where
  "after_failures runs = empty_files
     \<lparr>wf_state := Some (createEmptyState
        \<lparr>rs_tasks := [(''T2'', \<lparr>ts_status = TPlanned, ts_openFeedbackCount = 0\<rparr>),
                      (''T1'', \<lparr>ts_status = TReady, ts_openFeedbackCount = 0\<rparr>)],
         rs_blocks := [(''T2#B1'', fresh_block BPlanned), (''T1#B1'', (fresh_block BReady)\<lparr>bs_lastRunId := Some (last runs)\<rparr>),
                       (''T1#R1'', fresh_block BPlanned)]\<rparr>),
      wf_taskIndex := [(''T1'', empty_index\<lparr>ti_latestRunByBlock := [(''T1#B1'', last runs)]\<rparr>)],
      wf_runs := [(''T1#B1'', map (\<lambda>r. (r, \<lparr>rd_metadata =
        Some (failed_metadata port_env ''T1#B1'' ''T1'' ''B1'' r sample_failure sample_identity None), rd_files = []\<rparr>)) runs)]\<rparr>"

lemma first_failure:
  "cmd_holds (\<lambda>_ ws. ws = after_failures [''RUN-001'']) (failed_remotely empty_files)" by code_simp

lemma second_failure:
  "cmd_holds (\<lambda>_ ws. ws = after_failures [''RUN-001'', ''RUN-002'']) (failed_remotely (after_failures [''RUN-001'']))" by code_simp

lemma local_after_first: "cmd_holds (\<lambda>r _. sb_status r = BCompleted) (done_locally (after_failures [''RUN-001'']))" by code_simp

lemma local_after_second: "fst (done_locally (after_failures [''RUN-001'', ''RUN-002''])) = Inl (AmbiguousRun ''RUN-001'')" by code_simp


end
