(* ===== verification/Remote_Failure.thy ===== *)
theory Remote_Failure
  imports Remote_Port
begin

text \<open>
  A remote attempt that fails. The host that owns a block can always give it back: \<open>port_fail\<close> goes through
  whenever the source is still the one the operation was prepared for and the files can be written. The failure is
  recorded as a run, and reporting it again (the host may not have seen the answer) changes nothing.
\<close>

section \<open>The steps of a failure succeed\<close>

definition files_writable :: "port_environment \<Rightarrow> string \<Rightarrow> bool" where
  "files_writable env ref \<longleftrightarrow> (\<forall>r. pe_log env ref r = Inr () \<and> (\<forall>w. pe_indexRun env ref r w = Inr ()))"

definition source_unchanged :: "port_environment \<Rightarrow> string \<Rightarrow> remote_source \<Rightarrow> bool" where
  "source_unchanged env ref source \<longleftrightarrow>
     (\<forall>ctx. \<exists>cur. pe_source env ctx ref = Inr cur \<and> sameRemoteBlockAuthority cur source)"

lemma executable_known:
  assumes "graph_ok g" and "ref \<in> set (blockRefsInManifestOrder g)"
  shows "assertRemoteBlockExecutable g ref = Inr (mb_type (block_of g ref))"
  using block_of_get(1) [OF assms] by (simp add: assertRemoteBlockExecutable_def map_has_get)

lemma parse_known:
  assumes "graph_ok g" and "ref \<in> set (blockRefsInManifestOrder g)"
  shows "parseBlockRef ref = Inr (task_of g ref, mb_id (block_of g ref))"
  using graph_ok_ref [OF assms] by (auto simp: task_of_def block_of_def)

lemma load_succeeds:
  assumes "loaded_state mf ws = Inr s" and "compileTaskGraph mf = Inr g"
  obtains ctx w0 x where "loadRuntime mf ws = (Inr ctx, w0)" "context_ok mf ctx" "rc_graph ctx = g" "rc_state ctx = s"
    "w0 = ws\<lparr>wf_state := x\<rparr>"
proof -
  from assms(1) obtain raw where raw: "readState (wf_state ws) = Inr raw" "ensureStateForManifest mf raw = Inr s"
    by (auto simp: loaded_state_def try_bind_eq_Inr)
  let ?ctx = "\<lparr>rc_graph = g, rc_rawState = raw, rc_state = s\<rparr>"
  have c: "context_ok mf ?ctx" using raw assms(2) by (simp add: context_ok_def readState_valid)
  with raw(1) have "loadRuntimeReadonly mf ws = (Inr ?ctx, ws)" by (simp add: loadRuntimeReadonly_Inr)
  then have l: "loadRuntime mf ws = (Inr ?ctx, if raw \<noteq> s then ws\<lparr>wf_state := Some s\<rparr> else ws)"
    by (simp add: loadRuntime_eq)
  have "(if raw \<noteq> s then ws\<lparr>wf_state := Some s\<rparr> else ws) = ws\<lparr>wf_state := if raw \<noteq> s then Some s else wf_state ws\<rparr>" by simp
  from that [OF l c _ _ this] show ?thesis by simp
qed

text \<open>Loading what was saved writes nothing.\<close>

lemma load_saved:
  assumes "wf_state ws = Some s" and "loaded_state mf ws = Inr s" and "compileTaskGraph mf = Inr g"
  shows "\<exists>ctx. loadRuntime mf ws = (Inr ctx, ws) \<and> rc_graph ctx = g \<and> rc_state ctx = s"
proof -
  from assms(1,2) have raw: "readState (wf_state ws) = Inr s" "ensureStateForManifest mf s = Inr s"
    by (auto simp: loaded_state_def try_bind_eq_Inr readState_def split: if_splits)
  let ?ctx = "\<lparr>rc_graph = g, rc_rawState = s, rc_state = s\<rparr>"
  have "context_ok mf ?ctx" using raw assms(3) by (simp add: context_ok_def readState_valid)
  with raw(1) have "loadRuntimeReadonly mf ws = (Inr ?ctx, ws)" by (simp add: loadRuntimeReadonly_Inr)
  then show ?thesis by (simp add: loadRuntime_eq)
qed

lemma save_succeeds:
  assumes ctx: "context_ok mf ctx" and b: "blockState_valid b1" and r: "ref \<in> set (blockRefsInManifestOrder (rc_graph ctx))"
    and blocks: "rs_blocks s1 = map_set (rs_blocks (rc_state ctx)) ref b1"
  shows "\<exists>s'. ensureStateForManifest mf s1 = Inr s'"
proof (rule ensure_total)
  note c = context_okD [OF ctx]
  show "compileTaskGraph mf = Inr (rc_graph ctx)" by (rule c(1))
  show "runtimeState_valid s1"
    using with_block_valid [OF c(3) b, of ref] runtimeState_valid_cong [of s1 "with_block ref b1 (rc_state ctx)"] blocks by simp
  have "map_has (blocksByRef (rc_graph ctx)) q" if "(q, x) \<in> set (rs_blocks s1)" for q x
  proof -
    have "map_has (rs_blocks s1) q" using that by (force simp: map_has_def)
    then have "q \<in> set (blockRefsInManifestOrder (rc_graph ctx))"
      using r reconciled_has [OF c(4)] by (auto simp: blocks map_has_get jm.get_put split: if_splits)
    with block_of_get(1) [OF c(2)] show ?thesis by (simp add: map_has_get)
  qed
  then show "\<forall>(q, x) \<in> set (rs_blocks s1). bs_remoteOwnership x \<noteq> None \<longrightarrow> map_has (blocksByRef (rc_graph ctx)) q" by blast
qed

lemma record_failed_run_ok:
  assumes "parseBlockRef ref = Inr (t, k)" and "files_writable env ref"
    and "length (filter (matches_id ''RUN'') (map_keys (dir_of (wf_runs ws) ref))) < 1000"
  shows "\<exists>runId ws'. record_failed_run env ref failure i agent ws = (Inr runId, ws') \<and> run_of ws ref runId = None \<and>
    run_of ws' ref runId = Some \<lparr>rd_metadata = Some (failed_metadata env ref t k runId failure i agent), rd_files = []\<rparr> \<and>
    wf_state ws' = wf_state ws \<and> runId \<noteq> []"
proof -
  from allocate_ok [OF assms(3)] obtain runId runs where
    a: "allocatePrefixedId (dir_of (wf_runs ws) ref) ''RUN'' empty_run = Inr (runId, runs)" by blast
  note al = allocate_spec [OF a]
  have "run_of ws ref runId = None" using al(1) by (simp add: run_of_def map_has_get)
  moreover have "runId \<noteq> []" using matches_RUN_valid [OF al(3)] by (auto simp: submissionRunId_valid_def)
  ultimately show ?thesis
    using assms(1,2) a al(2)
    by (simp add: record_failed_run_def materializeRemoteAcpFailure_def write_metadata_def updateTaskIndex_def cmd_bind_def
        cmd_lift_def cmd_read_def cmd_write_def cmd_return_def files_writable_def set_run_def run_of_def dir_of_def jm.get_put
        empty_run_def)
qed

section \<open>Giving a block back\<close>

definition failed_block :: "block_type \<Rightarrow> block_state \<Rightarrow> active_identity \<Rightarrow> normalized_failure \<Rightarrow> string \<Rightarrow> block_state" where
  "failed_block bt b i failure runId = (withoutRemoteBlockOwnership b BBlocked)
     \<lparr>bs_blockedReason := Some (failure_text failure), bs_remoteOperationReceipt := Some (FailedReceipt i failure (Some bt)),
      bs_lastRunId := Some runId\<rparr>"

lemma failed_block_fields [simp]:
  "bs_status (failed_block bt b i failure runId) = BBlocked" "bs_remoteOwnership (failed_block bt b i failure runId) = None"
  "bs_remoteOperationReceipt (failed_block bt b i failure runId) = Some (FailedReceipt i failure (Some bt))"
  "bs_lastRunId (failed_block bt b i failure runId) = Some runId"
  by (simp_all add: failed_block_def withoutRemoteBlockOwnership_def clearRemoteBlockOperationState_def)

lemma owner_active:
  assumes "blockState_valid b" and "bs_remoteOwnership b = Some (Active i)"
  shows "assertActiveRemoteBlockOwnership bt b i = Inr i" and "activeIdentity_valid i"
  using assms by (auto simp: assertActive_Inr same_attempt_def block_valid_simps sameSource_def split: option.splits)

lemma fail_ok:
  assumes "blockState_valid b" and "bs_remoteOwnership b = Some (Active i)" and "normalizedFailure_valid failure" and "runId \<noteq> []"
  shows "failRemoteBlockOwnership bt b i failure (failure_text failure) (Some runId) = Inr (failed_block bt b i failure runId)"
  using owner_active [OF assms(1,2)] assms(3,4)
  by (cases bt) (simp_all add: failRemoteBlockOwnership_def parse_receipt_def with_run_def failed_block_def)

lemma require_source_ok:
  assumes "source_unchanged env ref src"
  shows "require_source env mf ctx ref bt b src reason ws = (Inr (), ws)"
proof -
  from assms obtain cur where "pe_source env ctx ref = Inr cur" "sameRemoteBlockAuthority cur src"
    unfolding source_unchanged_def by blast
  then show ?thesis by (simp add: require_source_def cmd_bind_def cmd_lift_def cmd_return_def)
qed

text \<open>The answer of a failure report, computed from the record that was saved.\<close>

definition failure_answer :: "string \<Rightarrow> block_state \<Rightarrow> normalized_failure \<Rightarrow> port_result" where
  "failure_answer ref b failure = \<lparr>pr_binding =
       \<lparr>bv_ref = ref, bv_status = bs_status b, bv_ownership = bs_remoteOwnership b, bv_interruption = bs_remoteInterruption b,
        bv_terminalReceipt = bs_remoteOperationReceipt b, bv_blockedReason = bs_blockedReason b,
        bv_divergenceReason = bs_divergenceReason b\<rparr>,
     pr_retryDecision = failure_decision failure\<rparr>"

lemma with_remote_block_run:
  assumes "loadRuntime mf ws = (Inr ctx, w0)" and "graph_ok (rc_graph ctx)" and "ref \<in> set (blockRefsInManifestOrder (rc_graph ctx))"
    and "map_get (rs_blocks (rc_state ctx)) ref = Some b"
  shows "with_remote_block mf ref fn ws = fn ctx (mb_type (block_of (rc_graph ctx) ref)) b w0"
  using assms(1,4) executable_known [OF assms(2,3)]
  by (simp add: with_remote_block_def withLockedRuntime_def cmd_bind_def cmd_lift_def requireBlockState_def)

lemma matches_own_receipt [simp]: "matchesRemoteOperationReceipt (Some (FailedReceipt i f t)) i"
  by (simp add: matchesRemoteOperationReceipt_def)

lemma port_fail_new:
  assumes l: "loadRuntime mf ws = (Inr ctx, w0)" and ctx: "context_ok mf ctx" and s: "rc_state ctx = s"
    and b: "map_get (rs_blocks s) ref = Some b" and own: "bs_remoteOwnership b = Some (Active i)"
    and f: "normalizedFailure_valid failure" and src: "source_unchanged env ref (ai_source i)"
    and run: "record_failed_run env ref failure i agent w0 = (Inr runId, w1)" and id: "runId \<noteq> []"
  defines "b1 \<equiv> failed_block (mb_type (block_of (rc_graph ctx) ref)) b i failure runId"
  shows "\<exists>s' ws'. port_fail env mf ref i failure agent ws = (Inr (failure_answer ref b1 failure), ws') \<and>
    ws' = w1\<lparr>wf_state := Some s'\<rparr> \<and> loaded_state mf ws' = Inr s' \<and> map_get (rs_blocks s') ref = Some b1 \<and>
    rs_currentRefs s' = without_ref (rs_currentRefs s) ref \<and> (\<forall>q. q \<noteq> ref \<longrightarrow> same_record s s' q)"
proof -
  note c = context_okD [OF ctx] and k = context_block_known [OF ctx b [folded s]]
  have bv: "blockState_valid b" by (rule context_block_valid [OF ctx b [folded s]])
  let ?bt = "mb_type (block_of (rc_graph ctx) ref)"
  let ?s1 = "releaseCurrentBlockPointers ref (with_block ref b1 s)"
  have fl: "failRemoteBlockOwnership ?bt b i failure (failure_text failure) (Some runId) = Inr b1"
    unfolding b1_def by (rule fail_ok [OF bv own f id])
  have v: "blockState_valid b1" by (rule fail_valid [OF bv fl])
  have bl: "rs_blocks ?s1 = map_set (rs_blocks (rc_state ctx)) ref b1" by (simp add: with_block_def s)
  from save_succeeds [OF ctx v k(1) bl] obtain s' where e: "ensureStateForManifest mf ?s1 = Inr s'" ..
  have view: "bindingView ?s1 ref = Inr (pr_binding (failure_answer ref b1 failure))"
    by (simp add: bindingView_def with_block_def jm.get_put failure_answer_def)
  have "saveState mf ?s1 w1 = (Inr s', w1\<lparr>wf_state := Some s'\<rparr>)" using e by (simp add: saveState_Inr)
  then have sv: "save_view mf ?s1 ref w1 = (Inr (pr_binding (failure_answer ref b1 failure)), w1\<lparr>wf_state := Some s'\<rparr>)"
    using view by (simp add: save_view_def cmd_bind_def cmd_lift_def)
  have "bs_remoteOperationReceipt b = None" by (rule owned_no_receipt(1) [OF bv]) (simp add: own)
  then have "port_fail env mf ref i failure agent ws = (Inr (failure_answer ref b1 failure), w1\<lparr>wf_state := Some s'\<rparr>)"
    unfolding port_fail_def with_remote_block_run [OF l c(2) k(1) b [folded s]]
    using run fl sv by (simp add: cmd_bind_def cmd_lift_def cmd_return_def owner_active [OF bv own] require_source_ok [OF src] s
        failure_answer_def)
  moreover have "set (rs_currentRefs ?s1) \<subseteq> set (blockRefsInManifestOrder (rc_graph ctx))"
    using c(4) by (auto simp: reconciled_def s without_ref_def)
  then obtain s2 where "loaded_state mf (w1\<lparr>wf_state := Some s'\<rparr>) = Inr s2" "map_get (rs_blocks s2) ref = Some b1"
    "\<forall>q. q \<noteq> ref \<longrightarrow> same_record s s2 q" "rs_currentRefs s2 = rs_currentRefs ?s1"
    "w1\<lparr>wf_state := Some s'\<rparr> = w1\<lparr>wf_state := Some s2\<rparr>"
    using saved_started [OF ctx k(1) bl v _ _ _ _ _ sv] unfolding s
    by (auto simp: b1_def remoteOperationReceiptMatchesBlockType_def)
  ultimately show ?thesis by (intro exI [of _ s2] exI [of _ "w1\<lparr>wf_state := Some s'\<rparr>"]) simp
qed

lemma port_fail_again:
  assumes "wf_state ws = Some s" and "loaded_state mf ws = Inr s" and "compileTaskGraph mf = Inr g" and "graph_ok g"
    and "ref \<in> set (blockRefsInManifestOrder g)" and "map_get (rs_blocks s) ref = Some b"
    and "bs_remoteOperationReceipt b = Some (FailedReceipt i failure t)"
  shows "port_fail env mf ref i failure agent ws = (Inr (failure_answer ref b failure), ws)"
proof -
  from load_saved [OF assms(1-3)] obtain ctx where l: "loadRuntime mf ws = (Inr ctx, ws)" "rc_graph ctx = g" "rc_state ctx = s"
    by blast
  note run = with_remote_block_run [OF l(1), unfolded l(2,3), OF assms(4-6)]
  show ?thesis
    unfolding port_fail_def run using assms(6,7)
    by (simp add: l cmd_bind_def cmd_lift_def cmd_return_def bindingView_def failure_answer_def)
qed

text \<open>C17: the host that owns a block can always give it back. As long as the source is the one the operation
  was prepared for, the files can be written and fewer than 1000 runs of the block exist, reporting a failure
  succeeds: the block is blocked and no longer owned, its receipt holds the failure, a fresh run records it and
  is the last run of the block, the block leaves the current references, and every other record is kept. Reporting
  the same failure again gives the same answer and writes nothing.\<close>

theorem remote_failure_goes_through:
  assumes "loaded_state mf ws = Inr s" and "compileTaskGraph mf = Inr g" and "map_get (rs_blocks s) ref = Some b"
    and "bs_remoteOwnership b = Some (Active i)" and "normalizedFailure_valid failure"
    and "source_unchanged env ref (ai_source i)" and "files_writable env ref"
    and "length (filter (matches_id ''RUN'') (map_keys (dir_of (wf_runs ws) ref))) < 1000"
  shows "\<exists>res ws' s' b' runId. port_fail env mf ref i failure agent ws = (Inr res, ws') \<and>
    loaded_state mf ws' = Inr s' \<and> map_get (rs_blocks s') ref = Some b' \<and> bs_status b' = BBlocked \<and>
    bs_remoteOwnership b' = None \<and>
    bs_remoteOperationReceipt b' = Some (FailedReceipt i failure (Some (mb_type (block_of g ref)))) \<and>
    bs_lastRunId b' = Some runId \<and> run_of ws ref runId = None \<and> run_of ws' ref runId \<noteq> None \<and>
    rs_currentRefs s' = without_ref (rs_currentRefs s) ref \<and> (\<forall>q. q \<noteq> ref \<longrightarrow> same_record s s' q) \<and>
    port_fail env mf ref i failure agent ws' = (Inr res, ws')"
proof -
  from load_succeeds [OF assms(1,2)] obtain ctx w0 x where l: "loadRuntime mf ws = (Inr ctx, w0)" "context_ok mf ctx"
    "rc_graph ctx = g" "rc_state ctx = s" "w0 = ws\<lparr>wf_state := x\<rparr>" .
  note c = context_okD [OF l(2)]
  have r: "ref \<in> set (blockRefsInManifestOrder g)" using context_block_known(1) [OF l(2)] assms(3) l(3,4) by simp
  have g: "graph_ok g" using c(2) l(3) by simp
  have "length (filter (matches_id ''RUN'') (map_keys (dir_of (wf_runs w0) ref))) < 1000" using assms(8) l(5) by simp
  from record_failed_run_ok [OF parse_known [OF g r] assms(7) this] obtain runId w1 where
    run: "record_failed_run env ref failure i agent w0 = (Inr runId, w1)" "run_of w0 ref runId = None"
      "run_of w1 ref runId \<noteq> None" "runId \<noteq> []" by blast
  let ?b1 = "failed_block (mb_type (block_of g ref)) b i failure runId"
  from port_fail_new [OF l(1,2,4) assms(3-6) run(1,4)] obtain s' ws' where
    p: "port_fail env mf ref i failure agent ws = (Inr (failure_answer ref ?b1 failure), ws')" "ws' = w1\<lparr>wf_state := Some s'\<rparr>"
      "loaded_state mf ws' = Inr s'" "map_get (rs_blocks s') ref = Some ?b1"
      "rs_currentRefs s' = without_ref (rs_currentRefs s) ref" "\<forall>q. q \<noteq> ref \<longrightarrow> same_record s s' q"
    unfolding l(3) by blast
  have "port_fail env mf ref i failure agent ws' = (Inr (failure_answer ref ?b1 failure), ws')"
    using p(2) by (intro port_fail_again [OF _ p(3) assms(2) g r p(4)]) simp_all
  moreover have "run_of ws ref runId = None" "run_of ws' ref runId \<noteq> None" using run(2,3) l(5) p(2) by (simp_all add: run_of_def)
  ultimately show ?thesis
    using p by (intro exI [of _ "failure_answer ref ?b1 failure"] exI [of _ ws'] exI [of _ s'] exI [of _ ?b1] exI [of _ runId]) simp
qed

section \<open>Witness\<close>

definition owned_files :: workspace_files where
  "owned_files = empty_files\<lparr>wf_state := Some (createEmptyState
     \<lparr>rs_currentRefs := [''T1#B1''],
      rs_blocks := [(''T1#B1'', (fresh_block BInProgress)\<lparr>bs_remoteOwnership := Some (Active sample_identity)\<rparr>)]\<rparr>)\<rparr>"

lemma remote_failure_goes_through_witness:
  "\<exists>res ws'. port_fail port_env sample_manifest ''T1#B1'' sample_identity sample_failure None owned_files = (Inr res, ws') \<and>
     port_fail port_env sample_manifest ''T1#B1'' sample_identity sample_failure None ws' = (Inr res, ws')"
proof -
  have "res_holds (\<lambda>s. case map_get (rs_blocks s) ''T1#B1'' of None \<Rightarrow> False
       | Some b \<Rightarrow> bs_remoteOwnership b = Some (Active sample_identity)) (loaded_state sample_manifest owned_files)"
    "res_holds (\<lambda>_. True) (compileTaskGraph sample_manifest)" "normalizedFailure_valid sample_failure" by code_simp+
  then obtain s g b where s: "loaded_state sample_manifest owned_files = Inr s" "compileTaskGraph sample_manifest = Inr g"
    "map_get (rs_blocks s) ''T1#B1'' = Some b" "bs_remoteOwnership b = Some (Active sample_identity)"
    "normalizedFailure_valid sample_failure"
    by (auto elim!: res_holdsE split: option.splits)
  have e: "source_unchanged port_env ''T1#B1'' (ai_source sample_identity)" "files_writable port_env ''T1#B1''"
    "length (filter (matches_id ''RUN'') (map_keys (dir_of (wf_runs owned_files) ''T1#B1''))) < 1000"
    by (simp_all add: source_unchanged_def files_writable_def port_env_def sameRemoteBlockAuthority_def owned_files_def
        empty_files_def dir_of_def map_keys_def map_get_def)
  from remote_failure_goes_through [OF s e, of None] show ?thesis by blast
qed

end
