(* ===== verification/Manifest_Schema.thy ===== *)
theory Manifest_Schema
  imports Plan_Model
begin

text \<open>
  What \<^verbatim>\<open>schema/manifest.ts\<close> accepts as a manifest, and what it makes of it: parsing removes repeated shared
  resources and drops an empty list of them. The types already give the shape; here are the refinements. The version,
  the title of the project and the package-wide review defaults are not part of the manifest record; the names of
  the executor profiles are an argument.
\<close>

definition filled :: "string option \<Rightarrow> bool" where
  "filled s \<longleftrightarrow> s \<noteq> Some []"

definition capability_char :: "char \<Rightarrow> bool" where
  "capability_char c \<longleftrightarrow>
     (let n = (of_char c :: nat) in (48 \<le> n \<and> n \<le> 57) \<or> (97 \<le> n \<and> n \<le> 122))"

definition capability_valid :: "string \<Rightarrow> bool" where
  "capability_valid s \<longleftrightarrow>
     (case s of
        [] \<Rightarrow> False
      | c # cs \<Rightarrow> length s \<le> 128 \<and> capability_char c \<and> list_all (\<lambda>d. capability_char d \<or> d \<in> set ''._:-'') cs)"

definition userRequiredCapabilities_valid :: "string list \<Rightarrow> bool" where
  "userRequiredCapabilities_valid cs \<longleftrightarrow>
     list_all capability_valid cs \<and> length cs \<le> 128 \<and> distinct cs \<and>
     list_all (\<lambda>c. take (length ''planweave.internal.'') c \<noteq> ''planweave.internal.'') cs"

definition reviewPolicy_valid :: "review_policy \<Rightarrow> bool" where
  "reviewPolicy_valid p \<longleftrightarrow>
     filled (rp_preset p) \<and> filled (rp_inputContext p) \<and> filled (rp_passCriteria p) \<and> filled (rp_feedbackFormat p) \<and>
     (case rp_hook p of None \<Rightarrow> True | Some h \<Rightarrow> rh_id h \<noteq> [] \<and> rh_command h \<noteq> [])"

definition manifestBlock_valid :: "manifest_block \<Rightarrow> bool" where
  "manifestBlock_valid b \<longleftrightarrow>
     mb_id b \<noteq> [] \<and> mb_title b \<noteq> [] \<and> mb_prompt b \<noteq> [] \<and> [] \<notin> set (mb_depends_on b) \<and> filled (mb_executor b) \<and>
     (case b of
        ManifestImplementationBlock _ _ _ _ _ caps shared \<Rightarrow>
          (case caps of None \<Rightarrow> True | Some cs \<Rightarrow> userRequiredCapabilities_valid cs \<and> cs \<noteq> []) \<and>
          (case shared of None \<Rightarrow> True | Some rs \<Rightarrow> [] \<notin> set rs)
      | ManifestReviewBlock _ _ _ _ _ policy \<Rightarrow> reviewPolicy_valid policy)"

definition manifestNode_valid :: "manifest_node \<Rightarrow> bool" where
  "manifestNode_valid n \<longleftrightarrow>
     mn_id n \<noteq> [] \<and> mn_title n \<noteq> [] \<and> mn_prompt n \<noteq> [] \<and> filled (mn_executor n) \<and>
     mn_acceptance n \<noteq> [] \<and> [] \<notin> set (mn_acceptance n) \<and> mn_blocks n \<noteq> [] \<and> list_all manifestBlock_valid (mn_blocks n)"

definition builtinExecutorNames :: "string list" where
  "builtinExecutorNames =
     [''default'', ''manual'', ''codex'', ''codex-auto'', ''codex-acp'', ''opencode'', ''opencode-acp'', ''claude-code'',
      ''claude-code-auto'', ''claude-code-acp'', ''pi'', ''pi-auto'', ''pi-acp'', ''grok'', ''grok-acp'', ''codebuddy-acp'']"

definition known_executor :: "string list \<Rightarrow> string option \<Rightarrow> bool" where
  "known_executor executors e \<longleftrightarrow>
     (case e of None \<Rightarrow> True | Some name \<Rightarrow> name = [] \<or> name \<in> set builtinExecutorNames \<union> set executors)"

definition manifest_valid :: "string list \<Rightarrow> manifest \<Rightarrow> bool" where
  "manifest_valid executors mf \<longleftrightarrow>
     filled (mf_defaultExecutor mf) \<and> 0 < mf_maxConcurrent mf \<and> list_all manifestNode_valid (mf_nodes mf) \<and>
     list_all (\<lambda>e. me_from e \<noteq> [] \<and> me_to e \<noteq> []) (mf_edges mf) \<and> known_executor executors (mf_defaultExecutor mf) \<and>
     list_all (\<lambda>n. known_executor executors (mn_executor n) \<and>
       list_all (\<lambda>b. known_executor executors (mb_executor b)) (mn_blocks n)) (mf_nodes mf)"

fun parsed_block :: "manifest_block \<Rightarrow> manifest_block" where
  "parsed_block (ManifestImplementationBlock i t p ds e caps shared) =
     ManifestImplementationBlock i t p ds e caps
       (case shared of None \<Rightarrow> None | Some rs \<Rightarrow> let u = js_dedup rs in if u = [] then None else Some u)"
| "parsed_block (ManifestReviewBlock i t p ds e policy) = ManifestReviewBlock i t p ds e policy"

definition parsed_node :: "manifest_node \<Rightarrow> manifest_node" where
  "parsed_node n = n\<lparr>mn_blocks := map parsed_block (mn_blocks n)\<rparr>"

definition manifestSchema :: "string list \<Rightarrow> manifest \<Rightarrow> manifest option" where
  "manifestSchema executors mf =
     (if manifest_valid executors mf then Some (mf\<lparr>mf_nodes := map parsed_node (mf_nodes mf)\<rparr>) else None)"

text \<open>Parsing what was parsed changes nothing.\<close>

lemma dedup_distinct:
  "distinct xs \<Longrightarrow> set xs \<inter> set acc = {} \<Longrightarrow> fold (\<lambda>x acc. if x \<in> set acc then acc else x # acc) xs acc = rev xs @ acc"
  by (induction xs arbitrary: acc) auto

lemma js_dedup_idem [simp]: "js_dedup (js_dedup xs) = js_dedup xs"
  using dedup_distinct [of "js_dedup xs" "[]"] by (simp add: js_dedup_def [of "js_dedup xs"])

lemma parsed_block_idem [simp]: "parsed_block (parsed_block b) = parsed_block b"
  by (cases b) (auto simp: Let_def split: option.splits)

lemma parsed_block_fields [simp]:
  "mb_id (parsed_block b) = mb_id b" "mb_executor (parsed_block b) = mb_executor b" "mb_title (parsed_block b) = mb_title b"
  "mb_prompt (parsed_block b) = mb_prompt b" "mb_depends_on (parsed_block b) = mb_depends_on b"
  by (cases b; simp)+

lemma parsed_block_valid: "manifestBlock_valid b \<Longrightarrow> manifestBlock_valid (parsed_block b)"
  by (cases b) (auto simp: manifestBlock_valid_def Let_def split: option.splits)

lemma parsed_node_valid: "manifestNode_valid n \<Longrightarrow> manifestNode_valid (parsed_node n)"
  by (auto simp: manifestNode_valid_def parsed_node_def list_all_iff parsed_block_valid)

lemma parsed_node_idem [simp]: "parsed_node (parsed_node n) = parsed_node n"
  by (simp add: parsed_node_def)

lemma parsed_node_fields [simp]:
  "mn_id (parsed_node n) = mn_id n" "mn_executor (parsed_node n) = mn_executor n"
  "mn_blocks (parsed_node n) = map parsed_block (mn_blocks n)"
  by (simp_all add: parsed_node_def)

lemma manifestSchema_idem:
  assumes "manifestSchema executors mf = Some mf'"
  shows "manifestSchema executors mf' = Some mf'" and "manifest_valid executors mf'"
proof -
  from assms have v: "manifest_valid executors mf" and mf': "mf' = mf\<lparr>mf_nodes := map parsed_node (mf_nodes mf)\<rparr>"
    by (auto simp: manifestSchema_def split: if_splits)
  from v show "manifest_valid executors mf'"
    by (auto simp: manifest_valid_def mf' list_all_iff parsed_node_valid)
  then show "manifestSchema executors mf' = Some mf'" by (simp add: manifestSchema_def mf')
qed

end
