(* ===== verification/Affected_Tasks.thy ===== *)
theory Affected_Tasks
  imports Task_Graph
begin

text \<open>
  Which tasks a change of the manifest affects: \<^verbatim>\<open>graph/affectedTasks.ts\<close>.

  The code walks, in the graph before and in the graph after the change, from every changed task and from the
  source of every added or removed edge to the tasks that depend on it, and collects what it meets in one set that
  all walks share and that ends each walk. \<open>impact\<close> says what should come out: the tasks that reach a changed
  one through dependencies of either manifest. Nodes are compared as the code compares them when both are in the
  key order of the manifest schema.
\<close>

section \<open>The index of dependents\<close>

definition bare :: "compiled_graph \<Rightarrow> bool" where
  "bare g \<longleftrightarrow> (\<forall>a. succs (taskAdjacency g) a = [] \<and> succs (taskDependentsByTask g) a = [])"

definition mirrored :: "compiled_graph \<Rightarrow> bool" where
  "mirrored g \<longleftrightarrow>
     (\<forall>a b. a \<in> set (succs (taskDependentsByTask g) b) \<longleftrightarrow> b \<in> set (succs (taskAdjacency g) a))"

lemma bare_mirrored: "bare g \<Longrightarrow> mirrored g"
  by (simp add: bare_def mirrored_def)

lemma same_lists_bare:
  "taskAdjacency g' = taskAdjacency g \<Longrightarrow> taskDependentsByTask g' = taskDependentsByTask g \<Longrightarrow> bare g' = bare g"
  "taskAdjacency g' = taskAdjacency g \<Longrightarrow> taskDependentsByTask g' = taskDependentsByTask g \<Longrightarrow> mirrored g' = mirrored g"
  by (simp_all add: bare_def mirrored_def)

lemma index_nodes_bare: "bare (index_nodes mf)"
proof -
  have step: "bare (fst gd) \<Longrightarrow> bare (fst (index_node n gd))" for n gd
    by (cases gd; cases "mn_type n") (simp add: index_node_def Let_def bare_def)
  have nodes: "bare (fst gd) \<Longrightarrow> bare (fst (fold index_node ns gd))" for ns gd
    by (induction ns arbitrary: gd) (simp_all add: step)
  have errs: "bare g \<Longrightarrow> bare (fold (\<lambda>i. add_error (NodeIdDuplicate i)) ds g)" for ds g
    by (induction ds arbitrary: g) (simp_all add: bare_def)
  have "bare empty_graph" by (simp add: bare_def empty_graph_def succs_def js_map_simps)
  with nodes errs show ?thesis by (simp add: index_nodes_def split_beta)
qed

lemma index_block_bare: "index_block t b gi = Inr gi' \<Longrightarrow> bare (fst gi) \<Longrightarrow> bare (fst gi')"
  by (cases gi) (auto simp: index_block_def Let_def bare_def add_error_def
      split: if_splits elim!: try_bind_InrE map_push_InrE)

lemma index_task_bare:
  assumes "index_task t g = Inr g'" and "bare g"
  shows "bare g'"
proof -
  from assms(1) obtain task :: manifest_node and gi where
    gi: "for_res (index_block t) (mn_blocks task) (open_task t g, []) = Inr gi" "g' = fst gi"
    by (auto simp: index_task_def Let_def elim!: try_bind_InrE)
  have "bare (open_task t g)" using assms(2) by (auto simp: bare_def open_task_def succs_def js_map_simps)
  then have "bare (fst gi)"
    by (intro for_res_invariant [OF gi(1), of "\<lambda>gi. bare (fst gi)"]) (auto intro: index_block_bare)
  with gi(2) show ?thesis by simp
qed

lemma link_task_blocks_bare:
  assumes "link_task_blocks t g = Inr g'" and "bare g"
  shows "bare g'"
proof -
  have dep: "bare g2" if "link_block_dependency t known r d g1 = Inr g2" "bare g1" for known r d g1 g2
    using that by (auto simp: link_block_dependency_def Let_def bare_def add_error_def split: if_splits elim!: try_bind_InrE)
  have block: "bare g2" if "link_block t known b g1 = Inr g2" and "bare g1" for known b g1 g2
    by (rule for_res_invariant [OF that(1) [unfolded link_block_def]]) (auto simp: that(2) intro: dep)
  from assms(1) obtain known and task :: manifest_node where "for_res (link_block t known) (mn_blocks task) g = Inr g'"
    by (auto simp: link_task_blocks_def elim!: try_bind_InrE)
  then show ?thesis by (rule for_res_invariant) (auto simp: assms(2) intro: block)
qed

lemma succs_set [simp]: "succs (map_set m k v) a = (if a = k then v else succs m a)"
  by (simp add: succs_def js_map_simps)

lemma link_edge_lists:
  assumes "link_edge e gs = Inr gs'"
  obtains "taskAdjacency (fst gs') = taskAdjacency (fst gs)" "taskDependentsByTask (fst gs') = taskDependentsByTask (fst gs)"
  | "taskAdjacency (fst gs') = map_set (taskAdjacency (fst gs)) (me_from e) (succs (taskAdjacency (fst gs)) (me_from e) @ [me_to e])"
    "taskDependentsByTask (fst gs') =
       map_set (taskDependentsByTask (fst gs)) (me_to e) (succs (taskDependentsByTask (fst gs)) (me_to e) @ [me_from e])"
  using assms
  by (cases gs) (auto simp: link_edge_def Let_def succs_def split: if_splits option.splits elim!: try_bind_InrE map_push_InrE)

lemma link_edge_mirrored:
  assumes "link_edge e gs = Inr gs'" and "mirrored (fst gs)"
  shows "mirrored (fst gs')"
  using assms(1)
proof (rule link_edge_lists)
  assume "taskAdjacency (fst gs') = taskAdjacency (fst gs)" "taskDependentsByTask (fst gs') = taskDependentsByTask (fst gs)"
  then show ?thesis using assms(2) by (simp add: mirrored_def)
next
  assume "taskAdjacency (fst gs') = map_set (taskAdjacency (fst gs)) (me_from e) (succs (taskAdjacency (fst gs)) (me_from e) @ [me_to e])"
    "taskDependentsByTask (fst gs') =
       map_set (taskDependentsByTask (fst gs)) (me_to e) (succs (taskDependentsByTask (fst gs)) (me_to e) @ [me_from e])"
  then show ?thesis using assms(2) by (auto simp: mirrored_def)
qed

lemma check_keeps_lists:
  "check_cycles g = Inr g' \<Longrightarrow> taskAdjacency g' = taskAdjacency g \<and> taskDependentsByTask g' = taskDependentsByTask g"
  "check_implementation t g = Inr g' \<Longrightarrow> taskAdjacency g' = taskAdjacency g \<and> taskDependentsByTask g' = taskDependentsByTask g"
  by (auto simp: check_cycles_def check_implementation_def Let_def elim!: try_bind_InrE split: option.splits if_splits)

lemma compile_mirrored:
  assumes "compileTaskGraph mf = Inr g"
  shows "mirrored g"
proof -
  let ?O = "taskNodesInManifestOrder (index_nodes mf)"
  from assms obtain g1 g2 gs g4 where st: "for_res index_task ?O (index_nodes mf) = Inr g1"
    "for_res link_task_blocks ?O g1 = Inr g2" "for_res link_edge (mf_edges mf) (g2, []) = Inr gs"
    "check_cycles (fst gs) = Inr g4" "for_res check_implementation ?O g4 = Inr g"
    by (auto simp: compileTaskGraph_def Let_def elim!: try_bind_InrE)
  have "bare g1" by (rule for_res_invariant [OF st(1)]) (auto intro: index_nodes_bare index_task_bare)
  then have "bare g2" by (rule for_res_invariant [OF st(2)]) (auto intro: link_task_blocks_bare)
  then have "mirrored (fst gs)"
    by (intro for_res_invariant [OF st(3), of "\<lambda>gs. mirrored (fst gs)"]) (auto intro: bare_mirrored link_edge_mirrored)
  with check_keeps_lists(1) [OF st(4)] have "mirrored g4" using same_lists_bare(2) by blast
  then show ?thesis
    by (rule for_res_invariant [OF st(5)]) (use check_keeps_lists(2) same_lists_bare(2) in blast)
qed

lemma compile_dependents:
  assumes "compileTaskGraph mf = Inr g"
  shows "a \<in> set (succs (taskDependentsByTask g) b) \<longleftrightarrow> (a, b) \<in> depends_relation mf"
  using compile_mirrored [OF assms] compile_facts(4) [OF assms]
  by (auto simp: mirrored_def depends_relation_def image_iff)

section \<open>The walks\<close>

function dependents_loop :: "adjacency \<Rightarrow> string list \<Rightarrow> string list \<Rightarrow> string list res" where
  "dependents_loop adj [] affected = Inr affected"
| "dependents_loop adj (current # stack) affected =
     (if current = [] \<or> current \<in> set affected then dependents_loop adj stack affected
      else try_bind (requireMapValue adj current ''taskDependentsByTask'')
             (\<lambda>ds. dependents_loop adj (rev ds @ stack) (affected @ [current])))"
  by pat_completeness auto
termination
proof (relation "measures [\<lambda>(adj, stack, affected). card ({k. map_has adj k} - set affected),
                            \<lambda>(adj, stack, affected). length stack]", goal_cases)
  case 1
  show ?case by simp
next
  case (2 adj current stack affected)
  then show ?case by simp
next
  case (3 adj current stack affected ds)
  then have "map_has adj current" by (simp add: requireMapValue_Inr map_has_get)
  with 3(1) have "card ({k. map_has adj k} - set (affected @ [current])) < card ({k. map_has adj k} - set affected)"
    by (intro psubset_card_mono) auto
  then show ?case by simp
qed

declare dependents_loop.simps(2) [simp del]

definition addTaskDependents :: "compiled_graph \<Rightarrow> string \<Rightarrow> string list \<Rightarrow> string list res" where
  "addTaskDependents g taskId affected = dependents_loop (taskDependentsByTask g) [taskId] affected"

definition affectedTaskIdsForEdge :: "manifest_edge \<Rightarrow> compiled_graph \<Rightarrow> string list \<Rightarrow> string list res" where
  "affectedTaskIdsForEdge edge g affected =
     (case me_type edge of
        DependsOn \<Rightarrow> if map_has (tasksById g) (me_from edge) then addTaskDependents g (me_from edge) affected
                     else Inr affected)"

text \<open>\<^verbatim>\<open>new Map(items.map((item) => [key(item), item]))\<close>.\<close>

definition map_by :: "('a \<Rightarrow> string) \<Rightarrow> 'a list \<Rightarrow> (string, 'a) js_map" where
  "map_by key xs = fold (\<lambda>x m. map_set m (key x) x) xs []"

definition edge_steps :: "compiled_graph \<Rightarrow> compiled_graph \<Rightarrow> manifest_edge \<Rightarrow> string list \<Rightarrow> string list res" where
  "edge_steps beforeGraph afterGraph edge affected =
     try_bind (affectedTaskIdsForEdge edge beforeGraph affected) (affectedTaskIdsForEdge edge afterGraph)"

definition affected_by_node ::
  "manifest \<Rightarrow> manifest \<Rightarrow> compiled_graph \<Rightarrow> compiled_graph \<Rightarrow> string \<Rightarrow> string list \<Rightarrow> string list res" where
  "affected_by_node before' after' beforeGraph afterGraph nodeId affected =
     (if map_get (map_by mn_id (mf_nodes before')) nodeId = map_get (map_by mn_id (mf_nodes after')) nodeId
      then Inr affected
      else try_bind (if map_has (tasksById beforeGraph) nodeId then addTaskDependents beforeGraph nodeId affected
                     else Inr affected) (\<lambda>a1.
           try_bind (if map_has (tasksById afterGraph) nodeId then addTaskDependents afterGraph nodeId a1
                     else Inr a1) (\<lambda>a2.
           if \<not> map_has (tasksById beforeGraph) nodeId \<and> \<not> map_has (tasksById afterGraph) nodeId
           then for_res (edge_steps beforeGraph afterGraph)
                  (filter (\<lambda>e. me_from e = nodeId \<or> me_to e = nodeId) (mf_edges before' @ mf_edges after')) a2
           else Inr a2)))"

definition affected_by_edge ::
  "manifest \<Rightarrow> manifest \<Rightarrow> compiled_graph \<Rightarrow> compiled_graph \<Rightarrow> string \<Rightarrow> string list \<Rightarrow> string list res" where
  "affected_by_edge before' after' beforeGraph afterGraph key affected =
     (case (map_get (map_by edgeKey (mf_edges before')) key, map_get (map_by edgeKey (mf_edges after')) key) of
        (Some _, Some _) \<Rightarrow> Inr affected
      | (Some e, None) \<Rightarrow> edge_steps beforeGraph afterGraph e affected
      | (None, Some e) \<Rightarrow> edge_steps beforeGraph afterGraph e affected
      | (None, None) \<Rightarrow> Inr affected)"

definition affectedTaskIdsForManifestChange ::
  "manifest \<Rightarrow> manifest \<Rightarrow> compiled_graph \<Rightarrow> compiled_graph \<Rightarrow> string list res" where
  "affectedTaskIdsForManifestChange before' after' beforeGraph afterGraph =
     try_bind (for_res (affected_by_node before' after' beforeGraph afterGraph)
       (js_dedup (map_keys (map_by mn_id (mf_nodes before')) @ map_keys (map_by mn_id (mf_nodes after')))) []) (\<lambda>a1.
     try_bind (for_res (affected_by_edge before' after' beforeGraph afterGraph)
       (js_dedup (map_keys (map_by edgeKey (mf_edges before')) @ map_keys (map_by edgeKey (mf_edges after')))) a1) (\<lambda>a2.
     Inr (filter (\<lambda>t. map_has (tasksById beforeGraph) t \<or> map_has (tasksById afterGraph) t) a2)))"

text \<open>The call with the default arguments: both graphs are compiled.\<close>

definition affectedTasks :: "manifest \<Rightarrow> manifest \<Rightarrow> string list res" where
  "affectedTasks before' after' =
     try_bind (compileTaskGraph before') (\<lambda>beforeGraph.
     try_bind (compileTaskGraph after') (\<lambda>afterGraph.
     affectedTaskIdsForManifestChange before' after' beforeGraph afterGraph))"

section \<open>What a walk collects\<close>

lemma dependents_loop_spec:
  assumes "\<not> map_has adj []" and "adj_closed adj" and "\<forall>t \<in> set stack. map_has adj t"
  shows "\<exists>A. dependents_loop adj stack affected = Inr A \<and> set affected \<union> set stack \<subseteq> set A \<and>
    (\<forall>x \<in> set A - set affected. map_has adj x \<and> set (succs adj x) \<subseteq> set A \<and> (\<exists>t \<in> set stack. (t, x) \<in> (all_edges adj)\<^sup>*))"
  using assms
proof (induction adj stack affected rule: dependents_loop.induct)
  case (1 adj affected)
  then show ?case by simp
next
  case (2 adj current stack affected)
  show ?case
  proof (cases "current \<in> set affected")
    case True
    with 2 obtain A where "dependents_loop adj stack affected = Inr A" "set affected \<union> set stack \<subseteq> set A"
      "\<forall>x \<in> set A - set affected. map_has adj x \<and> set (succs adj x) \<subseteq> set A \<and> (\<exists>t \<in> set stack. (t, x) \<in> (all_edges adj)\<^sup>*)"
      by auto
    with True show ?thesis by (auto simp: dependents_loop.simps(2))
  next
    case False
    have k: "current \<noteq> []" "map_has adj current" using "2.prems" by auto
    then have v: "requireMapValue adj current ''taskDependentsByTask'' = Inr (succs adj current)"
      by (auto simp: requireMapValue_Inr succs_def map_has_get)
    have "\<forall>t \<in> set (rev (succs adj current) @ stack). map_has adj t"
      using "2.prems" adj_closed_succs by auto
    with "2.IH"(2) [OF _ v] False k(1) "2.prems"(1,2) obtain A where
      A: "dependents_loop adj (rev (succs adj current) @ stack) (affected @ [current]) = Inr A"
        "set (affected @ [current]) \<union> set (rev (succs adj current) @ stack) \<subseteq> set A"
        "\<forall>x \<in> set A - set (affected @ [current]). map_has adj x \<and> set (succs adj x) \<subseteq> set A \<and>
           (\<exists>t \<in> set (rev (succs adj current) @ stack). (t, x) \<in> (all_edges adj)\<^sup>*)" by auto
    have "\<exists>t \<in> set (current # stack). (t, x) \<in> (all_edges adj)\<^sup>*" if "x \<in> set A - set affected" for x
    proof (cases "x = current")
      case False
      with that A(3) obtain t where t: "t \<in> set (succs adj current) \<union> set stack" "(t, x) \<in> (all_edges adj)\<^sup>*" by auto
      then show ?thesis
        by (auto simp: all_edges_def intro: converse_rtrancl_into_rtrancl)
    qed auto
    with A k False v show ?thesis by (auto simp: dependents_loop.simps(2))
  qed
qed

definition task_ids :: "manifest \<Rightarrow> string set" where
  "task_ids mf = mn_id ` set (mf_nodes mf)"

lemma depends_ids: "(a, b) \<in> depends_relation mf \<Longrightarrow> a \<in> task_ids mf \<and> b \<in> task_ids mf"
  by (auto simp: depends_relation_def declared_edges_def task_ids_def)

lemma compile_tasks:
  assumes "compileTaskGraph mf = Inr g"
  shows "map_has (tasksById g) t \<longleftrightarrow> t \<in> task_ids mf" and "map_has (taskDependentsByTask g) t \<longleftrightarrow> t \<in> task_ids mf"
    and "adj_closed (taskDependentsByTask g)" and "all_edges (taskDependentsByTask g) = (depends_relation mf)\<inverse>"
proof -
  note f = compile_facts [OF assms]
  have inv: "idx_inv (set (taskNodesInManifestOrder g)) g" using f(1) by (simp add: graph_wf_def)
  show "map_has (tasksById g) t \<longleftrightarrow> t \<in> task_ids mf" "map_has (taskDependentsByTask g) t \<longleftrightarrow> t \<in> task_ids mf"
    using graph_wf_doms(1) [OF f(1)] inv f(3) by (simp_all add: task_ids_def idx_inv_def Let_def dom_is_def)
  show "adj_closed (taskDependentsByTask g)" using inv by (auto simp: idx_inv_def Let_def intro: ran_in_closed)
  show "all_edges (taskDependentsByTask g) = (depends_relation mf)\<inverse>"
    using compile_dependents [OF assms] by (auto simp: all_edges_def)
qed

text \<open>A task is settled in a manifest when the tasks that depend on it there are collected.\<close>

definition settled_in :: "manifest \<Rightarrow> string set \<Rightarrow> string \<Rightarrow> bool" where
  "settled_in mf A x \<longleftrightarrow> x \<in> task_ids mf \<and> (\<forall>y. (y, x) \<in> depends_relation mf \<longrightarrow> y \<in> A)"

lemma addTaskDependents_spec:
  assumes "compileTaskGraph mf = Inr g" and "[] \<notin> task_ids mf" and "t \<in> task_ids mf"
  shows "\<exists>A. addTaskDependents g t affected = Inr A \<and> insert t (set affected) \<subseteq> set A \<and>
    (\<forall>x \<in> set A - set affected. settled_in mf (set A) x \<and> (x, t) \<in> (depends_relation mf)\<^sup>*)"
proof -
  note c = compile_tasks [OF assms(1)]
  have "\<not> map_has (taskDependentsByTask g) []" "\<forall>x \<in> set [t]. map_has (taskDependentsByTask g) x"
    using c(2) assms(2,3) by auto
  from dependents_loop_spec [OF this(1) c(3) this(2), of affected] obtain A where
    A: "dependents_loop (taskDependentsByTask g) [t] affected = Inr A" "set affected \<union> set [t] \<subseteq> set A"
      "\<forall>x \<in> set A - set affected. map_has (taskDependentsByTask g) x \<and> set (succs (taskDependentsByTask g) x) \<subseteq> set A \<and>
         (\<exists>t \<in> set [t]. (t, x) \<in> (all_edges (taskDependentsByTask g))\<^sup>*)" by blast
  have "settled_in mf (set A) x \<and> (x, t) \<in> (depends_relation mf)\<^sup>*" if "x \<in> set A - set affected" for x
    using A(3) that compile_dependents [OF assms(1)] c(2) unfolding c(4) rtrancl_converse
    by (auto simp: settled_in_def)
  with A(1,2) show ?thesis by (auto simp: addTaskDependents_def)
qed

section \<open>The affected tasks are the impact of the change\<close>

definition changed_tasks :: "manifest \<Rightarrow> manifest \<Rightarrow> string set" where
  "changed_tasks before' after' =
     {t \<in> task_ids before' \<union> task_ids after'.
        map_get (map_by mn_id (mf_nodes before')) t \<noteq> map_get (map_by mn_id (mf_nodes after')) t \<or>
        (\<exists>e. me_from e = t \<and> (e \<in> set (mf_edges before')) \<noteq> (e \<in> set (mf_edges after')))}"

definition impact :: "manifest \<Rightarrow> manifest \<Rightarrow> string set" where
  "impact before' after' =
     {t. \<exists>s \<in> changed_tasks before' after'. (t, s) \<in> (depends_relation before' \<union> depends_relation after')\<^sup>*}"

text \<open>Edges are told apart by their keys.\<close>

definition keys_apart :: "manifest \<Rightarrow> manifest \<Rightarrow> bool" where
  "keys_apart before' after' \<longleftrightarrow> inj_on edgeKey (set (mf_edges before') \<union> set (mf_edges after'))"

definition collecting :: "manifest \<Rightarrow> manifest \<Rightarrow> string list \<Rightarrow> bool" where
  "collecting before' after' A \<longleftrightarrow> set A \<subseteq> impact before' after' \<and>
     (\<forall>x \<in> set A. settled_in before' (set A) x \<or> settled_in after' (set A) x)"

lemma settled_mono: "settled_in mf A x \<Longrightarrow> A \<subseteq> B \<Longrightarrow> settled_in mf B x"
  by (auto simp: settled_in_def)

lemma walk_collects:
  assumes g: "compileTaskGraph mf = Inr g" and mf: "mf = before' \<or> mf = after'" and ne: "[] \<notin> task_ids mf"
    and t: "t \<in> task_ids mf" "t \<in> changed_tasks before' after'" and A: "collecting before' after' A"
  shows "\<exists>A'. addTaskDependents g t A = Inr A' \<and> collecting before' after' A' \<and> insert t (set A) \<subseteq> set A'"
proof -
  from addTaskDependents_spec [OF g ne t(1), of A] obtain A' where
    A': "addTaskDependents g t A = Inr A'" "insert t (set A) \<subseteq> set A'"
      "\<forall>x \<in> set A' - set A. settled_in mf (set A') x \<and> (x, t) \<in> (depends_relation mf)\<^sup>*" by blast
  have "(depends_relation mf)\<^sup>* \<subseteq> (depends_relation before' \<union> depends_relation after')\<^sup>*"
    using mf by (intro rtrancl_mono) auto
  then have "x \<in> impact before' after'" if "x \<in> set A' - set A" for x using A'(3) that t(2) by (auto simp: impact_def)
  moreover have "settled_in before' (set A') x \<or> settled_in after' (set A') x" if "x \<in> set A'" for x
    using A'(2,3) that mf A settled_mono [of _ "set A" x "set A'"] by (cases "x \<in> set A") (auto simp: collecting_def)
  ultimately have "collecting before' after' A'" using A by (auto simp: collecting_def)
  with A'(1,2) show ?thesis by blast
qed

lemma map_by_get:
  "map_get (fold (\<lambda>x m. map_set m (key x) x) xs m) k =
     (case List.find (\<lambda>x. key x = k) (rev xs) of None \<Rightarrow> map_get m k | Some x \<Rightarrow> Some x)"
proof (induction xs arbitrary: m)
  case Nil
  then show ?case by simp
next
  case (Cons x xs)
  have "List.find P (ys @ [x]) = (case List.find P ys of None \<Rightarrow> if P x then Some x else None | Some y \<Rightarrow> Some y)"
    for P :: "'a \<Rightarrow> bool" and ys by (induction ys) auto
  with Cons show ?case by (auto simp: js_map_simps split: option.splits)
qed

lemma map_by_Some: "map_get (map_by key xs) k = Some x \<Longrightarrow> x \<in> set xs \<and> key x = k"
  by (auto simp: map_by_def map_by_get js_map_simps dest: find_Some_iff_mem split: option.splits)

lemma map_by_has: "map_has (map_by key xs) k \<longleftrightarrow> k \<in> key ` set xs"
proof
  show "k \<in> key ` set xs" if "map_has (map_by key xs) k"
    using that map_by_Some [of key xs k] by (auto simp: map_has_get)
  show "map_has (map_by key xs) k" if "k \<in> key ` set xs"
  proof -
    from that obtain x where "x \<in> set (rev xs)" "key x = k" by auto
    then have "List.find (\<lambda>x. key x = k) (rev xs) \<noteq> None" by (auto simp: find_None_iff)
    then show ?thesis by (auto simp: map_has_get map_by_def map_by_get)
  qed
qed

definition change_ok :: "manifest \<Rightarrow> manifest \<Rightarrow> compiled_graph \<Rightarrow> compiled_graph \<Rightarrow> bool" where
  "change_ok before' after' bg ag \<longleftrightarrow> compileTaskGraph before' = Inr bg \<and> compileTaskGraph after' = Inr ag \<and>
     [] \<notin> task_ids before' \<and> [] \<notin> task_ids after' \<and> keys_apart before' after'"

lemma walk_if:
  assumes "compileTaskGraph mf = Inr g" and "mf = before' \<or> mf = after'" and "[] \<notin> task_ids mf"
    and "t \<in> changed_tasks before' after'" and "collecting before' after' A"
  shows "\<exists>A'. (if map_has (tasksById g) t then addTaskDependents g t A else Inr A) = Inr A' \<and>
    collecting before' after' A' \<and> set A \<subseteq> set A' \<and> (t \<in> task_ids mf \<longrightarrow> t \<in> set A')"
proof (cases "t \<in> task_ids mf")
  case True
  from walk_collects [OF assms(1-3) True assms(4,5)] True compile_tasks(1) [OF assms(1)] show ?thesis by auto
next
  case False
  with assms(5) compile_tasks(1) [OF assms(1)] show ?thesis by auto
qed

lemma node_step:
  assumes ok: "change_ok before' after' bg ag" and n: "n \<in> task_ids before' \<union> task_ids after'"
    and A: "collecting before' after' A"
  shows "\<exists>A'. affected_by_node before' after' bg ag n A = Inr A' \<and> collecting before' after' A' \<and> set A \<subseteq> set A' \<and>
    (map_get (map_by mn_id (mf_nodes before')) n \<noteq> map_get (map_by mn_id (mf_nodes after')) n \<longrightarrow> n \<in> set A')"
proof (cases "map_get (map_by mn_id (mf_nodes before')) n = map_get (map_by mn_id (mf_nodes after')) n")
  case True
  with A show ?thesis by (auto simp: affected_by_node_def)
next
  case False
  have t: "n \<in> changed_tasks before' after'" using False n by (simp add: changed_tasks_def)
  have o: "compileTaskGraph before' = Inr bg" "compileTaskGraph after' = Inr ag" "[] \<notin> task_ids before'" "[] \<notin> task_ids after'"
    using ok by (simp_all add: change_ok_def)
  from walk_if [OF o(1) disjI1 [OF refl] o(3) t A] obtain A1 where
    A1: "(if map_has (tasksById bg) n then addTaskDependents bg n A else Inr A) = Inr A1" "collecting before' after' A1"
      "set A \<subseteq> set A1" "n \<in> task_ids before' \<longrightarrow> n \<in> set A1" by blast
  from walk_if [OF o(2) disjI2 [OF refl] o(4) t A1(2)] obtain A2 where
    A2: "(if map_has (tasksById ag) n then addTaskDependents ag n A1 else Inr A1) = Inr A2" "collecting before' after' A2"
      "set A1 \<subseteq> set A2" "n \<in> task_ids after' \<longrightarrow> n \<in> set A2" by blast
  have "\<not> (\<not> map_has (tasksById bg) n \<and> \<not> map_has (tasksById ag) n)"
    using n compile_tasks(1) [OF o(1)] compile_tasks(1) [OF o(2)] by auto
  then have "affected_by_node before' after' bg ag n A = Inr A2"
    unfolding affected_by_node_def using False by (simp only: A1(1) A2(1) try_bind_simps if_False)
  with A1 A2 n show ?thesis by auto
qed

lemma edge_steps_collect:
  assumes ok: "change_ok before' after' bg ag" and e: "(e \<in> set (mf_edges before')) \<noteq> (e \<in> set (mf_edges after'))"
    and A: "collecting before' after' A"
  shows "\<exists>A'. edge_steps bg ag e A = Inr A' \<and> collecting before' after' A' \<and> set A \<subseteq> set A' \<and>
    (me_from e \<in> task_ids before' \<union> task_ids after' \<longrightarrow> me_from e \<in> set A')"
proof (cases "me_from e \<in> task_ids before' \<union> task_ids after'")
  case True
  have t: "me_from e \<in> changed_tasks before' after'" using True e by (auto simp: changed_tasks_def)
  have o: "compileTaskGraph before' = Inr bg" "compileTaskGraph after' = Inr ag" "[] \<notin> task_ids before'" "[] \<notin> task_ids after'"
    using ok by (simp_all add: change_ok_def)
  from walk_if [OF o(1) disjI1 [OF refl] o(3) t A] obtain A1 where
    A1: "affectedTaskIdsForEdge e bg A = Inr A1" "collecting before' after' A1" "set A \<subseteq> set A1"
      "me_from e \<in> task_ids before' \<longrightarrow> me_from e \<in> set A1"
    by (cases "me_type e") (auto simp: affectedTaskIdsForEdge_def)
  from walk_if [OF o(2) disjI2 [OF refl] o(4) t A1(2)] obtain A2 where
    A2: "affectedTaskIdsForEdge e ag A1 = Inr A2" "collecting before' after' A2" "set A1 \<subseteq> set A2"
      "me_from e \<in> task_ids after' \<longrightarrow> me_from e \<in> set A2"
    by (cases "me_type e") (auto simp: affectedTaskIdsForEdge_def)
  from A1 A2 True show ?thesis by (auto simp: edge_steps_def)
next
  case False
  then have "edge_steps bg ag e A = Inr A"
    using ok compile_tasks(1) by (cases "me_type e") (auto simp: edge_steps_def affectedTaskIdsForEdge_def change_ok_def)
  with A False show ?thesis by auto
qed

lemma edge_key_step:
  assumes ok: "change_ok before' after' bg ag" and A: "collecting before' after' A"
  shows "\<exists>A'. affected_by_edge before' after' bg ag k A = Inr A' \<and> collecting before' after' A' \<and> set A \<subseteq> set A' \<and>
    (\<forall>e. edgeKey e = k \<and> (e \<in> set (mf_edges before')) \<noteq> (e \<in> set (mf_edges after')) \<and>
       me_from e \<in> task_ids before' \<union> task_ids after' \<longrightarrow> me_from e \<in> set A')"
proof -
  have inj: "e = e'" if "edgeKey e = edgeKey e'" "e \<in> set (mf_edges before') \<union> set (mf_edges after')"
    "e' \<in> set (mf_edges before') \<union> set (mf_edges after')" for e e'
    using ok that by (auto simp: change_ok_def keys_apart_def dest: inj_onD)
  let ?b = "map_get (map_by edgeKey (mf_edges before')) k" and ?a = "map_get (map_by edgeKey (mf_edges after')) k"
  have has: "e \<in> set es \<Longrightarrow> edgeKey e = k \<Longrightarrow> map_get (map_by edgeKey es) k \<noteq> None" for e es
    using map_by_has [of edgeKey es k] by (auto simp: map_has_get)
  have one: "\<exists>A'. edge_steps bg ag e A = Inr A' \<and> collecting before' after' A' \<and> set A \<subseteq> set A' \<and>
    (\<forall>e. edgeKey e = k \<and> (e \<in> set (mf_edges before')) \<noteq> (e \<in> set (mf_edges after')) \<and>
       me_from e \<in> task_ids before' \<union> task_ids after' \<longrightarrow> me_from e \<in> set A')"
    if e: "(e \<in> set (mf_edges before')) \<noteq> (e \<in> set (mf_edges after'))" "edgeKey e = k" for e
  proof -
    have "e' = e" if "edgeKey e' = k" "e' \<in> set (mf_edges before') \<or> e' \<in> set (mf_edges after')" for e'
      using inj [of e' e] that e by auto
    with edge_steps_collect [OF ok e(1) A] show ?thesis by blast
  qed
  show ?thesis
  proof (cases ?b)
    case None
    show ?thesis
    proof (cases ?a)
      case None': None
      with None A has show ?thesis by (fastforce simp: affected_by_edge_def)
    next
      case (Some e)
      from map_by_Some [OF Some] None has have "(e \<in> set (mf_edges before')) \<noteq> (e \<in> set (mf_edges after'))" "edgeKey e = k"
        by blast+
      from one [OF this] None Some show ?thesis by (simp add: affected_by_edge_def)
    qed
  next
    case (Some e)
    note m = map_by_Some [OF Some]
    show ?thesis
    proof (cases ?a)
      case None
      from m None has have "(e \<in> set (mf_edges before')) \<noteq> (e \<in> set (mf_edges after'))" "edgeKey e = k" by blast+
      from one [OF this] None Some show ?thesis by (simp add: affected_by_edge_def)
    next
      case (Some e')
      with map_by_Some [OF Some] m inj have "e' = e" by (metis UnI1 UnI2)
      with map_by_Some [OF Some] m inj have "\<not> (e'' \<in> set (mf_edges before')) \<noteq> (e'' \<in> set (mf_edges after'))"
        if "edgeKey e'' = k" for e'' using that by (metis UnI1 UnI2)
      with \<open>?b = Some e\<close> Some A show ?thesis by (auto simp: affected_by_edge_def)
    qed
  qed
qed

lemma collected_all:
  assumes A: "collecting before' after' A" and c: "changed_tasks before' after' \<subseteq> set A"
  shows "set A = impact before' after'"
proof
  show "set A \<subseteq> impact before' after'" using A by (simp add: collecting_def)
  have both: "y \<in> set A" if x: "x \<in> set A" and yx: "(y, x) \<in> depends_relation m" and m: "{m, m'} = {before', after'}" for x y m m'
  proof -
    from A x m have "settled_in m (set A) x \<or> settled_in m' (set A) x" by (auto simp: collecting_def doubleton_eq_iff)
    then show ?thesis
    proof
      assume "settled_in m (set A) x"
      with yx show ?thesis by (auto simp: settled_in_def)
    next
      assume s: "settled_in m' (set A) x"
      show ?thesis
      proof (rule ccontr)
        assume y: "y \<notin> set A"
        with s have n: "(y, x) \<notin> depends_relation m'" "x \<in> task_ids m'" by (auto simp: settled_in_def)
        from y c have "y \<notin> changed_tasks before' after'" by blast
        moreover have "y \<in> task_ids m" using depends_ids [OF yx] by blast
        ultimately have same: "map_get (map_by mn_id (mf_nodes m)) y = map_get (map_by mn_id (mf_nodes m')) y"
          "\<And>e. me_from e = y \<Longrightarrow> e \<in> set (mf_edges m) \<longleftrightarrow> e \<in> set (mf_edges m')"
          using m unfolding changed_tasks_def doubleton_eq_iff by auto
        have "y \<in> task_ids m'"
          using same(1) \<open>y \<in> task_ids m\<close> map_by_has [of mn_id "mf_nodes m" y] map_by_has [of mn_id "mf_nodes m'" y]
          by (simp add: task_ids_def map_has_get)
        from yx obtain e where e: "e \<in> set (mf_edges m)" "me_from e = y" "me_to e = x"
          by (auto simp: depends_relation_def declared_edges_def)
        with same(2) \<open>y \<in> task_ids m'\<close> n(2) have "e \<in> set (declared_edges m')"
          by (simp add: declared_edges_def task_ids_def)
        with e n(1) show False by (force simp: depends_relation_def)
      qed
    qed
  qed
  have "t \<in> set A" if "(t, s) \<in> (depends_relation before' \<union> depends_relation after')\<^sup>*" "s \<in> set A" for t s
    using that by (induction rule: converse_rtrancl_induct) (use both in \<open>blast+\<close>)
  with c show "impact before' after' \<subseteq> set A" by (auto simp: impact_def)
qed

definition node_differs :: "manifest \<Rightarrow> manifest \<Rightarrow> string \<Rightarrow> bool" where
  "node_differs before' after' n \<longleftrightarrow>
     map_get (map_by mn_id (mf_nodes before')) n \<noteq> map_get (map_by mn_id (mf_nodes after')) n"

definition edge_differs :: "manifest \<Rightarrow> manifest \<Rightarrow> manifest_edge \<Rightarrow> bool" where
  "edge_differs before' after' e \<longleftrightarrow> (e \<in> set (mf_edges before')) \<noteq> (e \<in> set (mf_edges after')) \<and>
     me_from e \<in> task_ids before' \<union> task_ids after'"

lemma nodes_collect:
  assumes "change_ok before' after' bg ag" and "set ns \<subseteq> task_ids before' \<union> task_ids after'" and "collecting before' after' A0"
  shows "\<exists>A. for_res (affected_by_node before' after' bg ag) ns A0 = Inr A \<and> collecting before' after' A \<and>
    (\<forall>n \<in> set ns. node_differs before' after' n \<longrightarrow> n \<in> set A)"
proof -
  let ?I = "\<lambda>N A. collecting before' after' A \<and> (\<forall>n \<in> N. node_differs before' after' n \<longrightarrow> n \<in> set A)"
  have "?I {} A0" using assms(3) by simp
  moreover have "\<exists>A'. affected_by_node before' after' bg ag n A = Inr A' \<and> ?I (insert n N) A'"
    if n: "n \<in> set ns" and I: "?I N A" for n N A
    using node_step [OF assms(1), of n A] assms(2) n I unfolding node_differs_def by blast
  ultimately have "\<exists>A. for_res (affected_by_node before' after' bg ag) ns A0 = Inr A \<and> ?I ({} \<union> set ns) A"
    by (rule for_res_total_progress)
  then show ?thesis by simp
qed

lemma edges_collect:
  assumes "change_ok before' after' bg ag" and "collecting before' after' A0"
  shows "\<exists>A. for_res (affected_by_edge before' after' bg ag) ks A0 = Inr A \<and> collecting before' after' A \<and> set A0 \<subseteq> set A \<and>
    (\<forall>e. edgeKey e \<in> set ks \<and> edge_differs before' after' e \<longrightarrow> me_from e \<in> set A)"
proof -
  let ?I = "\<lambda>K A. collecting before' after' A \<and> set A0 \<subseteq> set A \<and>
    (\<forall>e. edgeKey e \<in> K \<and> edge_differs before' after' e \<longrightarrow> me_from e \<in> set A)"
  have "?I {} A0" using assms(2) by simp
  moreover have "\<exists>A'. affected_by_edge before' after' bg ag k A = Inr A' \<and> ?I (insert k K) A'" if I: "?I K A" for k K A
    using edge_key_step [OF assms(1), of A k] I unfolding edge_differs_def by blast
  ultimately have "\<exists>A. for_res (affected_by_edge before' after' bg ag) ks A0 = Inr A \<and> ?I ({} \<union> set ks) A"
    by (rule for_res_total_progress)
  then show ?thesis by simp
qed

lemma affected_exact:
  assumes "change_ok before' after' bg ag"
  shows "\<exists>A. affectedTaskIdsForManifestChange before' after' bg ag = Inr A \<and> affectedTasks before' after' = Inr A \<and>
    set A = impact before' after'"
proof -
  let ?ns = "js_dedup (map_keys (map_by mn_id (mf_nodes before')) @ map_keys (map_by mn_id (mf_nodes after')))"
  let ?ks = "js_dedup (map_keys (map_by edgeKey (mf_edges before')) @ map_keys (map_by edgeKey (mf_edges after')))"
  have ns: "set ?ns = task_ids before' \<union> task_ids after'" by (auto simp: map_by_has task_ids_def)
  have "collecting before' after' []" by (simp add: collecting_def)
  from nodes_collect [OF assms _ this, of ?ns] ns obtain A1 where
    A1: "for_res (affected_by_node before' after' bg ag) ?ns [] = Inr A1" "collecting before' after' A1"
      "\<forall>n \<in> task_ids before' \<union> task_ids after'. node_differs before' after' n \<longrightarrow> n \<in> set A1" by auto
  from edges_collect [OF assms A1(2), of ?ks] obtain A2 where
    A2: "for_res (affected_by_edge before' after' bg ag) ?ks A1 = Inr A2" "collecting before' after' A2" "set A1 \<subseteq> set A2"
      "\<forall>e. edgeKey e \<in> set ?ks \<and> edge_differs before' after' e \<longrightarrow> me_from e \<in> set A2" by blast
  have "changed_tasks before' after' \<subseteq> set A2"
  proof
    fix t
    assume t: "t \<in> changed_tasks before' after'"
    then consider "t \<in> task_ids before' \<union> task_ids after'" "node_differs before' after' t"
      | e where "me_from e = t" "edge_differs before' after' e" "e \<in> set (mf_edges before') \<union> set (mf_edges after')"
      unfolding changed_tasks_def node_differs_def edge_differs_def by blast
    then show "t \<in> set A2" using A1(3) A2(3,4) by cases (auto simp: map_by_has)
  qed
  note all = collected_all [OF A2(2) this]
  have "x \<in> task_ids before' \<union> task_ids after'" if "x \<in> set A2" for x
    using A2(2) that by (auto simp: collecting_def settled_in_def)
  moreover have o: "compileTaskGraph before' = Inr bg" "compileTaskGraph after' = Inr ag" using assms by (simp_all add: change_ok_def)
  ultimately have "filter (\<lambda>t. map_has (tasksById bg) t \<or> map_has (tasksById ag) t) A2 = A2"
    using compile_tasks(1) [OF o(1)] compile_tasks(1) [OF o(2)] by (auto simp: filter_id_conv)
  with A1(1) A2(1) all o show ?thesis
    by (simp add: affectedTaskIdsForManifestChange_def affectedTasks_def)
qed

text \<open>C7: the tasks that a change of the manifest affects are computed exactly. Whenever both
  manifests compile, the code returns, and it collects precisely the tasks that depend, directly or through other
  tasks, before or after the change, on a task whose node changed or whose dependencies changed; although all walks
  share one set and stop at what an earlier walk in the other graph has met.\<close>

theorem affected_tasks_exact:
  assumes "change_ok before' after' bg ag"
  shows "\<exists>A. affectedTaskIdsForManifestChange before' after' bg ag = Inr A \<and> affectedTasks before' after' = Inr A \<and>
    set A = impact before' after'"
  using assms by (rule affected_exact)

section \<open>Witness\<close>

text \<open>The edge between the two tasks of the sample is removed: the task it started from is affected.\<close>

lemma affected_tasks_exact_witness:
  "\<exists>A. affectedTasks sample_manifest (sample_manifest\<lparr>mf_edges := []\<rparr>) = Inr A \<and>
     set A = impact sample_manifest (sample_manifest\<lparr>mf_edges := []\<rparr>) \<and> ''T2'' \<in> set A"
proof -
  let ?after = "sample_manifest\<lparr>mf_edges := []\<rparr>"
  have "res_holds (\<lambda>_. True) (compileTaskGraph sample_manifest)" "res_holds (\<lambda>_. True) (compileTaskGraph ?after)"
    by code_simp+
  then obtain bg ag where g: "compileTaskGraph sample_manifest = Inr bg" "compileTaskGraph ?after = Inr ag"
    by (elim res_holdsE) blast
  have "change_ok sample_manifest ?after bg ag"
    unfolding change_ok_def using g by (simp add: task_ids_def keys_apart_def sample_manifest_def)
  from affected_tasks_exact [OF this] obtain A where
    A: "affectedTasks sample_manifest ?after = Inr A" "set A = impact sample_manifest ?after" by blast
  have "''T2'' \<in> changed_tasks sample_manifest ?after" by (auto simp: changed_tasks_def task_ids_def sample_manifest_def)
  then have "''T2'' \<in> set A" using A(2) by (auto simp: impact_def)
  with A show ?thesis by blast
qed

end
