(* ===== verification/Package_Files.thy ===== *)
theory Package_Files
  imports Plan_Model "HOL-Library.Sublist"
begin

text \<open>
  The files of a plan package and edits of them that are rolled back: \<^verbatim>\<open>package/resolvePackagePath.ts\<close> and the
  side effects of a graph mutation in \<^verbatim>\<open>graph/editGraph.ts\<close>.

  A path is the list of its segments. A package is the map from the paths of its files to their contents; a
  directory is a proper prefix of the path of a file, so empty directories are not represented. The content of
  \<^verbatim>\<open>manifest.json\<close> is the manifest it holds. What the file system answers beyond that (where symbolic links
  lead, which operations fail, what a failed write leaves) is an argument. The backups are restored one after
  the other; the code starts them together.
\<close>

section \<open>Paths\<close>

type_synonym path = "string list"

fun split_slash :: "string \<Rightarrow> string list" where
  "split_slash [] = [[]]"
| "split_slash (c # cs) =
     (if c = CHR ''/'' then [] # split_slash cs
      else case split_slash cs of [] \<Rightarrow> [[c]] | w # ws \<Rightarrow> (c # w) # ws)"

fun join_slash :: "string list \<Rightarrow> string" where
  "join_slash [] = []"
| "join_slash [w] = w"
| "join_slash (w # ws) = w @ ''/'' @ join_slash ws"

text \<open>\<^verbatim>\<open>resolve(root, packagePath)\<close>, \<^verbatim>\<open>isAbsolute\<close> and \<^verbatim>\<open>relative(root, candidate)\<close> of \<^verbatim>\<open>node:path\<close> on POSIX.\<close>

definition resolve_step :: "string \<Rightarrow> path \<Rightarrow> path" where
  "resolve_step seg p = (if seg = [] \<or> seg = ''.'' then p else if seg = ''..'' then butlast p else p @ [seg])"

definition resolve_path :: "path \<Rightarrow> string \<Rightarrow> path" where
  "resolve_path root s = fold resolve_step (split_slash s) root"

definition is_absolute :: "string \<Rightarrow> bool" where
  "is_absolute s \<longleftrightarrow> take 1 s = ''/''"

fun strip_common :: "path \<Rightarrow> path \<Rightarrow> path \<times> path" where
  "strip_common (a # as) (b # bs) = (if a = b then strip_common as bs else (a # as, b # bs))"
| "strip_common as bs = (as, bs)"

definition relative_path :: "path \<Rightarrow> path \<Rightarrow> string" where
  "relative_path from to = (let (up, down) = strip_common from to in join_slash (replicate (length up) ''..'' @ down))"

definition assertContained :: "path \<Rightarrow> path \<Rightarrow> string \<Rightarrow> unit res" where
  "assertContained root candidate packagePath =
     (let rel = relative_path root candidate
      in if rel = [] \<or> (take 2 rel \<noteq> ''..'' \<and> \<not> is_absolute rel) then Inr ()
         else Inl (PackagePathOutside packagePath))"

section \<open>The file system\<close>

datatype file_content = Markdown string | ManifestJson manifest

type_synonym package = "(path, file_content) js_map"

datatype real_result = RealPath path | NoSuchPath | RealPathError

datatype fs_operation =
    MakeTemporary | Lstat path | ReadFile path | CopyTree path | WriteFile path | RemoveFile path | RemoveTree path

record file_system =
  fs_root :: path
  fs_real :: "package \<Rightarrow> path \<Rightarrow> real_result"
  fs_fails :: "fs_operation \<Rightarrow> package \<Rightarrow> bool"
  fs_partial :: "path \<Rightarrow> file_content option"

definition manifest_path :: "file_system \<Rightarrow> path" where
  "manifest_path fs = fs_root fs @ [''manifest.json'']"

function realpathNearestExistingParent :: "(path \<Rightarrow> real_result) \<Rightarrow> path \<Rightarrow> path res" where
  "realpathNearestExistingParent real current =
     (case real current of
        RealPath p \<Rightarrow> Inr p
      | RealPathError \<Rightarrow> Inl (FileSystemError ''realpath'')
      | NoSuchPath \<Rightarrow>
          if current = [] then Inl (FileSystemError ''realpath'')
          else realpathNearestExistingParent real (butlast current))"
  by pat_completeness auto
termination
  by (relation "measure (\<lambda>(real, current). length current)") auto

declare realpathNearestExistingParent.simps [simp del]

definition resolvePackagePath :: "file_system \<Rightarrow> package \<Rightarrow> string \<Rightarrow> bool \<Rightarrow> path res" where
  "resolvePackagePath fs pk packagePath forWrite =
     (if is_absolute packagePath then Inl (PackagePathOutside packagePath)
      else let candidate = resolve_path (fs_root fs) packagePath
           in try_bind (assertContained (fs_root fs) candidate packagePath) (\<lambda>_.
              case fs_real fs pk (fs_root fs) of
                RealPath realRoot \<Rightarrow>
                  (case fs_real fs pk candidate of
                     RealPath realCandidate \<Rightarrow>
                       try_bind (assertContained realRoot realCandidate packagePath) (\<lambda>_. Inr candidate)
                   | RealPathError \<Rightarrow> Inl (FileSystemError ''realpath'')
                   | NoSuchPath \<Rightarrow>
                       if forWrite
                       then try_bind (realpathNearestExistingParent (fs_real fs pk) (butlast candidate)) (\<lambda>realParent.
                            try_bind (assertContained realRoot realParent packagePath) (\<lambda>_. Inr candidate))
                       else Inr candidate)
              | _ \<Rightarrow> Inl (FileSystemError ''realpath'')))"

text \<open>Files and directories, and the operations on them.\<close>

definition is_directory :: "package \<Rightarrow> path \<Rightarrow> bool" where
  "is_directory pk p \<longleftrightarrow> list_ex (\<lambda>q. strict_prefix p q) (map_keys pk)"

definition below_file :: "package \<Rightarrow> path \<Rightarrow> bool" where
  "below_file pk p \<longleftrightarrow> list_ex (\<lambda>q. strict_prefix q p) (map_keys pk)"

definition files_below :: "package \<Rightarrow> path \<Rightarrow> package" where
  "files_below pk p = filter (\<lambda>e. prefix p (fst e)) pk"

definition drop_tree :: "path \<Rightarrow> package \<Rightarrow> package" where
  "drop_tree p pk = filter (\<lambda>e. \<not> prefix p (fst e)) pk"

type_synonym 'a edit = "package \<Rightarrow> 'a res \<times> package"

definition edit_bind :: "'a edit \<Rightarrow> ('a \<Rightarrow> 'b edit) \<Rightarrow> 'b edit" where
  "edit_bind c k pk = (case c pk of (Inl e, pk') \<Rightarrow> (Inl e, pk') | (Inr x, pk') \<Rightarrow> k x pk')"

definition write_file :: "file_system \<Rightarrow> path \<Rightarrow> file_content \<Rightarrow> unit edit" where
  "write_file fs p content pk =
     (if is_directory pk p \<or> below_file pk p then (Inl (FileSystemError ''write''), pk)
      else if fs_fails fs (WriteFile p) pk
      then (Inl (FileSystemError ''write''), case fs_partial fs p of None \<Rightarrow> pk | Some c \<Rightarrow> map_set pk p c)
      else (Inr (), map_set pk p content))"

definition remove_file :: "file_system \<Rightarrow> path \<Rightarrow> unit edit" where
  "remove_file fs p pk =
     (if is_directory pk p \<or> below_file pk p \<or> fs_fails fs (RemoveFile p) pk then (Inl (FileSystemError ''rm''), pk)
      else (Inr (), map_delete pk p))"

definition remove_tree :: "file_system \<Rightarrow> path \<Rightarrow> unit edit" where
  "remove_tree fs p pk =
     (if fs_fails fs (RemoveTree p) pk then (Inl (FileSystemError ''rm''), pk) else (Inr (), drop_tree p pk))"

text \<open>\<^verbatim>\<open>writeJsonFile\<close> writes beside the file and renames: it replaces the file or leaves it.\<close>

definition write_manifest :: "file_system \<Rightarrow> manifest \<Rightarrow> unit edit" where
  "write_manifest fs mf pk =
     (if is_directory pk (manifest_path fs) \<or> below_file pk (manifest_path fs) \<or> fs_fails fs (WriteFile (manifest_path fs)) pk
      then (Inl (FileSystemError ''write''), pk)
      else (Inr (), map_set pk (manifest_path fs) (ManifestJson mf)))"

section \<open>Side effects with rollback\<close>

datatype side_effect =
    WritePrompt (se_packagePath: string) (se_markdown: string)
  | RemovePrompt (se_packagePath: string)
  | RemoveTaskDirectory (se_packagePath: string)

datatype side_effect_backup =
    AbsentBackup path
  | FileBackup path file_content
  | DirectoryBackup path package

fun backup_path :: "side_effect_backup \<Rightarrow> path" where
  "backup_path (AbsentBackup p) = p"
| "backup_path (FileBackup p c) = p"
| "backup_path (DirectoryBackup p fs) = p"

definition sideEffectTargetPath :: "file_system \<Rightarrow> package \<Rightarrow> side_effect \<Rightarrow> path res" where
  "sideEffectTargetPath fs pk eff =
     resolvePackagePath fs pk (se_packagePath eff) (case eff of WritePrompt _ _ \<Rightarrow> True | _ \<Rightarrow> False)"

definition backupSideEffectTarget :: "file_system \<Rightarrow> package \<Rightarrow> path \<Rightarrow> side_effect_backup res" where
  "backupSideEffectTarget fs pk p =
     (if below_file pk p \<or> fs_fails fs (Lstat p) pk then Inl (FileSystemError ''lstat'')
      else if is_directory pk p
      then if fs_fails fs (CopyTree p) pk then Inl (FileSystemError ''cp'') else Inr (DirectoryBackup p (files_below pk p))
      else case map_get pk p of
             None \<Rightarrow> Inr (AbsentBackup p)
           | Some c \<Rightarrow> if fs_fails fs (ReadFile p) pk then Inl (FileSystemError ''read'') else Inr (FileBackup p c))"

fun restoreSideEffectBackup :: "file_system \<Rightarrow> side_effect_backup \<Rightarrow> unit edit" where
  "restoreSideEffectBackup fs (AbsentBackup p) pk = remove_tree fs p pk"
| "restoreSideEffectBackup fs (FileBackup p c) pk = write_file fs p c pk"
| "restoreSideEffectBackup fs (DirectoryBackup p saved) pk =
     edit_bind (remove_tree fs p) (\<lambda>_ pk.
       if below_file pk p \<or> fs_fails fs (CopyTree p) pk then (Inl (FileSystemError ''cp''), pk)
       else (Inr (), foldr (\<lambda>e m. map_set m (fst e) (snd e)) saved pk)) pk"

fun restore_all :: "file_system \<Rightarrow> side_effect_backup list \<Rightarrow> unit edit" where
  "restore_all fs [] pk = (Inr (), pk)"
| "restore_all fs (b # bs) pk = edit_bind (restoreSideEffectBackup fs b) (\<lambda>_. restore_all fs bs) pk"

definition apply_effect :: "file_system \<Rightarrow> side_effect \<Rightarrow> unit edit" where
  "apply_effect fs eff pk =
     (case sideEffectTargetPath fs pk eff of
        Inl e \<Rightarrow> (Inl e, pk)
      | Inr p \<Rightarrow>
          (case eff of
             WritePrompt _ markdown \<Rightarrow> write_file fs p (Markdown markdown) pk
           | RemoveTaskDirectory _ \<Rightarrow> remove_tree fs p pk
           | RemovePrompt _ \<Rightarrow> remove_file fs p pk))"

fun apply_effects :: "file_system \<Rightarrow> side_effect list \<Rightarrow> unit edit" where
  "apply_effects fs [] pk = (Inr (), pk)"
| "apply_effects fs (eff # effs) pk = edit_bind (apply_effect fs eff) (\<lambda>_. apply_effects fs effs) pk"

definition applyMutationSideEffectsWithRollback ::
  "file_system \<Rightarrow> side_effect list \<Rightarrow> manifest \<Rightarrow> unit edit" where
  "applyMutationSideEffectsWithRollback fs effs mf pk =
     (if effs = [] then write_manifest fs mf pk
      else if fs_fails fs MakeTemporary pk then (Inl (FileSystemError ''mkdtemp''), pk)
      else case map_res (sideEffectTargetPath fs pk) effs of
             Inl e \<Rightarrow> (Inl e, pk)
           | Inr targets \<Rightarrow>
               (case map_res (backupSideEffectTarget fs pk) (js_dedup targets) of
                  Inl e \<Rightarrow> (Inl e, pk)
                | Inr backups \<Rightarrow>
                    (case edit_bind (apply_effects fs effs) (\<lambda>_. write_manifest fs mf) pk of
                       (Inr u, pk') \<Rightarrow> (Inr u, pk')
                     | (Inl e, pk') \<Rightarrow>
                         (case restore_all fs backups pk' of
                            (Inr _, pk'') \<Rightarrow> (Inl e, pk'')
                          | (Inl _, pk'') \<Rightarrow> (Inl RollbackFailed, pk'')))))"

section \<open>Resolved paths stay inside the package\<close>

lemma strip_common_split: "strip_common a b = (u, d) \<Longrightarrow> \<exists>c. a = c @ u \<and> b = c @ d"
proof (induction a b rule: strip_common.induct)
  case (1 a as b bs)
  then show ?case by (auto split: if_splits)
qed auto

lemma join_dots: "take 2 (join_slash (''..'' # ws)) = ''..''"
  by (cases ws) auto

lemma contained_prefix:
  assumes "assertContained root candidate s = Inr u"
  shows "prefix root candidate"
proof -
  obtain up down where sc: "strip_common root candidate = (up, down)" by (rule prod.exhaust)
  have "up = []"
  proof (rule ccontr)
    assume "up \<noteq> []"
    then obtain n where "length up = Suc n" by (cases up) auto
    then have rel: "relative_path root candidate = join_slash (''..'' # (replicate n ''..'' @ down))"
      using sc by (simp add: relative_path_def)
    then have "take 2 (relative_path root candidate) = ''..''" using join_dots by simp
    with assms show False by (auto simp: assertContained_def Let_def split: if_splits)
  qed
  with strip_common_split [OF sc] show ?thesis by (auto simp: prefix_def)
qed

lemma resolve_Inr:
  assumes "resolvePackagePath fs pk s w = Inr p"
  shows "p = resolve_path (fs_root fs) s" and "prefix (fs_root fs) p"
proof -
  from assms obtain u where "assertContained (fs_root fs) (resolve_path (fs_root fs) s) s = Inr u"
    and p: "p = resolve_path (fs_root fs) s"
    by (auto simp: resolvePackagePath_def Let_def try_bind_eq_Inr split: if_splits real_result.splits)
  then show "p = resolve_path (fs_root fs) s" "prefix (fs_root fs) p" using contained_prefix by auto
qed

section \<open>What the operations touch\<close>

lemma map_get_filter: "map_get (filter (\<lambda>e. P (fst e)) m) k = (if P k then map_get m k else None)"
  unfolding map_get_def by (induction m) auto

lemma get_drop_tree [simp]: "map_get (drop_tree p pk) q = (if prefix p q then None else map_get pk q)"
  by (simp add: drop_tree_def map_get_filter [of "\<lambda>q. \<not> prefix p q"])

lemma get_files_below [simp]: "map_get (files_below pk p) q = (if prefix p q then map_get pk q else None)"
  by (simp add: files_below_def map_get_filter [of "prefix p"])

lemma is_directory_iff: "is_directory pk p \<longleftrightarrow> (\<exists>q. strict_prefix p q \<and> map_get pk q \<noteq> None)"
  by (auto simp: is_directory_def list_ex_iff map_has_get)

lemma below_file_iff: "below_file pk p \<longleftrightarrow> (\<exists>q. strict_prefix q p \<and> map_get pk q \<noteq> None)"
  by (auto simp: below_file_def list_ex_iff map_has_get)

text \<open>The state of the files while effects are applied: outside of the trees of the targets nothing has
  changed, and new files exist only at the targets.\<close>

definition touched_only :: "path set \<Rightarrow> package \<Rightarrow> package \<Rightarrow> bool" where
  "touched_only T orig pk \<longleftrightarrow> (\<forall>q. (\<forall>t \<in> T. \<not> prefix t q) \<longrightarrow> map_get pk q = map_get orig q) \<and>
     (\<forall>q. q \<notin> T \<and> map_get orig q = None \<longrightarrow> map_get pk q = None)"

lemma touched_refl: "touched_only T pk pk"
  by (simp add: touched_only_def)

lemma set_touches: "p \<in> T \<Longrightarrow> touched_only T orig pk \<Longrightarrow> touched_only T orig (map_set pk p c)"
  by (auto simp: touched_only_def js_map_simps)

lemma write_touches:
  "write_file fs p c pk = (r, pk') \<Longrightarrow> p \<in> T \<Longrightarrow> touched_only T orig pk \<Longrightarrow> touched_only T orig pk'"
  by (auto simp: write_file_def set_touches split: if_splits option.splits)

lemma remove_touches:
  "remove_file fs p pk = (r, pk') \<Longrightarrow> p \<in> T \<Longrightarrow> touched_only T orig pk \<Longrightarrow> touched_only T orig pk'"
  "remove_tree fs p pk = (r, pk') \<Longrightarrow> p \<in> T \<Longrightarrow> touched_only T orig pk \<Longrightarrow> touched_only T orig pk'"
  by (auto simp: remove_file_def remove_tree_def touched_only_def js_map_simps split: if_splits)

lemma apply_effect_touches:
  assumes "apply_effect fs eff pk = (r, pk')" and "resolve_path (fs_root fs) (se_packagePath eff) \<in> T" and "touched_only T orig pk"
  shows "touched_only T orig pk'"
proof (cases "sideEffectTargetPath fs pk eff")
  case (Inl e)
  with assms show ?thesis by (simp add: apply_effect_def)
next
  case (Inr p)
  then have "p \<in> T" using resolve_Inr(1) [of fs pk "se_packagePath eff"] assms(2) by (auto simp: sideEffectTargetPath_def)
  with assms(1,3) Inr write_touches remove_touches show ?thesis
    by (cases eff) (auto simp: apply_effect_def)
qed

lemma apply_effects_touch:
  "apply_effects fs effs pk = (r, pk') \<Longrightarrow> (\<lambda>e. resolve_path (fs_root fs) (se_packagePath e)) ` set effs \<subseteq> T \<Longrightarrow>
   touched_only T orig pk \<Longrightarrow> touched_only T orig pk'"
proof (induction effs arbitrary: pk)
  case (Cons eff effs)
  obtain r1 pk1 where 1: "apply_effect fs eff pk = (r1, pk1)" by (rule prod.exhaust)
  have t: "touched_only T orig pk1" using apply_effect_touches [OF 1] Cons.prems(2,3) by auto
  show ?case
  proof (cases r1)
    case (Inl e)
    with Cons.prems(1) 1 t show ?thesis by (simp add: edit_bind_def)
  next
    case (Inr u)
    with Cons.prems(1,2) 1 Cons.IH [OF _ _ t] show ?thesis by (simp add: edit_bind_def)
  qed
qed simp

section \<open>A failed edit leaves the files as they were\<close>

definition tree_shaped :: "package \<Rightarrow> bool" where
  "tree_shaped pk \<longleftrightarrow> (\<forall>p. map_get pk p \<noteq> None \<longrightarrow> \<not> is_directory pk p)"

lemma get_copied:
  "map_get (foldr (\<lambda>e m. map_set m (fst e) (snd e)) saved m) q = (case map_get saved q of None \<Rightarrow> map_get m q | Some c \<Rightarrow> Some c)"
  by (induction saved) (auto simp: js_map_simps map_get_def [of "_ # _"] simp flip: map_get_def)

lemma restore_one:
  assumes b: "backupSideEffectTarget fs orig p = Inr b" and T: "p \<in> T" "\<forall>t \<in> T. \<not> below_file orig t"
    and orig: "tree_shaped orig" and pk: "touched_only T orig pk" and run: "restoreSideEffectBackup fs b pk = (Inr u, pk')"
  shows "map_get pk' q = (if prefix p q then map_get orig q else map_get pk q)"
proof -
  have nodir: "map_get orig q = None" if "\<not> is_directory orig p" "strict_prefix p q" for q
    using that by (auto simp: is_directory_iff)
  from b consider "b = AbsentBackup p" "\<not> is_directory orig p" "map_get orig p = None"
    | c where "b = FileBackup p c" "\<not> is_directory orig p" "map_get orig p = Some c"
    | "b = DirectoryBackup p (files_below orig p)"
    by (auto simp: backupSideEffectTarget_def split: if_splits option.splits)
  then show ?thesis
  proof cases
    case 1
    with run nodir [of q] show ?thesis by (cases "p = q") (auto simp: remove_tree_def strict_prefix_def split: if_splits)
  next
    case 2
    have "map_get pk q = None" if "strict_prefix p q"
    proof -
      have "below_file orig q" using that 2(3) by (auto simp: below_file_iff)
      then have "q \<notin> T" using T(2) by blast
      with nodir [OF 2(2) that] pk show ?thesis by (simp add: touched_only_def)
    qed
    with run 2 nodir [of q] show ?thesis
      by (auto simp: write_file_def js_map_simps strict_prefix_def split: if_splits)
  next
    case 3
    with run show ?thesis
      by (auto simp: edit_bind_def remove_tree_def get_copied split: if_splits option.splits)
  qed
qed

text \<open>Restoring the backups of all targets.\<close>

definition undone :: "path set \<Rightarrow> path set \<Rightarrow> package \<Rightarrow> package \<Rightarrow> bool" where
  "undone S T orig pk \<longleftrightarrow> touched_only T orig pk \<and> (\<forall>t \<in> S. \<forall>q. prefix t q \<longrightarrow> map_get pk q = map_get orig q)"

lemma restore_undoes:
  assumes "backupSideEffectTarget fs orig p = Inr b" "p \<in> T" "\<forall>t \<in> T. \<not> below_file orig t" "tree_shaped orig"
    and un: "undone S T orig pk" and run: "restoreSideEffectBackup fs b pk = (Inr u, pk')"
  shows "undone (insert p S) T orig pk'"
proof -
  have "touched_only T orig pk" using un by (simp add: undone_def)
  note get = restore_one [OF assms(1-4) this run]
  show ?thesis using un by (auto simp: undone_def touched_only_def get)
qed

lemma restore_all_undoes:
  assumes "map_res (backupSideEffectTarget fs orig) ps = Inr bs" "set ps \<subseteq> T" "\<forall>t \<in> T. \<not> below_file orig t" "tree_shaped orig"
    and "undone S T orig pk" and "restore_all fs bs pk = (Inr u, pk')"
  shows "undone (S \<union> set ps) T orig pk'"
  using assms
proof (induction ps arbitrary: bs pk S)
  case (Cons p ps)
  from Cons.prems(1) obtain b bs' where b: "backupSideEffectTarget fs orig p = Inr b"
    "map_res (backupSideEffectTarget fs orig) ps = Inr bs'" "bs = b # bs'" by (auto simp: try_bind_eq_Inr)
  from Cons.prems(6) b(3) obtain v pk1 where r: "restoreSideEffectBackup fs b pk = (Inr v, pk1)" "restore_all fs bs' pk1 = (Inr u, pk')"
    by (auto simp: edit_bind_def split: prod.splits sum.splits)
  have "undone (insert p S) T orig pk1" using Cons.prems(2) by (intro restore_undoes [OF b(1) _ Cons.prems(3-5) r(1)]) simp
  from Cons.IH [OF b(2) _ Cons.prems(3,4) this r(2)] Cons.prems(2) show ?case by simp
qed simp

lemma write_manifest_Inl: "write_manifest fs mf pk = (Inl e, pk') \<Longrightarrow> pk' = pk"
  by (auto simp: write_manifest_def split: if_splits)

lemma targets_known:
  "map_res (sideEffectTargetPath fs pk) effs = Inr targets \<Longrightarrow>
   (\<lambda>e. resolve_path (fs_root fs) (se_packagePath e)) ` set effs = set targets \<and> (\<forall>t \<in> set targets. prefix (fs_root fs) t)"
proof (induction effs arbitrary: targets)
  case (Cons eff effs)
  then obtain p ps where p: "sideEffectTargetPath fs pk eff = Inr p" "map_res (sideEffectTargetPath fs pk) effs = Inr ps"
    "targets = p # ps" by (auto simp: try_bind_eq_Inr)
  have "p = resolve_path (fs_root fs) (se_packagePath eff)" "prefix (fs_root fs) p"
    using p(1) resolve_Inr by (auto simp: sideEffectTargetPath_def)
  with Cons.IH [OF p(2)] p(3) show ?case by simp
qed simp

lemma backups_not_below: "map_res (backupSideEffectTarget fs pk) ps = Inr bs \<Longrightarrow> t \<in> set ps \<Longrightarrow> \<not> below_file pk t"
  by (auto dest!: map_res_InrD simp: backupSideEffectTarget_def split: if_splits)

lemma effects_then_manifest:
  assumes "edit_bind (apply_effects fs effs) (\<lambda>_. write_manifest fs mf) pk = (Inl e, pk')"
    and "(\<lambda>e. resolve_path (fs_root fs) (se_packagePath e)) ` set effs \<subseteq> T"
  shows "touched_only T pk pk'"
proof -
  obtain r1 pk1 where 1: "apply_effects fs effs pk = (r1, pk1)" by (rule prod.exhaust)
  have "touched_only T pk pk1" by (rule apply_effects_touch [OF 1 assms(2) touched_refl])
  moreover have "pk' = pk1" using assms(1) 1 write_manifest_Inl by (cases r1) (auto simp: edit_bind_def)
  ultimately show ?thesis by simp
qed

lemma rollback_restores:
  assumes "applyMutationSideEffectsWithRollback fs effs mf pk = (Inl e, pk')" and "tree_shaped pk" and "e \<noteq> RollbackFailed"
  shows "map_get pk' q = map_get pk q"
proof (cases "effs = []")
  case True
  with assms(1) show ?thesis by (auto simp: applyMutationSideEffectsWithRollback_def dest: write_manifest_Inl)
next
  case False
  note run = assms(1) [unfolded applyMutationSideEffectsWithRollback_def]
  show ?thesis
  proof (cases "pk' = pk")
    case ne: False
    with run False obtain targets backups e1 pk1 where
      t: "map_res (sideEffectTargetPath fs pk) effs = Inr targets"
      and b: "map_res (backupSideEffectTarget fs pk) (js_dedup targets) = Inr backups"
      and a: "edit_bind (apply_effects fs effs) (\<lambda>_. write_manifest fs mf) pk = (Inl e1, pk1)"
      and r: "(case restore_all fs backups pk1 of (Inr _, pk'') \<Rightarrow> (Inl e1 :: unit res, pk'') | (Inl _, pk'') \<Rightarrow> (Inl RollbackFailed, pk'')) = (Inl e, pk')"
      by (auto split: if_splits sum.splits prod.splits)
    let ?T = "set targets"
    have to: "touched_only ?T pk pk1" using effects_then_manifest [OF a] targets_known [OF t] by blast
    from r assms(3) obtain u where ra: "restore_all fs backups pk1 = (Inr u, pk')"
      by (auto split: prod.splits sum.splits)
    have nb: "\<forall>t \<in> ?T. \<not> below_file pk t" using backups_not_below [OF b] by simp
    have un: "undone {} ?T pk pk1" using to by (simp add: undone_def)
    have "undone ({} \<union> set (js_dedup targets)) ?T pk pk'"
      by (rule restore_all_undoes [OF b _ nb assms(2) un ra]) simp
    then show ?thesis by (cases "\<exists>t \<in> ?T. prefix t q") (auto simp: undone_def touched_only_def)
  qed simp
qed

section \<open>Nothing outside of the package is touched\<close>

definition outside_kept :: "path \<Rightarrow> package \<Rightarrow> package \<Rightarrow> bool" where
  "outside_kept root pk pk' \<longleftrightarrow> (\<forall>q. \<not> prefix root q \<longrightarrow> map_get pk' q = map_get pk q)"

lemma outside_refl [simp]: "outside_kept root pk pk"
  by (simp add: outside_kept_def)

lemma outside_trans: "outside_kept root a b \<Longrightarrow> outside_kept root b c \<Longrightarrow> outside_kept root a c"
  by (simp add: outside_kept_def)

lemma operations_outside:
  assumes "prefix root p"
  shows "write_file fs p c pk = (r, pk') \<Longrightarrow> outside_kept root pk pk'"
    and "remove_file fs p pk = (r, pk') \<Longrightarrow> outside_kept root pk pk'"
    and "remove_tree fs p pk = (r, pk') \<Longrightarrow> outside_kept root pk pk'"
  using assms prefix_order.trans [of root p]
  by (auto simp: write_file_def remove_file_def remove_tree_def outside_kept_def js_map_simps split: if_splits option.splits)

lemma touched_outside: "touched_only T pk pk' \<Longrightarrow> \<forall>t \<in> T. prefix root t \<Longrightarrow> outside_kept root pk pk'"
  unfolding outside_kept_def touched_only_def by (meson prefix_order.trans)

lemma restore_outside:
  assumes "backupSideEffectTarget fs orig p = Inr b" and "prefix root p" and "restoreSideEffectBackup fs b pk = (r, pk')"
  shows "outside_kept root pk pk'"
proof -
  from assms(1) consider "b = AbsentBackup p" | c where "b = FileBackup p c" | "b = DirectoryBackup p (files_below orig p)"
    by (auto simp: backupSideEffectTarget_def split: if_splits option.splits)
  then show ?thesis
  proof cases
    case 3
    then show ?thesis using assms(2,3) prefix_order.trans [of root p]
      by (auto simp: edit_bind_def remove_tree_def outside_kept_def get_copied split: if_splits)
  qed (use assms(3) operations_outside [OF assms(2)] in auto)
qed

lemma restore_all_outside:
  assumes "map_res (backupSideEffectTarget fs orig) ps = Inr bs" "\<forall>p \<in> set ps. prefix root p" "restore_all fs bs pk = (r, pk')"
  shows "outside_kept root pk pk'"
  using assms
proof (induction ps arbitrary: bs pk)
  case (Cons p ps)
  from Cons.prems(1) obtain b bs' where b: "backupSideEffectTarget fs orig p = Inr b"
    "map_res (backupSideEffectTarget fs orig) ps = Inr bs'" "bs = b # bs'" by (auto simp: try_bind_eq_Inr)
  obtain r1 pk1 where 1: "restoreSideEffectBackup fs b pk = (r1, pk1)" by (rule prod.exhaust)
  have o: "outside_kept root pk pk1" using restore_outside [OF b(1) _ 1] Cons.prems(2) by simp
  show ?case
  proof (cases r1)
    case (Inl e)
    with Cons.prems(3) b(3) 1 o show ?thesis by (simp add: edit_bind_def)
  next
    case (Inr u)
    with Cons.prems(2,3) b(3) 1 Cons.IH [OF b(2)] outside_trans [OF o] show ?thesis by (simp add: edit_bind_def)
  qed
qed simp

lemma write_manifest_outside: "write_manifest fs mf pk = (r, pk') \<Longrightarrow> outside_kept (fs_root fs) pk pk'"
  by (auto simp: write_manifest_def outside_kept_def js_map_simps manifest_path_def split: if_splits)

lemma rollback_outside:
  assumes "applyMutationSideEffectsWithRollback fs effs mf pk = (r, pk')"
  shows "outside_kept (fs_root fs) pk pk'"
proof (cases "effs = [] \<or> pk' = pk")
  case True
  with assms show ?thesis by (auto simp: applyMutationSideEffectsWithRollback_def dest: write_manifest_outside)
next
  case False
  with assms obtain targets backups r1 pk1 where
    t: "map_res (sideEffectTargetPath fs pk) effs = Inr targets"
    and b: "map_res (backupSideEffectTarget fs pk) (js_dedup targets) = Inr backups"
    and a: "edit_bind (apply_effects fs effs) (\<lambda>_. write_manifest fs mf) pk = (r1, pk1)"
    and r: "pk' = pk1 \<or> (\<exists>r2. restore_all fs backups pk1 = (r2, pk'))"
    by (auto simp: applyMutationSideEffectsWithRollback_def split: if_splits sum.splits prod.splits)
  note tk = targets_known [OF t]
  obtain r0 pk0 where 0: "apply_effects fs effs pk = (r0, pk0)" by (rule prod.exhaust)
  have "touched_only (set targets) pk pk0" using apply_effects_touch [OF 0 _ touched_refl] tk by blast
  then have o: "outside_kept (fs_root fs) pk pk0" using tk by (blast intro: touched_outside)
  have "pk1 = pk0 \<or> outside_kept (fs_root fs) pk0 pk1"
    using a 0 write_manifest_outside by (cases r0) (auto simp: edit_bind_def)
  then have o1: "outside_kept (fs_root fs) pk pk1" using o outside_trans by blast
  from r show ?thesis
  proof
    assume "\<exists>r2. restore_all fs backups pk1 = (r2, pk')"
    then obtain r2 where "restore_all fs backups pk1 = (r2, pk')" ..
    from restore_all_outside [OF b _ this] tk have "outside_kept (fs_root fs) pk1 pk'" by simp
    with o1 show ?thesis by (rule outside_trans)
  qed (use o1 in simp)
qed

lemma rollback_Inr:
  assumes "applyMutationSideEffectsWithRollback fs effs mf pk = (Inr u, pk')"
  shows "map_get pk' (manifest_path fs) = Some (ManifestJson mf)"
    and "\<exists>pk1. apply_effects fs effs pk = (Inr (), pk1) \<and> pk' = map_set pk1 (manifest_path fs) (ManifestJson mf)"
proof -
  have w: "pk2 = map_set pk1 (manifest_path fs) (ManifestJson mf)" if "write_manifest fs mf pk1 = (Inr v, pk2)" for pk1 pk2 v
    using that by (auto simp: write_manifest_def split: if_splits)
  from assms show "\<exists>pk1. apply_effects fs effs pk = (Inr (), pk1) \<and> pk' = map_set pk1 (manifest_path fs) (ManifestJson mf)"
    by (auto simp: applyMutationSideEffectsWithRollback_def edit_bind_def dest: w split: if_splits sum.splits prod.splits)
  then show "map_get pk' (manifest_path fs) = Some (ManifestJson mf)" by (auto simp: js_map_simps)
qed

section \<open>Files and directories stay apart\<close>

lemma tree_shaped_iff: "tree_shaped pk \<longleftrightarrow> (\<forall>p q. strict_prefix p q \<and> map_get pk p \<noteq> None \<longrightarrow> map_get pk q = None)"
  by (auto simp: tree_shaped_def is_directory_iff)

lemma tree_shaped_same: "\<forall>q. map_get pk' q = map_get pk q \<Longrightarrow> tree_shaped pk \<Longrightarrow> tree_shaped pk'"
  by (simp add: tree_shaped_iff)

lemma tree_shaped_set:
  assumes "tree_shaped pk" and "\<not> is_directory pk p" and "\<not> below_file pk p"
  shows "tree_shaped (map_set pk p c)"
  using assms by (auto simp: tree_shaped_iff is_directory_iff below_file_iff js_map_simps)

lemma operations_tree:
  assumes "tree_shaped pk"
  shows "write_file fs p c pk = (r, pk') \<Longrightarrow> tree_shaped pk'"
    and "remove_file fs p pk = (r, pk') \<Longrightarrow> tree_shaped pk'"
    and "remove_tree fs p pk = (r, pk') \<Longrightarrow> tree_shaped pk'"
    and "write_manifest fs mf pk = (r, pk') \<Longrightarrow> tree_shaped pk'"
proof -
  have delete: "tree_shaped (map_delete pk p)" "tree_shaped (drop_tree p pk)" for p
    using assms by (auto simp: tree_shaped_iff js_map_simps)
  note [simp] = tree_shaped_set [OF assms] delete
  show "write_file fs p c pk = (r, pk') \<Longrightarrow> tree_shaped pk'" "remove_file fs p pk = (r, pk') \<Longrightarrow> tree_shaped pk'"
    "remove_tree fs p pk = (r, pk') \<Longrightarrow> tree_shaped pk'" "write_manifest fs mf pk = (r, pk') \<Longrightarrow> tree_shaped pk'"
    using assms by (auto simp: write_file_def remove_file_def remove_tree_def write_manifest_def split: if_splits option.splits)
qed

lemma apply_effects_tree:
  "apply_effects fs effs pk = (r, pk') \<Longrightarrow> tree_shaped pk \<Longrightarrow> tree_shaped pk'"
proof (induction effs arbitrary: pk)
  case (Cons eff effs)
  obtain r1 pk1 where 1: "apply_effect fs eff pk = (r1, pk1)" by (rule prod.exhaust)
  have "tree_shaped pk1"
    using 1 Cons.prems(2) operations_tree [OF Cons.prems(2)]
    by (auto simp: apply_effect_def split: sum.splits side_effect.splits)
  with Cons.prems(1) 1 Cons.IH show ?case by (cases r1) (auto simp: edit_bind_def)
qed simp

lemma rollback_tree:
  assumes "applyMutationSideEffectsWithRollback fs effs mf pk = (r, pk')" and "tree_shaped pk" and "r \<noteq> Inl RollbackFailed"
  shows "tree_shaped pk'"
proof (cases r)
  case (Inl e)
  with assms rollback_restores have "\<forall>q. map_get pk' q = map_get pk q" by blast
  with assms(2) show ?thesis by (rule tree_shaped_same [rotated])
next
  case (Inr u)
  show ?thesis
  proof (cases "effs = []")
    case True
    with assms(1,2) operations_tree(4) show ?thesis by (auto simp: applyMutationSideEffectsWithRollback_def)
  next
    case False
    with assms(1) Inr obtain pk1 where "apply_effects fs effs pk = (Inr (), pk1)" "write_manifest fs mf pk1 = (Inr u, pk')"
      by (auto simp: applyMutationSideEffectsWithRollback_def edit_bind_def split: if_splits sum.splits prod.splits)
    with assms(2) apply_effects_tree operations_tree(4) show ?thesis by blast
  qed
qed

end
