(* ===== verification/Graph_Edit.thy ===== *)
theory Graph_Edit
  imports Manifest_Schema Affected_Tasks Package_Files
begin

text \<open>
  Edits of the plan: \<^verbatim>\<open>graph/mutation.ts\<close> (from an intent to the next manifest and the files to write or
  remove), \<^verbatim>\<open>graph/editGraph.ts\<close> (committing a mutation, and the edits of nodes and edges) and
  \<^verbatim>\<open>graph/dependencyEdit.ts\<close> (the edits of dependencies).

  An edit loads the manifest, prepares a mutation and commits it; the commit checks the next manifest, loads again,
  compares with the manifest the mutation was prepared for, and writes. The locks around a commit, and the checks that
  the canvas is still the current one and that no import is pending, are one outcome of the environment. The zod
  issues of a rejected manifest are one diagnostic here.
\<close>

section \<open>Mutations\<close>

datatype mutation_intent =
    AddNode manifest_node "string option"
  | AddTaskNode manifest_node "string option" "(string \<times> string) list"  \<comment> \<open>block id and prompt\<close>
  | AddBlock string manifest_block string
  | UpdateNode manifest_node
  | RemoveNode string bool bool  \<comment> \<open>\<open>removePrompt\<close>, \<open>removeTaskDirectory\<close>\<close>
  | AddEdge manifest_edge
  | RemoveEdge manifest_edge
  | RemoveBlock string
  | WriteTaskPrompt string string
  | WriteBlockPrompt string string

record graph_mutation =
  gm_baseManifest :: manifest
  gm_nextManifest :: manifest
  gm_affectedTasks :: "string list"
  gm_sideEffects :: "side_effect list"

definition writePromptSideEffects :: "string \<Rightarrow> string option \<Rightarrow> side_effect list" where
  "writePromptSideEffects packagePath markdown =
     (case markdown of None \<Rightarrow> [] | Some md \<Rightarrow> [WritePrompt packagePath md])"

definition packageDirname :: "string \<Rightarrow> string" where
  "packageDirname packagePath = join_slash (butlast (split_slash packagePath))"

definition find_task :: "manifest \<Rightarrow> string \<Rightarrow> manifest_node option" where
  "find_task mf taskId = List.find (\<lambda>n. mn_type n = TaskNode \<and> mn_id n = taskId) (mf_nodes mf)"

definition taskNode :: "manifest \<Rightarrow> string \<Rightarrow> manifest_node res" where
  "taskNode mf taskId = (case find_task mf taskId of None \<Rightarrow> Inl (TaskDoesNotExist taskId) | Some n \<Rightarrow> Inr n)"

definition find_block :: "manifest_node \<Rightarrow> string \<Rightarrow> manifest_block option" where
  "find_block task blockId = List.find (\<lambda>b. mb_id b = blockId) (mn_blocks task)"

fun with_depends :: "string list \<Rightarrow> manifest_block \<Rightarrow> manifest_block" where
  "with_depends ds (ManifestImplementationBlock i t p _ e caps shared) = ManifestImplementationBlock i t p ds e caps shared"
| "with_depends ds (ManifestReviewBlock i t p _ e policy) = ManifestReviewBlock i t p ds e policy"

definition replace_task :: "manifest \<Rightarrow> string \<Rightarrow> manifest_node \<Rightarrow> manifest" where
  "replace_task mf taskId next = mf\<lparr>mf_nodes :=
     map (\<lambda>n. if mn_type n = TaskNode \<and> mn_id n = taskId then next else n) (mf_nodes mf)\<rparr>"

definition buildPlanPackageManifestChangeMutation ::
  "manifest \<Rightarrow> manifest \<Rightarrow> string list \<Rightarrow> side_effect list \<Rightarrow> graph_mutation res" where
  "buildPlanPackageManifestChangeMutation mf next affected effects =
     try_bind (affectedTasks mf next) (\<lambda>ts.
     Inr \<lparr>gm_baseManifest = mf, gm_nextManifest = next, gm_affectedTasks = js_dedup (ts @ affected), gm_sideEffects = effects\<rparr>)"

definition block_of_ref :: "manifest \<Rightarrow> string \<Rightarrow> (manifest_node \<times> manifest_block) res" where
  "block_of_ref mf ref =
     try_bind (parseBlockRef ref) (\<lambda>(taskId, blockId).
     try_bind (taskNode mf taskId) (\<lambda>task.
     case find_block task blockId of None \<Rightarrow> Inl (BlockDoesNotExist ref) | Some b \<Rightarrow> Inr (task, b)))"

definition without_block :: "string \<Rightarrow> manifest_node \<Rightarrow> manifest_node" where
  "without_block blockId task = task\<lparr>mn_blocks :=
     map (\<lambda>b. with_depends (filter (\<lambda>d. d \<noteq> blockId) (mb_depends_on b)) b) (filter (\<lambda>b. mb_id b \<noteq> blockId) (mn_blocks task))\<rparr>"

definition removeBlock :: "manifest \<Rightarrow> string \<Rightarrow> graph_mutation res" where
  "removeBlock mf ref =
     try_bind (block_of_ref mf ref) (\<lambda>(task, block).
     buildPlanPackageManifestChangeMutation mf (replace_task mf (mn_id task) (without_block (mb_id block) task)) []
       [RemovePrompt (mb_prompt block)])"

definition task_prompts :: "manifest_node \<Rightarrow> string option \<Rightarrow> (string \<times> string) list \<Rightarrow> side_effect list" where
  "task_prompts node taskPrompt blockPrompts =
     (let prompts = fold (\<lambda>p m. map_set m (fst p) (snd p)) blockPrompts []
      in writePromptSideEffects (mn_prompt node) taskPrompt @
         concat (map (\<lambda>b. writePromptSideEffects (mb_prompt b) (map_get prompts (mb_id b))) (mn_blocks node)))"

definition without_node :: "string \<Rightarrow> manifest \<Rightarrow> manifest" where
  "without_node nodeId mf = mf
     \<lparr>mf_nodes := filter (\<lambda>n. mn_id n \<noteq> nodeId) (mf_nodes mf),
      mf_edges := filter (\<lambda>e. me_from e \<noteq> nodeId \<and> me_to e \<noteq> nodeId) (mf_edges mf)\<rparr>"

definition removal_effects :: "manifest \<Rightarrow> string \<Rightarrow> bool \<Rightarrow> bool \<Rightarrow> side_effect list" where
  "removal_effects mf nodeId removePrompt removeTaskDirectory =
     (case List.find (\<lambda>n. mn_id n = nodeId) (mf_nodes mf) of
        None \<Rightarrow> []
      | Some n \<Rightarrow>
          if mn_type n = TaskNode \<and> removeTaskDirectory then [RemoveTaskDirectory (packageDirname (mn_prompt n))]
          else if mn_type n = TaskNode \<and> removePrompt then [RemovePrompt (mn_prompt n)] else [])"

definition buildPlanPackageGraphMutation :: "manifest \<Rightarrow> mutation_intent \<Rightarrow> graph_mutation res" where
  "buildPlanPackageGraphMutation mf intent =
     (case intent of
        AddNode node prompt \<Rightarrow>
          buildPlanPackageManifestChangeMutation mf (mf\<lparr>mf_nodes := mf_nodes mf @ [node]\<rparr>) []
            (if mn_type node = TaskNode then writePromptSideEffects (mn_prompt node) prompt else [])
      | AddTaskNode node taskPrompt blockPrompts \<Rightarrow>
          buildPlanPackageManifestChangeMutation mf (mf\<lparr>mf_nodes := mf_nodes mf @ [node]\<rparr>) []
            (task_prompts node taskPrompt blockPrompts)
      | AddBlock taskId block prompt \<Rightarrow>
          try_bind (taskNode mf taskId) (\<lambda>task.
          buildPlanPackageManifestChangeMutation mf
            (replace_task mf taskId (task\<lparr>mn_blocks := mn_blocks task @ [block]\<rparr>)) []
            (writePromptSideEffects (mb_prompt block) (Some prompt)))
      | UpdateNode node \<Rightarrow>
          buildPlanPackageManifestChangeMutation mf
            (mf\<lparr>mf_nodes := map (\<lambda>n. if mn_id n = mn_id node then node else n) (mf_nodes mf)\<rparr>) [] []
      | RemoveNode nodeId removePrompt removeTaskDirectory \<Rightarrow>
          buildPlanPackageManifestChangeMutation mf (without_node nodeId mf) []
            (removal_effects mf nodeId removePrompt removeTaskDirectory)
      | AddEdge edge \<Rightarrow>
          buildPlanPackageManifestChangeMutation mf (mf\<lparr>mf_edges := mf_edges mf @ [edge]\<rparr>) [] []
      | RemoveEdge edge \<Rightarrow>
          buildPlanPackageManifestChangeMutation mf (mf\<lparr>mf_edges := filter (\<lambda>e. e \<noteq> edge) (mf_edges mf)\<rparr>) [] []
      | RemoveBlock ref \<Rightarrow> removeBlock mf ref
      | WriteTaskPrompt taskId markdown \<Rightarrow>
          try_bind (taskNode mf taskId) (\<lambda>task.
          Inr \<lparr>gm_baseManifest = mf, gm_nextManifest = mf, gm_affectedTasks = [mn_id task],
               gm_sideEffects = writePromptSideEffects (mn_prompt task) (Some markdown)\<rparr>)
      | WriteBlockPrompt ref markdown \<Rightarrow>
          try_bind (block_of_ref mf ref) (\<lambda>(task, block).
          Inr \<lparr>gm_baseManifest = mf, gm_nextManifest = mf, gm_affectedTasks = [mn_id task],
               gm_sideEffects = writePromptSideEffects (mb_prompt block) (Some markdown)\<rparr>))"

section \<open>Committing a mutation\<close>

datatype edit_issue =
    ManifestSchemaInvalid
  | CompileIssue graph_issue
  | ManifestVersionConflict
  | DuplicateNode string
  | NodeMissing string
  | DuplicateEdge
  | TaskMissing string
  | BlockMissing string
  | DependencyMissing string string
  | DuplicateDependencyUpdate string

record edit_result =
  er_ok :: bool
  er_affectedTasks :: "string list"
  er_diagnostics :: "edit_issue list"
  er_graph :: "compiled_graph option"

record edit_environment =
  ee_fs :: file_system
  ee_executors :: "string list"
  ee_admission :: "unit res"

definition graph_result :: "compiled_graph \<Rightarrow> string list \<Rightarrow> edit_issue list \<Rightarrow> edit_result" where
  "graph_result g affected diagnostics =
     (let all = diagnostics @ map CompileIssue (diagnosticErrors g)
      in \<lparr>er_ok = (all = []), er_affectedTasks = js_dedup affected, er_diagnostics = all, er_graph = Some g\<rparr>)"

definition edit_refusal :: "manifest \<Rightarrow> edit_issue list \<Rightarrow> edit_result res" where
  "edit_refusal mf diagnostics = try_bind (compileTaskGraph mf) (\<lambda>g. Inr (graph_result g [] diagnostics))"

definition prepareManifestForWrite ::
  "string list \<Rightarrow> manifest \<Rightarrow> (edit_issue list + manifest \<times> compiled_graph) res" where
  "prepareManifestForWrite executors mf =
     (case manifestSchema executors mf of
        None \<Rightarrow> Inr (Inl [ManifestSchemaInvalid])
      | Some parsed \<Rightarrow>
          try_bind (compileTaskGraph parsed) (\<lambda>g.
          Inr (if diagnosticErrors g \<noteq> [] then Inl (map CompileIssue (diagnosticErrors g)) else Inr (parsed, g))))"

definition loadPackage :: "edit_environment \<Rightarrow> package \<Rightarrow> manifest res" where
  "loadPackage env pk =
     (case map_get pk (manifest_path (ee_fs env)) of
        None \<Rightarrow> Inl (FileMissing ''manifest.json'')
      | Some (Markdown _) \<Rightarrow> Inl (SchemaInvalid ''manifest'')
      | Some (ManifestJson mf) \<Rightarrow>
          (case manifestSchema (ee_executors env) mf of None \<Rightarrow> Inl (SchemaInvalid ''manifest'') | Some parsed \<Rightarrow> Inr parsed))"

definition checkPlanPackageGraphMutationVersion ::
  "string list \<Rightarrow> manifest \<Rightarrow> graph_mutation \<Rightarrow> edit_result option res" where
  "checkPlanPackageGraphMutationVersion executors current m =
     (case manifestSchema executors (gm_baseManifest m) of
        None \<Rightarrow> Inl (SchemaInvalid ''manifest'')
      | Some base \<Rightarrow>
          if current = base then Inr None
          else try_bind (edit_refusal current [ManifestVersionConflict]) (\<lambda>r. Inr (Some r)))"

definition commitStagedPlanPackageGraphMutation :: "edit_environment \<Rightarrow> graph_mutation \<Rightarrow> edit_result edit" where
  "commitStagedPlanPackageGraphMutation env m pk =
     (case prepareManifestForWrite (ee_executors env) (gm_nextManifest m) of
        Inl e \<Rightarrow> (Inl e, pk)
      | Inr (Inl issues) \<Rightarrow>
          (Inr \<lparr>er_ok = False, er_affectedTasks = js_dedup (gm_affectedTasks m), er_diagnostics = issues, er_graph = None\<rparr>, pk)
      | Inr (Inr (next, g)) \<Rightarrow>
          (case try_bind (ee_admission env) (\<lambda>_.
                try_bind (loadPackage env pk) (\<lambda>current.
                checkPlanPackageGraphMutationVersion (ee_executors env) current m)) of
             Inl e \<Rightarrow> (Inl e, pk)
           | Inr (Some conflict) \<Rightarrow> (Inr conflict, pk)
           | Inr None \<Rightarrow>
               edit_bind (applyMutationSideEffectsWithRollback (ee_fs env) (gm_sideEffects m) next)
                 (\<lambda>_ pk'. (Inr (graph_result g (gm_affectedTasks m) []), pk')) pk))"

definition commitPlanPackageGraphMutation :: "edit_environment \<Rightarrow> graph_mutation \<Rightarrow> edit_result edit" where
  "commitPlanPackageGraphMutation env m pk =
     (case try_bind (loadPackage env pk) (\<lambda>_. ee_admission env) of
        Inl e \<Rightarrow> (Inl e, pk)
      | Inr _ \<Rightarrow> commitStagedPlanPackageGraphMutation env m pk)"

text \<open>An edit: load, then either refuse with diagnostics or prepare a mutation and commit it.\<close>

definition edit_package ::
  "edit_environment \<Rightarrow> (manifest \<Rightarrow> edit_issue list res) \<Rightarrow> (manifest \<Rightarrow> edit_issue list \<Rightarrow> edit_result res) \<Rightarrow>
   (manifest \<Rightarrow> graph_mutation res) \<Rightarrow> edit_result edit" where
  "edit_package env check refuse prepare pk =
     (case try_bind (loadPackage env pk) (\<lambda>mf. try_bind (check mf) (\<lambda>issues. Inr (mf, issues))) of
        Inl e \<Rightarrow> (Inl e, pk)
      | Inr (mf, issues) \<Rightarrow>
          if issues \<noteq> [] then (refuse mf issues, pk)
          else (case prepare mf of
                  Inl e \<Rightarrow> (Inl e, pk)
                | Inr m \<Rightarrow> commitPlanPackageGraphMutation env m pk))"

section \<open>Edits of nodes and edges\<close>

definition addNode :: "edit_environment \<Rightarrow> manifest_node \<Rightarrow> string option \<Rightarrow> edit_result edit" where
  "addNode env node prompt =
     edit_package env (\<lambda>mf. Inr (if list_ex (\<lambda>n. mn_id n = mn_id node) (mf_nodes mf) then [DuplicateNode (mn_id node)] else []))
       edit_refusal (\<lambda>mf. buildPlanPackageGraphMutation mf (AddNode node prompt))"

definition updateNode :: "edit_environment \<Rightarrow> manifest_node \<Rightarrow> edit_result edit" where
  "updateNode env node =
     edit_package env (\<lambda>mf. Inr (if list_ex (\<lambda>n. mn_id n = mn_id node) (mf_nodes mf) then [] else [NodeMissing (mn_id node)]))
       edit_refusal (\<lambda>mf. buildPlanPackageGraphMutation mf (UpdateNode node))"

definition removeNode :: "edit_environment \<Rightarrow> string \<Rightarrow> bool \<Rightarrow> edit_result edit" where
  "removeNode env nodeId removePrompt =
     edit_package env (\<lambda>mf. Inr (if list_ex (\<lambda>n. mn_id n = nodeId) (mf_nodes mf) then [] else [NodeMissing nodeId]))
       edit_refusal (\<lambda>mf. buildPlanPackageGraphMutation mf (RemoveNode nodeId removePrompt False))"

definition addEdge :: "edit_environment \<Rightarrow> manifest_edge \<Rightarrow> edit_result edit" where
  "addEdge env edge =
     edit_package env (\<lambda>mf. Inr (if edge \<in> set (mf_edges mf) then [DuplicateEdge] else []))
       edit_refusal (\<lambda>mf. buildPlanPackageGraphMutation mf (AddEdge edge))"

definition removeEdge :: "edit_environment \<Rightarrow> manifest_edge \<Rightarrow> edit_result edit" where
  "removeEdge env edge =
     edit_package env (\<lambda>mf. Inr []) edit_refusal (\<lambda>mf. buildPlanPackageGraphMutation mf (RemoveEdge edge))"

definition updatePromptSurface :: "edit_environment \<Rightarrow> string \<Rightarrow> string \<Rightarrow> edit_result edit" where
  "updatePromptSurface env taskId taskBody =
     edit_package env (\<lambda>mf. Inr (if find_task mf taskId = None then [TaskMissing taskId] else []))
       edit_refusal (\<lambda>mf. buildPlanPackageGraphMutation mf (WriteTaskPrompt taskId taskBody))"

section \<open>Edits of dependencies\<close>

definition dependency_refusal :: "manifest \<Rightarrow> edit_issue list \<Rightarrow> edit_result res" where
  "dependency_refusal mf diagnostics =
     try_bind (compileTaskGraph mf) (\<lambda>g.
     Inr \<lparr>er_ok = (diagnostics = []), er_affectedTasks = [], er_diagnostics = diagnostics, er_graph = Some g\<rparr>)"

definition ensureTaskExists :: "manifest \<Rightarrow> string \<Rightarrow> edit_issue list" where
  "ensureTaskExists mf taskId = (if list_ex (\<lambda>n. mn_id n = taskId) (mf_nodes mf) then [] else [TaskMissing taskId])"

definition duplicateValues :: "string list \<Rightarrow> string list" where
  "duplicateValues values =
     snd (fold (\<lambda>v (seen, dups). (with_ref seen v, if v \<in> set seen then with_ref dups v else dups)) values ([], []))"

definition uniqueEdges :: "manifest_edge list \<Rightarrow> manifest_edge list" where
  "uniqueEdges edges =
     snd (fold (\<lambda>e (seen, unique). if edgeKey e \<in> set seen then (seen, unique) else (with_ref seen (edgeKey e), unique @ [e]))
       edges ([], []))"

definition dependency :: "string \<Rightarrow> string \<Rightarrow> manifest_edge" where
  "dependency from to = \<lparr>me_from = from, me_to = to, me_type = DependsOn\<rparr>"

definition set_dependencies :: "(string \<times> string list) list \<Rightarrow> manifest \<Rightarrow> manifest" where
  "set_dependencies updates mf = mf\<lparr>mf_edges := uniqueEdges
     (filter (\<lambda>e. \<not> (me_type e = DependsOn \<and> me_from e \<in> set (map fst updates))) (mf_edges mf) @
      concat (map (\<lambda>(t, ds). map (dependency t) ds) updates))\<rparr>"

definition setTaskDependencies :: "edit_environment \<Rightarrow> string \<Rightarrow> string list \<Rightarrow> edit_result edit" where
  "setTaskDependencies env taskId dependsOn =
     edit_package env (\<lambda>mf. Inr (ensureTaskExists mf taskId @ concat (map (ensureTaskExists mf) dependsOn)))
       dependency_refusal
       (\<lambda>mf. buildPlanPackageManifestChangeMutation mf (set_dependencies [(taskId, dependsOn)] mf) (taskId # dependsOn) [])"

definition bulkAddTaskDependencies :: "edit_environment \<Rightarrow> (string \<times> string) list \<Rightarrow> edit_result edit" where
  "bulkAddTaskDependencies env edges =
     edit_package env (\<lambda>mf. Inr (concat (map (\<lambda>(a, b). ensureTaskExists mf a @ ensureTaskExists mf b) edges)))
       dependency_refusal
       (\<lambda>mf. buildPlanPackageManifestChangeMutation mf
         (mf\<lparr>mf_edges := uniqueEdges (mf_edges mf @ map (\<lambda>(a, b). dependency a b) edges)\<rparr>)
         (concat (map (\<lambda>(a, b). [a, b]) edges)) [])"

definition bulkSetTaskDependencies :: "edit_environment \<Rightarrow> (string \<times> string list) list \<Rightarrow> edit_result edit" where
  "bulkSetTaskDependencies env updates =
     edit_package env
       (\<lambda>mf. Inr (map DuplicateDependencyUpdate (duplicateValues (map fst updates)) @
                  concat (map (\<lambda>(t, ds). ensureTaskExists mf t @ concat (map (ensureTaskExists mf) ds)) updates)))
       dependency_refusal
       (\<lambda>mf. buildPlanPackageManifestChangeMutation mf (set_dependencies updates mf) (concat (map (\<lambda>(t, ds). t # ds) updates)) [])"

definition ensureBlockUpdate :: "manifest \<Rightarrow> string \<times> string list \<Rightarrow> edit_issue list res" where
  "ensureBlockUpdate mf update =
     try_bind (parseBlockRef (fst update)) (\<lambda>(taskId, blockId).
     Inr (case find_task mf taskId of
            None \<Rightarrow> [TaskMissing taskId]
          | Some task \<Rightarrow>
              (let ids = map mb_id (mn_blocks task)
               in (if blockId \<in> set ids then [] else [BlockMissing (fst update)]) @
                  map (DependencyMissing (fst update)) (filter (\<lambda>d. d \<notin> set ids) (snd update)))))"

definition index_updates :: "(string \<times> string list) list \<Rightarrow> (string, (string, string list) js_map) js_map res" where
  "index_updates updates =
     for_res (\<lambda>(ref, ds) m. try_bind (parseBlockRef ref) (\<lambda>(taskId, blockId).
       Inr (map_set m taskId (map_set (case map_get m taskId of None \<Rightarrow> [] | Some u \<Rightarrow> u) blockId ds)))) updates []"

definition update_node_blocks :: "(string, (string, string list) js_map) js_map \<Rightarrow> manifest_node \<Rightarrow> manifest_node" where
  "update_node_blocks byTask n =
     (if mn_type n \<noteq> TaskNode then n
      else case map_get byTask (mn_id n) of
             None \<Rightarrow> n
           | Some u \<Rightarrow> n\<lparr>mn_blocks := map (\<lambda>b. case map_get u (mb_id b) of None \<Rightarrow> b | Some ds \<Rightarrow> with_depends ds b) (mn_blocks n)\<rparr>)"

definition bulkSetBlockDependencies :: "edit_environment \<Rightarrow> (string \<times> string list) list \<Rightarrow> edit_result edit" where
  "bulkSetBlockDependencies env updates =
     edit_package env
       (\<lambda>mf. try_bind (map_res (ensureBlockUpdate mf) updates) (\<lambda>issues.
              Inr (map DuplicateDependencyUpdate (duplicateValues (map fst updates)) @ concat issues)))
       dependency_refusal
       (\<lambda>mf. try_bind (index_updates updates) (\<lambda>byTask.
              buildPlanPackageManifestChangeMutation mf (mf\<lparr>mf_nodes := map (update_node_blocks byTask) (mf_nodes mf)\<rparr>)
                (map_keys byTask) []))"

section \<open>Requests\<close>

text \<open>The edits of the two files, and the commit of a mutation that a caller has built.\<close>

datatype edit_request =
    AddNodeRequest manifest_node "string option"
  | UpdateNodeRequest manifest_node
  | RemoveNodeRequest string bool
  | AddEdgeRequest manifest_edge
  | RemoveEdgeRequest manifest_edge
  | UpdatePromptRequest string string
  | SetTaskDependencies string "string list"
  | BulkAddTaskDependencies "(string \<times> string) list"
  | BulkSetTaskDependencies "(string \<times> string list) list"
  | BulkSetBlockDependencies "(string \<times> string list) list"
  | CommitMutation graph_mutation

fun run_edit :: "edit_environment \<Rightarrow> edit_request \<Rightarrow> edit_result edit" where
  "run_edit env (AddNodeRequest node prompt) = addNode env node prompt"
| "run_edit env (UpdateNodeRequest node) = updateNode env node"
| "run_edit env (RemoveNodeRequest nodeId removePrompt) = removeNode env nodeId removePrompt"
| "run_edit env (AddEdgeRequest edge) = addEdge env edge"
| "run_edit env (RemoveEdgeRequest edge) = removeEdge env edge"
| "run_edit env (UpdatePromptRequest taskId body) = updatePromptSurface env taskId body"
| "run_edit env (SetTaskDependencies taskId ds) = setTaskDependencies env taskId ds"
| "run_edit env (BulkAddTaskDependencies edges) = bulkAddTaskDependencies env edges"
| "run_edit env (BulkSetTaskDependencies updates) = bulkSetTaskDependencies env updates"
| "run_edit env (BulkSetBlockDependencies updates) = bulkSetBlockDependencies env updates"
| "run_edit env (CommitMutation m) = commitPlanPackageGraphMutation env m"

section \<open>What a commit does\<close>

lemma graph_result_ok: "er_ok (graph_result g affected ds) \<longleftrightarrow> ds = [] \<and> diagnosticErrors g = []"
  by (simp add: graph_result_def Let_def)

lemma prepare_write_Inr:
  "prepareManifestForWrite executors mf = Inr (Inr (next, g)) \<longleftrightarrow>
     manifestSchema executors mf = Some next \<and> compileTaskGraph next = Inr g \<and> diagnosticErrors g = []"
  by (auto simp: prepareManifestForWrite_def try_bind_eq_Inr split: option.splits if_splits)

lemma prepare_issues: "prepareManifestForWrite executors mf = Inr (Inl issues) \<Longrightarrow> issues \<noteq> []"
  by (auto simp: prepareManifestForWrite_def try_bind_eq_Inr split: option.splits if_splits)

lemma version_Inr:
  "checkPlanPackageGraphMutationVersion executors current m = Inr None \<longleftrightarrow>
     manifestSchema executors (gm_baseManifest m) = Some current"
  "checkPlanPackageGraphMutationVersion executors current m = Inr (Some r) \<Longrightarrow>
     ManifestVersionConflict \<in> set (er_diagnostics r) \<and> \<not> er_ok r"
  by (auto simp: checkPlanPackageGraphMutationVersion_def edit_refusal_def graph_result_def Let_def try_bind_eq_Inr
      split: option.splits if_splits)

lemma commit_cases:
  assumes "commitPlanPackageGraphMutation env m pk = (r, pk')"
  obtains (refused) "pk' = pk" "\<And>er. r = Inr er \<Longrightarrow> \<not> er_ok er \<and> er_diagnostics er \<noteq> []"
  | (failed) e "next" where "r = Inl e"
      "applyMutationSideEffectsWithRollback (ee_fs env) (gm_sideEffects m) next pk = (Inl e, pk')"
  | (committed) "next" g current where "manifestSchema (ee_executors env) (gm_nextManifest m) = Some next"
      "compileTaskGraph next = Inr g" "diagnosticErrors g = []" "loadPackage env pk = Inr current"
      "manifestSchema (ee_executors env) (gm_baseManifest m) = Some current"
      "applyMutationSideEffectsWithRollback (ee_fs env) (gm_sideEffects m) next pk = (Inr (), pk')"
      "r = Inr (graph_result g (gm_affectedTasks m) [])"
proof (cases "prepareManifestForWrite (ee_executors env) (gm_nextManifest m)")
  case (Inl e)
  with assms show thesis
    by (intro refused) (auto simp: commitPlanPackageGraphMutation_def commitStagedPlanPackageGraphMutation_def split: sum.splits)
next
  case (Inr p)
  note prep = this
  show thesis
  proof (cases p)
    case (Inl issues)
    with assms prep prepare_issues [of "ee_executors env" "gm_nextManifest m" issues] show thesis
      by (intro refused) (auto simp: commitPlanPackageGraphMutation_def commitStagedPlanPackageGraphMutation_def split: sum.splits)
  next
    case (Inr ng)
    obtain "next" g where ng: "ng = (next, g)" by (rule prod.exhaust)
    let ?admit = "try_bind (ee_admission env) (\<lambda>_. try_bind (loadPackage env pk) (\<lambda>current.
      checkPlanPackageGraphMutationVersion (ee_executors env) current m))"
    let ?run = "applyMutationSideEffectsWithRollback (ee_fs env) (gm_sideEffects m) next"
    have run: "pk' = pk \<and> (\<exists>e. r = Inl e) \<or>
        (case ?admit of Inl e \<Rightarrow> (Inl e, pk) | Inr (Some conflict) \<Rightarrow> (Inr conflict, pk)
         | Inr None \<Rightarrow> edit_bind ?run (\<lambda>_ pk'. (Inr (graph_result g (gm_affectedTasks m) []), pk')) pk) = (r, pk')"
      using assms prep Inr ng
      by (cases "try_bind (loadPackage env pk) (\<lambda>_. ee_admission env)")
        (auto simp: commitPlanPackageGraphMutation_def commitStagedPlanPackageGraphMutation_def)
    show thesis
    proof (cases ?admit)
      case (Inl e)
      with run show thesis by (intro refused) auto
    next
      case (Inr c)
      then obtain current where cur: "loadPackage env pk = Inr current"
        "checkPlanPackageGraphMutationVersion (ee_executors env) current m = Inr c" by (auto simp: try_bind_eq_Inr)
      show thesis
      proof (cases c)
        case (Some conflict)
        with cur(2) version_Inr(2) have "\<not> er_ok conflict \<and> er_diagnostics conflict \<noteq> []" by fastforce
        with run Inr Some show thesis by (intro refused) auto
      next
        case None
        have facts: "manifestSchema (ee_executors env) (gm_nextManifest m) = Some next" "compileTaskGraph next = Inr g"
          "diagnosticErrors g = []" using prep \<open>p = Inr ng\<close> ng by (simp_all add: prepare_write_Inr)
        have base: "manifestSchema (ee_executors env) (gm_baseManifest m) = Some current"
          using cur(2) None by (simp add: version_Inr)
        obtain ra pka where a: "?run pk = (ra, pka)" by (rule prod.exhaust)
        from run Inr None a consider "pk' = pk" "\<exists>e. r = Inl e" | e where "ra = Inl e" "r = Inl e" "pk' = pka"
          | "ra = Inr ()" "r = Inr (graph_result g (gm_affectedTasks m) [])" "pk' = pka"
          by (cases ra) (auto simp: edit_bind_def)
        then show thesis
        proof cases
          case 1
          then show thesis by (intro refused) auto
        next
          case 2
          with a show thesis by (intro failed) auto
        next
          case 3
          with a facts base cur(1) show thesis by (intro committed) auto
        qed
      qed
    qed
  qed
qed

text \<open>What a commit that reports success has done.\<close>

definition commit_applied :: "edit_environment \<Rightarrow> graph_mutation \<Rightarrow> package \<Rightarrow> edit_result \<Rightarrow> package \<Rightarrow> bool" where
  "commit_applied env m pk er pk' \<longleftrightarrow>
     (\<exists>next g pk1. manifestSchema (ee_executors env) (gm_nextManifest m) = Some next \<and> compileTaskGraph next = Inr g \<and>
        diagnosticErrors g = [] \<and> er = \<lparr>er_ok = True, er_affectedTasks = js_dedup (gm_affectedTasks m), er_diagnostics = [], er_graph = Some g\<rparr> \<and>
        apply_effects (ee_fs env) (gm_sideEffects m) pk = (Inr (), pk1) \<and>
        pk' = map_set pk1 (manifest_path (ee_fs env)) (ManifestJson next))"

lemma commit_Inr:
  assumes "commitPlanPackageGraphMutation env m pk = (Inr er, pk')"
  shows "if er_ok er then commit_applied env m pk er pk' else er_diagnostics er \<noteq> [] \<and> pk' = pk"
  using assms
proof (cases rule: commit_cases)
  case (committed "next" g current)
  from rollback_Inr(2) [OF committed(6)] obtain pk1 where
    "apply_effects (ee_fs env) (gm_sideEffects m) pk = (Inr (), pk1)"
    "pk' = map_set pk1 (manifest_path (ee_fs env)) (ManifestJson next)" by blast
  moreover have "er = \<lparr>er_ok = True, er_affectedTasks = js_dedup (gm_affectedTasks m), er_diagnostics = [], er_graph = Some g\<rparr>"
    using committed(3,7) by (simp add: graph_result_def)
  ultimately show ?thesis using committed(1-3) unfolding commit_applied_def by simp
qed simp_all

text \<open>C4: a commit is all or nothing. A commit that reports success has applied every side effect and has written
  the parsed next manifest, which compiles without errors; one that reports a refusal has diagnostics and has touched
  no file; one that throws has left every file with the content it had, unless restoring the backups failed too.
  In every case files outside of the package directory are as before.\<close>

theorem commit_all_or_nothing:
  assumes "commitPlanPackageGraphMutation env m pk = (r, pk')" and "tree_shaped pk"
  shows "outside_kept (fs_root (ee_fs env)) pk pk' \<and>
    (case r of
       Inl e \<Rightarrow> e = RollbackFailed \<or> (\<forall>q. map_get pk' q = map_get pk q)
     | Inr er \<Rightarrow> if er_ok er then commit_applied env m pk er pk' else er_diagnostics er \<noteq> [] \<and> pk' = pk)"
proof
  show "outside_kept (fs_root (ee_fs env)) pk pk'"
    using assms(1) by (cases rule: commit_cases) (auto dest: rollback_outside)
  show "case r of
       Inl e \<Rightarrow> e = RollbackFailed \<or> (\<forall>q. map_get pk' q = map_get pk q)
     | Inr er \<Rightarrow> if er_ok er then commit_applied env m pk er pk' else er_diagnostics er \<noteq> [] \<and> pk' = pk"
  proof (cases r)
    case (Inl e)
    from assms(1) show ?thesis using Inl rollback_restores [OF _ assms(2)] by (cases rule: commit_cases) auto
  next
    case (Inr er)
    with assms(1) have "commitPlanPackageGraphMutation env m pk = (Inr er, pk')" by simp
    from commit_Inr [OF this] Inr show ?thesis by simp
  qed
qed

section \<open>Histories of edits\<close>

text \<open>A package that the program can work with: no path is both a file and a directory, and the manifest file holds
  a parsed manifest whose graph has no errors.\<close>

definition sound_package :: "path \<Rightarrow> string list \<Rightarrow> package \<Rightarrow> bool" where
  "sound_package root executors pk \<longleftrightarrow> tree_shaped pk \<and>
     (\<exists>mf g. map_get pk (root @ [''manifest.json'']) = Some (ManifestJson mf) \<and> manifestSchema executors mf = Some mf \<and>
        compileTaskGraph mf = Inr g \<and> diagnosticErrors g = [])"

lemma sound_load:
  assumes "sound_package root executors pk" and "fs_root (ee_fs env) = root" and "ee_executors env = executors"
  shows "\<exists>mf g. loadPackage env pk = Inr mf \<and> compileTaskGraph mf = Inr g \<and> diagnosticErrors g = []"
  using assms by (auto simp: sound_package_def loadPackage_def manifest_path_def)

lemma sound_same:
  "\<forall>q. map_get pk' q = map_get pk q \<Longrightarrow> sound_package root executors pk \<Longrightarrow> sound_package root executors pk'"
  using tree_shaped_same by (auto simp: sound_package_def)

lemma commit_sound:
  assumes run: "commitPlanPackageGraphMutation env m pk = (r, pk')" and "r \<noteq> Inl RollbackFailed"
    and sound: "sound_package (fs_root (ee_fs env)) (ee_executors env) pk"
  shows "sound_package (fs_root (ee_fs env)) (ee_executors env) pk'"
  using run
proof (cases rule: commit_cases)
  case refused
  with sound show ?thesis by simp
next
  case (failed e "next")
  have "tree_shaped pk" using sound by (simp add: sound_package_def)
  with rollback_restores [OF failed(2)] failed(1) assms(2) have "\<forall>q. map_get pk' q = map_get pk q" by blast
  from sound_same [OF this sound] show ?thesis .
next
  case (committed "next" g current)
  have "tree_shaped pk'" using rollback_tree [OF committed(6)] sound by (simp add: sound_package_def)
  moreover have "manifestSchema (ee_executors env) next = Some next" using committed(1) by (rule manifestSchema_idem)
  ultimately show ?thesis
    using committed(2,3) rollback_Inr(1) [OF committed(6)] by (auto simp: sound_package_def manifest_path_def)
qed

lemma edit_package_cases:
  assumes "edit_package env check refuse prepare pk = (r, pk')"
  obtains (stopped) "pk' = pk" | (prepared) mf m where "loadPackage env pk = Inr mf" "check mf = Inr []" "prepare mf = Inr m"
      "commitPlanPackageGraphMutation env m pk = (r, pk')"
  using assms by (auto simp: edit_package_def try_bind_eq_Inr split: sum.splits if_splits)

lemmas edit_defs = addNode_def updateNode_def removeNode_def addEdge_def removeEdge_def updatePromptSurface_def
  setTaskDependencies_def bulkAddTaskDependencies_def bulkSetTaskDependencies_def bulkSetBlockDependencies_def

lemma run_edit_cases:
  assumes "run_edit env req pk = (r, pk')"
  obtains (stopped) "pk' = pk" | (prepared) m where "commitPlanPackageGraphMutation env m pk = (r, pk')"
  using assms by (cases req) (auto simp: edit_defs elim!: edit_package_cases)

text \<open>One edit, by whichever request, with whatever the file system does during it.\<close>

inductive edit_step :: "path \<Rightarrow> string list \<Rightarrow> package \<Rightarrow> package \<Rightarrow> bool" for root executors where
  edit: "fs_root (ee_fs env) = root \<Longrightarrow> ee_executors env = executors \<Longrightarrow> run_edit env req pk = (r, pk') \<Longrightarrow>
    r \<noteq> Inl RollbackFailed \<Longrightarrow> edit_step root executors pk pk'"

lemma edit_step_sound:
  assumes "edit_step root executors pk pk'" and "sound_package root executors pk"
  shows "sound_package root executors pk'"
  using assms(1)
proof cases
  case (edit env req r)
  from edit(3) show ?thesis
  proof (cases rule: run_edit_cases)
    case stopped
    with assms(2) show ?thesis by simp
  next
    case (prepared m)
    from commit_sound [OF this edit(4)] assms(2) edit(1,2) show ?thesis by simp
  qed
qed

lemma edits_sound: "(edit_step root executors)\<^sup>*\<^sup>* pk pk' \<Longrightarrow> sound_package root executors pk \<Longrightarrow> sound_package root executors pk'"
  by (induction rule: rtranclp_induct) (auto intro: edit_step_sound)

text \<open>However a package is edited, it stays usable. After any sequence of edits (nodes, edges, prompts,
  dependencies, any mutation committed by a caller), refused, failed or successful, the manifest can be loaded, its
  graph compiles without errors, so the dependencies between tasks have no cycle, and no path is both a file
  and a directory; provided no rollback itself failed.\<close>

theorem edit_history_sound:
  assumes "sound_package root executors pk" and "(edit_step root executors)\<^sup>*\<^sup>* pk pk'"
    and "fs_root (ee_fs env) = root" and "ee_executors env = executors"
  shows "tree_shaped pk' \<and> (\<exists>mf g. loadPackage env pk' = Inr mf \<and> compileTaskGraph mf = Inr g \<and> diagnosticErrors g = [] \<and>
    acyclic (depends_relation mf) \<and> acyclic (edges_of (blockDependenciesByRef g)))"
proof -
  have s: "sound_package root executors pk'" by (rule edits_sound [OF assms(2,1)])
  from sound_load [OF s assms(3,4)] obtain mf g where
    g: "loadPackage env pk' = Inr mf" "compileTaskGraph mf = Inr g" "diagnosticErrors g = []" by blast
  have "acyclic (depends_relation mf)" "acyclic (edges_of (blockDependenciesByRef g))"
    using compile_facts(5,7) [OF g(2)] compile_edges [OF g(2)] g(3) by simp_all
  with s g show ?thesis by (auto simp: sound_package_def)
qed

section \<open>Edits do not overwrite each other\<close>

lemma commit_load:
  assumes "commitPlanPackageGraphMutation env m pk = (Inr er, pk')" and "er_ok er"
  shows "loadPackage env pk' = Inr (the (manifestSchema (ee_executors env) (gm_nextManifest m))) \<and>
    manifestSchema (ee_executors env) (gm_nextManifest m) \<noteq> None \<and>
    (\<exists>current. loadPackage env pk = Inr current \<and> manifestSchema (ee_executors env) (gm_baseManifest m) = Some current)"
  using assms(1)
proof (cases rule: commit_cases)
  case refused
  with assms(2) show ?thesis by simp
next
  case (committed "next" g current)
  have "manifestSchema (ee_executors env) next = Some next" using committed(1) by (rule manifestSchema_idem)
  with rollback_Inr(1) [OF committed(6)] committed(1,4,5) show ?thesis by (simp add: loadPackage_def)
qed simp

lemma load_parsed: "loadPackage env pk = Inr mf \<Longrightarrow> manifestSchema (ee_executors env) mf = Some mf"
  by (auto simp: loadPackage_def dest: manifestSchema_idem split: option.splits file_content.splits)

text \<open>C9: an edit prepared for an older manifest is never applied. When two mutations are prepared from the
  same loaded manifest and the first one is committed with a change of the manifest, committing the second does not
  succeed, leaves the files, and answers with the version conflict when nothing else stops it.\<close>

theorem no_lost_update:
  assumes "loadPackage env pk = Inr mf" and "gm_baseManifest m1 = mf" and "gm_baseManifest m2 = mf"
    and "commitPlanPackageGraphMutation env m1 pk = (Inr er1, pk1)" and "er_ok er1"
    and "loadPackage env pk1 \<noteq> Inr mf" and "commitPlanPackageGraphMutation env m2 pk1 = (r2, pk2)"
  shows "pk2 = pk1 \<and> (\<forall>er2. r2 = Inr er2 \<longrightarrow> \<not> er_ok er2) \<and>
    (ee_admission env = Inr () \<and> (\<exists>p. prepareManifestForWrite (ee_executors env) (gm_nextManifest m2) = Inr (Inr p)) \<longrightarrow>
     (\<exists>er2. r2 = Inr er2 \<and> ManifestVersionConflict \<in> set (er_diagnostics er2)))"
proof -
  from commit_load [OF assms(4,5)] obtain mf1 where mf1: "loadPackage env pk1 = Inr mf1"
    "manifestSchema (ee_executors env) (gm_nextManifest m1) = Some mf1" by auto
  have stale: "manifestSchema (ee_executors env) (gm_baseManifest m2) \<noteq> Some mf1"
    using load_parsed [OF assms(1)] mf1(1) assms(3,6) by simp
  obtain c where c: "checkPlanPackageGraphMutationVersion (ee_executors env) mf1 m2 = c" "c \<noteq> Inr None"
    using stale by (auto simp: version_Inr)
  from assms(4) obtain g where g: "compileTaskGraph mf1 = Inr g"
    using mf1(2) assms(5) by (cases rule: commit_cases) auto
  have conflict: "\<exists>er2. c = Inr (Some er2) \<and> \<not> er_ok er2 \<and> ManifestVersionConflict \<in> set (er_diagnostics er2)"
    using c(1) g stale load_parsed [OF assms(1)] assms(3)
    by (auto simp: checkPlanPackageGraphMutationVersion_def edit_refusal_def graph_result_def Let_def)
  show ?thesis
    using assms(7) conflict c(1) mf1(1)
    by (auto simp: commitPlanPackageGraphMutation_def commitStagedPlanPackageGraphMutation_def try_bind_def
        split: sum.splits option.splits prod.splits)
qed

section \<open>What the edits of dependencies make of the manifest\<close>

definition nul_free :: "manifest \<Rightarrow> bool" where
  "nul_free mf \<longleftrightarrow> list_all (\<lambda>n. CHR 0x00 \<notin> set (mn_id n)) (mf_nodes mf) \<and> list_all (\<lambda>e. CHR 0x00 \<notin> set (me_from e)) (mf_edges mf)"

lemma edgeKey_inj:
  assumes "edgeKey e = edgeKey e'" and "CHR 0x00 \<notin> set (me_from e)" and "CHR 0x00 \<notin> set (me_from e')"
  shows "e = e'"
proof -
  have tw: "takeWhile (\<lambda>c. c \<noteq> CHR 0x00) (edgeKey x) = me_from x" if "CHR 0x00 \<notin> set (me_from x)" for x
  proof -
    have "takeWhile (\<lambda>c. c \<noteq> CHR 0x00) (me_from x @ CHR 0x00 # rest) = me_from x" for rest
      using that by (subst takeWhile_append2) auto
    then show ?thesis by (simp add: edgeKey_def)
  qed
  from tw [OF assms(2)] tw [OF assms(3)] assms(1) have f: "me_from e = me_from e'" by simp
  with assms(1) have "me_to e = me_to e'" by (simp add: edgeKey_def)
  with f show ?thesis by (cases e; cases e'; cases "me_type e"; cases "me_type e'") simp
qed

lemma uniqueEdges_set:
  assumes "inj_on edgeKey (set es)"
  shows "set (uniqueEdges es) = set es"
proof -
  let ?f = "\<lambda>e (seen, unique). if edgeKey e \<in> set seen then (seen, unique) else (with_ref seen (edgeKey e), unique @ [e])"
  have "set (snd (fold ?f xs (seen, unique))) = set xs \<union> set unique"
    if "inj_on edgeKey (set xs \<union> set unique)" "set seen = edgeKey ` set unique" for xs seen unique
    using that
  proof (induction xs arbitrary: seen unique)
    case (Cons x xs)
    show ?case
    proof (cases "edgeKey x \<in> set seen")
      case True
      with Cons.prems have "x \<in> set unique" by (auto simp: inj_on_def)
      with Cons.IH [of unique seen] Cons.prems True show ?thesis by (auto simp: insert_absorb inj_on_def)
    next
      case False
      have "set xs \<union> set (unique @ [x]) = set (x # xs) \<union> set unique" by auto
      with Cons.IH [of "unique @ [x]" "with_ref seen (edgeKey x)"] Cons.prems False show ?thesis
        by (simp add: with_ref_def)
    qed
  qed simp
  from this [of es "[]" "[]"] assms show ?thesis by (simp add: uniqueEdges_def)
qed

lemma nul_free_keys:
  "\<forall>e \<in> set es. CHR 0x00 \<notin> set (me_from e) \<Longrightarrow> set (uniqueEdges es) = set es"
  by (rule uniqueEdges_set) (auto intro: inj_onI edgeKey_inj)

lemma ensureTaskExists_nil: "ensureTaskExists mf t = [] \<longleftrightarrow> t \<in> task_ids mf"
  by (auto simp: ensureTaskExists_def task_ids_def list_ex_iff)

lemma setTaskDependencies_bulk: "setTaskDependencies env t ds = bulkSetTaskDependencies env [(t, ds)]"
  by (simp add: setTaskDependencies_def bulkSetTaskDependencies_def duplicateValues_def)

lemma schema_same_relation:
  assumes "manifestSchema executors mf = Some mf'"
  shows "depends_relation mf' = depends_relation mf"
proof -
  have "mn_id ` set (mf_nodes mf') = mn_id ` set (mf_nodes mf)" "mf_edges mf' = mf_edges mf"
    using assms by (auto simp: manifestSchema_def image_image split: if_splits)
  then show ?thesis by (simp add: depends_relation_def declared_edges_def)
qed

lemma set_dependencies_relation:
  assumes "nul_free mf" and "\<forall>(t, ds) \<in> set updates. t \<in> task_ids mf \<and> set ds \<subseteq> task_ids mf"
  shows "depends_relation (set_dependencies updates mf) =
    {(a, b) \<in> depends_relation mf. a \<notin> fst ` set updates} \<union> {(t, d). \<exists>ds. (t, ds) \<in> set updates \<and> d \<in> set ds}"
proof -
  let ?es = "filter (\<lambda>e. \<not> (me_type e = DependsOn \<and> me_from e \<in> set (map fst updates))) (mf_edges mf) @
      concat (map (\<lambda>(t, ds). map (dependency t) ds) updates)"
  have "\<forall>e \<in> set ?es. CHR 0x00 \<notin> set (me_from e)"
    using assms by (fastforce simp: nul_free_def list_all_iff dependency_def task_ids_def)
  then have es: "set (mf_edges (set_dependencies updates mf)) = set ?es" using nul_free_keys by (simp add: set_dependencies_def)
  have nodes: "mn_id ` set (mf_nodes (set_dependencies updates mf)) = task_ids mf" by (simp add: set_dependencies_def task_ids_def)
  have ty: "me_type e = DependsOn" for e by (cases "me_type e") simp
  show ?thesis
    using assms(2) by (fastforce simp: depends_relation_def declared_edges_def es nodes ty dependency_def task_ids_def image_iff)
qed

lemma edit_package_ok:
  assumes "edit_package env check dependency_refusal prepare pk = (Inr er, pk')" and "er_ok er"
  obtains mf m where "loadPackage env pk = Inr mf" "check mf = Inr []" "prepare mf = Inr m"
    "commitPlanPackageGraphMutation env m pk = (Inr er, pk')"
  using assms by (auto simp: edit_package_def dependency_refusal_def try_bind_eq_Inr split: sum.splits if_splits)

lemma duplicateValues_nil: "duplicateValues xs = [] \<longleftrightarrow> distinct xs"
proof -
  let ?f = "\<lambda>v (seen, dups). (with_ref seen v, if v \<in> set seen then with_ref dups v else dups)"
  have "snd (fold ?f xs (seen, dups)) = [] \<longleftrightarrow> dups = [] \<and> distinct xs \<and> set xs \<inter> set seen = {}" for xs seen dups :: "string list"
    by (induction xs arbitrary: seen dups) (auto simp: with_ref_def)
  then show ?thesis by (simp add: duplicateValues_def)
qed

lemma mutation_fields:
  assumes "buildPlanPackageManifestChangeMutation mf next affected effects = Inr m"
  shows "gm_baseManifest m = mf" "gm_nextManifest m = next" "set affected \<subseteq> set (gm_affectedTasks m)" "gm_sideEffects m = effects"
  using assms by (auto simp: buildPlanPackageManifestChangeMutation_def try_bind_eq_Inr)

text \<open>C13: setting dependencies replaces exactly the dependencies of the named tasks. After a successful
  \<^verbatim>\<open>bulkSetTaskDependencies\<close> (\<^verbatim>\<open>setTaskDependencies\<close> is the case of one task) the manifest on
  disk declares for the updated tasks the given dependencies and for every other task those it had, and every task
  named in the request is reported as affected.\<close>

theorem set_dependencies_exact:
  assumes "loadPackage env pk = Inr mf" and "nul_free mf" and "bulkSetTaskDependencies env updates pk = (Inr er, pk')" and "er_ok er"
  shows "distinct (map fst updates) \<and> set (concat (map (\<lambda>(t, ds). t # ds) updates)) \<subseteq> set (er_affectedTasks er) \<and>
    (\<exists>mf'. loadPackage env pk' = Inr mf' \<and>
      depends_relation mf' = {(a, b) \<in> depends_relation mf. a \<notin> fst ` set updates} \<union>
        {(t, d). \<exists>ds. (t, ds) \<in> set updates \<and> d \<in> set ds})"
proof -
  from edit_package_ok [OF assms(3) [unfolded bulkSetTaskDependencies_def] assms(4)] assms(1) obtain m where
    issues: "map DuplicateDependencyUpdate (duplicateValues (map fst updates)) @
        concat (map (\<lambda>(t, ds). ensureTaskExists mf t @ concat (map (ensureTaskExists mf) ds)) updates) = []"
    and m: "buildPlanPackageManifestChangeMutation mf (set_dependencies updates mf) (concat (map (\<lambda>(t, ds). t # ds) updates)) [] = Inr m"
    and run: "commitPlanPackageGraphMutation env m pk = (Inr er, pk')" by auto
  note fields = mutation_fields [OF m]
  have known: "\<forall>(t, ds) \<in> set updates. t \<in> task_ids mf \<and> set ds \<subseteq> task_ids mf"
    using issues by (fastforce simp: ensureTaskExists_nil)
  have "distinct (map fst updates)" using issues by (simp add: duplicateValues_nil)
  moreover have "commit_applied env m pk er pk'" using commit_Inr [OF run] assms(4) by simp
  then have "set (er_affectedTasks er) = set (gm_affectedTasks m)" by (auto simp: commit_applied_def)
  with fields(3) have "set (concat (map (\<lambda>(t, ds). t # ds) updates)) \<subseteq> set (er_affectedTasks er)" by (simp only:)
  moreover from commit_load [OF run assms(4)] fields(2) obtain mf' where
    mf': "loadPackage env pk' = Inr mf'" "manifestSchema (ee_executors env) (set_dependencies updates mf) = Some mf'" by auto
  ultimately show ?thesis
    using schema_same_relation [OF mf'(2)] set_dependencies_relation [OF assms(2) known] by blast
qed

section \<open>A package to edit\<close>

definition edit_task :: "string \<Rightarrow> string \<Rightarrow> manifest_node" where
  "edit_task taskId prompt = \<lparr>mn_id = taskId, mn_type = TaskNode, mn_title = taskId, mn_prompt = prompt, mn_executor = None,
     mn_acceptance = [''done''], mn_blocks = [ManifestImplementationBlock ''B1'' ''b'' ''b.md'' [] None None None]\<rparr>"

definition edit_manifest :: manifest where
  "edit_manifest = \<lparr>mf_defaultExecutor = Some ''codex'', mf_parallelEnabled = False, mf_maxConcurrent = 1,
     mf_nodes = [edit_task ''T1'' ''nodes/T1/prompt.md'', edit_task ''T2'' ''T2.md''],
     mf_edges = [dependency ''T2'' ''T1'']\<rparr>"

definition edit_files :: package where
  "edit_files = [([''pkg'', ''manifest.json''], ManifestJson edit_manifest),
     ([''pkg'', ''nodes'', ''T1'', ''prompt.md''], Markdown ''one''), ([''pkg'', ''T2.md''], Markdown ''two''),
     ([''pkg'', ''b.md''], Markdown ''block''), ([''other''], Markdown ''outside'')]"

definition edit_fs :: "(fs_operation \<Rightarrow> bool) \<Rightarrow> file_system" where
  "edit_fs fails = \<lparr>fs_root = [''pkg''],
     fs_real = (\<lambda>pk p. if map_has pk p \<or> is_directory pk p then RealPath p else NoSuchPath),
     fs_fails = (\<lambda>operation _. fails operation), fs_partial = (\<lambda>_. None)\<rparr>"

definition edit_env :: "(fs_operation \<Rightarrow> bool) \<Rightarrow> edit_environment" where
  "edit_env fails = \<lparr>ee_fs = edit_fs fails, ee_executors = [], ee_admission = Inr ()\<rparr>"

definition run_holds :: "('a res \<Rightarrow> package \<Rightarrow> bool) \<Rightarrow> 'a res \<times> package \<Rightarrow> bool" where
  "run_holds P out \<longleftrightarrow> P (fst out) (snd out)"

lemma run_holdsE: "run_holds P out \<Longrightarrow> (\<And>r pk'. out = (r, pk') \<Longrightarrow> P r pk' \<Longrightarrow> thesis) \<Longrightarrow> thesis"
  by (cases out) (simp add: run_holds_def)

definition succeeds :: "edit_result res \<Rightarrow> bool" where
  "succeeds r \<longleftrightarrow> (case r of Inl _ \<Rightarrow> False | Inr er \<Rightarrow> er_ok er)"

lemma succeedsE: "succeeds r \<Longrightarrow> (\<And>er. r = Inr er \<Longrightarrow> er_ok er \<Longrightarrow> thesis) \<Longrightarrow> thesis"
  by (auto simp: succeeds_def split: sum.splits)

definition removal :: "string \<Rightarrow> graph_mutation" where
  "removal taskId = \<lparr>gm_baseManifest = edit_manifest, gm_nextManifest = without_node taskId edit_manifest,
     gm_affectedTasks = [taskId], gm_sideEffects = removal_effects edit_manifest taskId False True\<rparr>"

lemma edit_files_tree: "tree_shaped edit_files"
proof -
  have "\<forall>p \<in> set (map_keys edit_files). \<not> is_directory edit_files p" by code_simp
  then show ?thesis by (auto simp: tree_shaped_def map_has_get)
qed

lemma edit_files_sound: "sound_package [''pkg''] [] edit_files"
proof -
  have "res_holds (\<lambda>g. diagnosticErrors g = []) (compileTaskGraph edit_manifest)" by code_simp
  moreover have "manifestSchema [] edit_manifest = Some edit_manifest" by code_simp
  moreover have "map_get edit_files ([''pkg''] @ [''manifest.json'']) = Some (ManifestJson edit_manifest)" by code_simp
  ultimately show ?thesis using edit_files_tree by (auto simp: sound_package_def elim!: res_holdsE)
qed

text \<open>The manifest cannot be written: the task directory that was removed comes back.\<close>

lemma commit_all_or_nothing_witness:
  "\<exists>e pk'. commitPlanPackageGraphMutation (edit_env (\<lambda>f. f = WriteFile [''pkg'', ''manifest.json''])) (removal ''T1'') edit_files =
     (Inl e, pk') \<and> e = FileSystemError ''write'' \<and> (\<forall>q. map_get pk' q = map_get edit_files q)"
proof -
  let ?env = "edit_env (\<lambda>f. f = WriteFile [''pkg'', ''manifest.json''])"
  have "run_holds (\<lambda>r _. r = Inl (FileSystemError ''write'')) (commitPlanPackageGraphMutation ?env (removal ''T1'') edit_files)"
    by code_simp
  then obtain pk' where run: "commitPlanPackageGraphMutation ?env (removal ''T1'') edit_files = (Inl (FileSystemError ''write''), pk')"
    by (auto elim: run_holdsE)
  from commit_all_or_nothing [OF run edit_files_tree] run show ?thesis by auto
qed

text \<open>The dependency of the sample is removed, then one in the other direction is added.\<close>

lemma edit_history_sound_witness:
  "\<exists>pk1 pk2 mf. edit_step [''pkg''] [] edit_files pk1 \<and> edit_step [''pkg''] [] pk1 pk2 \<and>
     loadPackage (edit_env (\<lambda>_. False)) pk2 = Inr mf \<and> mf_edges mf = [dependency ''T1'' ''T2''] \<and> acyclic (depends_relation mf)"
proof -
  let ?env = "edit_env (\<lambda>_. False)"
  let ?pk1 = "snd (run_edit ?env (SetTaskDependencies ''T2'' []) edit_files)"
  let ?pk2 = "snd (run_edit ?env (AddEdgeRequest (dependency ''T1'' ''T2'')) ?pk1)"
  have env: "fs_root (ee_fs ?env) = [''pkg'']" "ee_executors ?env = []" by (simp_all add: edit_env_def edit_fs_def)
  have step: "edit_step [''pkg''] [] pk (snd (run_edit ?env req pk))" if "succeeds (fst (run_edit ?env req pk))" for req pk
    by (rule edit_step.edit [OF env, of req pk "fst (run_edit ?env req pk)"]) (use that in \<open>auto simp: succeeds_def\<close>)
  have "succeeds (fst (run_edit ?env (SetTaskDependencies ''T2'' []) edit_files))"
    "succeeds (fst (run_edit ?env (AddEdgeRequest (dependency ''T1'' ''T2'')) ?pk1))" by code_simp+
  then have steps: "edit_step [''pkg''] [] edit_files ?pk1" "edit_step [''pkg''] [] ?pk1 ?pk2"
    by (blast intro: step)+
  have "(edit_step [''pkg''] [])\<^sup>*\<^sup>* edit_files ?pk2" using steps by auto
  from edit_history_sound [OF edit_files_sound this env] obtain mf where
    mf: "loadPackage ?env ?pk2 = Inr mf" "acyclic (depends_relation mf)" by blast
  have "res_holds (\<lambda>mf. mf_edges mf = [dependency ''T1'' ''T2'']) (loadPackage ?env ?pk2)" by code_simp
  with mf(1) have "mf_edges mf = [dependency ''T1'' ''T2'']" by (auto elim: res_holdsE)
  with steps mf show ?thesis by blast
qed

text \<open>Two editors remove a dependency and a task of the same loaded plan; the second is told to reload.\<close>

lemma no_lost_update_witness:
  "\<exists>pk1 er. commitPlanPackageGraphMutation (edit_env (\<lambda>_. False)) (removal ''T1'') edit_files = (Inr er, pk1) \<and>
     er_ok er \<and> snd (commitPlanPackageGraphMutation (edit_env (\<lambda>_. False)) (removal ''T2'') pk1) = pk1"
proof -
  let ?env = "edit_env (\<lambda>_. False)"
  have "run_holds (\<lambda>r pk1. succeeds r \<and> loadPackage ?env pk1 \<noteq> Inr edit_manifest)
      (commitPlanPackageGraphMutation ?env (removal ''T1'') edit_files)" by code_simp
  then obtain er pk1 where 1: "commitPlanPackageGraphMutation ?env (removal ''T1'') edit_files = (Inr er, pk1)" "er_ok er"
    "loadPackage ?env pk1 \<noteq> Inr edit_manifest" by (elim run_holdsE conjE succeedsE) blast
  have load: "loadPackage ?env edit_files = Inr edit_manifest" by code_simp
  obtain r2 pk2 where 2: "commitPlanPackageGraphMutation ?env (removal ''T2'') pk1 = (r2, pk2)" by (rule prod.exhaust)
  have "gm_baseManifest (removal t) = edit_manifest" for t by (simp add: removal_def)
  from no_lost_update [OF load this this 1 2] 1 2 show ?thesis by simp
qed

text \<open>The dependency of the second task is dropped.\<close>

lemma set_dependencies_exact_witness:
  "\<exists>er pk' mf'. bulkSetTaskDependencies (edit_env (\<lambda>_. False)) [(''T2'', [])] edit_files = (Inr er, pk') \<and>
     loadPackage (edit_env (\<lambda>_. False)) pk' = Inr mf' \<and> depends_relation edit_manifest = {(''T2'', ''T1'')} \<and> depends_relation mf' = {}"
proof -
  let ?env = "edit_env (\<lambda>_. False)"
  have "run_holds (\<lambda>r _. succeeds r) (bulkSetTaskDependencies ?env [(''T2'', [])] edit_files)" by code_simp
  then obtain er pk' where run: "bulkSetTaskDependencies ?env [(''T2'', [])] edit_files = (Inr er, pk')" "er_ok er"
    by (elim run_holdsE succeedsE) blast
  have load: "loadPackage ?env edit_files = Inr edit_manifest" "nul_free edit_manifest" by code_simp+
  have rel: "depends_relation edit_manifest = {(''T2'', ''T1'')}" by code_simp
  from set_dependencies_exact [OF load run] rel run(1) show ?thesis by auto
qed

text \<open>Removing a task together with its directory, when the prompt of the task lies at the root of the package,
  removes every file of the package; the manifest that still names the prompts is then written.\<close>

lemma remove_task_directory_root:
  "run_holds (\<lambda>r pk'. succeeds r \<and> map_keys pk' = [[''other''], [''pkg'', ''manifest.json'']])
     (commitPlanPackageGraphMutation (edit_env (\<lambda>_. False)) (removal ''T2'') edit_files)"
  "buildPlanPackageGraphMutation edit_manifest (RemoveNode ''T2'' False True) = Inr (removal ''T2'')"
  by code_simp+

end
