(* ===== verification/Field_Edit.thy ===== *)
theory Field_Edit
  imports Graph_Edit
begin

text \<open>
  Edits of single fields of a task, of a block and of the execution policy: \<^verbatim>\<open>graph/fieldEditMutation.ts\<close>.

  An absent field of an input is \<open>None\<close>; where the input may be \<^verbatim>\<open>null\<close>, which clears the field, it is an
  option of an option. The numbers of an input are integers.
\<close>

record task_field_edit =
  te_title :: "string option"
  te_promptMarkdown :: "string option"
  te_executor :: "string option option"
  te_acceptance :: "string list option"

record block_field_edit =
  be_title :: "string option"
  be_promptMarkdown :: "string option"
  be_executor :: "string option option"
  be_dependsOn :: "string list option"
  be_sharedResources :: "string list option"
  be_requiredCapabilities :: "string list option"
  be_reviewRequired :: "bool option"
  be_maxFeedbackCycles :: "int option"
  be_reviewHook :: "review_hook option option"

record execution_policy_edit =
  pe_defaultExecutor :: "string option option"
  pe_parallelEnabled :: "bool option"
  pe_maxConcurrent :: "int option"

record field_edit_mutation =
  fm_mutation :: graph_mutation
  fm_taskId :: string
  fm_updatedFields :: "string list"

definition nonEmpty :: "string \<Rightarrow> string \<Rightarrow> string res" where
  "nonEmpty v field = (if trim v = [] then Inl (FieldInvalid field) else Inr (trim v))"

definition optionalText :: "string option \<Rightarrow> string option res" where
  "optionalText v = (case v of None \<Rightarrow> Inr None | Some s \<Rightarrow> try_bind (nonEmpty s ''executor'') (\<lambda>t. Inr (Some t)))"

definition stringArray :: "string list \<Rightarrow> string \<Rightarrow> string list res" where
  "stringArray vs field = map_res (\<lambda>v. nonEmpty v field) vs"

definition nonEmptyStringArray :: "string list \<Rightarrow> string \<Rightarrow> string list res" where
  "nonEmptyStringArray vs field =
     try_bind (map_res (\<lambda>v. nonEmpty v field) vs) (\<lambda>ts. if ts = [] then Inl (FieldInvalid field) else Inr ts)"

definition normalizeMaxFeedbackCycles :: "int \<Rightarrow> nat res" where
  "normalizeMaxFeedbackCycles v = (if v < 0 then Inl (FieldInvalid ''maxFeedbackCycles'') else Inr (nat v))"

definition replaceTask :: "manifest \<Rightarrow> manifest_node \<Rightarrow> manifest" where
  "replaceTask mf task = replace_task mf (mn_id task) task"

definition buildPlanPackageExecutionPolicyFieldEditManifest :: "manifest \<Rightarrow> execution_policy_edit \<Rightarrow> manifest res" where
  "buildPlanPackageExecutionPolicyFieldEditManifest mf input =
     (if pe_defaultExecutor input = None \<and> pe_parallelEnabled input = None \<and> pe_maxConcurrent input = None
      then Inl (FieldInvalid ''execution'')
      else if (case pe_maxConcurrent input of None \<Rightarrow> False | Some n \<Rightarrow> n < 1) then Inl (FieldInvalid ''maxConcurrent'')
      else Inr (mf
        \<lparr>mf_defaultExecutor := (case pe_defaultExecutor input of None \<Rightarrow> mf_defaultExecutor mf | Some e \<Rightarrow> e),
         mf_parallelEnabled := (case pe_parallelEnabled input of None \<Rightarrow> mf_parallelEnabled mf | Some b \<Rightarrow> b),
         mf_maxConcurrent := (case pe_maxConcurrent input of None \<Rightarrow> mf_maxConcurrent mf | Some n \<Rightarrow> nat n)\<rparr>))"

text \<open>One optional field of an edit: its value is normalised and stored, and its name joins \<^verbatim>\<open>updatedFields\<close>.\<close>

definition edit_field ::
  "'v option \<Rightarrow> string \<Rightarrow> ('v \<Rightarrow> 'z res) \<Rightarrow> ('z \<Rightarrow> 'a \<Rightarrow> 'a) \<Rightarrow> 'a \<times> string list \<Rightarrow> ('a \<times> string list) res" where
  "edit_field v name normal store s =
     (case v of None \<Rightarrow> Inr s | Some x \<Rightarrow> try_bind (normal x) (\<lambda>z. Inr (store z (fst s), snd s @ [name])))"

fun with_title :: "string \<Rightarrow> manifest_block \<Rightarrow> manifest_block" where
  "with_title t (ManifestImplementationBlock i _ p ds e caps shared) = ManifestImplementationBlock i t p ds e caps shared"
| "with_title t (ManifestReviewBlock i _ p ds e policy) = ManifestReviewBlock i t p ds e policy"

fun with_executor :: "string option \<Rightarrow> manifest_block \<Rightarrow> manifest_block" where
  "with_executor e (ManifestImplementationBlock i t p ds _ caps shared) = ManifestImplementationBlock i t p ds e caps shared"
| "with_executor e (ManifestReviewBlock i t p ds _ policy) = ManifestReviewBlock i t p ds e policy"

fun with_sharedResources :: "string list option \<Rightarrow> manifest_block \<Rightarrow> manifest_block" where
  "with_sharedResources s (ManifestImplementationBlock i t p ds e caps _) = ManifestImplementationBlock i t p ds e caps s"
| "with_sharedResources s b = b"

fun with_capabilities :: "string list option \<Rightarrow> manifest_block \<Rightarrow> manifest_block" where
  "with_capabilities c (ManifestImplementationBlock i t p ds e _ shared) = ManifestImplementationBlock i t p ds e c shared"
| "with_capabilities c b = b"

fun with_review :: "(review_policy \<Rightarrow> review_policy) \<Rightarrow> manifest_block \<Rightarrow> manifest_block" where
  "with_review f (ManifestReviewBlock i t p ds e policy) = ManifestReviewBlock i t p ds e (f policy)"
| "with_review f b = b"

definition none_if_empty :: "'a list \<Rightarrow> 'a list option" where
  "none_if_empty xs = (if xs = [] then None else Some xs)"

definition normal_resources :: "string list \<Rightarrow> string list option res" where
  "normal_resources rs = try_bind (map_res (\<lambda>r. nonEmpty r ''shared resource'') rs) (\<lambda>ts. Inr (none_if_empty (js_dedup ts)))"

definition normal_capabilities :: "string list \<Rightarrow> string list option res" where
  "normal_capabilities cs = (if userRequiredCapabilities_valid cs then Inr (none_if_empty cs) else Inl (SchemaInvalid ''capabilities''))"

definition editImplementationBlock ::
  "block_field_edit \<Rightarrow> manifest_block \<times> string list \<Rightarrow> (manifest_block \<times> string list) res" where
  "editImplementationBlock input s =
     try_bind (edit_field (be_sharedResources input) ''parallel.sharedResources'' normal_resources with_sharedResources s)
     (edit_field (be_requiredCapabilities input) ''requirements.capabilities'' normal_capabilities with_capabilities)"

definition editReviewBlock ::
  "block_field_edit \<Rightarrow> manifest_block \<times> string list \<Rightarrow> (manifest_block \<times> string list) res" where
  "editReviewBlock input s =
     try_bind (edit_field (be_reviewRequired input) ''review.required'' Inr (\<lambda>r. with_review (\<lambda>p. p\<lparr>rp_required := r\<rparr>)) s)
     (\<lambda>s. try_bind (edit_field (be_maxFeedbackCycles input) ''review.maxFeedbackCycles'' normalizeMaxFeedbackCycles
       (\<lambda>k. with_review (\<lambda>p. p\<lparr>rp_maxFeedbackCycles := k\<rparr>)) s)
     (edit_field (be_reviewHook input) ''review.hook'' Inr (\<lambda>h. with_review (\<lambda>p. p\<lparr>rp_hook := h\<rparr>))))"

definition ensureBlockFieldCompatibility :: "manifest_block \<Rightarrow> block_field_edit \<Rightarrow> unit res" where
  "ensureBlockFieldCompatibility b input =
     (if mb_type b \<noteq> Implementation \<and> be_sharedResources input \<noteq> None then Inl (FieldInvalid ''parallel'')
      else if mb_type b \<noteq> Implementation \<and> be_requiredCapabilities input \<noteq> None then Inl (FieldInvalid ''requirements'')
      else if mb_type b \<noteq> Review \<and>
        (be_reviewRequired input \<noteq> None \<or> be_maxFeedbackCycles input \<noteq> None \<or> be_reviewHook input \<noteq> None)
      then Inl (FieldInvalid ''review'') else Inr ())"

definition edit_task_fields :: "task_field_edit \<Rightarrow> manifest_node \<Rightarrow> (manifest_node \<times> string list) res" where
  "edit_task_fields input task =
     try_bind (edit_field (te_title input) ''title'' (\<lambda>t. nonEmpty t ''title'') (\<lambda>t n. n\<lparr>mn_title := t\<rparr>) (task, []))
     (\<lambda>s. try_bind (edit_field (te_promptMarkdown input) ''prompt'' Inr (\<lambda>_ n. n) s)
     (\<lambda>s. try_bind (edit_field (te_executor input) ''executor'' optionalText
       (\<lambda>e n. n\<lparr>mn_executor := e, mn_blocks := map (with_executor None) (mn_blocks n)\<rparr>) s)
     (edit_field (te_acceptance input) ''acceptance'' (\<lambda>a. nonEmptyStringArray a ''acceptance'') (\<lambda>a n. n\<lparr>mn_acceptance := a\<rparr>))))"

definition buildPlanPackageTaskFieldEditMutation :: "manifest \<Rightarrow> string \<Rightarrow> task_field_edit \<Rightarrow> field_edit_mutation res" where
  "buildPlanPackageTaskFieldEditMutation mf taskId input =
     try_bind (taskNode mf taskId) (\<lambda>task.
     try_bind (edit_task_fields input task) (\<lambda>(nextTask, updatedFields).
     if updatedFields = [] then Inl (FieldInvalid ''edit-task'')
     else try_bind (buildPlanPackageManifestChangeMutation mf (replaceTask mf nextTask)
            (if te_promptMarkdown input = None then [] else [taskId])
            (writePromptSideEffects (mn_prompt nextTask) (te_promptMarkdown input)))
          (\<lambda>m. Inr \<lparr>fm_mutation = m, fm_taskId = taskId, fm_updatedFields = updatedFields\<rparr>)))"

definition edit_block_fields :: "block_field_edit \<Rightarrow> manifest_block \<Rightarrow> (manifest_block \<times> string list) res" where
  "edit_block_fields input block =
     try_bind (edit_field (be_title input) ''title'' (\<lambda>t. nonEmpty t ''title'') with_title (block, []))
     (\<lambda>s. try_bind (edit_field (be_promptMarkdown input) ''prompt'' Inr (\<lambda>_ b. b) s)
     (\<lambda>s. try_bind (edit_field (be_executor input) ''executor'' optionalText with_executor s)
     (\<lambda>s. try_bind (edit_field (be_dependsOn input) ''depends_on'' (\<lambda>ds. stringArray ds ''dependsOn'') with_depends s)
     (\<lambda>s. if mb_type (fst s) = Implementation then editImplementationBlock input s else editReviewBlock input s))))"

definition replace_block :: "string \<Rightarrow> manifest_block \<Rightarrow> manifest_node \<Rightarrow> manifest_node" where
  "replace_block blockId next task = task\<lparr>mn_blocks := map (\<lambda>b. if mb_id b = blockId then next else b) (mn_blocks task)\<rparr>"

definition buildPlanPackageBlockFieldEditMutation :: "manifest \<Rightarrow> string \<Rightarrow> block_field_edit \<Rightarrow> field_edit_mutation res" where
  "buildPlanPackageBlockFieldEditMutation mf ref input =
     try_bind (parseBlockRef ref) (\<lambda>(taskId, blockId).
     try_bind (taskNode mf taskId) (\<lambda>task.
     case find_block task blockId of
       None \<Rightarrow> Inl (BlockDoesNotExist ref)
     | Some block \<Rightarrow>
         try_bind (ensureBlockFieldCompatibility block input) (\<lambda>_.
         try_bind (edit_block_fields input block) (\<lambda>(nextBlock, updatedFields).
         if updatedFields = [] then Inl (FieldInvalid ''edit-block'')
         else try_bind (buildPlanPackageManifestChangeMutation mf (replaceTask mf (replace_block blockId nextBlock task))
                (if be_promptMarkdown input = None then [] else [taskId])
                (writePromptSideEffects (mb_prompt nextBlock) (be_promptMarkdown input)))
              (\<lambda>m. Inr \<lparr>fm_mutation = m, fm_taskId = taskId, fm_updatedFields = updatedFields\<rparr>)))))"

end
