(* ===== verification/Plan_Commands.thy ===== *)
theory Plan_Commands
  imports Field_Edit
begin

text \<open>
  The commands of the plan graph and their inverses: \<^verbatim>\<open>plangraph/commands.ts\<close> and the handlers under
  \<^verbatim>\<open>plangraph/commandHandlers/\<close> for dependencies, tasks, blocks and bulk edits.

  A handler turns a command into a mutation of the loaded package, or refuses it, and computes the commands that undo
  it. The layout that a removed task had on the desktop and the text of diagnostics are left out. The commands of the
  review pipeline, which also set the package-wide review defaults, and those of layouts and of the project graph are
  not modelled.
\<close>

section \<open>Commands\<close>

record task_snapshot =
  ts_task :: manifest_node
  ts_taskPromptMarkdown :: string
  ts_blockPromptMarkdown :: "(string \<times> string) list"
  ts_insertIndex :: "int option"
  ts_affectedTaskEdges :: "manifest_edge list"

record block_snapshot =
  bn_taskId :: string
  bn_block :: manifest_block
  bn_promptMarkdown :: string
  bn_insertIndex :: "int option"
  bn_affectedDependsOn :: "(string \<times> string list) list"

datatype plan_command =
    AddTaskDependencyCommand string string "int option"
  | RemoveTaskDependencyCommand string string
  | ReconnectTaskDependencyCommand string string "string option" string  \<comment> \<open>from, old to, new from, new to\<close>
  | UpdateTaskPromptCommand string string
  | UpdateTaskFieldsCommand string task_field_edit
  | AddTaskCommand task_snapshot
  | RemoveTaskCommand string
  | RestoreTaskCommand task_snapshot
  | UpdateBlockPromptCommand string string
  | UpdateBlockFieldsCommand string block_field_edit
  | AddBlockCommand block_snapshot
  | RemoveBlockCommand string
  | RestoreBlockCommand block_snapshot
  | BulkUpdateBlocksCommand "(string \<times> block_field_edit) list"
  | BulkUpdateParallelPolicyCommand "execution_policy_edit option" "(string \<times> string list option) list"

datatype command_issue =
    CommandTaskMissing string
  | CommandTaskDuplicate string
  | CommandBlockMissing string
  | CommandBlockDuplicate string
  | CommandPromptMissing string
  | CommandEdgeMissing
  | CommandEdgeDuplicate
  | CommandInsertIndexInvalid
  | CommandGraphVersionConflict
  | CommandValidationFailed runtime_error
  | CommandCommitIssue edit_issue
  | CommandHistoryEmpty

record loaded_package =
  lp_manifest :: manifest
  lp_prompts :: "(string, string) js_map"
  lp_graph :: compiled_graph
  lp_version :: string

type_synonym 'a handled = "(command_issue + 'a) res"

definition blockFromManifest :: "manifest \<Rightarrow> string \<Rightarrow> (manifest_node \<times> manifest_block) option res" where
  "blockFromManifest mf ref =
     try_bind (parseBlockRef ref) (\<lambda>(taskId, blockId).
     Inr (case find_task mf taskId of
            None \<Rightarrow> None
          | Some task \<Rightarrow> (case find_block task blockId of None \<Rightarrow> None | Some b \<Rightarrow> Some (task, b))))"

definition promptMarkdown :: "loaded_package \<Rightarrow> string \<Rightarrow> string option" where
  "promptMarkdown ld packagePath = map_get (lp_prompts ld) packagePath"

text \<open>\<^verbatim>\<open>findIndex\<close>, and an insertion at an index that is clamped to the list.\<close>

fun findIndex :: "('a \<Rightarrow> bool) \<Rightarrow> 'a list \<Rightarrow> nat option" where
  "findIndex p [] = None"
| "findIndex p (x # xs) = (if p x then Some 0 else map_option Suc (findIndex p xs))"

definition insert_at :: "nat \<Rightarrow> 'a \<Rightarrow> 'a list \<Rightarrow> 'a list" where
  "insert_at i x xs = take i xs @ [x] @ drop i xs"

definition clamped_index :: "int option \<Rightarrow> 'a list \<Rightarrow> nat" where
  "clamped_index i xs = (case i of None \<Rightarrow> length xs | Some k \<Rightarrow> nat (max 0 (min k (int (length xs)))))"

section \<open>Dependency commands\<close>

fun dependency_endpoints :: "plan_command \<Rightarrow> string list" where
  "dependency_endpoints (AddTaskDependencyCommand a b _) = [a, b]"
| "dependency_endpoints (RemoveTaskDependencyCommand a b) = [a, b]"
| "dependency_endpoints (ReconnectTaskDependencyCommand a b newFrom c) =
     [a, (case newFrom of None \<Rightarrow> a | Some f \<Rightarrow> f), b, c]"
| "dependency_endpoints _ = []"

definition validateDependencyCommand :: "manifest \<Rightarrow> plan_command \<Rightarrow> command_issue option" where
  "validateDependencyCommand mf c =
     map_option CommandTaskMissing (List.find (\<lambda>t. find_task mf t = None) (dependency_endpoints c))"

definition reconnectDependencyMutation :: "manifest \<Rightarrow> string \<Rightarrow> string \<Rightarrow> string option \<Rightarrow> string \<Rightarrow> graph_mutation handled" where
  "reconnectDependencyMutation mf a b newFrom c =
     (let oldEdge = dependency a b; newEdge = dependency (case newFrom of None \<Rightarrow> a | Some f \<Rightarrow> f) c
      in if oldEdge = newEdge then try_bind (buildPlanPackageManifestChangeMutation mf mf [a] []) (\<lambda>m. Inr (Inr m))
         else if oldEdge \<notin> set (mf_edges mf) then Inr (Inl CommandEdgeMissing)
         else if newEdge \<in> set (mf_edges mf) then Inr (Inl CommandEdgeDuplicate)
         else try_bind (buildPlanPackageManifestChangeMutation mf
                (mf\<lparr>mf_edges := filter (\<lambda>e. e \<noteq> oldEdge) (mf_edges mf) @ [newEdge]\<rparr>) [] []) (\<lambda>m. Inr (Inr m)))"

definition dependency_mutation :: "manifest \<Rightarrow> plan_command \<Rightarrow> graph_mutation handled" where
  "dependency_mutation mf c =
     (case validateDependencyCommand mf c of
        Some i \<Rightarrow> Inr (Inl i)
      | None \<Rightarrow>
          (case c of
             AddTaskDependencyCommand a b index \<Rightarrow>
               if dependency a b \<in> set (mf_edges mf) then Inr (Inl CommandEdgeDuplicate)
               else (case index of
                       None \<Rightarrow> try_bind (buildPlanPackageGraphMutation mf (AddEdge (dependency a b))) (\<lambda>m. Inr (Inr m))
                     | Some i \<Rightarrow>
                         if i < 0 \<or> int (length (mf_edges mf)) < i then Inr (Inl CommandInsertIndexInvalid)
                         else try_bind (buildPlanPackageManifestChangeMutation mf
                                (mf\<lparr>mf_edges := insert_at (nat i) (dependency a b) (mf_edges mf)\<rparr>) [] []) (\<lambda>m. Inr (Inr m)))
           | RemoveTaskDependencyCommand a b \<Rightarrow>
               if dependency a b \<notin> set (mf_edges mf) then Inr (Inl CommandEdgeMissing)
               else try_bind (buildPlanPackageGraphMutation mf (RemoveEdge (dependency a b))) (\<lambda>m. Inr (Inr m))
           | ReconnectTaskDependencyCommand a b newFrom c \<Rightarrow> reconnectDependencyMutation mf a b newFrom c))"

definition dependency_inverse :: "manifest \<Rightarrow> plan_command \<Rightarrow> plan_command list" where
  "dependency_inverse mf c =
     (case c of
        AddTaskDependencyCommand a b _ \<Rightarrow> [RemoveTaskDependencyCommand a b]
      | RemoveTaskDependencyCommand a b \<Rightarrow>
          [AddTaskDependencyCommand a b
             (Some (case findIndex (\<lambda>e. e = dependency a b) (mf_edges mf) of None \<Rightarrow> -1 | Some i \<Rightarrow> int i))]
      | ReconnectTaskDependencyCommand a b newFrom c \<Rightarrow>
          [ReconnectTaskDependencyCommand (case newFrom of None \<Rightarrow> a | Some f \<Rightarrow> f) c (Some a) b])"

section \<open>Task commands\<close>

definition block_prompts :: "loaded_package \<Rightarrow> manifest_block list \<Rightarrow> (command_issue + (string \<times> string) list)" where
  "block_prompts ld bs = map_res (\<lambda>b. case promptMarkdown ld (mb_prompt b) of
     None \<Rightarrow> Inl (CommandPromptMissing (mb_prompt b)) | Some md \<Rightarrow> Inr (mb_id b, md)) bs"

definition readTaskSnapshot :: "loaded_package \<Rightarrow> string \<Rightarrow> command_issue + task_snapshot" where
  "readTaskSnapshot ld taskId =
     (case find_task (lp_manifest ld) taskId of
        None \<Rightarrow> Inl (CommandTaskMissing taskId)
      | Some task \<Rightarrow>
          (case promptMarkdown ld (mn_prompt task) of
             None \<Rightarrow> Inl (CommandPromptMissing (mn_prompt task))
           | Some md \<Rightarrow>
               try_bind (block_prompts ld (mn_blocks task)) (\<lambda>prompts.
               Inr \<lparr>ts_task = task, ts_taskPromptMarkdown = md, ts_blockPromptMarkdown = prompts,
                 ts_insertIndex = map_option int (findIndex (\<lambda>n. mn_type n = TaskNode \<and> mn_id n = taskId) (mf_nodes (lp_manifest ld))),
                 ts_affectedTaskEdges = filter (\<lambda>e. me_from e = taskId \<or> me_to e = taskId) (mf_edges (lp_manifest ld))\<rparr>)))"

definition add_task_mutation :: "manifest \<Rightarrow> task_snapshot \<Rightarrow> graph_mutation res" where
  "add_task_mutation mf snap =
     buildPlanPackageGraphMutation mf (AddTaskNode (ts_task snap) (Some (ts_taskPromptMarkdown snap)) (ts_blockPromptMarkdown snap))"

definition restore_key :: "manifest_edge \<Rightarrow> string" where
  "restore_key e = ''depends_on:'' @ me_from e @ '':'' @ me_to e"

definition restoreTaskMutation :: "manifest \<Rightarrow> task_snapshot \<Rightarrow> graph_mutation res" where
  "restoreTaskMutation mf snap =
     try_bind (add_task_mutation mf snap) (\<lambda>added.
     buildPlanPackageManifestChangeMutation mf
       (mf\<lparr>mf_nodes := insert_at (clamped_index (ts_insertIndex snap) (mf_nodes mf)) (ts_task snap) (mf_nodes mf),
           mf_edges := mf_edges mf @ filter (\<lambda>e. restore_key e \<notin> set (map restore_key (mf_edges mf))) (ts_affectedTaskEdges snap)\<rparr>)
       (gm_affectedTasks added @ [mn_id (ts_task snap)]) (gm_sideEffects added))"

definition prompt_edit :: "string \<Rightarrow> task_field_edit" where
  "prompt_edit md = \<lparr>te_title = None, te_promptMarkdown = Some md, te_executor = None, te_acceptance = None\<rparr>"

definition task_mutation :: "manifest \<Rightarrow> plan_command \<Rightarrow> graph_mutation handled" where
  "task_mutation mf c =
     (case c of
        UpdateTaskPromptCommand taskId md \<Rightarrow>
          try_bind (buildPlanPackageTaskFieldEditMutation mf taskId (prompt_edit md)) (\<lambda>m. Inr (Inr (fm_mutation m)))
      | UpdateTaskFieldsCommand taskId edits \<Rightarrow>
          try_bind (buildPlanPackageTaskFieldEditMutation mf taskId edits) (\<lambda>m. Inr (Inr (fm_mutation m)))
      | AddTaskCommand snap \<Rightarrow>
          if find_task mf (mn_id (ts_task snap)) \<noteq> None then Inr (Inl (CommandTaskDuplicate (mn_id (ts_task snap))))
          else try_bind (add_task_mutation mf snap) (\<lambda>m. Inr (Inr m))
      | RestoreTaskCommand snap \<Rightarrow>
          if find_task mf (mn_id (ts_task snap)) \<noteq> None then Inr (Inl (CommandTaskDuplicate (mn_id (ts_task snap))))
          else try_bind (restoreTaskMutation mf snap) (\<lambda>m. Inr (Inr m))
      | RemoveTaskCommand taskId \<Rightarrow>
          if find_task mf taskId = None then Inr (Inl (CommandTaskMissing taskId))
          else try_bind (buildPlanPackageGraphMutation mf (RemoveNode taskId False True)) (\<lambda>m. Inr (Inr m)))"

definition executor_edit :: "string option \<Rightarrow> block_field_edit" where
  "executor_edit e = \<lparr>be_title = None, be_promptMarkdown = None, be_executor = Some e, be_dependsOn = None,
     be_sharedResources = None, be_requiredCapabilities = None, be_reviewRequired = None, be_maxFeedbackCycles = None,
     be_reviewHook = None\<rparr>"

definition inverse_task_fields :: "loaded_package \<Rightarrow> string \<Rightarrow> task_field_edit \<Rightarrow> command_issue + plan_command list" where
  "inverse_task_fields ld taskId edits =
     (case find_task (lp_manifest ld) taskId of
        None \<Rightarrow> Inl (CommandTaskMissing taskId)
      | Some task \<Rightarrow>
          try_bind (case te_promptMarkdown edits of
                      None \<Rightarrow> Inr None
                    | Some _ \<Rightarrow> (case promptMarkdown ld (mn_prompt task) of
                                  None \<Rightarrow> Inl (CommandPromptMissing taskId) | Some md \<Rightarrow> Inr (Some md))) (\<lambda>md.
          Inr (UpdateTaskFieldsCommand taskId
                 \<lparr>te_title = (if te_title edits = None then None else Some (mn_title task)), te_promptMarkdown = md,
                  te_executor = (if te_executor edits = None then None else Some (mn_executor task)),
                  te_acceptance = (if te_acceptance edits = None then None else Some (mn_acceptance task))\<rparr> #
               (if te_executor edits = None then []
                else map (\<lambda>b. UpdateBlockFieldsCommand (blockRef (mn_id task) (mb_id b)) (executor_edit (mb_executor b)))
                       (filter (\<lambda>b. mb_executor b \<noteq> None) (mn_blocks task))))))"

definition task_inverse :: "loaded_package \<Rightarrow> plan_command \<Rightarrow> command_issue + plan_command list" where
  "task_inverse ld c =
     (case c of
        UpdateTaskPromptCommand taskId _ \<Rightarrow>
          (case Option.bind (find_task (lp_manifest ld) taskId) (\<lambda>task. promptMarkdown ld (mn_prompt task)) of
             None \<Rightarrow> Inl (CommandPromptMissing taskId)
           | Some md \<Rightarrow> Inr [UpdateTaskPromptCommand taskId md])
      | UpdateTaskFieldsCommand taskId edits \<Rightarrow> inverse_task_fields ld taskId edits
      | AddTaskCommand snap \<Rightarrow> Inr [RemoveTaskCommand (mn_id (ts_task snap))]
      | RestoreTaskCommand snap \<Rightarrow> Inr [RemoveTaskCommand (mn_id (ts_task snap))]
      | RemoveTaskCommand taskId \<Rightarrow>
          try_bind (readTaskSnapshot ld taskId) (\<lambda>snap. Inr [RestoreTaskCommand snap]))"

section \<open>Block commands\<close>

definition readBlockSnapshot :: "loaded_package \<Rightarrow> string \<Rightarrow> block_snapshot handled" where
  "readBlockSnapshot ld ref =
     try_bind (blockFromManifest (lp_manifest ld) ref) (\<lambda>current.
     case current of
       None \<Rightarrow> Inr (Inl (CommandBlockMissing ref))
     | Some (task, block) \<Rightarrow>
         Inr (case promptMarkdown ld (mb_prompt block) of
                None \<Rightarrow> Inl (CommandPromptMissing (mb_prompt block))
              | Some md \<Rightarrow>
                  Inr \<lparr>bn_taskId = mn_id task, bn_block = block, bn_promptMarkdown = md,
                    bn_insertIndex = map_option int (findIndex (\<lambda>b. mb_id b = mb_id block) (mn_blocks task)),
                    bn_affectedDependsOn = map (\<lambda>b. (blockRef (mn_id task) (mb_id b), mb_depends_on b))
                      (filter (\<lambda>b. mb_id block \<in> set (mb_depends_on b)) (mn_blocks task))\<rparr>))"

definition restored_blocks :: "manifest_node \<Rightarrow> block_snapshot \<Rightarrow> manifest_block list" where
  "restored_blocks task snap =
     map (\<lambda>b. case List.find (\<lambda>a. fst a = blockRef (mn_id task) (mb_id b)) (bn_affectedDependsOn snap) of
                None \<Rightarrow> b | Some a \<Rightarrow> with_depends (snd a) b)
       (insert_at (clamped_index (bn_insertIndex snap) (mn_blocks task)) (bn_block snap) (mn_blocks task))"

definition blockSnapshotMutation :: "manifest \<Rightarrow> manifest_node \<Rightarrow> block_snapshot \<Rightarrow> graph_mutation res" where
  "blockSnapshotMutation mf task snap =
     buildPlanPackageManifestChangeMutation mf
       (replace_task mf (mn_id task) (task\<lparr>mn_blocks := restored_blocks task snap\<rparr>)) [mn_id task]
       (writePromptSideEffects (mb_prompt (bn_block snap)) (Some (bn_promptMarkdown snap)))"

definition no_block_edit :: block_field_edit where
  "no_block_edit = \<lparr>be_title = None, be_promptMarkdown = None, be_executor = None, be_dependsOn = None,
     be_sharedResources = None, be_requiredCapabilities = None, be_reviewRequired = None, be_maxFeedbackCycles = None,
     be_reviewHook = None\<rparr>"

definition add_block_mutation :: "manifest \<Rightarrow> block_snapshot \<Rightarrow> graph_mutation handled" where
  "add_block_mutation mf snap =
     (case find_task mf (bn_taskId snap) of
        None \<Rightarrow> Inr (Inl (CommandTaskMissing (bn_taskId snap)))
      | Some task \<Rightarrow>
          if list_ex (\<lambda>b. mb_id b = mb_id (bn_block snap)) (mn_blocks task)
          then Inr (Inl (CommandBlockDuplicate (mb_id (bn_block snap))))
          else try_bind (blockSnapshotMutation mf task snap) (\<lambda>m. Inr (Inr m)))"

definition block_mutation :: "manifest \<Rightarrow> plan_command \<Rightarrow> graph_mutation handled" where
  "block_mutation mf c =
     (case c of
        UpdateBlockPromptCommand ref md \<Rightarrow>
          try_bind (buildPlanPackageBlockFieldEditMutation mf ref (no_block_edit\<lparr>be_promptMarkdown := Some md\<rparr>))
            (\<lambda>m. Inr (Inr (fm_mutation m)))
      | UpdateBlockFieldsCommand ref edits \<Rightarrow>
          try_bind (buildPlanPackageBlockFieldEditMutation mf ref edits) (\<lambda>m. Inr (Inr (fm_mutation m)))
      | AddBlockCommand snap \<Rightarrow> add_block_mutation mf snap
      | RestoreBlockCommand snap \<Rightarrow> add_block_mutation mf snap
      | RemoveBlockCommand ref \<Rightarrow>
          try_bind (blockFromManifest mf ref) (\<lambda>current.
          if current = None then Inr (Inl (CommandBlockMissing ref))
          else try_bind (buildPlanPackageGraphMutation mf (RemoveBlock ref)) (\<lambda>m. Inr (Inr m))))"

definition list_or_empty :: "'a list option \<Rightarrow> 'a list" where
  "list_or_empty xs = (case xs of None \<Rightarrow> [] | Some ys \<Rightarrow> ys)"

definition inverse_block_edit :: "manifest_block \<Rightarrow> block_field_edit \<Rightarrow> string option \<Rightarrow> block_field_edit" where
  "inverse_block_edit b edits md =
     \<lparr>be_title = (if be_title edits = None then None else Some (mb_title b)), be_promptMarkdown = md,
      be_executor = (if be_executor edits = None then None else Some (mb_executor b)),
      be_dependsOn = (if be_dependsOn edits = None then None else Some (mb_depends_on b)),
      be_sharedResources =
        (if mb_type b = Implementation \<and> be_sharedResources edits \<noteq> None then Some (list_or_empty (mb_sharedResources b)) else None),
      be_requiredCapabilities =
        (if mb_type b = Implementation \<and> be_requiredCapabilities edits \<noteq> None then Some (list_or_empty (mb_capabilities b)) else None),
      be_reviewRequired =
        (if mb_type b = Review \<and> be_reviewRequired edits \<noteq> None then Some (rp_required (mb_review b)) else None),
      be_maxFeedbackCycles =
        (if mb_type b = Review \<and> be_maxFeedbackCycles edits \<noteq> None then Some (int (rp_maxFeedbackCycles (mb_review b))) else None),
      be_reviewHook =
        (if mb_type b = Review \<and> be_reviewHook edits \<noteq> None then Some (rp_hook (mb_review b)) else None)\<rparr>"

definition inverseBlockFieldsCommand :: "loaded_package \<Rightarrow> string \<Rightarrow> block_field_edit \<Rightarrow> block_field_edit handled" where
  "inverseBlockFieldsCommand ld ref edits =
     try_bind (blockFromManifest (lp_manifest ld) ref) (\<lambda>current.
     Inr (case current of
            None \<Rightarrow> Inl (CommandBlockMissing ref)
          | Some (task, b) \<Rightarrow>
              (case be_promptMarkdown edits of
                 None \<Rightarrow> Inr (inverse_block_edit b edits None)
               | Some _ \<Rightarrow> (case promptMarkdown ld (mb_prompt b) of
                             None \<Rightarrow> Inl (CommandPromptMissing ref)
                           | Some md \<Rightarrow> Inr (inverse_block_edit b edits (Some md))))))"

definition block_inverse :: "loaded_package \<Rightarrow> plan_command \<Rightarrow> plan_command list handled" where
  "block_inverse ld c =
     (case c of
        UpdateBlockPromptCommand ref _ \<Rightarrow>
          try_bind (blockFromManifest (lp_manifest ld) ref) (\<lambda>current.
          Inr (case Option.bind current (\<lambda>(_, b). promptMarkdown ld (mb_prompt b)) of
                 None \<Rightarrow> Inl (CommandPromptMissing ref)
               | Some md \<Rightarrow> Inr [UpdateBlockPromptCommand ref md]))
      | UpdateBlockFieldsCommand ref edits \<Rightarrow>
          try_bind (inverseBlockFieldsCommand ld ref edits) (\<lambda>undo.
          Inr (try_bind undo (\<lambda>f. Inr [UpdateBlockFieldsCommand ref f])))
      | AddBlockCommand snap \<Rightarrow> Inr (Inr [RemoveBlockCommand (blockRef (bn_taskId snap) (mb_id (bn_block snap)))])
      | RestoreBlockCommand snap \<Rightarrow> Inr (Inr [RemoveBlockCommand (blockRef (bn_taskId snap) (mb_id (bn_block snap)))])
      | RemoveBlockCommand ref \<Rightarrow>
          try_bind (readBlockSnapshot ld ref) (\<lambda>snap. Inr (try_bind snap (\<lambda>s. Inr [RestoreBlockCommand s]))))"

section \<open>Bulk commands\<close>

type_synonym bulk_state = "manifest \<times> string list \<times> side_effect list"

definition bulk_step :: "string \<times> block_field_edit \<Rightarrow> bulk_state \<Rightarrow> bulk_state res" where
  "bulk_step u s =
     (case (u, s) of ((ref, edits), (mf, affected, effects)) \<Rightarrow>
        try_bind (buildPlanPackageBlockFieldEditMutation mf ref edits) (\<lambda>m.
        Inr (gm_nextManifest (fm_mutation m), affected @ gm_affectedTasks (fm_mutation m) @ [fm_taskId m],
             effects @ gm_sideEffects (fm_mutation m))))"

definition bulk_mutation_of :: "manifest \<Rightarrow> bulk_state res \<Rightarrow> graph_mutation handled" where
  "bulk_mutation_of mf r =
     try_bind r (\<lambda>(next, affected, effects).
     try_bind (buildPlanPackageManifestChangeMutation mf next affected effects) (\<lambda>m. Inr (Inr m)))"

definition bulkBlockMutation :: "manifest \<Rightarrow> (string \<times> block_field_edit) list \<Rightarrow> graph_mutation handled" where
  "bulkBlockMutation mf updates = bulk_mutation_of mf (for_res bulk_step updates (mf, [], []))"

definition shared_edit :: "string \<times> string list option \<Rightarrow> string \<times> block_field_edit" where
  "shared_edit u = (fst u, no_block_edit\<lparr>be_sharedResources := snd u\<rparr>)"

definition bulkParallelPolicyMutation ::
  "manifest \<Rightarrow> execution_policy_edit option \<Rightarrow> (string \<times> string list option) list \<Rightarrow> graph_mutation handled" where
  "bulkParallelPolicyMutation mf policy blocks =
     (if policy = None \<and> blocks = [] then Inl (FieldInvalid ''bulk_update_parallel_policy'')
      else bulk_mutation_of mf
        (try_bind (case policy of None \<Rightarrow> Inr mf | Some p \<Rightarrow> buildPlanPackageExecutionPolicyFieldEditManifest mf p) (\<lambda>next.
         for_res bulk_step (map shared_edit blocks)
           (next, if policy = None then [] else map mn_id (mf_nodes next), []))))"

text \<open>The inverses of the updates, in their order; the first that cannot be computed is reported.\<close>

definition inverse_updates :: "loaded_package \<Rightarrow> (string \<times> block_field_edit) list \<Rightarrow> (string \<times> block_field_edit) list handled" where
  "inverse_updates ld updates =
     for_res (\<lambda>(ref, edits) acc.
       case acc of
         Inl i \<Rightarrow> Inr (Inl i)
       | Inr us \<Rightarrow> try_bind (inverseBlockFieldsCommand ld ref edits) (\<lambda>undo. Inr (try_bind undo (\<lambda>f. Inr (us @ [(ref, f)])))))
       updates (Inr [])"

definition inverse_policy :: "manifest \<Rightarrow> execution_policy_edit \<Rightarrow> execution_policy_edit" where
  "inverse_policy mf p =
     \<lparr>pe_defaultExecutor = (if pe_defaultExecutor p = None then None else Some (mf_defaultExecutor mf)),
      pe_parallelEnabled = (if pe_parallelEnabled p = None then None else Some (mf_parallelEnabled mf)),
      pe_maxConcurrent = (if pe_maxConcurrent p = None then None else Some (int (mf_maxConcurrent mf)))\<rparr>"

definition bulk_inverse :: "loaded_package \<Rightarrow> plan_command \<Rightarrow> plan_command list handled" where
  "bulk_inverse ld c =
     (case c of
        BulkUpdateBlocksCommand updates \<Rightarrow>
          try_bind (inverse_updates ld updates) (\<lambda>us. Inr (try_bind us (\<lambda>us. Inr [BulkUpdateBlocksCommand us])))
      | BulkUpdateParallelPolicyCommand policy blocks \<Rightarrow>
          try_bind (inverse_updates ld (map shared_edit blocks)) (\<lambda>us.
          Inr (try_bind us (\<lambda>us. Inr [BulkUpdateParallelPolicyCommand (map_option (inverse_policy (lp_manifest ld)) policy)
            (map (\<lambda>(ref, f). (ref, be_sharedResources f)) us)]))))"

section \<open>Dispatch\<close>

datatype command_family = DependencyFamily | TaskFamily | BlockFamily | BulkFamily

fun handlerForCommand :: "plan_command \<Rightarrow> command_family" where
  "handlerForCommand (AddTaskDependencyCommand _ _ _) = DependencyFamily"
| "handlerForCommand (RemoveTaskDependencyCommand _ _) = DependencyFamily"
| "handlerForCommand (ReconnectTaskDependencyCommand _ _ _ _) = DependencyFamily"
| "handlerForCommand (UpdateTaskPromptCommand _ _) = TaskFamily"
| "handlerForCommand (UpdateTaskFieldsCommand _ _) = TaskFamily"
| "handlerForCommand (AddTaskCommand _) = TaskFamily"
| "handlerForCommand (RemoveTaskCommand _) = TaskFamily"
| "handlerForCommand (RestoreTaskCommand _) = TaskFamily"
| "handlerForCommand (UpdateBlockPromptCommand _ _) = BlockFamily"
| "handlerForCommand (UpdateBlockFieldsCommand _ _) = BlockFamily"
| "handlerForCommand (AddBlockCommand _) = BlockFamily"
| "handlerForCommand (RemoveBlockCommand _) = BlockFamily"
| "handlerForCommand (RestoreBlockCommand _) = BlockFamily"
| "handlerForCommand (BulkUpdateBlocksCommand _) = BulkFamily"
| "handlerForCommand (BulkUpdateParallelPolicyCommand _ _) = BulkFamily"

definition bulk_mutation :: "manifest \<Rightarrow> plan_command \<Rightarrow> graph_mutation handled" where
  "bulk_mutation mf c =
     (case c of
        BulkUpdateBlocksCommand updates \<Rightarrow> bulkBlockMutation mf updates
      | BulkUpdateParallelPolicyCommand policy blocks \<Rightarrow> bulkParallelPolicyMutation mf policy blocks)"

definition command_mutation :: "manifest \<Rightarrow> plan_command \<Rightarrow> graph_mutation handled" where
  "command_mutation mf c =
     (case handlerForCommand c of
        DependencyFamily \<Rightarrow> dependency_mutation mf c
      | TaskFamily \<Rightarrow> task_mutation mf c
      | BlockFamily \<Rightarrow> block_mutation mf c
      | BulkFamily \<Rightarrow> bulk_mutation mf c)"

definition command_inverse :: "loaded_package \<Rightarrow> plan_command \<Rightarrow> plan_command list handled" where
  "command_inverse ld c =
     (case handlerForCommand c of
        DependencyFamily \<Rightarrow> Inr (Inr (dependency_inverse (lp_manifest ld) c))
      | TaskFamily \<Rightarrow> Inr (task_inverse ld c)
      | BlockFamily \<Rightarrow> block_inverse ld c
      | BulkFamily \<Rightarrow> bulk_inverse ld c)"

end
