(* ===== verification/Plan_History.thy ===== *)
theory Plan_History
  imports Plan_Commands
begin

text \<open>
  Executing, undoing and redoing commands of the plan graph: \<^verbatim>\<open>plangraph/executeCommand.ts\<close>, the loading of a
  package for it (\<^verbatim>\<open>plangraph/packageRepository.ts\<close>, \<^verbatim>\<open>plangraph/hash.ts\<close>) and the operation
  log (\<^verbatim>\<open>plangraph/sqlite/storeFactory.ts\<close>, \<^verbatim>\<open>operationLogRows.ts\<close>).

  The hash functions are arguments: the hash of a prompt, and the version of a package, which is the hash of its
  manifest and of the prompts by path. So are the clock, the text of a manifest file read as a prompt, and whether the database
  can be opened. The log is the list of the rows of one canvas in the order of their ids; what else the database caches is
  derived from the package and left out, and so are the references that a result reports as affected. The database numbers the
  rows across all canvases and never uses a number twice; here the next number is one above those of the log, which is enough because
  ids are only compared within it.
\<close>

section \<open>Loading\<close>

record plan_environment =
  ge_edit :: edit_environment
  ge_sha :: "string \<Rightarrow> string"
  ge_version :: "manifest \<Rightarrow> (string \<Rightarrow> string option) \<Rightarrow> string"
  ge_json :: "manifest \<Rightarrow> string"
  ge_now :: nat
  ge_store :: "unit res"

definition readPromptEntry :: "plan_environment \<Rightarrow> package \<Rightarrow> string \<Rightarrow> string option" where
  "readPromptEntry env pk packagePath =
     (case resolvePackagePath (ee_fs (ge_edit env)) pk packagePath False of
        Inl _ \<Rightarrow> None
      | Inr p \<Rightarrow>
          if fs_fails (ee_fs (ge_edit env)) (ReadFile p) pk then None
          else (case map_get pk p of
                  None \<Rightarrow> None | Some (Markdown md) \<Rightarrow> Some md | Some (ManifestJson mf) \<Rightarrow> Some (ge_json env mf)))"

definition prompt_paths :: "manifest \<Rightarrow> string list" where
  "prompt_paths mf = concat (map (\<lambda>n. if mn_type n = TaskNode then mn_prompt n # map mb_prompt (mn_blocks n) else []) (mf_nodes mf))"

definition readPromptIndex :: "plan_environment \<Rightarrow> package \<Rightarrow> manifest \<Rightarrow> (string, string) js_map" where
  "readPromptIndex env pk mf =
     fold (\<lambda>path m. case readPromptEntry env pk path of None \<Rightarrow> m | Some md \<Rightarrow> map_set m path md) (prompt_paths mf) []"

definition loadPlanGraphPackage :: "plan_environment \<Rightarrow> package \<Rightarrow> loaded_package res" where
  "loadPlanGraphPackage env pk =
     try_bind (loadPackage (ge_edit env) pk) (\<lambda>mf.
     try_bind (compileTaskGraph mf) (\<lambda>g.
     let prompts = readPromptIndex env pk mf
     in Inr \<lparr>lp_manifest = mf, lp_prompts = prompts, lp_graph = g, lp_version = ge_version env mf (map_get prompts)\<rparr>))"

section \<open>The guard against stale commands\<close>

record command_request =
  cr_command :: plan_command
  cr_baseGraphVersion :: "string option"
  cr_basePromptHash :: "string option"

definition prompt_hash :: "plan_environment \<Rightarrow> loaded_package \<Rightarrow> string \<Rightarrow> string" where
  "prompt_hash env ld path = (case promptMarkdown ld path of None \<Rightarrow> [] | Some md \<Rightarrow> ge_sha env md)"

fun commandPromptTarget :: "plan_command \<Rightarrow> string option" where
  "commandPromptTarget (UpdateTaskPromptCommand taskId _) = Some taskId"
| "commandPromptTarget (UpdateTaskFieldsCommand taskId edits) = (if te_promptMarkdown edits \<noteq> None then Some taskId else None)"
| "commandPromptTarget (UpdateBlockPromptCommand ref _) = Some ref"
| "commandPromptTarget (UpdateBlockFieldsCommand ref edits) = (if be_promptMarkdown edits \<noteq> None then Some ref else None)"
| "commandPromptTarget _ = None"

definition commandPromptHash :: "plan_environment \<Rightarrow> loaded_package \<Rightarrow> plan_command \<Rightarrow> string option" where
  "commandPromptHash env ld c =
     Option.bind (commandPromptTarget c) (\<lambda>target.
     if handlerForCommand c = TaskFamily
     then map_option (\<lambda>n. prompt_hash env ld (mn_prompt n)) (map_get (tasksById (lp_graph ld)) target)
     else map_option (\<lambda>b. prompt_hash env ld (mb_prompt b)) (map_get (blocksByRef (lp_graph ld)) target))"

definition validateBaseVersion :: "plan_environment \<Rightarrow> loaded_package \<Rightarrow> command_request \<Rightarrow> command_issue option" where
  "validateBaseVersion env ld req =
     (case cr_baseGraphVersion req of
        None \<Rightarrow> None
      | Some v \<Rightarrow>
          if v = [] \<or> v = lp_version ld then None
          else if commandPromptTarget (cr_command req) \<noteq> None \<and>
            (case cr_basePromptHash req of None \<Rightarrow> False
             | Some h \<Rightarrow> h \<noteq> [] \<and> commandPromptHash env ld (cr_command req) = Some h)
          then None else Some CommandGraphVersionConflict)"

section \<open>The operation log\<close>

record log_entry =
  oe_id :: nat
  oe_graphVersionBefore :: string
  oe_graphVersionAfter :: string
  oe_command :: plan_command
  oe_inverse :: "plan_command list"
  oe_undoneAt :: "nat option"

fun promptHistoryTarget :: "plan_command \<Rightarrow> string option" where
  "promptHistoryTarget (UpdateTaskPromptCommand taskId _) = Some (''task:'' @ taskId)"
| "promptHistoryTarget (UpdateBlockPromptCommand ref _) = Some (''block:'' @ ref)"
| "promptHistoryTarget (UpdateTaskFieldsCommand taskId edits) =
     (if te_promptMarkdown edits \<noteq> None \<and> te_title edits = None \<and> te_executor edits = None \<and> te_acceptance edits = None
      then Some (''task:'' @ taskId) else None)"
| "promptHistoryTarget (UpdateBlockFieldsCommand ref edits) =
     (if be_promptMarkdown edits \<noteq> None \<and> be_title edits = None \<and> be_executor edits = None \<and> be_dependsOn edits = None \<and>
         be_sharedResources edits = None \<and> be_requiredCapabilities edits = None \<and> be_reviewRequired edits = None \<and>
         be_maxFeedbackCycles edits = None \<and> be_reviewHook edits = None
      then Some (''block:'' @ ref) else None)"
| "promptHistoryTarget _ = None"

type_synonym operation_log = "log_entry list"

definition next_id :: "operation_log \<Rightarrow> nat" where
  "next_id log = Suc (fold (\<lambda>e m. max m (oe_id e)) log 0)"

text \<open>\<^verbatim>\<open>append\<close>: what was undone is forgotten, and an edit of a prompt joins a preceding edit of the same prompt.\<close>

definition log_append :: "string \<Rightarrow> string \<Rightarrow> plan_command \<Rightarrow> plan_command list \<Rightarrow> operation_log \<Rightarrow> operation_log" where
  "log_append versionBefore versionAfter c undo log =
     (let live = filter (\<lambda>e. oe_undoneAt e = None) log;
          entry = \<lparr>oe_id = next_id log, oe_graphVersionBefore = versionBefore, oe_graphVersionAfter = versionAfter,
                   oe_command = c, oe_inverse = undo, oe_undoneAt = None\<rparr>
      in if promptHistoryTarget c \<noteq> None \<and> live \<noteq> [] \<and> promptHistoryTarget (oe_command (last live)) = promptHistoryTarget c
         then butlast live @ [(last live)\<lparr>oe_graphVersionAfter := versionAfter, oe_command := c\<rparr>]
         else live @ [entry])"

definition latestUndoable :: "operation_log \<Rightarrow> log_entry option" where
  "latestUndoable log = List.find (\<lambda>e. oe_undoneAt e = None) (rev log)"

text \<open>The entry undone last; of several, the oldest.\<close>

definition latestRedoable :: "operation_log \<Rightarrow> log_entry option" where
  "latestRedoable log =
     (let undone = filter (\<lambda>e. oe_undoneAt e \<noteq> None) log;
          latest = fold (\<lambda>e m. max m (case oe_undoneAt e of None \<Rightarrow> 0 | Some t \<Rightarrow> t)) undone 0
      in List.find (\<lambda>e. oe_undoneAt e = Some latest) undone)"

definition set_undone :: "nat option \<Rightarrow> nat \<Rightarrow> operation_log \<Rightarrow> operation_log" where
  "set_undone t entryId = map (\<lambda>e. if oe_id e = entryId then e\<lparr>oe_undoneAt := t\<rparr> else e)"

section \<open>Executing\<close>

datatype command_result =
    AppliedCommand (ar_version: string) (ar_inverse: "plan_command list")
  | FailedCommand "command_issue list"

type_synonym plan_state = "package \<times> operation_log"

type_synonym 'a plan_run = "plan_state \<Rightarrow> 'a res \<times> plan_state"

text \<open>The decision, up to the mutation that has to be committed; \<open>None\<close> when there is nothing to do.\<close>

definition prepare_command ::
  "plan_environment \<Rightarrow> command_request \<Rightarrow> loaded_package \<Rightarrow> (plan_command list \<times> graph_mutation option) handled" where
  "prepare_command env req ld =
     try_bind (command_inverse ld (cr_command req)) (\<lambda>inverse.
     case inverse of
       Inl i \<Rightarrow> Inr (Inl i)
     | Inr undo \<Rightarrow>
         (case validateBaseVersion env ld req of
            Some i \<Rightarrow> Inr (Inl i)
          | None \<Rightarrow>
              (case command_mutation (lp_manifest ld) (cr_command req) of
                 Inl e \<Rightarrow> Inr (Inl (CommandValidationFailed e))
               | Inr (Inl i) \<Rightarrow> Inr (Inl i)
               | Inr (Inr m) \<Rightarrow>
                   Inr (Inr (undo, if gm_sideEffects m = [] \<and> gm_nextManifest m = lp_manifest ld then None else Some m)))))"

definition executePlanGraphCommand :: "plan_environment \<Rightarrow> bool \<Rightarrow> command_request \<Rightarrow> command_result plan_run" where
  "executePlanGraphCommand env recordOperation req s =
     (case try_bind (ee_admission (ge_edit env)) (\<lambda>_.
           try_bind (loadPlanGraphPackage env (fst s)) (\<lambda>ld. try_bind (prepare_command env req ld) (\<lambda>p. Inr (ld, p)))) of
        Inl e \<Rightarrow> (Inl e, s)
      | Inr (ld, Inl i) \<Rightarrow> (Inr (FailedCommand [i]), s)
      | Inr (ld, Inr (undo, None)) \<Rightarrow> (Inr (AppliedCommand (lp_version ld) undo), s)
      | Inr (ld, Inr (undo, Some m)) \<Rightarrow>
          (case commitPlanPackageGraphMutation (ge_edit env) m (fst s) of
             (Inl e, pk') \<Rightarrow> (Inl e, (pk', snd s))
           | (Inr er, pk') \<Rightarrow>
               if er_diagnostics er \<noteq> [] then (Inr (FailedCommand (map CommandCommitIssue (er_diagnostics er))), (pk', snd s))
               else (case try_bind (ge_store env) (\<lambda>_. loadPlanGraphPackage env pk') of
                       Inl e \<Rightarrow> (Inl e, (pk', snd s))
                     | Inr after \<Rightarrow>
                         (Inr (AppliedCommand (lp_version after) undo),
                          (pk', if recordOperation then log_append (lp_version ld) (lp_version after) (cr_command req) undo (snd s)
                                else snd s)))))"

definition commandForHistoryReplay :: "plan_command \<Rightarrow> command_request" where
  "commandForHistoryReplay c = \<lparr>cr_command = c, cr_baseGraphVersion = None, cr_basePromptHash = None\<rparr>"

fun replay_commands :: "plan_environment \<Rightarrow> plan_command list \<Rightarrow> command_result \<Rightarrow> command_result plan_run" where
  "replay_commands env [] latest s = (Inr latest, s)"
| "replay_commands env (c # cs) latest s =
     (case executePlanGraphCommand env False (commandForHistoryReplay c) s of
        (Inr (AppliedCommand v undo), s') \<Rightarrow> replay_commands env cs (AppliedCommand v undo) s'
      | other \<Rightarrow> other)"

definition applyHistoryCommand :: "plan_environment \<Rightarrow> plan_command list \<Rightarrow> string \<Rightarrow> command_result plan_run" where
  "applyHistoryCommand env commands expected s =
     (case try_bind (ee_admission (ge_edit env)) (\<lambda>_. loadPlanGraphPackage env (fst s)) of
        Inl e \<Rightarrow> (Inl e, s)
      | Inr ld \<Rightarrow>
          if lp_version ld \<noteq> expected then (Inr (FailedCommand [CommandGraphVersionConflict]), s)
          else replay_commands env commands (FailedCommand [CommandHistoryEmpty]) s)"

definition history_step ::
  "plan_environment \<Rightarrow> log_entry option \<Rightarrow> (log_entry \<Rightarrow> plan_command list) \<Rightarrow> (log_entry \<Rightarrow> string) \<Rightarrow> nat option \<Rightarrow>
   command_result plan_run" where
  "history_step env entry commands expected mark s =
     (case ge_store env of
        Inl e \<Rightarrow> (Inl e, s)
      | Inr _ \<Rightarrow>
          (case entry of
             None \<Rightarrow> (Inr (FailedCommand [CommandHistoryEmpty]), s)
           | Some e \<Rightarrow>
               (case applyHistoryCommand env (commands e) (expected e) s of
                  (Inr (AppliedCommand v undo), (pk', log')) \<Rightarrow> (Inr (AppliedCommand v undo), (pk', set_undone mark (oe_id e) log'))
                | other \<Rightarrow> other)))"

definition undoPlanGraphCommand :: "plan_environment \<Rightarrow> command_result plan_run" where
  "undoPlanGraphCommand env s =
     history_step env (latestUndoable (snd s)) oe_inverse oe_graphVersionAfter (Some (ge_now env)) s"

definition redoPlanGraphCommand :: "plan_environment \<Rightarrow> command_result plan_run" where
  "redoPlanGraphCommand env s =
     history_step env (latestRedoable (snd s)) (\<lambda>e. [oe_command e]) oe_graphVersionBefore None s"

end
