(* ===== verification/Plan_Wellformed.thy ===== *)
theory Plan_Wellformed
  imports Task_Graph
begin

text \<open>
  Which manifests compile without diagnostics. The loops of \<^verbatim>\<open>graph/compileTaskGraph.ts\<close> add their errors one by
  one; here is what a manifest must satisfy for none to be added.
\<close>

section \<open>Loops that report errors\<close>

lemma for_res_errors:
  assumes "for_res f xs s = Inr s'" and "I s"
    and "\<And>x s s'. x \<in> set xs \<Longrightarrow> I s \<Longrightarrow> f x s = Inr s' \<Longrightarrow> I s' \<and> (E s' = [] \<longleftrightarrow> E s = [] \<and> P x)"
  shows "I s' \<and> (E s' = [] \<longleftrightarrow> E s = [] \<and> (\<forall>x \<in> set xs. P x))"
  using assms
proof (induction xs arbitrary: s)
  case (Cons x xs)
  from Cons.prems(1) obtain s1 where s1: "f x s = Inr s1" "for_res f xs s1 = Inr s'" by (auto elim: try_bind_InrE)
  have step: "I s1 \<and> (E s1 = [] \<longleftrightarrow> E s = [] \<and> P x)" using Cons.prems(2,3) s1(1) by auto
  then have "I s' \<and> (E s' = [] \<longleftrightarrow> E s1 = [] \<and> (\<forall>x \<in> set xs. P x))"
    using Cons.IH [OF s1(2)] Cons.prems(3) by auto
  with step show ?case by auto
qed simp

lemma diagnostic_add [simp]: "diagnosticErrors (add_error e g) \<noteq> []" "[] \<noteq> diagnosticErrors (add_error e g)"
  by (simp_all add: add_error_def)

section \<open>What the loops check\<close>

definition blocks_clean :: "manifest_node \<Rightarrow> bool" where
  "blocks_clean n \<longleftrightarrow> distinct (map mb_id (mn_blocks n))"

definition depends_known :: "manifest_node \<Rightarrow> bool" where
  "depends_known n \<longleftrightarrow> (\<forall>b \<in> set (mn_blocks n). set (mb_depends_on b) \<subseteq> mb_id ` set (mn_blocks n))"

definition implementable :: "manifest_node \<Rightarrow> bool" where
  "implementable n \<longleftrightarrow> (\<exists>b \<in> set (mn_blocks n). mb_type b = Implementation)"

definition clean_plan :: "manifest \<Rightarrow> bool" where
  "clean_plan mf \<longleftrightarrow> distinct (map mn_id (mf_nodes mf)) \<and>
     (\<forall>n \<in> set (mf_nodes mf). blocks_clean n \<and> depends_known n \<and> implementable n) \<and>
     distinct (map edgeKey (mf_edges mf)) \<and>
     (\<forall>e \<in> set (mf_edges mf). me_from e \<in> mn_id ` set (mf_nodes mf) \<and> me_to e \<in> mn_id ` set (mf_nodes mf))"

lemma index_nodes_errors: "diagnosticErrors (index_nodes mf) = [] \<longleftrightarrow> distinct (map mn_id (mf_nodes mf))"
proof -
  have fold: "snd (fold index_node ns gd) = [] \<longleftrightarrow>
      snd gd = [] \<and> distinct (map mn_id ns) \<and> (\<forall>n \<in> set ns. \<not> map_has (nodesById (fst gd)) (mn_id n))"
    "diagnosticErrors (fst (fold index_node ns gd)) = diagnosticErrors (fst gd)" for ns gd
  proof (induction ns arbitrary: gd)
    case (Cons n ns)
    have step: "snd (index_node n gd) = (if map_has (nodesById (fst gd)) (mn_id n) then with_ref (snd gd) (mn_id n) else snd gd)"
      "nodesById (fst (index_node n gd)) = map_set (nodesById (fst gd)) (mn_id n) n"
      "diagnosticErrors (fst (index_node n gd)) = diagnosticErrors (fst gd)"
      for gd by (cases gd; cases "mn_type n"; simp add: index_node_def Let_def)+
    { case 1
      show ?case using Cons.IH(1) [of "index_node n gd"] step(1,2) [of gd] by (auto simp: js_map_simps with_ref_def map_has_get image_iff) }
    { case 2
      show ?case using Cons.IH(2) [of "index_node n gd"] step(3) [of gd] by simp }
  qed simp_all
  have errs: "diagnosticErrors (fold (\<lambda>i. add_error (NodeIdDuplicate i)) ds g) = diagnosticErrors g @ map NodeIdDuplicate ds" for ds g
    by (induction ds arbitrary: g) (simp_all add: add_error_def)
  have "\<not> map_has (nodesById empty_graph) x" "diagnosticErrors empty_graph = []" for x
    by (simp_all add: empty_graph_def map_has_get js_map_simps)
  with fold [of "mf_nodes mf" "(empty_graph, [])"] show ?thesis by (simp add: index_nodes_def split_beta errs)
qed

lemma index_nodes_lookup:
  assumes "distinct (map mn_id (mf_nodes mf))" and "n \<in> set (mf_nodes mf)"
  shows "map_get (tasksById (index_nodes mf)) (mn_id n) = Some n"
proof -
  have "mn_id n \<in> set (taskNodesInManifestOrder (index_nodes mf))" using assms(2) by (simp add: index_nodes_order)
  then obtain m where m: "map_get (tasksById (index_nodes mf)) (mn_id n) = Some m"
    using idx_inv_node_get(1) [OF index_nodes_inv] by blast
  from index_nodes_tasks [OF this] have "m \<in> set (mf_nodes mf)" "mn_id m = mn_id n" by auto
  with assms have "m = n" by (auto simp: distinct_map inj_on_def)
  with m show ?thesis by simp
qed

lemma index_blocks_errors:
  assumes "for_res (index_block t) bs gi = Inr gi'"
  shows "tasksById (fst gi') = tasksById (fst gi) \<and> (diagnosticErrors (fst gi') = [] \<longleftrightarrow>
    diagnosticErrors (fst gi) = [] \<and> distinct (map mb_id bs) \<and> (\<forall>b \<in> set bs. mb_id b \<notin> set (snd gi)))"
  using assms
proof (induction bs arbitrary: gi)
  case (Cons b bs)
  from Cons.prems obtain g1 where g1: "index_block t b gi = Inr g1" "for_res (index_block t) bs g1 = Inr gi'"
    by (auto elim: try_bind_InrE)
  have "tasksById (fst g1) = tasksById (fst gi) \<and> set (snd g1) = insert (mb_id b) (set (snd gi)) \<and>
      (diagnosticErrors (fst g1) = [] \<longleftrightarrow> diagnosticErrors (fst gi) = [] \<and> mb_id b \<notin> set (snd gi))"
    using g1(1) by (cases gi) (auto simp: index_block_def Let_def with_ref_def add_error_def split: if_splits elim!: try_bind_InrE)
  with Cons.IH [OF g1(2)] show ?case by (auto simp: image_iff)
qed simp

lemma index_task_errors:
  assumes "index_task t g = Inr g'" and "map_get (tasksById g) t = Some task"
  shows "tasksById g' = tasksById g \<and> (diagnosticErrors g' = [] \<longleftrightarrow> diagnosticErrors g = [] \<and> blocks_clean task)"
proof -
  from assms obtain gi where gi: "for_res (index_block t) (mn_blocks task) (open_task t g, []) = Inr gi" "g' = fst gi"
    by (auto simp: index_task_def Let_def open_task_def requireMapValue_Inr elim!: try_bind_InrE)
  from index_blocks_errors [OF gi(1)] gi(2) show ?thesis by (simp add: open_task_def blocks_clean_def)
qed

lemma known_ids_exact:
  assumes "map_res parse_block_id (task_refs t task) = Inr known"
  shows "known = map mb_id (mn_blocks task)"
proof -
  have "map_res parse_block_id (map (\<lambda>b. blockRef t (mb_id b)) bs) = Inr known \<Longrightarrow> known = map mb_id bs" for bs known
  proof (induction bs arbitrary: known)
    case (Cons b bs)
    then show ?case by (auto dest: parse_of_blockRef elim!: try_bind_InrE)
  qed simp
  with assms show ?thesis by (simp add: task_refs_def)
qed

lemma link_dependency_errors:
  assumes "link_block_dependency t known r d g = Inr g'"
  shows "diagnosticErrors g' = [] \<longleftrightarrow> diagnosticErrors g = [] \<and> d \<in> set known"
  using assms by (auto simp: link_block_dependency_def Let_def split: if_splits elim!: try_bind_InrE)

lemma link_block_errors:
  assumes "link_block t known b g = Inr g'"
  shows "diagnosticErrors g' = [] \<longleftrightarrow> diagnosticErrors g = [] \<and> set (mb_depends_on b) \<subseteq> set known"
  using for_res_errors [OF assms [unfolded link_block_def], where I = "\<lambda>_. True" and E = diagnosticErrors and P = "\<lambda>d. d \<in> set known"]
    link_dependency_errors by auto

lemma link_task_errors:
  assumes "link_task_blocks t g = Inr g'" and "map_get (tasksById g) t = Some task"
    and "map_get (blocksByTask g) t = Some (task_refs t task)"
  shows "diagnosticErrors g' = [] \<longleftrightarrow> diagnosticErrors g = [] \<and> depends_known task"
proof -
  from assms obtain known where known: "map_res parse_block_id (task_refs t task) = Inr known"
    and run: "for_res (link_block t known) (mn_blocks task) g = Inr g'"
    by (auto simp: link_task_blocks_def requireMapValue_Inr elim!: try_bind_InrE)
  from for_res_errors [OF run, where I = "\<lambda>_. True" and E = diagnosticErrors and P = "\<lambda>b. set (mb_depends_on b) \<subseteq> set known"]
    link_block_errors known_ids_exact [OF known]
  show ?thesis by (auto simp: depends_known_def)
qed

lemma link_edge_errors:
  assumes "link_edge e gs = Inr gs'"
  shows "nodesById (fst gs') = nodesById (fst gs) \<and> set (snd gs') = insert (edgeKey e) (set (snd gs)) \<and>
    (diagnosticErrors (fst gs') = [] \<longleftrightarrow>
     diagnosticErrors (fst gs) = [] \<and> edgeKey e \<notin> set (snd gs) \<and> edge_declared (nodesById (fst gs)) e)"
  using assms
  by (cases gs) (auto simp: link_edge_def Let_def with_ref_def edge_declared_def map_has_get
      split: if_splits option.splits elim!: try_bind_InrE)

lemma link_edges_errors:
  assumes "for_res link_edge es gs = Inr gs'"
  shows "diagnosticErrors (fst gs') = [] \<longleftrightarrow> diagnosticErrors (fst gs) = [] \<and> distinct (map edgeKey es) \<and>
    (\<forall>e \<in> set es. edgeKey e \<notin> set (snd gs) \<and> edge_declared (nodesById (fst gs)) e)"
  using assms
proof (induction es arbitrary: gs)
  case (Cons e es)
  from Cons.prems obtain g1 where g1: "link_edge e gs = Inr g1" "for_res link_edge es g1 = Inr gs'"
    by (auto elim: try_bind_InrE)
  from Cons.IH [OF g1(2)] link_edge_errors [OF g1(1)] show ?case by (auto simp: image_iff)
qed simp

definition impl_ref :: "compiled_graph \<Rightarrow> string \<Rightarrow> bool" where
  "impl_ref g ref \<longleftrightarrow> mb_type (the (map_get (blocksByRef g) ref)) = Implementation"

lemma check_implementation_errors:
  assumes "map_get (blocksByTask g) t = Some rs" and "\<forall>r \<in> set rs. map_get (blocksByRef g) r \<noteq> None"
    and "check_implementation t g = Inr g'"
  shows "blocksByTask g' = blocksByTask g \<and> blocksByRef g' = blocksByRef g \<and>
    (diagnosticErrors g' = [] \<longleftrightarrow> diagnosticErrors g = [] \<and> (\<exists>r \<in> set rs. impl_ref g r))"
proof -
  have "some_res (\<lambda>ref. try_bind (requireMapValue (blocksByRef g) ref ''blocksByRef'')
          (\<lambda>b. Inr (mb_type b = Implementation))) rs = Inr (list_ex (impl_ref g) rs)"
    by (rule some_res_Inr) (use assms(2) in \<open>auto simp: impl_ref_def\<close>)
  with assms(1,3) have "g' = (if list_ex (impl_ref g) rs then g else add_error (TaskWithoutImplementationBlock t) g)"
    by (simp add: check_implementation_def)
  then show ?thesis by (auto simp: list_ex_iff)
qed

lemma check_implementations_errors:
  assumes run: "for_res check_implementation ts g = Inr g'"
    and "\<forall>t \<in> set ts. \<exists>rs. map_get (blocksByTask g) t = Some rs \<and> (\<forall>r \<in> set rs. map_get (blocksByRef g) r \<noteq> None)"
  shows "diagnosticErrors g' = [] \<longleftrightarrow> diagnosticErrors g = [] \<and>
    (\<forall>t \<in> set ts. \<exists>r \<in> set (the (map_get (blocksByTask g) t)). impl_ref g r)"
proof -
  let ?I = "\<lambda>s. blocksByTask s = blocksByTask g \<and> blocksByRef s = blocksByRef g"
  let ?P = "\<lambda>t. \<exists>r \<in> set (the (map_get (blocksByTask g) t)). impl_ref g r"
  have "?I g' \<and> (diagnosticErrors g' = [] \<longleftrightarrow> diagnosticErrors g = [] \<and> (\<forall>t \<in> set ts. ?P t))"
  proof (rule for_res_errors [OF run])
    fix t s s'
    assume t: "t \<in> set ts" and I: "?I s" and st: "check_implementation t s = Inr s'"
    from assms(2) t obtain rs where rs: "map_get (blocksByTask s) t = Some rs" "\<forall>r \<in> set rs. map_get (blocksByRef s) r \<noteq> None"
      using I by auto
    from check_implementation_errors [OF this st] I rs(1)
    show "?I s' \<and> (diagnosticErrors s' = [] \<longleftrightarrow> diagnosticErrors s = [] \<and> ?P t)" by (auto simp: impl_ref_def)
  qed simp
  then show ?thesis by blast
qed

lemma clean_block_get:
  assumes ok: "graph_ok g" and t: "t \<in> set (taskNodesInManifestOrder g)" and task: "map_get (tasksById g) t = Some task"
    and clean: "blocks_clean task" and b: "b \<in> set (mn_blocks task)"
  shows "map_get (blocksByRef g) (blockRef t (mb_id b)) = Some b"
proof -
  have rs: "map_get (blocksByTask g) t = Some (task_refs t task)" using ok t task by (simp add: graph_ok_def blocks_exact_def)
  then have "map_get (blockTaskByRef g) (blockRef t (mb_id b)) = Some t"
    using graph_ok_task_of(1) [OF ok rs] b by (simp add: task_refs_def)
  then obtain b' where b': "b' \<in> set (mn_blocks task)" "blockRef t (mb_id b) = blockRef t (mb_id b')"
    "map_get (blocksByRef g) (blockRef t (mb_id b)) = Some b'"
    using ok task unfolding graph_ok_def owned_refs_def by fastforce
  then have "b' = b" using clean b by (auto simp: blocks_clean_def blockRef_def distinct_map inj_on_def)
  with b'(3) show ?thesis by simp
qed

lemma index_tasks_errors:
  assumes run: "for_res index_task ts g = Inr g'" and tasks: "\<forall>t \<in> set ts. map_get (tasksById g) t \<noteq> None"
  shows "diagnosticErrors g' = [] \<longleftrightarrow> diagnosticErrors g = [] \<and> (\<forall>t \<in> set ts. blocks_clean (the (map_get (tasksById g) t)))"
proof -
  let ?P = "\<lambda>t. blocks_clean (the (map_get (tasksById g) t))"
  have "tasksById g' = tasksById g \<and> (diagnosticErrors g' = [] \<longleftrightarrow> diagnosticErrors g = [] \<and> (\<forall>t \<in> set ts. ?P t))"
  proof (rule for_res_errors [OF run])
    fix t s s'
    assume "t \<in> set ts" and I: "tasksById s = tasksById g" and st: "index_task t s = Inr s'"
    with tasks obtain task where "map_get (tasksById s) t = Some task" by auto
    from index_task_errors [OF st this] I this
    show "tasksById s' = tasksById g \<and> (diagnosticErrors s' = [] \<longleftrightarrow> diagnosticErrors s = [] \<and> ?P t)" by simp
  qed simp
  then show ?thesis by blast
qed

lemma link_tasks_errors:
  assumes run: "for_res link_task_blocks (taskNodesInManifestOrder g) g = Inr g'"
    and wf: "graph_wf g" and ex: "blocks_exact (set (taskNodesInManifestOrder g)) g"
  shows "link_inv g g' \<and> (diagnosticErrors g' = [] \<longleftrightarrow>
    diagnosticErrors g = [] \<and> (\<forall>t \<in> set (taskNodesInManifestOrder g). depends_known (the (map_get (tasksById g) t))))"
proof (rule for_res_errors [OF run])
  show "link_inv g g" using wf by (simp add: link_inv_def)
next
  fix t s s'
  assume t: "t \<in> set (taskNodesInManifestOrder g)" and I: "link_inv g s" and st: "link_task_blocks t s = Inr s'"
  have fr: "taskNodesInManifestOrder s = taskNodesInManifestOrder g" "tasksById s = tasksById g" "blocksByTask s = blocksByTask g"
    using I by (auto simp: link_inv_def same_frame_def)
  have ex': "blocks_exact (set (taskNodesInManifestOrder s)) s" using ex fr by (simp add: blocks_exact_def)
  from graph_wf_task(1) [OF wf t] obtain task where task: "map_get (tasksById s) t = Some task" using fr by auto
  then have rs: "map_get (blocksByTask s) t = Some (task_refs t task)" using ex' t fr by (simp add: blocks_exact_def)
  have "link_inv s s'" using link_task_blocks_partial [OF link_inv_wf [OF I] ex' _ st] t fr by simp
  with I link_task_errors [OF st task rs] task fr show "link_inv g s' \<and> (diagnosticErrors s' = [] \<longleftrightarrow>
      diagnosticErrors s = [] \<and> depends_known (the (map_get (tasksById g) t)))"
    by (auto intro: link_inv_trans)
qed

lemma implementable_refs:
  assumes ok: "graph_ok g" and t: "t \<in> set (taskNodesInManifestOrder g)" and task: "map_get (tasksById g) t = Some task"
    and clean: "blocks_clean task"
  shows "(\<exists>r \<in> set (the (map_get (blocksByTask g) t)). impl_ref g r) \<longleftrightarrow> implementable task"
proof -
  have "map_get (blocksByTask g) t = Some (task_refs t task)" using ok t task by (simp add: graph_ok_def blocks_exact_def)
  then show ?thesis using clean_block_get [OF assms] by (auto simp: task_refs_def impl_ref_def implementable_def)
qed

text \<open>The errors up to the edges, and the two checks that remain.\<close>

lemma compile_errors_linked:
  assumes "compileTaskGraph mf = Inr g"
  obtains g3 g4 where "check_cycles g3 = Inr g4" "for_res check_implementation (map mn_id (mf_nodes mf)) g4 = Inr g" "graph_wf g3"
    "taskNodesInManifestOrder g3 = map mn_id (mf_nodes mf)" "tasksById g3 = tasksById (index_nodes mf)"
    "diagnosticErrors g3 = [] \<longleftrightarrow> distinct (map mn_id (mf_nodes mf)) \<and>
       (\<forall>t \<in> mn_id ` set (mf_nodes mf). blocks_clean (the (map_get (tasksById (index_nodes mf)) t)) \<and>
          depends_known (the (map_get (tasksById (index_nodes mf)) t))) \<and> distinct (map edgeKey (mf_edges mf)) \<and>
       (\<forall>e \<in> set (mf_edges mf). me_from e \<in> mn_id ` set (mf_nodes mf) \<and> me_to e \<in> mn_id ` set (mf_nodes mf))"
proof -
  let ?O = "taskNodesInManifestOrder (index_nodes mf)"
  let ?task = "\<lambda>t. the (map_get (tasksById (index_nodes mf)) t)"
  from assms obtain g1 g2 gs g4 where st: "for_res index_task ?O (index_nodes mf) = Inr g1"
    "for_res link_task_blocks ?O g1 = Inr g2" "for_res link_edge (mf_edges mf) (g2, []) = Inr gs"
    "check_cycles (fst gs) = Inr g4" "for_res check_implementation ?O g4 = Inr g"
    by (auto simp: compileTaskGraph_def Let_def elim!: try_bind_InrE)
  have order: "set ?O = mn_id ` set (mf_nodes mf)" by (simp add: index_nodes_order)
  have tasks: "map_get (tasksById (index_nodes mf)) t \<noteq> None" if "t \<in> set ?O" for t
    using idx_inv_node_get(1) [OF index_nodes_inv that] by auto
  from index_tasks_total [OF index_nodes_inv [of mf]] st(1)
  have g1: "graph_wf g1" "same_frame (index_nodes mf) g1" "blocks_exact (set ?O) g1" by auto
  have o1: "taskNodesInManifestOrder g1 = ?O" "tasksById g1 = tasksById (index_nodes mf)" "nodesById g1 = nodesById (index_nodes mf)"
    using g1(2) by (simp_all add: same_frame_def)
  have e1: "diagnosticErrors g1 = [] \<longleftrightarrow> diagnosticErrors (index_nodes mf) = [] \<and> (\<forall>t \<in> set ?O. blocks_clean (?task t))"
    using index_tasks_errors [OF st(1)] tasks by blast
  have e2: "link_inv g1 g2 \<and> (diagnosticErrors g2 = [] \<longleftrightarrow> diagnosticErrors g1 = [] \<and> (\<forall>t \<in> set ?O. depends_known (?task t)))"
    using link_tasks_errors [of g1 g2] st(2) g1 o1 by simp
  have nodes: "map_has (nodesById g2) x \<longleftrightarrow> x \<in> mn_id ` set (mf_nodes mf)" for x
    using e2 o1 index_nodes_inv [of mf] order by (auto simp: link_inv_def same_frame_def idx_inv_def Let_def dom_is_def)
  have e3: "diagnosticErrors (fst gs) = [] \<longleftrightarrow> diagnosticErrors g2 = [] \<and> distinct (map edgeKey (mf_edges mf)) \<and>
      (\<forall>e \<in> set (mf_edges mf). me_from e \<in> mn_id ` set (mf_nodes mf) \<and> me_to e \<in> mn_id ` set (mf_nodes mf))"
    using link_edges_errors [OF st(3)] nodes by (auto simp: edge_declared_def)
  from compile_before_checks [OF st(2,1)] st(3) have wf3: "graph_wf (fst gs)" by (auto simp: linked_def)
  have fr: "ref_frame g2 (fst gs)"
    using for_res_invariant [OF st(3), of "\<lambda>gs. ref_frame g2 (fst gs)"] by (auto intro: link_edge_frame ref_frame_trans)
  have "taskNodesInManifestOrder (fst gs) = map mn_id (mf_nodes mf)"
    using compile_before_checks [OF st(2,1)] st(3) by (auto simp: linked_def)
  moreover have "tasksById (fst gs) = tasksById (index_nodes mf)"
    using fr e2 o1 by (simp add: ref_frame_def link_inv_def same_frame_def)
  moreover have "diagnosticErrors (fst gs) = [] \<longleftrightarrow> distinct (map mn_id (mf_nodes mf)) \<and>
       (\<forall>t \<in> mn_id ` set (mf_nodes mf). blocks_clean (?task t) \<and> depends_known (?task t)) \<and> distinct (map edgeKey (mf_edges mf)) \<and>
       (\<forall>e \<in> set (mf_edges mf). me_from e \<in> mn_id ` set (mf_nodes mf) \<and> me_to e \<in> mn_id ` set (mf_nodes mf))"
    using e1 e2 e3 index_nodes_errors [of mf] unfolding order by blast
  ultimately show thesis using that [OF st(4) _ wf3] st(5) by (simp add: index_nodes_order)
qed

lemma compile_errors:
  assumes "compileTaskGraph mf = Inr g"
  shows "diagnosticErrors g = [] \<longleftrightarrow>
    clean_plan mf \<and> acyclic (depends_relation mf) \<and> acyclic (edges_of (blockDependenciesByRef g))"
proof -
  let ?task = "\<lambda>t. the (map_get (tasksById (index_nodes mf)) t)"
  from compile_errors_linked [OF assms] obtain g3 g4 where
    st: "check_cycles g3 = Inr g4" "for_res check_implementation (map mn_id (mf_nodes mf)) g4 = Inr g" and wf: "graph_wf g3"
    and fr: "taskNodesInManifestOrder g3 = map mn_id (mf_nodes mf)" "tasksById g3 = tasksById (index_nodes mf)"
    and e3: "diagnosticErrors g3 = [] \<longleftrightarrow> distinct (map mn_id (mf_nodes mf)) \<and>
       (\<forall>t \<in> mn_id ` set (mf_nodes mf). blocks_clean (?task t) \<and> depends_known (?task t)) \<and> distinct (map edgeKey (mf_edges mf)) \<and>
       (\<forall>e \<in> set (mf_edges mf). me_from e \<in> mn_id ` set (mf_nodes mf) \<and> me_to e \<in> mn_id ` set (mf_nodes mf))"
    by blast
  from check_cycles_total [OF wf] st(1) obtain tc bc where c: "cycles_reported g3 g4 tc bc" by auto
  then have l4: "link_inv g3 g4" by (simp add: cycles_reported_def)
  have o4: "taskNodesInManifestOrder g4 = map mn_id (mf_nodes mf)" using l4 fr by (simp add: link_inv_def same_frame_def)
  from check_implementations_total [OF link_inv_wf [OF l4]] st(2) o4 have
    g5: "link_inv g4 g" "taskAdjacency g = taskAdjacency g4" "blockDependenciesByRef g = blockDependenciesByRef g4" by auto
  have bb: "blocksByRef g = blocksByRef g4" "blocksByTask g = blocksByTask g4" "tasksById g = tasksById (index_nodes mf)"
    using for_res_invariant [OF st(2), of "ref_frame g4"] check_implementation_frame ref_frame_trans g5(1) l4 fr
    by (auto simp: ref_frame_def link_inv_def same_frame_def)
  have cyc: "diagnosticErrors g4 = [] \<longleftrightarrow>
      diagnosticErrors g3 = [] \<and> acyclic (depends_relation mf) \<and> acyclic (edges_of (blockDependenciesByRef g))"
    using c g5 compile_edges [OF assms] by (auto simp: cycles_reported_def)
  have "\<exists>rs. map_get (blocksByTask g4) t = Some rs \<and> (\<forall>r \<in> set rs. map_get (blocksByRef g4) r \<noteq> None)"
    if "t \<in> set (map mn_id (mf_nodes mf))" for t
    using graph_wf_task(4) [OF link_inv_wf [OF l4], of t] graph_wf_ref(1) [OF link_inv_wf [OF l4]] that o4 by fastforce
  then have e5: "diagnosticErrors g = [] \<longleftrightarrow> diagnosticErrors g4 = [] \<and>
      (\<forall>t \<in> mn_id ` set (mf_nodes mf). \<exists>r \<in> set (the (map_get (blocksByTask g) t)). impl_ref g r)"
    using check_implementations_errors [OF st(2)] bb by (simp add: impl_ref_def)
  have impl: "(\<exists>r \<in> set (the (map_get (blocksByTask g) (mn_id n))). impl_ref g r) \<longleftrightarrow> implementable n"
    if "distinct (map mn_id (mf_nodes mf))" "n \<in> set (mf_nodes mf)" "blocks_clean n" for n
    using implementable_refs [OF compile_graph_ok [OF assms], of "mn_id n" n] compile_facts(3) [OF assms]
      index_nodes_lookup [OF that(1,2)] bb(3) that by simp
  show ?thesis
    unfolding e5 cyc e3 clean_plan_def using index_nodes_lookup [of mf] impl by (simp cong: ball_cong conj_cong) blast
qed



end
