(* ===== verification/Plan_Undo.thy ===== *)
theory Plan_Undo
  imports Plan_History Plan_Wellformed "HOL-Library.Multiset"
begin

text \<open>
  Undoing a command brings the plan back: the inverse that a handler of \<^verbatim>\<open>plangraph/commandHandlers/\<close> records is
  accepted on the plan after the command, and it restores the plan before it. Two commands restore the dependencies in another order,
  which the version of the package notices.
\<close>

section \<open>Plans that can be edited\<close>

definition ids_fine :: "manifest \<Rightarrow> bool" where
  "ids_fine mf \<longleftrightarrow> manifest_ids_ok mf \<and> nul_free mf"

lemma change_total:
  assumes "ids_fine a" and "ids_fine b"
  shows "\<exists>m. buildPlanPackageManifestChangeMutation a b affected effects = Inr m \<and> gm_nextManifest m = b"
proof -
  from assms compile_total obtain ga gb where g: "compileTaskGraph a = Inr ga" "compileTaskGraph b = Inr gb"
    unfolding ids_fine_def by blast
  have ne: "[] \<notin> task_ids mf" if "ids_fine mf" for mf
    using that by (auto simp: ids_fine_def manifest_ids_ok_def task_ids_def id_ok_def list_all_iff)
  have "keys_apart a b"
    unfolding keys_apart_def
  proof (rule inj_onI)
    fix x y
    assume "x \<in> set (mf_edges a) \<union> set (mf_edges b)" "y \<in> set (mf_edges a) \<union> set (mf_edges b)" and k: "edgeKey x = edgeKey y"
    with assms have "CHR 0x00 \<notin> set (me_from x)" "CHR 0x00 \<notin> set (me_from y)"
      by (auto simp: ids_fine_def nul_free_def list_all_iff)
    with k show "x = y" by (rule edgeKey_inj)
  qed
  with g ne assms have "change_ok a b ga gb" by (simp add: change_ok_def)
  from affected_exact [OF this] obtain A where "affectedTasks a b = Inr A" by blast
  then show ?thesis by (simp add: buildPlanPackageManifestChangeMutation_def)
qed

text \<open>Field edits trim the texts they are given; a plan whose texts are trimmed can be restored exactly.\<close>

definition tidy :: "string \<Rightarrow> bool" where
  "tidy s \<longleftrightarrow> trim s = s \<and> s \<noteq> []"

definition tidy_block :: "manifest_block \<Rightarrow> bool" where
  "tidy_block b \<longleftrightarrow> tidy (mb_title b) \<and> list_all tidy (mb_depends_on b) \<and>
     (case mb_executor b of None \<Rightarrow> True | Some e \<Rightarrow> tidy e) \<and>
     (case b of ManifestImplementationBlock _ _ _ _ _ _ (Some rs) \<Rightarrow> list_all tidy rs | _ \<Rightarrow> True)"

definition tidy_node :: "manifest_node \<Rightarrow> bool" where
  "tidy_node n \<longleftrightarrow> tidy (mn_title n) \<and> list_all tidy (mn_acceptance n) \<and>
     (case mn_executor n of None \<Rightarrow> True | Some e \<Rightarrow> tidy e) \<and> list_all tidy_block (mn_blocks n)"

definition editable :: "string list \<Rightarrow> manifest \<Rightarrow> bool" where
  "editable executors mf \<longleftrightarrow>
     manifestSchema executors mf = Some mf \<and> clean_plan mf \<and> ids_fine mf \<and> list_all tidy_node (mf_nodes mf)"

fun replay_manifest :: "string list \<Rightarrow> plan_command list \<Rightarrow> manifest \<Rightarrow> manifest option" where
  "replay_manifest executors [] mf = Some mf"
| "replay_manifest executors (c # cs) mf =
     (case command_mutation mf c of
        Inr (Inr m) \<Rightarrow>
          (case manifestSchema executors (gm_nextManifest m) of
             None \<Rightarrow> None | Some mf' \<Rightarrow> replay_manifest executors cs mf')
      | _ \<Rightarrow> None)"

lemma task_type [simp]: "mn_type n = TaskNode"
  by (cases "mn_type n") simp

lemma edge_eq: "e = dependency (me_from e) (me_to e)"
  by (cases e; cases "me_type e") (simp add: dependency_def)

lemma schema_parts:
  assumes "manifestSchema executors mf = Some mf1"
  shows "mf1 = mf\<lparr>mf_nodes := map parsed_node (mf_nodes mf)\<rparr>" and "manifest_valid executors mf1"
  using assms manifestSchema_idem(2) [OF assms] by (auto simp: manifestSchema_def split: if_splits)

lemma parsed_fixed:
  assumes "manifestSchema executors mf = Some mf" and "n \<in> set (mf_nodes mf)"
  shows "parsed_node n = n" and "\<forall>b \<in> set (mn_blocks n). parsed_block b = b"
proof -
  have "map parsed_node (mf_nodes mf) = mf_nodes mf" using schema_parts(1) [OF assms(1)] by (metis manifest.surjective manifest.update_convs(4) manifest.select_convs(4))
  then show *: "parsed_node n = n" using assms(2) by (metis map_idI list.map_ident map_eq_conv)
  then have "map parsed_block (mn_blocks n) = mn_blocks n" by (metis parsed_node_fields(3))
  then show "\<forall>b \<in> set (mn_blocks n). parsed_block b = b" by (metis map_idI list.map_ident map_eq_conv)
qed

lemma find_task_None: "find_task mf t = None \<longleftrightarrow> t \<notin> task_ids mf"
  by (auto simp: find_task_def find_None_iff task_ids_def)

lemma find_unique:
  assumes "distinct (map key xs)" and "x \<in> set xs"
  shows "List.find (\<lambda>y. key y = key x) xs = Some x"
  using assms by (induction xs) (auto simp: image_iff)

lemma find_task_Some:
  assumes "distinct (map mn_id (mf_nodes mf))"
  shows "find_task mf t = Some n \<longleftrightarrow> n \<in> set (mf_nodes mf) \<and> mn_id n = t"
proof
  show "n \<in> set (mf_nodes mf) \<and> mn_id n = t" if "find_task mf t = Some n"
    using find_Some_iff_mem [OF that [unfolded find_task_def]] by simp
  show "find_task mf t = Some n" if "n \<in> set (mf_nodes mf) \<and> mn_id n = t"
    using find_unique [OF assms, of n] that by (auto simp: find_task_def)
qed

lemma editable_parts:
  assumes "editable executors mf"
  shows "manifestSchema executors mf = Some mf" "clean_plan mf" "ids_fine mf" "distinct (map mn_id (mf_nodes mf))"
    "distinct (mf_edges mf)"
  using assms by (auto simp: editable_def clean_plan_def distinct_map)

text \<open>A change that leads back to the plan is accepted.\<close>

lemma replay_back:
  assumes "editable executors mf" and "ids_fine mf1"
    and "\<And>m. buildPlanPackageManifestChangeMutation mf1 mf affected effects = Inr m \<Longrightarrow> command_mutation mf1 c = Inr (Inr m)"
  shows "replay_manifest executors [c] mf1 = Some mf"
proof -
  from change_total [OF assms(2)] editable_parts(3) [OF assms(1)] obtain m where
    m: "buildPlanPackageManifestChangeMutation mf1 mf affected effects = Inr m" "gm_nextManifest m = mf" by blast
  with assms(3) editable_parts(1) [OF assms(1)] show ?thesis by simp
qed

section \<open>Dependency commands\<close>

lemma filter_absent: "x \<notin> set xs \<Longrightarrow> filter (\<lambda>y. y \<noteq> x) xs = xs"
  by (auto simp: filter_id_conv)

lemma filter_insert_at: "x \<notin> set xs \<Longrightarrow> filter (\<lambda>y. y \<noteq> x) (insert_at i x xs) = xs"
proof -
  assume "x \<notin> set xs"
  then have "x \<notin> set (take i xs)" "x \<notin> set (drop i xs)" by (auto dest: in_set_takeD in_set_dropD)
  then show ?thesis by (simp add: insert_at_def filter_absent)
qed

lemma findIndex_Some:
  assumes "x \<in> set xs" and "distinct xs"
  obtains i where "findIndex (\<lambda>y. y = x) xs = Some i" "i \<le> length (filter (\<lambda>y. y \<noteq> x) xs)"
    "insert_at i x (filter (\<lambda>y. y \<noteq> x) xs) = xs"
proof -
  from assms(1) obtain ys zs where xs: "xs = ys @ x # zs" "x \<notin> set ys" by (meson split_list_first)
  have i: "findIndex (\<lambda>y. y = x) (ys @ x # zs) = Some (length ys)" using xs(2) by (induction ys) auto
  have "filter (\<lambda>y. y \<noteq> x) ys = ys" "filter (\<lambda>y. y \<noteq> x) zs = zs" using assms(2) xs by (simp_all add: filter_absent)
  with that [of "length ys"] i show thesis by (simp add: insert_at_def xs(1))
qed

lemma endpoints_known:
  "validateDependencyCommand mf c = None \<longleftrightarrow> set (dependency_endpoints c) \<subseteq> task_ids mf"
  by (auto simp: validateDependencyCommand_def find_None_iff find_task_None)

lemma change_next:
  "buildPlanPackageManifestChangeMutation mf next affected effects = Inr m \<Longrightarrow> gm_nextManifest m = next"
  by (rule mutation_fields(2))

lemma same_nodes_schema:
  assumes "editable executors mf" and "mf_nodes next = mf_nodes mf" and "manifestSchema executors next = Some mf1"
  shows "mf1 = next"
proof -
  have "map parsed_node (mf_nodes mf) = mf_nodes mf"
    using parsed_fixed(1) [OF editable_parts(1) [OF assms(1)]] by (simp add: map_idI)
  with schema_parts(1) [OF assms(3)] assms(2) show ?thesis by simp
qed

lemma undo_add_dependency:
  assumes ed: "editable executors mf" and run: "command_mutation mf (AddTaskDependencyCommand a b i) = Inr (Inr m)"
    and mf1: "manifestSchema executors (gm_nextManifest m) = Some mf1" "ids_fine mf1"
  shows "replay_manifest executors [RemoveTaskDependencyCommand a b] mf1 = Some mf"
proof -
  let ?e = "dependency a b"
  from run have known: "{a, b} \<subseteq> task_ids mf" and new: "?e \<notin> set (mf_edges mf)"
    and m: "\<exists>k. gm_nextManifest m = mf\<lparr>mf_edges := insert_at k ?e (mf_edges mf)\<rparr>"
    by (auto simp: command_mutation_def dependency_mutation_def endpoints_known buildPlanPackageGraphMutation_def try_bind_eq_Inr
        insert_at_def intro: exI [of _ "length (mf_edges mf)"] dest!: change_next split: option.splits if_splits)
  then obtain k where k: "gm_nextManifest m = mf\<lparr>mf_edges := insert_at k ?e (mf_edges mf)\<rparr>" by blast
  have eq: "mf1 = mf\<lparr>mf_edges := insert_at k ?e (mf_edges mf)\<rparr>"
    using same_nodes_schema [OF ed _ mf1(1)] k by simp
  show ?thesis
  proof (rule replay_back [OF ed mf1(2)])
    fix m'
    assume "buildPlanPackageManifestChangeMutation mf1 mf [] [] = Inr m'"
    moreover have "mf1\<lparr>mf_edges := filter (\<lambda>e. e \<noteq> ?e) (mf_edges mf1)\<rparr> = mf" using eq filter_insert_at [OF new] by simp
    moreover have "?e \<in> set (mf_edges mf1)" "task_ids mf1 = task_ids mf" using eq by (auto simp: insert_at_def task_ids_def)
    moreover from this have "validateDependencyCommand mf1 (RemoveTaskDependencyCommand a b) = None" using known by (simp add: endpoints_known)
    ultimately show "command_mutation mf1 (RemoveTaskDependencyCommand a b) = Inr (Inr m')"
      by (simp add: command_mutation_def dependency_mutation_def buildPlanPackageGraphMutation_def)
  qed
qed

lemma undo_remove_dependency:
  assumes ed: "editable executors mf" and run: "command_mutation mf (RemoveTaskDependencyCommand a b) = Inr (Inr m)"
    and mf1: "manifestSchema executors (gm_nextManifest m) = Some mf1" "ids_fine mf1"
  shows "replay_manifest executors (dependency_inverse mf (RemoveTaskDependencyCommand a b)) mf1 = Some mf"
proof -
  let ?e = "dependency a b"
  from run have known: "{a, b} \<subseteq> task_ids mf" and old: "?e \<in> set (mf_edges mf)"
    and m: "gm_nextManifest m = mf\<lparr>mf_edges := filter (\<lambda>e. e \<noteq> ?e) (mf_edges mf)\<rparr>"
    by (auto simp: command_mutation_def dependency_mutation_def endpoints_known buildPlanPackageGraphMutation_def try_bind_eq_Inr
        dest!: change_next split: option.splits if_splits)
  have eq: "mf1 = mf\<lparr>mf_edges := filter (\<lambda>e. e \<noteq> ?e) (mf_edges mf)\<rparr>" using same_nodes_schema [OF ed _ mf1(1)] m by simp
  from findIndex_Some [OF old editable_parts(5) [OF ed]] obtain i where
    i: "findIndex (\<lambda>y. y = ?e) (mf_edges mf) = Some i" "i \<le> length (mf_edges mf1)" "insert_at i ?e (mf_edges mf1) = mf_edges mf"
    using eq by auto
  have ret: "mf1\<lparr>mf_edges := insert_at i ?e (mf_edges mf1)\<rparr> = mf" using i(3) eq by simp
  show ?thesis
    unfolding dependency_inverse_def i(1) plan_command.case option.case
  proof (rule replay_back [OF ed mf1(2)])
    fix m'
    assume "buildPlanPackageManifestChangeMutation mf1 mf [] [] = Inr m'"
    moreover have "?e \<notin> set (mf_edges mf1)" "task_ids mf1 = task_ids mf" using eq by (auto simp: task_ids_def)
    moreover from this have "validateDependencyCommand mf1 (AddTaskDependencyCommand a b (Some (int i))) = None"
      using known by (simp add: endpoints_known)
    ultimately show "command_mutation mf1 (AddTaskDependencyCommand a b (Some (int i))) = Inr (Inr m')"
      using i(2) ret by (simp add: command_mutation_def dependency_mutation_def)
  qed
qed

text \<open>A plan with the same dependencies in another order.\<close>

definition same_plan :: "manifest \<Rightarrow> manifest \<Rightarrow> bool" where
  "same_plan mf mf' \<longleftrightarrow> mf' = mf\<lparr>mf_edges := mf_edges mf'\<rparr> \<and> mset (mf_edges mf') = mset (mf_edges mf)"

lemma same_plan_editable:
  assumes ed: "editable executors mf" and same: "same_plan mf mf'"
  shows "editable executors mf'"
proof -
  from same obtain es where es: "mf' = mf\<lparr>mf_edges := es\<rparr>" "mset es = mset (mf_edges mf)" unfolding same_plan_def by blast
  from es(1) mset_eq_setD [OF es(2)] have eq: "mf_nodes mf' = mf_nodes mf" "set (mf_edges mf') = set (mf_edges mf)"
    "mf_defaultExecutor mf' = mf_defaultExecutor mf" "mf_maxConcurrent mf' = mf_maxConcurrent mf" by simp_all
  have "manifest_valid executors mf" using manifestSchema_idem(2) [OF editable_parts(1) [OF ed]] .
  then have "manifest_valid executors mf'" by (simp add: manifest_valid_def eq list_all_iff)
  moreover have "map parsed_node (mf_nodes mf') = mf_nodes mf'"
    using parsed_fixed(1) [OF editable_parts(1) [OF ed]] eq(1) by (simp add: map_idI)
  ultimately have "manifestSchema executors mf' = Some mf'" by (simp add: manifestSchema_def)
  moreover have "distinct (map edgeKey (mf_edges mf'))"
  proof -
    have "mset (map edgeKey (mf_edges mf')) = mset (map edgeKey (mf_edges mf))" using same by (simp add: same_plan_def)
    from mset_eq_imp_distinct_iff [OF this] ed show ?thesis by (simp add: editable_def clean_plan_def)
  qed
  ultimately show ?thesis using ed eq by (simp add: editable_def clean_plan_def ids_fine_def manifest_ids_ok_def nul_free_def list_all_iff)
qed

lemma mset_move_last: "distinct xs \<Longrightarrow> x \<in> set xs \<Longrightarrow> mset (filter (\<lambda>y. y \<noteq> x) xs @ [x]) = mset xs"
proof (induction xs)
  case (Cons y ys)
  then show ?case by (cases "y = x") (simp_all add: filter_absent del: mset_filter)
qed simp

lemma undo_reconnect:
  assumes ed: "editable executors mf" and run: "command_mutation mf (ReconnectTaskDependencyCommand a b f c) = Inr (Inr m)"
    and mf1: "manifestSchema executors (gm_nextManifest m) = Some mf1" "ids_fine mf1"
  shows "\<exists>mf2. replay_manifest executors (dependency_inverse mf (ReconnectTaskDependencyCommand a b f c)) mf1 = Some mf2 \<and>
    same_plan mf mf2"
proof -
  let ?f = "case f of None \<Rightarrow> a | Some f \<Rightarrow> f"
  let ?old = "dependency a b" and ?new = "dependency (case f of None \<Rightarrow> a | Some f \<Rightarrow> f) c"
  let ?c' = "ReconnectTaskDependencyCommand ?f c (Some a) b"
  from run have known: "{a, ?f, b, c} \<subseteq> task_ids mf" and rec: "reconnectDependencyMutation mf a b f c = Inr (Inr m)"
    by (auto simp: command_mutation_def dependency_mutation_def endpoints_known split: option.splits if_splits)
  have inv: "dependency_inverse mf (ReconnectTaskDependencyCommand a b f c) = [?c']" by (simp add: dependency_inverse_def)
  have cmd: "command_mutation mf1 ?c' = reconnectDependencyMutation mf1 ?f c (Some a) b" if "mf_nodes mf1 = mf_nodes mf"
  proof -
    have "validateDependencyCommand mf1 ?c' = None" using known that by (simp add: endpoints_known task_ids_def)
    then show ?thesis by (simp add: command_mutation_def dependency_mutation_def)
  qed
  show ?thesis
  proof (cases "?old = ?new")
    case True
    with rec have "gm_nextManifest m = mf" by (auto simp: reconnectDependencyMutation_def Let_def try_bind_eq_Inr dest!: change_next)
    then have eq: "mf1 = mf" using same_nodes_schema [OF ed _ mf1(1)] by simp
    have "replay_manifest executors [?c'] mf1 = Some mf"
      by (rule replay_back [OF ed mf1(2), of "[?f]" "[]"]) (use True cmd eq in \<open>simp add: reconnectDependencyMutation_def Let_def\<close>)
    then show ?thesis by (auto simp: inv same_plan_def)
  next
    case False
    with rec have e: "?old \<in> set (mf_edges mf)" "?new \<notin> set (mf_edges mf)"
      and m: "gm_nextManifest m = mf\<lparr>mf_edges := filter (\<lambda>e. e \<noteq> ?old) (mf_edges mf) @ [?new]\<rparr>"
      by (auto simp: reconnectDependencyMutation_def Let_def try_bind_eq_Inr dest!: change_next split: if_splits)
    have eq: "mf1 = mf\<lparr>mf_edges := filter (\<lambda>e. e \<noteq> ?old) (mf_edges mf) @ [?new]\<rparr>"
      using same_nodes_schema [OF ed _ mf1(1)] m by simp
    let ?mf2 = "mf\<lparr>mf_edges := filter (\<lambda>e. e \<noteq> ?old) (mf_edges mf) @ [?old]\<rparr>"
    have same: "same_plan mf ?mf2" using mset_move_last [OF editable_parts(5) [OF ed] e(1)] by (simp add: same_plan_def)
    have es: "filter (\<lambda>e. e \<noteq> ?new) (mf_edges mf1) = filter (\<lambda>e. e \<noteq> ?old) (mf_edges mf)"
      using e(2) by (auto simp: eq intro: filter_cong)
    have "replay_manifest executors [?c'] mf1 = Some ?mf2"
    proof (rule replay_back [OF same_plan_editable [OF ed same] mf1(2)])
      fix m'
      assume "buildPlanPackageManifestChangeMutation mf1 ?mf2 [] [] = Inr m'"
      moreover have "mf1\<lparr>mf_edges := filter (\<lambda>e. e \<noteq> ?new) (mf_edges mf1) @ [?old]\<rparr> = ?mf2" using es eq by simp
      moreover have "?new \<in> set (mf_edges mf1)" "?old \<notin> set (mf_edges mf1)" using False by (auto simp: eq)
      ultimately show "command_mutation mf1 ?c' = Inr (Inr m')"
        using cmd False eq by (auto simp: reconnectDependencyMutation_def Let_def)
    qed
    with same show ?thesis by (auto simp: inv)
  qed
qed

section \<open>Adding and removing tasks\<close>

lemma editable_edges:
  assumes "editable executors mf" and "e \<in> set (mf_edges mf)"
  shows "me_from e \<in> task_ids mf" and "me_to e \<in> task_ids mf"
  using assms by (auto simp: editable_def clean_plan_def task_ids_def)

lemma schema_nodes:
  assumes "editable executors mf" and "manifestSchema executors next = Some mf1" and "mf_nodes next = pre @ [n] @ suf"
    and "set (pre @ suf) \<subseteq> set (mf_nodes mf)"
  shows "mf1 = next\<lparr>mf_nodes := pre @ [parsed_node n] @ suf\<rparr>"
proof -
  have "map parsed_node pre = pre" "map parsed_node suf = suf"
    using parsed_fixed(1) [OF editable_parts(1) [OF assms(1)]] assms(4) by (auto intro: map_idI)
  with schema_parts(1) [OF assms(2)] assms(3) show ?thesis by simp
qed

lemma undo_add_task:
  assumes ed: "editable executors mf" and run: "command_mutation mf (AddTaskCommand snap) = Inr (Inr m)"
    and mf1: "manifestSchema executors (gm_nextManifest m) = Some mf1" "ids_fine mf1"
  shows "replay_manifest executors [RemoveTaskCommand (mn_id (ts_task snap))] mf1 = Some mf"
proof -
  let ?n = "ts_task snap"
  from run have new: "mn_id ?n \<notin> task_ids mf" and m: "gm_nextManifest m = mf\<lparr>mf_nodes := mf_nodes mf @ [?n]\<rparr>"
    by (auto simp: command_mutation_def task_mutation_def add_task_mutation_def buildPlanPackageGraphMutation_def try_bind_eq_Inr
        find_task_None dest!: change_next split: if_splits)
  have eq: "mf1 = mf\<lparr>mf_nodes := mf_nodes mf @ [parsed_node ?n]\<rparr>"
    using schema_nodes [OF ed mf1(1), of "mf_nodes mf" ?n "[]"] m by simp
  have "filter (\<lambda>n. mn_id n \<noteq> mn_id ?n) (mf_nodes mf) = mf_nodes mf" using new by (auto simp: filter_id_conv task_ids_def image_iff)
  moreover have "filter (\<lambda>e. me_from e \<noteq> mn_id ?n \<and> me_to e \<noteq> mn_id ?n) (mf_edges mf) = mf_edges mf"
    using new editable_edges [OF ed] unfolding filter_id_conv by metis
  ultimately have ret: "without_node (mn_id ?n) mf1 = mf" by (simp add: without_node_def eq)
  show ?thesis
  proof (rule replay_back [OF ed mf1(2)])
    fix m'
    assume "buildPlanPackageManifestChangeMutation mf1 mf [] (removal_effects mf1 (mn_id ?n) False True) = Inr m'"
    moreover have "find_task mf1 (mn_id ?n) \<noteq> None" by (simp add: find_task_None task_ids_def eq)
    ultimately show "command_mutation mf1 (RemoveTaskCommand (mn_id ?n)) = Inr (Inr m')"
      by (auto simp: command_mutation_def task_mutation_def buildPlanPackageGraphMutation_def ret)
  qed
qed

text \<open>The snapshot of a task puts it back where it was.\<close>

lemma findIndex_split:
  assumes "x \<in> set xs" and "distinct (map key xs)"
  obtains ys zs where "xs = ys @ [x] @ zs" "findIndex (\<lambda>y. key y = key x) xs = Some (length ys)"
    "filter (\<lambda>y. key y \<noteq> key x) xs = ys @ zs"
proof -
  from assms(1) obtain ys zs where xs: "xs = ys @ x # zs" by (meson split_list)
  with assms(2) have ne: "\<forall>y \<in> set ys \<union> set zs. key y \<noteq> key x" by (auto simp: image_iff)
  then have "findIndex (\<lambda>y. key y = key x) (ys @ x # zs) = Some (length ys)" by (induction ys) auto
  moreover have "filter (\<lambda>y. key y \<noteq> key x) ys = ys" "filter (\<lambda>y. key y \<noteq> key x) zs = zs"
    using ne by (auto simp: filter_id_conv)
  ultimately show thesis using that [of ys zs] xs by simp
qed

lemma insert_clamped: "insert_at (clamped_index (Some (int (length ys))) (ys @ zs)) x (ys @ zs) = ys @ [x] @ zs"
  by (simp add: insert_at_def clamped_index_def)

definition colon_free :: "manifest \<Rightarrow> bool" where
  "colon_free mf \<longleftrightarrow> list_all (\<lambda>e. CHR '':'' \<notin> set (me_from e)) (mf_edges mf)"

lemma restore_key_inj:
  assumes "restore_key e = restore_key e'" and "CHR '':'' \<notin> set (me_from e)" and "CHR '':'' \<notin> set (me_from e')"
  shows "e = e'"
proof -
  have tw: "takeWhile (\<lambda>c. c \<noteq> CHR '':'') (me_from x @ CHR '':'' # rest) = me_from x" if "CHR '':'' \<notin> set (me_from x)" for x rest
    using that by (subst takeWhile_append2) auto
  from assms(1) have k: "me_from e @ CHR '':'' # me_to e = me_from e' @ CHR '':'' # me_to e'" by (simp add: restore_key_def)
  then have "me_from e = me_from e'" using tw [OF assms(2)] tw [OF assms(3)] by metis
  with k have "me_to e = me_to e'" by simp
  with \<open>me_from e = me_from e'\<close> show ?thesis using edge_eq [of e] edge_eq [of e'] by metis
qed

lemma undo_remove_task:
  assumes ed: "editable executors mf" "colon_free mf" "lp_manifest ld = mf"
    and run: "command_mutation mf (RemoveTaskCommand t) = Inr (Inr m)"
    and us: "command_inverse ld (RemoveTaskCommand t) = Inr (Inr us)"
    and mf1: "manifestSchema executors (gm_nextManifest m) = Some mf1" "ids_fine mf1"
  shows "\<exists>mf2. replay_manifest executors us mf1 = Some mf2 \<and> same_plan mf mf2"
proof -
  note dist = editable_parts(4) [OF ed(1)]
  from us ed(3) obtain snap where snap: "readTaskSnapshot ld t = Inr snap" "us = [RestoreTaskCommand snap]"
    by (auto simp: command_inverse_def task_inverse_def try_bind_eq_Inr)
  then obtain n where n: "find_task mf t = Some n" "ts_task snap = n"
    "ts_insertIndex snap = map_option int (findIndex (\<lambda>n. mn_id n = t) (mf_nodes mf))"
    "ts_affectedTaskEdges snap = filter (\<lambda>e. me_from e = t \<or> me_to e = t) (mf_edges mf)"
    using ed(3) by (auto simp: readTaskSnapshot_def try_bind_eq_Inr split: option.splits)
  from n(1) find_task_Some [OF dist] have mem: "n \<in> set (mf_nodes mf)" "mn_id n = t" by auto
  from findIndex_split [OF mem(1) dist] mem(2) obtain ys zs where
    nodes: "mf_nodes mf = ys @ [n] @ zs" "findIndex (\<lambda>n. mn_id n = t) (mf_nodes mf) = Some (length ys)"
      "filter (\<lambda>n. mn_id n \<noteq> t) (mf_nodes mf) = ys @ zs" by metis
  have idx: "ts_insertIndex snap = Some (int (length ys))" using n(3) nodes(2) by simp
  let ?keep = "filter (\<lambda>e. me_from e \<noteq> t \<and> me_to e \<noteq> t) (mf_edges mf)"
  let ?gone = "filter (\<lambda>e. me_from e = t \<or> me_to e = t) (mf_edges mf)"
  from run have "gm_nextManifest m = without_node t mf"
    by (auto simp: command_mutation_def task_mutation_def buildPlanPackageGraphMutation_def try_bind_eq_Inr dest!: change_next split: if_splits)
  then have next': "gm_nextManifest m = mf\<lparr>mf_nodes := ys @ zs, mf_edges := ?keep\<rparr>" by (simp add: without_node_def nodes(3))
  have "map parsed_node (ys @ zs) = ys @ zs"
    using parsed_fixed(1) [OF editable_parts(1) [OF ed(1)]] nodes(1) by (intro map_idI) auto
  with schema_parts(1) [OF mf1(1)] next' have eq: "mf1 = mf\<lparr>mf_nodes := ys @ zs, mf_edges := ?keep\<rparr>" by simp
  have "\<forall>e \<in> set ?gone. restore_key e \<notin> set (map restore_key ?keep)"
    using ed(2) restore_key_inj by (fastforce simp: colon_free_def list_all_iff)
  then have gone: "filter (\<lambda>e. restore_key e \<notin> set (map restore_key ?keep)) ?gone = ?gone" unfolding filter_id_conv .
  let ?mf2 = "mf\<lparr>mf_edges := ?keep @ ?gone\<rparr>"
  have ms: "mset (filter (\<lambda>e. me_from e \<noteq> t \<and> me_to e \<noteq> t) es @ filter (\<lambda>e. me_from e = t \<or> me_to e = t) es) = mset es" for es
    by (induction es) auto
  have same: "same_plan mf ?mf2" using ms [of "mf_edges mf"] by (simp add: same_plan_def)
  have "ids_fine (mf1\<lparr>mf_nodes := mf_nodes mf1 @ [n]\<rparr>)"
    using editable_parts(3) [OF ed(1)] by (auto simp: ids_fine_def manifest_ids_ok_def nul_free_def list_all_iff eq nodes(1))
  from change_total [OF mf1(2) this] obtain added where added: "add_task_mutation mf1 snap = Inr added"
    by (auto simp: add_task_mutation_def buildPlanPackageGraphMutation_def n(2))
  have "replay_manifest executors [RestoreTaskCommand snap] mf1 = Some ?mf2"
  proof (rule replay_back [OF same_plan_editable [OF ed(1) same] mf1(2)])
    fix m'
    assume "buildPlanPackageManifestChangeMutation mf1 ?mf2 (gm_affectedTasks added @ [mn_id n]) (gm_sideEffects added) = Inr m'"
    moreover have "insert_at (clamped_index (ts_insertIndex snap) (mf_nodes mf1)) n (mf_nodes mf1) = mf_nodes mf"
      using insert_clamped [of ys zs n] by (simp add: idx nodes(1) eq)
    then have "mf1\<lparr>mf_nodes := insert_at (clamped_index (ts_insertIndex snap) (mf_nodes mf1)) n (mf_nodes mf1), mf_edges := ?keep @ ?gone\<rparr> = ?mf2"
      by (simp add: eq)
    moreover have es: "mf_edges mf1 = ?keep" by (simp add: eq)
    ultimately have "restoreTaskMutation mf1 snap = Inr m'"
      by (simp only: restoreTaskMutation_def added try_bind_simps es n(2,4) gone)
    moreover have "find_task mf1 (mn_id n) = None" using dist mem by (auto simp: find_task_None task_ids_def eq nodes(1))
    ultimately show "command_mutation mf1 (RestoreTaskCommand snap) = Inr (Inr m')"
      by (simp add: command_mutation_def task_mutation_def n(2))
  qed
  with same snap(2) show ?thesis by blast
qed

section \<open>Edits of a task\<close>

lemma nonEmpty_tidy [simp]: "tidy s \<Longrightarrow> nonEmpty s field = Inr s"
  by (simp add: nonEmpty_def tidy_def)

lemma array_tidy [simp]: "list_all tidy xs \<Longrightarrow> map_res (\<lambda>v. nonEmpty v field) xs = Inr xs"
  by (induction xs) simp_all

lemma optionalText_tidy [simp]: "(case e of None \<Rightarrow> True | Some x \<Rightarrow> tidy x) \<Longrightarrow> optionalText e = Inr e"
  by (cases e) (simp_all add: optionalText_def)

lemma with_executor_simps [simp]:
  "with_executor e (with_executor e' b) = with_executor e b" "with_executor (mb_executor b) b = b"
  "mb_id (with_executor e b) = mb_id b" "mb_executor (with_executor e b) = e" "mb_type (with_executor e b) = mb_type b"
  "mb_prompt (with_executor e b) = mb_prompt b"
  by (cases b; simp)+

lemma with_executor_parsed: "parsed_block b = b \<Longrightarrow> parsed_block (with_executor e b) = with_executor e b"
  by (cases b) auto

lemma with_executor_valid: "manifestBlock_valid b \<Longrightarrow> manifestBlock_valid (with_executor None b)"
  by (cases b) (auto simp: manifestBlock_valid_def filled_def)

lemma replaceTask_nodes [simp]: "mf_nodes (replaceTask mf n) = map (\<lambda>k. if mn_id k = mn_id n then n else k) (mf_nodes mf)"
  by (simp add: replaceTask_def replace_task_def)

lemma replace_twice: "mn_id n' = mn_id n \<Longrightarrow> replaceTask (replaceTask mf n') n = replaceTask mf n"
  by (auto simp: replaceTask_def replace_task_def)

lemma replace_self:
  assumes "distinct (map mn_id (mf_nodes mf))" and "n \<in> set (mf_nodes mf)"
  shows "replaceTask mf n = mf"
proof -
  have "map (\<lambda>k. if mn_id k = mn_id n then n else k) (mf_nodes mf) = mf_nodes mf"
    using assms by (intro map_idI) (auto simp: distinct_map inj_on_def)
  then show ?thesis by (simp add: replaceTask_def replace_task_def)
qed

lemma replaced_ids [simp]: "map mn_id (mf_nodes (replaceTask mf n)) = map mn_id (mf_nodes mf)"
  by (auto simp: comp_def intro: map_cong)

lemma find_replaced:
  assumes "distinct (map mn_id (mf_nodes mf))" and "n \<in> set (mf_nodes mf)" and "mn_id n' = mn_id n"
  shows "find_task (replaceTask mf n') (mn_id n) = Some n'"
proof -
  have "n' \<in> set (mf_nodes (replaceTask mf n'))" using assms(2,3) by (auto simp: image_iff)
  then show ?thesis using find_task_Some [of "replaceTask mf n'"] assms(1,3) replaced_ids [of mf n'] by metis
qed

lemma ids_fine_replace:
  assumes "ids_fine mf" and "n \<in> set (mf_nodes mf)" and "mn_id n' = mn_id n" and "map mb_id (mn_blocks n') = map mb_id (mn_blocks n)"
  shows "ids_fine (replaceTask mf n')"
proof -
  have "set (map mb_id (mn_blocks n')) = set (map mb_id (mn_blocks n))" using assms(4) by simp
  then have "list_all (\<lambda>b. id_ok (mb_id b)) (mn_blocks n') \<longleftrightarrow> list_all (\<lambda>b. id_ok (mb_id b)) (mn_blocks n)"
    unfolding list_all_iff by (metis (no_types, lifting) imageE image_eqI set_map)
  with assms(1-3) show ?thesis
    by (auto simp: ids_fine_def manifest_ids_ok_def nul_free_def list_all_iff) (simp_all add: replaceTask_def replace_task_def)
qed

lemma schema_replace:
  assumes ed: "editable executors mf" and n: "n \<in> set (mf_nodes mf)" and n': "manifestNode_valid n'" "parsed_node n' = n'"
    "known_executor executors (mn_executor n')" "list_all (\<lambda>b. known_executor executors (mb_executor b)) (mn_blocks n')"
  shows "manifestSchema executors (replaceTask mf n') = Some (replaceTask mf n')"
proof -
  have "manifest_valid executors mf" using manifestSchema_idem(2) [OF editable_parts(1) [OF ed]] .
  then have "manifest_valid executors (replaceTask mf n')"
    using n' by (auto simp: manifest_valid_def list_all_iff) (simp_all add: replaceTask_def replace_task_def)
  moreover have "map parsed_node (mf_nodes (replaceTask mf n')) = mf_nodes (replaceTask mf n')"
    using parsed_fixed(1) [OF editable_parts(1) [OF ed]] n'(2) by (intro map_idI) auto
  ultimately show ?thesis by (simp add: manifestSchema_def replaceTask_def replace_task_def)
qed

definition inverse_task_edit :: "manifest_node \<Rightarrow> task_field_edit \<Rightarrow> string option \<Rightarrow> task_field_edit" where
  "inverse_task_edit n edits md =
     \<lparr>te_title = (if te_title edits = None then None else Some (mn_title n)), te_promptMarkdown = md,
      te_executor = (if te_executor edits = None then None else Some (mn_executor n)),
      te_acceptance = (if te_acceptance edits = None then None else Some (mn_acceptance n))\<rparr>"

definition without_executors :: "manifest_node \<Rightarrow> manifest_node" where
  "without_executors n = n\<lparr>mn_blocks := map (with_executor None) (mn_blocks n)\<rparr>"

lemma edit_task_fields_keep:
  assumes "edit_task_fields edits n = Inr (n', f)"
  shows "mn_id n' = mn_id n" "mn_prompt n' = mn_prompt n"
    "mn_blocks n' = (if te_executor edits = None then mn_blocks n else map (with_executor None) (mn_blocks n))"
  using assms by (auto simp: edit_task_fields_def edit_field_def try_bind_eq_Inr split: option.splits)

lemma edit_task_inverse:
  assumes tidy: "tidy_node n" "mn_acceptance n \<noteq> []" and run: "edit_task_fields edits n = Inr (n', f)" "f \<noteq> []"
    and md: "md = None \<longleftrightarrow> te_promptMarkdown edits = None"
  obtains f' where "edit_task_fields (inverse_task_edit n edits md) n' =
      Inr (if te_executor edits = None then n else without_executors n, f')" "f' \<noteq> []"
proof -
  have t: "tidy (mn_title n)" "list_all tidy (mn_acceptance n)" "case mn_executor n of None \<Rightarrow> True | Some e \<Rightarrow> tidy e"
    using tidy(1) by (simp_all add: tidy_node_def)
  have "\<exists>f'. edit_task_fields (inverse_task_edit n edits md) n' =
      Inr (if te_executor edits = None then n else without_executors n, f') \<and> f' \<noteq> []"
    using run md t tidy(2)
    by (cases "te_title edits"; cases "te_executor edits"; cases "te_acceptance edits"; cases md)
      (auto simp: edit_task_fields_def edit_field_def inverse_task_edit_def nonEmptyStringArray_def without_executors_def try_bind_eq_Inr comp_def
        split: option.splits)
  with that show thesis by blast
qed

text \<open>One edit of a task, or of a block of it, on a plan in which the task has been replaced before.\<close>

lemma replay_task_edit:
  assumes ed: "editable executors mf" and n: "n \<in> set (mf_nodes mf)" and fine: "ids_fine (replaceTask mf n1)" "ids_fine (replaceTask mf n2)"
    and ids: "mn_id n1 = mn_id n" "mn_id n2 = mn_id n" and run: "edit_task_fields edits n1 = Inr (n2, f)" "f \<noteq> []"
    and schema: "manifestSchema executors (replaceTask mf n2) = Some (replaceTask mf n2)"
  shows "replay_manifest executors (UpdateTaskFieldsCommand (mn_id n) edits # cs) (replaceTask mf n1) =
    replay_manifest executors cs (replaceTask mf n2)"
proof -
  let ?mf1 = "replaceTask mf n1"
  have "taskNode ?mf1 (mn_id n) = Inr n1" using find_replaced [OF editable_parts(4) [OF ed] n ids(1)] by (simp add: taskNode_def)
  moreover have "replaceTask ?mf1 n2 = replaceTask mf n2" using ids by (simp add: replace_twice)
  moreover from change_total [OF fine] obtain m where
    "buildPlanPackageManifestChangeMutation ?mf1 (replaceTask mf n2) (if te_promptMarkdown edits = None then [] else [mn_id n])
       (writePromptSideEffects (mn_prompt n2) (te_promptMarkdown edits)) = Inr m" "gm_nextManifest m = replaceTask mf n2" by blast
  ultimately show ?thesis
    using run schema by (simp add: command_mutation_def task_mutation_def buildPlanPackageTaskFieldEditMutation_def)
qed

lemma find_block_unique:
  assumes "distinct (map mb_id (mn_blocks n))" and "b \<in> set (mn_blocks n)"
  shows "find_block n (mb_id b) = Some b"
  using find_unique [OF assms] by (simp add: find_block_def)

lemma replay_block_edit:
  assumes ed: "editable executors mf" and n: "n \<in> set (mf_nodes mf)" and fine: "ids_fine (replaceTask mf n1)" "ids_fine (replaceTask mf n2)"
    and ids: "mn_id n1 = mn_id n" "mn_id n2 = mn_id n" and b: "b \<in> set (mn_blocks n1)" "distinct (map mb_id (mn_blocks n1))"
    and run: "ensureBlockFieldCompatibility b edits = Inr ()" "edit_block_fields edits b = Inr (b', f)" "f \<noteq> []"
    and n2: "replace_block (mb_id b) b' n1 = n2"
    and schema: "manifestSchema executors (replaceTask mf n2) = Some (replaceTask mf n2)"
  shows "replay_manifest executors (UpdateBlockFieldsCommand (blockRef (mn_id n) (mb_id b)) edits # cs) (replaceTask mf n1) =
    replay_manifest executors cs (replaceTask mf n2)"
proof -
  let ?mf1 = "replaceTask mf n1"
  have n1: "n1 \<in> set (mf_nodes ?mf1)" using n ids(1) by (auto simp: image_iff)
  with fine(1) b(1) have "id_ok (mn_id n)" "id_ok (mb_id b)" using ids(1)
    unfolding ids_fine_def manifest_ids_ok_def list_all_iff by metis+
  then have "parseBlockRef (blockRef (mn_id n) (mb_id b)) = Inr (mn_id n, mb_id b)" by (rule parse_blockRef)
  moreover have "taskNode ?mf1 (mn_id n) = Inr n1" using find_replaced [OF editable_parts(4) [OF ed] n ids(1)] by (simp add: taskNode_def)
  moreover have "find_block n1 (mb_id b) = Some b" by (rule find_block_unique [OF b(2,1)])
  moreover have "replaceTask ?mf1 n2 = replaceTask mf n2" using ids by (simp add: replace_twice)
  moreover from change_total [OF fine] obtain m where
    "buildPlanPackageManifestChangeMutation ?mf1 (replaceTask mf n2) (if be_promptMarkdown edits = None then [] else [mn_id n])
       (writePromptSideEffects (mb_prompt b') (be_promptMarkdown edits)) = Inr m" "gm_nextManifest m = replaceTask mf n2" by blast
  ultimately show ?thesis
    using run n2 schema by (simp add: command_mutation_def block_mutation_def buildPlanPackageBlockFieldEditMutation_def)
qed

lemma editable_node:
  assumes "editable executors mf" and "n \<in> set (mf_nodes mf)"
  shows "manifestNode_valid n" "known_executor executors (mn_executor n)" "\<forall>b \<in> set (mn_blocks n). known_executor executors (mb_executor b)"
    "\<forall>b \<in> set (mn_blocks n). manifestBlock_valid b" "distinct (map mb_id (mn_blocks n))" "depends_known n" "tidy_node n"
    "mn_acceptance n \<noteq> []"
proof -
  have v: "manifest_valid executors mf" using manifestSchema_idem(2) [OF editable_parts(1) [OF assms(1)]] .
  with assms(2) show "manifestNode_valid n" "known_executor executors (mn_executor n)"
    "\<forall>b \<in> set (mn_blocks n). known_executor executors (mb_executor b)" by (auto simp: manifest_valid_def list_all_iff)
  then show "\<forall>b \<in> set (mn_blocks n). manifestBlock_valid b" "mn_acceptance n \<noteq> []" by (auto simp: manifestNode_valid_def list_all_iff)
  show "distinct (map mb_id (mn_blocks n))" "depends_known n" "tidy_node n"
    using assms by (auto simp: editable_def clean_plan_def blocks_clean_def list_all_iff)
qed

lemma partial_executors_ok:
  assumes ed: "editable executors mf" and n: "n \<in> set (mf_nodes mf)" "mn_blocks n = pre @ suf"
  defines "n2 \<equiv> n\<lparr>mn_blocks := pre @ map (with_executor None) suf\<rparr>"
  shows "manifestSchema executors (replaceTask mf n2) = Some (replaceTask mf n2)" and "ids_fine (replaceTask mf n2)"
proof -
  note node = editable_node [OF ed n(1)]
  have "\<forall>b \<in> set pre \<union> set suf. parsed_block b = b" using parsed_fixed(2) [OF editable_parts(1) [OF ed] n(1)] n(2) by auto
  then have "parsed_node n2 = n2"
    by (simp add: parsed_node_def n2_def map_idI with_executor_parsed)
  moreover have "manifestNode_valid n2"
    using node(1,4) n(2) with_executor_valid by (auto simp: manifestNode_valid_def n2_def list_all_iff)
  moreover have "list_all (\<lambda>b. known_executor executors (mb_executor b)) (mn_blocks n2)"
    using node(3) n(2) by (auto simp: n2_def list_all_iff known_executor_def [of _ None])
  ultimately show "manifestSchema executors (replaceTask mf n2) = Some (replaceTask mf n2)"
    using schema_replace [OF ed n(1), of n2] node(2) by (simp add: n2_def)
  show "ids_fine (replaceTask mf n2)"
    by (rule ids_fine_replace [OF editable_parts(3) [OF ed] n(1)]) (simp_all add: n2_def n(2))
qed

lemma executor_edit_block:
  assumes "tidy_block b"
  shows "edit_block_fields (executor_edit (mb_executor b)) (with_executor None b) = Inr (b, [''executor''])"
    and "ensureBlockFieldCompatibility (with_executor None b) (executor_edit (mb_executor b)) = Inr ()"
proof -
  have "optionalText (mb_executor b) = Inr (mb_executor b)" using assms by (simp add: tidy_block_def)
  then show "edit_block_fields (executor_edit (mb_executor b)) (with_executor None b) = Inr (b, [''executor''])"
    by (cases "mb_type b") (simp_all add: edit_block_fields_def edit_field_def executor_edit_def editImplementationBlock_def editReviewBlock_def)
  show "ensureBlockFieldCompatibility (with_executor None b) (executor_edit (mb_executor b)) = Inr ()"
    by (simp add: ensureBlockFieldCompatibility_def executor_edit_def)
qed

lemma restore_executors:
  assumes ed: "editable executors mf" and n: "n \<in> set (mf_nodes mf)" "mn_blocks n = pre @ suf"
  shows "replay_manifest executors
    (map (\<lambda>b. UpdateBlockFieldsCommand (blockRef (mn_id n) (mb_id b)) (executor_edit (mb_executor b))) (filter (\<lambda>b. mb_executor b \<noteq> None) suf))
    (replaceTask mf (n\<lparr>mn_blocks := pre @ map (with_executor None) suf\<rparr>)) = Some mf"
  using n(2)
proof (induction suf arbitrary: pre)
  case Nil
  then have "n\<lparr>mn_blocks := pre\<rparr> = n" by simp
  with replace_self [OF editable_parts(4) [OF ed] n(1)] show ?case by simp
next
  case (Cons b suf)
  have next': "mn_blocks n = (pre @ [b]) @ suf" using Cons.prems by simp
  show ?case
  proof (cases "mb_executor b = None")
    case True
    then have "with_executor None b = b" by (metis with_executor_simps(2))
    with True Cons.IH [OF next'] show ?thesis by simp
  next
    case False
    let ?b0 = "with_executor None b"
    let ?n1 = "n\<lparr>mn_blocks := pre @ map (with_executor None) (b # suf)\<rparr>"
    let ?n2 = "n\<lparr>mn_blocks := (pre @ [b]) @ map (with_executor None) suf\<rparr>"
    have "tidy_block b" using editable_node(7) [OF ed n(1)] Cons.prems by (simp add: tidy_node_def)
    note edit = executor_edit_block [OF this]
    have dist: "distinct (map mb_id (mn_blocks n))" using editable_node(5) [OF ed n(1)] .
    then have d1: "distinct (map mb_id (mn_blocks ?n1))" by (simp add: Cons.prems comp_def)
    have "\<forall>x \<in> set pre \<union> set suf. mb_id x \<noteq> mb_id b" using dist Cons.prems by (auto simp: image_iff)
    then have "map (\<lambda>x. if mb_id x = mb_id b then b else x) pre = pre"
      "map (\<lambda>x. if mb_id x = mb_id b then b else with_executor None x) suf = map (with_executor None) suf"
      by (auto intro: map_idI)
    then have "replace_block (mb_id ?b0) b ?n1 = ?n2" by (simp add: replace_block_def comp_def)
    from replay_block_edit [OF ed n(1) _ _ _ _ _ d1 edit(2,1) _ this partial_executors_ok(1) [OF ed n(1) next']]
      partial_executors_ok(2) [OF ed n(1) Cons.prems] partial_executors_ok(2) [OF ed n(1) next'] False Cons.IH [OF next']
    show ?thesis by simp
  qed
qed

lemma schema_replaced:
  assumes "editable executors mf" and "manifestSchema executors (replaceTask mf n') = Some mf1" and "parsed_node n' = n'"
  shows "mf1 = replaceTask mf n'"
proof -
  have "map parsed_node (mf_nodes (replaceTask mf n')) = mf_nodes (replaceTask mf n')"
    using parsed_fixed(1) [OF editable_parts(1) [OF assms(1)]] assms(3) by (intro map_idI) auto
  with schema_parts(1) [OF assms(2)] show ?thesis by simp
qed

lemma undo_task_fields:
  assumes ed: "editable executors mf" "lp_manifest ld = mf"
    and run: "command_mutation mf (UpdateTaskFieldsCommand t edits) = Inr (Inr m)"
    and us: "command_inverse ld (UpdateTaskFieldsCommand t edits) = Inr (Inr us)"
    and mf1: "manifestSchema executors (gm_nextManifest m) = Some mf1" "ids_fine mf1"
  shows "replay_manifest executors us mf1 = Some mf"
proof -
  from run obtain n n' f where n: "find_task mf t = Some n" and edit: "edit_task_fields edits n = Inr (n', f)" "f \<noteq> []"
    and next': "gm_nextManifest m = replaceTask mf n'"
    by (auto simp: command_mutation_def task_mutation_def buildPlanPackageTaskFieldEditMutation_def taskNode_def try_bind_eq_Inr
        dest!: change_next split: option.splits if_splits)
  from n find_task_Some [OF editable_parts(4) [OF ed(1)]] have mem: "n \<in> set (mf_nodes mf)" "mn_id n = t" by auto
  note keep = edit_task_fields_keep [OF edit(1)] and node = editable_node [OF ed(1) mem(1)]
  have "parsed_node n' = n'"
    using parsed_fixed(2) [OF editable_parts(1) [OF ed(1)] mem(1)]
    by (auto simp: parsed_node_def keep with_executor_parsed map_idI intro!: manifest_node.equality)
  then have eq: "mf1 = replaceTask mf n'" using schema_replaced [OF ed(1)] mf1(1) next' by simp
  from us ed(2) n obtain md where md: "md = None \<longleftrightarrow> te_promptMarkdown edits = None"
    and us': "us = UpdateTaskFieldsCommand t (inverse_task_edit n edits md) # (if te_executor edits = None then []
      else map (\<lambda>b. UpdateBlockFieldsCommand (blockRef (mn_id n) (mb_id b)) (executor_edit (mb_executor b)))
             (filter (\<lambda>b. mb_executor b \<noteq> None) (mn_blocks n)))"
    by (auto simp: command_inverse_def task_inverse_def inverse_task_fields_def inverse_task_edit_def try_bind_eq_Inr split: option.splits)
  from edit_task_inverse [OF node(7,8) edit md] obtain f' where
    inv: "edit_task_fields (inverse_task_edit n edits md) n' = Inr (if te_executor edits = None then n else without_executors n, f')" "f' \<noteq> []" .
  show ?thesis
  proof (cases "te_executor edits = None")
    case True
    have "replaceTask mf n = mf" by (rule replace_self [OF editable_parts(4) [OF ed(1)] mem(1)])
    with replay_task_edit [OF ed(1) mem(1), of n' n] True inv keep(1) eq mf1(2) editable_parts(1,3) [OF ed(1)] us' mem(2)
    show ?thesis by simp
  next
    case False
    note ok = partial_executors_ok [OF ed(1) mem(1), of "[]" "mn_blocks n"]
    have "without_executors n = n\<lparr>mn_blocks := [] @ map (with_executor None) (mn_blocks n)\<rparr>" by (simp add: without_executors_def)
    with ok have fine: "ids_fine (replaceTask mf (without_executors n))"
      "manifestSchema executors (replaceTask mf (without_executors n)) = Some (replaceTask mf (without_executors n))"
      "mn_id (without_executors n) = mn_id n" by simp_all
    have "replay_manifest executors (UpdateTaskFieldsCommand t (inverse_task_edit n edits md) # cs) mf1 =
        replay_manifest executors cs (replaceTask mf (without_executors n))" for cs
      using replay_task_edit [OF ed(1) mem(1) _ fine(1) keep(1) fine(3) _ inv(2) fine(2)] mf1(2) inv(1) False
      unfolding eq mem(2) by simp
    with restore_executors [OF ed(1) mem(1), of "[]" "mn_blocks n"] False us' show ?thesis
      by (auto simp: without_executors_def simp del: replay_manifest.simps)
  qed
qed

lemma undo_task_prompt:
  assumes ed: "editable executors mf" "lp_manifest ld = mf"
    and run: "command_mutation mf (UpdateTaskPromptCommand t md) = Inr (Inr m)"
    and us: "command_inverse ld (UpdateTaskPromptCommand t md) = Inr (Inr us)"
    and mf1: "manifestSchema executors (gm_nextManifest m) = Some mf1" "ids_fine mf1"
  shows "replay_manifest executors us mf1 = Some mf"
proof -
  have edit: "edit_task_fields (prompt_edit x) k = Inr (k, [''prompt''])" for x k
    by (simp add: edit_task_fields_def edit_field_def prompt_edit_def)
  from run obtain n where n: "find_task mf t = Some n" and next': "gm_nextManifest m = replaceTask mf n"
    by (auto simp: command_mutation_def task_mutation_def buildPlanPackageTaskFieldEditMutation_def taskNode_def try_bind_eq_Inr edit
        dest!: change_next split: option.splits if_splits)
  from n find_task_Some [OF editable_parts(4) [OF ed(1)]] have mem: "n \<in> set (mf_nodes mf)" "mn_id n = t" by auto
  have self: "replaceTask mf n = mf" by (rule replace_self [OF editable_parts(4) [OF ed(1)] mem(1)])
  then have eq: "mf1 = mf" using mf1(1) next' editable_parts(1) [OF ed(1)] by simp
  from us ed(2) n obtain old where old: "us = [UpdateTaskPromptCommand t old]"
    by (auto simp: command_inverse_def task_inverse_def split: option.splits)
  have "te_promptMarkdown (prompt_edit old) = Some old" by (simp add: prompt_edit_def)
  then have "replay_manifest executors [UpdateTaskPromptCommand t old] mf1 = Some mf"
    by (intro replay_back [OF ed(1) mf1(2), of "[t]" "writePromptSideEffects (mn_prompt n) (Some old)"])
      (simp add: command_mutation_def task_mutation_def buildPlanPackageTaskFieldEditMutation_def taskNode_def eq n edit self)
  with old show ?thesis by simp
qed

section \<open>Edits of a block\<close>

lemma with_fields [simp]:
  "mb_id (with_title x b) = mb_id b" "mb_type (with_title x b) = mb_type b" "mb_prompt (with_title x b) = mb_prompt b"
  "mb_id (with_depends ds b) = mb_id b" "mb_type (with_depends ds b) = mb_type b" "mb_prompt (with_depends ds b) = mb_prompt b"
  "mb_id (with_sharedResources s b) = mb_id b" "mb_type (with_sharedResources s b) = mb_type b" "mb_prompt (with_sharedResources s b) = mb_prompt b"
  "mb_id (with_capabilities c b) = mb_id b" "mb_type (with_capabilities c b) = mb_type b" "mb_prompt (with_capabilities c b) = mb_prompt b"
  "mb_id (with_review g b) = mb_id b" "mb_type (with_review g b) = mb_type b" "mb_prompt (with_review g b) = mb_prompt b"
  by (cases b; simp)+

text \<open>A successful edit of a field, and one that succeeds.\<close>

definition stored :: "('z \<Rightarrow> 'a \<Rightarrow> 'a) \<Rightarrow> 'z option \<Rightarrow> 'a \<Rightarrow> 'a" where
  "stored store z y = (case z of None \<Rightarrow> y | Some x \<Rightarrow> store x y)"

lemma edit_field_Inr:
  assumes "edit_field v name normal store s = Inr s'"
  obtains z where "z = None \<longleftrightarrow> v = None" "fst s' = stored store z (fst s)" "snd s' = [] \<longleftrightarrow> snd s = [] \<and> v = None"
  using assms by (cases v) (auto simp: edit_field_def stored_def try_bind_eq_Inr intro: that)

lemma edit_field_value:
  assumes "\<And>x. v = Some x \<Longrightarrow> normal x = Inr z"
  shows "edit_field v name normal store s = Inr (stored store (if v = None then None else Some z) (fst s),
    snd s @ (if v = None then [] else [name]))"
  using assms by (cases v) (auto simp: edit_field_def stored_def)

lemma stored_fields [simp]:
  "mb_type (stored with_title z b) = mb_type b" "mb_type (stored with_executor z1 b) = mb_type b" "mb_type (stored with_depends z2 b) = mb_type b"
  "mb_id (stored with_title z b) = mb_id b" "mb_id (stored with_executor z1 b) = mb_id b" "mb_id (stored with_depends z2 b) = mb_id b"
  "mb_prompt (stored with_title z b) = mb_prompt b" "mb_prompt (stored with_executor z1 b) = mb_prompt b" "mb_prompt (stored with_depends z2 b) = mb_prompt b"
  by (simp_all add: stored_def split: option.splits)

definition common_stored :: "string option \<Rightarrow> string option option \<Rightarrow> string list option \<Rightarrow> manifest_block \<Rightarrow> manifest_block" where
  "common_stored t e ds b = stored with_depends ds (stored with_executor e (stored with_title t b))"

lemma common_fields [simp]:
  "mb_type (common_stored t e ds b) = mb_type b" "mb_id (common_stored t e ds b) = mb_id b" "mb_prompt (common_stored t e ds b) = mb_prompt b"
  by (simp_all add: common_stored_def)

lemma edit_block_common:
  assumes "edit_block_fields edits b = Inr r"
  obtains t e ds f where "t = None \<longleftrightarrow> be_title edits = None" "e = None \<longleftrightarrow> be_executor edits = None" "ds = None \<longleftrightarrow> be_dependsOn edits = None"
    "f = [] \<longleftrightarrow> be_title edits = None \<and> be_promptMarkdown edits = None \<and> be_executor edits = None \<and> be_dependsOn edits = None"
    "(if mb_type b = Implementation then editImplementationBlock edits (common_stored t e ds b, f)
      else editReviewBlock edits (common_stored t e ds b, f)) = Inr r"
proof -
  from assms obtain s1 s2 s3 s4 where
    s1: "edit_field (be_title edits) ''title'' (\<lambda>t. nonEmpty t ''title'') with_title (b, []) = Inr s1" and
    s2: "edit_field (be_promptMarkdown edits) ''prompt'' Inr (\<lambda>_ b. b) s1 = Inr s2" and
    s3: "edit_field (be_executor edits) ''executor'' optionalText with_executor s2 = Inr s3" and
    s4: "edit_field (be_dependsOn edits) ''depends_on'' (\<lambda>ds. stringArray ds ''dependsOn'') with_depends s3 = Inr s4" and
    r: "(if mb_type (fst s4) = Implementation then editImplementationBlock edits s4 else editReviewBlock edits s4) = Inr r"
    unfolding edit_block_fields_def by (elim try_bind_InrE) blast
  from edit_field_Inr [OF s1] obtain t where t: "t = None \<longleftrightarrow> be_title edits = None" "fst s1 = stored with_title t b"
    "snd s1 = [] \<longleftrightarrow> be_title edits = None" by auto
  have p: "fst s2 = fst s1" "snd s2 = [] \<longleftrightarrow> snd s1 = [] \<and> be_promptMarkdown edits = None"
    using s2 by (cases "be_promptMarkdown edits"; force simp: edit_field_def)+
  from edit_field_Inr [OF s3] obtain e where e: "e = None \<longleftrightarrow> be_executor edits = None" "fst s3 = stored with_executor e (fst s2)"
    "snd s3 = [] \<longleftrightarrow> snd s2 = [] \<and> be_executor edits = None" by auto
  from edit_field_Inr [OF s4] obtain ds where ds: "ds = None \<longleftrightarrow> be_dependsOn edits = None" "fst s4 = stored with_depends ds (fst s3)"
    "snd s4 = [] \<longleftrightarrow> snd s3 = [] \<and> be_dependsOn edits = None" by auto
  have "fst s4 = common_stored t e ds b" using t(2) p(1) e(2) ds(2) by (simp add: common_stored_def)
  then have s4': "s4 = (common_stored t e ds b, snd s4)" by (simp add: prod_eq_iff)
  have ne: "snd s4 = [] \<longleftrightarrow> be_title edits = None \<and> be_promptMarkdown edits = None \<and> be_executor edits = None \<and> be_dependsOn edits = None"
    using t(3) p(2) e(3) ds(3) by blast
  have "(if mb_type b = Implementation then editImplementationBlock edits (common_stored t e ds b, snd s4)
      else editReviewBlock edits (common_stored t e ds b, snd s4)) = Inr r"
    using r by (subst (asm) (1 2 3) s4') simp
  with that [OF t(1) e(1) ds(1) ne] show thesis .
qed

lemma common_inverse:
  assumes tidy: "tidy_block b" and undo: "undo = inverse_block_edit b edits md"
  obtains f' where "edit_block_fields undo b' =
     (let s = (common_stored (if be_title edits = None then None else Some (mb_title b))
                (if be_executor edits = None then None else Some (mb_executor b))
                (if be_dependsOn edits = None then None else Some (mb_depends_on b)) b', f')
      in if mb_type b' = Implementation then editImplementationBlock undo s else editReviewBlock undo s)"
    "f' = [] \<longleftrightarrow> be_title edits = None \<and> md = None \<and> be_executor edits = None \<and> be_dependsOn edits = None"
proof -
  have v: "be_title undo = (if be_title edits = None then None else Some (mb_title b))" "be_promptMarkdown undo = md"
    "be_executor undo = (if be_executor edits = None then None else Some (mb_executor b))"
    "be_dependsOn undo = (if be_dependsOn edits = None then None else Some (mb_depends_on b))" by (simp_all add: undo inverse_block_edit_def)
  have n: "nonEmpty (mb_title b) ''title'' = Inr (mb_title b)" "optionalText (mb_executor b) = Inr (mb_executor b)"
    "stringArray (mb_depends_on b) ''dependsOn'' = Inr (mb_depends_on b)"
    using tidy by (simp_all add: tidy_block_def stringArray_def)
  show thesis
    by (rule that [of "((if be_title edits = None then [] else [''title'']) @ (if md = None then [] else [''prompt''])) @
        (if be_executor edits = None then [] else [''executor'']) @ (if be_dependsOn edits = None then [] else [''depends_on''])"])
      (auto simp: edit_block_fields_def v n edit_field_def stored_def common_stored_def Let_def split: option.splits)
qed

lemma implementation_normal:
  assumes "tidy_block b" "manifestBlock_valid b" "parsed_block b = b" "mb_type b = Implementation"
  shows "normal_resources (list_or_empty (mb_sharedResources b)) = Inr (mb_sharedResources b)"
    and "normal_capabilities (list_or_empty (mb_capabilities b)) = Inr (mb_capabilities b)"
proof -
  from assms(4) obtain i t p ds e caps shared where b: "b = ManifestImplementationBlock i t p ds e caps shared" by (cases b) auto
  have "list_all tidy (list_or_empty shared)" using assms(1) by (auto simp: tidy_block_def b list_or_empty_def split: option.splits)
  moreover have "none_if_empty (js_dedup (list_or_empty shared)) = shared"
    using assms(3) by (auto simp: b list_or_empty_def none_if_empty_def Let_def js_dedup_def [of "[]"] split: option.splits if_splits)
  ultimately show "normal_resources (list_or_empty (mb_sharedResources b)) = Inr (mb_sharedResources b)"
    by (simp add: normal_resources_def b)
  show "normal_capabilities (list_or_empty (mb_capabilities b)) = Inr (mb_capabilities b)"
    using assms(2) by (auto simp: normal_capabilities_def b manifestBlock_valid_def list_or_empty_def none_if_empty_def
        userRequiredCapabilities_valid_def split: option.splits)
qed

lemma edit_implementation_inverse:
  assumes ok: "tidy_block b" "manifestBlock_valid b" "parsed_block b = b" "mb_type b = Implementation"
    and compat: "ensureBlockFieldCompatibility b edits = Inr ()"
    and run: "edit_block_fields edits b = Inr (b', f)" "f \<noteq> []" and md: "md = None \<longleftrightarrow> be_promptMarkdown edits = None"
  shows "\<exists>f'. edit_block_fields (inverse_block_edit b edits md) b' = Inr (b, f') \<and> f' \<noteq> []"
proof -
  define undo where "undo = inverse_block_edit b edits md"
  from run(1) obtain t e ds f0 where
    z: "t = None \<longleftrightarrow> be_title edits = None" "e = None \<longleftrightarrow> be_executor edits = None" "ds = None \<longleftrightarrow> be_dependsOn edits = None"
    and f0: "f0 = [] \<longleftrightarrow> be_title edits = None \<and> be_promptMarkdown edits = None \<and> be_executor edits = None \<and> be_dependsOn edits = None"
    and im: "(if mb_type b = Implementation then editImplementationBlock edits (common_stored t e ds b, f0)
      else editReviewBlock edits (common_stored t e ds b, f0)) = Inr (b', f)" by (rule edit_block_common)
  from im ok(4) have "editImplementationBlock edits (common_stored t e ds b, f0) = Inr (b', f)" by simp
  then obtain s5 where
    s5: "edit_field (be_sharedResources edits) ''parallel.sharedResources'' normal_resources with_sharedResources (common_stored t e ds b, f0) = Inr s5"
      "edit_field (be_requiredCapabilities edits) ''requirements.capabilities'' normal_capabilities with_capabilities s5 = Inr (b', f)"
    unfolding editImplementationBlock_def by (elim try_bind_InrE)
  from edit_field_Inr [OF s5(1)] obtain sh where sh: "sh = None \<longleftrightarrow> be_sharedResources edits = None"
    "fst s5 = stored with_sharedResources sh (common_stored t e ds b)" "snd s5 = [] \<longleftrightarrow> f0 = [] \<and> be_sharedResources edits = None" by auto
  from edit_field_Inr [OF s5(2)] obtain cs where cs: "cs = None \<longleftrightarrow> be_requiredCapabilities edits = None"
    "b' = stored with_capabilities cs (fst s5)" "f = [] \<longleftrightarrow> snd s5 = [] \<and> be_requiredCapabilities edits = None" by auto
  from ok(4) obtain i t0 p d0 e0 c0 r0 where b: "b = ManifestImplementationBlock i t0 p d0 e0 c0 r0" by (cases b) auto
  have ty: "mb_type b' = Implementation" by (simp add: cs(2) sh(2) b stored_def common_stored_def split: option.splits)
  have v: "be_sharedResources undo = (if be_sharedResources edits = None then None else Some (list_or_empty r0))"
    "be_requiredCapabilities undo = (if be_requiredCapabilities edits = None then None else Some (list_or_empty c0))"
    by (simp_all add: undo_def inverse_block_edit_def b)
  from common_inverse [OF ok(1) undo_def, of b'] obtain f1 where
    c: "edit_block_fields undo b' = editImplementationBlock undo (common_stored (if be_title edits = None then None else Some (mb_title b))
        (if be_executor edits = None then None else Some (mb_executor b)) (if be_dependsOn edits = None then None else Some (mb_depends_on b)) b', f1)"
      "f1 = [] \<longleftrightarrow> be_title edits = None \<and> md = None \<and> be_executor edits = None \<and> be_dependsOn edits = None" by (auto simp: Let_def ty)
  have normal: "normal_resources (list_or_empty r0) = Inr r0" "normal_capabilities (list_or_empty c0) = Inr c0"
    using implementation_normal [OF ok] by (simp_all add: b)
  let ?f2 = "f1 @ (if be_sharedResources edits = None then [] else [''parallel.sharedResources'']) @
      (if be_requiredCapabilities edits = None then [] else [''requirements.capabilities''])"
  have "edit_block_fields undo b' = Inr (b, ?f2)"
    unfolding c(1) editImplementationBlock_def
    by (cases t; cases e; cases ds; cases sh; cases cs)
      (use sh(2) cs(2) normal in \<open>simp_all add: z [symmetric] sh(1) [symmetric] cs(1) [symmetric] v edit_field_def stored_def common_stored_def b\<close>)
  moreover have "?f2 \<noteq> []" using run(2) cs(3) sh(3) f0 c(2) md by auto
  ultimately show ?thesis unfolding undo_def by blast
qed

lemma edit_review_inverse:
  assumes ok: "tidy_block b" "mb_type b = Review" and compat: "ensureBlockFieldCompatibility b edits = Inr ()"
    and run: "edit_block_fields edits b = Inr (b', f)" "f \<noteq> []" and md: "md = None \<longleftrightarrow> be_promptMarkdown edits = None"
  shows "\<exists>f'. edit_block_fields (inverse_block_edit b edits md) b' = Inr (b, f') \<and> f' \<noteq> []"
proof -
  define undo where "undo = inverse_block_edit b edits md"
  from run(1) obtain t e ds f0 where
    z: "t = None \<longleftrightarrow> be_title edits = None" "e = None \<longleftrightarrow> be_executor edits = None" "ds = None \<longleftrightarrow> be_dependsOn edits = None"
    and f0: "f0 = [] \<longleftrightarrow> be_title edits = None \<and> be_promptMarkdown edits = None \<and> be_executor edits = None \<and> be_dependsOn edits = None"
    and im: "(if mb_type b = Implementation then editImplementationBlock edits (common_stored t e ds b, f0)
      else editReviewBlock edits (common_stored t e ds b, f0)) = Inr (b', f)" by (rule edit_block_common)
  from im ok(2) have "editReviewBlock edits (common_stored t e ds b, f0) = Inr (b', f)" by simp
  then obtain s5 s6 where
    s5: "edit_field (be_reviewRequired edits) ''review.required'' Inr (\<lambda>r. with_review (\<lambda>p. p\<lparr>rp_required := r\<rparr>)) (common_stored t e ds b, f0) = Inr s5"
      "edit_field (be_maxFeedbackCycles edits) ''review.maxFeedbackCycles'' normalizeMaxFeedbackCycles
         (\<lambda>k. with_review (\<lambda>p. p\<lparr>rp_maxFeedbackCycles := k\<rparr>)) s5 = Inr s6"
      "edit_field (be_reviewHook edits) ''review.hook'' Inr (\<lambda>h. with_review (\<lambda>p. p\<lparr>rp_hook := h\<rparr>)) s6 = Inr (b', f)"
    unfolding editReviewBlock_def by (elim try_bind_InrE)
  from edit_field_Inr [OF s5(1)] obtain q where q: "q = None \<longleftrightarrow> be_reviewRequired edits = None"
    "fst s5 = stored (\<lambda>r. with_review (\<lambda>p. p\<lparr>rp_required := r\<rparr>)) q (common_stored t e ds b)" "snd s5 = [] \<longleftrightarrow> f0 = [] \<and> be_reviewRequired edits = None" by auto
  from edit_field_Inr [OF s5(2)] obtain k where k: "k = None \<longleftrightarrow> be_maxFeedbackCycles edits = None"
    "fst s6 = stored (\<lambda>k. with_review (\<lambda>p. p\<lparr>rp_maxFeedbackCycles := k\<rparr>)) k (fst s5)" "snd s6 = [] \<longleftrightarrow> snd s5 = [] \<and> be_maxFeedbackCycles edits = None" by auto
  from edit_field_Inr [OF s5(3)] obtain h where h: "h = None \<longleftrightarrow> be_reviewHook edits = None"
    "b' = stored (\<lambda>h. with_review (\<lambda>p. p\<lparr>rp_hook := h\<rparr>)) h (fst s6)" "f = [] \<longleftrightarrow> snd s6 = [] \<and> be_reviewHook edits = None" by auto
  from ok(2) obtain i t0 p d0 e0 pol where b: "b = ManifestReviewBlock i t0 p d0 e0 pol" by (cases b) auto
  have ty: "mb_type b' = Review" by (simp add: h(2) k(2) q(2) b stored_def common_stored_def split: option.splits)
  have v: "be_reviewRequired undo = (if be_reviewRequired edits = None then None else Some (rp_required pol))"
    "be_maxFeedbackCycles undo = (if be_maxFeedbackCycles edits = None then None else Some (int (rp_maxFeedbackCycles pol)))"
    "be_reviewHook undo = (if be_reviewHook edits = None then None else Some (rp_hook pol))"
    by (simp_all add: undo_def inverse_block_edit_def b)
  from common_inverse [OF ok(1) undo_def, of b'] obtain f1 where
    c: "edit_block_fields undo b' = editReviewBlock undo (common_stored (if be_title edits = None then None else Some (mb_title b))
        (if be_executor edits = None then None else Some (mb_executor b)) (if be_dependsOn edits = None then None else Some (mb_depends_on b)) b', f1)"
      "f1 = [] \<longleftrightarrow> be_title edits = None \<and> md = None \<and> be_executor edits = None \<and> be_dependsOn edits = None" by (auto simp: Let_def ty)
  let ?f2 = "f1 @ (if be_reviewRequired edits = None then [] else [''review.required'']) @
      (if be_maxFeedbackCycles edits = None then [] else [''review.maxFeedbackCycles'']) @ (if be_reviewHook edits = None then [] else [''review.hook''])"
  have "edit_block_fields undo b' = Inr (b, ?f2)"
    unfolding c(1) editReviewBlock_def
    by (cases t; cases e; cases ds; cases q; cases k; cases h)
      (use q(2) k(2) h(2) in \<open>simp_all add: z [symmetric] q(1) [symmetric] k(1) [symmetric] h(1) [symmetric] v edit_field_def stored_def common_stored_def b normalizeMaxFeedbackCycles_def\<close>)
  moreover have "?f2 \<noteq> []" using run(2) h(3) k(3) q(3) f0 c(2) md by auto
  ultimately show ?thesis unfolding undo_def by blast
qed

lemma edit_field_keeps:
  assumes "edit_field v name normal store s = Inr s'" and "P (fst s)" and "\<And>x z y. normal x = Inr z \<Longrightarrow> P y \<Longrightarrow> P (store z y)"
  shows "P (fst s')"
  using assms by (auto simp: edit_field_def try_bind_eq_Inr split: option.splits)

lemma parsed_stores:
  assumes "parsed_block b = b"
  shows "parsed_block (with_title t b) = with_title t b" "parsed_block (with_depends ds b) = with_depends ds b"
    "parsed_block (with_capabilities cs b) = with_capabilities cs b" "parsed_block (with_review g b) = with_review g b"
    "normal_resources rs = Inr z \<Longrightarrow> parsed_block (with_sharedResources z b) = with_sharedResources z b"
  using assms by (cases b; auto simp: normal_resources_def none_if_empty_def try_bind_eq_Inr Let_def split: option.splits if_splits)+

lemma edit_block_keep:
  assumes run: "edit_block_fields edits b = Inr (b', f)" and b: "parsed_block b = b"
  shows "parsed_block b' = b' \<and> mb_id b' = mb_id b \<and> mb_type b' = mb_type b"
proof -
  let ?P = "\<lambda>y. parsed_block y = y \<and> mb_id y = mb_id b \<and> mb_type y = mb_type b"
  note keeps = edit_field_keeps [where P = ?P]
  from run obtain t e ds f0 where im: "(if mb_type b = Implementation then editImplementationBlock edits (common_stored t e ds b, f0)
      else editReviewBlock edits (common_stored t e ds b, f0)) = Inr (b', f)" by (rule edit_block_common)
  have c: "?P (fst (common_stored t e ds b, f0))"
    using b by (simp add: common_stored_def stored_def parsed_stores with_executor_parsed split: option.splits)
  show ?thesis
  proof (cases "mb_type b = Implementation")
    case True
    with im obtain s5 where
      s5: "edit_field (be_sharedResources edits) ''parallel.sharedResources'' normal_resources with_sharedResources (common_stored t e ds b, f0) = Inr s5"
        "edit_field (be_requiredCapabilities edits) ''requirements.capabilities'' normal_capabilities with_capabilities s5 = Inr (b', f)"
      unfolding editImplementationBlock_def by (auto elim: try_bind_InrE)
    have "?P (fst s5)" by (rule keeps [OF s5(1) c]) (simp add: parsed_stores)
    from keeps [OF s5(2) this] show ?thesis by (simp add: parsed_stores)
  next
    case False
    with im obtain s5 s6 where
      s5: "edit_field (be_reviewRequired edits) ''review.required'' Inr (\<lambda>r. with_review (\<lambda>p. p\<lparr>rp_required := r\<rparr>)) (common_stored t e ds b, f0) = Inr s5"
        "edit_field (be_maxFeedbackCycles edits) ''review.maxFeedbackCycles'' normalizeMaxFeedbackCycles
           (\<lambda>k. with_review (\<lambda>p. p\<lparr>rp_maxFeedbackCycles := k\<rparr>)) s5 = Inr s6"
        "edit_field (be_reviewHook edits) ''review.hook'' Inr (\<lambda>h. with_review (\<lambda>p. p\<lparr>rp_hook := h\<rparr>)) s6 = Inr (b', f)"
      unfolding editReviewBlock_def by (auto elim!: try_bind_InrE)
    have "?P (fst s5)" by (rule keeps [OF s5(1) c]) (simp add: parsed_stores)
    then have "?P (fst s6)" by (rule keeps [OF s5(2)]) (simp add: parsed_stores)
    from keeps [OF s5(3) this] show ?thesis by (simp add: parsed_stores)
  qed
qed

lemma edit_block_inverse:
  assumes ok: "tidy_block b" "manifestBlock_valid b" "parsed_block b = b" and compat: "ensureBlockFieldCompatibility b edits = Inr ()"
    and run: "edit_block_fields edits b = Inr (b', f)" "f \<noteq> []" and md: "md = None \<longleftrightarrow> be_promptMarkdown edits = None"
  obtains f' where "edit_block_fields (inverse_block_edit b edits md) b' = Inr (b, f')" "f' \<noteq> []"
    "ensureBlockFieldCompatibility b' (inverse_block_edit b edits md) = Inr ()"
proof -
  have ty: "mb_type b' = mb_type b" using edit_block_keep [OF run(1) ok(3)] by simp
  have "\<exists>f'. edit_block_fields (inverse_block_edit b edits md) b' = Inr (b, f') \<and> f' \<noteq> []"
    using edit_implementation_inverse [OF ok _ compat run md] edit_review_inverse [OF ok(1) _ compat run md]
    by (cases "mb_type b") auto
  moreover have "ensureBlockFieldCompatibility b' (inverse_block_edit b edits md) = Inr ()"
    by (cases "mb_type b") (simp_all add: ensureBlockFieldCompatibility_def inverse_block_edit_def ty)
  ultimately show thesis using that by blast
qed

lemma replace_block_simps:
  assumes "distinct (map mb_id (mn_blocks n))" and "b \<in> set (mn_blocks n)" and "mb_id b' = mb_id b"
  shows "replace_block (mb_id b) b (replace_block (mb_id b) b' n) = n" "b' \<in> set (mn_blocks (replace_block (mb_id b) b' n))"
    "map mb_id (mn_blocks (replace_block (mb_id b) b' n)) = map mb_id (mn_blocks n)" "mn_id (replace_block (mb_id b) b' n) = mn_id n"
proof -
  have "map (\<lambda>x. if mb_id x = mb_id b then b else x) (map (\<lambda>x. if mb_id x = mb_id b then b' else x) (mn_blocks n)) = mn_blocks n"
    unfolding map_map using assms by (intro map_idI) (auto simp: distinct_map inj_on_def)
  then show "replace_block (mb_id b) b (replace_block (mb_id b) b' n) = n" by (simp add: replace_block_def)
  show "b' \<in> set (mn_blocks (replace_block (mb_id b) b' n))" using assms(2) by (auto simp: replace_block_def image_iff)
  show "map mb_id (mn_blocks (replace_block (mb_id b) b' n)) = map mb_id (mn_blocks n)" using assms(3) by (auto simp: replace_block_def)
  show "mn_id (replace_block (mb_id b) b' n) = mn_id n" by (simp add: replace_block_def)
qed

lemma block_located:
  assumes ed: "editable executors mf" and "parseBlockRef ref = Inr (t, bid)" and "find_task mf t = Some n" and "find_block n bid = Some b"
  shows "n \<in> set (mf_nodes mf)" "mn_id n = t" "b \<in> set (mn_blocks n)" "mb_id b = bid" "ref = blockRef (mn_id n) (mb_id b)"
    "parsed_block b = b" "manifestBlock_valid b" "tidy_block b"
proof -
  show n: "n \<in> set (mf_nodes mf)" "mn_id n = t" using assms(3) find_task_Some [OF editable_parts(4) [OF ed]] by auto
  show b: "b \<in> set (mn_blocks n)" "mb_id b = bid" using assms(4) by (auto simp: find_block_def dest: find_Some_iff_mem)
  show "ref = blockRef (mn_id n) (mb_id b)" using assms(2) n(2) b(2) by (simp add: parseBlockRef_Inr)
  show "parsed_block b = b" using parsed_fixed(2) [OF editable_parts(1) [OF ed] n(1)] b(1) by blast
  show "manifestBlock_valid b" "tidy_block b" using editable_node(4,7) [OF ed n(1)] b(1) by (auto simp: tidy_node_def list_all_iff)
qed

lemma undo_block_fields:
  assumes ed: "editable executors mf" "lp_manifest ld = mf"
    and run: "command_mutation mf (UpdateBlockFieldsCommand ref edits) = Inr (Inr m)"
    and us: "command_inverse ld (UpdateBlockFieldsCommand ref edits) = Inr (Inr us)"
    and mf1: "manifestSchema executors (gm_nextManifest m) = Some mf1" "ids_fine mf1"
  shows "replay_manifest executors us mf1 = Some mf"
proof -
  from run obtain t bid n b b' f where p: "parseBlockRef ref = Inr (t, bid)" "find_task mf t = Some n" "find_block n bid = Some b"
    and edit: "ensureBlockFieldCompatibility b edits = Inr ()" "edit_block_fields edits b = Inr (b', f)" "f \<noteq> []"
    and next': "gm_nextManifest m = replaceTask mf (replace_block bid b' n)"
    by (auto simp: command_mutation_def block_mutation_def buildPlanPackageBlockFieldEditMutation_def taskNode_def try_bind_eq_Inr
        dest!: change_next split: option.splits if_splits)
  note at = block_located [OF ed(1) p]
  let ?n1 = "replace_block (mb_id b) b' n"
  have keep: "parsed_block b' = b'" "mb_id b' = mb_id b" using edit_block_keep [OF edit(2) at(6)] by simp_all
  note dist = editable_node(5) [OF ed(1) at(1)]
  note rep = replace_block_simps [OF dist at(3) keep(2)]
  have "\<forall>x \<in> set (mn_blocks ?n1). parsed_block x = x"
    using parsed_fixed(2) [OF editable_parts(1) [OF ed(1)] at(1)] keep(1) by (auto simp: replace_block_def)
  then have "parsed_node ?n1 = ?n1" by (auto simp: parsed_node_def intro!: manifest_node.equality map_idI)
  then have eq: "mf1 = replaceTask mf ?n1" using schema_replaced [OF ed(1)] mf1(1) next' at(4) by simp
  from us ed(2) p obtain md where md: "md = None \<longleftrightarrow> be_promptMarkdown edits = None"
    and us': "us = [UpdateBlockFieldsCommand ref (inverse_block_edit b edits md)]"
    by (auto simp: command_inverse_def block_inverse_def inverseBlockFieldsCommand_def blockFromManifest_def try_bind_eq_Inr split: option.splits)
  from edit_block_inverse [OF at(8,7,6) edit md] obtain f' where
    inv: "edit_block_fields (inverse_block_edit b edits md) b' = Inr (b, f')" "f' \<noteq> []"
      "ensureBlockFieldCompatibility b' (inverse_block_edit b edits md) = Inr ()" .
  have self: "replaceTask mf n = mf" by (rule replace_self [OF editable_parts(4) [OF ed(1)] at(1)])
  have "replay_manifest executors (UpdateBlockFieldsCommand (blockRef (mn_id n) (mb_id b')) (inverse_block_edit b edits md) # []) (replaceTask mf ?n1) =
      replay_manifest executors [] (replaceTask mf n)"
    by (rule replay_block_edit [OF ed(1) at(1) _ _ rep(4) refl rep(2) _ inv(3,1,2)])
      (use mf1(2) eq self rep dist editable_parts [OF ed(1)] keep(2) in auto)
  then show ?thesis using us' eq at(5) keep(2) self by (simp del: replay_manifest.simps(2))
qed

end
