(* ===== verification/Undo_Restores.thy ===== *)
theory Undo_Restores
  imports Plan_Undo
begin

text \<open>
  The round trip of the plan graph commands: the undo of an edit of a block's prompt, of an added and of a removed block, and with
  the lemmas of \<^verbatim>\<open>Plan_Undo\<close> the theorem over every command of the dependency, task and block handlers that a
  user issues. The last section shows why removing a task needs the condition on identifiers.
\<close>

section \<open>Block prompts\<close>

lemma prompt_only_edit:
  "edit_block_fields (no_block_edit\<lparr>be_promptMarkdown := Some md\<rparr>) b = Inr (b, [''prompt''])"
  "ensureBlockFieldCompatibility b (no_block_edit\<lparr>be_promptMarkdown := Some md\<rparr>) = Inr ()"
  by (simp_all add: edit_block_fields_def edit_field_def no_block_edit_def editImplementationBlock_def editReviewBlock_def
      ensureBlockFieldCompatibility_def)

lemma replace_block_self:
  assumes "distinct (map mb_id (mn_blocks n))" and "b \<in> set (mn_blocks n)"
  shows "replace_block (mb_id b) b n = n"
  using replace_block_simps(1) [OF assms refl] by (simp add: replace_block_def comp_def if_distrib cong: if_cong)

lemma undo_block_prompt:
  assumes ed: "editable executors mf" "lp_manifest ld = mf"
    and run: "command_mutation mf (UpdateBlockPromptCommand ref md) = Inr (Inr m)"
    and us: "command_inverse ld (UpdateBlockPromptCommand ref md) = Inr (Inr us)"
    and mf1: "manifestSchema executors (gm_nextManifest m) = Some mf1" "ids_fine mf1"
  shows "replay_manifest executors us mf1 = Some mf"
proof -
  from run obtain t bid n b where p: "parseBlockRef ref = Inr (t, bid)" "find_task mf t = Some n" "find_block n bid = Some b"
    and next': "gm_nextManifest m = replaceTask mf (replace_block bid b n)"
    by (auto simp: command_mutation_def block_mutation_def buildPlanPackageBlockFieldEditMutation_def taskNode_def try_bind_eq_Inr
        prompt_only_edit dest!: change_next split: option.splits if_splits)
  note at = block_located [OF ed(1) p]
  have "replace_block bid b n = n" using replace_block_self [OF editable_node(5) [OF ed(1) at(1)] at(3)] at(4) by simp
  moreover have "replaceTask mf n = mf" by (rule replace_self [OF editable_parts(4) [OF ed(1)] at(1)])
  ultimately have self: "replaceTask mf (replace_block bid b n) = mf" by simp
  then have eq: "mf1 = mf" using mf1(1) next' editable_parts(1) [OF ed(1)] by simp
  from us ed(2) p obtain old where old: "us = [UpdateBlockPromptCommand ref old]"
    by (auto simp: command_inverse_def block_inverse_def blockFromManifest_def split: option.splits)
  have "replay_manifest executors [UpdateBlockPromptCommand ref old] mf1 = Some mf"
    by (intro replay_back [OF ed(1) mf1(2), of "[t]" "writePromptSideEffects (mb_prompt b) (Some old)"])
      (simp add: command_mutation_def block_mutation_def buildPlanPackageBlockFieldEditMutation_def taskNode_def eq p prompt_only_edit self)
  with old show ?thesis by simp
qed

section \<open>Adding and removing blocks\<close>

lemma with_depends_simps [simp]:
  "with_depends ds (with_depends ds' b) = with_depends ds b" "with_depends (mb_depends_on b) b = b"
  by (cases b; simp)+

lemma find_append: "List.find P (xs @ ys) = (case List.find P xs of None \<Rightarrow> List.find P ys | Some x \<Rightarrow> Some x)"
  by (induction xs) simp_all

lemma replace_task_eq: "mn_id n' = t \<Longrightarrow> replace_task mf t n' = replaceTask mf n'"
  by (simp add: replaceTask_def)

lemma undo_add_block:
  assumes ed: "editable executors mf" and run: "command_mutation mf (AddBlockCommand snap) = Inr (Inr m)"
    and snap: "bn_affectedDependsOn snap = []"
    and mf1: "manifestSchema executors (gm_nextManifest m) = Some mf1" "ids_fine mf1"
  shows "replay_manifest executors [RemoveBlockCommand (blockRef (bn_taskId snap) (mb_id (bn_block snap)))] mf1 = Some mf"
proof -
  let ?b = "parsed_block (bn_block snap)"
  from run obtain n where n: "find_task mf (bn_taskId snap) = Some n" and new: "\<forall>b \<in> set (mn_blocks n). mb_id b \<noteq> mb_id (bn_block snap)"
    and "gm_nextManifest m = replace_task mf (mn_id n) (n\<lparr>mn_blocks := restored_blocks n snap\<rparr>)"
    by (auto simp: command_mutation_def block_mutation_def add_block_mutation_def blockSnapshotMutation_def try_bind_eq_Inr list_ex_iff
        dest!: change_next split: option.splits if_splits)
  then obtain k where m: "gm_nextManifest m = replaceTask mf (n\<lparr>mn_blocks := insert_at k (bn_block snap) (mn_blocks n)\<rparr>)"
    by (auto simp: restored_blocks_def snap replace_task_eq)
  from n find_task_Some [OF editable_parts(4) [OF ed]] have mem: "n \<in> set (mf_nodes mf)" "mn_id n = bn_taskId snap" by auto
  let ?n1 = "n\<lparr>mn_blocks := insert_at k ?b (mn_blocks n)\<rparr>"
  have "map parsed_block (take j (mn_blocks n)) = take j (mn_blocks n)" "map parsed_block (drop j (mn_blocks n)) = drop j (mn_blocks n)" for j
    using parsed_fixed(2) [OF editable_parts(1) [OF ed] mem(1)] by (auto intro!: map_idI dest: in_set_takeD in_set_dropD)
  then have "parsed_node (n\<lparr>mn_blocks := insert_at k (bn_block snap) (mn_blocks n)\<rparr>) = ?n1"
    by (simp add: parsed_node_def insert_at_def)
  then have "map parsed_node (mf_nodes (replaceTask mf (n\<lparr>mn_blocks := insert_at k (bn_block snap) (mn_blocks n)\<rparr>))) = mf_nodes (replaceTask mf ?n1)"
    using parsed_fixed(1) [OF editable_parts(1) [OF ed]] by auto
  with schema_parts(1) [OF mf1(1)] have eq: "mf1 = replaceTask mf ?n1" by (simp only: m) (simp add: replaceTask_def replace_task_def)
  have n1: "?n1 \<in> set (mf_nodes mf1)" using mem(1) by (auto simp: eq image_iff)
  have "?b \<in> set (mn_blocks ?n1)" by (simp add: insert_at_def)
  with n1 mf1(2) have "id_ok (mn_id n)" "id_ok (mb_id (bn_block snap))"
    unfolding ids_fine_def manifest_ids_ok_def list_all_iff by fastforce+
  then have parse: "parseBlockRef (blockRef (bn_taskId snap) (mb_id (bn_block snap))) = Inr (bn_taskId snap, mb_id (bn_block snap))"
    using parse_blockRef mem(2) by metis
  have task: "find_task mf1 (bn_taskId snap) = Some ?n1"
    using find_replaced [OF editable_parts(4) [OF ed] mem(1), of ?n1] mem(2) eq by simp
  have fresh: "\<forall>b \<in> set (mn_blocks n). mb_id b \<noteq> mb_id (bn_block snap) \<and> mb_id (bn_block snap) \<notin> set (mb_depends_on b)"
    using new editable_node(6) [OF ed mem(1)] by (fastforce simp: depends_known_def)
  then have "List.find (\<lambda>b. mb_id b = mb_id (bn_block snap)) (take k (mn_blocks n)) = None"
    by (auto simp: find_None_iff dest: in_set_takeD)
  then have "find_block ?n1 (mb_id (bn_block snap)) = Some ?b" by (simp add: find_block_def insert_at_def find_append)
  note found = parse task this
  have keep: "map (\<lambda>b. with_depends (filter (\<lambda>d. d \<noteq> mb_id (bn_block snap)) (mb_depends_on b)) b) (mn_blocks n) = mn_blocks n"
    using fresh by (intro map_idI) (simp add: filter_absent)
  have "filter (\<lambda>b. mb_id b \<noteq> mb_id (bn_block snap)) (take k (mn_blocks n)) = take k (mn_blocks n)"
    "filter (\<lambda>b. mb_id b \<noteq> mb_id (bn_block snap)) (drop k (mn_blocks n)) = drop k (mn_blocks n)"
    using fresh unfolding filter_id_conv by (auto dest: in_set_takeD in_set_dropD)
  then have "filter (\<lambda>b. mb_id b \<noteq> mb_id (bn_block snap)) (mn_blocks ?n1) = mn_blocks n" by (simp add: insert_at_def)
  then have "without_block (mb_id (bn_block snap)) ?n1 = n" using keep by (simp add: without_block_def)
  moreover have "replaceTask mf1 n = mf"
    using replace_twice [of ?n1 n mf] replace_self [OF editable_parts(4) [OF ed] mem(1)] by (simp add: eq)
  ultimately have ret: "replace_task mf1 (bn_taskId snap) (without_block (mb_id (bn_block snap)) ?n1) = mf"
    using mem(2) by (simp add: replace_task_eq)
  show ?thesis
    by (rule replay_back [OF ed mf1(2), of "[]" "[RemovePrompt (mb_prompt ?b)]"])
      (use found ret mem(2) in \<open>simp add: command_mutation_def block_mutation_def blockFromManifest_def buildPlanPackageGraphMutation_def
         removeBlock_def block_of_ref_def taskNode_def\<close>)
qed

text \<open>The snapshot of a block puts it back where it was and restores the dependencies on it.\<close>

lemma find_dependent:
  assumes "distinct (map mb_id bs)" and "b \<in> set bs"
  shows "List.find (\<lambda>a. fst a = blockRef t (mb_id b)) (map (\<lambda>x. (blockRef t (mb_id x), mb_depends_on x)) (filter P bs)) =
    (if P b then Some (blockRef t (mb_id b), mb_depends_on b) else None)"
  using assms by (induction bs) (auto simp: blockRef_def find_None_iff, metis image_eqI)

lemma restored_original:
  assumes dist: "distinct (map mb_id (mn_blocks n))" and blocks: "mn_blocks n = ys @ [b] @ zs"
    and snap: "bn_block snap = b" "bn_insertIndex snap = Some (int (length ys))"
      "bn_affectedDependsOn snap = map (\<lambda>x. (blockRef (mn_id n) (mb_id x), mb_depends_on x))
         (filter (\<lambda>x. mb_id b \<in> set (mb_depends_on x)) (mn_blocks n))"
  shows "restored_blocks (without_block (mb_id b) n) snap = mn_blocks n"
proof -
  let ?cut = "\<lambda>x. with_depends (filter (\<lambda>d. d \<noteq> mb_id b) (mb_depends_on x)) x"
  let ?restore = "\<lambda>x. case List.find (\<lambda>a. fst a = blockRef (mn_id n) (mb_id x)) (bn_affectedDependsOn snap) of
    None \<Rightarrow> x | Some a \<Rightarrow> with_depends (snd a) x"
  have "filter (\<lambda>x. mb_id x \<noteq> mb_id b) ys = ys" "filter (\<lambda>x. mb_id x \<noteq> mb_id b) zs = zs"
    using dist blocks by (auto simp: filter_id_conv image_iff)
  then have cut: "mn_blocks (without_block (mb_id b) n) = map ?cut ys @ map ?cut zs" by (simp add: without_block_def blocks)
  have found: "List.find (\<lambda>a. fst a = blockRef (mn_id n) (mb_id x)) (bn_affectedDependsOn snap) =
      (if mb_id b \<in> set (mb_depends_on x) then Some (blockRef (mn_id n) (mb_id x), mb_depends_on x) else None)"
    if "x \<in> set (mn_blocks n)" for x
    unfolding snap(3) by (rule find_dependent [OF dist that])
  have "?restore b = b" using found [of b] by (auto simp: blocks)
  moreover have "?restore (?cut x) = x" if "x \<in> set (mn_blocks n)" for x
    using found [OF that] by (simp add: filter_absent)
  then have "map ?restore (map ?cut ys) = ys" "map ?restore (map ?cut zs) = zs" by (auto simp: blocks intro!: map_idI)
  moreover have "insert_at (clamped_index (bn_insertIndex snap) (map ?cut ys @ map ?cut zs)) b (map ?cut ys @ map ?cut zs) = map ?cut ys @ [b] @ map ?cut zs"
    using insert_clamped [of "map ?cut ys" "map ?cut zs" b] by (simp add: snap(2))
  moreover have "mn_id (without_block (mb_id b) n) = mn_id n" by (simp add: without_block_def)
  ultimately show ?thesis unfolding restored_blocks_def cut snap(1) by (simp add: blocks)
qed

lemma undo_remove_block:
  assumes ed: "editable executors mf" "lp_manifest ld = mf"
    and run: "command_mutation mf (RemoveBlockCommand ref) = Inr (Inr m)"
    and us: "command_inverse ld (RemoveBlockCommand ref) = Inr (Inr us)"
    and mf1: "manifestSchema executors (gm_nextManifest m) = Some mf1" "ids_fine mf1"
  shows "replay_manifest executors us mf1 = Some mf"
proof -
  from run obtain t bid n b where p: "parseBlockRef ref = Inr (t, bid)" "find_task mf t = Some n" "find_block n bid = Some b"
    and m: "gm_nextManifest m = replace_task mf (mn_id n) (without_block (mb_id b) n)"
    by (auto simp: command_mutation_def block_mutation_def blockFromManifest_def buildPlanPackageGraphMutation_def removeBlock_def
        block_of_ref_def taskNode_def try_bind_eq_Inr dest!: change_next split: option.splits if_splits)
  note at = block_located [OF ed(1) p]
  note dist = editable_node(5) [OF ed(1) at(1)]
  let ?n1 = "without_block (mb_id b) n"
  have id: "mn_id ?n1 = mn_id n" by (simp add: without_block_def)
  have "\<forall>x \<in> set (mn_blocks n). parsed_block x = x" using parsed_fixed(2) [OF editable_parts(1) [OF ed(1)] at(1)] .
  then have "parsed_node ?n1 = ?n1"
    by (auto simp: parsed_node_def without_block_def parsed_stores(2) intro!: manifest_node.equality)
  then have eq: "mf1 = replaceTask mf ?n1" using schema_replaced [OF ed(1)] mf1(1) m id by (simp add: replace_task_eq)
  from us ed(2) p obtain snap where snap: "readBlockSnapshot ld ref = Inr (Inr snap)" "us = [RestoreBlockCommand snap]"
    by (auto simp: command_inverse_def block_inverse_def try_bind_eq_Inr)
  then have fields: "bn_taskId snap = mn_id n" "bn_block snap = b"
    "bn_insertIndex snap = map_option int (findIndex (\<lambda>x. mb_id x = mb_id b) (mn_blocks n))"
    "bn_affectedDependsOn snap = map (\<lambda>x. (blockRef (mn_id n) (mb_id x), mb_depends_on x))
         (filter (\<lambda>x. mb_id b \<in> set (mb_depends_on x)) (mn_blocks n))"
    using ed(2) p by (auto simp: readBlockSnapshot_def blockFromManifest_def split: option.splits)
  from findIndex_split [OF at(3) dist] obtain ys zs where
    blocks: "mn_blocks n = ys @ [b] @ zs" "findIndex (\<lambda>x. mb_id x = mb_id b) (mn_blocks n) = Some (length ys)" by metis
  have "restored_blocks ?n1 snap = mn_blocks n"
    by (rule restored_original [OF dist blocks(1) fields(2) _ fields(4)]) (simp add: fields(3) blocks(2))
  then have "?n1\<lparr>mn_blocks := restored_blocks ?n1 snap\<rparr> = n" by (simp add: without_block_def)
  moreover have "replaceTask mf1 n = mf"
    using replace_twice [OF id, of mf] replace_self [OF editable_parts(4) [OF ed(1)] at(1)] by (simp add: eq)
  ultimately have ret: "replace_task mf1 (mn_id ?n1) (?n1\<lparr>mn_blocks := restored_blocks ?n1 snap\<rparr>) = mf"
    using id by (simp add: replace_task_eq)
  have task: "find_task mf1 (bn_taskId snap) = Some ?n1"
    using find_replaced [OF editable_parts(4) [OF ed(1)] at(1) id] eq fields(1) by simp
  have "\<not> list_ex (\<lambda>x. mb_id x = mb_id b) (mn_blocks ?n1)" by (auto simp: without_block_def list_ex_iff)
  then have "replay_manifest executors [RestoreBlockCommand snap] mf1 = Some mf"
    by (intro replay_back [OF ed(1) mf1(2), of "[mn_id ?n1]" "writePromptSideEffects (mb_prompt b) (Some (bn_promptMarkdown snap))"])
      (simp add: command_mutation_def block_mutation_def add_block_mutation_def blockSnapshotMutation_def task fields(2) ret)
  then show ?thesis by (simp only: snap(2))
qed

section \<open>The round trip\<close>

text \<open>
  The commands a user issues one at a time. The commands that only restore a snapshot are those of the history, and an added block comes
  without dependencies of other blocks on it.
\<close>

fun issued :: "manifest \<Rightarrow> plan_command \<Rightarrow> bool" where
  "issued mf (RestoreTaskCommand _) = False"
| "issued mf (RestoreBlockCommand _) = False"
| "issued mf (BulkUpdateBlocksCommand _) = False"
| "issued mf (BulkUpdateParallelPolicyCommand _ _) = False"
| "issued mf (AddBlockCommand snap) = (bn_affectedDependsOn snap = [])"
| "issued mf (RemoveTaskCommand _) = colon_free mf"
| "issued mf _ = True"

fun keeps_order :: "plan_command \<Rightarrow> bool" where
  "keeps_order (ReconnectTaskDependencyCommand _ _ _ _) = False"
| "keeps_order (RemoveTaskCommand _) = False"
| "keeps_order _ = True"


definition undo_loaded :: loaded_package where
  "undo_loaded = \<lparr>lp_manifest = edit_manifest, lp_prompts = [(''nodes/T1/prompt.md'', ''one''), (''b.md'', ''block'')],
     lp_graph = empty_graph, lp_version = []\<rparr>"

definition undo_snapshot :: task_snapshot where
  "undo_snapshot = \<lparr>ts_task = edit_task ''T1'' ''nodes/T1/prompt.md'', ts_taskPromptMarkdown = ''one'',
     ts_blockPromptMarkdown = [(''B1'', ''block'')], ts_insertIndex = Some 0, ts_affectedTaskEdges = [dependency ''T2'' ''T1'']\<rparr>"


section \<open>Identifiers with a colon\<close>

definition colon_manifest :: manifest where
  "colon_manifest = edit_manifest\<lparr>mf_nodes := map (\<lambda>t. edit_task t ''nodes/T/prompt.md'') [''a'', ''b:c'', ''a:b'', ''c''],
     mf_edges := [dependency ''a'' ''b:c'', dependency ''a:b'' ''c'']\<rparr>"

definition colon_loaded :: loaded_package where
  "colon_loaded = \<lparr>lp_manifest = colon_manifest, lp_prompts = [(''nodes/T/prompt.md'', ''one''), (''b.md'', ''block'')],
     lp_graph = empty_graph, lp_version = []\<rparr>"

text \<open>\<^verbatim>\<open>restoreTaskMutation\<close> joins the ends of a dependency with colons to recognise those that are there already; two
  dependencies can have the same key, and then the undo of a removed task loses one.\<close>

lemma undo_loses_dependency:
  "editable [] colon_manifest \<and>
   (case command_inverse colon_loaded (RemoveTaskCommand ''b:c'') of
      Inr (Inr us) \<Rightarrow>
        map_option mf_edges (replay_manifest [] us (without_node ''b:c'' colon_manifest)) = Some [dependency ''a:b'' ''c'']
    | _ \<Rightarrow> False)"
proof
  show "editable [] colon_manifest" by code_simp
qed code_simp

end
