(* ===== verification/Plan_Log.thy ===== *)
theory Plan_Log
  imports Plan_History
begin

text \<open>
  The operation log of \<^verbatim>\<open>plangraph/sqlite/storeFactory.ts\<close> behaves as an undo stack and a redo stack, and the
  packages that commands, undos and redos leave behind are sound. The last section shows a history that the guard of
  \<^verbatim>\<open>applyHistoryCommand\<close> stops.
\<close>

section \<open>The log as two stacks\<close>

definition core :: "log_entry \<Rightarrow> log_entry" where
  "core e = e\<lparr>oe_undoneAt := None\<rparr>"

definition done_entries :: "operation_log \<Rightarrow> log_entry list" where
  "done_entries log = filter (\<lambda>e. oe_undoneAt e = None) log"

definition undone_entries :: "operation_log \<Rightarrow> log_entry list" where
  "undone_entries log = filter (\<lambda>e. oe_undoneAt e \<noteq> None) log"

definition undone_time :: "log_entry \<Rightarrow> nat" where
  "undone_time e = (case oe_undoneAt e of None \<Rightarrow> 0 | Some t \<Rightarrow> t)"

text \<open>The abstract history: the entries that can be undone and those that can be redone, the next one first.\<close>

type_synonym history = "log_entry list \<times> log_entry list"

definition stacks :: "operation_log \<Rightarrow> history" where
  "stacks log = (rev (done_entries log), map core (undone_entries log))"

fun undo_top :: "history \<Rightarrow> history option" where
  "undo_top ([], _) = None"
| "undo_top (u # us, rs) = Some (us, u # rs)"

fun redo_top :: "history \<Rightarrow> history option" where
  "redo_top (_, []) = None"
| "redo_top (us, r # rs) = Some (r # us, rs)"

text \<open>Recording an edit of a prompt on top of an edit of the same prompt extends that entry.\<close>

definition joins :: "plan_command \<Rightarrow> log_entry list \<Rightarrow> bool" where
  "joins c us \<longleftrightarrow> promptHistoryTarget c \<noteq> None \<and> us \<noteq> [] \<and> promptHistoryTarget (oe_command (hd us)) = promptHistoryTarget c"

definition push :: "log_entry \<Rightarrow> history \<Rightarrow> history" where
  "push e h = (if joins (oe_command e) (fst h)
     then ((hd (fst h))\<lparr>oe_graphVersionAfter := oe_graphVersionAfter e, oe_command := oe_command e\<rparr> # tl (fst h), [])
     else (e # fst h, []))"

text \<open>The shape of a log at a point in time: ids grow, what was undone comes last, and of it the oldest entry was undone last.\<close>

definition stacked :: "nat \<Rightarrow> operation_log \<Rightarrow> bool" where
  "stacked now log \<longleftrightarrow> sorted_wrt (<) (map oe_id log) \<and> log = done_entries log @ undone_entries log \<and>
     sorted_wrt (\<ge>) (map undone_time (undone_entries log)) \<and> (\<forall>e \<in> set (undone_entries log). undone_time e \<le> now)"

lemma stacked_split:
  assumes "stacked now log"
  obtains ls us where "log = ls @ us" "done_entries log = ls" "undone_entries log = us" "\<forall>e \<in> set ls. oe_undoneAt e = None"
    "\<forall>e \<in> set us. oe_undoneAt e \<noteq> None" "sorted_wrt (<) (map oe_id (ls @ us))" "sorted_wrt (\<ge>) (map undone_time us)"
    "\<forall>e \<in> set us. undone_time e \<le> now"
proof (rule that)
  show log: "log = done_entries log @ undone_entries log" using assms unfolding stacked_def by blast
  show "\<forall>e \<in> set (done_entries log). oe_undoneAt e = None" by (simp add: done_entries_def)
  show "\<forall>e \<in> set (undone_entries log). oe_undoneAt e \<noteq> None" by (simp add: undone_entries_def)
  have "sorted_wrt (<) (map oe_id log)" using assms unfolding stacked_def by blast
  with log show "sorted_wrt (<) (map oe_id (done_entries log @ undone_entries log))" by metis
qed (use assms in \<open>simp_all add: stacked_def\<close>)

lemma stackedI:
  assumes "\<forall>e \<in> set ls. oe_undoneAt e = None" "\<forall>e \<in> set us. oe_undoneAt e \<noteq> None" "sorted_wrt (<) (map oe_id (ls @ us))"
    "sorted_wrt (\<ge>) (map undone_time us)" "\<forall>e \<in> set us. undone_time e \<le> now"
  shows "stacked now (ls @ us)" "done_entries (ls @ us) = ls" "undone_entries (ls @ us) = us"
proof -
  have "filter (\<lambda>e. oe_undoneAt e = None) ls = ls" "filter (\<lambda>e. oe_undoneAt e = None) us = []"
    "filter (\<lambda>e. oe_undoneAt e \<noteq> None) ls = []" "filter (\<lambda>e. oe_undoneAt e \<noteq> None) us = us"
    using assms(1,2) by (auto simp: filter_id_conv filter_empty_conv)
  then show "done_entries (ls @ us) = ls" "undone_entries (ls @ us) = us" by (simp_all add: done_entries_def undone_entries_def)
  with assms show "stacked now (ls @ us)" by (simp add: stacked_def)
qed

lemma stacked_later: "stacked t log \<Longrightarrow> t \<le> t' \<Longrightarrow> stacked t' log"
  by (auto simp: stacked_def)

lemma latestUndoable_stack:
  assumes "stacked now log"
  shows "latestUndoable log = (case rev (done_entries log) of [] \<Rightarrow> None | u # us \<Rightarrow> Some u)"
proof -
  from assms obtain ls us where log: "log = ls @ us" "done_entries log = ls" "\<forall>e \<in> set ls. oe_undoneAt e = None"
    "\<forall>e \<in> set us. oe_undoneAt e \<noteq> None" by (rule stacked_split)
  have skip: "List.find P (xs @ ys) = List.find P ys" if "\<forall>x \<in> set xs. \<not> P x" for P and xs ys :: "log_entry list"
    using that by (induction xs) auto
  have "latestUndoable log = List.find (\<lambda>e. oe_undoneAt e = None) (rev ls)"
    unfolding latestUndoable_def log(1) rev_append using log(4) by (simp add: skip)
  also have "\<dots> = (case rev ls of [] \<Rightarrow> None | u # us \<Rightarrow> Some u)"
    using log(3) by (cases "rev ls") (auto dest!: arg_cong [of "rev ls" _ set])
  finally show ?thesis by (simp add: log(2))
qed

lemma fold_max_first:
  assumes "sorted_wrt (\<ge>) (map f (x # xs))"
  shows "fold (\<lambda>e m. max m (f e)) (x # xs) (0 :: nat) = f x"
proof -
  have "fold (\<lambda>e m. max m (f e)) ys k = k" if "\<forall>y \<in> set ys. f y \<le> k" for ys k
    using that by (induction ys) auto
  with assms show ?thesis by simp
qed

lemma latestRedoable_stack:
  assumes "stacked now log"
  shows "latestRedoable log = (case undone_entries log of [] \<Rightarrow> None | r # rs \<Rightarrow> Some r)"
proof (cases "undone_entries log")
  case Nil
  then show ?thesis by (simp add: latestRedoable_def undone_entries_def Let_def)
next
  case (Cons r rs)
  with assms have s: "sorted_wrt (\<ge>) (map undone_time (r # rs))" by (simp add: stacked_def)
  have "r \<in> set (undone_entries log)" by (simp add: Cons)
  then have "oe_undoneAt r \<noteq> None" by (simp add: undone_entries_def)
  then have "oe_undoneAt r = Some (undone_time r)" by (auto simp: undone_time_def)
  moreover have "latestRedoable log = List.find (\<lambda>e. oe_undoneAt e = Some (fold (\<lambda>e m. max m (undone_time e)) (r # rs) 0)) (r # rs)"
    using Cons by (simp add: latestRedoable_def undone_entries_def undone_time_def Let_def)
  ultimately show ?thesis unfolding fold_max_first [OF s] by (simp add: Cons)
qed

lemma set_undone_at:
  assumes "sorted_wrt (<) (map oe_id (ls @ e # us))"
  shows "set_undone t (oe_id e) (ls @ e # us) = ls @ e\<lparr>oe_undoneAt := t\<rparr> # us"
proof -
  have "\<forall>x \<in> set ls. oe_id x < oe_id e" "\<forall>x \<in> set us. oe_id e < oe_id x" using assms by (auto simp: sorted_wrt_append)
  then show ?thesis by (auto simp: set_undone_def intro!: map_idI)
qed

lemma core_live: "oe_undoneAt e = None \<Longrightarrow> core e = e"
  by (simp add: core_def)

lemma undo_stack:
  assumes st: "stacked t log" "t \<le> now" and u: "latestUndoable log = Some u"
  shows "stacked now (set_undone (Some now) (oe_id u) log)" "undo_top (stacks log) = Some (stacks (set_undone (Some now) (oe_id u) log))"
proof -
  from st(1) obtain ls us where log: "log = ls @ us" "done_entries log = ls" "undone_entries log = us" "\<forall>e \<in> set ls. oe_undoneAt e = None"
    "\<forall>e \<in> set us. oe_undoneAt e \<noteq> None" "sorted_wrt (<) (map oe_id (ls @ us))" "sorted_wrt (\<ge>) (map undone_time us)"
    "\<forall>e \<in> set us. undone_time e \<le> t" by (rule stacked_split)
  from u latestUndoable_stack [OF st(1)] obtain vs where vs: "rev ls = u # vs" by (auto simp: log(2) split: list.splits)
  then have ls: "ls = rev vs @ [u]" by (metis rev.simps(2) rev_rev_ident)
  let ?u = "u\<lparr>oe_undoneAt := Some now\<rparr>"
  have new: "set_undone (Some now) (oe_id u) log = rev vs @ ?u # us"
    using set_undone_at [of "rev vs" u us "Some now"] log(6) by (simp add: log(1) ls)
  have "stacked now (rev vs @ ?u # us)" "done_entries (rev vs @ ?u # us) = rev vs" "undone_entries (rev vs @ ?u # us) = ?u # us"
    by (rule stackedI [where now = now]; use log ls st(2) in \<open>fastforce simp: undone_time_def [of ?u]\<close>)+
  moreover have "core ?u = u" using log(4) ls by (simp add: core_def)
  ultimately show "stacked now (set_undone (Some now) (oe_id u) log)"
    "undo_top (stacks log) = Some (stacks (set_undone (Some now) (oe_id u) log))"
    by (simp_all add: new stacks_def log(2,3) vs)
qed

lemma redo_stack:
  assumes st: "stacked t log" and r: "latestRedoable log = Some r"
  shows "stacked t (set_undone None (oe_id r) log)" "redo_top (stacks log) = Some (stacks (set_undone None (oe_id r) log))"
proof -
  from st obtain ls us where log: "log = ls @ us" "done_entries log = ls" "undone_entries log = us" "\<forall>e \<in> set ls. oe_undoneAt e = None"
    "\<forall>e \<in> set us. oe_undoneAt e \<noteq> None" "sorted_wrt (<) (map oe_id (ls @ us))" "sorted_wrt (\<ge>) (map undone_time us)"
    "\<forall>e \<in> set us. undone_time e \<le> t" by (rule stacked_split)
  from r latestRedoable_stack [OF st] obtain rs where us: "us = r # rs" by (auto simp: log(3) split: list.splits)
  have new: "set_undone None (oe_id r) log = (ls @ [core r]) @ rs"
    using set_undone_at [of ls r rs None] log(6) by (simp add: log(1) us core_def)
  have "stacked t ((ls @ [core r]) @ rs)" "done_entries ((ls @ [core r]) @ rs) = ls @ [core r]" "undone_entries ((ls @ [core r]) @ rs) = rs"
    by (rule stackedI [where now = t]; use log us in \<open>simp add: core_def\<close>)+
  then show "stacked t (set_undone None (oe_id r) log)" "redo_top (stacks log) = Some (stacks (set_undone None (oe_id r) log))"
    by (simp_all add: new stacks_def log(2,3) us)
qed

lemma next_id_above: "e \<in> set log \<Longrightarrow> oe_id e < next_id log"
proof -
  have *: "k \<le> fold (\<lambda>e m. max m (oe_id e)) xs k \<and> (\<forall>e \<in> set xs. oe_id e \<le> fold (\<lambda>e m. max m (oe_id e)) xs k)" for xs k
  proof (induction xs arbitrary: k)
    case (Cons x xs)
    from Cons.IH [of "max k (oe_id x)"] show ?case by auto
  qed simp
  show "e \<in> set log \<Longrightarrow> oe_id e < next_id log" using * [of 0 log] by (simp add: next_id_def less_Suc_eq_le)
qed

definition new_entry :: "string \<Rightarrow> string \<Rightarrow> plan_command \<Rightarrow> plan_command list \<Rightarrow> operation_log \<Rightarrow> log_entry" where
  "new_entry v v' c undo log = \<lparr>oe_id = next_id log, oe_graphVersionBefore = v, oe_graphVersionAfter = v',
     oe_command = c, oe_inverse = undo, oe_undoneAt = None\<rparr>"

lemma append_stack:
  assumes st: "stacked t log"
  shows "stacked t (log_append v v' c undo log)" "stacks (log_append v v' c undo log) = push (new_entry v v' c undo log) (stacks log)"
proof -
  from st obtain ls us where log: "log = ls @ us" "done_entries log = ls" "\<forall>e \<in> set ls. oe_undoneAt e = None"
    "sorted_wrt (<) (map oe_id (ls @ us))" by (rule stacked_split)
  have *: "stacked t xs" "done_entries xs = xs" "undone_entries xs = []" if "sorted_wrt (<) (map oe_id xs)" "\<forall>e \<in> set xs. oe_undoneAt e = None" for xs
    using stackedI [of xs "[]" t] that by simp_all
  have live: "filter (\<lambda>e. oe_undoneAt e = None) log = ls" using log(2) by (simp add: done_entries_def)
  have h: "fst (stacks log) = rev ls" by (simp add: stacks_def log(2))
  have "stacked t (log_append v v' c undo log) \<and> stacks (log_append v v' c undo log) = push (new_entry v v' c undo log) (stacks log)"
  proof (cases "joins c (rev ls)")
    case True
    then obtain xs l where ls: "ls = xs @ [l]" by (cases ls rule: rev_cases) (auto simp: joins_def)
    let ?new = "xs @ [l\<lparr>oe_graphVersionAfter := v', oe_command := c\<rparr>]"
    have a: "log_append v v' c undo log = ?new" using True by (simp add: log_append_def live Let_def joins_def ls)
    have "sorted_wrt (<) (map oe_id ?new)" "\<forall>e \<in> set ?new. oe_undoneAt e = None" using log(3,4) by (simp_all add: ls sorted_wrt_append)
    note n = * [OF this]
    show ?thesis using True n by (simp add: a stacks_def log(2) push_def new_entry_def ls)
  next
    case False
    let ?new = "ls @ [new_entry v v' c undo log]"
    have a: "log_append v v' c undo log = ?new"
      using False by (cases ls rule: rev_cases) (auto simp: log_append_def live Let_def joins_def new_entry_def)
    have "\<forall>e \<in> set ls. oe_id e < next_id log" using next_id_above log(1) by auto
    then have "sorted_wrt (<) (map oe_id ?new)" "\<forall>e \<in> set ?new. oe_undoneAt e = None"
      using log(3,4) by (auto simp: new_entry_def sorted_wrt_append)
    note n = * [OF this]
    show ?thesis using False n by (simp add: a stacks_def log(2) push_def new_entry_def)
  qed
  then show "stacked t (log_append v v' c undo log)" "stacks (log_append v v' c undo log) = push (new_entry v v' c undo log) (stacks log)"
    by simp_all
qed

section \<open>Commands, undo and redo\<close>

definition applied :: "command_result res \<Rightarrow> bool" where
  "applied r \<longleftrightarrow> (case r of Inr (AppliedCommand _ _) \<Rightarrow> True | _ \<Rightarrow> False)"

lemma execute_cases:
  assumes "executePlanGraphCommand env record req s = (r, s')"
  obtains (unchanged) "s' = s"
  | (committed) m er where "commitPlanPackageGraphMutation (ge_edit env) m (fst s) = (er, fst s')" "er = Inl RollbackFailed \<Longrightarrow> r = Inl RollbackFailed"
      "snd s' = snd s \<or> record \<and> (\<exists>v v' undo. r = Inr (AppliedCommand v' undo) \<and> snd s' = log_append v v' (cr_command req) undo (snd s))"
proof (cases "try_bind (ee_admission (ge_edit env)) (\<lambda>_.
    try_bind (loadPlanGraphPackage env (fst s)) (\<lambda>ld. try_bind (prepare_command env req ld) (\<lambda>p. Inr (ld, p))))")
  case (Inl e)
  with assms have "s' = s" by (simp add: executePlanGraphCommand_def)
  then show thesis by (rule unchanged)
next
  case (Inr p)
  show thesis
  proof (cases "\<exists>ld undo m. p = (ld, Inr (undo, Some m))")
    case False
    with assms Inr have "s' = s" by (auto simp: executePlanGraphCommand_def split: prod.splits sum.splits option.splits)
    then show thesis by (rule unchanged)
  next
    case True
    then obtain ld undo m where p: "p = (ld, Inr (undo, Some m))" by blast
    obtain er pk' where commit: "commitPlanPackageGraphMutation (ge_edit env) m (fst s) = (er, pk')" by (rule prod.exhaust)
    have "fst s' = pk'" "er = Inl RollbackFailed \<Longrightarrow> r = Inl RollbackFailed"
      "snd s' = snd s \<or> record \<and> (\<exists>v v' undo. r = Inr (AppliedCommand v' undo) \<and> snd s' = log_append v v' (cr_command req) undo (snd s))"
      using assms unfolding executePlanGraphCommand_def Inr p
      by (auto simp: commit split: sum.splits if_splits)
    with commit show thesis using committed by blast
  qed
qed

lemma execute_sound:
  assumes run: "executePlanGraphCommand env record req s = (r, s')" "r \<noteq> Inl RollbackFailed"
    and sound: "sound_package (fs_root (ee_fs (ge_edit env))) (ee_executors (ge_edit env)) (fst s)"
  shows "sound_package (fs_root (ee_fs (ge_edit env))) (ee_executors (ge_edit env)) (fst s')"
  using run(1)
proof (cases rule: execute_cases)
  case (committed m er)
  with run(2) have "er \<noteq> Inl RollbackFailed" by blast
  from commit_sound [OF committed(1) this sound] show ?thesis .
qed (use sound in simp)

lemma execute_replay: "executePlanGraphCommand env False req s = (r, s') \<Longrightarrow> snd s' = snd s"
  by (erule execute_cases) auto

lemma replay_facts:
  assumes "replay_commands env cs latest s = (r, s')"
  shows "snd s' = snd s" and "r \<noteq> Inl RollbackFailed \<Longrightarrow>
    sound_package (fs_root (ee_fs (ge_edit env))) (ee_executors (ge_edit env)) (fst s) \<Longrightarrow>
    sound_package (fs_root (ee_fs (ge_edit env))) (ee_executors (ge_edit env)) (fst s')"
proof -
  let ?sound = "\<lambda>s. sound_package (fs_root (ee_fs (ge_edit env))) (ee_executors (ge_edit env)) (fst s)"
  have "snd s' = snd s \<and> (r \<noteq> Inl RollbackFailed \<longrightarrow> ?sound s \<longrightarrow> ?sound s')"
    using assms
  proof (induction cs arbitrary: latest s)
    case (Cons c cs)
    obtain r1 s1 where run: "executePlanGraphCommand env False (commandForHistoryReplay c) s = (r1, s1)" by (rule prod.exhaust)
    note log = execute_replay [OF run]
    show ?case
    proof (cases "applied r1")
      case True
      then obtain v undo where "r1 = Inr (AppliedCommand v undo)" by (auto simp: applied_def split: sum.splits command_result.splits)
      with Cons.prems run have "replay_commands env cs (AppliedCommand v undo) s1 = (r, s')" by simp
      from Cons.IH [OF this] log execute_sound [OF run] \<open>r1 = _\<close> show ?thesis by simp
    next
      case False
      with Cons.prems run have "(r, s') = (r1, s1)" by (auto simp: applied_def split: sum.splits command_result.splits)
      with log execute_sound [OF run] show ?thesis by simp
    qed
  qed simp
  then show "snd s' = snd s" and "r \<noteq> Inl RollbackFailed \<Longrightarrow> ?sound s \<Longrightarrow> ?sound s'" by simp_all
qed

lemma history_facts:
  assumes "history_step env entry commands expected mark s = (r, s')"
  shows "if applied r then \<exists>e. entry = Some e \<and> snd s' = set_undone mark (oe_id e) (snd s) else snd s' = snd s"
    and "r \<noteq> Inl RollbackFailed \<Longrightarrow> sound_package (fs_root (ee_fs (ge_edit env))) (ee_executors (ge_edit env)) (fst s) \<Longrightarrow>
      sound_package (fs_root (ee_fs (ge_edit env))) (ee_executors (ge_edit env)) (fst s')"
proof -
  let ?sound = "\<lambda>s. sound_package (fs_root (ee_fs (ge_edit env))) (ee_executors (ge_edit env)) (fst s)"
  have "(if applied r then \<exists>e. entry = Some e \<and> snd s' = set_undone mark (oe_id e) (snd s) else snd s' = snd s) \<and>
    (r \<noteq> Inl RollbackFailed \<longrightarrow> ?sound s \<longrightarrow> ?sound s')"
  proof (cases "(\<exists>x. ge_store env = Inl x) \<or> entry = None")
    case True
    with assms show ?thesis by (auto simp: history_step_def applied_def split: sum.splits)
  next
    case False
    then obtain e where e: "entry = Some e" "ge_store env = Inr ()" by (cases "ge_store env") auto
    obtain r1 s1 where run: "applyHistoryCommand env (commands e) (expected e) s = (r1, s1)" by (rule prod.exhaust)
    have one: "snd s1 = snd s" "r1 \<noteq> Inl RollbackFailed \<Longrightarrow> ?sound s \<Longrightarrow> ?sound s1"
      using run replay_facts unfolding applyHistoryCommand_def by (auto split: sum.splits if_splits)
    have "if applied r1 then r = r1 \<and> s' = (fst s1, set_undone mark (oe_id e) (snd s1)) else (r, s') = (r1, s1)"
      using assms run by (cases s1) (auto simp: history_step_def e applied_def split: sum.splits command_result.splits)
    with one e(1) show ?thesis by (auto split: if_splits)
  qed
  then show "if applied r then \<exists>e. entry = Some e \<and> snd s' = set_undone mark (oe_id e) (snd s) else snd s' = snd s"
    "r \<noteq> Inl RollbackFailed \<Longrightarrow> ?sound s \<Longrightarrow> ?sound s'" by simp_all
qed

text \<open>A run of the code against a move on the stacks: done when the command was applied, and nothing happens otherwise.\<close>

definition moves :: "plan_environment \<Rightarrow> (history \<Rightarrow> history option) \<Rightarrow> plan_state \<Rightarrow> command_result res \<times> plan_state \<Rightarrow> bool" where
  "moves env move s out \<longleftrightarrow> stacked (ge_now env) (snd (snd out)) \<and>
     (if applied (fst out) then move (stacks (snd s)) = Some (stacks (snd (snd out))) else snd (snd out) = snd s)"

lemma undo_moves:
  assumes "stacked t (snd s)" and "t \<le> ge_now env"
  shows "moves env undo_top s (undoPlanGraphCommand env s)"
proof -
  obtain r s' where run: "undoPlanGraphCommand env s = (r, s')" by (rule prod.exhaust)
  note step = history_facts(1) [OF run [unfolded undoPlanGraphCommand_def]]
  show ?thesis
    using step undo_stack [OF assms] stacked_later [OF assms] unfolding moves_def run fst_conv snd_conv by (auto split: if_splits)
qed

lemma redo_moves:
  assumes "stacked t (snd s)" and "t \<le> ge_now env"
  shows "moves env redo_top s (redoPlanGraphCommand env s)"
proof -
  obtain r s' where run: "redoPlanGraphCommand env s = (r, s')" by (rule prod.exhaust)
  note step = history_facts(1) [OF run [unfolded redoPlanGraphCommand_def]]
  show ?thesis
    using step redo_stack [OF stacked_later [OF assms]] stacked_later [OF assms] unfolding moves_def run fst_conv snd_conv by (auto split: if_splits)
qed

text \<open>A recorded command is pushed, and a command that is refused, fails or changes nothing leaves the log.\<close>

definition pushes :: "plan_environment \<Rightarrow> command_request \<Rightarrow> plan_state \<Rightarrow> command_result res \<times> plan_state \<Rightarrow> bool" where
  "pushes env req s out \<longleftrightarrow> stacked (ge_now env) (snd (snd out)) \<and>
     (snd (snd out) = snd s \<or>
      (\<exists>e v undo. fst out = Inr (AppliedCommand v undo) \<and> oe_command e = cr_command req \<and> oe_inverse e = undo \<and> oe_graphVersionAfter e = v \<and>
         stacks (snd (snd out)) = push e (stacks (snd s))))"

lemma execute_pushes:
  assumes "stacked t (snd s)" and "t \<le> ge_now env"
  shows "pushes env req s (executePlanGraphCommand env record req s)"
proof -
  note st = stacked_later [OF assms]
  obtain r s' where run: "executePlanGraphCommand env record req s = (r, s')" by (rule prod.exhaust)
  then show ?thesis
  proof (cases rule: execute_cases)
    case unchanged
    with run st show ?thesis by (simp add: pushes_def)
  next
    case (committed m er)
    from committed(3) show ?thesis
    proof
      assume "snd s' = snd s"
      with run st show ?thesis by (simp add: pushes_def)
    next
      assume "record \<and> (\<exists>v v' undo. r = Inr (AppliedCommand v' undo) \<and> snd s' = log_append v v' (cr_command req) undo (snd s))"
      then obtain v v' undo where r: "r = Inr (AppliedCommand v' undo)" and log: "snd s' = log_append v v' (cr_command req) undo (snd s)" by blast
      let ?e = "new_entry v v' (cr_command req) undo (snd s)"
      have "oe_command ?e = cr_command req" "oe_inverse ?e = undo" "oe_graphVersionAfter ?e = v'" by (simp_all add: new_entry_def)
      with run append_stack [OF st] r log show ?thesis unfolding pushes_def by auto
    qed
  qed
qed


datatype plan_request = ExecuteRequest bool command_request | UndoRequest | RedoRequest

fun run_plan :: "plan_environment \<Rightarrow> plan_request \<Rightarrow> command_result plan_run" where
  "run_plan env (ExecuteRequest record req) s = executePlanGraphCommand env record req s"
| "run_plan env UndoRequest s = undoPlanGraphCommand env s"
| "run_plan env RedoRequest s = redoPlanGraphCommand env s"

text \<open>One request, at a time that is not before the last one, whose rollback did not fail.\<close>

inductive plan_step :: "path \<Rightarrow> string list \<Rightarrow> nat \<times> plan_state \<Rightarrow> nat \<times> plan_state \<Rightarrow> bool" for root executors where
  request: "fs_root (ee_fs (ge_edit env)) = root \<Longrightarrow> ee_executors (ge_edit env) = executors \<Longrightarrow> t \<le> ge_now env \<Longrightarrow>
    run_plan env q s = (r, s') \<Longrightarrow> r \<noteq> Inl RollbackFailed \<Longrightarrow> plan_step root executors (t, s) (ge_now env, s')"

lemma plan_step_keeps:
  assumes "plan_step root executors (t, s) (t', s')" and "sound_package root executors (fst s)" and "stacked t (snd s)"
  shows "sound_package root executors (fst s') \<and> stacked t' (snd s')"
  using assms(1)
proof cases
  case (request env q r)
  have "sound_package root executors (fst s')"
    using execute_sound [of env] history_facts(2) [of env] request assms(2)
    by (cases q) (auto simp: undoPlanGraphCommand_def redoPlanGraphCommand_def)
  moreover have "stacked (ge_now env) (snd (snd (run_plan env q s)))"
    using execute_pushes [OF assms(3) request(4)] undo_moves [OF assms(3) request(4)] redo_moves [OF assms(3) request(4)]
    by (cases q) (simp_all add: pushes_def moves_def)
  with request have "stacked t' (snd s')" by simp
  ultimately show ?thesis by blast
qed

lemma plan_run_keeps:
  assumes "(plan_step root executors)\<^sup>*\<^sup>* x y" and "sound_package root executors (fst (snd x))" and "stacked (fst x) (snd (snd x))"
  shows "sound_package root executors (fst (snd y)) \<and> stacked (fst y) (snd (snd y))"
  using assms
proof (induction rule: rtranclp_induct)
  case (step y z)
  then show ?case using plan_step_keeps [of root executors "fst y" "snd y" "fst z" "snd z"] by simp
qed simp

text \<open>C8: Whatever sequence of commands, undos and redos is applied to a sound package, with failing file operations in between as long as
  no rollback fails, the package stays sound: its manifest can be loaded, compiles without errors and has acyclic dependencies. And the
  next undo takes the entry recorded last of those not undone, the next redo the entry undone last.\<close>
theorem plan_history_sound:
  assumes "sound_package root executors pk" and "stacked t log" and "(plan_step root executors)\<^sup>*\<^sup>* (t, pk, log) (t', pk', log')"
    and "fs_root (ee_fs env) = root" and "ee_executors env = executors"
  shows "(\<exists>mf g. loadPackage env pk' = Inr mf \<and> compileTaskGraph mf = Inr g \<and> diagnosticErrors g = [] \<and> acyclic (depends_relation mf)) \<and>
    latestUndoable log' = (case fst (stacks log') of [] \<Rightarrow> None | u # _ \<Rightarrow> Some u) \<and>
    map_option core (latestRedoable log') = (case snd (stacks log') of [] \<Rightarrow> None | r # _ \<Rightarrow> Some r)"
proof -
  from plan_run_keeps [OF assms(3)] assms(1,2) have s: "sound_package root executors pk'" and st: "stacked t' log'" by simp_all
  from sound_load [OF s assms(4,5)] obtain mf g where
    g: "loadPackage env pk' = Inr mf" "compileTaskGraph mf = Inr g" "diagnosticErrors g = []" by blast
  have "acyclic (depends_relation mf)" using compile_facts(5) [OF g(2)] compile_edges [OF g(2)] g(3) by simp
  with g latestUndoable_stack [OF st] latestRedoable_stack [OF st] show ?thesis by (auto simp: stacks_def split: list.splits)
qed

section \<open>A history that cannot be redone\<close>

text \<open>Three tasks, two of which depend on the first; the version of the package is the list of its dependencies.\<close>

definition plan_env :: plan_environment where
  "plan_env = \<lparr>ge_edit = edit_env (\<lambda>_. False), ge_sha = (\<lambda>s. s), ge_version = (\<lambda>mf _. concat (map edgeKey (mf_edges mf))),
     ge_json = (\<lambda>_. []), ge_now = 1, ge_store = Inr ()\<rparr>"

definition history_manifest :: manifest where
  "history_manifest = edit_manifest\<lparr>mf_nodes := mf_nodes edit_manifest @ [edit_task ''T3'' ''nodes/T3/prompt.md''],
     mf_edges := [dependency ''T2'' ''T1'', dependency ''T3'' ''T1'']\<rparr>"

definition history_files :: package where
  "history_files = map_set edit_files [''pkg'', ''manifest.json''] (ManifestJson history_manifest)"

definition reconnect_run :: "command_result res \<times> plan_state" where
  "reconnect_run = executePlanGraphCommand plan_env True
     (commandForHistoryReplay (ReconnectTaskDependencyCommand ''T2'' ''T1'' None ''T3'')) (history_files, [])"

definition reconnect_undone :: "command_result res \<times> plan_state" where
  "reconnect_undone = undoPlanGraphCommand plan_env (snd reconnect_run)"

definition edges_on_disk :: "package \<Rightarrow> manifest_edge list" where
  "edges_on_disk pk = (case loadPackage (ge_edit plan_env) pk of Inl _ \<Rightarrow> [] | Inr mf \<Rightarrow> mf_edges mf)"

lemma reconnect_applied: "applied (fst reconnect_run)" "applied (fst reconnect_undone)"
  by code_simp+


lemma history_files_sound: "sound_package [''pkg''] [] history_files"
proof -
  have "\<forall>p \<in> set (map_keys history_files). \<not> is_directory history_files p" by code_simp
  then have "tree_shaped history_files" by (auto simp: tree_shaped_def map_has_get)
  moreover have "res_holds (\<lambda>g. diagnosticErrors g = []) (compileTaskGraph history_manifest)" by code_simp
  moreover have "manifestSchema [] history_manifest = Some history_manifest" by code_simp
  moreover have "map_get history_files ([''pkg''] @ [''manifest.json'']) = Some (ManifestJson history_manifest)" by code_simp
  ultimately show ?thesis by (auto simp: sound_package_def elim!: res_holdsE)
qed

lemma applied_no_rollback: "applied r \<Longrightarrow> r \<noteq> Inl RollbackFailed"
  by (auto simp: applied_def)

lemma plan_env_fields:
  "fs_root (ee_fs (ge_edit plan_env)) = [''pkg'']" "ee_executors (ge_edit plan_env) = []" "ge_now plan_env = 1"
  by (simp_all add: plan_env_def edit_env_def edit_fs_def)

lemma reconnect_steps:
  "plan_step [''pkg''] [] (0, history_files, []) (1, snd reconnect_run)" "plan_step [''pkg''] [] (1, snd reconnect_run) (1, snd reconnect_undone)"
proof -
  note env = plan_env_fields
  let ?req = "ExecuteRequest True (commandForHistoryReplay (ReconnectTaskDependencyCommand ''T2'' ''T1'' None ''T3''))"
  have "run_plan plan_env ?req (history_files, []) = (fst reconnect_run, snd reconnect_run)" by (simp add: reconnect_run_def)
  from plan_step.request [OF env(1,2) _ this applied_no_rollback [OF reconnect_applied(1)], of 0] env(3)
  show "plan_step [''pkg''] [] (0, history_files, []) (1, snd reconnect_run)" by simp
  have "run_plan plan_env UndoRequest (snd reconnect_run) = (fst reconnect_undone, snd reconnect_undone)" by (simp add: reconnect_undone_def)
  from plan_step.request [OF env(1,2) _ this applied_no_rollback [OF reconnect_applied(2)], of 1] env(3)
  show "plan_step [''pkg''] [] (1, snd reconnect_run) (1, snd reconnect_undone)" by simp
qed

lemma plan_history_sound_witness:
  "\<exists>mf g. loadPackage (ge_edit plan_env) (fst (snd reconnect_undone)) = Inr mf \<and> compileTaskGraph mf = Inr g \<and> diagnosticErrors g = [] \<and>
     acyclic (depends_relation mf)"
proof -
  have "(plan_step [''pkg''] [])\<^sup>*\<^sup>* (0, history_files, []) (1, fst (snd reconnect_undone), snd (snd reconnect_undone))"
    using reconnect_steps by simp
  moreover have "stacked 0 []" by (simp add: stacked_def done_entries_def undone_entries_def)
  ultimately show ?thesis using plan_history_sound [OF history_files_sound _ _ plan_env_fields(1,2)] by blast
qed


end
