(* ===== verification/Workflow.thy ===== *)
theory Workflow
  imports Remote_Failure Undo_Restores Plan_Log
begin

text \<open>
  The commands of a canvas together. Every command of the runtime takes the lock of its canvas, loads
  the state, acts and saves; what other commands find is the state that the command left, also when it
  threw half-way. \<open>canvas_step\<close> is one command on the files of a canvas, whatever its outcome, and a
  history of the canvas is a sequence of such steps. Claims go through the guard that
  \<open>Project_Graph\<close> builds from the files of the other canvases.
\<close>

section \<open>A block submission keeps the state readable\<close>

lemma completed_block_valid:
  assumes "completed_block authority bt b runId = Inr b1" and "blockState_valid b"
  shows "blockState_valid b1"
proof (cases authority)
  case LocalAuthority
  with assms withoutRemote_valid [OF assms(2), of BCompleted] show ?thesis
    by (auto simp: completed_block_def block_valid_simps)
next
  case (RemoteAuthority i)
  with assms complete_valid show ?thesis by (auto simp: completed_block_def)
qed

lemma keeps_complete:
  assumes "runtimeState_valid s"
  shows "cmd_keeps files_ok (complete_submission mf authority bt ref runId s)"
  unfolding complete_submission_def
proof (intro keeps_lift_bind keeps_bind keeps_saveState keeps_return)
  fix b b1
  assume "requireBlockState s ref = Inr b" and b1: "completed_block authority bt b runId = Inr b1"
  then have "blockState_valid b" using assms by (auto simp: requireBlockState_Inr dest: runtimeState_valid_get)
  from with_block_valid [OF assms completed_block_valid [OF b1 this]]
  show "runtimeState_valid ((with_block ref b1 s)\<lparr>rs_currentRefs := without_ref (rs_currentRefs s) ref\<rparr>)"
    by (simp add: runtimeState_valid_def)
qed

lemma keeps_index_run: "cmd_keeps files_ok (cmd_index_run env ref runId)"
  unfolding cmd_index_run_def by (intro keeps_bind keeps_read keeps_lift)

lemma keeps_resume:
  "runtimeState_valid s \<Longrightarrow> cmd_keeps files_ok (resume_persisted env mf authority bt ref taskId runId s)"
  unfolding resume_persisted_def by (intro keeps_bind keeps_index_run keeps_updateTaskIndex keeps_complete)

lemma keeps_set_run: "cmd_keeps files_ok (cmd_write (\<lambda>ws. set_run ref r (d ws) ws))"
  by (rule keeps_write) (simp add: set_run_def)

lemma keeps_store_report: "cmd_keeps files_ok (store_report env opts taskId blockId runId a artifact)"
  unfolding store_report_def store_artifact_def write_metadata_def
  by (intro keeps_bind keeps_read keeps_lift keeps_set_run)
    (auto intro!: keeps_bind keeps_read keeps_lift keeps_set_run keeps_return split: submission_artifact.split)

text \<open>Reserving a run. What it leaves behind when it stops is readable too.\<close>

lemma reserve_attempt_hoare:
  assumes "runtimeState_valid s" "blockState_valid b" "att \<noteq> Some []" "se_uuid env \<noteq> []"
  shows "hoare files_ok (reserve_attempt env ref att b s)
    (\<lambda>(a, s1) ws. files_ok ws \<and> a \<noteq> [] \<and> runtimeState_valid s1) (\<lambda>_. files_ok)"
proof -
  have "blockState_valid (b\<lparr>bs_submissionAttemptId := Some (se_uuid env)\<rparr>)"
    using assms(2,4) by (simp add: block_valid_simps cong: option.case_cong remote_receipt.case_cong)
  from with_block_valid [OF assms(1) this] show ?thesis
    using assms unfolding reserve_attempt_def
    by (auto simp: hoare_def truthy_def cmd_bind_def cmd_return_def writeState_def cmd_write_def Let_def split: option.splits)
qed

lemma reserve_directory_hoare:
  assumes "\<And>r. sn_runId run = Some r \<Longrightarrow> submissionRunId_valid r"
  shows "hoare files_ok (reserve_directory ref run) (\<lambda>r ws. files_ok ws \<and> submissionRunId_valid r) (\<lambda>_. files_ok)"
proof -
  have k: "cmd_keeps files_ok (reserve_directory ref run)"
    unfolding reserve_directory_def
    by (auto intro!: keeps_bind keeps_read keeps_lift keeps_return keeps_set_run keeps_write split: option.split prod.split)
  have "submissionRunId_valid r" if "reserve_directory ref run ws = (Inr r, ws')" for ws r ws'
    using reserve_directory_Inr [OF that] assms matches_RUN_valid by (cases "sn_runId run") auto
  with k show ?thesis unfolding cmd_keeps_def hoare_def by (fastforce split: prod.splits sum.splits)
qed

lemma reserve_run_hoare:
  assumes "runtimeState_valid s" "blockState_valid b" "att \<noteq> Some []" "se_uuid env \<noteq> []"
    and "\<And>r. sn_runId run = Some r \<Longrightarrow> submissionRunId_valid r"
  shows "hoare files_ok (reserve_run env ref taskId blockId att h run b s)
    (\<lambda>(runId, a, s1) ws. files_ok ws \<and> runtimeState_valid s1) (\<lambda>_. files_ok)"
  unfolding reserve_run_def
proof (rule hoare_bind [OF reserve_attempt_hoare [OF assms(1-4)]], clarify)
  fix a :: string and s1
  let ?k = "\<lambda>runId. cmd_bind (write_metadata ref runId (reservation ref taskId blockId runId a h (sn_metadata run))) (\<lambda>_.
     let s2 = with_block ref (b\<lparr>bs_submissionAttemptId := Some a, bs_submissionRunId := Some runId\<rparr>) s1
     in cmd_bind (writeState s2) (\<lambda>_. cmd_return (runId, a, s2)))"
  have "hoare files_ok (?k runId) (\<lambda>(runId, a, s1) ws. files_ok ws \<and> runtimeState_valid s1) (\<lambda>_. files_ok)"
    if a: "a \<noteq> []" "runtimeState_valid s1" and r: "submissionRunId_valid runId" for runId
  proof -
    have "runtimeState_valid (with_block ref (b\<lparr>bs_submissionAttemptId := Some a, bs_submissionRunId := Some runId\<rparr>) s1)"
      using with_block_valid [OF a(2) reserved_valid [OF assms(2) a(1) r]] by (simp add: reserved_block_def)
    then show ?thesis
      by (simp add: hoare_def cmd_bind_def cmd_return_def writeState_def cmd_write_def write_metadata_def Let_def)
  qed
  then have k: "hoare (\<lambda>ws. files_ok ws \<and> submissionRunId_valid runId) (?k runId)
      (\<lambda>(runId, a, s1) ws. files_ok ws \<and> runtimeState_valid s1) (\<lambda>_. files_ok)"
    if "a \<noteq> [] \<and> runtimeState_valid s1" for runId
    using that by (intro hoare_conj_pre) blast
  have "hoare files_ok (cmd_bind (reserve_directory ref run) ?k)
      (\<lambda>(runId, a, s1) ws. files_ok ws \<and> runtimeState_valid s1) (\<lambda>_. files_ok)"
    if "a \<noteq> [] \<and> runtimeState_valid s1" by (rule hoare_bind [OF reserve_directory_hoare [OF assms(5)] k [OF that]])
  then show "hoare (\<lambda>ws. files_ok ws \<and> a \<noteq> [] \<and> runtimeState_valid s1) (cmd_bind (reserve_directory ref run) ?k)
      (\<lambda>(runId, a, s1) ws. files_ok ws \<and> runtimeState_valid s1) (\<lambda>_. files_ok)"
    by (rule hoare_conj_pre)
qed

lemma keeps_new_submission:
  assumes "runtimeState_valid s" "blockState_valid b" "att \<noteq> Some []" "se_uuid env \<noteq> []"
    and "\<And>r. sn_runId run = Some r \<Longrightarrow> submissionRunId_valid r"
  shows "cmd_keeps files_ok (new_submission env mf opts authority bt taskId blockId att artifact run b s)"
proof -
  have "hoare (\<lambda>ws. files_ok ws \<and> runtimeState_valid s1)
     (cmd_bind (store_report env opts taskId blockId runId a artifact) (\<lambda>_.
      cmd_bind (cmd_index_run env (bo_ref opts) runId) (\<lambda>_.
      cmd_bind (updateTaskIndex taskId (index_new_run (bo_ref opts) runId)) (\<lambda>_.
      complete_submission mf authority bt (bo_ref opts) runId s1)))) (\<lambda>_. files_ok) (\<lambda>_. files_ok)" for runId a s1
    by (intro hoare_conj_pre) (fold cmd_keeps_def,
      intro keeps_bind keeps_store_report keeps_index_run keeps_updateTaskIndex keeps_complete)
  note rest = this
  show ?thesis
    unfolding new_submission_def cmd_keeps_def
  proof (rule hoare_bind [OF reserve_run_hoare [OF assms]])
    fix x :: "string \<times> string \<times> runtime_state"
    obtain runId a s1 where "x = (runId, a, s1)" by (rule prod_cases3)
    then show "hoare ((\<lambda>(runId, a, s1) ws. files_ok ws \<and> runtimeState_valid s1) x)
       ((\<lambda>(runId, a, s1). cmd_bind (store_report env opts taskId blockId runId a artifact) (\<lambda>_.
        cmd_bind (cmd_index_run env (bo_ref opts) runId) (\<lambda>_.
        cmd_bind (updateTaskIndex taskId (index_new_run (bo_ref opts) runId)) (\<lambda>_.
        complete_submission mf authority bt (bo_ref opts) runId s1)))) x) (\<lambda>_. files_ok) (\<lambda>_. files_ok)"
      using rest by simp
  qed
qed

definition submission_ready :: "workspace_files \<Rightarrow> bool" where
  "submission_ready ws \<longleftrightarrow> files_ok ws \<and> runs_named ws"

lemma hoare_keeps: "cmd_keeps files_ok c \<Longrightarrow> hoare submission_ready c (\<lambda>_. files_ok) (\<lambda>_. files_ok)"
  unfolding cmd_keeps_def by (erule hoare_pre) (simp add: submission_ready_def)

lemma process_submission_hoare:
  assumes ctx: "context_ok mf ctx" and b: "map_get (rs_blocks (rc_state ctx)) (bo_ref opts) = Some b"
    and own: "owns authority bt b" and uuid: "se_uuid env \<noteq> []" and rid: "run_id_guard (bo_runId opts) = Inr ()"
  shows "hoare submission_ready (process_submission env mf opts authority bt taskId blockId artifact b (rc_state ctx))
    (\<lambda>_. files_ok) (\<lambda>_. files_ok)"
proof -
  let ?att = "case authority of RemoteAuthority i \<Rightarrow> Some (remote_attempt_id i) | LocalAuthority \<Rightarrow> bs_submissionAttemptId b"
  note v = context_okD(3) [OF ctx] and bv = context_block_valid [OF ctx b]
  have att: "?att \<noteq> Some []"
    using bv by (auto simp: remote_attempt_id_def block_valid_simps split: submission_authority.splits)
  let ?rest = "\<lambda>runs run. if report_conflict (se_sha env (art_bytes artifact)) (sn_metadata run)
         then cmd_lift (Inl (RunConflict (case sn_runId run of None \<Rightarrow> [] | Some r \<Rightarrow> r)))
         else cmd_bind (cmd_lift (case truthy (sn_runId run) of
                          None \<Rightarrow> Inr None
                        | Some r \<Rightarrow> try_bind (runHasSubmittedResult (se_sha env) (map_get runs r) (bo_ref opts) r artifact) (\<lambda>ok.
                            Inr (if ok then Some r else None)))) (\<lambda>persisted.
           case persisted of
             Some r \<Rightarrow> resume_persisted env mf authority bt (bo_ref opts) taskId r (rc_state ctx)
           | None \<Rightarrow>
               if authority = LocalAuthority \<and> bs_status b \<noteq> BInProgress
               then cmd_lift (Inl (SubmitNotInProgress (bo_ref opts)))
               else new_submission env mf opts authority bt taskId blockId ?att artifact run b (rc_state ctx))"
  have "files_ok (snd (cmd_bind (cmd_lift (resolveSubmissionRun (dir_of (wf_runs ws) (bo_ref opts)) b ?att (bo_runId opts) (bo_ref opts)
      taskId blockId (authority = LocalAuthority))) (?rest (dir_of (wf_runs ws) (bo_ref opts))) ws))"
    if ws: "submission_ready ws" for ws
  proof (rule cmd_keepsD [OF keeps_lift_bind])
    fix run
    assume res: "resolveSubmissionRun (dir_of (wf_runs ws) (bo_ref opts)) b ?att (bo_runId opts) (bo_ref opts)
      taskId blockId (authority = LocalAuthority) = Inr run"
    have "submissionRunId_valid r" if "sn_runId run = Some r" "bs_status b \<noteq> BCompleted" for r
      using resolve_cases [OF res that(1)] that(2) ws bv rid
      by (auto simp: submission_ready_def runs_named_def run_id_guard_def block_valid_simps split: option.splits if_splits)
    then have "cmd_keeps files_ok (new_submission env mf opts authority bt taskId blockId ?att artifact run b (rc_state ctx))"
      if "bs_status b \<noteq> BCompleted" using keeps_new_submission [OF v bv att uuid] that by blast
    moreover have "bs_status b \<noteq> BCompleted" if "\<not> (authority = LocalAuthority \<and> bs_status b \<noteq> BInProgress)"
      using own that by (auto simp: owns_def split: submission_authority.splits)
    ultimately show "cmd_keeps files_ok (?rest (dir_of (wf_runs ws) (bo_ref opts)) run)"
      using keeps_resume [OF v] by (intro keeps_if keeps_lift_bind keeps_lift keeps_case(1)) blast+
  qed (use ws in \<open>simp add: submission_ready_def\<close>)
  then have "files_ok (snd (process_submission env mf opts authority bt taskId blockId artifact b (rc_state ctx) ws))"
    if "submission_ready ws" for ws
    using that unfolding process_submission_def Let_def by (simp add: cmd_bind_def [of "cmd_read _"] cmd_read_def)
  then show ?thesis unfolding hoare_def by (fastforce split: prod.splits sum.splits)
qed

lemma load_ready_hoare:
  "hoare submission_ready (loadRuntime mf) (\<lambda>ctx ws. submission_ready ws \<and> context_ok mf ctx) (\<lambda>_. files_ok)"
proof -
  have "runs_named ws'" if "loadRuntime mf ws = (Inr ctx, ws')" "runs_named ws" for ws ctx ws'
    using loaded_context(3) [OF that(1)] that(2) by (auto simp: runs_named_def)
  with loadRuntime_hoare [of mf] show ?thesis
    unfolding hoare_def submission_ready_def by (fastforce split: prod.splits sum.splits)
qed

lemma remote_guard_hoare:
  assumes ctx: "context_ok mf ctx" and b: "map_get (rs_blocks (rc_state ctx)) ref = Some b"
  shows "hoare submission_ready (remote_guard env mf ctx ref bt b i)
    (\<lambda>_ ws. submission_ready ws \<and> owns (RemoteAuthority i) bt b) (\<lambda>_. files_ok)"
proof -
  have "cmd_keeps files_ok (remote_guard env mf ctx ref bt b i)"
    unfolding remote_guard_def
    by (intro keeps_lift_bind keeps_lift keeps_if keeps_return keeps_bind keeps_saveState context_with_block_valid [OF ctx]
        drift_valid [OF context_block_valid [OF ctx b]])
  then show ?thesis
    using remote_guard_Inr [of env mf ctx ref bt b i]
    unfolding cmd_keeps_def hoare_def submission_ready_def by (fastforce split: prod.splits sum.splits)
qed

lemma keeps_replay: "cmd_keeps files_ok (receipt_replay sha ref artifact i receipt)"
  unfolding receipt_replay_def
  by (auto intro!: keeps_lift keeps_bind keeps_read keeps_return split: remote_receipt.split)

lemma submitBlock_hoare:
  assumes uuid: "se_uuid env \<noteq> []"
  shows "hoare submission_ready (submitBlockResultArtifact env mf opts artifact authority) (\<lambda>_. files_ok) (\<lambda>_. files_ok)"
proof -
  let ?ref = "bo_ref opts"
  have lift: "hoare submission_ready (cmd_bind (cmd_lift r) k) (\<lambda>_. files_ok) (\<lambda>_. files_ok)"
    if "\<And>x. r = Inr x \<Longrightarrow> hoare submission_ready (k x) (\<lambda>_. files_ok) (\<lambda>_. files_ok)"
    for r :: "'x res" and k :: "'x \<Rightarrow> submit_result cmd"
    using that by (cases r) (auto simp: hoare_def cmd_bind_def cmd_lift_def submission_ready_def)
  have lift': "hoare submission_ready (cmd_lift (Inl e)) (\<lambda>_. files_ok) (\<lambda>_. files_ok)" for e
    by (rule hoare_keeps [OF keeps_lift])
  have proc: "hoare submission_ready (cmd_bind (cmd_lift (run_id_guard (bo_runId opts))) (\<lambda>_.
      process_submission env mf opts authority bt taskId blockId artifact b (rc_state ctx))) (\<lambda>_. files_ok) (\<lambda>_. files_ok)"
    if "context_ok mf ctx" "map_get (rs_blocks (rc_state ctx)) ?ref = Some b" "owns authority bt b" for ctx b bt taskId blockId
    using process_submission_hoare [OF that uuid] by (intro lift) auto
  have body: "hoare submission_ready
     (case (authority, bs_remoteOperationReceipt b) of
            (RemoteAuthority identity, Some receipt) \<Rightarrow> receipt_replay (se_sha env) ?ref artifact identity receipt
          | _ \<Rightarrow>
              cmd_bind (case authority of
                          RemoteAuthority identity \<Rightarrow> remote_guard env mf ctx ?ref bt b identity
                        | LocalAuthority \<Rightarrow> cmd_lift (local_guard opts b)) (\<lambda>_.
              cmd_bind (cmd_lift (run_id_guard (bo_runId opts))) (\<lambda>_.
              process_submission env mf opts authority bt taskId blockId artifact b (rc_state ctx))))
     (\<lambda>_. files_ok) (\<lambda>_. files_ok)"
    if c: "context_ok mf ctx" "map_get (rs_blocks (rc_state ctx)) ?ref = Some b" and g: "receipt_guard authority ?ref b = Inr x"
    for ctx b bt taskId blockId x
    proof (cases authority)
      case LocalAuthority
      have o: "owns authority bt b" if "local_guard opts b = Inr u" for u
        using local_guard_Inr [OF that] g LocalAuthority by blast
      have "hoare submission_ready (cmd_bind (cmd_lift (local_guard opts b)) (\<lambda>_.
              cmd_bind (cmd_lift (run_id_guard (bo_runId opts))) (\<lambda>_.
              process_submission env mf opts authority bt taskId blockId artifact b (rc_state ctx))))
        (\<lambda>_. files_ok) (\<lambda>_. files_ok)" by (rule lift, rule proc [OF c], rule o)
      then show ?thesis using LocalAuthority by simp
    next
      case (RemoteAuthority i)
      have "hoare submission_ready (cmd_bind (remote_guard env mf ctx ?ref bt b i) (\<lambda>_.
              cmd_bind (cmd_lift (run_id_guard (bo_runId opts))) (\<lambda>_.
              process_submission env mf opts authority bt taskId blockId artifact b (rc_state ctx))))
        (\<lambda>_. files_ok) (\<lambda>_. files_ok)"
        using RemoteAuthority proc [OF c]
        by (intro hoare_bind [OF remote_guard_hoare [OF c]] hoare_conj_pre) simp
      then show ?thesis using RemoteAuthority hoare_keeps [OF keeps_replay] by (simp split: option.split)
    qed
  show ?thesis
    unfolding submitBlockResultArtifact_def Let_def
    by (intro lift hoare_bind [OF load_ready_hoare] hoare_conj_pre)
      (auto intro!: lift lift' body [unfolded prod.case] split: option.split)
qed

section \<open>Histories of a canvas\<close>

text \<open>One command on the files of a canvas, with whatever it is called with; an outcome that throws is a
  step as well; the operations of the remote port are commands too. A submission of a block result needs run
  directories with proper names. The two
  commands that rewrite the record of a review without looking at its remote records are taken on
  files where there are none to lose.\<close>

inductive canvas_step :: "manifest \<Rightarrow> workspace_files \<Rightarrow> workspace_files \<Rightarrow> bool" for mf :: manifest where
  load: "canvas_step mf ws (snd (loadRuntime mf ws))"
| claim: "\<forall>r. uuid r \<noteq> [] \<Longrightarrow> canvas_step mf ws (snd (claimNext sha uuid guardRes mf opts ws))"
| claim_block: "\<forall>r. uuid r \<noteq> [] \<Longrightarrow> canvas_step mf ws (snd (claimBlock sha uuid guardRes mf ref dispatch ws))"
| blocked: "canvas_step mf ws (snd (markBlockBlocked mf ref reason ws))"
| diverged: "canvas_step mf ws (snd (markBlockDiverged mf ref reason ws))"
| unblocked: "canvas_step mf ws (snd (unblockBlock mf ref reason actor ws))"
| released: "canvas_step mf ws (snd (releaseInProgressBlock mf ref ws))"
| resolved: "canvas_step mf ws (snd (resolveBlockDivergence mf ref reason ws))"
| reset: "loaded_state mf ws = Inr s \<Longrightarrow> exhausted_local s \<Longrightarrow>
    canvas_step mf ws (snd (resetMaxCycleReviewsForRetry mf scope ws))"
| review: "canvas_step mf ws (snd (submitReviewResultLocked renv mf ropts parsed ws))"
| feedback: "(\<And>s. loaded_state mf ws = Inr s \<Longrightarrow> feedback_source_local s) \<Longrightarrow>
    canvas_step mf ws (snd (submitFeedbackFromBytes now fileHash mf report ws))"
| submission: "se_uuid env \<noteq> [] \<Longrightarrow> runs_named ws \<Longrightarrow>
    canvas_step mf ws (snd (submitBlockResultArtifact env mf bopts artifact authority ws))"
| remote_claim: "canvas_step mf ws (snd (port_claim penv mf input ws))"
| remote_activate: "canvas_step mf ws (snd (port_activate penv mf ref identity ws))"
| remote_reconcile: "canvas_step mf ws (snd (port_reconcile penv mf ref operation ws))"
| remote_interrupt: "canvas_step mf ws (snd (port_markInterrupted penv mf ref identity interruption agent ws))"
| remote_resume: "canvas_step mf ws (snd (port_resumeAttempt penv mf ref identity ws))"
| remote_retry: "canvas_step mf ws (snd (port_retryAttempt penv mf ref identity dispatchId attemptId ws))"
| remote_fail: "canvas_step mf ws (snd (port_fail penv mf ref identity failure agent ws))"
| remote_complete: "se_uuid env \<noteq> [] \<Longrightarrow> runs_named ws \<Longrightarrow>
    canvas_step mf ws (snd (port_complete env renv parseReview mf completion ws))"

lemma claimBlock_keeps:
  assumes "named mf" and "\<forall>r. uuid r \<noteq> []"
  shows "cmd_keeps files_ok (claimBlock sha uuid gr mf ref dispatch)"
  using claimNext_keeps [OF assms(1)] claimDispatched_keeps [OF assms] assms(2) by (simp add: claimBlock_def)

lemma submitBlock_keeps:
  assumes "se_uuid env \<noteq> []" and "runs_named ws" and "files_ok ws"
  shows "files_ok (snd (submitBlockResultArtifact env mf opts artifact authority ws))"
  using submitBlock_hoare [OF assms(1), of mf opts artifact authority] assms(2,3)
  unfolding hoare_def submission_ready_def by (fastforce split: prod.splits sum.splits)

lemma remoteReview_keeps: "cmd_keeps files_ok (submitRemoteReviewResult renv parseReview mf ref bytes i)"
  unfolding submitRemoteReviewResult_def submitReviewResultValue_def
  by (auto intro!: keeps_lift_bind keeps_lift keeps_if submitReview_keeps)

lemma port_complete_keeps:
  assumes "se_uuid env \<noteq> []" and "runs_named ws" and "files_ok ws"
  shows "files_ok (snd (port_complete env renv parseReview mf completion ws))"
proof -
  let ?done = "\<lambda>block. if mb_type block = Review
       then cmd_bind (submitRemoteReviewResult renv parseReview mf (rk_ref completion) (rk_reportBytes completion)
              (rk_identity completion)) (\<lambda>r. cmd_return (completed_result (sr_ref r) (sr_reviewAttemptId r)))
       else submitBlockResultArtifact env mf
              \<lparr>bo_ref = rk_ref completion, bo_reportPath = None, bo_runId = None, bo_submissionAttemptId = None\<rparr>
              (VerifiedArtifact (remote_reference (drop (length ''artifact:sha256:'') (rk_reportArtifactRef completion))
                (rk_reportBytes completion)) (rk_reportBytes completion))
              (RemoteAuthority (rk_identity completion))"
  have "files_ok (snd (?done block ws))" for block
    by (simp add: cmd_keepsD [OF keeps_bind [OF remoteReview_keeps keeps_return] assms(3)] submitBlock_keeps [OF assms])
  then have "files_ok (snd (cmd_bind (cmd_lift x) ?done ws))" for x :: "manifest_block res"
    using assms(3) by (cases x) (simp_all add: cmd_bind_def cmd_lift_def)
  then have "files_ok (snd (cmd_bind (loadRuntimeReadonly mf) (\<lambda>ctx.
      cmd_bind (cmd_lift (getBlock (rc_graph ctx) (rk_ref completion))) ?done) ws))"
    using assms(3) loadRuntimeReadonly_Inl [of mf ws] loadRuntimeReadonly_Inr [of mf ws]
    by (auto simp: cmd_bind_def [of "loadRuntimeReadonly mf"] split: prod.split sum.split)
  then show ?thesis
    using assms(3) unfolding port_complete_def submitRemoteBlockResult_def Let_def
    by (simp only: cmd_lift_def snd_conv simp_thms split: if_split)
qed

lemma canvas_step_keeps:
  assumes "canvas_step mf ws ws'" and "named mf" and "files_ok ws"
  shows "files_ok ws'"
  using assms(1)
proof cases
  case (claim uuid sha guardRes opts)
  then show ?thesis using cmd_keepsD [OF claimNext_keeps [OF assms(2)] assms(3)] by simp
next
  case (claim_block uuid sha guardRes ref dispatch)
  then show ?thesis using cmd_keepsD [OF claimBlock_keeps [OF assms(2)] assms(3)] by simp
next
  case (reset s scope)
  then show ?thesis using reset_keeps_schema [OF assms(3)] by simp
next
  case (feedback now fileHash report)
  then show ?thesis using submitFeedback_keeps [OF assms(3)] by simp
next
  case (submission env bopts artifact authority)
  then show ?thesis using submitBlock_keeps assms(3) by simp
next
  case (remote_complete env renv parseReview completion)
  then show ?thesis using port_complete_keeps assms(3) by simp
qed (simp_all add: cmd_keepsD [OF keeps_loadRuntime assms(3)] cmd_keepsD [OF markBlockBlocked_keeps assms(3)]
    cmd_keepsD [OF markBlockDiverged_keeps assms(3)] cmd_keepsD [OF unblockBlock_keeps assms(3)]
    cmd_keepsD [OF releaseInProgressBlock_keeps assms(3)] cmd_keepsD [OF resolveBlockDivergence_keeps assms(3)]
    cmd_keepsD [OF submitReview_keeps assms(3)] cmd_keepsD [OF port_claim_keeps assms(3)]
    cmd_keepsD [OF port_activate_keeps assms(3)] cmd_keepsD [OF port_reconcile_keeps assms(3)]
    cmd_keepsD [OF port_markInterrupted_keeps assms(3)] cmd_keepsD [OF port_resume_keeps assms(3)]
    cmd_keepsD [OF port_retry_keeps assms(3)] cmd_keepsD [OF port_fail_keeps assms(3)])

lemma canvas_history_keeps:
  assumes "(canvas_step mf)\<^sup>*\<^sup>* ws ws'" and "named mf" and "files_ok ws"
  shows "files_ok ws'"
  using assms(1) by (induction rule: rtranclp_induct) (use assms(2,3) canvas_step_keeps in auto)

section \<open>Commands while the plan is edited\<close>

text \<open>
  A canvas whose plan changes under way. A step edits the package, directly or by a command, an undo or a redo of the plan graph, or runs
  a command of the canvas on the manifest that the package holds then.
\<close>

inductive system_step :: "path \<Rightarrow> string list \<Rightarrow> (nat \<times> plan_state) \<times> workspace_files \<Rightarrow> (nat \<times> plan_state) \<times> workspace_files \<Rightarrow> bool"
  for root executors where
  editing: "edit_step root executors pk pk' \<Longrightarrow> system_step root executors ((t, pk, log), ws) ((t, pk', log), ws)"
| planning: "plan_step root executors x x' \<Longrightarrow> system_step root executors (x, ws) (x', ws)"
| running: "fs_root (ee_fs env) = root \<Longrightarrow> ee_executors env = executors \<Longrightarrow> loadPackage env pk = Inr mf \<Longrightarrow> canvas_step mf ws ws' \<Longrightarrow>
    system_step root executors ((t, pk, log), ws) ((t, pk, log), ws')"

definition system_ok :: "path \<Rightarrow> string list \<Rightarrow> (nat \<times> plan_state) \<times> workspace_files \<Rightarrow> bool" where
  "system_ok root executors x \<longleftrightarrow>
     sound_package root executors (fst (snd (fst x))) \<and> stacked (fst (fst x)) (snd (snd (fst x))) \<and> files_ok (snd x)"

lemma schema_named: "manifestSchema executors mf = Some mf' \<Longrightarrow> named mf'"
  by (auto simp: manifestSchema_def manifest_valid_def manifestNode_valid_def named_def list_all_iff parsed_node_def split: if_splits)

lemma load_named: "loadPackage env pk = Inr mf \<Longrightarrow> named mf"
  using schema_named [OF load_parsed] .

lemma system_step_keeps:
  assumes "system_step root executors x y" and "system_ok root executors x"
  shows "system_ok root executors y"
  using assms
proof cases
  case (editing pk pk' t log ws)
  with assms(2) edit_step_sound [OF editing(3)] show ?thesis by (simp add: system_ok_def)
next
  case (planning a a' ws)
  with assms(2) plan_step_keeps [of root executors "fst a" "snd a" "fst a'" "snd a'"] show ?thesis by (simp add: system_ok_def)
next
  case (running env pk mf ws ws' t log)
  from canvas_step_keeps [OF running(6) load_named [OF running(5)]] assms(2) running show ?thesis by (simp add: system_ok_def)
qed

lemma system_run_keeps: "(system_step root executors)\<^sup>*\<^sup>* x y \<Longrightarrow> system_ok root executors x \<Longrightarrow> system_ok root executors y"
  by (induction rule: rtranclp_induct) (auto dest: system_step_keeps)

section \<open>Claims behind the project guard\<close>

text \<open>The blocks that a committed claim started.\<close>

definition newly_started :: "claim_options \<Rightarrow> claim_result \<Rightarrow> string list \<Rightarrow> bool" where
  "newly_started opts res refs \<longleftrightarrow> \<not> co_dryRun opts \<and>
     (case res of
        BlockClaim c \<Rightarrow> \<not> co_parallel opts \<and> bc_reason c = Some Claimed \<and> refs = [bc_ref c]
      | BatchClaim rs _ ids _ \<Rightarrow> ids \<noteq> None \<and> refs = rs
      | _ \<Rightarrow> False)"

text \<open>What must be finished elsewhere before a task of this canvas may start.\<close>

definition released_by_project ::
  "(runtime_error \<Rightarrow> string) \<Rightarrow> (canvas_node \<Rightarrow> string) \<Rightarrow> project_disk \<Rightarrow> project_manifest \<Rightarrow> validation_issue list \<Rightarrow>
   string \<Rightarrow> string \<Rightarrow> bool" where
  "released_by_project errText packageDirOf disk m ds packageDir t \<longleftrightarrow>
     res_holds (\<lambda>pg. pg_errors pg = [])
       (compileProjectGraph errText (\<lambda>x. dk_package (disk x)) m FromProjectGraph ds) \<and>
     (case workspace_canvas packageDirOf disk m packageDir of
        None \<Rightarrow> False | Some c \<Rightarrow> upstream_done disk m c t)"

lemma loaded_graph:
  assumes "named mf" and "loaded_state mf ws = Inr s" and "compileTaskGraph mf = Inr g"
  shows "graph_named g" and "map_get (rs_blocks s) r = Some b \<Longrightarrow> r \<in> set (blockRefsInManifestOrder g)"
proof -
  from assms(2) obtain raw where raw: "readState (wf_state ws) = Inr raw" "ensureStateForManifest mf raw = Inr s"
    by (auto simp: loaded_state_def try_bind_eq_Inr)
  then have ctx: "context_ok mf \<lparr>rc_graph = g, rc_rawState = raw, rc_state = s\<rparr>"
    using assms(3) by (simp add: context_ok_def readState_valid)
  show "graph_named g" using context_loaded(1) [OF assms(1) ctx] by (simp add: loaded_def)
  show "map_get (rs_blocks s) r = Some b \<Longrightarrow> r \<in> set (blockRefsInManifestOrder g)"
    using context_block_known(1) [OF ctx] by simp
qed

lemma newly_started_unblocked:
  assumes "claimNext sha uuid (Inr guard) mf opts ws = (Inr res, ws')" and "newly_started opts res refs"
    and "named mf" and "\<forall>r. uuid r \<noteq> []" and "loaded_state mf ws = Inr s" and "compileTaskGraph mf = Inr g"
  shows "\<forall>r \<in> set refs. block_ready sha g s r \<and> unblocked guard g r" and "\<exists>cur. started uuid mf g s (set refs) cur ws'"
proof -
  have dry: "\<not> co_dryRun opts" using assms(2) by (simp add: newly_started_def)
  have "(\<forall>r \<in> set refs. block_ready sha g s r \<and> unblocked guard g r) \<and> (\<exists>cur. started uuid mf g s (set refs) cur ws')"
  proof (cases res)
    case (BlockClaim c)
    with assms(2) have c: "\<not> co_parallel opts" "bc_reason c = Some Claimed" "refs = [bc_ref c]"
      by (simp_all add: newly_started_def)
    from sequential_started [OF assms(1) [unfolded BlockClaim] dry c(1,2) assms(3-6)] c(3) show ?thesis by auto
  next
    case (BatchClaim rs ex ids cap)
    with assms(2) obtain js where c: "ids = Some js" "refs = rs" by (auto simp: newly_started_def)
    from parallel_started [OF assms(1) [unfolded BatchClaim c(1)] dry assms(3-6)] c(2) show ?thesis
      by (auto simp: batch_ok_def)
  qed (use assms(2) in \<open>simp_all add: newly_started_def\<close>)
  then show "\<forall>r \<in> set refs. block_ready sha g s r \<and> unblocked guard g r" "\<exists>cur. started uuid mf g s (set refs) cur ws'"
    by blast+
qed

lemma guard_releases:
  assumes "projectManifest_valid m" and "graph_named g" and "r \<in> set (blockRefsInManifestOrder g)"
    and "createProjectGraphClaimGuard errText packageDirOf disk m FromProjectGraph ds packageDir = Inr guard"
    and "unblocked guard g r"
  shows "released_by_project errText packageDirOf disk m ds packageDir (task_of g r)"
proof -
  from assms(4) obtain ag where ag: "guard = createProjectGraphClaimGuardFromAggregation packageDirOf packageDir ag"
    by (auto simp: createProjectGraphClaimGuard_def try_bind_eq_Inr)
  have "truthy (Some (task_of g r)) \<noteq> None"
    using block_of_get(3) [of g r] assms(2,3) by (auto simp: graph_named_def truthy_def)
  with project_guard.unblocked_iff(1) [OF assms(2,3)] assms(5) ag have "cg_blockersForTask guard (task_of g r) = []"
    by (auto simp: projectBlockers_def truthy_def split: if_splits)
  with guard_exact [OF assms(1), of errText packageDirOf disk FromProjectGraph ds packageDir] assms(4) show ?thesis
    by (auto simp: released_by_project_def)
qed

end
