(* ===== verification/Spec2Isabelle.thy ===== *)
theory Spec2Isabelle
  imports Workflow
begin

text \<open>
  \<^bold>\<open>The PlanWeave runtime.\<close> PlanWeave runs a plan (a package of tasks, each a list of implementation and
  review blocks) with coding agents. The part that decides what may run, what has run and what must be
  repeated is the runtime package, \<^verbatim>\<open>src/packages/runtime/src\<close>; this development models its core.
  A plan is the manifest of a canvas. Its progress is the file \<^verbatim>\<open>state.json\<close> and the result files beside it. Every
  command loads the manifest, compiles it to a graph, reconciles the stored state with the graph,
  acts, and writes the state back. Several canvases form a project whose graph holds claims back. The package of a plan can be edited
  while it runs: an edit is a mutation of the manifest with files to write or remove, committed against the manifest it was
  prepared from; the commands of the plan graph produce such mutations together with their inverses, and a log of them serves undo and redo.

  \<^bold>\<open>Theories and sources.\<close>
  \<^item> \<open>Prelude\<close>: results (\<^verbatim>\<open>throw\<close> as \<open>Inl\<close>), loops that may throw, the JavaScript map as locale
    \<open>ordered_map\<close> with its interpretation \<open>jm\<close> on association lists.
  \<^item> \<open>Plan_Model\<close>: \<^verbatim>\<open>types/manifest.ts\<close>, \<^verbatim>\<open>types/state.ts\<close>, \<^verbatim>\<open>schema/runtimeState.ts\<close>,
    \<^verbatim>\<open>schema/remoteOwnership.ts\<close>: the data and what the schemas accept.
  \<^item> \<open>Graph_Algorithms\<close>: \<^verbatim>\<open>projectGraph/graphAlgorithms.ts\<close> and the searches of
    \<^verbatim>\<open>graph/compileTaskGraph.ts\<close>; reachability decides the transitive closure, cycle search is sound and
    complete.
  \<^item> \<open>Task_Graph\<close>: \<^verbatim>\<open>graph/compileTaskGraph.ts\<close>, \<^verbatim>\<open>graph/blockRef.ts\<close>; the indexes of the compiled graph.
  \<^item> \<open>Remote_Ownership\<close>: \<^verbatim>\<open>taskManager/remoteOwnershipTransitions.ts\<close>; runs of remote operations on a block.
  \<^item> \<open>Runtime_State\<close>: \<^verbatim>\<open>state.ts\<close>; reconciliation and its contract \<open>reconciled\<close>.
  \<^item> \<open>Selectors\<close>, \<open>Claim_Readiness\<close>: \<^verbatim>\<open>taskManager/selectors.ts\<close>, \<^verbatim>\<open>claimReadiness.ts\<close>,
    \<^verbatim>\<open>claimReadinessRules.ts\<close>, \<^verbatim>\<open>claimHints.ts\<close>; the locale \<open>claim_guard_laws\<close> is the interface of a project guard.
  \<^item> \<open>Workspace\<close>: the files of a canvas and commands over them: \<^verbatim>\<open>runtimeContext.ts\<close>, \<^verbatim>\<open>resultIndex.ts\<close>,
    \<^verbatim>\<open>feedbackArtifacts.ts\<close>; \<open>cmd_keeps\<close> is the rule for invariants of commands.
  \<^item> \<open>Block_Mutations\<close>: \<^verbatim>\<open>blockStatusMutations.ts\<close>, \<^verbatim>\<open>reviewRetry.ts\<close>.
  \<^item> \<open>Claim_Scheduler\<close>: \<^verbatim>\<open>claimScheduler.ts\<close>, \<^verbatim>\<open>claimBlockDispatch.ts\<close>.
  \<^item> \<open>Submission\<close>: \<^verbatim>\<open>reviewSubmission.ts\<close>, \<^verbatim>\<open>reviewHook.ts\<close>, \<^verbatim>\<open>feedbackSubmission.ts\<close>.
  \<^item> \<open>Block_Submission\<close>, \<open>Submission_Recovery\<close>: \<^verbatim>\<open>blockSubmission.ts\<close>, \<^verbatim>\<open>implementationRunMetadata.ts\<close>, the artifact store
    of \<^verbatim>\<open>autoRun/artifactReferenceContract.ts\<close>; the files that an interrupted submission leaves.
  \<^item> \<open>Project_Graph\<close>: \<^verbatim>\<open>projectGraph/\<close> compilation and aggregation, \<^verbatim>\<open>projectGraphClaimGuard.ts\<close>; its guard
    is an interpretation of \<open>claim_guard_laws\<close>.
  \<^item> \<open>Remote_Port\<close>, \<open>Remote_Failure\<close>: \<^verbatim>\<open>remoteBlockRuntime.ts\<close> with the checks of \<^verbatim>\<open>remoteBlockInspection.ts\<close> and
    \<^verbatim>\<open>remoteBlockDispatchReadiness.ts\<close>: the operations a remote host calls to claim, run and give back a block.
  \<^item> \<open>Manifest_Schema\<close>: \<^verbatim>\<open>schema/manifest.ts\<close>: which manifests parse, and the normalization the parser applies.
  \<^item> \<open>Package_Files\<close>: the files of a package, \<^verbatim>\<open>package/resolvePackagePath.ts\<close>, and the side effects of an edit with
    their backups and rollback (\<^verbatim>\<open>graph/editGraph.ts\<close>).
  \<^item> \<open>Affected_Tasks\<close>: \<^verbatim>\<open>graph/affectedTasks.ts\<close>; the collected tasks are those reachable backwards from a change.
  \<^item> \<open>Graph_Edit\<close>, \<open>Field_Edit\<close>: \<^verbatim>\<open>graph/mutation.ts\<close>, \<^verbatim>\<open>graph/editGraph.ts\<close>, \<^verbatim>\<open>graph/dependencyEdit.ts\<close>,
    \<^verbatim>\<open>graph/fieldEditMutation.ts\<close>: mutations, their commit, and the edits of nodes, edges, dependencies and fields; \<open>edit_step\<close> is one edit.
  \<^item> \<open>Plan_Wellformed\<close>: the plans the compiler accepts, described without the compiler.
  \<^item> \<open>Plan_Commands\<close>: \<^verbatim>\<open>plangraph/commandHandlers/\<close>: the mutation and the inverse of each command.
  \<^item> \<open>Plan_History\<close>, \<open>Plan_Log\<close>: \<^verbatim>\<open>plangraph/executeCommand.ts\<close>, \<^verbatim>\<open>plangraph/packageRepository.ts\<close> and the log of
    \<^verbatim>\<open>plangraph/sqlite/storeFactory.ts\<close>; the log as an undo and a redo stack.
  \<^item> \<open>Plan_Undo\<close>, \<open>Undo_Restores\<close>: the inverses, one lemma per command, and the round trip.
  \<^item> \<open>Workflow\<close>: the commands of a canvas as steps of one relation, edits between them, and claims behind the project guard.

  \<^bold>\<open>How the code is translated.\<close> A TypeScript object is a record, a union a datatype, a
  \<^verbatim>\<open>Map\<close> or a plain object used as a map an association list in insertion order. \<^verbatim>\<open>undefined\<close> and
  \<^verbatim>\<open>null\<close> are \<open>None\<close> where the code treats them alike; \<open>truthy\<close> is the test of a string in a condition. A
  function that can throw returns \<open>Inl\<close> with a value of \<open>runtime_error\<close>, one constructor per \<^verbatim>\<open>throw\<close> or
  class of them. A command is a function from the files of the canvas to a result and the files it
  leaves, so the writes made before a \<^verbatim>\<open>throw\<close> stay. Locks make commands atomic towards each other and are
  not part of the model. Digests, clocks, random identities, the review hook process, the evidence
  of a remote source, the event log of a failed remote run, the paged run index, the answers and failures of the file system, the version of a package
  and the content of the other canvases' disks are arguments of the definitions
  that use them; where a property relies on them it says so (an identity is not empty, a digest is 64 hexadecimal
  digits, updating the paged run index succeeds).

  \<^bold>\<open>What the lemmas show.\<close>
  \<^item> Compilation: the indexes agree with the manifest, cycles are reported exactly when there are any, the
    searches decide the transitive closure, references parse back.
  \<^item> Reconciliation: it reaches a contract that does not mention the algorithm, is idempotent, total on
    what the schema accepts, and keeps started work.
  \<^item> Remote ownership: any run of transitions keeps the schema; old attempts are fenced off; receipts have a
    provenance; replays change nothing.
  \<^item> Claims: readiness never throws, batches respect capacity, conflicts and reviews, claims start exactly what they
    answer, hints are exact.
  \<^item> Submissions: a review submission has the effect of an abstract outcome, feedback is bounded, repeated and interrupted
    submissions are taken up and counted once.
  \<^item> Remote port: a remote claim starts a block only when a local claim could, a failure report goes through
    and may be repeated.
  \<^item> Projects: the guard is exact, the execution order topological.
  \<^item> Editing: a commit is all or nothing, an outdated mutation is never written, the affected tasks are exact, setting
    dependencies replaces just those; the compiler accepts exactly the well-formed plans.
  \<^item> Undo: each recorded inverse is accepted and restores the plan, except for the order of dependencies after two of the
    commands; the log behaves as two stacks; any history of commands, undos and redos leaves a sound package.
  \<^item> The whole: any history of commands leaves a readable state, also when the plan is edited in between; a claim waits for what
    the project graph puts before it.
  \<^item> Findings, each proved on a concrete input or in general: see the theorems \<open>reset_corrupts_remote_review\<close>,
    \<open>sequential_claim_drops_remote\<close>, \<open>compile_separator_throws\<close>, \<open>mixed_cycle_depends_on_order\<close>, \<open>remote_report_limit\<close>,
    \<open>remote_failures_block_local_submission\<close>, \<open>redo_refused_after_undo\<close>, \<open>remove_task_directory_root\<close>, \<open>undo_loses_dependency\<close>.

  \<^bold>\<open>Bounds and fuel.\<close> The promotion passes of reconciliation run until nothing changes; their bound is the
  number of blocks and tasks, and it is proved that the last pass changes nothing. The graph searches have their
  termination proved by the set of nodes not yet visited. The search for mixed cycles and the execution
  order recurse at most as deep as there are canvases: a deeper path would repeat a canvas, which the
  code's own marks exclude, and both are proved to return. Allocation tries 1000 identifiers, as the code does, and
  finds one when fewer are in use.

  \<^bold>\<open>Not modelled.\<close> The server, the agent host, the desktop application, the command line and the MCP server,
  which call the runtime or talk to it over a protocol; the executors of automatic runs and their
  processes; graph sessions and the quality report of a graph; of the plan graph the commands for the review pipeline, layouts and
  the project graph, and the tables that cache the graph; import transactions; prompt rendering; the doctor; loading and
  migrating project files; the inspection of a block before a remote dispatch, which renders its prompt and hashes the reports
  it depends on, and the source snapshots; remote transcripts and event logs; locks, symbolic links and file identities. The reset of reviews
  is modelled without the package edit that \<^verbatim>\<open>retryReview\<close> makes before it.
\<close>

section \<open>Properties of the whole\<close>



text \<open>C5: a claim on a canvas of a project starts only what the project graph releases. When
  \<^verbatim>\<open>claimNext\<close> commits, sequentially or as a batch, with the guard built from the files of the
  project, each block it started was ready; the project graph compiles without errors and lists the canvas; every
  canvas this one depends on is done on disk, and so is every task of another canvas that the block's task depends
  on. Exactly these blocks are started, and every other record is kept.\<close>

theorem claim_waits_for_upstream:
  assumes "claimNext sha uuid (createProjectGraphClaimGuard errText packageDirOf disk m FromProjectGraph ds packageDir)
      mf opts ws = (Inr res, ws')"
    and "newly_started opts res refs" and "projectManifest_valid m" and "named mf" and "\<forall>r. uuid r \<noteq> []"
    and "loaded_state mf ws = Inr s" and "compileTaskGraph mf = Inr g"
  shows "(\<forall>r \<in> set refs. block_ready sha g s r \<and>
      released_by_project errText packageDirOf disk m ds packageDir (task_of g r)) \<and>
    (\<exists>cur. started uuid mf g s (set refs) cur ws')"
proof -
  from guard_exact [OF assms(3), of errText packageDirOf disk FromProjectGraph ds packageDir] obtain guard where
    guard: "createProjectGraphClaimGuard errText packageDirOf disk m FromProjectGraph ds packageDir = Inr guard" by blast
  note st = newly_started_unblocked [OF assms(1) [unfolded guard] assms(2,4-7)]
  have "released_by_project errText packageDirOf disk m ds packageDir (task_of g r)" if "r \<in> set refs" for r
  proof (rule guard_releases [OF assms(3) loaded_graph(1) [OF assms(4,6,7)] _ guard])
    have "block_status_of s r = Some BReady" "unblocked guard g r" using st(1) that by (auto simp: block_ready_def)
    then show "r \<in> set (blockRefsInManifestOrder g)" "unblocked guard g r"
      using loaded_graph(2) [OF assms(4,6,7), of r] by (auto simp: block_status_of_def)
  qed
  with st show ?thesis by blast
qed

section \<open>Witnesses\<close>

text \<open>A first claim on an empty canvas, then the submission of its result.\<close>

definition claimed_files :: workspace_files where
  "claimed_files = snd (claimNext (\<lambda>_. []) sample_uuid (Inr noProjectGraphBlockers) sample_manifest (claim_in None None) empty_files)"

definition submitted_files :: workspace_files where
  "submitted_files = snd (submitBlockResultArtifact local_env sample_manifest local_submission (LegacyArtifact ''done'')
     LocalAuthority claimed_files)"



lemma claim_waits_for_upstream_witness:
  "\<exists>c ws' g s cur. claimNext (\<lambda>_. []) sample_uuid
       (createProjectGraphClaimGuard (\<lambda>_. []) cn_packageDir sample_disk sample_project FromProjectGraph [] ''app'')
       sample_manifest (claim_in None None) empty_files = (Inr (BlockClaim c), ws') \<and> bc_ref c = ''T1#B1'' \<and>
     released_by_project (\<lambda>_. []) cn_packageDir sample_disk sample_project [] ''app'' (task_of g ''T1#B1'') \<and>
     started sample_uuid sample_manifest g s {''T1#B1''} cur ws'"
proof -
  let ?gr = "createProjectGraphClaimGuard (\<lambda>_. []) cn_packageDir sample_disk sample_project FromProjectGraph [] ''app''"
  have "cmd_holds (\<lambda>r _. case r of BlockClaim c \<Rightarrow> bc_ref c = ''T1#B1'' \<and> bc_reason c = Some Claimed | _ \<Rightarrow> False)
      (claimNext (\<lambda>_. []) sample_uuid ?gr sample_manifest (claim_in None None) empty_files)" by code_simp
  then obtain c ws' where r: "claimNext (\<lambda>_. []) sample_uuid ?gr sample_manifest (claim_in None None) empty_files =
      (Inr (BlockClaim c), ws')" "bc_ref c = ''T1#B1''" "bc_reason c = Some Claimed"
    by (elim cmd_holdsE) (auto split: claim_result.splits)
  have n: "newly_started (claim_in None None) (BlockClaim c) [''T1#B1'']" using r by (simp add: newly_started_def claim_in_def)
  have v: "projectManifest_valid sample_project" by code_simp
  have m: "named sample_manifest" "\<forall>r. sample_uuid r \<noteq> []" by (simp_all add: named_def sample_manifest_def sample_uuid_def)
  have "res_holds (\<lambda>_. True) (loaded_state sample_manifest empty_files)"
    "res_holds (\<lambda>_. True) (compileTaskGraph sample_manifest)" by code_simp+
  then obtain s g where "loaded_state sample_manifest empty_files = Inr s" "compileTaskGraph sample_manifest = Inr g"
    by (auto elim!: res_holdsE)
  from claim_waits_for_upstream [OF r(1) n v m this] r(1,2) show ?thesis by auto
qed

end
